(* ===== verification/Prelude.thy ===== *)
theory Prelude
  imports Main "HOL-Library.Word" "HOL-Library.Char_ord" "HOL-Library.List_Lexorder"
    "HOL-Library.Product_Lexorder" "HOL-Library.Multiset"
begin

text \<open>
  Shared vocabulary of the development: bytes and results, the control flow of the Python
  sources (raising, guarding, looking an enum member up by value), the collections of
  simplification rules the components extend, and two interfaces every component uses:
  closed string enums and transition systems with an inductive invariant.
\<close>

section \<open>Collections of rules\<close>

named_theorems result_simps "rules that resolve the control flow of fallible operations"
named_theorems step_intros "introduction rules of the step relations"

section \<open>Bytes and results\<close>

type_synonym byte = "8 word"
type_synonym bytes = "byte list"

text \<open>
  A Python call either raises (\<open>Inl\<close>) or returns (\<open>Inr\<close>). \<open>bind_result\<close> is the
  sequencing of statements, \<open>ensure\<close> a guard \<^verbatim>\<open>if not ok: raise error\<close>.
\<close>

type_synonym ('e, 'a) result = "'e + 'a"

definition bind_result :: "('e, 'a) result \<Rightarrow> ('a \<Rightarrow> ('e, 'b) result) \<Rightarrow> ('e, 'b) result" where
  "bind_result r k = (case r of Inl e \<Rightarrow> Inl e | Inr x \<Rightarrow> k x)"

definition ensure :: "bool \<Rightarrow> 'e \<Rightarrow> ('e, unit) result" where
  "ensure ok e = (if ok then Inr () else Inl e)"

lemma bind_result_Inl [simp]: "bind_result (Inl e) k = Inl e"
  by (simp add: bind_result_def)

lemma bind_result_Inr [simp]: "bind_result (Inr x) k = k x"
  by (simp add: bind_result_def)

lemma bind_result_eq_Inr [result_simps]:
  "bind_result r k = Inr y \<longleftrightarrow> (\<exists>x. r = Inr x \<and> k x = Inr y)"
  by (cases r) simp_all

lemma bind_result_eq_Inl [result_simps]:
  "bind_result r k = Inl e \<longleftrightarrow> r = Inl e \<or> (\<exists>x. r = Inr x \<and> k x = Inl e)"
  by (cases r) simp_all

lemma ensure_True [simp]: "ensure True e = Inr ()"
  by (simp add: ensure_def)

lemma ensure_False [simp]: "ensure False e = Inl e"
  by (simp add: ensure_def)

lemma ensure_eq_Inr [simp]: "ensure ok e = Inr u \<longleftrightarrow> ok"
  by (simp add: ensure_def)

lemma ensure_eq_Inl [simp]: "ensure ok e = Inl e' \<longleftrightarrow> \<not> ok \<and> e' = e"
  by (auto simp: ensure_def)

lemma bind_ensure_eq_Inr [result_simps]:
  "bind_result (ensure ok e) k = Inr y \<longleftrightarrow> ok \<and> k () = Inr y"
  by (cases ok) simp_all

lemma bind_ensure: "bind_result (ensure ok e) k = (if ok then k () else Inl e)"
  by simp

text \<open>A loop over a list that stops at the first exception.\<close>

fun for_each :: "('a \<Rightarrow> ('e, unit) result) \<Rightarrow> 'a list \<Rightarrow> ('e, unit) result" where
  "for_each f [] = Inr ()"
| "for_each f (x # xs) = bind_result (f x) (\<lambda>_. for_each f xs)"

lemma for_each_eq_Inr [simp]: "for_each f xs = Inr u \<longleftrightarrow> (\<forall>x\<in>set xs. f x = Inr ())"
  by (induction xs) (auto simp: result_simps)

lemma for_each_eq_InlD: "for_each f xs = Inl e \<Longrightarrow> \<exists>x\<in>set xs. f x = Inl e"
  by (induction xs) (auto simp: result_simps)

text \<open>Building a list with a fallible element function, as a generator inside \<^verbatim>\<open>tuple(...)\<close>.\<close>

fun map_result :: "('a \<Rightarrow> ('e, 'b) result) \<Rightarrow> 'a list \<Rightarrow> ('e, 'b list) result" where
  "map_result f [] = Inr []"
| "map_result f (x # xs) =
     bind_result (f x) (\<lambda>y. bind_result (map_result f xs) (\<lambda>ys. Inr (y # ys)))"

lemma map_result_Inr:
  "map_result f xs = Inr ys \<Longrightarrow> length ys = length xs \<and> (\<forall>i<length xs. f (xs ! i) = Inr (ys ! i))"
proof (induction xs arbitrary: ys)
  case Nil
  then show ?case by simp
next
  case (Cons x xs)
  then obtain y zs where "f x = Inr y" "map_result f xs = Inr zs" "ys = y # zs"
    by (auto simp: result_simps)
  with Cons.IH show ?case by (auto simp: nth_Cons split: nat.splits)
qed

lemma map_result_total:
  assumes "\<And>x. x \<in> set xs \<Longrightarrow> f x = Inr (g x)"
  shows "map_result f xs = Inr (map g xs)"
  using assms by (induction xs) simp_all

section \<open>Text helpers of the standard library\<close>

text \<open>\<^verbatim>\<open>text.split(sep)\<close> for a one-character separator, and \<^verbatim>\<open>sep.join(parts)\<close>.\<close>

fun split_on :: "'a \<Rightarrow> 'a list \<Rightarrow> 'a list list" where
  "split_on sep [] = [[]]"
| "split_on sep (x # xs) =
     (if x = sep then [] # split_on sep xs
      else (case split_on sep xs of [] \<Rightarrow> [[x]] | p # ps \<Rightarrow> (x # p) # ps))"

fun join_with :: "'a \<Rightarrow> 'a list list \<Rightarrow> 'a list" where
  "join_with sep [] = []"
| "join_with sep [p] = p"
| "join_with sep (p # q # ps) = p @ sep # join_with sep (q # ps)"

lemma split_on_not_Nil [simp]: "split_on sep xs \<noteq> []"
  by (induction xs) (auto split: list.splits)

lemma join_split [simp]: "join_with sep (split_on sep xs) = xs"
proof (induction xs)
  case Nil
  then show ?case by simp
next
  case (Cons x xs)
  moreover obtain p ps where "split_on sep xs = p # ps"
    by (meson neq_Nil_conv split_on_not_Nil)
  ultimately show ?case by (cases ps) auto
qed

lemma split_on_parts: "p \<in> set (split_on sep xs) \<Longrightarrow> sep \<notin> set p"
  by (induction xs arbitrary: p) (auto split: list.splits if_splits)

lemma split_on_single: "sep \<notin> set p \<Longrightarrow> split_on sep p = [p]"
  by (induction p) auto

lemma split_on_append: "sep \<notin> set p \<Longrightarrow> split_on sep (p @ sep # rest) = p # split_on sep rest"
  by (induction p) auto

lemma split_join:
  "ps \<noteq> [] \<Longrightarrow> \<forall>p\<in>set ps. sep \<notin> set p \<Longrightarrow> split_on sep (join_with sep ps) = ps"
  by (induction sep ps rule: join_with.induct) (auto simp: split_on_single split_on_append)

text \<open>Decimal rendering of integers, \<^verbatim>\<open>str(n)\<close>.\<close>

fun nat_str :: "nat \<Rightarrow> string" where
  "nat_str n = (if n < 10 then [char_of (48 + n)] else nat_str (n div 10) @ [char_of (48 + n mod 10)])"

declare nat_str.simps [simp del]

definition int_str :: "int \<Rightarrow> string" where
  "int_str i = (if i < 0 then CHR ''-'' # nat_str (nat (- i)) else nat_str (nat i))"

section \<open>Closed string enums\<close>

text \<open>
  \<^verbatim>\<open>Kind(text)\<close> on a \<^verbatim>\<open>StrEnum\<close> finds the member with that value or raises.
\<close>

definition enum_lookup :: "('a \<Rightarrow> string) \<Rightarrow> 'a list \<Rightarrow> string \<Rightarrow> 'a option" where
  "enum_lookup value_of members text = find (\<lambda>m. value_of m = text) members"

locale str_enum =
  fixes value_of :: "'a \<Rightarrow> string"
    and members :: "'a list"
  assumes complete: "x \<in> set members"
    and unique_values: "distinct (map value_of members)"
begin

lemma value_inj: "value_of x = value_of y \<Longrightarrow> x = y"
  using unique_values complete by (auto simp: distinct_map dest: inj_onD)

lemma lookup_value: "enum_lookup value_of members (value_of x) = Some x"
proof -
  have "\<exists>m\<in>set members. value_of m = value_of x"
    using complete by blast
  then obtain m where "find (\<lambda>m. value_of m = value_of x) members = Some m"
    by (fastforce simp: find_None_iff dest: not_None_eq [THEN iffD1, rotated])
  moreover from this have "value_of m = value_of x"
    by (auto simp: find_Some_iff)
  ultimately show ?thesis by (auto simp: enum_lookup_def dest: value_inj)
qed

lemma lookup_SomeD: "enum_lookup value_of members text = Some x \<Longrightarrow> value_of x = text"
  by (auto simp: enum_lookup_def find_Some_iff)

lemma lookup_iff: "enum_lookup value_of members text = Some x \<longleftrightarrow> text = value_of x"
  using lookup_value lookup_SomeD by blast

end

section \<open>Transition systems with an invariant\<close>

text \<open>
  States reachable from an initial state by steps, each step carrying the event it
  performs. \<open>trace s es t\<close> is a run from \<open>s\<close> to \<open>t\<close> whose steps perform \<open>es\<close>.
\<close>

inductive trace :: "('s \<Rightarrow> 'e \<Rightarrow> 's \<Rightarrow> bool) \<Rightarrow> 's \<Rightarrow> 'e list \<Rightarrow> 's \<Rightarrow> bool"
  for step :: "'s \<Rightarrow> 'e \<Rightarrow> 's \<Rightarrow> bool" where
  trace_nil: "trace step s [] s"
| trace_snoc: "trace step s es t \<Longrightarrow> step t e u \<Longrightarrow> trace step s (es @ [e]) u"

lemma trace_append:
  assumes "trace step s es t" and "trace step t fs u"
  shows "trace step s (es @ fs) u"
  using assms(2,1)
proof (induction rule: trace.induct)
  case (trace_nil t)
  then show ?case by simp
next
  case (trace_snoc t fs u f v)
  then show ?case using trace.trace_snoc [of step s "es @ fs" u f v] by simp
qed

lemma trace_single: "step s e t \<Longrightarrow> trace step s [e] t"
  using trace_snoc [OF trace_nil] by fastforce

lemma trace_Cons: "step s e t \<Longrightarrow> trace step t es u \<Longrightarrow> trace step s (e # es) u"
  using trace_append [OF trace_single] by fastforce

locale invariant_system =
  fixes step :: "'s \<Rightarrow> 'e \<Rightarrow> 's \<Rightarrow> bool"
    and inv :: "'s \<Rightarrow> bool"
  assumes step_inv: "inv s \<Longrightarrow> step s e t \<Longrightarrow> inv t"
begin

lemma trace_inv: "trace step s es t \<Longrightarrow> inv s \<Longrightarrow> inv t"
  by (induction rule: trace.induct) (auto intro: step_inv)

end

end
