(* ===== verification/Kinds.thy ===== *)
theory Kinds
  imports Prelude
begin

text \<open>
  The closed vocabularies of \<^verbatim>\<open>core/kinds.py\<close> and the exceptions of
  \<^verbatim>\<open>core/errors.py\<close>. Every \<^verbatim>\<open>StrEnum\<close> is a datatype with the source's members,
  the wire spelling of each member, and the member list \<^verbatim>\<open>Kind(text)\<close> searches. The
  interpretations of \<open>str_enum\<close> discharge \<^verbatim>\<open>@verify(UNIQUE)\<close>: spellings identify
  members, so every enum field of a record round-trips through its wire form.
\<close>

section \<open>Enums and their wire spellings\<close>

datatype RuntimeKind =
    ISOLATED_HOST_PYTHON

fun RuntimeKind_value :: "RuntimeKind \<Rightarrow> string" where
  "RuntimeKind_value RuntimeKind.ISOLATED_HOST_PYTHON = ''isolated_host_python''"

definition RuntimeKind_members :: "RuntimeKind list" where
  "RuntimeKind_members = [RuntimeKind.ISOLATED_HOST_PYTHON]"

datatype RecordState =
    PREPARED
  | RUNNING
  | FINALIZED

fun RecordState_value :: "RecordState \<Rightarrow> string" where
  "RecordState_value RecordState.PREPARED = ''prepared''"
| "RecordState_value RecordState.RUNNING = ''running''"
| "RecordState_value RecordState.FINALIZED = ''finalized''"

definition RecordState_members :: "RecordState list" where
  "RecordState_members = [RecordState.PREPARED, RecordState.RUNNING, RecordState.FINALIZED]"

datatype EnvGrantKind =
    NONE
  | NAMED
  | FIXED
  | OVERLAY

fun EnvGrantKind_value :: "EnvGrantKind \<Rightarrow> string" where
  "EnvGrantKind_value EnvGrantKind.NONE = ''none''"
| "EnvGrantKind_value EnvGrantKind.NAMED = ''named''"
| "EnvGrantKind_value EnvGrantKind.FIXED = ''fixed''"
| "EnvGrantKind_value EnvGrantKind.OVERLAY = ''overlay''"

definition EnvGrantKind_members :: "EnvGrantKind list" where
  "EnvGrantKind_members = [EnvGrantKind.NONE, EnvGrantKind.NAMED, EnvGrantKind.FIXED, EnvGrantKind.OVERLAY]"

datatype WorkingDirectoryGrantKind =
    SCRATCH
  | CALLER

fun WorkingDirectoryGrantKind_value :: "WorkingDirectoryGrantKind \<Rightarrow> string" where
  "WorkingDirectoryGrantKind_value WorkingDirectoryGrantKind.SCRATCH = ''scratch''"
| "WorkingDirectoryGrantKind_value WorkingDirectoryGrantKind.CALLER = ''caller''"

definition WorkingDirectoryGrantKind_members :: "WorkingDirectoryGrantKind list" where
  "WorkingDirectoryGrantKind_members = [WorkingDirectoryGrantKind.SCRATCH, WorkingDirectoryGrantKind.CALLER]"

datatype LimitKind =
    UNBUDGETED
  | FINITE

fun LimitKind_value :: "LimitKind \<Rightarrow> string" where
  "LimitKind_value LimitKind.UNBUDGETED = ''unbudgeted''"
| "LimitKind_value LimitKind.FINITE = ''finite''"

definition LimitKind_members :: "LimitKind list" where
  "LimitKind_members = [LimitKind.UNBUDGETED, LimitKind.FINITE]"

datatype OutputOverflowPolicy =
    FAIL
  | MARKED_TRUNCATION

fun OutputOverflowPolicy_value :: "OutputOverflowPolicy \<Rightarrow> string" where
  "OutputOverflowPolicy_value OutputOverflowPolicy.FAIL = ''fail''"
| "OutputOverflowPolicy_value OutputOverflowPolicy.MARKED_TRUNCATION = ''marked_truncation''"

definition OutputOverflowPolicy_members :: "OutputOverflowPolicy list" where
  "OutputOverflowPolicy_members = [OutputOverflowPolicy.FAIL, OutputOverflowPolicy.MARKED_TRUNCATION]"

datatype ExecutionTargetKind =
    TRUSTED_COMMAND
  | TRUSTED_PYTHON
  | UNTRUSTED_COMMAND
  | UNTRUSTED_PYTHON
  | IN_PROCESS_IMPORTABLE_JSON

fun ExecutionTargetKind_value :: "ExecutionTargetKind \<Rightarrow> string" where
  "ExecutionTargetKind_value ExecutionTargetKind.TRUSTED_COMMAND = ''trusted_command''"
| "ExecutionTargetKind_value ExecutionTargetKind.TRUSTED_PYTHON = ''trusted_python''"
| "ExecutionTargetKind_value ExecutionTargetKind.UNTRUSTED_COMMAND = ''untrusted_command''"
| "ExecutionTargetKind_value ExecutionTargetKind.UNTRUSTED_PYTHON = ''untrusted_python''"
| "ExecutionTargetKind_value ExecutionTargetKind.IN_PROCESS_IMPORTABLE_JSON = ''in_process_importable_json''"

definition ExecutionTargetKind_members :: "ExecutionTargetKind list" where
  "ExecutionTargetKind_members = [ExecutionTargetKind.TRUSTED_COMMAND, ExecutionTargetKind.TRUSTED_PYTHON, ExecutionTargetKind.UNTRUSTED_COMMAND, ExecutionTargetKind.UNTRUSTED_PYTHON, ExecutionTargetKind.IN_PROCESS_IMPORTABLE_JSON]"

datatype ContainmentProfile =
    PROCESS_BOUNDARY_ONLY

fun ContainmentProfile_value :: "ContainmentProfile \<Rightarrow> string" where
  "ContainmentProfile_value ContainmentProfile.PROCESS_BOUNDARY_ONLY = ''process_boundary_only''"

definition ContainmentProfile_members :: "ContainmentProfile list" where
  "ContainmentProfile_members = [ContainmentProfile.PROCESS_BOUNDARY_ONLY]"

datatype OutcomeKind =
    EXITED
  | SIGNALED
  | SPAWN_ABSENT
  | SPAWN_FAILED
  | BUDGET_EXCEEDED
  | PROTOCOL_FAILED
  | CANCELLED

fun OutcomeKind_value :: "OutcomeKind \<Rightarrow> string" where
  "OutcomeKind_value OutcomeKind.EXITED = ''exited''"
| "OutcomeKind_value OutcomeKind.SIGNALED = ''signaled''"
| "OutcomeKind_value OutcomeKind.SPAWN_ABSENT = ''spawn_absent''"
| "OutcomeKind_value OutcomeKind.SPAWN_FAILED = ''spawn_failed''"
| "OutcomeKind_value OutcomeKind.BUDGET_EXCEEDED = ''budget_exceeded''"
| "OutcomeKind_value OutcomeKind.PROTOCOL_FAILED = ''protocol_failed''"
| "OutcomeKind_value OutcomeKind.CANCELLED = ''cancelled''"

definition OutcomeKind_members :: "OutcomeKind list" where
  "OutcomeKind_members = [OutcomeKind.EXITED, OutcomeKind.SIGNALED, OutcomeKind.SPAWN_ABSENT, OutcomeKind.SPAWN_FAILED, OutcomeKind.BUDGET_EXCEEDED, OutcomeKind.PROTOCOL_FAILED, OutcomeKind.CANCELLED]"

datatype BudgetAxis =
    WALL_TIME
  | INPUT_BYTES
  | PAYLOAD_OUTPUT
  | MEMORY_BYTES
  | CPU_TIME
  | PROCESS_COUNT
  | FILE_SIZE_BYTES
  | OPEN_FILE_COUNT
  | DISK_BYTES

fun BudgetAxis_value :: "BudgetAxis \<Rightarrow> string" where
  "BudgetAxis_value BudgetAxis.WALL_TIME = ''wall_time''"
| "BudgetAxis_value BudgetAxis.INPUT_BYTES = ''input_bytes''"
| "BudgetAxis_value BudgetAxis.PAYLOAD_OUTPUT = ''payload_output''"
| "BudgetAxis_value BudgetAxis.MEMORY_BYTES = ''memory_bytes''"
| "BudgetAxis_value BudgetAxis.CPU_TIME = ''cpu_time''"
| "BudgetAxis_value BudgetAxis.PROCESS_COUNT = ''process_count''"
| "BudgetAxis_value BudgetAxis.FILE_SIZE_BYTES = ''file_size_bytes''"
| "BudgetAxis_value BudgetAxis.OPEN_FILE_COUNT = ''open_file_count''"
| "BudgetAxis_value BudgetAxis.DISK_BYTES = ''disk_bytes''"

definition BudgetAxis_members :: "BudgetAxis list" where
  "BudgetAxis_members = [BudgetAxis.WALL_TIME, BudgetAxis.INPUT_BYTES, BudgetAxis.PAYLOAD_OUTPUT, BudgetAxis.MEMORY_BYTES, BudgetAxis.CPU_TIME, BudgetAxis.PROCESS_COUNT, BudgetAxis.FILE_SIZE_BYTES, BudgetAxis.OPEN_FILE_COUNT, BudgetAxis.DISK_BYTES]"

datatype ProtocolFailureCode =
    MALFORMED_FRAME
  | OVERSIZED_FRAME
  | UNEXPECTED_FRAME
  | ID_MISMATCH
  | DUPLICATE_OUTPUT
  | INCOMPLETE_STREAM

fun ProtocolFailureCode_value :: "ProtocolFailureCode \<Rightarrow> string" where
  "ProtocolFailureCode_value ProtocolFailureCode.MALFORMED_FRAME = ''malformed_frame''"
| "ProtocolFailureCode_value ProtocolFailureCode.OVERSIZED_FRAME = ''oversized_frame''"
| "ProtocolFailureCode_value ProtocolFailureCode.UNEXPECTED_FRAME = ''unexpected_frame''"
| "ProtocolFailureCode_value ProtocolFailureCode.ID_MISMATCH = ''id_mismatch''"
| "ProtocolFailureCode_value ProtocolFailureCode.DUPLICATE_OUTPUT = ''duplicate_output''"
| "ProtocolFailureCode_value ProtocolFailureCode.INCOMPLETE_STREAM = ''incomplete_stream''"

definition ProtocolFailureCode_members :: "ProtocolFailureCode list" where
  "ProtocolFailureCode_members = [ProtocolFailureCode.MALFORMED_FRAME, ProtocolFailureCode.OVERSIZED_FRAME, ProtocolFailureCode.UNEXPECTED_FRAME, ProtocolFailureCode.ID_MISMATCH, ProtocolFailureCode.DUPLICATE_OUTPUT, ProtocolFailureCode.INCOMPLETE_STREAM]"

datatype ExecutorFailureCode =
    TARGET_NOT_SUPPORTED
  | BOOTSTRAP_TIMEOUT
  | TRANSPORT_WORKER_FAILED
  | STDIN_TRANSPORT_TAKEN
  | PROTOCOL_TRANSPORT_TAKEN
  | TRANSPORT_JOIN_TIMEOUT
  | BOOTSTRAP_START_FAILED
  | RECORDING_OPERATION_FAILED
  | POOL_CAPACITY_UNRESOLVED
  | POOL_INVALID_STATE
  | POOL_WRONG_EVENT_LOOP
  | POOL_NO_SCHEDULER
  | SCHEDULER_BROKEN
  | WORKER_POOL_TARGET_MISMATCH
  | WORKER_POOL_ENTRY_POINT_MISMATCH
  | IMPORTABLE_JSON_TARGET_MISMATCH
  | FAKE_NO_RESPONSE
  | FAKE_RECEIPT_MISMATCH

fun ExecutorFailureCode_value :: "ExecutorFailureCode \<Rightarrow> string" where
  "ExecutorFailureCode_value ExecutorFailureCode.TARGET_NOT_SUPPORTED = ''target_not_supported''"
| "ExecutorFailureCode_value ExecutorFailureCode.BOOTSTRAP_TIMEOUT = ''bootstrap_timeout''"
| "ExecutorFailureCode_value ExecutorFailureCode.TRANSPORT_WORKER_FAILED = ''transport_worker_failed''"
| "ExecutorFailureCode_value ExecutorFailureCode.STDIN_TRANSPORT_TAKEN = ''stdin_transport_taken''"
| "ExecutorFailureCode_value ExecutorFailureCode.PROTOCOL_TRANSPORT_TAKEN = ''protocol_transport_taken''"
| "ExecutorFailureCode_value ExecutorFailureCode.TRANSPORT_JOIN_TIMEOUT = ''transport_join_timeout''"
| "ExecutorFailureCode_value ExecutorFailureCode.BOOTSTRAP_START_FAILED = ''bootstrap_start_failed''"
| "ExecutorFailureCode_value ExecutorFailureCode.RECORDING_OPERATION_FAILED = ''recording_operation_failed''"
| "ExecutorFailureCode_value ExecutorFailureCode.POOL_CAPACITY_UNRESOLVED = ''pool_capacity_unresolved''"
| "ExecutorFailureCode_value ExecutorFailureCode.POOL_INVALID_STATE = ''pool_invalid_state''"
| "ExecutorFailureCode_value ExecutorFailureCode.POOL_WRONG_EVENT_LOOP = ''pool_wrong_event_loop''"
| "ExecutorFailureCode_value ExecutorFailureCode.POOL_NO_SCHEDULER = ''pool_no_scheduler''"
| "ExecutorFailureCode_value ExecutorFailureCode.SCHEDULER_BROKEN = ''scheduler_broken''"
| "ExecutorFailureCode_value ExecutorFailureCode.WORKER_POOL_TARGET_MISMATCH = ''worker_pool_target_mismatch''"
| "ExecutorFailureCode_value ExecutorFailureCode.WORKER_POOL_ENTRY_POINT_MISMATCH = ''worker_pool_entry_point_mismatch''"
| "ExecutorFailureCode_value ExecutorFailureCode.IMPORTABLE_JSON_TARGET_MISMATCH = ''importable_json_target_mismatch''"
| "ExecutorFailureCode_value ExecutorFailureCode.FAKE_NO_RESPONSE = ''fake_no_response''"
| "ExecutorFailureCode_value ExecutorFailureCode.FAKE_RECEIPT_MISMATCH = ''fake_receipt_mismatch''"

definition ExecutorFailureCode_members :: "ExecutorFailureCode list" where
  "ExecutorFailureCode_members = [ExecutorFailureCode.TARGET_NOT_SUPPORTED, ExecutorFailureCode.BOOTSTRAP_TIMEOUT, ExecutorFailureCode.TRANSPORT_WORKER_FAILED, ExecutorFailureCode.STDIN_TRANSPORT_TAKEN, ExecutorFailureCode.PROTOCOL_TRANSPORT_TAKEN, ExecutorFailureCode.TRANSPORT_JOIN_TIMEOUT, ExecutorFailureCode.BOOTSTRAP_START_FAILED, ExecutorFailureCode.RECORDING_OPERATION_FAILED, ExecutorFailureCode.POOL_CAPACITY_UNRESOLVED, ExecutorFailureCode.POOL_INVALID_STATE, ExecutorFailureCode.POOL_WRONG_EVENT_LOOP, ExecutorFailureCode.POOL_NO_SCHEDULER, ExecutorFailureCode.SCHEDULER_BROKEN, ExecutorFailureCode.WORKER_POOL_TARGET_MISMATCH, ExecutorFailureCode.WORKER_POOL_ENTRY_POINT_MISMATCH, ExecutorFailureCode.IMPORTABLE_JSON_TARGET_MISMATCH, ExecutorFailureCode.FAKE_NO_RESPONSE, ExecutorFailureCode.FAKE_RECEIPT_MISMATCH]"

datatype FailureOwner =
    NONE
  | PAYLOAD
  | EXECUTOR
  | MACHINE

fun FailureOwner_value :: "FailureOwner \<Rightarrow> string" where
  "FailureOwner_value FailureOwner.NONE = ''none''"
| "FailureOwner_value FailureOwner.PAYLOAD = ''payload''"
| "FailureOwner_value FailureOwner.EXECUTOR = ''executor''"
| "FailureOwner_value FailureOwner.MACHINE = ''machine''"

definition FailureOwner_members :: "FailureOwner list" where
  "FailureOwner_members = [FailureOwner.NONE, FailureOwner.PAYLOAD, FailureOwner.EXECUTOR, FailureOwner.MACHINE]"

datatype RecordReceiptKind =
    COMPLETE
  | DEGRADED
  | NOT_APPLICABLE
  | IN_PROCESS
  | WORKER_POOL

fun RecordReceiptKind_value :: "RecordReceiptKind \<Rightarrow> string" where
  "RecordReceiptKind_value RecordReceiptKind.COMPLETE = ''complete''"
| "RecordReceiptKind_value RecordReceiptKind.DEGRADED = ''degraded''"
| "RecordReceiptKind_value RecordReceiptKind.NOT_APPLICABLE = ''not_applicable''"
| "RecordReceiptKind_value RecordReceiptKind.IN_PROCESS = ''in_process''"
| "RecordReceiptKind_value RecordReceiptKind.WORKER_POOL = ''worker_pool''"

definition RecordReceiptKind_members :: "RecordReceiptKind list" where
  "RecordReceiptKind_members = [RecordReceiptKind.COMPLETE, RecordReceiptKind.DEGRADED, RecordReceiptKind.NOT_APPLICABLE, RecordReceiptKind.IN_PROCESS, RecordReceiptKind.WORKER_POOL]"

datatype CapacitySource =
    AUTO
  | FIXED

fun CapacitySource_value :: "CapacitySource \<Rightarrow> string" where
  "CapacitySource_value CapacitySource.AUTO = ''auto''"
| "CapacitySource_value CapacitySource.FIXED = ''fixed''"

definition CapacitySource_members :: "CapacitySource list" where
  "CapacitySource_members = [CapacitySource.AUTO, CapacitySource.FIXED]"

datatype ExecutionPoolState =
    CREATED
  | RUNNING
  | DRAINING
  | CLOSED
  | BROKEN

fun ExecutionPoolState_value :: "ExecutionPoolState \<Rightarrow> string" where
  "ExecutionPoolState_value ExecutionPoolState.CREATED = ''created''"
| "ExecutionPoolState_value ExecutionPoolState.RUNNING = ''running''"
| "ExecutionPoolState_value ExecutionPoolState.DRAINING = ''draining''"
| "ExecutionPoolState_value ExecutionPoolState.CLOSED = ''closed''"
| "ExecutionPoolState_value ExecutionPoolState.BROKEN = ''broken''"

definition ExecutionPoolState_members :: "ExecutionPoolState list" where
  "ExecutionPoolState_members = [ExecutionPoolState.CREATED, ExecutionPoolState.RUNNING, ExecutionPoolState.DRAINING, ExecutionPoolState.CLOSED, ExecutionPoolState.BROKEN]"

datatype ProtocolFrameKind =
    PRELUDE
  | OUTPUT
  | COMPLETE

fun ProtocolFrameKind_value :: "ProtocolFrameKind \<Rightarrow> string" where
  "ProtocolFrameKind_value ProtocolFrameKind.PRELUDE = ''prelude''"
| "ProtocolFrameKind_value ProtocolFrameKind.OUTPUT = ''output''"
| "ProtocolFrameKind_value ProtocolFrameKind.COMPLETE = ''complete''"

definition ProtocolFrameKind_members :: "ProtocolFrameKind list" where
  "ProtocolFrameKind_members = [ProtocolFrameKind.PRELUDE, ProtocolFrameKind.OUTPUT, ProtocolFrameKind.COMPLETE]"

section \<open>Exceptions\<close>

text \<open>
  \<^verbatim>\<open>SchedulerBroken\<close> is the \<open>ExecutorFailure\<close> with code \<open>SCHEDULER_BROKEN\<close>. The
  built-in exceptions are those the modelled code raises itself.
\<close>

datatype py_exn =
    ValueError string
  | TypeError string
  | KeyError string
  | IndexError
  | AssertionError string
  | OSError "int option"
  | DeclarationError string
  | ExecutorFailure string ExecutorFailureCode
  | RecordLoadError string

fun exn_failure_code :: "py_exn \<Rightarrow> ExecutorFailureCode option" where
  "exn_failure_code (ExecutorFailure _ code) = Some code"
| "exn_failure_code _ = None"

section \<open>Every enum is closed and spelled uniquely\<close>

interpretation runtime_kind: str_enum RuntimeKind_value RuntimeKind_members
proof
  show "x \<in> set RuntimeKind_members" for x
    by (cases x) (simp_all add: RuntimeKind_members_def)
  show "distinct (map RuntimeKind_value RuntimeKind_members)"
    by (simp add: RuntimeKind_members_def)
qed

interpretation record_state: str_enum RecordState_value RecordState_members
proof
  show "x \<in> set RecordState_members" for x
    by (cases x) (simp_all add: RecordState_members_def)
  show "distinct (map RecordState_value RecordState_members)"
    by (simp add: RecordState_members_def)
qed

interpretation env_grant_kind: str_enum EnvGrantKind_value EnvGrantKind_members
proof
  show "x \<in> set EnvGrantKind_members" for x
    by (cases x) (simp_all add: EnvGrantKind_members_def)
  show "distinct (map EnvGrantKind_value EnvGrantKind_members)"
    by (simp add: EnvGrantKind_members_def)
qed

interpretation working_directory_grant_kind: str_enum WorkingDirectoryGrantKind_value WorkingDirectoryGrantKind_members
proof
  show "x \<in> set WorkingDirectoryGrantKind_members" for x
    by (cases x) (simp_all add: WorkingDirectoryGrantKind_members_def)
  show "distinct (map WorkingDirectoryGrantKind_value WorkingDirectoryGrantKind_members)"
    by (simp add: WorkingDirectoryGrantKind_members_def)
qed

interpretation limit_kind: str_enum LimitKind_value LimitKind_members
proof
  show "x \<in> set LimitKind_members" for x
    by (cases x) (simp_all add: LimitKind_members_def)
  show "distinct (map LimitKind_value LimitKind_members)"
    by (simp add: LimitKind_members_def)
qed

interpretation output_overflow_policy: str_enum OutputOverflowPolicy_value OutputOverflowPolicy_members
proof
  show "x \<in> set OutputOverflowPolicy_members" for x
    by (cases x) (simp_all add: OutputOverflowPolicy_members_def)
  show "distinct (map OutputOverflowPolicy_value OutputOverflowPolicy_members)"
    by (simp add: OutputOverflowPolicy_members_def)
qed

interpretation execution_target_kind: str_enum ExecutionTargetKind_value ExecutionTargetKind_members
proof
  show "x \<in> set ExecutionTargetKind_members" for x
    by (cases x) (simp_all add: ExecutionTargetKind_members_def)
  show "distinct (map ExecutionTargetKind_value ExecutionTargetKind_members)"
    by (simp add: ExecutionTargetKind_members_def)
qed

interpretation containment_profile: str_enum ContainmentProfile_value ContainmentProfile_members
proof
  show "x \<in> set ContainmentProfile_members" for x
    by (cases x) (simp_all add: ContainmentProfile_members_def)
  show "distinct (map ContainmentProfile_value ContainmentProfile_members)"
    by (simp add: ContainmentProfile_members_def)
qed

interpretation outcome_kind: str_enum OutcomeKind_value OutcomeKind_members
proof
  show "x \<in> set OutcomeKind_members" for x
    by (cases x) (simp_all add: OutcomeKind_members_def)
  show "distinct (map OutcomeKind_value OutcomeKind_members)"
    by (simp add: OutcomeKind_members_def)
qed

interpretation budget_axis: str_enum BudgetAxis_value BudgetAxis_members
proof
  show "x \<in> set BudgetAxis_members" for x
    by (cases x) (simp_all add: BudgetAxis_members_def)
  show "distinct (map BudgetAxis_value BudgetAxis_members)"
    by (simp add: BudgetAxis_members_def)
qed

interpretation protocol_failure_code: str_enum ProtocolFailureCode_value ProtocolFailureCode_members
proof
  show "x \<in> set ProtocolFailureCode_members" for x
    by (cases x) (simp_all add: ProtocolFailureCode_members_def)
  show "distinct (map ProtocolFailureCode_value ProtocolFailureCode_members)"
    by (simp add: ProtocolFailureCode_members_def)
qed

interpretation executor_failure_code: str_enum ExecutorFailureCode_value ExecutorFailureCode_members
proof
  show "x \<in> set ExecutorFailureCode_members" for x
    by (cases x) (simp_all add: ExecutorFailureCode_members_def)
  show "distinct (map ExecutorFailureCode_value ExecutorFailureCode_members)"
    by (simp add: ExecutorFailureCode_members_def)
qed

interpretation failure_owner: str_enum FailureOwner_value FailureOwner_members
proof
  show "x \<in> set FailureOwner_members" for x
    by (cases x) (simp_all add: FailureOwner_members_def)
  show "distinct (map FailureOwner_value FailureOwner_members)"
    by (simp add: FailureOwner_members_def)
qed

interpretation record_receipt_kind: str_enum RecordReceiptKind_value RecordReceiptKind_members
proof
  show "x \<in> set RecordReceiptKind_members" for x
    by (cases x) (simp_all add: RecordReceiptKind_members_def)
  show "distinct (map RecordReceiptKind_value RecordReceiptKind_members)"
    by (simp add: RecordReceiptKind_members_def)
qed

interpretation capacity_source: str_enum CapacitySource_value CapacitySource_members
proof
  show "x \<in> set CapacitySource_members" for x
    by (cases x) (simp_all add: CapacitySource_members_def)
  show "distinct (map CapacitySource_value CapacitySource_members)"
    by (simp add: CapacitySource_members_def)
qed

interpretation execution_pool_state: str_enum ExecutionPoolState_value ExecutionPoolState_members
proof
  show "x \<in> set ExecutionPoolState_members" for x
    by (cases x) (simp_all add: ExecutionPoolState_members_def)
  show "distinct (map ExecutionPoolState_value ExecutionPoolState_members)"
    by (simp add: ExecutionPoolState_members_def)
qed

interpretation protocol_frame_kind: str_enum ProtocolFrameKind_value ProtocolFrameKind_members
proof
  show "x \<in> set ProtocolFrameKind_members" for x
    by (cases x) (simp_all add: ProtocolFrameKind_members_def)
  show "distinct (map ProtocolFrameKind_value ProtocolFrameKind_members)"
    by (simp add: ProtocolFrameKind_members_def)
qed

end
