(* ===== verification/Scalars.thy ===== *)
theory Scalars
  imports Kinds
begin

text \<open>
  The pinned scalar spellings of \<^verbatim>\<open>core/model.py\<close>: lowercase hyphenated UUIDs,
  \<^verbatim>\<open>YYYY-MM-DDTHH:MM:SS.ffffffZ\<close> timestamps and canonical padded URL-safe base64,
  with the parts of \<^verbatim>\<open>re\<close>, \<^verbatim>\<open>uuid\<close>, \<^verbatim>\<open>datetime\<close> and \<^verbatim>\<open>base64\<close> they call.
  Text is a list of characters with code points up to 255; in that range the class
  \<^verbatim>\<open>\d\<close> of Python's \<^verbatim>\<open>re\<close> holds exactly the ASCII digits.
  The lemmas show that each spelling is a bijection: what the serializer prints is
  accepted and read back, and nothing else that denotes the value is accepted.
\<close>

section \<open>Fixed-width patterns\<close>

text \<open>
  The two regular expressions of the module have no alternation and no open repetition,
  so each is a list of character classes and \<^verbatim>\<open>fullmatch\<close> compares position by position.
\<close>

type_synonym char_class = "char \<Rightarrow> bool"

definition fullmatch :: "char_class list \<Rightarrow> string \<Rightarrow> bool" where
  "fullmatch pattern text = list_all2 (\<lambda>cls c. cls c) pattern text"

definition is_char :: "char \<Rightarrow> char_class" where
  "is_char c = (\<lambda>d. d = c)"

definition is_digit :: char_class where
  "is_digit c = (c \<in> set ''0123456789'')"

definition is_lower_hex :: char_class where
  "is_lower_hex c = (c \<in> set ''0123456789abcdef'')"

section \<open>UUID spelling\<close>

text \<open>A \<^verbatim>\<open>uuid.UUID\<close> is its 128-bit integer.\<close>

type_synonym uuid = "128 word"

definition UUID_PATTERN :: "char_class list" where
  "UUID_PATTERN =
     replicate 8 is_lower_hex @ is_char CHR ''-'' # replicate 4 is_lower_hex @
     is_char CHR ''-'' # replicate 4 is_lower_hex @ is_char CHR ''-'' #
     replicate 4 is_lower_hex @ is_char CHR ''-'' # replicate 12 is_lower_hex"

definition require_pinned_uuid_spelling :: "string \<Rightarrow> (py_exn, string) result" where
  "require_pinned_uuid_spelling text =
     (if \<not> fullmatch UUID_PATTERN text
      then Inl (ValueError ''UUID must be lowercase hyphenated 8-4-4-4-12 hexadecimal'')
      else Inr text)"

definition hex_digit :: "nat \<Rightarrow> char" where
  "hex_digit n = ''0123456789abcdef'' ! n"

text \<open>\<^verbatim>\<open>"%0*x" % (width, n)\<close> for \<open>n < 16 ^ width\<close>, most significant digit first.\<close>

fun hex_fixed :: "nat \<Rightarrow> nat \<Rightarrow> string" where
  "hex_fixed 0 n = []"
| "hex_fixed (Suc width) n = hex_fixed width (n div 16) @ [hex_digit (n mod 16)]"

text \<open>\<^verbatim>\<open>UUID.__str__\<close>: 32 digits cut into groups of 8, 4, 4, 4 and 12.\<close>

definition uuid_str :: "uuid \<Rightarrow> string" where
  "uuid_str u =
     (let h = hex_fixed 32 (unat u)
      in take 8 h @ CHR ''-'' # take 4 (drop 8 h) @ CHR ''-'' # take 4 (drop 12 h) @
         CHR ''-'' # take 4 (drop 16 h) @ CHR ''-'' # drop 20 h)"

definition hex_value :: "char \<Rightarrow> nat" where
  "hex_value c =
     (let n = (of_char c :: nat)
      in if n < 58 then n - 48 else n - 87)"

definition hex_int :: "string \<Rightarrow> nat" where
  "hex_int text = foldl (\<lambda>acc c. acc * 16 + hex_value c) 0 text"

text \<open>\<^verbatim>\<open>UUID(text)\<close> on a spelling the pattern accepts: hyphens dropped, base 16.\<close>

definition uuid_of_str :: "string \<Rightarrow> uuid" where
  "uuid_of_str text = word_of_nat (hex_int (filter (\<lambda>c. c \<noteq> CHR ''-'') text))"

section \<open>UTC timestamp spelling\<close>

text \<open>
  A \<^verbatim>\<open>datetime\<close>: its fields and its \<^verbatim>\<open>utcoffset()\<close> in minutes, \<open>None\<close> for a naive value.
\<close>

record datetime =
  year :: nat
  month :: nat
  day :: nat
  hour :: nat
  minute :: nat
  second :: nat
  microsecond :: nat
  utcoffset :: "int option"

definition is_leap :: "nat \<Rightarrow> bool" where
  "is_leap y = (y mod 4 = 0 \<and> (y mod 100 \<noteq> 0 \<or> y mod 400 = 0))"

definition days_in_month :: "nat \<Rightarrow> nat \<Rightarrow> nat" where
  "days_in_month y m =
     (if m = 2 then (if is_leap y then 29 else 28)
      else if m \<in> {4, 6, 9, 11} then 30 else 31)"

text \<open>The range checks of the \<^verbatim>\<open>datetime\<close> constructor.\<close>

definition datetime_ok :: "datetime \<Rightarrow> bool" where
  "datetime_ok d =
     (1 \<le> year d \<and> year d \<le> 9999 \<and> 1 \<le> month d \<and> month d \<le> 12 \<and> 1 \<le> day d \<and>
      day d \<le> days_in_month (year d) (month d) \<and> hour d \<le> 23 \<and> minute d \<le> 59 \<and>
      second d \<le> 59 \<and> microsecond d \<le> 999999)"

definition require_utc :: "datetime \<Rightarrow> (py_exn, datetime) result" where
  "require_utc d =
     (if utcoffset d \<noteq> Some 0 then Inl (ValueError ''timestamp must be UTC'') else Inr d)"

definition digit :: "nat \<Rightarrow> char" where
  "digit n = ''0123456789'' ! n"

fun dec_fixed :: "nat \<Rightarrow> nat \<Rightarrow> string" where
  "dec_fixed 0 n = []"
| "dec_fixed (Suc width) n = dec_fixed width (n div 10) @ [digit (n mod 10)]"

text \<open>\<^verbatim>\<open>isoformat(timespec="microseconds")\<close> without and with its offset suffix.\<close>

definition isoformat_naive :: "datetime \<Rightarrow> string" where
  "isoformat_naive d =
     dec_fixed 4 (year d) @ CHR ''-'' # dec_fixed 2 (month d) @ CHR ''-'' #
     dec_fixed 2 (day d) @ CHR ''T'' # dec_fixed 2 (hour d) @ CHR '':'' #
     dec_fixed 2 (minute d) @ CHR '':'' # dec_fixed 2 (second d) @ CHR ''.'' #
     dec_fixed 6 (microsecond d)"

definition offset_suffix :: "int option \<Rightarrow> string" where
  "offset_suffix off =
     (case off of
        None \<Rightarrow> []
      | Some m \<Rightarrow> (if m < 0 then CHR ''-'' else CHR ''+'') #
          dec_fixed 2 (nat \<bar>m\<bar> div 60) @ CHR '':'' # dec_fixed 2 (nat \<bar>m\<bar> mod 60))"

definition isoformat :: "datetime \<Rightarrow> string" where
  "isoformat d = isoformat_naive d @ offset_suffix (utcoffset d)"

definition removesuffix :: "string \<Rightarrow> string \<Rightarrow> string" where
  "removesuffix suffix text =
     (if suffix \<noteq> [] \<and> length suffix \<le> length text \<and>
         drop (length text - length suffix) text = suffix
      then take (length text - length suffix) text else text)"

definition serialize_utc :: "datetime \<Rightarrow> string" where
  "serialize_utc d = removesuffix ''+00:00'' (isoformat d) @ ''Z''"

definition UTC_TIMESTAMP_PATTERN :: "char_class list" where
  "UTC_TIMESTAMP_PATTERN =
     replicate 4 is_digit @ is_char CHR ''-'' # replicate 2 is_digit @ is_char CHR ''-'' #
     replicate 2 is_digit @ is_char CHR ''T'' # replicate 2 is_digit @ is_char CHR '':'' #
     replicate 2 is_digit @ is_char CHR '':'' # replicate 2 is_digit @ is_char CHR ''.'' #
     replicate 6 is_digit @ [is_char CHR ''Z'']"

definition dec_int :: "string \<Rightarrow> nat" where
  "dec_int text = foldl (\<lambda>acc c. acc * 10 + (of_char c - 48)) 0 text"

definition slice :: "nat \<Rightarrow> nat \<Rightarrow> 'a list \<Rightarrow> 'a list" where
  "slice i j xs = take (j - i) (drop i xs)"

text \<open>
  \<^verbatim>\<open>datetime.fromisoformat\<close> on a text of the pinned shape whose offset is \<^verbatim>\<open>+00:00\<close>:
  the fields at their positions, then the constructor's range checks.
\<close>

definition fromisoformat_utc :: "string \<Rightarrow> (py_exn, datetime) result" where
  "fromisoformat_utc text =
     (let d = \<lparr>year = dec_int (slice 0 4 text), month = dec_int (slice 5 7 text),
               day = dec_int (slice 8 10 text), hour = dec_int (slice 11 13 text),
               minute = dec_int (slice 14 16 text), second = dec_int (slice 17 19 text),
               microsecond = dec_int (slice 20 26 text), utcoffset = Some 0\<rparr>
      in if datetime_ok d then Inr d else Inl (ValueError ''Invalid isoformat string''))"

definition require_pinned_utc_spelling :: "string \<Rightarrow> (py_exn, datetime) result" where
  "require_pinned_utc_spelling text =
     (if \<not> fullmatch UTC_TIMESTAMP_PATTERN text
      then Inl (ValueError ''timestamp must be spelled YYYY-MM-DDTHH:MM:SS.ffffffZ'')
      else fromisoformat_utc (removesuffix ''Z'' text @ ''+00:00''))"

section \<open>Canonical URL-safe base64\<close>

text \<open>The letter of a sextet: \<^verbatim>\<open>A-Z\<close>, \<^verbatim>\<open>a-z\<close>, \<^verbatim>\<open>0-9\<close>, then \<^verbatim>\<open>-\<close> and \<^verbatim>\<open>_\<close>.\<close>

definition b64_char :: "nat \<Rightarrow> char" where
  "b64_char n =
     (if n < 26 then char_of (n + 65) else if n < 52 then char_of (n + 71)
      else if n < 62 then char_of (n - 4) else if n = 62 then CHR ''-'' else CHR ''_'')"

text \<open>\<^verbatim>\<open>urlsafe_b64encode\<close>: three bytes to four letters, padded with \<^verbatim>\<open>=\<close>.\<close>

fun urlsafe_b64encode :: "bytes \<Rightarrow> string" where
  "urlsafe_b64encode [] = []"
| "urlsafe_b64encode [a] =
     [b64_char (unat a div 4), b64_char (unat a mod 4 * 16), CHR ''='', CHR ''='']"
| "urlsafe_b64encode [a, b] =
     [b64_char (unat a div 4), b64_char (unat a mod 4 * 16 + unat b div 16),
      b64_char (unat b mod 16 * 4), CHR ''='']"
| "urlsafe_b64encode (a # b # c # rest) =
     [b64_char (unat a div 4), b64_char (unat a mod 4 * 16 + unat b div 16),
      b64_char (unat b mod 16 * 4 + unat c div 64), b64_char (unat c mod 64)] @
     urlsafe_b64encode rest"

text \<open>
  \<^verbatim>\<open>b64decode(altchars=b"-_")\<close> first translates \<^verbatim>\<open>-\<close> and \<^verbatim>\<open>_\<close> to \<^verbatim>\<open>+\<close> and \<^verbatim>\<open>/\<close>, so the
  decoder also takes the standard letters; their rejection is the re-encoding check.
\<close>

definition b64_value :: "char \<Rightarrow> nat option" where
  "b64_value c =
     (let n = (of_char c :: nat)
      in if 65 \<le> n \<and> n \<le> 90 then Some (n - 65)
         else if 97 \<le> n \<and> n \<le> 122 then Some (n - 71)
         else if 48 \<le> n \<and> n \<le> 57 then Some (n + 4)
         else if c = CHR ''-'' \<or> c = CHR ''+'' then Some 62
         else if c = CHR ''_'' \<or> c = CHR ''/'' then Some 63
         else None)"

text \<open>
  The strict mode of \<^verbatim>\<open>binascii.a2b_base64\<close>: \<open>quad\<close> is the position in the current group
  of four, \<open>left\<close> the bits carried over, \<open>pads\<close> the padding seen in a row and
  \<open>padding\<close> whether any was seen.
\<close>

fun a2b_strict :: "nat \<Rightarrow> nat \<Rightarrow> nat \<Rightarrow> bool \<Rightarrow> bytes \<Rightarrow> string \<Rightarrow> (py_exn, bytes) result" where
  "a2b_strict quad left pads padding out [] =
     (if quad = 0 then Inr out else Inl (ValueError ''Incorrect padding''))"
| "a2b_strict quad left pads padding out (c # cs) =
     (if c = CHR ''='' then
        (if 2 \<le> quad \<and> 4 \<le> quad + pads + 1
         then (if cs \<noteq> [] then Inl (ValueError ''Excess data after padding'') else Inr out)
         else a2b_strict quad left (if 2 \<le> quad then pads + 1 else pads) True out cs)
      else case b64_value c of
        None \<Rightarrow> Inl (ValueError ''Only base64 data is allowed'')
      | Some v \<Rightarrow>
          (if padding then Inl (ValueError ''Discontinuous padding not allowed'')
           else if quad = 0 then a2b_strict 1 v 0 padding out cs
           else if quad = 1
             then a2b_strict 2 (v mod 16) 0 padding (out @ [word_of_nat (left * 4 + v div 16)]) cs
           else if quad = 2
             then a2b_strict 3 (v mod 4) 0 padding (out @ [word_of_nat (left * 16 + v div 4)]) cs
           else a2b_strict 0 0 0 padding (out @ [word_of_nat (left * 64 + v)]) cs))"

definition b64decode_urlsafe :: "string \<Rightarrow> (py_exn, bytes) result" where
  "b64decode_urlsafe text =
     (if text \<noteq> [] \<and> hd text = CHR ''=''
      then Inl (ValueError ''Leading padding not allowed'')
      else a2b_strict 0 0 0 False [] text)"

definition encode_ascii :: "string \<Rightarrow> (py_exn, string) result" where
  "encode_ascii text =
     (if list_all (\<lambda>c. (of_char c :: nat) < 128) text then Inr text
      else Inl (ValueError ''ordinal not in range(128)''))"

definition BASE64_MESSAGE :: string where
  "BASE64_MESSAGE = ''bytes must be canonical padded URL-safe base64''"

definition require_pinned_base64_spelling :: "string \<Rightarrow> (py_exn, bytes) result" where
  "require_pinned_base64_spelling text =
     (case bind_result (encode_ascii text) b64decode_urlsafe of
        Inl _ \<Rightarrow> Inl (ValueError BASE64_MESSAGE)
      | Inr decoded \<Rightarrow>
          (if urlsafe_b64encode decoded \<noteq> text then Inl (ValueError BASE64_MESSAGE)
           else Inr decoded))"

section \<open>Base64 facts\<close>

lemma b64_char_props:
  assumes "n < 64"
  shows "b64_value (b64_char n) = Some n" and "b64_char n \<noteq> CHR ''=''"
    and "(of_char (b64_char n) :: nat) < 128"
proof -
  consider "n < 26" | "26 \<le> n" "n < 52" | "52 \<le> n" "n < 62" | "n = 62" | "n = 63"
    using assms by linarith
  then have all: "b64_value (b64_char n) = Some n \<and> (of_char (b64_char n) :: nat) < 128 \<and>
      (of_char (b64_char n) :: nat) \<noteq> 61"
    by cases (auto simp: b64_char_def b64_value_def Let_def)
  then show "b64_value (b64_char n) = Some n" "(of_char (b64_char n) :: nat) < 128"
    by simp_all
  from all show "b64_char n \<noteq> CHR ''=''" by auto
qed

lemma unat_byte_less [simp]: "unat (a :: byte) < 256"
  using unsigned_less [of a] by simp

lemma byte_split:
  "(word_of_nat (unat (a :: byte) div 4 * 4 + unat a mod 4) :: byte) = a"
  "(word_of_nat (unat (a :: byte) div 16 * 16 + unat a mod 16) :: byte) = a"
  "(word_of_nat (unat (a :: byte) div 64 * 64 + unat a mod 64) :: byte) = a"
  by (simp_all only: div_mult_mod_eq) simp_all

lemma byte_parts:
  "unat (a :: byte) div 4 < 64" "unat a div 16 < 16" "unat a div 64 < 4"
  using unat_byte_less [of a] by (simp_all add: less_mult_imp_div_less del: unat_byte_less)

lemma byte_parts_mod:
  "unat (a :: byte) div 16 mod 16 = unat a div 16" "unat a div 64 mod 4 = unat a div 64"
  by (simp_all add: byte_parts)

lemma b64_group_bounds:
  "unat (a :: byte) mod 4 * 16 < 64" "unat a mod 16 * 4 < 64"
  "unat a mod 4 * 16 + unat (b :: byte) div 16 < 64"
  "unat a mod 16 * 4 + unat b div 64 < 64"
proof -
  have m: "unat a mod 4 < 4" "unat a mod 16 < 16" by simp_all
  then show "unat a mod 4 * 16 < 64" "unat a mod 16 * 4 < 64" by linarith+
  from m byte_parts [of b] show "unat a mod 4 * 16 + unat b div 16 < 64"
    "unat a mod 16 * 4 + unat b div 64 < 64" by linarith+
qed

lemmas b64_group = b64_char_props b64_group_bounds byte_parts byte_parts_mod byte_split

lemma b64decode_encode_acc:
  "a2b_strict 0 0 0 False out (urlsafe_b64encode bs) = Inr (out @ bs)"
proof (induction bs arbitrary: out rule: urlsafe_b64encode.induct)
  case 1
  then show ?case by simp
next
  case (2 a)
  then show ?case by (simp add: b64_group del: of_nat_add of_nat_mult)
next
  case (3 a b)
  then show ?case by (simp add: b64_group del: of_nat_add of_nat_mult)
next
  case (4 a b c rest)
  then show ?case by (simp add: b64_group del: of_nat_add of_nat_mult)
qed

lemma urlsafe_b64encode_ascii: "list_all (\<lambda>c. (of_char c :: nat) < 128) (urlsafe_b64encode bs)"
  by (induction bs rule: urlsafe_b64encode.induct) (simp_all add: b64_group)

lemma urlsafe_b64encode_hd:
  "urlsafe_b64encode bs \<noteq> [] \<Longrightarrow> hd (urlsafe_b64encode bs) \<noteq> CHR ''=''"
  by (cases bs rule: urlsafe_b64encode.cases) (simp_all add: b64_group)

lemma b64decode_encode: "b64decode_urlsafe (urlsafe_b64encode bs) = Inr bs"
  using b64decode_encode_acc [of "[]" bs] urlsafe_b64encode_hd [of bs]
  by (auto simp: b64decode_urlsafe_def)

section \<open>UUID and timestamp facts\<close>

lemma fullmatch_append:
  "length p = length s \<Longrightarrow> fullmatch (p @ q) (s @ t) \<longleftrightarrow> fullmatch p s \<and> fullmatch q t"
  by (simp add: fullmatch_def list_all2_append)

lemma fullmatch_Cons [simp]: "fullmatch (p # q) (c # t) \<longleftrightarrow> p c \<and> fullmatch q t"
  by (simp add: fullmatch_def)

lemma fullmatch_Nil [simp]: "fullmatch [] s \<longleftrightarrow> s = []" "fullmatch p [] \<longleftrightarrow> p = []"
  by (simp_all add: fullmatch_def)

lemma fullmatch_replicate:
  "fullmatch (replicate n cls) s \<longleftrightarrow> length s = n \<and> (\<forall>c\<in>set s. cls c)"
  by (auto simp: fullmatch_def list_all2_conv_all_nth Ball_set list_all_length)

lemma fullmatch_length: "fullmatch p s \<Longrightarrow> length s = length p"
  by (simp add: fullmatch_def list_all2_lengthD)

lemma length_hex_fixed [simp]: "length (hex_fixed w n) = w"
  by (induction w arbitrary: n) simp_all

lemma length_dec_fixed [simp]: "length (dec_fixed w n) = w"
  by (induction w arbitrary: n) simp_all

lemma hex_digit_props:
  assumes "n < 16"
  shows "is_lower_hex (hex_digit n)" and "hex_value (hex_digit n) = n"
    and "hex_digit n \<noteq> CHR ''-''"
proof -
  have "list_all (\<lambda>n. is_lower_hex (hex_digit n) \<and> hex_value (hex_digit n) = n \<and>
      hex_digit n \<noteq> CHR ''-'') [0..<16]"
    by code_simp
  with assms show "is_lower_hex (hex_digit n)" "hex_value (hex_digit n) = n"
    "hex_digit n \<noteq> CHR ''-''"
    by (auto simp: list_all_iff)
qed

lemma is_lower_hex_value:
  assumes "is_lower_hex c"
  shows "hex_value c < 16" and "hex_digit (hex_value c) = c"
proof -
  have "list_all (\<lambda>c. hex_value c < 16 \<and> hex_digit (hex_value c) = c) ''0123456789abcdef''"
    by code_simp
  with assms show "hex_value c < 16" "hex_digit (hex_value c) = c"
    by (auto simp: is_lower_hex_def list_all_iff)
qed

lemma digit_props:
  assumes "n < 10"
  shows "is_digit (digit n)" and "(of_char (digit n) :: nat) - 48 = n"
proof -
  have "list_all (\<lambda>n. is_digit (digit n) \<and> (of_char (digit n) :: nat) - 48 = n) [0..<10]"
    by code_simp
  with assms show "is_digit (digit n)" "(of_char (digit n) :: nat) - 48 = n"
    by (auto simp: list_all_iff)
qed

lemma set_hex_fixed: "c \<in> set (hex_fixed w n) \<Longrightarrow> is_lower_hex c \<and> c \<noteq> CHR ''-''"
  by (induction w arbitrary: n) (auto simp: hex_digit_props)

lemma set_dec_fixed: "c \<in> set (dec_fixed w n) \<Longrightarrow> is_digit c"
  by (induction w arbitrary: n) (auto simp: digit_props)

lemma hex_int_snoc: "hex_int (s @ [c]) = hex_int s * 16 + hex_value c"
  by (simp add: hex_int_def)

lemma dec_int_snoc: "dec_int (s @ [c]) = dec_int s * 10 + (of_char c - 48)"
  by (simp add: dec_int_def)

lemma hex_int_fixed: "n < 16 ^ w \<Longrightarrow> hex_int (hex_fixed w n) = n"
proof (induction w arbitrary: n)
  case 0
  then show ?case by (simp add: hex_int_def)
next
  case (Suc w)
  then have "n div 16 < 16 ^ w" by (simp add: less_mult_imp_div_less mult.commute)
  with Suc.IH show ?case by (simp add: hex_int_snoc hex_digit_props)
qed

lemma dec_int_fixed: "n < 10 ^ w \<Longrightarrow> dec_int (dec_fixed w n) = n"
proof (induction w arbitrary: n)
  case 0
  then show ?case by (simp add: dec_int_def)
next
  case (Suc w)
  then have "n div 10 < 10 ^ w" by (simp add: less_mult_imp_div_less mult.commute)
  with Suc.IH show ?case by (simp add: dec_int_snoc digit_props)
qed

lemma hex_fixed_int: "\<forall>c\<in>set s. is_lower_hex c \<Longrightarrow> hex_fixed (length s) (hex_int s) = s"
proof (induction s rule: rev_induct)
  case Nil
  then show ?case by simp
next
  case (snoc c s)
  then show ?case by (simp add: hex_int_snoc is_lower_hex_value)
qed

lemma hex_int_less: "\<forall>c\<in>set s. is_lower_hex c \<Longrightarrow> hex_int s < 16 ^ length s"
proof (induction s rule: rev_induct)
  case Nil
  then show ?case by (simp add: hex_int_def)
next
  case (snoc c s)
  then have "hex_int s < 16 ^ length s" "hex_value c < 16"
    by (simp_all add: is_lower_hex_value)
  then show ?case by (simp add: hex_int_snoc)
qed

lemma is_digit_value:
  assumes "is_digit c"
  obtains v where "(of_char c :: nat) - 48 = v" "v < 10" "digit v = c"
proof -
  have "list_all (\<lambda>c. (of_char c :: nat) - 48 < 10 \<and> digit (of_char c - 48) = c) ''0123456789''"
    by code_simp
  then have "(of_char c :: nat) - 48 < 10 \<and> digit (of_char c - 48) = c"
    using assms unfolding is_digit_def list_all_iff by (rule bspec)
  then show ?thesis using that by blast
qed

lemma dec_fixed_int: "\<forall>c\<in>set s. is_digit c \<Longrightarrow> dec_fixed (length s) (dec_int s) = s"
proof (induction s rule: rev_induct)
  case Nil
  then show ?case by simp
next
  case (snoc c s)
  then obtain v where v: "(of_char c :: nat) - 48 = v" "v < 10" "digit v = c"
    by (auto elim: is_digit_value)
  have "dec_int (s @ [c]) = dec_int s * 10 + v"
    unfolding dec_int_snoc v ..
  with v snoc show ?case by simp
qed

lemma fullmatch_appendD:
  assumes "fullmatch (replicate n cls @ q) text"
  obtains s t where "text = s @ t" "length s = n" "\<forall>c\<in>set s. cls c" "fullmatch q t"
proof -
  from assms obtain s t where "text = s @ t" "list_all2 (\<lambda>cls c. cls c) (replicate n cls) s"
      "fullmatch q t"
    by (auto simp: fullmatch_def list_all2_append1)
  with that fullmatch_replicate [of n cls s] show ?thesis by (simp add: fullmatch_def)
qed

lemma fullmatch_ConsD:
  assumes "fullmatch (is_char c # q) text"
  obtains t where "text = c # t" "fullmatch q t"
  using assms by (cases "text") (auto simp: is_char_def)

lemma fullmatch_segment:
  "fullmatch (replicate n cls @ is_char c # q) (s @ c # t) \<longleftrightarrow>
     (\<forall>d\<in>set s. cls d) \<and> fullmatch q t" if "length s = n"
  using that by (simp add: fullmatch_append fullmatch_replicate is_char_def)

subsection \<open>UUIDs\<close>

definition uuid_groups :: "string \<Rightarrow> string" where
  "uuid_groups h = take 8 h @ CHR ''-'' # take 4 (drop 8 h) @ CHR ''-'' # take 4 (drop 12 h) @
     CHR ''-'' # take 4 (drop 16 h) @ CHR ''-'' # drop 20 h"

lemma uuid_str_groups: "uuid_str u = uuid_groups (hex_fixed 32 (unat u))"
  by (simp add: uuid_str_def uuid_groups_def Let_def)

lemma uuid_groups_match:
  assumes "length h = 32" and "\<forall>c\<in>set h. is_lower_hex c"
  shows "fullmatch UUID_PATTERN (uuid_groups h)"
  using assms unfolding UUID_PATTERN_def uuid_groups_def
  by (auto simp: fullmatch_segment fullmatch_replicate dest!: in_set_takeD in_set_dropD)

lemma uuid_groups_filter:
  assumes "\<forall>c\<in>set h. c \<noteq> CHR ''-''"
  shows "filter (\<lambda>c. c \<noteq> CHR ''-'') (uuid_groups h) = h"
proof -
  have keep: "filter (\<lambda>c. c \<noteq> CHR ''-'') s = s" if "set s \<subseteq> set h" for s
    using that assms by (auto simp: filter_id_conv)
  have sub: "set (take n (drop m h)) \<subseteq> set h" "set (drop m h) \<subseteq> set h" "set (take n h) \<subseteq> set h"
    for n m by (meson set_drop_subset set_take_subset order_trans)+
  have "take 4 (drop k h) @ drop (4 + k) h = drop k h" for k
    using append_take_drop_id [of 4 "drop k h"] by simp
  from this [of 16] this [of 12] this [of 8]
  have "take 8 h @ take 4 (drop 8 h) @ take 4 (drop 12 h) @ take 4 (drop 16 h) @ drop 20 h = h"
    by simp
  then show ?thesis by (simp add: uuid_groups_def keep sub)
qed

lemma fullmatch_uuidD:
  assumes "fullmatch UUID_PATTERN text"
  obtains h where "length h = 32" "\<forall>c\<in>set h. is_lower_hex c" "text = uuid_groups h"
proof -
  from assms obtain a b c d e where *: "text = a @ CHR ''-'' # b @ CHR ''-'' # c @ CHR ''-'' # d @
      CHR ''-'' # e"
    "length a = 8" "length b = 4" "length c = 4" "length d = 4" "length e = 12"
    "\<forall>x\<in>set (a @ b @ c @ d @ e). is_lower_hex x"
    unfolding UUID_PATTERN_def
    by (elim fullmatch_appendD fullmatch_ConsD) (auto simp: fullmatch_replicate ball_Un)
  show ?thesis
    by (rule that [of "a @ b @ c @ d @ e"]) (use * in \<open>auto simp: uuid_groups_def\<close>)
qed

lemma is_lower_hex_not_hyphen: "is_lower_hex c \<Longrightarrow> c \<noteq> CHR ''-''"
  by (auto simp: is_lower_hex_def)

lemma uuid_str_fullmatch: "fullmatch UUID_PATTERN (uuid_str u)"
  by (simp add: uuid_str_groups uuid_groups_match set_hex_fixed)

lemma uuid_of_str_uuid_str: "uuid_of_str (uuid_str u) = u"
proof -
  have "hex_int (hex_fixed 32 (unat u)) = unat u"
    using unsigned_less [of u] by (intro hex_int_fixed) simp
  then show ?thesis
    by (simp add: uuid_of_str_def uuid_str_groups uuid_groups_filter set_hex_fixed)
qed

lemma uuid_str_inject [simp]: "uuid_str u = uuid_str v \<longleftrightarrow> u = v"
  by (metis uuid_of_str_uuid_str)

subsection \<open>Timestamps\<close>

lemma removesuffix_append: "suffix \<noteq> [] \<Longrightarrow> removesuffix suffix (text @ suffix) = text"
  by (simp add: removesuffix_def)

lemma serialize_utc_utc:
  assumes "utcoffset d = Some 0"
  shows "serialize_utc d = isoformat_naive d @ ''Z''"
proof -
  have "offset_suffix (Some 0) = ''+00:00''"
    by (simp add: offset_suffix_def digit_def numeral_2_eq_2)
  with assms show ?thesis by (simp add: serialize_utc_def isoformat_def removesuffix_append)
qed

lemma isoformat_naive_match: "fullmatch UTC_TIMESTAMP_PATTERN (isoformat_naive d @ ''Z'')"
  unfolding UTC_TIMESTAMP_PATTERN_def isoformat_naive_def
  by (simp add: fullmatch_segment set_dec_fixed)

lemma fromisoformat_fields:
  assumes "length y = 4" "length mo = 2" "length da = 2" "length h = 2" "length mi = 2"
    "length s = 2" "length us = 6"
  shows "fromisoformat_utc (y @ CHR ''-'' # mo @ CHR ''-'' # da @ CHR ''T'' # h @ CHR '':'' # mi @
      CHR '':'' # s @ CHR ''.'' # us @ rest) =
    (let d = \<lparr>year = dec_int y, month = dec_int mo, day = dec_int da, hour = dec_int h,
        minute = dec_int mi, second = dec_int s, microsecond = dec_int us, utcoffset = Some 0\<rparr>
     in if datetime_ok d then Inr d else Inl (ValueError ''Invalid isoformat string''))"
  using assms by (simp add: fromisoformat_utc_def slice_def)

lemma days_in_month_le: "days_in_month y m \<le> 31"
  by (simp add: days_in_month_def)

lemma fromisoformat_naive:
  assumes "datetime_ok d" and "utcoffset d = Some 0"
  shows "fromisoformat_utc (isoformat_naive d @ rest) = Inr d"
proof -
  have "year d < 10 ^ 4" "month d < 10 ^ 2" "day d < 10 ^ 2" "hour d < 10 ^ 2" "minute d < 10 ^ 2"
    "second d < 10 ^ 2" "microsecond d < 10 ^ 6"
    using assms(1) days_in_month_le [of "year d" "month d"] by (auto simp: datetime_ok_def)
  moreover have "\<lparr>year = year d, month = month d, day = day d, hour = hour d, minute = minute d,
      second = second d, microsecond = microsecond d, utcoffset = Some 0\<rparr> = d"
    using assms(2) by (cases d) simp
  ultimately show ?thesis using assms(1)
    by (simp add: isoformat_naive_def fromisoformat_fields dec_int_fixed Let_def)
qed

lemma fullmatch_utcD:
  assumes "fullmatch UTC_TIMESTAMP_PATTERN text"
  obtains y mo da h mi s us where
    "text = y @ CHR ''-'' # mo @ CHR ''-'' # da @ CHR ''T'' # h @ CHR '':'' # mi @ CHR '':'' # s @
       CHR ''.'' # us @ ''Z''"
    "length y = 4" "length mo = 2" "length da = 2" "length h = 2" "length mi = 2"
    "length s = 2" "length us = 6" "\<forall>c\<in>set (y @ mo @ da @ h @ mi @ s @ us). is_digit c"
proof -
  from assms obtain y mo da h mi s us t where
    "text = y @ CHR ''-'' # mo @ CHR ''-'' # da @ CHR ''T'' # h @ CHR '':'' # mi @ CHR '':'' # s @
       CHR ''.'' # us @ CHR ''Z'' # t" "t = []"
    "length y = 4" "length mo = 2" "length da = 2" "length h = 2" "length mi = 2"
    "length s = 2" "length us = 6" "\<forall>c\<in>set (y @ mo @ da @ h @ mi @ s @ us). is_digit c"
    unfolding UTC_TIMESTAMP_PATTERN_def
    by (elim fullmatch_appendD fullmatch_ConsD) (auto simp: ball_Un)
  then show ?thesis using that by simp
qed

lemma dec_fixed_int_of: "\<forall>c\<in>set s. is_digit c \<Longrightarrow> length s = n \<Longrightarrow> dec_fixed n (dec_int s) = s"
  using dec_fixed_int by blast

section \<open>Properties\<close>

text \<open>
  The base64 validator of \<^verbatim>\<open>Base64UrlBytes\<close> accepts a text and yields bytes exactly
  when the text is the canonical padded URL-safe encoding of these bytes. Every byte string
  round-trips, and no second spelling (standard alphabet, missing or excess padding, stray
  trailing bits) is accepted for it.
\<close>

theorem base64_spelling_canonical:
  "require_pinned_base64_spelling text = Inr data \<longleftrightarrow> text = urlsafe_b64encode data"
proof
  assume "require_pinned_base64_spelling text = Inr data"
  then show "text = urlsafe_b64encode data"
    by (auto simp: require_pinned_base64_spelling_def split: sum.splits if_splits)
next
  assume "text = urlsafe_b64encode data"
  then show "require_pinned_base64_spelling text = Inr data"
    by (simp add: require_pinned_base64_spelling_def encode_ascii_def urlsafe_b64encode_ascii
        b64decode_encode)
qed

text \<open>
  A UUID spelling passes the validator exactly when it is the text
  \<^verbatim>\<open>str(UUID)\<close> prints for the value it denotes, and reading what \<^verbatim>\<open>str\<close> prints gives the
  UUID back.
\<close>

theorem uuid_spelling_bijective:
  "((\<exists>t. require_pinned_uuid_spelling text = Inr t) \<longleftrightarrow> text = uuid_str (uuid_of_str text)) \<and>
   uuid_of_str (uuid_str u) = u"
proof
  note print = uuid_str_fullmatch
  show "uuid_of_str (uuid_str u) = u" by (rule uuid_of_str_uuid_str)
  show "(\<exists>t. require_pinned_uuid_spelling text = Inr t) \<longleftrightarrow> text = uuid_str (uuid_of_str text)"
  proof
    assume "\<exists>t. require_pinned_uuid_spelling text = Inr t"
    then have "fullmatch UUID_PATTERN text"
      by (auto simp: require_pinned_uuid_spelling_def split: if_splits)
    then obtain h where h: "length h = 32" "\<forall>c\<in>set h. is_lower_hex c" "text = uuid_groups h"
      by (rule fullmatch_uuidD)
    then have "hex_int h < 2 ^ 128" using hex_int_less [of h] by simp
    then have "unat (word_of_nat (hex_int h) :: uuid) = hex_int h"
      by (simp add: unat_of_nat)
    with h show "text = uuid_str (uuid_of_str text)"
      using hex_fixed_int [of h]
      by (simp add: uuid_of_str_def uuid_str_groups uuid_groups_filter is_lower_hex_not_hyphen)
  next
    assume "text = uuid_str (uuid_of_str text)"
    with print [of "uuid_of_str text"] show "\<exists>t. require_pinned_uuid_spelling text = Inr t"
      by (simp add: require_pinned_uuid_spelling_def)
  qed
qed

text \<open>
  The timestamp validator accepts a text and yields a datetime exactly when the
  datetime is in range, its offset is UTC and the text is what the serializer prints for it:
  persisted timestamps have one spelling and round-trip.
\<close>

theorem utc_spelling_canonical:
  "require_pinned_utc_spelling text = Inr d \<longleftrightarrow>
     datetime_ok d \<and> utcoffset d = Some 0 \<and> text = serialize_utc d"
proof
  assume acc: "require_pinned_utc_spelling text = Inr d"
  then have "fullmatch UTC_TIMESTAMP_PATTERN text"
    by (auto simp: require_pinned_utc_spelling_def split: if_splits)
  then obtain y mo da h mi s us where *:
    "text = y @ CHR ''-'' # mo @ CHR ''-'' # da @ CHR ''T'' # h @ CHR '':'' # mi @ CHR '':'' # s @
       CHR ''.'' # us @ ''Z''"
    "length y = 4" "length mo = 2" "length da = 2" "length h = 2" "length mi = 2"
    "length s = 2" "length us = 6" "\<forall>c\<in>set (y @ mo @ da @ h @ mi @ s @ us). is_digit c"
    by (rule fullmatch_utcD)
  let ?d = "\<lparr>year = dec_int y, month = dec_int mo, day = dec_int da, hour = dec_int h,
      minute = dec_int mi, second = dec_int s, microsecond = dec_int us, utcoffset = Some 0\<rparr>"
  let ?b = "y @ CHR ''-'' # mo @ CHR ''-'' # da @ CHR ''T'' # h @ CHR '':'' # mi @ CHR '':'' # s @
      CHR ''.'' # us"
  have "removesuffix ''Z'' text = ?b"
    using * removesuffix_append [of "''Z''" ?b] by simp
  with acc * have "d = ?d" "datetime_ok ?d"
    using fromisoformat_fields [of y mo da h mi s us "''+00:00''"]
    by (auto simp: require_pinned_utc_spelling_def Let_def split: if_splits)
  with * show "datetime_ok d \<and> utcoffset d = Some 0 \<and> text = serialize_utc d"
    by (simp add: serialize_utc_utc isoformat_naive_def dec_fixed_int_of)
next
  assume d: "datetime_ok d \<and> utcoffset d = Some 0 \<and> text = serialize_utc d"
  then show "require_pinned_utc_spelling text = Inr d"
    by (simp add: serialize_utc_utc require_pinned_utc_spelling_def isoformat_naive_match
        removesuffix_append fromisoformat_naive)
qed

end
