(* ===== verification/Json.thy ===== *)
theory Json
  imports Scalars
begin

text \<open>
  JSON values as Python's \<^verbatim>\<open>json\<close> module decodes them, and the identity documents of
  \<^verbatim>\<open>dr_serialize\<close> that carry requests and outputs. A float is its IEEE 754 bit pattern.
\<close>

section \<open>Values\<close>

datatype json =
    JNull
  | JBool bool
  | JInt int
  | JFloat "64 word"
  | JStr string
  | JList "json list"
  | JObj "(string \<times> json) list"

text \<open>An object is a dictionary: the first pair of a key is the one a lookup finds.\<close>

fun obj_get :: "json \<Rightarrow> string \<Rightarrow> json option" where
  "obj_get (JObj ps) k = map_of ps k"
| "obj_get _ k = None"

definition float_finite :: "64 word \<Rightarrow> bool" where
  "float_finite w = (take_bit 11 (drop_bit 52 w) \<noteq> (2047 :: 64 word))"

section \<open>Identity documents\<close>

record identity_document =
  doc_schema :: string
  doc_schema_version :: int
  doc_payload :: json

text \<open>\<^verbatim>\<open>core/identity.py\<close>: the role check shared by the identity builders and validators.\<close>

definition IDENTITY_SCHEMA_VERSION :: int where
  "IDENTITY_SCHEMA_VERSION = 1"

definition require_identity_role ::
  "identity_document \<Rightarrow> string \<Rightarrow> (py_exn, (string \<times> json) list) result" where
  "require_identity_role document schema =
     (if doc_schema document \<noteq> schema
      then Inl (ValueError (''identity must use schema '' @ schema))
      else if doc_schema_version document \<noteq> IDENTITY_SCHEMA_VERSION
      then Inl (ValueError (''identity must use schema version '' @ int_str IDENTITY_SCHEMA_VERSION))
      else case doc_payload document of
        JObj ps \<Rightarrow> Inr ps
      | _ \<Rightarrow> Inl (ValueError ''identity payload must be a mapping''))"

lemma require_identity_role_Inr:
  "require_identity_role document schema = Inr ps \<longleftrightarrow>
     document = \<lparr>doc_schema = schema, doc_schema_version = IDENTITY_SCHEMA_VERSION,
       doc_payload = JObj ps\<rparr>"
  by (cases document) (auto simp: require_identity_role_def split: if_splits json.splits)

end
