(* ===== verification/Declarations.thy ===== *)
theory Declarations
  imports Json
begin

text \<open>
  \<^verbatim>\<open>declarations/models.py\<close> and \<^verbatim>\<open>declarations/validation.py\<close>: limits and budgets,
  environment and working-directory grants, execution targets, jobs, and the declaration
  gate every executor runs before it starts anything. Pydantic models are records or
  datatypes; the field constraints and model validators that guard their construction are
  boolean functions (\<open>..._ok\<close>) or fallible functions with the source's messages. The
  canonical encoder of \<^verbatim>\<open>dr_serialize\<close>, path resolution and directory tests of the host
  are parameters.
\<close>

section \<open>POSIX paths\<close>

text \<open>
  A \<^verbatim>\<open>PurePosixPath\<close>: its root (empty, one or two slashes) and its tail. Parsing drops
  empty and \<^verbatim>\<open>.\<close> components and keeps \<^verbatim>\<open>..\<close>, as \<^verbatim>\<open>pathlib\<close> does.
\<close>

record posix_path =
  root :: string
  tail :: "string list"

definition splitroot :: "string \<Rightarrow> string \<times> string" where
  "splitroot p =
     (if take 1 p \<noteq> ''/'' then ('''', p)
      else if take 1 (drop 1 p) \<noteq> ''/'' \<or> take 1 (drop 2 p) = ''/'' then (''/'', drop 1 p)
      else (''//'', drop 2 p))"

definition PurePosixPath :: "string \<Rightarrow> posix_path" where
  "PurePosixPath p =
     (let (r, rel) = splitroot p
      in \<lparr>root = r, tail = filter (\<lambda>x. x \<noteq> '''' \<and> x \<noteq> ''.'') (split_on CHR ''/'' rel)\<rparr>)"

definition as_posix :: "posix_path \<Rightarrow> string" where
  "as_posix p =
     (let s = root p @ join_with CHR ''/'' (tail p) in if s = '''' then ''.'' else s)"

definition is_absolute :: "posix_path \<Rightarrow> bool" where
  "is_absolute p = (root p \<noteq> '''')"

definition path_parts :: "posix_path \<Rightarrow> string list" where
  "path_parts p = (if root p \<noteq> '''' then root p # tail p else tail p)"

section \<open>Limits and budgets\<close>

datatype 'f budget = UnbudgetedLimit | Finite 'f

record FiniteByteLimit = fb_max_bytes :: int
record FiniteDurationLimit = fd_max_ns :: int
record FiniteCountLimit = fc_max_count :: int

type_synonym ByteBudget = "FiniteByteLimit budget"
type_synonym DurationBudget = "FiniteDurationLimit budget"
type_synonym CountBudget = "FiniteCountLimit budget"

record StreamRetentionBudget =
  head_bytes :: int
  tail_bytes :: int

record PayloadRetentionBudget =
  rb_stdout :: StreamRetentionBudget
  rb_stderr :: StreamRetentionBudget

record FiniteOutput =
  fo_max_bytes :: int
  overflow_policy :: OutputOverflowPolicy
  retention :: PayloadRetentionBudget

type_synonym OutputBudget = "FiniteOutput budget"

text \<open>The \<^verbatim>\<open>limit\<close> property: \<open>None\<close> when unbudgeted.\<close>

fun limit_of :: "('f \<Rightarrow> int) \<Rightarrow> 'f budget \<Rightarrow> int option" where
  "limit_of get UnbudgetedLimit = None"
| "limit_of get (Finite f) = Some (get f)"

abbreviation byte_limit :: "ByteBudget \<Rightarrow> int option" where
  "byte_limit \<equiv> limit_of fb_max_bytes"
abbreviation duration_limit :: "DurationBudget \<Rightarrow> int option" where
  "duration_limit \<equiv> limit_of fd_max_ns"
abbreviation count_limit :: "CountBudget \<Rightarrow> int option" where
  "count_limit \<equiv> limit_of fc_max_count"
abbreviation output_limit :: "OutputBudget \<Rightarrow> int option" where
  "output_limit \<equiv> limit_of fo_max_bytes"

fun budget_kind :: "'f budget \<Rightarrow> LimitKind" where
  "budget_kind UnbudgetedLimit = LimitKind.UNBUDGETED"
| "budget_kind (Finite _) = LimitKind.FINITE"

text \<open>\<^verbatim>\<open>PositiveInt\<close> on the finite limits.\<close>

definition positive_limit :: "('f \<Rightarrow> int) \<Rightarrow> 'f budget \<Rightarrow> bool" where
  "positive_limit get b = (case limit_of get b of None \<Rightarrow> True | Some n \<Rightarrow> 0 < n)"

definition StreamRetentionBudget_ok :: "StreamRetentionBudget \<Rightarrow> bool" where
  "StreamRetentionBudget_ok b = (0 \<le> head_bytes b \<and> 0 \<le> tail_bytes b)"

definition retained_bytes :: "FiniteOutput \<Rightarrow> int" where
  "retained_bytes b =
     head_bytes (rb_stdout (retention b)) + tail_bytes (rb_stdout (retention b)) +
     head_bytes (rb_stderr (retention b)) + tail_bytes (rb_stderr (retention b))"

definition retention_must_match_max_bytes :: "FiniteOutput \<Rightarrow> (py_exn, FiniteOutput) result" where
  "retention_must_match_max_bytes b =
     (if retained_bytes b \<noteq> fo_max_bytes b
      then Inl (ValueError ''retention bytes must sum to max_bytes'') else Inr b)"

definition FiniteOutput_ok :: "FiniteOutput \<Rightarrow> bool" where
  "FiniteOutput_ok b =
     (0 < fo_max_bytes b \<and> StreamRetentionBudget_ok (rb_stdout (retention b)) \<and>
      StreamRetentionBudget_ok (rb_stderr (retention b)) \<and>
      retention_must_match_max_bytes b = Inr b)"

record Budgets =
  wall_time :: DurationBudget
  input_bytes :: ByteBudget
  payload_output :: OutputBudget
  memory_bytes :: ByteBudget
  cpu_time :: DurationBudget
  process_count :: CountBudget
  file_size_bytes :: ByteBudget
  open_file_count :: CountBudget
  disk_bytes :: ByteBudget

text \<open>\<^verbatim>\<open>getattr(self, axis).kind\<close>.\<close>

fun axis_kind :: "Budgets \<Rightarrow> BudgetAxis \<Rightarrow> LimitKind" where
  "axis_kind b BudgetAxis.WALL_TIME = budget_kind (wall_time b)"
| "axis_kind b BudgetAxis.INPUT_BYTES = budget_kind (input_bytes b)"
| "axis_kind b BudgetAxis.PAYLOAD_OUTPUT = budget_kind (payload_output b)"
| "axis_kind b BudgetAxis.MEMORY_BYTES = budget_kind (memory_bytes b)"
| "axis_kind b BudgetAxis.CPU_TIME = budget_kind (cpu_time b)"
| "axis_kind b BudgetAxis.PROCESS_COUNT = budget_kind (process_count b)"
| "axis_kind b BudgetAxis.FILE_SIZE_BYTES = budget_kind (file_size_bytes b)"
| "axis_kind b BudgetAxis.OPEN_FILE_COUNT = budget_kind (open_file_count b)"
| "axis_kind b BudgetAxis.DISK_BYTES = budget_kind (disk_bytes b)"

definition UNSUPPORTED_FINITE_WORKLOAD_AXES :: "BudgetAxis list" where
  "UNSUPPORTED_FINITE_WORKLOAD_AXES =
     [BudgetAxis.MEMORY_BYTES, BudgetAxis.CPU_TIME, BudgetAxis.PROCESS_COUNT,
      BudgetAxis.FILE_SIZE_BYTES, BudgetAxis.OPEN_FILE_COUNT, BudgetAxis.DISK_BYTES]"

fun comma_join :: "string list \<Rightarrow> string" where
  "comma_join [] = ''''"
| "comma_join [s] = s"
| "comma_join (s # t # ss) = s @ '', '' @ comma_join (t # ss)"

definition unsupported_axes_must_be_unbudgeted :: "Budgets \<Rightarrow> (py_exn, Budgets) result" where
  "unsupported_axes_must_be_unbudgeted b =
     (let declared_finite =
        filter (\<lambda>axis. axis_kind b axis = LimitKind.FINITE) UNSUPPORTED_FINITE_WORKLOAD_AXES
      in if declared_finite \<noteq> []
         then Inl (ValueError (comma_join (map BudgetAxis_value declared_finite) @
           '' accept no finite limit in v1 and must be unbudgeted''))
         else Inr b)"

definition Budgets_ok :: "Budgets \<Rightarrow> bool" where
  "Budgets_ok b =
     (positive_limit fd_max_ns (wall_time b) \<and> positive_limit fb_max_bytes (input_bytes b) \<and>
      (case payload_output b of UnbudgetedLimit \<Rightarrow> True | Finite f \<Rightarrow> FiniteOutput_ok f) \<and>
      positive_limit fb_max_bytes (memory_bytes b) \<and> positive_limit fd_max_ns (cpu_time b) \<and>
      positive_limit fc_max_count (process_count b) \<and>
      positive_limit fb_max_bytes (file_size_bytes b) \<and>
      positive_limit fc_max_count (open_file_count b) \<and>
      positive_limit fb_max_bytes (disk_bytes b) \<and>
      unsupported_axes_must_be_unbudgeted b = Inr b)"

definition Budgets_unbudgeted :: Budgets where
  "Budgets_unbudgeted =
     \<lparr>wall_time = UnbudgetedLimit, input_bytes = UnbudgetedLimit, payload_output = UnbudgetedLimit,
      memory_bytes = UnbudgetedLimit, cpu_time = UnbudgetedLimit, process_count = UnbudgetedLimit,
      file_size_bytes = UnbudgetedLimit, open_file_count = UnbudgetedLimit,
      disk_bytes = UnbudgetedLimit\<rparr>"

record ExecutorSelfBudgets =
  protocol_frame_bytes :: ByteBudget
  protocol_total_bytes :: ByteBudget
  protocol_output_count :: CountBudget
  json_depth :: CountBudget
  startup_time :: DurationBudget
  termination_time :: DurationBudget
  join_time :: DurationBudget

text \<open>The default grace of 30.0 seconds is exactly this many nanoseconds.\<close>

definition ExecutorSelfBudgets_default :: ExecutorSelfBudgets where
  "ExecutorSelfBudgets_default =
     \<lparr>protocol_frame_bytes = UnbudgetedLimit, protocol_total_bytes = UnbudgetedLimit,
      protocol_output_count = UnbudgetedLimit, json_depth = UnbudgetedLimit,
      startup_time = UnbudgetedLimit, termination_time = Finite \<lparr>fd_max_ns = 30000000000\<rparr>,
      join_time = UnbudgetedLimit\<rparr>"

definition ExecutorSelfBudgets_unbudgeted :: ExecutorSelfBudgets where
  "ExecutorSelfBudgets_unbudgeted =
     \<lparr>protocol_frame_bytes = UnbudgetedLimit, protocol_total_bytes = UnbudgetedLimit,
      protocol_output_count = UnbudgetedLimit, json_depth = UnbudgetedLimit,
      startup_time = UnbudgetedLimit, termination_time = UnbudgetedLimit,
      join_time = UnbudgetedLimit\<rparr>"

definition ExecutorSelfBudgets_ok :: "ExecutorSelfBudgets \<Rightarrow> bool" where
  "ExecutorSelfBudgets_ok b =
     (positive_limit fb_max_bytes (protocol_frame_bytes b) \<and>
      positive_limit fb_max_bytes (protocol_total_bytes b) \<and>
      positive_limit fc_max_count (protocol_output_count b) \<and>
      positive_limit fc_max_count (json_depth b) \<and> positive_limit fd_max_ns (startup_time b) \<and>
      positive_limit fd_max_ns (termination_time b) \<and> positive_limit fd_max_ns (join_time b))"

section \<open>Environment grants\<close>

record EnvVar =
  ev_name :: string
  ev_value :: string

definition validate_env_var_name :: "string \<Rightarrow> (py_exn, unit) result" where
  "validate_env_var_name name =
     ensure (name \<noteq> '''' \<and> CHR ''='' \<notin> set name \<and> CHR 0x00 \<notin> set name)
       (ValueError ''environment variable names must be nonempty and contain neither '=' nor NUL'')"

definition validate_env_var_value :: "string \<Rightarrow> (py_exn, unit) result" where
  "validate_env_var_value val =
     ensure (CHR 0x00 \<notin> set val)
       (ValueError ''environment variable values must not contain NUL'')"

definition EnvVar_new :: "string \<Rightarrow> string \<Rightarrow> (py_exn, EnvVar) result" where
  "EnvVar_new name val =
     bind_result (validate_env_var_name name) (\<lambda>_.
     bind_result (validate_env_var_value val) (\<lambda>_.
       Inr \<lparr>ev_name = name, ev_value = val\<rparr>))"

record EnvGrant =
  eg_kind :: EnvGrantKind
  eg_variables :: "EnvVar list"
  eg_excluded_var_names :: "string list"

abbreviation eg_names :: "EnvGrant \<Rightarrow> string list" where
  "eg_names g \<equiv> map ev_name (eg_variables g)"

definition EnvGrant_post_init :: "EnvGrant \<Rightarrow> (py_exn, EnvGrant) result" where
  "EnvGrant_post_init g =
     bind_result (ensure (\<not> (eg_kind g = EnvGrantKind.NONE \<and> eg_names g \<noteq> []))
       (ValueError ''none environment grants must not contain variables'')) (\<lambda>_.
     bind_result (ensure (\<not> (eg_kind g \<noteq> EnvGrantKind.OVERLAY \<and> eg_excluded_var_names g \<noteq> []))
       (ValueError ''only overlay environment grants may exclude variables'')) (\<lambda>_.
     bind_result (ensure (card (set (eg_names g)) = length (eg_names g))
       (ValueError ''environment variable names must be unique'')) (\<lambda>_.
     bind_result (for_each validate_env_var_name (eg_excluded_var_names g)) (\<lambda>_.
     bind_result (ensure (card (set (eg_excluded_var_names g)) = length (eg_excluded_var_names g))
       (ValueError ''excluded variable names must be unique'')) (\<lambda>_.
     bind_result (ensure (set (eg_names g) \<inter> set (eg_excluded_var_names g) = {})
       (ValueError ''granted and excluded variable names must differ'')) (\<lambda>_.
       Inr g))))))"

text \<open>
  The class methods. \<open>environ\<close> is \<^verbatim>\<open>os.environ\<close> and a mapping argument is its items; keys of
  a dictionary are distinct, which the callers' hypotheses say where it matters.
\<close>

definition EnvGrant_none :: "(py_exn, EnvGrant) result" where
  "EnvGrant_none =
     EnvGrant_post_init \<lparr>eg_kind = EnvGrantKind.NONE, eg_variables = [],
       eg_excluded_var_names = []\<rparr>"

definition EnvGrant_named :: "(string \<times> string) list \<Rightarrow> string list \<Rightarrow> (py_exn, EnvGrant) result" where
  "EnvGrant_named environ var_names =
     bind_result (map_result (\<lambda>name. case map_of environ name of
         None \<Rightarrow> Inl (KeyError name) | Some val \<Rightarrow> EnvVar_new name val) (sort var_names)) (\<lambda>vars.
       EnvGrant_post_init \<lparr>eg_kind = EnvGrantKind.NAMED, eg_variables = vars,
         eg_excluded_var_names = []\<rparr>)"

definition EnvGrant_fixed :: "(string \<times> string) list \<Rightarrow> (py_exn, EnvGrant) result" where
  "EnvGrant_fixed variables =
     bind_result (map_result (\<lambda>(name, val). EnvVar_new name val) (sort variables)) (\<lambda>vars.
       EnvGrant_post_init \<lparr>eg_kind = EnvGrantKind.FIXED, eg_variables = vars,
         eg_excluded_var_names = []\<rparr>)"

text \<open>\<^verbatim>\<open>values.update(extra)\<close> on the items of a dictionary, keeping the insertion order.\<close>

fun dict_set :: "'k \<Rightarrow> 'v \<Rightarrow> ('k \<times> 'v) list \<Rightarrow> ('k \<times> 'v) list" where
  "dict_set k v [] = [(k, v)]"
| "dict_set k v ((k', v') # ps) = (if k' = k then (k, v) # ps else (k', v') # dict_set k v ps)"

definition dict_update :: "('k \<times> 'v) list \<Rightarrow> ('k \<times> 'v) list \<Rightarrow> ('k \<times> 'v) list" where
  "dict_update d extra = foldl (\<lambda>acc (k, v). dict_set k v acc) d extra"

definition EnvGrant_overlay ::
  "(string \<times> string) list \<Rightarrow> (string \<times> string) list \<Rightarrow> string list \<Rightarrow> (py_exn, EnvGrant) result" where
  "EnvGrant_overlay environ extra_variables exclusions =
     (let excluded = sort exclusions;
          kept = filter (\<lambda>(name, _). name \<notin> set excluded) environ;
          merged = dict_update kept extra_variables
      in bind_result (map_result (\<lambda>(name, val). EnvVar_new name val) (sort merged)) (\<lambda>vars.
           EnvGrant_post_init \<lparr>eg_kind = EnvGrantKind.OVERLAY, eg_variables = vars,
             eg_excluded_var_names = excluded\<rparr>))"

definition EnvGrant_ok :: "EnvGrant \<Rightarrow> bool" where
  "EnvGrant_ok g =
     (EnvGrant_post_init g = Inr g \<and>
      list_all (\<lambda>v. EnvVar_new (ev_name v) (ev_value v) = Inr v) (eg_variables g))"

section \<open>Working-directory grants\<close>

record WorkingDirectoryGrant =
  wd_kind :: WorkingDirectoryGrantKind
  wd_path :: "posix_path option"

definition WorkingDirectoryGrant_post_init ::
  "WorkingDirectoryGrant \<Rightarrow> (py_exn, WorkingDirectoryGrant) result" where
  "WorkingDirectoryGrant_post_init g =
     (if wd_kind g = WorkingDirectoryGrantKind.SCRATCH \<and> wd_path g \<noteq> None
      then Inl (ValueError ''scratch working-directory grants must not contain a path'')
      else if wd_kind g = WorkingDirectoryGrantKind.CALLER \<and> wd_path g = None
      then Inl (ValueError ''caller working-directory grants require an absolute path'')
      else Inr g)"

definition WorkingDirectoryGrant_scratch :: WorkingDirectoryGrant where
  "WorkingDirectoryGrant_scratch =
     \<lparr>wd_kind = WorkingDirectoryGrantKind.SCRATCH, wd_path = None\<rparr>"

definition WorkingDirectoryGrant_caller :: "posix_path \<Rightarrow> WorkingDirectoryGrant" where
  "WorkingDirectoryGrant_caller p =
     \<lparr>wd_kind = WorkingDirectoryGrantKind.CALLER, wd_path = Some p\<rparr>"

section \<open>The persisted environment grant\<close>

text \<open>
  \<open>sorted_values\<close> stands for \<^verbatim>\<open>dr_serialize.canonical_sorted_values\<close>, which sorts an
  iterable of JSON values by canonical text.
\<close>

record EnvGrantRecord =
  egr_kind :: EnvGrantKind
  egr_var_names :: "string list"
  egr_excluded_var_names :: "string list"
  egr_canonical_values_sha256 :: string

definition names_must_be_canonical_and_disjoint ::
  "(string list \<Rightarrow> string list) \<Rightarrow> EnvGrantRecord \<Rightarrow> (py_exn, EnvGrantRecord) result" where
  "names_must_be_canonical_and_disjoint sorted_values r =
     bind_result (ensure (\<not> (egr_kind r = EnvGrantKind.NONE \<and> egr_var_names r \<noteq> []))
       (ValueError ''none environment grants must not contain variables'')) (\<lambda>_.
     bind_result (ensure (\<not> (egr_kind r \<noteq> EnvGrantKind.OVERLAY \<and> egr_excluded_var_names r \<noteq> []))
       (ValueError ''only overlay environment grants may exclude variables'')) (\<lambda>_.
     bind_result (for_each validate_env_var_name (egr_var_names r @ egr_excluded_var_names r)) (\<lambda>_.
     bind_result (ensure (egr_var_names r = sorted_values (remdups (egr_var_names r)))
       (ValueError ''var_names must be sorted and unique'')) (\<lambda>_.
     bind_result (ensure
         (egr_excluded_var_names r = sorted_values (remdups (egr_excluded_var_names r)))
       (ValueError ''excluded_var_names must be sorted and unique'')) (\<lambda>_.
     bind_result (ensure (set (egr_var_names r) \<inter> set (egr_excluded_var_names r) = {})
       (ValueError ''granted and excluded variable names must differ'')) (\<lambda>_.
       Inr r))))))"

section \<open>Targets and jobs\<close>

definition validate_argv :: "string list \<Rightarrow> (py_exn, string list) result" where
  "validate_argv argv =
     (if argv = [] then Inl (ValueError ''argv must not be empty'')
      else if \<exists>a\<in>set argv. a = '''' \<or> CHR 0x00 \<in> set a
      then Inl (ValueError ''argv elements must be nonempty and NUL-free'')
      else Inr argv)"

definition validate_driver_source :: "string \<Rightarrow> (py_exn, string) result" where
  "validate_driver_source source =
     (if CHR 0x00 \<in> set source then Inl (ValueError ''driver_source must not contain NUL'')
      else Inr source)"

text \<open>
  \<^verbatim>\<open>str.isidentifier\<close> on code points up to 255 and \<^verbatim>\<open>keyword.iskeyword\<close>.
\<close>

definition identifier_start :: "char \<Rightarrow> bool" where
  "identifier_start c =
     (let n = (of_char c :: nat)
      in (65 \<le> n \<and> n \<le> 90) \<or> (97 \<le> n \<and> n \<le> 122) \<or> n = 95 \<or> n \<in> {170, 181, 186} \<or>
         (192 \<le> n \<and> n \<le> 214) \<or> (216 \<le> n \<and> n \<le> 246) \<or> 248 \<le> n)"

definition identifier_continue :: "char \<Rightarrow> bool" where
  "identifier_continue c =
     (let n = (of_char c :: nat) in identifier_start c \<or> (48 \<le> n \<and> n \<le> 57) \<or> n = 183)"

fun isidentifier :: "string \<Rightarrow> bool" where
  "isidentifier [] = False"
| "isidentifier (c # cs) = (identifier_start c \<and> list_all identifier_continue cs)"

definition kwlist :: "string list" where
  "kwlist = [''False'', ''None'', ''True'', ''and'', ''as'', ''assert'', ''async'', ''await'',
     ''break'', ''class'', ''continue'', ''def'', ''del'', ''elif'', ''else'', ''except'',
     ''finally'', ''for'', ''from'', ''global'', ''if'', ''import'', ''in'', ''is'', ''lambda'',
     ''nonlocal'', ''not'', ''or'', ''pass'', ''raise'', ''return'', ''try'', ''while'', ''with'',
     ''yield'']"

definition iskeyword :: "string \<Rightarrow> bool" where
  "iskeyword s = (s \<in> set kwlist)"

record ImportableEntryPoint =
  ep_module_name :: string
  ep_attribute_name :: string

definition module_name_must_be_absolute :: "string \<Rightarrow> (py_exn, string) result" where
  "module_name_must_be_absolute val =
     (let parts = split_on CHR ''.'' val
      in if parts = [] \<or> (\<exists>part\<in>set parts. \<not> isidentifier part \<or> iskeyword part)
         then Inl (ValueError ''module_name must be an absolute dotted Python module name'')
         else Inr val)"

definition attribute_name_must_be_exact :: "string \<Rightarrow> (py_exn, string) result" where
  "attribute_name_must_be_exact val =
     (if \<not> isidentifier val \<or> iskeyword val
      then Inl (ValueError ''attribute_name must be one Python identifier'') else Inr val)"

datatype ExecutionTarget =
    TrustedCommandTarget (t_argv: "string list") (t_stdin: bytes)
  | TrustedPythonTarget (t_driver_source: string) (t_request: identity_document)
  | UntrustedCommandTarget (t_argv: "string list") (t_stdin: bytes)
      (t_containment_profile: ContainmentProfile)
  | UntrustedPythonTarget (t_driver_source: string) (t_request: identity_document)
      (t_containment_profile: ContainmentProfile)
  | InProcessImportableJsonTarget (t_entry_point: ImportableEntryPoint)
      (t_request: identity_document)

fun target_kind :: "ExecutionTarget \<Rightarrow> ExecutionTargetKind" where
  "target_kind (TrustedCommandTarget _ _) = ExecutionTargetKind.TRUSTED_COMMAND"
| "target_kind (TrustedPythonTarget _ _) = ExecutionTargetKind.TRUSTED_PYTHON"
| "target_kind (UntrustedCommandTarget _ _ _) = ExecutionTargetKind.UNTRUSTED_COMMAND"
| "target_kind (UntrustedPythonTarget _ _ _) = ExecutionTargetKind.UNTRUSTED_PYTHON"
| "target_kind (InProcessImportableJsonTarget _ _) = ExecutionTargetKind.IN_PROCESS_IMPORTABLE_JSON"

definition ImportableEntryPoint_ok :: "ImportableEntryPoint \<Rightarrow> bool" where
  "ImportableEntryPoint_ok e =
     (module_name_must_be_absolute (ep_module_name e) = Inr (ep_module_name e) \<and>
      attribute_name_must_be_exact (ep_attribute_name e) = Inr (ep_attribute_name e))"

fun ExecutionTarget_ok :: "ExecutionTarget \<Rightarrow> bool" where
  "ExecutionTarget_ok (TrustedCommandTarget argv _) = (validate_argv argv = Inr argv)"
| "ExecutionTarget_ok (UntrustedCommandTarget argv _ _) = (validate_argv argv = Inr argv)"
| "ExecutionTarget_ok (TrustedPythonTarget src _) = (validate_driver_source src = Inr src)"
| "ExecutionTarget_ok (UntrustedPythonTarget src _ _) = (validate_driver_source src = Inr src)"
| "ExecutionTarget_ok (InProcessImportableJsonTarget e _) = ImportableEntryPoint_ok e"

record ExecutionJob =
  job_id :: uuid
  job_target :: ExecutionTarget
  job_env :: EnvGrant
  job_budgets :: Budgets
  job_workspace :: WorkingDirectoryGrant

text \<open>A job whose parts passed their constructors.\<close>

definition ExecutionJob_ok :: "ExecutionJob \<Rightarrow> bool" where
  "ExecutionJob_ok j =
     (ExecutionTarget_ok (job_target j) \<and> EnvGrant_ok (job_env j) \<and> Budgets_ok (job_budgets j) \<and>
      WorkingDirectoryGrant_post_init (job_workspace j) = Inr (job_workspace j))"

end
