(* ===== verification/Validation.thy ===== *)
theory Validation
  imports Declarations
begin

text \<open>
  \<^verbatim>\<open>declarations/validation.py\<close> and \<^verbatim>\<open>declarations/transport.py\<close>: the declaration gate and
  what it guarantees. \<open>canonical_identity\<close> stands for
  \<^verbatim>\<open>dr_serialize.canonical_identity_json_bytes\<close>, \<open>sha256\<close> for the hexadecimal SHA-256
  digest, \<open>resolve\<close> and \<open>is_dir\<close> for the host file system.
\<close>

section \<open>Transport bytes\<close>

definition request_transport_bytes ::
  "(identity_document \<Rightarrow> bytes) \<Rightarrow> identity_document \<Rightarrow> bytes" where
  "request_transport_bytes canonical_identity request = canonical_identity request"

definition request_transport_digest :: "(bytes \<Rightarrow> string) \<Rightarrow> bytes \<Rightarrow> string" where
  "request_transport_digest sha256 transport = sha256 transport"

section \<open>The gate\<close>

type_synonym environment = "string \<rightharpoonup> string"

definition granted_environment :: "EnvGrant \<Rightarrow> environment" where
  "granted_environment grant =
     foldl (\<lambda>m v. m(ev_name v \<mapsto> ev_value v)) Map.empty (eg_variables grant)"

fun declared_input_bytes :: "(identity_document \<Rightarrow> bytes) \<Rightarrow> ExecutionTarget \<Rightarrow> bytes" where
  "declared_input_bytes canonical_identity (TrustedCommandTarget _ stdin) = stdin"
| "declared_input_bytes canonical_identity (UntrustedCommandTarget _ stdin _) = stdin"
| "declared_input_bytes canonical_identity (TrustedPythonTarget _ request) =
     request_transport_bytes canonical_identity request"
| "declared_input_bytes canonical_identity (UntrustedPythonTarget _ request _) =
     request_transport_bytes canonical_identity request"
| "declared_input_bytes canonical_identity (InProcessImportableJsonTarget _ request) =
     request_transport_bytes canonical_identity request"

definition validate_input_budget :: "ExecutionJob \<Rightarrow> bytes \<Rightarrow> (py_exn, unit) result" where
  "validate_input_budget job stdin_bytes =
     (case byte_limit (input_bytes (job_budgets job)) of
        None \<Rightarrow> Inr ()
      | Some limit \<Rightarrow>
          ensure (\<not> int (length stdin_bytes) > limit)
            (DeclarationError (''declared input of '' @ nat_str (length stdin_bytes) @
               '' bytes exceeds the '' @ int_str limit @ ''-byte input budget'')))"

definition validate_command_resolvability ::
  "string list \<Rightarrow> environment \<Rightarrow> (py_exn, unit) result" where
  "validate_command_resolvability argv environment =
     (case argv of
        [] \<Rightarrow> Inl IndexError
      | name # _ \<Rightarrow>
          (if is_absolute (PurePosixPath name) then Inr ()
           else if CHR ''/'' \<in> set name
           then Inl (DeclarationError
             (''a relative executable must be a separator-free PATH name: '' @ name))
           else case environment ''PATH'' of
             None \<Rightarrow> Inl (DeclarationError
               (''a relative executable requires a granted PATH: '' @ name))
           | Some granted_path \<Rightarrow>
               for_each (\<lambda>entry. ensure (is_absolute (PurePosixPath entry))
                   (DeclarationError
                     (''a granted PATH resolves only through absolute entries: '' @ entry)))
                 (split_on CHR '':'' granted_path)))"

definition absolute_caller_workspace_declaration_error :: "string \<Rightarrow> string option" where
  "absolute_caller_workspace_declaration_error posix =
     (if posix = '''' then Some ''caller working-directory paths must be absolute''
      else if \<not> is_absolute (PurePosixPath posix)
      then Some (''caller working-directory paths must be absolute: '' @ posix)
      else None)"

definition persisted_caller_workspace_path_shape_error :: "string \<Rightarrow> string option" where
  "persisted_caller_workspace_path_shape_error path =
     (if path = '''' then Some ''caller working-directory paths must be absolute''
      else let pure = PurePosixPath path
        in if \<not> is_absolute pure
           then Some (''caller working-directory paths must be absolute: '' @ path)
           else if path \<noteq> as_posix pure
           then Some (''caller working-directory paths must be canonical: '' @ path)
           else if \<exists>part\<in>set (path_parts pure). part = ''.'' \<or> part = ''..''
           then Some (''caller working-directory paths must be canonical: '' @ path)
           else None)"

definition validate_working_directory_grant :: "WorkingDirectoryGrant \<Rightarrow> (py_exn, unit) result" where
  "validate_working_directory_grant grant =
     (case wd_kind grant of
        WorkingDirectoryGrantKind.SCRATCH \<Rightarrow> Inr ()
      | WorkingDirectoryGrantKind.CALLER \<Rightarrow>
          (case wd_path grant of
             None \<Rightarrow> Inl (DeclarationError ''caller working-directory grants require a path'')
           | Some path \<Rightarrow>
               (case absolute_caller_workspace_declaration_error (as_posix path) of
                  Some shape_error \<Rightarrow> Inl (DeclarationError shape_error)
                | None \<Rightarrow> Inr ())))"

definition resolve_working_directory_grant ::
  "(posix_path \<Rightarrow> posix_path) \<Rightarrow> (posix_path \<Rightarrow> bool) \<Rightarrow> WorkingDirectoryGrant \<Rightarrow>
     (py_exn, WorkingDirectoryGrant) result" where
  "resolve_working_directory_grant resolve is_dir grant =
     bind_result (validate_working_directory_grant grant) (\<lambda>_.
       case wd_kind grant of
         WorkingDirectoryGrantKind.SCRATCH \<Rightarrow> Inr grant
       | WorkingDirectoryGrantKind.CALLER \<Rightarrow>
           (case wd_path grant of
              None \<Rightarrow> Inl (AssertionError '''')
            | Some path \<Rightarrow>
                (let resolved = resolve path
                 in if \<not> is_dir resolved
                    then Inl (DeclarationError
                      (''caller working-directory paths must name an existing directory: '' @
                       as_posix resolved))
                    else Inr (WorkingDirectoryGrant_caller resolved))))"

definition validate_declaration ::
  "(identity_document \<Rightarrow> bytes) \<Rightarrow> ExecutionJob \<Rightarrow> (py_exn, unit) result" where
  "validate_declaration canonical_identity job =
     bind_result (validate_input_budget job
         (declared_input_bytes canonical_identity (job_target job))) (\<lambda>_.
     bind_result (validate_working_directory_grant (job_workspace job)) (\<lambda>_.
       case job_target job of
         InProcessImportableJsonTarget _ _ \<Rightarrow>
           bind_result (ensure (wd_kind (job_workspace job) = WorkingDirectoryGrantKind.SCRATCH)
             (DeclarationError ''in-process importable JSON jobs accept only scratch working-directory grants'')) (\<lambda>_.
           bind_result (ensure (eg_kind (job_env job) = EnvGrantKind.NONE)
             (DeclarationError ''in-process importable JSON jobs accept no environment grant'')) (\<lambda>_.
           bind_result (ensure (payload_output (job_budgets job) = UnbudgetedLimit)
             (DeclarationError ''in-process importable JSON jobs accept no finite payload_output budget'')) (\<lambda>_.
             Inr ())))
       | TrustedCommandTarget argv _ \<Rightarrow>
           validate_command_resolvability argv (granted_environment (job_env job))
       | UntrustedCommandTarget argv _ _ \<Rightarrow>
           validate_command_resolvability argv (granted_environment (job_env job))
       | TrustedPythonTarget _ _ \<Rightarrow> Inr ()
       | UntrustedPythonTarget _ _ _ \<Rightarrow> Inr ()))"

section \<open>Path facts\<close>

definition canonical_component :: "string \<Rightarrow> bool" where
  "canonical_component c = (c \<noteq> '''' \<and> c \<noteq> ''.'' \<and> c \<noteq> ''..'' \<and> CHR ''/'' \<notin> set c)"

text \<open>The shape the persisted form promises: one or two slashes, then clean components.\<close>

definition canonical_absolute :: "string \<Rightarrow> bool" where
  "canonical_absolute p =
     (\<exists>r cs. (r = ''/'' \<or> r = ''//'') \<and> list_all canonical_component cs \<and>
        p = r @ join_with CHR ''/'' cs)"

lemma splitroot_join: "splitroot p = (r, rel) \<Longrightarrow> p = r @ rel \<and> r \<in> {'''', ''/'', ''//''}"
  by (cases p; cases "drop 1 p"; cases "drop 2 p") (auto simp: splitroot_def split: if_splits)

lemma join_hd_not_slash:
  "list_all canonical_component cs \<Longrightarrow> take 1 (join_with CHR ''/'' cs) \<noteq> ''/''"
proof (induction "CHR ''/''" cs rule: join_with.induct)
  case (2 p)
  then show ?case by (cases p) (auto simp: canonical_component_def)
next
  case (3 p q ps)
  then show ?case by (cases p) (auto simp: canonical_component_def)
qed simp

lemma splitroot_canonical:
  assumes "list_all canonical_component cs" and "r = ''/'' \<or> r = ''//''"
  shows "splitroot (r @ join_with CHR ''/'' cs) = (r, join_with CHR ''/'' cs)"
  using assms join_hd_not_slash [OF assms(1)]
  by (cases "join_with CHR ''/'' cs") (auto simp: splitroot_def)

lemma components_of_join:
  assumes "list_all canonical_component cs"
  shows "filter (\<lambda>x. x \<noteq> '''' \<and> x \<noteq> ''.'') (split_on CHR ''/'' (join_with CHR ''/'' cs)) = cs"
proof (cases "cs = []")
  case False
  with assms have "split_on CHR ''/'' (join_with CHR ''/'' cs) = cs"
    by (intro split_join) (auto simp: list_all_iff canonical_component_def)
  with assms show ?thesis by (auto simp: list_all_iff canonical_component_def filter_id_conv)
qed simp

lemma PurePosixPath_canonical:
  assumes "list_all canonical_component cs" and "r = ''/'' \<or> r = ''//''"
  shows "PurePosixPath (r @ join_with CHR ''/'' cs) = \<lparr>root = r, tail = cs\<rparr>"
  using assms by (simp add: PurePosixPath_def splitroot_canonical components_of_join)

lemma PurePosixPath_tail:
  "c \<in> set (tail (PurePosixPath p)) \<Longrightarrow> c \<noteq> '''' \<and> c \<noteq> ''.'' \<and> CHR ''/'' \<notin> set c"
  by (auto simp: PurePosixPath_def split: prod.splits dest: split_on_parts)

lemma PurePosixPath_root: "root (PurePosixPath p) \<in> {'''', ''/'', ''//''}"
  using splitroot_join by (auto simp: PurePosixPath_def split: prod.splits)

lemma PurePosixPath_abs: "is_absolute (PurePosixPath p) \<longleftrightarrow> take 1 p = ''/''"
  by (auto simp: is_absolute_def PurePosixPath_def splitroot_def)

section \<open>Grant facts\<close>

lemma granted_environment_snoc:
  "granted_environment (g\<lparr>eg_variables := vs @ [v]\<rparr>) =
     (granted_environment (g\<lparr>eg_variables := vs\<rparr>))(ev_name v \<mapsto> ev_value v)"
  by (simp add: granted_environment_def)

lemma granted_environment_map_of:
  "distinct (eg_names g) \<Longrightarrow>
     granted_environment g = map_of (map (\<lambda>v. (ev_name v, ev_value v)) (eg_variables g))"
proof (induction "eg_variables g" arbitrary: g rule: rev_induct)
  case Nil
  then show ?case by (simp add: granted_environment_def)
next
  case (snoc v vs)
  let ?h = "g\<lparr>eg_variables := vs\<rparr>"
  have d: "distinct (map ev_name vs)" "ev_name v \<notin> ev_name ` set vs"
    using snoc.prems by (simp_all add: snoc.hyps(2) [symmetric])
  have h: "granted_environment ?h = map_of (map (\<lambda>v. (ev_name v, ev_value v)) vs)"
    using snoc.hyps(1) [of ?h] d by simp
  have "granted_environment g = (granted_environment ?h)(ev_name v \<mapsto> ev_value v)"
    by (simp add: granted_environment_def snoc.hyps(2) [symmetric])
  also have "\<dots> = map_of (map (\<lambda>v. (ev_name v, ev_value v)) (vs @ [v]))"
  proof -
    have "ev_name v \<notin> dom (map_of (map (\<lambda>v. (ev_name v, ev_value v)) vs))"
      using d(2) by (auto simp: dom_map_of_conv_image_fst image_iff)
    then show ?thesis
      by (auto simp: h fun_eq_iff map_add_def split: option.splits)
  qed
  finally show ?case by (simp add: snoc.hyps(2))
qed

lemma map_of_dict_set: "map_of (dict_set k v d) = (map_of d)(k \<mapsto> v)"
  by (induction k v d rule: dict_set.induct) (auto simp: fun_eq_iff)

lemma dom_dict_set: "fst ` set (dict_set k v d) = insert k (fst ` set d)"
  by (induction k v d rule: dict_set.induct) auto

lemma distinct_dict_set: "distinct (map fst d) \<Longrightarrow> distinct (map fst (dict_set k v d))"
  by (induction k v d rule: dict_set.induct) (auto simp: dom_dict_set)

lemma dict_update_snoc: "dict_update d (e @ [(k, v)]) = dict_set k v (dict_update d e)"
  by (simp add: dict_update_def)

lemma map_of_dict_update:
  "distinct (map fst e) \<Longrightarrow> map_of (dict_update d e) = map_of d ++ map_of e"
proof (induction e rule: rev_induct)
  case Nil
  then show ?case by (simp add: dict_update_def)
next
  case (snoc p e)
  obtain k v where p: "p = (k, v)" by (cases p)
  from snoc.prems have "k \<notin> dom (map_of e)" by (auto simp: p dom_map_of_conv_image_fst)
  then show ?case using snoc
    by (auto simp: p dict_update_snoc map_of_dict_set fun_eq_iff map_add_def split: option.splits)
qed

lemma distinct_dict_update:
  "distinct (map fst d) \<Longrightarrow> distinct (map fst (dict_update d e))"
  by (induction e rule: rev_induct) (auto simp: dict_update_def distinct_dict_set)

lemma map_of_filter_keys:
  "map_of (filter (\<lambda>(k, _). P k) d) = (map_of d) |` {k. P k}"
  by (induction d) (auto simp: fun_eq_iff restrict_map_def)

lemma map_of_sort: "distinct (map fst d) \<Longrightarrow> map_of (sort d) = map_of d"
  by (rule map_of_eqI) (auto simp: map_of_eq_Some_iff distinct_map intro: inj_on_subset)

lemma EnvVar_new_Inr:
  "EnvVar_new n v = Inr e \<Longrightarrow> e = \<lparr>ev_name = n, ev_value = v\<rparr>"
  by (simp add: EnvVar_new_def result_simps)

lemma env_vars_of_items:
  assumes "map_result (\<lambda>(n, v). EnvVar_new n v) items = Inr vars"
  shows "map (\<lambda>v. (ev_name v, ev_value v)) vars = items"
proof (rule nth_equalityI)
  from map_result_Inr [OF assms] have len: "length vars = length items"
    and nth: "\<And>i. i < length items \<Longrightarrow> (case items ! i of (n, v) \<Rightarrow> EnvVar_new n v) = Inr (vars ! i)"
    by auto
  from len show "length (map (\<lambda>v. (ev_name v, ev_value v)) vars) = length items" by simp
  fix i assume "i < length (map (\<lambda>v. (ev_name v, ev_value v)) vars)"
  then have i: "i < length items" "i < length vars" using len by simp_all
  obtain n v where nv: "items ! i = (n, v)" by (cases "items ! i")
  with nth [OF i(1)] have "EnvVar_new n v = Inr (vars ! i)" by simp
  from EnvVar_new_Inr [OF this] nv i show "map (\<lambda>v. (ev_name v, ev_value v)) vars ! i = items ! i"
    by simp
qed

lemma sorted_map_fst:
  fixes xs :: "('a::linorder \<times> 'b::linorder) list"
  shows "sorted xs \<Longrightarrow> sorted (map fst xs)"
proof (induction xs)
  case (Cons p xs)
  have "fst p \<le> fst q" if "q \<in> set xs" for q
    using Cons.prems that by (auto simp: less_eq_prod_def)
  with Cons show ?case by auto
qed simp

lemma card_set_eq_length: "card (set xs) = length xs \<longleftrightarrow> distinct xs"
  using card_distinct distinct_card by blast

lemma EnvGrant_post_init_Inr:
  "EnvGrant_post_init g = Inr h \<longleftrightarrow>
     h = g \<and> (eg_kind g = EnvGrantKind.NONE \<longrightarrow> eg_variables g = []) \<and>
     (eg_kind g \<noteq> EnvGrantKind.OVERLAY \<longrightarrow> eg_excluded_var_names g = []) \<and>
     distinct (eg_names g) \<and> distinct (eg_excluded_var_names g) \<and>
     (\<forall>n\<in>set (eg_excluded_var_names g). validate_env_var_name n = Inr ()) \<and>
     set (eg_names g) \<inter> set (eg_excluded_var_names g) = {}"
  unfolding EnvGrant_post_init_def card_set_eq_length by (auto simp: result_simps)

section \<open>Properties\<close>

text \<open>
  The persisted caller-workspace path is accepted exactly when it is an absolute POSIX
  path spelled canonically: one or two leading slashes and components that are non-empty,
  hold no slash and are neither \<^verbatim>\<open>.\<close> nor \<^verbatim>\<open>..\<close>, joined by single slashes.
\<close>

theorem persisted_path_accepted_iff_canonical:
  "persisted_caller_workspace_path_shape_error p = None \<longleftrightarrow> canonical_absolute p"
proof
  let ?q = "PurePosixPath p"
  assume "persisted_caller_workspace_path_shape_error p = None"
  then have abs: "is_absolute ?q" and post: "p = as_posix ?q"
    and parts: "\<forall>c\<in>set (path_parts ?q). c \<noteq> ''.'' \<and> c \<noteq> ''..''"
    by (auto simp: persisted_caller_workspace_path_shape_error_def Let_def split: if_splits)
  have "list_all canonical_component (tail ?q)"
    using parts PurePosixPath_tail abs
    by (fastforce simp: list_all_iff canonical_component_def path_parts_def is_absolute_def)
  moreover have "root ?q = ''/'' \<or> root ?q = ''//''"
    using PurePosixPath_root [of p] abs by (auto simp: is_absolute_def)
  moreover have "p = root ?q @ join_with CHR ''/'' (tail ?q)"
    using post abs by (auto simp: as_posix_def is_absolute_def Let_def split: if_splits)
  ultimately show "canonical_absolute p" unfolding canonical_absolute_def by blast
next
  assume "canonical_absolute p"
  then obtain r cs where r: "r = ''/'' \<or> r = ''//''" and cs: "list_all canonical_component cs"
    and p: "p = r @ join_with CHR ''/'' cs"
    by (auto simp: canonical_absolute_def)
  have q: "PurePosixPath p = \<lparr>root = r, tail = cs\<rparr>"
    unfolding p by (rule PurePosixPath_canonical [OF cs r])
  show "persisted_caller_workspace_path_shape_error p = None"
    using r cs unfolding persisted_caller_workspace_path_shape_error_def q
    by (auto simp: p is_absolute_def as_posix_def path_parts_def Let_def list_all_iff
        canonical_component_def)
qed

text \<open>When a command target is resolvable, stated without the order of the checks.\<close>

definition command_resolvable :: "string list \<Rightarrow> environment \<Rightarrow> bool" where
  "command_resolvable argv env =
     (argv \<noteq> [] \<and>
      (take 1 (hd argv) = ''/'' \<or>
       CHR ''/'' \<notin> set (hd argv) \<and>
       (\<exists>path. env ''PATH'' = Some path \<and>
          (\<forall>entry\<in>set (split_on CHR '':'' path). take 1 entry = ''/''))))"

lemma validate_command_resolvability_iff:
  "validate_command_resolvability argv env = Inr () \<longleftrightarrow> command_resolvable argv env"
  by (cases argv)
    (auto simp: validate_command_resolvability_def command_resolvable_def PurePosixPath_abs
      split: option.splits)

definition workspace_declared :: "WorkingDirectoryGrant \<Rightarrow> bool" where
  "workspace_declared g =
     (wd_kind g = WorkingDirectoryGrantKind.SCRATCH \<or>
      (\<exists>p. wd_path g = Some p \<and> take 1 (as_posix p) = ''/''))"

lemma validate_working_directory_grant_iff:
  "validate_working_directory_grant g = Inr () \<longleftrightarrow> workspace_declared g"
  by (auto simp: validate_working_directory_grant_def workspace_declared_def
      absolute_caller_workspace_declaration_error_def PurePosixPath_abs
      split: WorkingDirectoryGrantKind.splits option.splits if_splits)

definition input_within_budget :: "(identity_document \<Rightarrow> bytes) \<Rightarrow> ExecutionJob \<Rightarrow> bool" where
  "input_within_budget canonical_identity job =
     (case byte_limit (input_bytes (job_budgets job)) of
        None \<Rightarrow> True
      | Some n \<Rightarrow> int (length (declared_input_bytes canonical_identity (job_target job))) \<le> n)"

lemma validate_input_budget_iff:
  "validate_input_budget job (declared_input_bytes ci (job_target job)) = Inr () \<longleftrightarrow>
     input_within_budget ci job"
  by (auto simp: validate_input_budget_def input_within_budget_def split: option.splits)

text \<open>
  C11: the declaration gate accepts a job exactly when its declared input fits its input
  budget, a caller workspace is absolute, and the target's own rule holds: a command is
  absolute or a separator-free name under a granted PATH of absolute entries; a Python
  target needs nothing more; an in-process target has a scratch workspace, no environment
  grant and no finite output budget.
\<close>

theorem declaration_gate_iff:
  "validate_declaration canonical_identity job = Inr () \<longleftrightarrow>
     input_within_budget canonical_identity job \<and> workspace_declared (job_workspace job) \<and>
     (case job_target job of
        TrustedCommandTarget argv _ \<Rightarrow>
          command_resolvable argv (granted_environment (job_env job))
      | UntrustedCommandTarget argv _ _ \<Rightarrow>
          command_resolvable argv (granted_environment (job_env job))
      | InProcessImportableJsonTarget _ _ \<Rightarrow>
          wd_kind (job_workspace job) = WorkingDirectoryGrantKind.SCRATCH \<and>
          eg_kind (job_env job) = EnvGrantKind.NONE \<and>
          payload_output (job_budgets job) = UnbudgetedLimit
      | _ \<Rightarrow> True)"
  unfolding validate_declaration_def
  by (simp add: bind_result_eq_Inr validate_input_budget_iff validate_working_directory_grant_iff
      validate_command_resolvability_iff split: ExecutionTarget.split)

text \<open>
  The environment of an overlay grant is the host environment without the excluded
  names, overridden by the extra variables; none of the excluded names is granted, the
  grant is well formed, and its variables are stored in order of their names.
\<close>

theorem overlay_grant_environment:
  assumes "distinct (map fst environ)" and "distinct (map fst extra)"
    and "EnvGrant_overlay environ extra exclusions = Inr g"
  shows "granted_environment g = (map_of environ |` (- set exclusions)) ++ map_of extra \<and>
    dom (granted_environment g) \<inter> set exclusions = {} \<and> EnvGrant_post_init g = Inr g \<and>
    sorted (eg_names g)"
proof -
  let ?kept = "filter (\<lambda>(name, _). name \<notin> set (sort exclusions)) environ"
  let ?merged = "dict_update ?kept extra"
  from assms(3) obtain vars where
    vars: "map_result (\<lambda>(name, val). EnvVar_new name val) (sort ?merged) = Inr vars"
    and post: "EnvGrant_post_init \<lparr>eg_kind = EnvGrantKind.OVERLAY, eg_variables = vars,
        eg_excluded_var_names = sort exclusions\<rparr> = Inr g"
    by (auto simp: EnvGrant_overlay_def result_simps Let_def)
  have g: "g = \<lparr>eg_kind = EnvGrantKind.OVERLAY, eg_variables = vars,
      eg_excluded_var_names = sort exclusions\<rparr>"
    and names: "distinct (eg_names g)"
    and disj: "set (eg_names g) \<inter> set exclusions = {}"
    using post by (auto simp: EnvGrant_post_init_Inr)
  have items: "map (\<lambda>v. (ev_name v, ev_value v)) vars = sort ?merged"
    by (rule env_vars_of_items [OF vars])
  have dkept: "distinct (map fst ?kept)"
    using assms(1) by (simp add: distinct_map_filter)
  have "granted_environment g = map_of (sort ?merged)"
    using names items by (simp add: granted_environment_map_of g)
  also have "\<dots> = (map_of environ |` (- set exclusions)) ++ map_of extra"
    using dkept assms(2)
    by (simp add: map_of_sort distinct_dict_update map_of_dict_update map_of_filter_keys
        Compl_eq)
  finally have env: "granted_environment g = (map_of environ |` (- set exclusions)) ++ map_of extra" .
  have "eg_names g = map fst (sort ?merged)"
    using arg_cong [OF items, of "map fst"] by (simp add: g comp_def)
  moreover have "sorted (map fst (sort ?merged))"
    by (simp add: sorted_map_fst)
  ultimately have sorted: "sorted (eg_names g)" by simp
  have "dom (granted_environment g) = set (eg_names g)"
    using names by (simp add: granted_environment_map_of dom_map_of_conv_image_fst image_image)
  with disj env sorted post g show ?thesis by simp
qed

theorem overlay_grant_environment_witness:
  "granted_environment \<lparr>eg_kind = EnvGrantKind.OVERLAY,
      eg_variables = [\<lparr>ev_name = ''HOME'', ev_value = ''/h''\<rparr>, \<lparr>ev_name = ''PATH'', ev_value = ''/bin''\<rparr>],
      eg_excluded_var_names = [''KEY'']\<rparr> =
    (map_of [(''PATH'', ''/usr''), (''KEY'', ''s''), (''HOME'', ''/h'')] |` (- set [''KEY''])) ++
      map_of [(''PATH'', ''/bin'')]"
proof -
  let ?environ = "[(''PATH'', ''/usr''), (''KEY'', ''s''), (''HOME'', ''/h'')]"
  let ?g = "\<lparr>eg_kind = EnvGrantKind.OVERLAY,
      eg_variables = [\<lparr>ev_name = ''HOME'', ev_value = ''/h''\<rparr>, \<lparr>ev_name = ''PATH'', ev_value = ''/bin''\<rparr>],
      eg_excluded_var_names = [''KEY'']\<rparr>"
  have "EnvGrant_overlay ?environ [(''PATH'', ''/bin'')] [''KEY''] = Inr ?g"
    by (simp add: EnvGrant_overlay_def dict_update_def EnvVar_new_def validate_env_var_name_def
        validate_env_var_value_def EnvGrant_post_init_def less_eq_prod_def less_list_code
        less_eq_list_code)
  then show ?thesis
    using overlay_grant_environment [of ?environ "[(''PATH'', ''/bin'')]" "[''KEY'']" ?g] by simp
qed

end
