(* ===== verification/Runtime.thy ===== *)
theory Runtime
  imports Validation
begin

text \<open>
  The Python runtime boundary: \<^verbatim>\<open>runtime/identity.py\<close>, \<^verbatim>\<open>runtime/probe.py\<close> and
  \<^verbatim>\<open>runtime/host.py\<close>, and the runtime contract of \<^verbatim>\<open>capabilities/protocols.py\<close> as a locale.
  A pydantic model with string fields is validated from a mapping by its declared fields:
  exactly these keys, each a string that meets its constraint. Parameters: the JSON decoder
  of the probe output, the child's exit status, file metadata of the host, the repr of a
  string and the canonical encoder.
\<close>

section \<open>Runtime identity\<close>

definition ISOLATED_HOST_RUNTIME_IDENTITY_SCHEMA :: string where
  "ISOLATED_HOST_RUNTIME_IDENTITY_SCHEMA = ''dr_exec.isolated_host_python_runtime''"

definition validate_normalized_absolute_posix_path :: "string \<Rightarrow> (py_exn, string) result" where
  "validate_normalized_absolute_posix_path val =
     (let path = PurePosixPath val
      in if \<not> is_absolute path \<or> as_posix path \<noteq> val \<or>
            (\<exists>part\<in>set (path_parts path). part = ''.'' \<or> part = ''..'')
         then Inl (ValueError ''resolved_executable must be a normalized absolute POSIX path'')
         else Inr val)"

record IsolatedHostRuntimeIdentityPayload =
  ip_kind :: string
  ip_resolved_executable :: string
  ip_implementation :: string
  ip_python_version :: string
  ip_cache_tag :: string
  ip_platform :: string

definition IsolatedHostRuntimeIdentityPayload_check ::
  "IsolatedHostRuntimeIdentityPayload \<Rightarrow> (py_exn, IsolatedHostRuntimeIdentityPayload) result" where
  "IsolatedHostRuntimeIdentityPayload_check p =
     bind_result (ensure (ip_kind p = ''isolated_host_python'') (ValueError ''kind'')) (\<lambda>_.
     bind_result (validate_normalized_absolute_posix_path (ip_resolved_executable p)) (\<lambda>_.
     bind_result (ensure (ip_implementation p \<noteq> '''') (ValueError ''implementation'')) (\<lambda>_.
     bind_result (ensure (ip_python_version p \<noteq> '''') (ValueError ''python_version'')) (\<lambda>_.
     bind_result (ensure (ip_cache_tag p \<noteq> '''') (ValueError ''cache_tag'')) (\<lambda>_.
     bind_result (ensure (ip_platform p \<noteq> '''') (ValueError ''platform'')) (\<lambda>_.
       Inr p))))))"

text \<open>\<^verbatim>\<open>model_dump(mode="json")\<close>: the fields in declaration order.\<close>

definition runtime_payload_json :: "IsolatedHostRuntimeIdentityPayload \<Rightarrow> json" where
  "runtime_payload_json p =
     JObj [(''kind'', JStr (ip_kind p)), (''resolved_executable'', JStr (ip_resolved_executable p)),
       (''implementation'', JStr (ip_implementation p)),
       (''python_version'', JStr (ip_python_version p)), (''cache_tag'', JStr (ip_cache_tag p)),
       (''platform'', JStr (ip_platform p))]"

definition str_field :: "(string \<times> json) list \<Rightarrow> string \<Rightarrow> (py_exn, string) result" where
  "str_field ps k =
     (case map_of ps k of
        Some (JStr s) \<Rightarrow> Inr s
      | _ \<Rightarrow> Inl (ValueError k))"

definition runtime_payload_model_validate ::
  "(string \<times> json) list \<Rightarrow> (py_exn, IsolatedHostRuntimeIdentityPayload) result" where
  "runtime_payload_model_validate ps =
     bind_result (ensure (set (map fst ps) \<subseteq> {''kind'', ''resolved_executable'',
         ''implementation'', ''python_version'', ''cache_tag'', ''platform''})
       (ValueError ''extra_forbidden'')) (\<lambda>_.
     bind_result (str_field ps ''kind'') (\<lambda>kind.
     bind_result (str_field ps ''resolved_executable'') (\<lambda>exe.
     bind_result (str_field ps ''implementation'') (\<lambda>impl.
     bind_result (str_field ps ''python_version'') (\<lambda>ver.
     bind_result (str_field ps ''cache_tag'') (\<lambda>tag.
     bind_result (str_field ps ''platform'') (\<lambda>plat.
       IsolatedHostRuntimeIdentityPayload_check
         \<lparr>ip_kind = kind, ip_resolved_executable = exe, ip_implementation = impl,
          ip_python_version = ver, ip_cache_tag = tag, ip_platform = plat\<rparr>)))))))"

definition isolated_host_runtime_identity_payload ::
  "identity_document \<Rightarrow> (py_exn, IsolatedHostRuntimeIdentityPayload) result" where
  "isolated_host_runtime_identity_payload document =
     bind_result (require_identity_role document ISOLATED_HOST_RUNTIME_IDENTITY_SCHEMA)
       runtime_payload_model_validate"

definition build_isolated_host_runtime_identity ::
  "IsolatedHostRuntimeIdentityPayload \<Rightarrow> identity_document" where
  "build_isolated_host_runtime_identity p =
     \<lparr>doc_schema = ISOLATED_HOST_RUNTIME_IDENTITY_SCHEMA,
      doc_schema_version = IDENTITY_SCHEMA_VERSION, doc_payload = runtime_payload_json p\<rparr>"

section \<open>The interpreter probe\<close>

definition PROBE_FACT_KEYS :: "string list" where
  "PROBE_FACT_KEYS = [''implementation'', ''python_version'', ''cache_tag'', ''platform'']"

text \<open>
  \<open>loads\<close> is \<^verbatim>\<open>json.loads(stdout.decode("utf-8"))\<close>, \<open>None\<close> when either step raises.
\<close>

definition parse_probe_output ::
  "(bytes \<Rightarrow> json option) \<Rightarrow> bytes \<Rightarrow> string \<Rightarrow> (string, (string \<times> json) list) result" where
  "parse_probe_output loads stdout executable =
     (case loads stdout of
        None \<Rightarrow> Inl (''interpreter probe output is not JSON: '' @ executable)
      | Some (JObj facts) \<Rightarrow>
          (if set (map fst facts) \<noteq> set PROBE_FACT_KEYS
           then Inl (''interpreter probe reported unexpected keys: '' @ executable)
           else if \<exists>v\<in>snd ` set facts. (case v of JStr s \<Rightarrow> s = '''' | _ \<Rightarrow> True)
           then Inl (''interpreter probe reported an unusable fact: '' @ executable)
           else Inr facts)
      | Some _ \<Rightarrow> Inl (''interpreter probe reported unexpected keys: '' @ executable))"

text \<open>The completed probe process: \<open>None\<close> when it could not be run.\<close>

definition probe_interpreter ::
  "(bytes \<Rightarrow> json option) \<Rightarrow> (int \<times> bytes) option \<Rightarrow> string \<Rightarrow>
     (string, (string \<times> json) list) result" where
  "probe_interpreter loads completed executable =
     (case completed of
        None \<Rightarrow> Inl (''interpreter probe failed to run: '' @ executable)
      | Some (returncode, stdout) \<Rightarrow>
          (if returncode \<noteq> 0
           then Inl (''interpreter probe exited '' @ int_str returncode @ '': '' @ executable)
           else parse_probe_output loads stdout executable))"

section \<open>The isolated host runtime\<close>

record RuntimeRecord =
  rr_kind :: RuntimeKind
  rr_resolved_executable :: posix_path
  rr_id_doc :: identity_document

definition fields_must_match_identity :: "RuntimeRecord \<Rightarrow> (py_exn, RuntimeRecord) result" where
  "fields_must_match_identity r =
     bind_result (isolated_host_runtime_identity_payload (rr_id_doc r)) (\<lambda>payload.
     bind_result (ensure (RuntimeKind_value (rr_kind r) = ip_kind payload)
       (ValueError ''runtime kind does not match identity'')) (\<lambda>_.
     bind_result (ensure (as_posix (rr_resolved_executable r) = ip_resolved_executable payload)
       (ValueError ''resolved executable does not match identity'')) (\<lambda>_.
       Inr r)))"

definition fact_str :: "(string \<times> json) list \<Rightarrow> string \<Rightarrow> string" where
  "fact_str facts k = (case map_of facts k of Some (JStr s) \<Rightarrow> s | _ \<Rightarrow> '''')"

definition describe_resolved_executable ::
  "posix_path \<Rightarrow> (string \<times> json) list \<Rightarrow> (py_exn, RuntimeRecord) result" where
  "describe_resolved_executable executable facts =
     bind_result (IsolatedHostRuntimeIdentityPayload_check
         \<lparr>ip_kind = RuntimeKind_value RuntimeKind.ISOLATED_HOST_PYTHON,
          ip_resolved_executable = as_posix executable,
          ip_implementation = fact_str facts ''implementation'',
          ip_python_version = fact_str facts ''python_version'',
          ip_cache_tag = fact_str facts ''cache_tag'', ip_platform = fact_str facts ''platform''\<rparr>)
       (\<lambda>payload.
         fields_must_match_identity
           \<lparr>rr_kind = RuntimeKind.ISOLATED_HOST_PYTHON, rr_resolved_executable = executable,
            rr_id_doc = build_isolated_host_runtime_identity payload\<rparr>)"

record IsolatedHostPythonRuntime =
  rt_executable :: posix_path
  rt_runtime_record :: RuntimeRecord

text \<open>
  \<^verbatim>\<open>__post_init__\<close>: \<open>abspath\<close>, \<open>is_regular\<close> (\<open>None\<close> when \<^verbatim>\<open>stat\<close> raises) and
  \<open>can_execute\<close> are the host's answers, \<open>probe\<close> the result of the interpreter probe.
\<close>

definition IsolatedHostPythonRuntime_new ::
  "(posix_path \<Rightarrow> posix_path) \<Rightarrow> (posix_path \<Rightarrow> bool option) \<Rightarrow> (posix_path \<Rightarrow> bool) \<Rightarrow>
     (posix_path \<Rightarrow> (string, (string \<times> json) list) result) \<Rightarrow> posix_path \<Rightarrow>
     (py_exn, IsolatedHostPythonRuntime) result" where
  "IsolatedHostPythonRuntime_new abspath is_regular can_execute probe executable =
     (let resolved = abspath executable
      in case is_regular resolved of
           None \<Rightarrow> Inl (ValueError (''unable to resolve runtime executable: '' @ as_posix executable))
         | Some False \<Rightarrow>
             Inl (ValueError (''runtime executable must be a regular file: '' @ as_posix resolved))
         | Some True \<Rightarrow>
             (if \<not> can_execute resolved
              then Inl (ValueError (''runtime executable is not executable: '' @ as_posix resolved))
              else case probe resolved of
                Inl message \<Rightarrow> Inl (ValueError message)
              | Inr facts \<Rightarrow>
                  bind_result (describe_resolved_executable resolved facts) (\<lambda>r.
                    Inr \<lparr>rt_executable = resolved, rt_runtime_record = r\<rparr>)))"

record PreparedPythonProcess =
  pp_argv :: "string list"
  pp_request_bytes :: bytes
  pp_request_id_sha256 :: string
  pp_runtime_record :: RuntimeRecord

definition ISOLATED_INVOCATION_ARGUMENTS :: "string list" where
  "ISOLATED_INVOCATION_ARGUMENTS = [''-I'', ''-c'']"

text \<open>
  \<^verbatim>\<open>driver_wrapper_source\<close>: the bindings and the wrapper body joined by newlines. \<open>py_repr\<close>
  is the repr of a string, \<open>body\<close> the fixed wrapper text.
\<close>

definition driver_wrapper_source ::
  "(string \<Rightarrow> string) \<Rightarrow> string \<Rightarrow> string \<Rightarrow> (py_exn, string) result" where
  "driver_wrapper_source py_repr body driver_source =
     (if CHR 0x00 \<in> set driver_source
      then Inl (ValueError ''driver_source must not contain NUL'')
      else Inr (join_with (CHR 0x0A)
        [''DR_EXEC_DRIVER_SOURCE = '' @ py_repr driver_source,
         ''_DR_EXEC_PROTOCOL_DESCRIPTOR = 3'',
         ''_DR_EXEC_ENTRYPOINT_NAME = '' @ py_repr ''dr_exec_main'', body]))"

definition runtime_prepare ::
  "(identity_document \<Rightarrow> bytes) \<Rightarrow> (bytes \<Rightarrow> string) \<Rightarrow> (string \<Rightarrow> string) \<Rightarrow> string \<Rightarrow>
     IsolatedHostPythonRuntime \<Rightarrow> ExecutionTarget \<Rightarrow> (py_exn, PreparedPythonProcess) result" where
  "runtime_prepare canonical_identity sha256 py_repr body runtime target =
     (let request_bytes = request_transport_bytes canonical_identity (t_request target)
      in bind_result (driver_wrapper_source py_repr body (t_driver_source target)) (\<lambda>src.
           Inr \<lparr>pp_argv = as_posix (rt_executable runtime) # ISOLATED_INVOCATION_ARGUMENTS @ [src],
                pp_request_bytes = request_bytes,
                pp_request_id_sha256 = request_transport_digest sha256 request_bytes,
                pp_runtime_record = rt_runtime_record runtime\<rparr>))"

section \<open>Facts\<close>

lemma normalized_path_iff:
  "validate_normalized_absolute_posix_path p = Inr p \<longleftrightarrow>
     persisted_caller_workspace_path_shape_error p = None"
  by (auto simp: validate_normalized_absolute_posix_path_def
      persisted_caller_workspace_path_shape_error_def Let_def PurePosixPath_abs)

lemma validate_normalized_Inr:
  "validate_normalized_absolute_posix_path p = Inr q \<Longrightarrow>
     q = p \<and> is_absolute (PurePosixPath p)"
  by (auto simp: validate_normalized_absolute_posix_path_def Let_def split: if_splits)

lemma payload_check_Inr:
  "IsolatedHostRuntimeIdentityPayload_check p = Inr q \<Longrightarrow> q = p"
  by (simp add: IsolatedHostRuntimeIdentityPayload_check_def result_simps)

lemma runtime_payload_model_validate_dump:
  "runtime_payload_json p = JObj ps \<Longrightarrow>
     runtime_payload_model_validate ps = IsolatedHostRuntimeIdentityPayload_check p"
  by (cases p) (auto simp: runtime_payload_json_def runtime_payload_model_validate_def str_field_def)

lemma identity_payload_build:
  "isolated_host_runtime_identity_payload (build_isolated_host_runtime_identity p) =
     IsolatedHostRuntimeIdentityPayload_check p"
  by (simp add: isolated_host_runtime_identity_payload_def build_isolated_host_runtime_identity_def
      require_identity_role_def runtime_payload_json_def
      runtime_payload_model_validate_dump [of p, unfolded runtime_payload_json_def, OF refl])

lemma describe_record:
  assumes "describe_resolved_executable executable facts = Inr r"
  shows "rr_resolved_executable r = executable" and "fields_must_match_identity r = Inr r"
    and "validate_normalized_absolute_posix_path (as_posix executable) = Inr (as_posix executable)"
proof -
  define p where "p = \<lparr>ip_kind = RuntimeKind_value RuntimeKind.ISOLATED_HOST_PYTHON,
      ip_resolved_executable = as_posix executable,
      ip_implementation = fact_str facts ''implementation'',
      ip_python_version = fact_str facts ''python_version'',
      ip_cache_tag = fact_str facts ''cache_tag'', ip_platform = fact_str facts ''platform''\<rparr>"
  from assms obtain q where q: "IsolatedHostRuntimeIdentityPayload_check p = Inr q"
    and g: "fields_must_match_identity \<lparr>rr_kind = RuntimeKind.ISOLATED_HOST_PYTHON,
        rr_resolved_executable = executable,
        rr_id_doc = build_isolated_host_runtime_identity q\<rparr> = Inr r"
    unfolding describe_resolved_executable_def p_def [symmetric] bind_result_eq_Inr by blast
  have "q = p" using q by (rule payload_check_Inr)
  with q g have p: "IsolatedHostRuntimeIdentityPayload_check p = Inr p"
    and f: "fields_must_match_identity \<lparr>rr_kind = RuntimeKind.ISOLATED_HOST_PYTHON,
        rr_resolved_executable = executable,
        rr_id_doc = build_isolated_host_runtime_identity p\<rparr> = Inr r"
    by simp_all
  have e: "ip_resolved_executable p = as_posix executable" by (simp add: p_def)
  from f have "r = \<lparr>rr_kind = RuntimeKind.ISOLATED_HOST_PYTHON, rr_resolved_executable = executable,
      rr_id_doc = build_isolated_host_runtime_identity p\<rparr>"
    by (auto simp: fields_must_match_identity_def result_simps)
  with f show "rr_resolved_executable r = executable" "fields_must_match_identity r = Inr r"
    by simp_all
  from p e show "validate_normalized_absolute_posix_path (as_posix executable) = Inr (as_posix executable)"
    by (auto simp: IsolatedHostRuntimeIdentityPayload_check_def bind_result_eq_Inr
        dest: validate_normalized_Inr)
qed

section \<open>The runtime contract\<close>

text \<open>
  \<^verbatim>\<open>capabilities/protocols.py\<close>: a conforming \<^verbatim>\<open>prepare\<close> returns an absolute interpreter path
  and request bytes that are exactly the canonical transport bytes of the declared request.
  The client is the declaration gate, which checks budgets against the declaration only.
\<close>

locale conforming_runtime =
  fixes canonical_identity :: "identity_document \<Rightarrow> bytes"
    and prepare :: "ExecutionTarget \<Rightarrow> (py_exn, PreparedPythonProcess) result"
  assumes absolute_argv: "prepare target = Inr p \<Longrightarrow>
      \<exists>exe rest. pp_argv p = exe # rest \<and> is_absolute (PurePosixPath exe)"
    and exact_request: "prepare target = Inr p \<Longrightarrow>
      pp_request_bytes p = request_transport_bytes canonical_identity (t_request target)"
begin

lemma prepared_input_within_budget:
  assumes "target_kind (job_target job) \<in>
      {ExecutionTargetKind.TRUSTED_PYTHON, ExecutionTargetKind.UNTRUSTED_PYTHON}"
    and "prepare (job_target job) = Inr p"
    and "validate_declaration canonical_identity job = Inr ()"
    and "byte_limit (input_bytes (job_budgets job)) = Some n"
  shows "int (length (pp_request_bytes p)) \<le> n"
proof -
  have "input_within_budget canonical_identity job"
    using assms(3) unfolding validate_declaration_def
    by (simp add: bind_result_eq_Inr validate_input_budget_iff)
  moreover have "declared_input_bytes canonical_identity (job_target job) = pp_request_bytes p"
    using assms(1) exact_request [OF assms(2)] by (cases "job_target job") simp_all
  ultimately show ?thesis using assms(4) by (simp add: input_within_budget_def)
qed

end

lemma runtime_constructedD:
  assumes "IsolatedHostPythonRuntime_new abspath is_regular can_execute probe executable = Inr rt"
  shows "is_absolute (PurePosixPath (as_posix (rt_executable rt)))"
    and "fields_must_match_identity (rt_runtime_record rt) = Inr (rt_runtime_record rt)"
    and "rr_resolved_executable (rt_runtime_record rt) = rt_executable rt"
proof -
  from assms obtain facts where
    d: "describe_resolved_executable (rt_executable rt) facts = Inr (rt_runtime_record rt)"
    by (auto simp: IsolatedHostPythonRuntime_new_def bind_result_eq_Inr Let_def
        split: option.splits bool.splits if_splits sum.splits)
  from describe_record [OF d] validate_normalized_Inr
  show "is_absolute (PurePosixPath (as_posix (rt_executable rt)))"
    "fields_must_match_identity (rt_runtime_record rt) = Inr (rt_runtime_record rt)"
    "rr_resolved_executable (rt_runtime_record rt) = rt_executable rt"
    by blast+
qed

lemma runtime_prepare_conforms:
  assumes "is_absolute (PurePosixPath (as_posix (rt_executable rt)))"
  shows "conforming_runtime canonical_identity
    (runtime_prepare canonical_identity sha256 py_repr body rt)"
  using assms
  by unfold_locales (auto simp: runtime_prepare_def bind_result_eq_Inr Let_def)


text \<open>
  Constructing a runtime on a host and preparing a target with it: the composition the
  engine's callers run, and the instance of the contract.
\<close>

definition constructed_prepare ::
  "(identity_document \<Rightarrow> bytes) \<Rightarrow> (bytes \<Rightarrow> string) \<Rightarrow> (string \<Rightarrow> string) \<Rightarrow> string \<Rightarrow>
     (py_exn, IsolatedHostPythonRuntime) result \<Rightarrow> ExecutionTarget \<Rightarrow>
     (py_exn, PreparedPythonProcess) result" where
  "constructed_prepare canonical_identity sha256 py_repr body constructed target =
     bind_result constructed (\<lambda>rt. runtime_prepare canonical_identity sha256 py_repr body rt target)"

interpretation host_runtime: conforming_runtime canonical_identity
  "constructed_prepare canonical_identity sha256 py_repr body
     (IsolatedHostPythonRuntime_new abspath is_regular can_execute probe executable)"
  for canonical_identity sha256 py_repr body abspath is_regular can_execute probe executable
proof
  fix target p
  assume prep: "constructed_prepare canonical_identity sha256 py_repr body
     (IsolatedHostPythonRuntime_new abspath is_regular can_execute probe executable) target = Inr p"
  then obtain rt where
    rt: "IsolatedHostPythonRuntime_new abspath is_regular can_execute probe executable = Inr rt"
    and p: "runtime_prepare canonical_identity sha256 py_repr body rt target = Inr p"
    by (auto simp: constructed_prepare_def bind_result_eq_Inr)
  note conforms = runtime_prepare_conforms [OF runtime_constructedD(1) [OF rt],
      of canonical_identity sha256 py_repr body]
  show "\<exists>exe rest. pp_argv p = exe # rest \<and> is_absolute (PurePosixPath exe)"
    by (rule conforming_runtime.absolute_argv [OF conforms p])
  show "pp_request_bytes p = request_transport_bytes canonical_identity (t_request target)"
    by (rule conforming_runtime.exact_request [OF conforms p])
qed


section \<open>Properties\<close>

text \<open>
  C13: A process prepared by a runtime that was constructed on the host, for a job that passed
  the declaration gate: it starts the resolved interpreter by an absolute path in isolated
  mode, its request bytes stay within the declared input budget, and its runtime record
  agrees with the identity document it carries.
\<close>

theorem host_runtime_prepared_process:
  assumes "IsolatedHostPythonRuntime_new abspath is_regular can_execute probe executable = Inr rt"
    and "runtime_prepare canonical_identity sha256 py_repr body rt (job_target job) = Inr p"
    and "validate_declaration canonical_identity job = Inr ()"
    and "target_kind (job_target job) \<in>
      {ExecutionTargetKind.TRUSTED_PYTHON, ExecutionTargetKind.UNTRUSTED_PYTHON}"
  shows "(\<exists>src. pp_argv p = [as_posix (abspath executable), ''-I'', ''-c'', src]) \<and>
    is_absolute (PurePosixPath (as_posix (abspath executable))) \<and>
    (\<forall>n. byte_limit (input_bytes (job_budgets job)) = Some n \<longrightarrow>
      int (length (pp_request_bytes p)) \<le> n) \<and>
    fields_must_match_identity (pp_runtime_record p) = Inr (pp_runtime_record p)"
proof -
  have prep: "constructed_prepare canonical_identity sha256 py_repr body
      (IsolatedHostPythonRuntime_new abspath is_regular can_execute probe executable)
      (job_target job) = Inr p"
    using assms(1,2) by (simp add: constructed_prepare_def)
  have exe: "rt_executable rt = abspath executable"
    using assms(1) by (auto simp: IsolatedHostPythonRuntime_new_def bind_result_eq_Inr Let_def
        split: option.splits bool.splits if_splits sum.splits)
  then have argv: "\<exists>src. pp_argv p = [as_posix (abspath executable), ''-I'', ''-c'', src]"
    using assms(2) by (auto simp: runtime_prepare_def bind_result_eq_Inr Let_def
        ISOLATED_INVOCATION_ARGUMENTS_def)
  have "pp_runtime_record p = rt_runtime_record rt"
    using assms(2) by (auto simp: runtime_prepare_def bind_result_eq_Inr Let_def)
  with argv exe runtime_constructedD [OF assms(1)]
    host_runtime.prepared_input_within_budget [OF assms(4) prep assms(3)]
  show ?thesis by simp
qed

theorem host_runtime_prepared_process_witness:
  "let exe = PurePosixPath ''/usr/bin/python3'';
       facts = [(''implementation'', JStr ''cpython''), (''python_version'', JStr ''3.12.1''),
         (''cache_tag'', JStr ''cpython-312''), (''platform'', JStr ''linux'')];
       payload = \<lparr>ip_kind = ''isolated_host_python'', ip_resolved_executable = ''/usr/bin/python3'',
         ip_implementation = ''cpython'', ip_python_version = ''3.12.1'',
         ip_cache_tag = ''cpython-312'', ip_platform = ''linux''\<rparr>;
       r = \<lparr>rr_kind = RuntimeKind.ISOLATED_HOST_PYTHON, rr_resolved_executable = exe,
         rr_id_doc = build_isolated_host_runtime_identity payload\<rparr>
   in IsolatedHostPythonRuntime_new id (\<lambda>_. Some True) (\<lambda>_. True) (\<lambda>_. Inr facts) exe =
        Inr \<lparr>rt_executable = exe, rt_runtime_record = r\<rparr> \<and>
      fields_must_match_identity r = Inr r"
proof -
  define exe where "exe = PurePosixPath ''/usr/bin/python3''"
  define facts where "facts = [(''implementation'', JStr ''cpython''),
    (''python_version'', JStr ''3.12.1''), (''cache_tag'', JStr ''cpython-312''),
    (''platform'', JStr ''linux'')]"
  define payload where "payload = \<lparr>ip_kind = ''isolated_host_python'',
    ip_resolved_executable = ''/usr/bin/python3'', ip_implementation = ''cpython'',
    ip_python_version = ''3.12.1'', ip_cache_tag = ''cpython-312'', ip_platform = ''linux''\<rparr>"
  define r where "r = \<lparr>rr_kind = RuntimeKind.ISOLATED_HOST_PYTHON, rr_resolved_executable = exe,
    rr_id_doc = build_isolated_host_runtime_identity payload\<rparr>"
  define target where "target = TrustedPythonTarget ''pass''
    \<lparr>doc_schema = ''s'', doc_schema_version = 1, doc_payload = JObj []\<rparr>"
  define job where "job = \<lparr>job_id = 0, job_target = target,
    job_env = \<lparr>eg_kind = EnvGrantKind.NONE, eg_variables = [], eg_excluded_var_names = []\<rparr>,
    job_budgets = Budgets_unbudgeted \<lparr>input_bytes := Finite \<lparr>fb_max_bytes = 4\<rparr>\<rparr>,
    job_workspace = WorkingDirectoryGrant_scratch\<rparr>"
  have path: "as_posix exe = ''/usr/bin/python3''"
    by (simp add: exe_def PurePosixPath_def as_posix_def splitroot_def)
  have check: "IsolatedHostRuntimeIdentityPayload_check payload = Inr payload"
    by (simp add: payload_def IsolatedHostRuntimeIdentityPayload_check_def
        validate_normalized_absolute_posix_path_def PurePosixPath_def as_posix_def splitroot_def
        is_absolute_def path_parts_def)
  have new: "IsolatedHostPythonRuntime_new id (\<lambda>_. Some True) (\<lambda>_. True) (\<lambda>_. Inr facts) exe =
      Inr \<lparr>rt_executable = exe, rt_runtime_record = r\<rparr>"
    using check path
    by (simp add: IsolatedHostPythonRuntime_new_def describe_resolved_executable_def
        fields_must_match_identity_def identity_payload_build facts_def fact_str_def
        payload_def r_def)
  have decl: "validate_declaration (\<lambda>_. [1, 2, 3]) job = Inr ()"
    by (simp add: validate_declaration_def validate_input_budget_def job_def target_def
        Budgets_unbudgeted_def validate_working_directory_grant_def
        WorkingDirectoryGrant_scratch_def request_transport_bytes_def)
  obtain p where p: "runtime_prepare (\<lambda>_. [1, 2, 3]) (\<lambda>_. ''d'') id ''''
      \<lparr>rt_executable = exe, rt_runtime_record = r\<rparr> (job_target job) = Inr p"
    and "pp_runtime_record p = r"
    by (simp add: runtime_prepare_def driver_wrapper_source_def job_def target_def Let_def)
  with host_runtime_prepared_process [OF new p decl] new
  show ?thesis
    by (simp add: job_def target_def exe_def r_def payload_def facts_def)
qed

end
