(* ===== verification/Identity.thy ===== *)
theory Identity
  imports Runtime
begin

text \<open>
  Executor provenance and identities: \<^verbatim>\<open>recording/provenance.py\<close> and \<^verbatim>\<open>recording/identity.py\<close>.
  The identity builders dump a model to JSON, the validators read the JSON back by the
  declared fields; \<open>package_version\<close> and \<open>package_metadata\<close> are the answers of
  \<^verbatim>\<open>importlib.metadata\<close> (\<open>None\<close> when the package is not found), \<open>uuid4\<close> the random identifier,
  \<open>json_hash\<close> and \<open>sorted_values\<close> the functions of the serialisation package.
\<close>

section \<open>Source provenance\<close>

definition PACKAGE_UNKNOWN :: string where
  "PACKAGE_UNKNOWN = ''unknown''"

record ExecutorSourceSnapshot =
  ss_package_version :: string
  ss_source_commit :: "string option"
  ss_source_state :: string
  ss_session_id :: "string option"

definition resolve_package_version :: "string option \<Rightarrow> string" where
  "resolve_package_version package_version =
     (case package_version of Some v \<Rightarrow> v | None \<Rightarrow> PACKAGE_UNKNOWN)"

definition lowercase_hexadecimal :: string where
  "lowercase_hexadecimal = ''0123456789abcdef''"

definition is_git_object_id :: "string \<Rightarrow> bool" where
  "is_git_object_id val =
     (length val \<in> {40, 64} \<and> list_all (\<lambda>c. c \<in> set lowercase_hexadecimal) val)"

definition is_space :: "char \<Rightarrow> bool" where
  "is_space c = (let n = (of_char c :: nat) in (9 \<le> n \<and> n \<le> 13) \<or> (28 \<le> n \<and> n \<le> 32) \<or> n = 133 \<or> n = 160)"

definition strip :: "string \<Rightarrow> string" where
  "strip s = rev (dropWhile is_space (rev (dropWhile is_space s)))"

definition embedded_source_commit :: "string option option \<Rightarrow> string option" where
  "embedded_source_commit package_metadata =
     (case package_metadata of
        None \<Rightarrow> None
      | Some None \<Rightarrow> None
      | Some (Some embedded) \<Rightarrow>
          (let commit = strip embedded in if is_git_object_id commit then Some commit else None))"

definition snapshot_source ::
  "string option \<Rightarrow> string option option \<Rightarrow> uuid \<Rightarrow> ExecutorSourceSnapshot" where
  "snapshot_source package_version package_metadata uuid4 =
     (let commit = embedded_source_commit package_metadata;
          state = (if commit \<noteq> None then ''clean'' else ''unknown'')
      in \<lparr>ss_package_version = resolve_package_version package_version, ss_source_commit = commit,
          ss_source_state = state,
          ss_session_id = (if state = ''clean'' then None else Some (uuid_str uuid4))\<rparr>)"

section \<open>Executor identity\<close>

definition EXECUTOR_IDENTITY_SCHEMA :: string where
  "EXECUTOR_IDENTITY_SCHEMA = ''dr_exec.executor''"

definition EXECUTOR_CONFIG_IDENTITY_SCHEMA :: string where
  "EXECUTOR_CONFIG_IDENTITY_SCHEMA = ''dr_exec.executor_config''"

definition EXECUTOR_IDENTITY_KIND :: string where
  "EXECUTOR_IDENTITY_KIND = ''process_executor''"

definition validate_git_object_id :: "string option \<Rightarrow> (py_exn, string option) result" where
  "validate_git_object_id val =
     (case val of
        Some v \<Rightarrow> (if is_git_object_id v then Inr val
          else Inl (ValueError ''source_commit must be a complete lowercase Git object ID''))
      | None \<Rightarrow> Inr val)"

record ExecutorIdentityPayload =
  xp_kind :: string
  xp_package_version :: string
  xp_source_commit :: "string option"
  xp_source_state :: string
  xp_session_id :: "string option"

definition provenance_must_be_complete ::
  "ExecutorIdentityPayload \<Rightarrow> (py_exn, ExecutorIdentityPayload) result" where
  "provenance_must_be_complete p =
     (if xp_source_state p = ''clean''
      then bind_result (ensure (xp_source_commit p \<noteq> None)
             (ValueError ''clean source requires source_commit'')) (\<lambda>_.
           bind_result (ensure (xp_session_id p = None)
             (ValueError ''clean source must not have session_id'')) (\<lambda>_.
             Inr p))
      else if xp_session_id p = None then Inl (ValueError ''unknown source requires session_id'')
      else Inr p)"

definition session_spelling :: "string option \<Rightarrow> (py_exn, string option) result" where
  "session_spelling s =
     (case s of None \<Rightarrow> Inr None
      | Some text \<Rightarrow> bind_result (require_pinned_uuid_spelling text) (\<lambda>t. Inr (Some t)))"

text \<open>Constructing the model: each field's constraint, then the model validator.\<close>

definition ExecutorIdentityPayload_new ::
  "ExecutorIdentityPayload \<Rightarrow> (py_exn, ExecutorIdentityPayload) result" where
  "ExecutorIdentityPayload_new p =
     bind_result (ensure (xp_kind p = ''process_executor'') (ValueError ''kind'')) (\<lambda>_.
     bind_result (ensure (xp_package_version p \<noteq> '''') (ValueError ''package_version'')) (\<lambda>_.
     bind_result (validate_git_object_id (xp_source_commit p)) (\<lambda>_.
     bind_result (ensure (xp_source_state p \<in> {''clean'', ''unknown''}) (ValueError ''source_state'')) (\<lambda>_.
     bind_result (session_spelling (xp_session_id p)) (\<lambda>_.
       provenance_must_be_complete p)))))"

fun opt_json :: "string option \<Rightarrow> json" where
  "opt_json None = JNull"
| "opt_json (Some s) = JStr s"

definition executor_payload_json :: "ExecutorIdentityPayload \<Rightarrow> (string \<times> json) list" where
  "executor_payload_json p =
     [(''kind'', JStr (xp_kind p)), (''package_version'', JStr (xp_package_version p)),
      (''source_commit'', opt_json (xp_source_commit p)),
      (''source_state'', JStr (xp_source_state p)), (''session_id'', opt_json (xp_session_id p))]"

definition opt_str_field :: "(string \<times> json) list \<Rightarrow> string \<Rightarrow> (py_exn, string option) result" where
  "opt_str_field ps k =
     (case map_of ps k of
        Some (JStr s) \<Rightarrow> Inr (Some s)
      | Some JNull \<Rightarrow> Inr None
      | _ \<Rightarrow> Inl (ValueError k))"

definition executor_payload_model_validate ::
  "(string \<times> json) list \<Rightarrow> (py_exn, ExecutorIdentityPayload) result" where
  "executor_payload_model_validate ps =
     bind_result (ensure (set (map fst ps) \<subseteq> {''kind'', ''package_version'', ''source_commit'',
         ''source_state'', ''session_id''}) (ValueError ''extra_forbidden'')) (\<lambda>_.
     bind_result (str_field ps ''kind'') (\<lambda>kind.
     bind_result (str_field ps ''package_version'') (\<lambda>ver.
     bind_result (opt_str_field ps ''source_commit'') (\<lambda>commit.
     bind_result (str_field ps ''source_state'') (\<lambda>state.
     bind_result (opt_str_field ps ''session_id'') (\<lambda>sid.
       ExecutorIdentityPayload_new
         \<lparr>xp_kind = kind, xp_package_version = ver, xp_source_commit = commit,
          xp_source_state = state, xp_session_id = sid\<rparr>))))))"

definition validate_executor_identity ::
  "identity_document \<Rightarrow> (py_exn, identity_document) result" where
  "validate_executor_identity document =
     bind_result (require_identity_role document EXECUTOR_IDENTITY_SCHEMA) (\<lambda>payload.
     bind_result (executor_payload_model_validate payload) (\<lambda>_.
       Inr document))"

definition build_executor_identity ::
  "ExecutorSourceSnapshot \<Rightarrow> (py_exn, identity_document) result" where
  "build_executor_identity snapshot =
     bind_result (ExecutorIdentityPayload_new
         \<lparr>xp_kind = EXECUTOR_IDENTITY_KIND, xp_package_version = ss_package_version snapshot,
          xp_source_commit = ss_source_commit snapshot,
          xp_source_state = ss_source_state snapshot,
          xp_session_id = ss_session_id snapshot\<rparr>) (\<lambda>payload.
       Inr \<lparr>doc_schema = EXECUTOR_IDENTITY_SCHEMA, doc_schema_version = IDENTITY_SCHEMA_VERSION,
            doc_payload = JObj (executor_payload_json payload)\<rparr>)"

section \<open>Executor configuration identity\<close>

text \<open>A limit as its model dump, and its validation by the discriminator \<^verbatim>\<open>kind\<close>.\<close>

fun budget_json :: "string \<Rightarrow> ('f \<Rightarrow> int) \<Rightarrow> 'f budget \<Rightarrow> json" where
  "budget_json field_name amount UnbudgetedLimit =
     JObj [(''kind'', JStr (LimitKind_value LimitKind.UNBUDGETED))]"
| "budget_json field_name amount (Finite f) =
     JObj [(''kind'', JStr (LimitKind_value LimitKind.FINITE)), (field_name, JInt (amount f))]"

fun budget_validate :: "string \<Rightarrow> (int \<Rightarrow> 'f) \<Rightarrow> json option \<Rightarrow> (py_exn, 'f budget) result" where
  "budget_validate field_name mk_limit (Some (JObj ps)) =
     (if map_of ps ''kind'' = Some (JStr (LimitKind_value LimitKind.UNBUDGETED))
      then bind_result (ensure (set (map fst ps) \<subseteq> {''kind''}) (ValueError ''extra_forbidden'')) (\<lambda>_.
             Inr UnbudgetedLimit)
      else if map_of ps ''kind'' = Some (JStr (LimitKind_value LimitKind.FINITE))
      then bind_result (ensure (set (map fst ps) \<subseteq> {''kind'', field_name})
             (ValueError ''extra_forbidden'')) (\<lambda>_.
           case map_of ps field_name of
             Some (JInt n) \<Rightarrow> (if n > 0 then Inr (Finite (mk_limit n)) else Inl (ValueError field_name))
           | _ \<Rightarrow> Inl (ValueError field_name))
      else Inl (ValueError ''union_tag_invalid''))"
| "budget_validate field_name mk_limit _ = Inl (ValueError ''budget'')"

abbreviation byte_json :: "FiniteByteLimit budget \<Rightarrow> json" where
  "byte_json \<equiv> budget_json ''max_bytes'' fb_max_bytes"
abbreviation count_json :: "FiniteCountLimit budget \<Rightarrow> json" where
  "count_json \<equiv> budget_json ''max_count'' fc_max_count"
abbreviation duration_json :: "FiniteDurationLimit budget \<Rightarrow> json" where
  "duration_json \<equiv> budget_json ''max_ns'' fd_max_ns"
abbreviation byte_validate :: "json option \<Rightarrow> (py_exn, FiniteByteLimit budget) result" where
  "byte_validate \<equiv> budget_validate ''max_bytes'' FiniteByteLimit.make"
abbreviation count_validate :: "json option \<Rightarrow> (py_exn, FiniteCountLimit budget) result" where
  "count_validate \<equiv> budget_validate ''max_count'' FiniteCountLimit.make"
abbreviation duration_validate :: "json option \<Rightarrow> (py_exn, FiniteDurationLimit budget) result" where
  "duration_validate \<equiv> budget_validate ''max_ns'' FiniteDurationLimit.make"

definition self_budgets_json :: "ExecutorSelfBudgets \<Rightarrow> (string \<times> json) list" where
  "self_budgets_json b =
     [(''protocol_frame_bytes'', byte_json (protocol_frame_bytes b)),
      (''protocol_total_bytes'', byte_json (protocol_total_bytes b)),
      (''protocol_output_count'', count_json (protocol_output_count b)),
      (''json_depth'', count_json (json_depth b)),
      (''startup_time'', duration_json (startup_time b)),
      (''termination_time'', duration_json (termination_time b)),
      (''join_time'', duration_json (join_time b))]"

definition config_payload_model_validate ::
  "(string \<times> json) list \<Rightarrow> (py_exn, ExecutorSelfBudgets) result" where
  "config_payload_model_validate ps =
     bind_result (ensure (set (map fst ps) \<subseteq> {''protocol_frame_bytes'', ''protocol_total_bytes'',
         ''protocol_output_count'', ''json_depth'', ''startup_time'', ''termination_time'',
         ''join_time''}) (ValueError ''extra_forbidden'')) (\<lambda>_.
     bind_result (byte_validate (map_of ps ''protocol_frame_bytes'')) (\<lambda>frame.
     bind_result (byte_validate (map_of ps ''protocol_total_bytes'')) (\<lambda>total.
     bind_result (count_validate (map_of ps ''protocol_output_count'')) (\<lambda>outs.
     bind_result (count_validate (map_of ps ''json_depth'')) (\<lambda>depth.
     bind_result (duration_validate (map_of ps ''startup_time'')) (\<lambda>start.
     bind_result (duration_validate (map_of ps ''termination_time'')) (\<lambda>term_time.
     bind_result (duration_validate (map_of ps ''join_time'')) (\<lambda>join.
       Inr \<lparr>protocol_frame_bytes = frame, protocol_total_bytes = total,
            protocol_output_count = outs, json_depth = depth, startup_time = start,
            termination_time = term_time, join_time = join\<rparr>))))))))"

definition validate_executor_config_identity ::
  "identity_document \<Rightarrow> (py_exn, identity_document) result" where
  "validate_executor_config_identity document =
     bind_result (require_identity_role document EXECUTOR_CONFIG_IDENTITY_SCHEMA) (\<lambda>payload.
     bind_result (config_payload_model_validate payload) (\<lambda>_.
       Inr document))"

definition build_executor_config_identity :: "ExecutorSelfBudgets \<Rightarrow> identity_document" where
  "build_executor_config_identity self_budgets =
     \<lparr>doc_schema = EXECUTOR_CONFIG_IDENTITY_SCHEMA, doc_schema_version = IDENTITY_SCHEMA_VERSION,
      doc_payload = JObj (self_budgets_json self_budgets)\<rparr>"

section \<open>Persisted grants\<close>

definition canonical_env_values_digest :: "(json \<Rightarrow> string) \<Rightarrow> EnvGrant \<Rightarrow> string" where
  "canonical_env_values_digest json_hash grant =
     json_hash (JObj (map (\<lambda>v. (ev_name v, JStr (ev_value v))) (eg_variables grant)))"

definition build_env_grant_record ::
  "(string list \<Rightarrow> string list) \<Rightarrow> (json \<Rightarrow> string) \<Rightarrow> EnvGrant \<Rightarrow> (py_exn, EnvGrantRecord) result" where
  "build_env_grant_record sorted_values json_hash grant =
     names_must_be_canonical_and_disjoint sorted_values
       \<lparr>egr_kind = eg_kind grant,
        egr_var_names = sorted_values (map ev_name (eg_variables grant)),
        egr_excluded_var_names = sorted_values (eg_excluded_var_names grant),
        egr_canonical_values_sha256 = canonical_env_values_digest json_hash grant\<rparr>"

record WorkingDirectoryGrantRecord =
  wr_kind :: WorkingDirectoryGrantKind
  wr_path :: "string option"

definition WorkingDirectoryGrantRecord_scratch :: WorkingDirectoryGrantRecord where
  "WorkingDirectoryGrantRecord_scratch =
     \<lparr>wr_kind = WorkingDirectoryGrantKind.SCRATCH, wr_path = None\<rparr>"

definition path_must_match_kind ::
  "WorkingDirectoryGrantRecord \<Rightarrow> (py_exn, WorkingDirectoryGrantRecord) result" where
  "path_must_match_kind r =
     (if wr_kind r = WorkingDirectoryGrantKind.SCRATCH \<and> wr_path r \<noteq> None
      then Inl (ValueError ''scratch working-directory grants must not contain a path'')
      else if wr_kind r = WorkingDirectoryGrantKind.CALLER
      then (case wr_path r of
          None \<Rightarrow> Inl (ValueError ''caller working-directory grants require an absolute path'')
        | Some path \<Rightarrow>
            (case persisted_caller_workspace_path_shape_error path of
               Some shape_error \<Rightarrow> Inl (ValueError shape_error)
             | None \<Rightarrow> Inr r))
      else Inr r)"

definition build_working_directory_grant_record ::
  "(posix_path \<Rightarrow> posix_path) \<Rightarrow> WorkingDirectoryGrant \<Rightarrow>
     (py_exn, WorkingDirectoryGrantRecord) result" where
  "build_working_directory_grant_record resolve grant =
     (if wd_kind grant = WorkingDirectoryGrantKind.SCRATCH
      then path_must_match_kind \<lparr>wr_kind = wd_kind grant, wr_path = None\<rparr>
      else case wd_path grant of
        None \<Rightarrow> Inl (AssertionError '''')
      | Some p \<Rightarrow> path_must_match_kind
          \<lparr>wr_kind = wd_kind grant, wr_path = Some (as_posix (resolve p))\<rparr>)"

section \<open>Facts\<close>

lemma executor_payload_validate_dump:
  "executor_payload_model_validate (executor_payload_json p) = ExecutorIdentityPayload_new p"
proof -
  have [simp]: "opt_str_field ps k = Inr v" if "map_of ps k = Some (opt_json v)" for ps k v
    using that by (cases v) (simp_all add: opt_str_field_def)
  show ?thesis
    by (cases p) (simp add: executor_payload_model_validate_def executor_payload_json_def str_field_def)
qed

lemma ExecutorIdentityPayload_new_Inr: "ExecutorIdentityPayload_new p = Inr q \<Longrightarrow> q = p"
  by (auto simp: ExecutorIdentityPayload_new_def provenance_must_be_complete_def result_simps
      split: if_splits)

lemma session_spelling_uuid: "session_spelling (Some (uuid_str u)) = Inr (Some (uuid_str u))"
  by (simp add: session_spelling_def require_pinned_uuid_spelling_def uuid_str_fullmatch)

lemma budget_validate_dump:
  assumes "positive_limit amount b" and "\<And>f. mk_limit (amount f) = f"
    and "field_name \<noteq> ''kind''"
  shows "budget_validate field_name mk_limit (Some (budget_json field_name amount b)) = Inr b"
  using assms by (cases b) (simp_all add: positive_limit_def)

lemma self_budgets_validate_dump:
  assumes "ExecutorSelfBudgets_ok b"
  shows "config_payload_model_validate (self_budgets_json b) = Inr b"
proof -
  have bytes: "byte_validate (Some (byte_json x)) = Inr x"
    if "positive_limit fb_max_bytes x" for x
    by (rule budget_validate_dump [OF that]) (simp_all add: FiniteByteLimit.make_def)
  have count: "count_validate (Some (count_json x)) = Inr x"
    if "positive_limit fc_max_count x" for x
    by (rule budget_validate_dump [OF that]) (simp_all add: FiniteCountLimit.make_def)
  have duration: "duration_validate (Some (duration_json x)) = Inr x"
    if "positive_limit fd_max_ns x" for x
    by (rule budget_validate_dump [OF that]) (simp_all add: FiniteDurationLimit.make_def)
  show ?thesis
    using assms unfolding ExecutorSelfBudgets_ok_def config_payload_model_validate_def
      self_budgets_json_def
    by (simp add: bytes count duration del: budget_validate.simps)
qed


text \<open>What the code relies on of \<^verbatim>\<open>canonical_sorted_values\<close>.\<close>

definition canonical_sort :: "(string list \<Rightarrow> string list) \<Rightarrow> bool" where
  "canonical_sort sorted_values =
     ((\<forall>xs. mset (sorted_values xs) = mset xs) \<and>
      (\<forall>xs ys. mset xs = mset ys \<longrightarrow> sorted_values xs = sorted_values ys))"

lemma canonical_sort_distinct:
  assumes "canonical_sort sorted_values" and "distinct xs"
  shows "distinct (sorted_values xs)" and "set (sorted_values xs) = set xs"
    and "sorted_values (remdups (sorted_values xs)) = sorted_values xs"
proof -
  have perm: "mset (sorted_values xs) = mset xs"
    using assms(1) unfolding canonical_sort_def by blast
  have idem: "sorted_values (sorted_values xs) = sorted_values xs"
    using assms(1) perm unfolding canonical_sort_def by blast
  show d: "distinct (sorted_values xs)"
    using mset_eq_imp_distinct_iff [OF perm] assms(2) by blast
  show "set (sorted_values xs) = set xs" using perm by (rule mset_eq_setD)
  show "sorted_values (remdups (sorted_values xs)) = sorted_values xs"
    unfolding distinct_remdups_id [OF d] by (rule idem)
qed

lemma canonical_sort_Nil: "canonical_sort sorted_values \<Longrightarrow> sorted_values [] = []"
  by (metis canonical_sort_def mset_zero_iff)

lemma canonical_sort_sort: "canonical_sort sort"
  by (auto simp: canonical_sort_def intro!: properties_for_sort)

section \<open>Properties\<close>

text \<open>
  Whatever the package metadata says, the executor identity built from the source
  snapshot is accepted by the validator of persisted identities, and it claims a clean
  source exactly when the metadata carries a complete Git object id. The only way to build
  none is an empty package version.
\<close>

theorem executor_identity_accepted:
  assumes "package_version \<noteq> Some ''''"
  shows "\<exists>d payload. build_executor_identity
        (snapshot_source package_version package_metadata uuid4) = Inr d \<and>
      validate_executor_identity d = Inr d \<and>
      doc_payload d = JObj (executor_payload_json payload) \<and>
      (xp_source_state payload = ''clean'' \<longleftrightarrow>
        (\<exists>embedded. package_metadata = Some (Some embedded) \<and> is_git_object_id (strip embedded))) \<and>
      (xp_source_state payload = ''clean'' \<longleftrightarrow> xp_source_commit payload \<noteq> None) \<and>
      (xp_source_state payload = ''clean'' \<longleftrightarrow> xp_session_id payload = None)"
proof -
  define s where "s = snapshot_source package_version package_metadata uuid4"
  define p where "p = \<lparr>xp_kind = EXECUTOR_IDENTITY_KIND, xp_package_version = ss_package_version s,
    xp_source_commit = ss_source_commit s, xp_source_state = ss_source_state s,
    xp_session_id = ss_session_id s\<rparr>"
  have version: "resolve_package_version package_version \<noteq> ''''"
    using assms by (cases package_version) (auto simp: resolve_package_version_def PACKAGE_UNKNOWN_def)
  have commit: "embedded_source_commit package_metadata = Some c \<Longrightarrow> is_git_object_id c" for c
    by (auto simp: embedded_source_commit_def Let_def split: option.splits if_splits)
  have new: "ExecutorIdentityPayload_new p = Inr p"
    using version commit
    by (cases "embedded_source_commit package_metadata")
      (auto simp: ExecutorIdentityPayload_new_def p_def s_def snapshot_source_def
        EXECUTOR_IDENTITY_KIND_def validate_git_object_id_def session_spelling_uuid
        provenance_must_be_complete_def session_spelling_def [of None])
  have "xp_source_state p = ''clean'' \<longleftrightarrow> embedded_source_commit package_metadata \<noteq> None"
    "xp_source_commit p = embedded_source_commit package_metadata"
    "xp_session_id p = None \<longleftrightarrow> embedded_source_commit package_metadata \<noteq> None"
    by (auto simp: p_def s_def snapshot_source_def Let_def)
  moreover have "embedded_source_commit package_metadata \<noteq> None \<longleftrightarrow>
      (\<exists>embedded. package_metadata = Some (Some embedded) \<and> is_git_object_id (strip embedded))"
    by (auto simp: embedded_source_commit_def Let_def split: option.splits)
  moreover define d where "d = \<lparr>doc_schema = EXECUTOR_IDENTITY_SCHEMA,
    doc_schema_version = IDENTITY_SCHEMA_VERSION, doc_payload = JObj (executor_payload_json p)\<rparr>"
  moreover have "build_executor_identity s = Inr d"
    using new by (simp add: build_executor_identity_def p_def d_def)
  moreover have "validate_executor_identity d = Inr d"
    using new by (simp add: validate_executor_identity_def d_def require_identity_role_def
        executor_payload_validate_dump)
  ultimately show ?thesis unfolding s_def
    by (intro exI [of _ d] exI [of _ p]) simp
qed

theorem executor_identity_accepted_witness:
  "\<exists>d. build_executor_identity (snapshot_source (Some ''1.0'') (Some (Some ''v1'')) 7) = Inr d \<and>
     validate_executor_identity d = Inr d"
  using executor_identity_accepted [of "Some ''1.0''" "Some (Some ''v1'')" 7] by auto

text \<open>
  The configuration identity of self budgets that passed their constructors is accepted
  by the validator of persisted configuration identities, and it determines the budgets:
  two executors share a configuration identity only with equal budgets.
\<close>

theorem executor_config_identity_faithful:
  assumes "ExecutorSelfBudgets_ok b" and "ExecutorSelfBudgets_ok b'"
  shows "validate_executor_config_identity (build_executor_config_identity b) =
      Inr (build_executor_config_identity b) \<and>
    (build_executor_config_identity b = build_executor_config_identity b' \<longleftrightarrow> b = b')"
proof
  show "validate_executor_config_identity (build_executor_config_identity b) =
      Inr (build_executor_config_identity b)"
    by (simp add: validate_executor_config_identity_def build_executor_config_identity_def
        require_identity_role_def self_budgets_validate_dump [OF assms(1)])
  have "self_budgets_json b = self_budgets_json b' \<Longrightarrow> b = b'"
    using assms [THEN self_budgets_validate_dump] by (metis sum.inject(2))
  then show "build_executor_config_identity b = build_executor_config_identity b' \<longleftrightarrow> b = b'"
    by (auto simp: build_executor_config_identity_def)
qed

theorem executor_config_identity_faithful_witness:
  "build_executor_config_identity ExecutorSelfBudgets_default \<noteq>
     build_executor_config_identity ExecutorSelfBudgets_unbudgeted"
proof -
  have "ExecutorSelfBudgets_ok ExecutorSelfBudgets_default"
    "ExecutorSelfBudgets_ok ExecutorSelfBudgets_unbudgeted"
    by (simp_all add: ExecutorSelfBudgets_ok_def ExecutorSelfBudgets_default_def
        ExecutorSelfBudgets_unbudgeted_def positive_limit_def)
  from executor_config_identity_faithful [OF this] show ?thesis
    by (simp add: ExecutorSelfBudgets_default_def ExecutorSelfBudgets_unbudgeted_def)
qed

text \<open>
  C14: the persisted form of a grant that passed its constructor always passes the record's
  own validator and lists exactly the granted and excluded names, whatever canonical sort
  the serialisation package uses.
\<close>

theorem env_grant_record_accepted:
  fixes sorted_values :: "string list \<Rightarrow> string list"
  assumes "EnvGrant_ok g" and "canonical_sort sorted_values"
  shows "\<exists>r. build_env_grant_record sorted_values json_hash g = Inr r \<and>
    egr_kind r = eg_kind g \<and> set (egr_var_names r) = set (eg_names g) \<and>
    set (egr_excluded_var_names r) = set (eg_excluded_var_names g) \<and>
    distinct (egr_var_names r @ egr_excluded_var_names r)"
proof -
  have g: "EnvGrant_post_init g = Inr g" and "\<forall>v\<in>set (eg_variables g). EnvVar_new (ev_name v) (ev_value v) = Inr v"
    using assms(1) by (simp_all add: EnvGrant_ok_def list_all_iff)
  then have names: "\<forall>n\<in>set (eg_names g). validate_env_var_name n = Inr ()"
    by (auto simp: EnvVar_new_def result_simps)
  from g have d: "distinct (eg_names g)" "distinct (eg_excluded_var_names g)"
    "set (eg_names g) \<inter> set (eg_excluded_var_names g) = {}"
    "\<forall>n\<in>set (eg_excluded_var_names g). validate_env_var_name n = Inr ()"
    "eg_kind g = EnvGrantKind.NONE \<longrightarrow> eg_names g = []"
    "eg_kind g \<noteq> EnvGrantKind.OVERLAY \<longrightarrow> eg_excluded_var_names g = []"
    by (auto simp: EnvGrant_post_init_def result_simps card_distinct)
  note sorted = canonical_sort_distinct [OF assms(2) d(1)] canonical_sort_distinct [OF assms(2) d(2)]
    canonical_sort_Nil [OF assms(2)]
  have "names_must_be_canonical_and_disjoint sorted_values r = Inr r"
    if "r = \<lparr>egr_kind = eg_kind g, egr_var_names = sorted_values (eg_names g),
        egr_excluded_var_names = sorted_values (eg_excluded_var_names g),
        egr_canonical_values_sha256 = canonical_env_values_digest json_hash g\<rparr>" for r
    using that d names sorted
    by (simp add: names_must_be_canonical_and_disjoint_def result_simps ball_Un)
      (metis d(6) sorted(7))
  then show ?thesis
    unfolding build_env_grant_record_def using sorted d(3) by fastforce
qed

theorem env_grant_record_accepted_witness:
  "\<exists>r. build_env_grant_record sort (\<lambda>_. ''digest'')
     \<lparr>eg_kind = EnvGrantKind.OVERLAY, eg_variables = [\<lparr>ev_name = ''PATH'', ev_value = ''/bin''\<rparr>,
        \<lparr>ev_name = ''HOME'', ev_value = ''/h''\<rparr>], eg_excluded_var_names = [''KEY'']\<rparr> = Inr r"
proof -
  let ?g = "\<lparr>eg_kind = EnvGrantKind.OVERLAY, eg_variables = [\<lparr>ev_name = ''PATH'', ev_value = ''/bin''\<rparr>,
      \<lparr>ev_name = ''HOME'', ev_value = ''/h''\<rparr>], eg_excluded_var_names = [''KEY'']\<rparr>"
  have "EnvGrant_ok ?g"
    by (simp add: EnvGrant_ok_def EnvGrant_post_init_def EnvVar_new_def validate_env_var_name_def
        validate_env_var_value_def)
  then show ?thesis
    using env_grant_record_accepted [of ?g sort "\<lambda>_. ''digest''"] canonical_sort_sort by auto
qed

end
