(* ===== verification/Records.thy ===== *)
theory Records
  imports Identity
begin

text \<open>
  The boundary models of \<^verbatim>\<open>recording/models.py\<close>, the execution identifiers of \<^verbatim>\<open>core/names.py\<close>
  and the derived locators of \<^verbatim>\<open>recording/references.py\<close>. A model is a record or a datatype; the
  constraints a constructor enforces are its \<open>_new\<close> function, which raises as the validators do
  and otherwise returns the model. \<open>uuid5\<close> is the name-based UUID of the standard library.
\<close>

section \<open>Identifiers and locators\<close>

record ExecutionId =
  eid_job_id :: uuid
  eid_attempt_id :: uuid

record RunRecordReference =
  ref_backend :: string
  ref_record_id :: uuid

definition ATTEMPT_ID_NAMESPACE :: uuid where
  "ATTEMPT_ID_NAMESPACE = 0x0189d3f41c2b7e3a9f102b3c4d5e6f80"

definition RECORD_ID_NAMESPACE :: uuid where
  "RECORD_ID_NAMESPACE = 0x0189d3f41c2b7e3a9f102b3c4d5e6f81"

definition job_id_name :: "uuid \<Rightarrow> string" where
  "job_id_name j = ''dr-exec/job-id/'' @ uuid_str j"

definition ascii_bytes :: "string \<Rightarrow> bytes" where
  "ascii_bytes s = map (\<lambda>c. word_of_nat (of_char c)) s"

definition attempt_id_for_job :: "(uuid \<Rightarrow> bytes \<Rightarrow> uuid) \<Rightarrow> uuid \<Rightarrow> uuid" where
  "attempt_id_for_job uuid5 j = uuid5 ATTEMPT_ID_NAMESPACE (ascii_bytes (job_id_name j))"

definition record_reference_for_job :: "(uuid \<Rightarrow> bytes \<Rightarrow> uuid) \<Rightarrow> uuid \<Rightarrow> RunRecordReference" where
  "record_reference_for_job uuid5 j =
     \<lparr>ref_backend = ''directory'',
      ref_record_id = uuid5 RECORD_ID_NAMESPACE (ascii_bytes (job_id_name j))\<rparr>"

section \<open>Retained payload streams\<close>

record RetainedPayloadStream =
  rp_head :: bytes
  rp_tail :: bytes
  rp_produced_bytes :: int
  rp_dropped_bytes :: int

definition RetainedPayloadStream_new ::
  "RetainedPayloadStream \<Rightarrow> (py_exn, RetainedPayloadStream) result" where
  "RetainedPayloadStream_new s =
     bind_result (ensure (0 \<le> rp_produced_bytes s) (ValueError ''produced_bytes'')) (\<lambda>_.
     bind_result (ensure (0 \<le> rp_dropped_bytes s) (ValueError ''dropped_bytes'')) (\<lambda>_.
     bind_result (ensure
         (int (length (rp_head s)) + int (length (rp_tail s)) + rp_dropped_bytes s =
          rp_produced_bytes s)
       (ValueError ''retained and dropped bytes must equal produced bytes'')) (\<lambda>_.
       Inr s)))"

record PayloadOutputs =
  po_stdout :: RetainedPayloadStream
  po_stderr :: RetainedPayloadStream

record RetainedPayloadStreamRecord =
  rr_head_bytes :: int
  rr_tail_bytes :: int
  rr_produced_bytes :: int
  rr_dropped_bytes :: int

definition RetainedPayloadStreamRecord_new ::
  "RetainedPayloadStreamRecord \<Rightarrow> (py_exn, RetainedPayloadStreamRecord) result" where
  "RetainedPayloadStreamRecord_new s =
     bind_result (ensure (0 \<le> rr_head_bytes s \<and> 0 \<le> rr_tail_bytes s \<and> 0 \<le> rr_produced_bytes s \<and>
         0 \<le> rr_dropped_bytes s) (ValueError ''non-negative'')) (\<lambda>_.
     bind_result (ensure
         (rr_head_bytes s + rr_tail_bytes s + rr_dropped_bytes s = rr_produced_bytes s)
       (ValueError ''retained and dropped bytes must equal produced bytes'')) (\<lambda>_.
       Inr s))"

record PayloadOutputRecords =
  por_stdout :: RetainedPayloadStreamRecord
  por_stderr :: RetainedPayloadStreamRecord

section \<open>Outcomes, attribution and measurements\<close>

datatype ExecutionOutcome =
    ExitedOutcome (exit_code: int)
  | SignaledOutcome (signal_number: int)
  | SpawnAbsentOutcome (executable: string)
  | SpawnFailedOutcome (spawn_errno: int) (error_message: string)
  | BudgetExceededOutcome (axis: BudgetAxis)
  | ProtocolFailedOutcome (failure_code: ProtocolFailureCode) (failure_detail: string)
      (accepted_output_count: int)
  | CancelledOutcome (started: bool)

fun outcome_kind :: "ExecutionOutcome \<Rightarrow> OutcomeKind" where
  "outcome_kind (ExitedOutcome _) = OutcomeKind.EXITED"
| "outcome_kind (SignaledOutcome _) = OutcomeKind.SIGNALED"
| "outcome_kind (SpawnAbsentOutcome _) = OutcomeKind.SPAWN_ABSENT"
| "outcome_kind (SpawnFailedOutcome _ _) = OutcomeKind.SPAWN_FAILED"
| "outcome_kind (BudgetExceededOutcome _) = OutcomeKind.BUDGET_EXCEEDED"
| "outcome_kind (ProtocolFailedOutcome _ _ _) = OutcomeKind.PROTOCOL_FAILED"
| "outcome_kind (CancelledOutcome _) = OutcomeKind.CANCELLED"

text \<open>The field constraints: a signal number is positive, an output count not negative.\<close>

fun ExecutionOutcome_ok :: "ExecutionOutcome \<Rightarrow> bool" where
  "ExecutionOutcome_ok (SignaledOutcome n) = (0 < n)"
| "ExecutionOutcome_ok (ProtocolFailedOutcome _ _ n) = (0 \<le> n)"
| "ExecutionOutcome_ok _ = True"

record ExecutionAttribution =
  at_owner :: FailureOwner
  at_detail :: "string option"

record ExecutionMeasurements =
  ms_started_at :: datetime
  ms_finished_at :: datetime
  ms_duration_ns :: int
  ms_teardown_duration_ns :: int
  ms_input_bytes :: int
  ms_protocol_bytes_received :: int

text \<open>Two UTC timestamps compare by their fields, most significant first.\<close>

definition datetime_fields :: "datetime \<Rightarrow> nat list" where
  "datetime_fields d = [year d, month d, day d, hour d, minute d, second d, microsecond d]"

definition ExecutionMeasurements_new ::
  "ExecutionMeasurements \<Rightarrow> (py_exn, ExecutionMeasurements) result" where
  "ExecutionMeasurements_new m =
     bind_result (require_utc (ms_started_at m)) (\<lambda>_.
     bind_result (require_utc (ms_finished_at m)) (\<lambda>_.
     bind_result (ensure (0 \<le> ms_duration_ns m \<and> 0 \<le> ms_teardown_duration_ns m \<and>
         0 \<le> ms_input_bytes m \<and> 0 \<le> ms_protocol_bytes_received m) (ValueError ''non-negative'')) (\<lambda>_.
     bind_result (ensure
         (\<not> datetime_fields (ms_finished_at m) < datetime_fields (ms_started_at m))
       (ValueError ''finished_at must not precede started_at'')) (\<lambda>_.
       Inr m))))"

section \<open>Results\<close>

record ExecutionResult =
  res_execution_id :: ExecutionId
  res_outcome :: ExecutionOutcome
  res_attribution :: ExecutionAttribution
  res_protocol_outputs :: "identity_document list"
  res_payload_outputs :: PayloadOutputs
  res_measurements :: ExecutionMeasurements

definition protocol_output_count_matches :: "ExecutionOutcome \<Rightarrow> identity_document list \<Rightarrow> bool" where
  "protocol_output_count_matches outcome outputs =
     (case outcome of
        ProtocolFailedOutcome _ _ n \<Rightarrow> n = int (length outputs)
      | _ \<Rightarrow> True)"

definition protocol_output_count_must_match_outcome ::
  "ExecutionResult \<Rightarrow> (py_exn, ExecutionResult) result" where
  "protocol_output_count_must_match_outcome r =
     (if \<not> protocol_output_count_matches (res_outcome r) (res_protocol_outputs r)
      then Inl (ValueError ''accepted protocol output count does not match outputs'')
      else Inr r)"

record ExecutionResultRecord =
  rec_execution_id :: ExecutionId
  rec_outcome :: ExecutionOutcome
  rec_attribution :: ExecutionAttribution
  rec_protocol_outputs :: "identity_document list"
  rec_payload_outputs :: PayloadOutputRecords
  rec_measurements :: ExecutionMeasurements

definition ExecutionResultRecord_new ::
  "ExecutionResultRecord \<Rightarrow> (py_exn, ExecutionResultRecord) result" where
  "ExecutionResultRecord_new r =
     (if \<not> protocol_output_count_matches (rec_outcome r) (rec_protocol_outputs r)
      then Inl (ValueError ''accepted protocol output count does not match outputs'')
      else Inr r)"

section \<open>Run records\<close>

record RunRecordHeader =
  hd_schema_version :: int
  hd_executor_identity :: identity_document
  hd_executor_config_identity :: identity_document
  hd_prepared_at :: datetime

definition RunRecordHeader_new :: "RunRecordHeader \<Rightarrow> (py_exn, RunRecordHeader) result" where
  "RunRecordHeader_new h =
     bind_result (ensure (hd_schema_version h = 2) (ValueError ''schema_version'')) (\<lambda>_.
     bind_result (validate_executor_identity (hd_executor_identity h)) (\<lambda>_.
     bind_result (validate_executor_config_identity (hd_executor_config_identity h)) (\<lambda>_.
     bind_result (require_utc (hd_prepared_at h)) (\<lambda>_.
       Inr h))))"

datatype ExecutionTargetRecord =
    TrustedCommandTargetRecord (canonical_declaration_sha256: string)
  | UntrustedCommandTargetRecord (canonical_declaration_sha256: string)
      (tr_containment_profile: ContainmentProfile)
  | TrustedPythonTargetRecord (canonical_declaration_sha256: string)
      (tr_request_id_sha256: string) (tr_runtime: RuntimeRecord)
  | UntrustedPythonTargetRecord (canonical_declaration_sha256: string)
      (tr_request_id_sha256: string) (tr_containment_profile: ContainmentProfile)
      (tr_runtime: RuntimeRecord)

fun target_record_kind :: "ExecutionTargetRecord \<Rightarrow> ExecutionTargetKind" where
  "target_record_kind (TrustedCommandTargetRecord _) = ExecutionTargetKind.TRUSTED_COMMAND"
| "target_record_kind (UntrustedCommandTargetRecord _ _) = ExecutionTargetKind.UNTRUSTED_COMMAND"
| "target_record_kind (TrustedPythonTargetRecord _ _ _) = ExecutionTargetKind.TRUSTED_PYTHON"
| "target_record_kind (UntrustedPythonTargetRecord _ _ _ _) = ExecutionTargetKind.UNTRUSTED_PYTHON"

record RunDeclaration =
  dec_execution_id :: ExecutionId
  dec_target :: ExecutionTargetRecord
  dec_env :: EnvGrantRecord
  dec_budgets :: Budgets
  dec_workspace :: WorkingDirectoryGrantRecord

record ProcessRecord =
  proc_pid :: int
  proc_started_at :: datetime

record OutputArtifactRecord =
  oa_relative_path :: posix_path
  oa_size_bytes :: int
  oa_sha256 :: string

text \<open>
  \<^verbatim>\<open>relative_path\<close> from a string: the spelling check of the raw text, the conversion to a
  path, and the check of the path.
\<close>

definition spelling_must_be_normalized_relative :: "string \<Rightarrow> (py_exn, string) result" where
  "spelling_must_be_normalized_relative path =
     (if take 1 path = ''/'' \<or> (\<exists>part\<in>set (split_on (CHR ''/'') path). part \<in> {'''', ''.'', ''..''})
      then Inl (ValueError ''relative_path must be normalized and relative'')
      else Inr path)"

definition path_must_be_normalized_relative :: "posix_path \<Rightarrow> (py_exn, posix_path) result" where
  "path_must_be_normalized_relative path =
     (let spelling = as_posix path;
          pure_path = PurePosixPath spelling
      in if is_absolute path \<or> spelling \<in> {'''', ''.''}
         then Inl (ValueError ''relative_path must be a nonempty relative path'')
         else if \<exists>part\<in>set (path_parts pure_path). part \<in> {'''', ''.'', ''..''}
         then Inl (ValueError ''relative_path must be normalized'')
         else Inr path)"

definition relative_path_of_text :: "string \<Rightarrow> (py_exn, posix_path) result" where
  "relative_path_of_text path =
     bind_result (spelling_must_be_normalized_relative path) (\<lambda>spelling.
       path_must_be_normalized_relative (PurePosixPath spelling))"

record OutputArtifactRecords =
  oas_stdout :: OutputArtifactRecord
  oas_stderr :: OutputArtifactRecord

datatype RunRecord =
    PreparedRecord (run_header: RunRecordHeader) (run_declaration: RunDeclaration)
  | RunningRecord (run_header: RunRecordHeader) (run_declaration: RunDeclaration)
      (run_process: ProcessRecord)
  | FinalizedRecord (run_header: RunRecordHeader) (run_declaration: RunDeclaration)
      (run_result: ExecutionResultRecord) (run_outputs: OutputArtifactRecords)

fun run_state :: "RunRecord \<Rightarrow> RecordState" where
  "run_state (PreparedRecord _ _) = RecordState.PREPARED"
| "run_state (RunningRecord _ _ _) = RecordState.RUNNING"
| "run_state (FinalizedRecord _ _ _ _) = RecordState.FINALIZED"

fun RunRecord_new :: "RunRecord \<Rightarrow> (py_exn, RunRecord) result" where
  "RunRecord_new (RunningRecord h d p) =
     bind_result (ensure (0 < proc_pid p) (ValueError ''pid'')) (\<lambda>_.
     bind_result (require_utc (proc_started_at p)) (\<lambda>_.
       Inr (RunningRecord h d p)))"
| "RunRecord_new (FinalizedRecord h d r outs) =
     (if dec_execution_id d \<noteq> rec_execution_id r
      then Inl (ValueError ''declaration and result execution IDs differ'')
      else Inr (FinalizedRecord h d r outs))"
| "RunRecord_new (PreparedRecord h d) = Inr (PreparedRecord h d)"

section \<open>Receipts\<close>

record RecordingFailure =
  rf_operation :: string
  rf_errno :: "int option"
  rf_detail :: "string option"
  rf_failure_code :: "ExecutorFailureCode option"

definition failure_discriminator_is_exclusive ::
  "RecordingFailure \<Rightarrow> (py_exn, RecordingFailure) result" where
  "failure_discriminator_is_exclusive f =
     (let has_detail = rf_detail f \<noteq> None;
          has_code = rf_failure_code f \<noteq> None
      in if has_detail = has_code
         then Inl (ValueError ''RecordingFailure must carry either detail or failure_code, not both or neither'')
         else if has_detail \<and> \<not> isidentifier (the (rf_detail f))
         then Inl (ValueError ''RecordingFailure detail must be a sanitized exception class name'')
         else Inr f)"

datatype RecordReceipt =
    CompleteRecordReceipt (receipt_execution_id: ExecutionId) (receipt_reference: RunRecordReference)
  | DegradedRecordReceipt (receipt_execution_id: ExecutionId) (receipt_reference: RunRecordReference)
      (degraded_latest_state: RecordState) (receipt_failures: "RecordingFailure list")
  | FakeRecordReceipt (receipt_execution_id: ExecutionId)
  | InProcessRecordReceipt (receipt_execution_id: ExecutionId)
  | WorkerPoolRecordReceipt (receipt_execution_id: ExecutionId)

fun receipt_kind :: "RecordReceipt \<Rightarrow> RecordReceiptKind" where
  "receipt_kind (CompleteRecordReceipt _ _) = RecordReceiptKind.COMPLETE"
| "receipt_kind (DegradedRecordReceipt _ _ _ _) = RecordReceiptKind.DEGRADED"
| "receipt_kind (FakeRecordReceipt _) = RecordReceiptKind.NOT_APPLICABLE"
| "receipt_kind (InProcessRecordReceipt _) = RecordReceiptKind.IN_PROCESS"
| "receipt_kind (WorkerPoolRecordReceipt _) = RecordReceiptKind.WORKER_POOL"

fun receipt_latest_state :: "RecordReceipt \<Rightarrow> RecordState option" where
  "receipt_latest_state (CompleteRecordReceipt _ _) = Some RecordState.FINALIZED"
| "receipt_latest_state (DegradedRecordReceipt _ _ s _) = Some s"
| "receipt_latest_state _ = None"

record CompletedExecution =
  ce_result :: ExecutionResult
  ce_record_receipt :: RecordReceipt

definition CompletedExecution_new :: "CompletedExecution \<Rightarrow> (py_exn, CompletedExecution) result" where
  "CompletedExecution_new c =
     (if res_execution_id (ce_result c) \<noteq> receipt_execution_id (ce_record_receipt c)
      then Inl (ValueError ''result and record receipt execution IDs differ'')
      else Inr c)"

section \<open>The record life cycle as an order\<close>

fun state_rank :: "RecordState \<Rightarrow> nat" where
  "state_rank RecordState.PREPARED = 0"
| "state_rank RecordState.RUNNING = 1"
| "state_rank RecordState.FINALIZED = 2"

instantiation RecordState :: linorder
begin

definition less_eq_RecordState :: "RecordState \<Rightarrow> RecordState \<Rightarrow> bool" where
  "less_eq_RecordState a b = (state_rank a \<le> state_rank b)"

definition less_RecordState :: "RecordState \<Rightarrow> RecordState \<Rightarrow> bool" where
  "less_RecordState a b = (state_rank a < state_rank b)"

instance
proof
  fix a b c :: RecordState
  show "a < b \<longleftrightarrow> a \<le> b \<and> \<not> b \<le> a" "a \<le> a" "a \<le> b \<or> b \<le> a"
    by (auto simp: less_eq_RecordState_def less_RecordState_def)
  show "a \<le> b \<Longrightarrow> b \<le> c \<Longrightarrow> a \<le> c" by (auto simp: less_eq_RecordState_def)
  show "a \<le> b \<Longrightarrow> b \<le> a \<Longrightarrow> a = b" by (cases a; cases b) (auto simp: less_eq_RecordState_def)
qed

end

lemma record_state_order [simp]:
  "RecordState.PREPARED < RecordState.RUNNING" "RecordState.RUNNING < RecordState.FINALIZED"
  "RecordState.PREPARED < RecordState.FINALIZED" "s \<le> RecordState.FINALIZED"
  "RecordState.PREPARED \<le> s"
  by (cases s; simp add: less_eq_RecordState_def less_RecordState_def)+

section \<open>Facts\<close>

lemma byte_of_char: "char_of (unat (word_of_nat (of_char c) :: byte)) = c"
  by (simp add: unat_of_nat)

lemma ascii_bytes_inject: "ascii_bytes s = ascii_bytes t \<longleftrightarrow> s = t"
proof -
  have "map (\<lambda>b. char_of (unat b)) (ascii_bytes s) = s" for s
    by (simp add: ascii_bytes_def byte_of_char o_def)
  then show ?thesis by metis
qed

lemma job_id_name_inject: "ascii_bytes (job_id_name j) = ascii_bytes (job_id_name k) \<longleftrightarrow> j = k"
  by (simp add: ascii_bytes_inject job_id_name_def)

lemma failure_discriminator_iff:
  "failure_discriminator_is_exclusive f = Inr g \<longleftrightarrow>
     g = f \<and> ((\<exists>c. rf_failure_code f = Some c) \<and> rf_detail f = None \<or>
       rf_failure_code f = None \<and> (\<exists>d. rf_detail f = Some d \<and> isidentifier d))"
  by (auto simp: failure_discriminator_is_exclusive_def Let_def)

lemma ensure_results [result_simps]:
  "CompletedExecution_new c = Inr d \<longleftrightarrow>
     d = c \<and> res_execution_id (ce_result c) = receipt_execution_id (ce_record_receipt c)"
  "protocol_output_count_must_match_outcome r = Inr s \<longleftrightarrow>
     s = r \<and> protocol_output_count_matches (res_outcome r) (res_protocol_outputs r)"
  by (auto simp: CompletedExecution_new_def protocol_output_count_must_match_outcome_def)

lemma splitroot_relative: "take 1 p \<noteq> ''/'' \<Longrightarrow> splitroot p = ('''', p)"
  by (cases p) (auto simp: splitroot_def)

lemma PurePosixPath_relative:
  assumes "list_all canonical_component cs"
  shows "PurePosixPath (join_with CHR ''/'' cs) = \<lparr>root = '''', tail = cs\<rparr>"
  using components_of_join [OF assms] splitroot_relative [OF join_hd_not_slash [OF assms]]
  by (simp add: PurePosixPath_def)

section \<open>Properties\<close>

text \<open>
  The text of an artifact's relative path is accepted exactly when it is a non-empty
  sequence of clean components joined by single slashes, and the stored path then has these
  components: nothing that could leave the record's directory is ever stored.
\<close>

theorem artifact_path_accepted_iff:
  "relative_path_of_text s = Inr p \<longleftrightarrow>
     (\<exists>cs. cs \<noteq> [] \<and> list_all canonical_component cs \<and> s = join_with CHR ''/'' cs \<and>
        p = \<lparr>root = '''', tail = cs\<rparr>)"
proof
  assume acc: "relative_path_of_text s = Inr p"
  define cs where "cs = split_on CHR ''/'' s"
  from acc have ok: "\<forall>part\<in>set cs. part \<notin> {'''', ''.'', ''..''}"
    and p: "p = PurePosixPath s"
    by (auto simp: relative_path_of_text_def result_simps cs_def Let_def
        spelling_must_be_normalized_relative_def path_must_be_normalized_relative_def
        split: if_splits)
  have "list_all canonical_component cs"
    using ok split_on_parts [of _ "CHR ''/''" s]
    by (auto simp: list_all_iff canonical_component_def cs_def)
  moreover have "cs \<noteq> []" "s = join_with CHR ''/'' cs" by (simp_all add: cs_def)
  ultimately show "\<exists>cs. cs \<noteq> [] \<and> list_all canonical_component cs \<and> s = join_with CHR ''/'' cs \<and>
      p = \<lparr>root = '''', tail = cs\<rparr>"
    using p PurePosixPath_relative by blast
next
  assume "\<exists>cs. cs \<noteq> [] \<and> list_all canonical_component cs \<and> s = join_with CHR ''/'' cs \<and>
      p = \<lparr>root = '''', tail = cs\<rparr>"
  then obtain cs where cs: "cs \<noteq> []" "list_all canonical_component cs"
    and s: "s = join_with CHR ''/'' cs" and p: "p = \<lparr>root = '''', tail = cs\<rparr>" by blast
  have parts: "split_on CHR ''/'' s = cs"
    unfolding s using cs by (intro split_join) (auto simp: list_all_iff canonical_component_def)
  have q: "PurePosixPath s = p" unfolding s p by (rule PurePosixPath_relative [OF cs(2)])
  have clean: "\<forall>c\<in>set cs. c \<notin> {'''', ''.'', ''..''}"
    using cs(2) by (auto simp: list_all_iff canonical_component_def)
  have "s \<notin> {'''', ''.''}"
  proof
    assume "s \<in> {'''', ''.''}"
    then have "split_on CHR ''/'' s \<in> {[''''], [''.'']}" by auto
    then have "cs \<in> {[''''], [''.'']}" unfolding parts .
    with clean show False by force
  qed
  moreover from this have post: "as_posix p = s"
    unfolding s p by (simp add: as_posix_def)
  ultimately have "path_must_be_normalized_relative p = Inr p"
    unfolding path_must_be_normalized_relative_def Let_def post q
    using clean by (simp add: p is_absolute_def path_parts_def)
  moreover have "spelling_must_be_normalized_relative s = Inr s"
    unfolding spelling_must_be_normalized_relative_def parts
    using clean join_hd_not_slash [OF cs(2)] s by simp
  ultimately show "relative_path_of_text s = Inr p"
    unfolding relative_path_of_text_def by (simp add: q)
qed

end
