(* ===== verification/Retention.thy ===== *)
theory Retention
  imports Records
begin

text \<open>
  Outcome attribution (\<^verbatim>\<open>execution/outcomes.py\<close>) and payload retention (\<^verbatim>\<open>execution/retention.py\<close>).
  The clocks \<^verbatim>\<open>completed_execution\<close> reads are arguments. The abstract specification of retention
  is a function of the whole stream: its head, the last bytes of what follows, and the count of
  the bytes between; the buffers are proved to keep exactly that, however the stream is cut
  into chunks.
\<close>

section \<open>Attribution\<close>

fun attribute_outcome :: "ExecutionOutcome \<Rightarrow> ExecutionAttribution" where
  "attribute_outcome (ExitedOutcome code) =
     (if code = 0 then \<lparr>at_owner = FailureOwner.NONE, at_detail = None\<rparr>
      else \<lparr>at_owner = FailureOwner.PAYLOAD, at_detail = Some ''the payload exited nonzero''\<rparr>)"
| "attribute_outcome (SignaledOutcome _) =
     \<lparr>at_owner = FailureOwner.PAYLOAD, at_detail = Some ''the payload died on a signal''\<rparr>"
| "attribute_outcome (SpawnAbsentOutcome _) =
     \<lparr>at_owner = FailureOwner.EXECUTOR, at_detail = Some ''the declared executable was not found''\<rparr>"
| "attribute_outcome (SpawnFailedOutcome _ _) =
     \<lparr>at_owner = FailureOwner.MACHINE, at_detail = Some ''the child could not be started''\<rparr>"
| "attribute_outcome (BudgetExceededOutcome ax) =
     (if ax = BudgetAxis.WALL_TIME
      then \<lparr>at_owner = FailureOwner.EXECUTOR, at_detail = Some ''the wall-time budget was exceeded''\<rparr>
      else \<lparr>at_owner = FailureOwner.PAYLOAD,
            at_detail = Some (''the payload exceeded its '' @ BudgetAxis_value ax @ '' budget'')\<rparr>)"
| "attribute_outcome (ProtocolFailedOutcome code detail _) =
     \<lparr>at_owner = (if code = ProtocolFailureCode.OVERSIZED_FRAME then FailureOwner.EXECUTOR
        else FailureOwner.PAYLOAD), at_detail = Some detail\<rparr>"
| "attribute_outcome (CancelledOutcome _) =
     \<lparr>at_owner = FailureOwner.NONE, at_detail = Some ''the call was cancelled''\<rparr>"

fun executor_protocol_failure_attribution :: "ExecutionOutcome \<Rightarrow> ExecutionAttribution" where
  "executor_protocol_failure_attribution outcome =
     \<lparr>at_owner = FailureOwner.EXECUTOR, at_detail = Some (failure_detail outcome)\<rparr>"

definition malformed_frame_outcome :: "string \<Rightarrow> ExecutionOutcome" where
  "malformed_frame_outcome detail =
     ProtocolFailedOutcome ProtocolFailureCode.MALFORMED_FRAME detail 0"

definition empty_payload_outputs :: PayloadOutputs where
  "empty_payload_outputs =
     (let empty = \<lparr>rp_head = [], rp_tail = [], rp_produced_bytes = 0, rp_dropped_bytes = 0\<rparr>
      in \<lparr>po_stdout = empty, po_stderr = empty\<rparr>)"

definition is_protocol_failed :: "ExecutionOutcome \<Rightarrow> bool" where
  "is_protocol_failed outcome = (outcome_kind outcome = OutcomeKind.PROTOCOL_FAILED)"

text \<open>\<open>finished_at\<close> and \<open>now_ns\<close> are the readings of the wall and the monotonic clock.\<close>

definition completed_execution ::
  "datetime \<Rightarrow> int \<Rightarrow> ExecutionId \<Rightarrow> RecordReceipt \<Rightarrow> ExecutionOutcome \<Rightarrow> identity_document list \<Rightarrow>
     datetime \<Rightarrow> int \<Rightarrow> int \<Rightarrow> string option \<Rightarrow> (ExecutionOutcome \<Rightarrow> ExecutionAttribution) option \<Rightarrow>
     (py_exn, CompletedExecution) result" where
  "completed_execution finished_at now_ns execution_id record_receipt outcome protocol_outputs
     started_at started_ns n_input attribution_detail attribution_override =
     (let base = (case attribution_override of
            Some f \<Rightarrow> if is_protocol_failed outcome then f outcome else attribute_outcome outcome
          | None \<Rightarrow> attribute_outcome outcome);
          attribution = (case attribution_detail of
            Some d \<Rightarrow> base\<lparr>at_detail := Some d\<rparr> | None \<Rightarrow> base)
      in bind_result (ExecutionMeasurements_new
             \<lparr>ms_started_at = started_at, ms_finished_at = finished_at,
              ms_duration_ns = now_ns - started_ns, ms_teardown_duration_ns = 0,
              ms_input_bytes = n_input, ms_protocol_bytes_received = 0\<rparr>) (\<lambda>measurements.
         bind_result (protocol_output_count_must_match_outcome
             \<lparr>res_execution_id = execution_id, res_outcome = outcome,
              res_attribution = attribution, res_protocol_outputs = protocol_outputs,
              res_payload_outputs = empty_payload_outputs, res_measurements = measurements\<rparr>) (\<lambda>r.
           CompletedExecution_new \<lparr>ce_result = r, ce_record_receipt = record_receipt\<rparr>)))"

section \<open>Stream retention\<close>

record StreamRetention =
  sr_head_bytes :: "int option"
  sr_tail_bytes :: "int option"
  sr_head :: bytes
  sr_tail :: bytes
  sr_produced_bytes :: int
  sr_dropped_bytes :: int

definition offer :: "StreamRetention \<Rightarrow> bytes \<Rightarrow> StreamRetention" where
  "offer s chunk =
     (let s = s\<lparr>sr_produced_bytes := sr_produced_bytes s + int (length chunk)\<rparr>
      in case sr_head_bytes s of
           None \<Rightarrow> s\<lparr>sr_head := sr_head s @ chunk\<rparr>
         | Some n_head \<Rightarrow>
             (let remaining_head = n_head - int (length (sr_head s));
                  s = (if remaining_head > 0
                    then s\<lparr>sr_head := sr_head s @ take (nat remaining_head) chunk\<rparr> else s);
                  chunk = (if remaining_head > 0 then drop (nat remaining_head) chunk else chunk)
              in if chunk = [] then s
                 else if sr_tail_bytes s = None \<or> sr_tail_bytes s = Some 0
                 then s\<lparr>sr_dropped_bytes := sr_dropped_bytes s + int (length chunk)\<rparr>
                 else (let grown = sr_tail s @ chunk;
                           overflow = int (length grown) - the (sr_tail_bytes s)
                       in if overflow > 0
                          then s\<lparr>sr_tail := drop (nat overflow) grown,
                                 sr_dropped_bytes := sr_dropped_bytes s + overflow\<rparr>
                          else s\<lparr>sr_tail := grown\<rparr>)))"

definition stream_snapshot :: "StreamRetention \<Rightarrow> (py_exn, RetainedPayloadStream) result" where
  "stream_snapshot s =
     RetainedPayloadStream_new
       \<lparr>rp_head = sr_head s, rp_tail = sr_tail s, rp_produced_bytes = sr_produced_bytes s,
        rp_dropped_bytes = sr_dropped_bytes s\<rparr>"

definition stream_retention :: "StreamRetentionBudget option \<Rightarrow> StreamRetention" where
  "stream_retention budget =
     \<lparr>sr_head_bytes = map_option head_bytes budget, sr_tail_bytes = map_option tail_bytes budget,
      sr_head = [], sr_tail = [], sr_produced_bytes = 0, sr_dropped_bytes = 0\<rparr>"

record PayloadRetention =
  pr_stdout :: StreamRetention
  pr_stderr :: StreamRetention
  pr_max_total_bytes :: "int option"

fun PayloadRetention_for_budget :: "FiniteOutput budget \<Rightarrow> PayloadRetention" where
  "PayloadRetention_for_budget (Finite b) =
     \<lparr>pr_stdout = stream_retention (Some (rb_stdout (retention b))),
      pr_stderr = stream_retention (Some (rb_stderr (retention b))),
      pr_max_total_bytes = Some (fo_max_bytes b)\<rparr>"
| "PayloadRetention_for_budget UnbudgetedLimit =
     \<lparr>pr_stdout = stream_retention None, pr_stderr = stream_retention None,
      pr_max_total_bytes = None\<rparr>"

definition pr_produced_bytes :: "PayloadRetention \<Rightarrow> int" where
  "pr_produced_bytes r = sr_produced_bytes (pr_stdout r) + sr_produced_bytes (pr_stderr r)"

definition overflowed :: "PayloadRetention \<Rightarrow> bool" where
  "overflowed r =
     (case pr_max_total_bytes r of None \<Rightarrow> False | Some m \<Rightarrow> pr_produced_bytes r > m)"

definition payload_snapshot :: "PayloadRetention \<Rightarrow> (py_exn, PayloadOutputs) result" where
  "payload_snapshot r =
     bind_result (stream_snapshot (pr_stdout r)) (\<lambda>out.
     bind_result (stream_snapshot (pr_stderr r)) (\<lambda>err.
       Inr \<lparr>po_stdout = out, po_stderr = err\<rparr>))"

text \<open>
  The two pumps of the engine feed the streams; a run of the pumps is a list of chunks, each
  marked with the stream it came from.
\<close>

datatype stream_name = Stdout | Stderr

fun offer_to :: "PayloadRetention \<Rightarrow> stream_name \<times> bytes \<Rightarrow> PayloadRetention" where
  "offer_to r (Stdout, chunk) = r\<lparr>pr_stdout := offer (pr_stdout r) chunk\<rparr>"
| "offer_to r (Stderr, chunk) = r\<lparr>pr_stderr := offer (pr_stderr r) chunk\<rparr>"

definition stream_chunks :: "stream_name \<Rightarrow> (stream_name \<times> bytes) list \<Rightarrow> bytes list" where
  "stream_chunks name events = map snd (filter (\<lambda>e. fst e = name) events)"

section \<open>The specification of a retained stream\<close>

definition last_n :: "nat \<Rightarrow> 'a list \<Rightarrow> 'a list" where
  "last_n n xs = drop (length xs - n) xs"

fun retained :: "StreamRetentionBudget option \<Rightarrow> bytes \<Rightarrow> RetainedPayloadStream" where
  "retained None bs =
     \<lparr>rp_head = bs, rp_tail = [], rp_produced_bytes = int (length bs), rp_dropped_bytes = 0\<rparr>"
| "retained (Some b) bs =
     (let h = nat (head_bytes b); t = nat (tail_bytes b); rest = drop h bs
      in \<lparr>rp_head = take h bs, rp_tail = last_n t rest, rp_produced_bytes = int (length bs),
          rp_dropped_bytes = int (length rest - t)\<rparr>)"

text \<open>What the buffer holds after the stream \<open>bs\<close>, cut in any way.\<close>

definition holds :: "StreamRetentionBudget option \<Rightarrow> bytes \<Rightarrow> StreamRetention \<Rightarrow> bool" where
  "holds b bs s =
     (sr_head_bytes s = map_option head_bytes b \<and> sr_tail_bytes s = map_option tail_bytes b \<and>
      sr_head s = rp_head (retained b bs) \<and> sr_tail s = rp_tail (retained b bs) \<and>
      sr_produced_bytes s = rp_produced_bytes (retained b bs) \<and>
      sr_dropped_bytes s = rp_dropped_bytes (retained b bs))"

section \<open>Facts\<close>

lemma last_n_append: "last_n t (xs @ ys) = last_n t (last_n t xs @ ys)"
  by (cases "t \<le> length xs") (auto simp: last_n_def add.commute)

lemma length_last_n [simp]: "length (last_n t xs) = min t (length xs)"
  by (auto simp: last_n_def)

lemma last_n_all: "length xs \<le> t \<Longrightarrow> last_n t xs = xs"
  by (simp add: last_n_def)

text \<open>One chunk past the head: what the tail buffer and the drop count become.\<close>

definition after_head :: "StreamRetention \<Rightarrow> bytes \<Rightarrow> StreamRetention" where
  "after_head s c =
     (if c = [] then s
      else if sr_tail_bytes s = None \<or> sr_tail_bytes s = Some 0
      then s\<lparr>sr_dropped_bytes := sr_dropped_bytes s + int (length c)\<rparr>
      else (let grown = sr_tail s @ c; over = int (length grown) - the (sr_tail_bytes s)
            in if over > 0
               then s\<lparr>sr_tail := drop (nat over) grown, sr_dropped_bytes := sr_dropped_bytes s + over\<rparr>
               else s\<lparr>sr_tail := grown\<rparr>))"

lemma after_head_tail:
  assumes "sr_tail_bytes s = Some t" and "0 \<le> t" and "sr_tail s = last_n (nat t) rest"
    and "sr_dropped_bytes s = int (length rest - nat t)"
  shows "sr_tail (after_head s c) = last_n (nat t) (rest @ c)"
    and "sr_dropped_bytes (after_head s c) = int (length (rest @ c) - nat t)"
proof -
  have *: "last_n (nat t) (rest @ c) = last_n (nat t) (sr_tail s @ c)"
    using assms(3) last_n_append by metis
  have len: "int (length (sr_tail s)) = min t (int (length rest))"
    using assms(2,3) by (simp add: of_nat_min)
  show "sr_tail (after_head s c) = last_n (nat t) (rest @ c)"
  proof -
    have short: "length (sr_tail s) \<le> nat t" using assms(3) by simp
    have "nat (int (length (sr_tail s @ c)) - t) = length (sr_tail s @ c) - nat t"
      using assms(2) by simp
    with short have "sr_tail (after_head s c) = last_n (nat t) (sr_tail s @ c)"
      unfolding after_head_def Let_def last_n_def using assms(1,2) by auto
    with * show ?thesis by simp
  qed
  show "sr_dropped_bytes (after_head s c) = int (length (rest @ c) - nat t)"
    using assms(1,2,4) len by (auto simp: after_head_def Let_def)
qed

lemma after_head_other [simp]:
  "sr_head (after_head s c) = sr_head s" "sr_head_bytes (after_head s c) = sr_head_bytes s"
  "sr_tail_bytes (after_head s c) = sr_tail_bytes s"
  "sr_produced_bytes (after_head s c) = sr_produced_bytes s"
  by (auto simp: after_head_def Let_def)

lemma offer_after_head:
  assumes "sr_head_bytes s = Some h" and "0 \<le> h" and "sr_head s = take (nat h) bs"
  shows "offer s chunk =
    after_head (s\<lparr>sr_head := take (nat h) (bs @ chunk),
      sr_produced_bytes := sr_produced_bytes s + int (length chunk)\<rparr>)
      (drop (nat h - length bs) chunk)"
proof (cases "length bs < nat h")
  case True
  then have "nat (h - int (length (sr_head s))) = nat h - length bs"
    and "h - int (length (sr_head s)) > 0" using assms by auto
  with True assms show ?thesis by (simp add: offer_def after_head_def Let_def)
next
  case False
  then have "h - int (length (sr_head s)) = 0" using assms by (simp add: min_def)
  with False assms show ?thesis by (simp add: offer_def after_head_def Let_def)
qed

lemma holds_offer:
  assumes "holds b bs s" and "\<And>r. b = Some r \<Longrightarrow> StreamRetentionBudget_ok r"
  shows "holds b (bs @ chunk) (offer s chunk)"
proof (cases b)
  case None
  with assms(1) show ?thesis by (auto simp: holds_def offer_def Let_def)
next
  case (Some r)
  let ?h = "head_bytes r" and ?t = "tail_bytes r"
  have pos: "0 \<le> ?h" "0 \<le> ?t" using assms(2) [OF Some] by (simp_all add: StreamRetentionBudget_ok_def)
  have s: "sr_head_bytes s = Some ?h" "sr_tail_bytes s = Some ?t" "sr_head s = take (nat ?h) bs"
    "sr_tail s = last_n (nat ?t) (drop (nat ?h) bs)" "sr_produced_bytes s = int (length bs)"
    "sr_dropped_bytes s = int (length (drop (nat ?h) bs) - nat ?t)"
    using assms(1) by (simp_all add: holds_def Some Let_def)
  define s' where "s' = s\<lparr>sr_head := take (nat ?h) (bs @ chunk),
    sr_produced_bytes := sr_produced_bytes s + int (length chunk)\<rparr>"
  have o: "offer s chunk = after_head s' (drop (nat ?h - length bs) chunk)"
    unfolding s'_def by (rule offer_after_head [OF s(1) pos(1) s(3)])
  have s': "sr_tail_bytes s' = Some ?t" "sr_tail s' = last_n (nat ?t) (drop (nat ?h) bs)"
    "sr_dropped_bytes s' = int (length (drop (nat ?h) bs) - nat ?t)"
    "sr_head_bytes s' = Some ?h" "sr_head s' = take (nat ?h) (bs @ chunk)"
    "sr_produced_bytes s' = int (length (bs @ chunk))"
    using s by (simp_all add: s'_def)
  have rest: "drop (nat ?h) bs @ drop (nat ?h - length bs) chunk = drop (nat ?h) (bs @ chunk)" by simp
  note tail = after_head_tail [OF s'(1) pos(2) s'(2,3), of "drop (nat ?h - length bs) chunk",
      unfolded rest]
  show ?thesis
    unfolding holds_def o after_head_other tail s'(1,4,5,6) by (simp add: Some Let_def)
qed

lemma holds_fresh: "holds b [] (stream_retention b)"
  by (cases b) (auto simp: holds_def stream_retention_def Let_def last_n_def)

lemma holds_offers:
  assumes "holds b bs s" and "\<And>r. b = Some r \<Longrightarrow> StreamRetentionBudget_ok r"
  shows "holds b (bs @ concat chunks) (foldl offer s chunks)"
  using assms(1)
proof (induction chunks arbitrary: bs s)
  case (Cons c chunks)
  from Cons.IH [OF holds_offer [OF Cons.prems assms(2)]] show ?case by simp
qed simp

lemma retained_accounts:
  "int (length (rp_head (retained b bs))) + int (length (rp_tail (retained b bs))) +
     rp_dropped_bytes (retained b bs) = rp_produced_bytes (retained b bs)"
  by (cases b) (auto simp: Let_def)

lemma holds_snapshot: "holds b bs s \<Longrightarrow> stream_snapshot s = Inr (retained b bs)"
proof -
  assume "holds b bs s"
  moreover have "0 \<le> rp_produced_bytes (retained b bs)" "0 \<le> rp_dropped_bytes (retained b bs)"
    by (cases b; simp add: Let_def)+
  ultimately show ?thesis using retained_accounts [of b bs]
    by (simp add: holds_def stream_snapshot_def RetainedPayloadStream_new_def)
qed

lemma foldl_offer_to:
  "pr_stdout (foldl offer_to r events) = foldl offer (pr_stdout r) (stream_chunks Stdout events)"
  "pr_stderr (foldl offer_to r events) = foldl offer (pr_stderr r) (stream_chunks Stderr events)"
  "pr_max_total_bytes (foldl offer_to r events) = pr_max_total_bytes r"
proof (induction events arbitrary: r)
  case (Cons e events)
  obtain n c where e: "e = (n, c)" by (cases e)
  { case 1 show ?case using Cons by (cases n) (simp_all add: stream_chunks_def e) }
  { case 2 show ?case using Cons by (cases n) (simp_all add: stream_chunks_def e) }
  { case 3 show ?case using Cons by (cases n) (simp_all add: stream_chunks_def e) }
qed (simp_all add: stream_chunks_def)

section \<open>Properties\<close>

text \<open>
  However a stream is cut into chunks, the retention buffers hold exactly its
  first \<^verbatim>\<open>head_bytes\<close> bytes, the last \<^verbatim>\<open>tail_bytes\<close> bytes of what follows, and the exact counts of
  produced and dropped bytes, so the snapshot passes its validator and depends on the stream
  alone; an unbudgeted stream is kept whole.
\<close>

theorem retention_independent_of_chunking:
  assumes "\<forall>r. budget = Some r \<longrightarrow> StreamRetentionBudget_ok r"
  shows "stream_snapshot (foldl offer (stream_retention budget) chunks) =
    Inr (retained budget (concat chunks))"
  using holds_offers [OF holds_fresh, of budget chunks] assms
  by (auto intro: holds_snapshot)

theorem retention_independent_of_chunking_witness:
  "stream_snapshot (foldl offer (stream_retention (Some \<lparr>head_bytes = 2, tail_bytes = 2\<rparr>))
     [[1, 2, 3], [4], [5, 6]]) =
   Inr \<lparr>rp_head = [1, 2], rp_tail = [5, 6], rp_produced_bytes = 6, rp_dropped_bytes = 2\<rparr>"
  using retention_independent_of_chunking [of "Some \<lparr>head_bytes = 2, tail_bytes = 2\<rparr>"
      "[[1, 2, 3], [4], [5, 6]]"]
  by (simp add: StreamRetentionBudget_ok_def last_n_def numeral_2_eq_2)

text \<open>
  C10: under a finite output budget that passed its constructor, whatever the two pumps
  deliver in whatever interleaving: the retained bytes of both streams never exceed the
  budget, \<^verbatim>\<open>overflowed\<close> is true exactly when more than the budget was produced in all, each
  stream's snapshot is the retention of its own bytes, and a stream that stayed within its
  own share lost nothing.
\<close>

theorem payload_retention_within_budget:
  assumes "FiniteOutput_ok b" and "out = concat (stream_chunks Stdout events)"
    and "err = concat (stream_chunks Stderr events)"
  shows "\<exists>o'. payload_snapshot (foldl offer_to (PayloadRetention_for_budget (Finite b)) events) =
        Inr o' \<and>
      po_stdout o' = retained (Some (rb_stdout (retention b))) out \<and>
      po_stderr o' = retained (Some (rb_stderr (retention b))) err \<and>
      int (length (rp_head (po_stdout o')) + length (rp_tail (po_stdout o')) +
        length (rp_head (po_stderr o')) + length (rp_tail (po_stderr o'))) \<le> fo_max_bytes b \<and>
      (overflowed (foldl offer_to (PayloadRetention_for_budget (Finite b)) events) \<longleftrightarrow>
        int (length out) + int (length err) > fo_max_bytes b) \<and>
      (int (length out) \<le> head_bytes (rb_stdout (retention b)) + tail_bytes (rb_stdout (retention b)) \<longrightarrow>
        rp_head (po_stdout o') @ rp_tail (po_stdout o') = out)"
proof -
  let ?r = "foldl offer_to (PayloadRetention_for_budget (Finite b)) events"
  let ?bo = "rb_stdout (retention b)" and ?be = "rb_stderr (retention b)"
  have ok: "StreamRetentionBudget_ok ?bo" "StreamRetentionBudget_ok ?be"
    and total: "fo_max_bytes b = head_bytes ?bo + tail_bytes ?bo + head_bytes ?be + tail_bytes ?be"
    using assms(1) by (auto simp: FiniteOutput_ok_def retention_must_match_max_bytes_def
        retained_bytes_def Let_def split: if_splits)
  have h: "holds (Some ?bo) out (pr_stdout ?r)" "holds (Some ?be) err (pr_stderr ?r)"
    unfolding foldl_offer_to assms(2,3)
    using holds_offers [OF holds_fresh, of "Some ?bo"] holds_offers [OF holds_fresh, of "Some ?be"] ok
    by auto
  then have snap: "payload_snapshot ?r =
      Inr \<lparr>po_stdout = retained (Some ?bo) out, po_stderr = retained (Some ?be) err\<rparr>"
    by (simp add: payload_snapshot_def holds_snapshot)
  have over: "overflowed ?r \<longleftrightarrow> int (length out) + int (length err) > fo_max_bytes b"
    using h by (simp add: overflowed_def pr_produced_bytes_def foldl_offer_to(3) holds_def Let_def)
  have bound: "int (length (rp_head (retained (Some r) bs)) + length (rp_tail (retained (Some r) bs)))
      \<le> head_bytes r + tail_bytes r" if "StreamRetentionBudget_ok r" for r bs
    using that by (auto simp: StreamRetentionBudget_ok_def Let_def)
  have whole: "rp_head (retained (Some r) bs) @ rp_tail (retained (Some r) bs) = bs"
    if "StreamRetentionBudget_ok r" "int (length bs) \<le> head_bytes r + tail_bytes r" for r bs
  proof -
    have "length (drop (nat (head_bytes r)) bs) \<le> nat (tail_bytes r)"
      using that by (simp add: StreamRetentionBudget_ok_def)
    then show ?thesis by (simp add: Let_def last_n_all)
  qed
  show ?thesis
    using snap over bound [OF ok(1), of out] bound [OF ok(2), of err] whole [OF ok(1), of out] total
    by (intro exI [of _ "\<lparr>po_stdout = retained (Some ?bo) out, po_stderr = retained (Some ?be) err\<rparr>"])
      (simp del: retained.simps)
qed


theorem payload_retention_within_budget_witness:
  "overflowed (foldl offer_to (PayloadRetention_for_budget (Finite
     \<lparr>fo_max_bytes = 4, overflow_policy = OutputOverflowPolicy.FAIL,
      retention = \<lparr>rb_stdout = \<lparr>head_bytes = 1, tail_bytes = 1\<rparr>,
        rb_stderr = \<lparr>head_bytes = 2, tail_bytes = 0\<rparr>\<rparr>\<rparr>))
     [(Stdout, [1, 2, 3]), (Stderr, [4, 5])])"
  using payload_retention_within_budget [of
      "\<lparr>fo_max_bytes = 4, overflow_policy = OutputOverflowPolicy.FAIL,
        retention = \<lparr>rb_stdout = \<lparr>head_bytes = 1, tail_bytes = 1\<rparr>,
          rb_stderr = \<lparr>head_bytes = 2, tail_bytes = 0\<rparr>\<rparr>\<rparr>" "[1, 2, 3]"
      "[(Stdout, [1, 2, 3]), (Stderr, [4, 5])]" "[4, 5]"]
  by (auto simp: FiniteOutput_ok_def retention_must_match_max_bytes_def retained_bytes_def
      StreamRetentionBudget_ok_def stream_chunks_def)

end
