(* ===== verification/Protocol.thy ===== *)
theory Protocol
  imports Retention
begin

text \<open>
  The protected protocol: \<^verbatim>\<open>runtime/wire.py\<close>, \<^verbatim>\<open>runtime/protocol.py\<close> and the canonical-bytes guard of
  \<^verbatim>\<open>core/model.py\<close>. The reader is a blocking buffered stream: \<^verbatim>\<open>read(n)\<close> returns the next \<open>n\<close>
  bytes, fewer only at the end of the stream. The JSON decoder and encoder of the
  serialisation package and the model validation of one frame are the fields of a codec
  record. A raise is a violation next to the state the objects were left in, because the
  result keeps the outputs and the byte count that were reached.
\<close>

section \<open>Frames and the codec\<close>

datatype ProtocolFrame =
    ProtocolPrelude (pf_request_id_sha256: string)
  | ProtocolOutput (pf_sequence: int) (pf_document: identity_document)
  | ProtocolComplete (pf_output_count: int)

definition PROTOCOL_FRAME_TERMINATOR :: byte where
  "PROTOCOL_FRAME_TERMINATOR = 10"

definition CHUNK_BYTES :: int where
  "CHUNK_BYTES = 65536"

record ProtocolFailure =
  pf_code :: ProtocolFailureCode
  pf_detail :: string

abbreviation violation :: "ProtocolFailureCode \<Rightarrow> string \<Rightarrow> ProtocolFailure" where
  "violation code detail \<equiv> \<lparr>pf_code = code, pf_detail = detail\<rparr>"

record ProtocolStreamResult =
  psr_outputs :: "identity_document list"
  psr_bytes_received :: int
  psr_failure :: "ProtocolFailure option"

definition psr_completed :: "ProtocolStreamResult \<Rightarrow> bool" where
  "psr_completed r = (psr_failure r = None)"

datatype strict_json_error =
    JsonDepthLimitError
  | NonCanonicalBytesError
  | StrictJsonDecodeError string

text \<open>
  \<open>decode_strict data max_bytes max_depth\<close>, \<open>canonical_bytes\<close>, the frame adapter (the frame and
  whether the text set \<^verbatim>\<open>version\<close>; \<open>None\<close> for a validation error) and the depth ceiling.
\<close>

record frame_codec =
  decode_strict :: "bytes \<Rightarrow> int \<Rightarrow> int \<Rightarrow> (strict_json_error, json) result"
  canonical_bytes :: "json \<Rightarrow> bytes"
  validate_frame :: "bytes \<Rightarrow> (ProtocolFrame \<times> bool) option"
  depth_ceiling :: int

definition require_canonical_json_bytes ::
  "frame_codec \<Rightarrow> bytes \<Rightarrow> int \<Rightarrow> int \<Rightarrow> (strict_json_error, unit) result" where
  "require_canonical_json_bytes c data max_bytes max_depth =
     bind_result (decode_strict c data max_bytes max_depth) (\<lambda>decoded.
       ensure (canonical_bytes c decoded = data) NonCanonicalBytesError)"

definition decode_frame :: "frame_codec \<Rightarrow> bytes \<Rightarrow> int \<Rightarrow> (ProtocolFailure, ProtocolFrame) result" where
  "decode_frame c frame_bytes max_depth =
     (case require_canonical_json_bytes c frame_bytes (int (length frame_bytes)) max_depth of
        Inl JsonDepthLimitError \<Rightarrow>
          Inl (violation ProtocolFailureCode.OVERSIZED_FRAME
            ''frame exceeded its structural depth budget'')
      | Inl NonCanonicalBytesError \<Rightarrow>
          Inl (violation ProtocolFailureCode.MALFORMED_FRAME
            ''frame bytes are not canonical JSON bytes'')
      | Inl (StrictJsonDecodeError name) \<Rightarrow>
          Inl (violation ProtocolFailureCode.MALFORMED_FRAME (''frame is not strict JSON: '' @ name))
      | Inr _ \<Rightarrow>
          (case validate_frame c frame_bytes of
             None \<Rightarrow> Inl (violation ProtocolFailureCode.MALFORMED_FRAME
               ''frame is not a valid protocol frame'')
           | Some (frame, version_set) \<Rightarrow>
               (if \<not> version_set
                then Inl (violation ProtocolFailureCode.MALFORMED_FRAME
                  ''frame does not contain an explicit protocol version'')
                else Inr frame)))"

definition effective_depth :: "frame_codec \<Rightarrow> int option \<Rightarrow> int" where
  "effective_depth c max_depth =
     (case max_depth of None \<Rightarrow> depth_ceiling c | Some d \<Rightarrow> min d (depth_ceiling c))"

section \<open>Frame acquisition\<close>

record FrameAcquisition =
  fa_reader :: bytes
  fa_max_frame_bytes :: "int option"
  fa_max_total_bytes :: "int option"
  fa_buffer :: bytes
  fa_at_eof :: bool
  fa_bytes_received :: int

definition check_frame_budget :: "FrameAcquisition \<Rightarrow> nat \<Rightarrow> (ProtocolFailure, unit) result" where
  "check_frame_budget a n =
     ensure (case fa_max_frame_bytes a of None \<Rightarrow> True | Some m \<Rightarrow> int n \<le> m)
       (violation ProtocolFailureCode.OVERSIZED_FRAME ''protocol frame exceeded its byte budget'')"

definition read_size :: "FrameAcquisition \<Rightarrow> int" where
  "read_size a =
     max 1 (min (min CHUNK_BYTES
       (case fa_max_frame_bytes a of None \<Rightarrow> CHUNK_BYTES
        | Some m \<Rightarrow> m + 1 - int (length (fa_buffer a))))
       (case fa_max_total_bytes a of None \<Rightarrow> CHUNK_BYTES
        | Some m \<Rightarrow> m + 1 - fa_bytes_received a))"

definition fill :: "FrameAcquisition \<Rightarrow> FrameAcquisition \<times> ProtocolFailure option" where
  "fill a =
     (let n = nat (read_size a);
          chunk = take n (fa_reader a);
          a = a\<lparr>fa_reader := drop n (fa_reader a)\<rparr>
      in if chunk = [] then (a\<lparr>fa_at_eof := True\<rparr>, None)
         else (let a = a\<lparr>fa_bytes_received := fa_bytes_received a + int (length chunk)\<rparr>
               in if (case fa_max_total_bytes a of None \<Rightarrow> False | Some m \<Rightarrow> fa_bytes_received a > m)
                  then (a, Some (violation ProtocolFailureCode.OVERSIZED_FRAME
                    ''protocol stream exceeded its total byte budget''))
                  else (a\<lparr>fa_buffer := fa_buffer a @ chunk\<rparr>, None)))"

text \<open>\<^verbatim>\<open>bytearray.find\<close> of the terminator as the frame before it and the rest after it.\<close>

fun find_frame :: "bytes \<Rightarrow> (bytes \<times> bytes) option" where
  "find_frame [] = None"
| "find_frame (x # xs) =
     (if x = PROTOCOL_FRAME_TERMINATOR then Some ([], xs)
      else map_option (\<lambda>(f, r). (x # f, r)) (find_frame xs))"

lemma read_size_pos: "nat (read_size a) > 0"
  by (simp add: read_size_def)

lemma fill_eof: "fill a = (a', r) \<Longrightarrow> \<not> fa_at_eof a \<Longrightarrow>
    fa_at_eof a' \<or> length (fa_reader a') < length (fa_reader a)"
  using read_size_pos [of a] by (auto simp: fill_def Let_def split: if_splits)

function next_frame ::
  "FrameAcquisition \<Rightarrow> bool \<Rightarrow> FrameAcquisition \<times> (ProtocolFailure, bytes option) result" where
  "next_frame a after_completion =
     (case find_frame (fa_buffer a) of
        Some (frame, rest) \<Rightarrow>
          (let a = a\<lparr>fa_buffer := rest\<rparr>
           in case check_frame_budget a (length frame) of
                Inl v \<Rightarrow> (a, Inl v)
              | Inr _ \<Rightarrow> (a, Inr (Some frame)))
      | None \<Rightarrow>
          (case check_frame_budget a (length (fa_buffer a)) of
             Inl v \<Rightarrow> (a, Inl v)
           | Inr _ \<Rightarrow>
               (if fa_at_eof a
                then (if fa_buffer a \<noteq> []
                      then (a, Inl (if after_completion
                        then violation ProtocolFailureCode.UNEXPECTED_FRAME
                          ''bytes arrived after the completion frame''
                        else violation ProtocolFailureCode.INCOMPLETE_STREAM
                          ''stream ended without a terminating LF''))
                      else (a, Inr None))
                else (case fill a of
                        (a', Some v) \<Rightarrow> (a', Inl v)
                      | (a', None) \<Rightarrow> next_frame a' after_completion))))"
  by pat_completeness auto
termination
  by (relation "measure (\<lambda>(a, _). if fa_at_eof a then 0 else Suc (length (fa_reader a)))")
    (auto dest: fill_eof [OF sym] fill_eof)

declare next_frame.simps [simp del]

section \<open>The stream state\<close>

record StreamState =
  st_request_id_sha256 :: string
  st_max_output_count :: "int option"
  st_outputs :: "identity_document list"
  st_prelude_seen :: bool
  st_completed :: bool

definition require_open :: "StreamState \<Rightarrow> string \<Rightarrow> (ProtocolFailure, unit) result" where
  "require_open s name =
     bind_result (ensure (st_prelude_seen s)
       (violation ProtocolFailureCode.UNEXPECTED_FRAME (name @ '' frame arrived before the prelude''))) (\<lambda>_.
     ensure (\<not> st_completed s)
       (violation ProtocolFailureCode.UNEXPECTED_FRAME (name @ '' frame arrived after completion'')))"

definition accept_prelude :: "StreamState \<Rightarrow> string \<Rightarrow> StreamState \<times> ProtocolFailure option" where
  "accept_prelude s digest =
     (if st_prelude_seen s
      then (s, Some (violation ProtocolFailureCode.UNEXPECTED_FRAME
        ''prelude must appear exactly once, first''))
      else (let s = s\<lparr>st_prelude_seen := True\<rparr>
            in if digest \<noteq> st_request_id_sha256 s
               then (s, Some (violation ProtocolFailureCode.ID_MISMATCH
                 ''prelude does not bind this request identity''))
               else (s, None)))"

definition accept_output ::
  "StreamState \<Rightarrow> int \<Rightarrow> identity_document \<Rightarrow> StreamState \<times> ProtocolFailure option" where
  "accept_output s sequence document =
     (case require_open s ''output'' of
        Inl v \<Rightarrow> (s, Some v)
      | Inr _ \<Rightarrow>
          (if sequence < int (length (st_outputs s))
           then (s, Some (violation ProtocolFailureCode.DUPLICATE_OUTPUT
             (''output sequence '' @ int_str sequence @ '' was already accepted'')))
           else if sequence \<noteq> int (length (st_outputs s))
           then (s, Some (violation ProtocolFailureCode.UNEXPECTED_FRAME
             (''output sequence '' @ int_str sequence @ '' is not consecutive'')))
           else if (case st_max_output_count s of None \<Rightarrow> False
               | Some m \<Rightarrow> int (length (st_outputs s)) + 1 > m)
           then (s, Some (violation ProtocolFailureCode.OVERSIZED_FRAME
             ''protocol stream exceeded its output-count budget''))
           else (s\<lparr>st_outputs := st_outputs s @ [document]\<rparr>, None)))"

definition accept_complete :: "StreamState \<Rightarrow> int \<Rightarrow> StreamState \<times> ProtocolFailure option" where
  "accept_complete s output_count =
     (case require_open s ''completion'' of
        Inl v \<Rightarrow> (s, Some v)
      | Inr _ \<Rightarrow>
          (if output_count \<noteq> int (length (st_outputs s))
           then (s, Some (violation ProtocolFailureCode.INCOMPLETE_STREAM
             ''completion count does not match the accepted outputs''))
           else (s\<lparr>st_completed := True\<rparr>, None)))"

fun accept :: "StreamState \<Rightarrow> ProtocolFrame \<Rightarrow> StreamState \<times> ProtocolFailure option" where
  "accept s (ProtocolPrelude digest) = accept_prelude s digest"
| "accept s (ProtocolOutput sequence document) = accept_output s sequence document"
| "accept s (ProtocolComplete n) = accept_complete s n"

definition finish :: "StreamState \<Rightarrow> ProtocolFailure option" where
  "finish s =
     (if \<not> st_completed s
      then Some (violation ProtocolFailureCode.INCOMPLETE_STREAM
        ''stream ended before its completion frame'')
      else None)"


section \<open>Reading a stream\<close>

definition stream_pending :: "FrameAcquisition \<Rightarrow> bytes" where
  "stream_pending a = fa_buffer a @ fa_reader a"

lemma find_frame_Some:
  "find_frame bs = Some (f, r) \<Longrightarrow>
     bs = f @ PROTOCOL_FRAME_TERMINATOR # r \<and> PROTOCOL_FRAME_TERMINATOR \<notin> set f"
  by (induction bs arbitrary: f r) (auto split: if_splits)

lemma find_frame_None: "find_frame bs = None \<longleftrightarrow> PROTOCOL_FRAME_TERMINATOR \<notin> set bs"
  by (induction bs) (auto split: if_splits)

lemma find_frame_append:
  "PROTOCOL_FRAME_TERMINATOR \<notin> set f \<Longrightarrow>
     find_frame (f @ PROTOCOL_FRAME_TERMINATOR # r) = Some (f, r)"
  by (induction f) auto

text \<open>What a fill that did not raise leaves alone, and what it accounts for.\<close>

lemma fill_None:
  assumes "fill a = (a', None)"
  shows "stream_pending a' = stream_pending a" and
    "fa_bytes_received a' + int (length (fa_reader a')) =
       fa_bytes_received a + int (length (fa_reader a))"
    and "fa_max_frame_bytes a' = fa_max_frame_bytes a"
    and "fa_max_total_bytes a' = fa_max_total_bytes a"
    and "fa_at_eof a' \<Longrightarrow> fa_at_eof a \<or> fa_reader a' = []"
proof -
  have n: "nat (read_size a) \<noteq> 0" using read_size_pos [of a] by simp
  from assms n show "stream_pending a' = stream_pending a" and
    "fa_bytes_received a' + int (length (fa_reader a')) =
       fa_bytes_received a + int (length (fa_reader a))"
    and "fa_max_frame_bytes a' = fa_max_frame_bytes a"
    and "fa_max_total_bytes a' = fa_max_total_bytes a"
    and "fa_at_eof a' \<Longrightarrow> fa_at_eof a \<or> fa_reader a' = []"
    by (auto simp: fill_def Let_def stream_pending_def split: if_splits)
qed

text \<open>The state of an acquisition between calls.\<close>

definition acquisition_ok :: "FrameAcquisition \<Rightarrow> bool" where
  "acquisition_ok a =
     ((fa_at_eof a \<longrightarrow> fa_reader a = []) \<and>
      (\<forall>m. fa_max_total_bytes a = Some m \<longrightarrow> fa_bytes_received a \<le> m))"

definition frame_fits :: "FrameAcquisition \<Rightarrow> bytes \<Rightarrow> bool" where
  "frame_fits a f = (\<forall>m. fa_max_frame_bytes a = Some m \<longrightarrow> int (length f) \<le> m)"

lemma check_frame_budget_iff: "check_frame_budget a (length f) = Inr u \<longleftrightarrow> frame_fits a f"
  by (auto simp: check_frame_budget_def frame_fits_def split: option.splits)

lemma fill_ok: "fill a = (a', None) \<Longrightarrow> acquisition_ok a \<Longrightarrow> acquisition_ok a'"
  using fill_None(5) [of a a']
  by (auto simp: acquisition_ok_def fill_def Let_def split: if_splits option.splits)

lemma next_frame_Some:
  assumes "next_frame a after_completion = (a', Inr (Some f))"
  shows "stream_pending a = f @ PROTOCOL_FRAME_TERMINATOR # stream_pending a' \<and>
    PROTOCOL_FRAME_TERMINATOR \<notin> set f \<and> frame_fits a f \<and> (acquisition_ok a \<longrightarrow> acquisition_ok a') \<and>
    fa_bytes_received a' + int (length (fa_reader a')) =
      fa_bytes_received a + int (length (fa_reader a)) \<and>
    fa_max_frame_bytes a' = fa_max_frame_bytes a \<and> fa_max_total_bytes a' = fa_max_total_bytes a"
  using assms
proof (induction a after_completion rule: next_frame.induct)
  case (1 a after_completion)
  show ?case
  proof (cases "find_frame (fa_buffer a)")
    case (Some p)
    obtain g r where p: "p = (g, r)" by (cases p)
    let ?a = "a\<lparr>fa_buffer := r\<rparr>"
    from 1(2) Some p have "check_frame_budget ?a (length g) = Inr ()" "a' = ?a" "f = g"
      by (auto simp: next_frame.simps [of a] Let_def split: sum.splits)
    moreover have "frame_fits ?a g = frame_fits a g" by (simp add: frame_fits_def)
    ultimately show ?thesis
      using find_frame_Some [of "fa_buffer a" g r] Some p
      by (auto simp: check_frame_budget_iff stream_pending_def acquisition_ok_def)
  next
    case None
    from 1(2) None have "\<not> fa_at_eof a" "check_frame_budget a (length (fa_buffer a)) = Inr ()"
      by (auto simp: next_frame.simps [of a] split: sum.splits if_splits)
    moreover obtain b r where b: "fill a = (b, r)" by (cases "fill a")
    moreover from calculation None 1(2) have "r = None" "next_frame b after_completion = (a', Inr (Some f))"
      by (auto simp: next_frame.simps [of a] split: sum.splits option.splits)
    ultimately show ?thesis
      using 1(1) [OF None _ _ b [symmetric]] fill_None [of a b] fill_ok [of a b]
      by (auto simp: frame_fits_def)
  qed
qed

lemma next_frame_end:
  assumes "next_frame a after_completion = (a', Inr None)" and "acquisition_ok a"
  shows "stream_pending a = [] \<and> fa_reader a' = [] \<and> acquisition_ok a' \<and>
    fa_bytes_received a' = fa_bytes_received a + int (length (fa_reader a)) \<and>
    fa_max_total_bytes a' = fa_max_total_bytes a"
  using assms
proof (induction a after_completion rule: next_frame.induct)
  case (1 a after_completion)
  from 1(2) have none: "find_frame (fa_buffer a) = None"
    and fits: "check_frame_budget a (length (fa_buffer a)) = Inr ()"
    by (auto simp: next_frame.simps [of a] Let_def split: sum.splits option.splits)
  show ?case
  proof (cases "fa_at_eof a")
    case True
    with 1(2,3) none fits show ?thesis
      by (auto simp: next_frame.simps [of a] stream_pending_def acquisition_ok_def split: if_splits)
  next
    case False
    obtain b r where b: "fill a = (b, r)" by (cases "fill a")
    from 1(2) none fits False b have "r = None" "next_frame b after_completion = (a', Inr None)"
      by (auto simp: next_frame.simps [of a] split: option.splits)
    with 1(1) [OF none fits False b [symmetric]] b fill_None [of a b] fill_ok [of a b] 1(3)
    show ?thesis by auto
  qed
qed

text \<open>The byte count never passes the total budget by more than the one byte that shows it.\<close>

lemma fill_received:
  assumes "fill a = (a', r)" and "fa_max_total_bytes a = Some m" and "fa_bytes_received a \<le> m"
  shows "fa_bytes_received a' \<le> m + 1" and "fa_max_total_bytes a' = Some m"
    and "r = None \<Longrightarrow> fa_bytes_received a' \<le> m"
proof -
  have "read_size a \<le> max 1 (m + 1 - fa_bytes_received a)"
    using assms(2) by (simp add: read_size_def)
  then have "int (length (take (nat (read_size a)) (fa_reader a))) \<le> m + 1 - fa_bytes_received a"
    using assms(3) by simp
  with assms show "fa_bytes_received a' \<le> m + 1" "fa_max_total_bytes a' = Some m"
    "r = None \<Longrightarrow> fa_bytes_received a' \<le> m"
    by (auto simp: fill_def Let_def split: if_splits)
qed

lemma next_frame_received:
  assumes "next_frame a after_completion = (a', r)" and "fa_max_total_bytes a = Some m"
    and "fa_bytes_received a \<le> m"
  shows "fa_bytes_received a' \<le> m + 1"
  using assms
proof (induction a after_completion rule: next_frame.induct)
  case (1 a after_completion)
  show ?case
  proof (cases "find_frame (fa_buffer a) = None \<and> \<not> fa_at_eof a \<and>
      check_frame_budget a (length (fa_buffer a)) = Inr ()")
    case False
    with 1(2-) show ?thesis
      by (auto simp: next_frame.simps [of a] Let_def split: sum.splits option.splits if_splits)
  next
    case True
    obtain b q where b: "fill a = (b, q)" by (cases "fill a")
    show ?thesis
    proof (cases q)
      case None
      with True 1(2) b have "next_frame b after_completion = (a', r)"
        by (simp add: next_frame.simps [of a])
      with 1(1) True b None fill_received [OF b 1(3,4)] show ?thesis by auto
    next
      case (Some v)
      with True 1(2) b have "a' = b" by (simp add: next_frame.simps [of a])
      with fill_received [OF b 1(3,4)] show ?thesis by simp
    qed
  qed
qed

function read_loop ::
  "frame_codec \<Rightarrow> int option \<Rightarrow> FrameAcquisition \<Rightarrow> StreamState \<Rightarrow>
     FrameAcquisition \<times> StreamState \<times> ProtocolFailure option" where
  "read_loop c max_depth a s =
     (case next_frame a (st_completed s) of
        (a', Inl v) \<Rightarrow> (a', s, Some v)
      | (a', Inr None) \<Rightarrow> (a', s, finish s)
      | (a', Inr (Some frame_bytes)) \<Rightarrow>
          (if st_completed s
           then (a', s, Some (violation ProtocolFailureCode.UNEXPECTED_FRAME
             ''bytes arrived after the completion frame''))
           else (case decode_frame c frame_bytes (effective_depth c max_depth) of
               Inl v \<Rightarrow> (a', s, Some v)
             | Inr frame \<Rightarrow>
                 (case accept s frame of
                    (s', Some v) \<Rightarrow> (a', s', Some v)
                  | (s', None) \<Rightarrow> read_loop c max_depth a' s'))))"
  by pat_completeness auto
termination
proof (relation "measure (\<lambda>(_, _, a, _). length (stream_pending a))", goal_cases)
  case 1
  then show ?case by simp
next
  case 2
  then show ?case by (auto dest!: next_frame_Some [OF sym])
qed

declare read_loop.simps [simp del]

definition read_protocol_stream ::
  "frame_codec \<Rightarrow> bytes \<Rightarrow> string \<Rightarrow> ExecutorSelfBudgets \<Rightarrow> ProtocolStreamResult" where
  "read_protocol_stream c reader request_id_sha256 self_budgets =
     (let acquisition = \<lparr>fa_reader = reader,
            fa_max_frame_bytes = byte_limit (protocol_frame_bytes self_budgets),
            fa_max_total_bytes = byte_limit (protocol_total_bytes self_budgets),
            fa_buffer = [], fa_at_eof = False, fa_bytes_received = 0\<rparr>;
          state = \<lparr>st_request_id_sha256 = request_id_sha256,
            st_max_output_count = count_limit (protocol_output_count self_budgets),
            st_outputs = [], st_prelude_seen = False, st_completed = False\<rparr>
      in case read_loop c (count_limit (json_depth self_budgets)) acquisition state of
           (a, s, failure) \<Rightarrow>
             \<lparr>psr_outputs = st_outputs s, psr_bytes_received = fa_bytes_received a,
              psr_failure = failure\<rparr>)"

section \<open>A reference reader over the whole stream\<close>

text \<open>
  The reference cuts the complete stream at the terminators first and then runs the frames
  through the state machine. The chunked, budgeted reader is proved to agree with it on every
  stream that fits the byte budgets.
\<close>

definition framed :: "bytes list \<Rightarrow> bytes" where
  "framed fs = concat (map (\<lambda>f. f @ [PROTOCOL_FRAME_TERMINATOR]) fs)"

definition stream_frames :: "bytes \<Rightarrow> bytes list" where
  "stream_frames bs = butlast (split_on PROTOCOL_FRAME_TERMINATOR bs)"

definition stream_trailing :: "bytes \<Rightarrow> bytes" where
  "stream_trailing bs = last (split_on PROTOCOL_FRAME_TERMINATOR bs)"

fun ref_read ::
  "frame_codec \<Rightarrow> int \<Rightarrow> StreamState \<Rightarrow> bytes list \<Rightarrow> bytes \<Rightarrow>
     StreamState \<times> ProtocolFailure option" where
  "ref_read c d s [] trailing =
     (s, if trailing = [] then finish s
         else Some (if st_completed s
           then violation ProtocolFailureCode.UNEXPECTED_FRAME ''bytes arrived after the completion frame''
           else violation ProtocolFailureCode.INCOMPLETE_STREAM ''stream ended without a terminating LF''))"
| "ref_read c d s (f # fs) trailing =
     (if st_completed s
      then (s, Some (violation ProtocolFailureCode.UNEXPECTED_FRAME
        ''bytes arrived after the completion frame''))
      else (case decode_frame c f d of
          Inl v \<Rightarrow> (s, Some v)
        | Inr frame \<Rightarrow>
            (case accept s frame of
               (s', Some v) \<Rightarrow> (s', Some v)
             | (s', None) \<Rightarrow> ref_read c d s' fs trailing)))"

definition total_fits :: "FrameAcquisition \<Rightarrow> bool" where
  "total_fits a =
     (\<forall>m. fa_max_total_bytes a = Some m \<longrightarrow> fa_bytes_received a + int (length (fa_reader a)) \<le> m)"

lemma split_framed:
  "\<forall>f\<in>set fs. PROTOCOL_FRAME_TERMINATOR \<notin> set f \<Longrightarrow> PROTOCOL_FRAME_TERMINATOR \<notin> set t \<Longrightarrow>
     split_on PROTOCOL_FRAME_TERMINATOR (framed fs @ t) = fs @ [t]"
  by (induction fs) (auto simp: framed_def split_on_append split_on_single)

lemma framed_split: "framed (stream_frames bs) @ stream_trailing bs = bs"
proof -
  have "framed (butlast ps) @ last ps = join_with PROTOCOL_FRAME_TERMINATOR ps" if "ps \<noteq> []" for ps
    using that
    by (induction PROTOCOL_FRAME_TERMINATOR ps rule: join_with.induct) (auto simp: framed_def)
  from this [of "split_on PROTOCOL_FRAME_TERMINATOR bs"] show ?thesis
    by (simp add: stream_frames_def stream_trailing_def)
qed

lemma stream_parts:
  "f \<in> set (stream_frames bs) \<Longrightarrow> PROTOCOL_FRAME_TERMINATOR \<notin> set f"
  "PROTOCOL_FRAME_TERMINATOR \<notin> set (stream_trailing bs)"
  unfolding stream_frames_def stream_trailing_def
  by (meson in_set_butlastD split_on_parts, meson last_in_set split_on_not_Nil split_on_parts)

lemma fill_fits:
  assumes "total_fits a" and "fill a = (b, r)"
  shows "r = None" and "total_fits b"
proof -
  have "int (length (take n (fa_reader a))) + int (length (drop n (fa_reader a))) =
      int (length (fa_reader a))" for n
    by (simp flip: of_nat_add)
  with assms show r: "r = None"
    by (fastforce simp: fill_def total_fits_def Let_def split: if_splits option.splits)
  with fill_None [of a b] assms show "total_fits b" by (auto simp: total_fits_def)
qed

lemma next_frame_find:
  assumes "stream_pending a = f @ PROTOCOL_FRAME_TERMINATOR # rest"
    and "PROTOCOL_FRAME_TERMINATOR \<notin> set f" and "frame_fits a f" and "total_fits a"
    and "acquisition_ok a"
  shows "\<exists>a'. next_frame a after_completion = (a', Inr (Some f))"
  using assms
proof (induction a after_completion rule: next_frame.induct)
  case (1 a after_completion)
  show ?case
  proof (cases "find_frame (fa_buffer a)")
    case (Some p)
    obtain g r where p: "p = (g, r)" by (cases p)
    with Some find_frame_Some have
      "find_frame (stream_pending a) = Some (g, r @ fa_reader a)"
      by (force simp: stream_pending_def intro: find_frame_append)
    with find_frame_append [OF 1(3)] 1(2) have "g = f" by simp
    moreover have "check_frame_budget (a\<lparr>fa_buffer := r\<rparr>) (length f) = Inr ()"
      using 1(4) by (simp add: check_frame_budget_iff frame_fits_def)
    ultimately show ?thesis using Some p by (simp add: next_frame.simps [of a])
  next
    case None
    then have no: "PROTOCOL_FRAME_TERMINATOR \<notin> set (fa_buffer a)" by (simp add: find_frame_None)
    have "length (fa_buffer a) \<le> length f"
    proof (rule ccontr)
      assume "\<not> length (fa_buffer a) \<le> length f"
      with 1(2) have "fa_buffer a ! length f = PROTOCOL_FRAME_TERMINATOR"
        by (metis not_le_imp_less nth_append nth_append_length stream_pending_def)
      with no \<open>\<not> length (fa_buffer a) \<le> length f\<close> show False
        by (metis not_le_imp_less nth_mem)
    qed
    with 1(4) have fits: "check_frame_budget a (length (fa_buffer a)) = Inr ()"
      unfolding check_frame_budget_iff by (auto simp: frame_fits_def)
    have eof: "\<not> fa_at_eof a"
      using 1(2,6) no by (auto simp: acquisition_ok_def stream_pending_def)
    obtain b r where b: "fill a = (b, r)" by (cases "fill a")
    note r = fill_fits [OF 1(5) b]
    then have b': "fill a = (b, None)" using b by simp
    have "\<exists>a'. next_frame b after_completion = (a', Inr (Some f))"
      using 1(1) [OF None fits eof b [symmetric] r(1)] fill_None [OF b'] r(2)
        fill_ok [OF b' 1(6)] 1(2,3,4) by (auto simp: frame_fits_def)
    with None fits eof b' show ?thesis by (simp add: next_frame.simps [of a])
  qed
qed

lemma next_frame_trailing:
  assumes "stream_pending a = t" and "PROTOCOL_FRAME_TERMINATOR \<notin> set t" and "frame_fits a t"
    and "total_fits a" and "acquisition_ok a"
  shows "\<exists>a'. next_frame a after_completion = (a', if t = [] then Inr None
    else Inl (if after_completion
      then violation ProtocolFailureCode.UNEXPECTED_FRAME ''bytes arrived after the completion frame''
      else violation ProtocolFailureCode.INCOMPLETE_STREAM ''stream ended without a terminating LF''))"
  using assms
proof (induction a after_completion rule: next_frame.induct)
  case (1 a after_completion)
  have none: "find_frame (fa_buffer a) = None"
    using 1(2,3) by (auto simp: find_frame_None stream_pending_def)
  have fits: "check_frame_budget a (length (fa_buffer a)) = Inr ()"
    unfolding check_frame_budget_iff using 1(2,4) by (auto simp: frame_fits_def stream_pending_def)
  show ?case
  proof (cases "fa_at_eof a")
    case True
    with 1(2,6) have "fa_buffer a = t" by (simp add: acquisition_ok_def stream_pending_def)
    with none fits True show ?thesis by (auto simp: next_frame.simps [of a])
  next
    case False
    obtain b r where b: "fill a = (b, r)" by (cases "fill a")
    note r = fill_fits [OF 1(5) b]
    then have b': "fill a = (b, None)" using b by simp
    show ?thesis
      using 1(1) [OF none fits False b [symmetric] r(1)] fill_None [OF b'] r(2)
        fill_ok [OF b' 1(6)] 1(2,3,4) none fits False b'
      by (auto simp: frame_fits_def next_frame.simps [of a])
  qed
qed

lemma read_loop_ref:
  assumes "stream_pending a = framed fs @ t" and "\<forall>f\<in>set fs. PROTOCOL_FRAME_TERMINATOR \<notin> set f"
    and "PROTOCOL_FRAME_TERMINATOR \<notin> set t" and "\<forall>f\<in>set (t # fs). frame_fits a f"
    and "total_fits a" and "acquisition_ok a"
  shows "snd (read_loop c md a s) = ref_read c (effective_depth c md) s fs t"
  using assms
proof (induction fs arbitrary: a s)
  case Nil
  then obtain a' where "next_frame a (st_completed s) = (a', if t = [] then Inr None
    else Inl (if st_completed s
      then violation ProtocolFailureCode.UNEXPECTED_FRAME ''bytes arrived after the completion frame''
      else violation ProtocolFailureCode.INCOMPLETE_STREAM ''stream ended without a terminating LF''))"
    using next_frame_trailing [of a t "st_completed s"] by (auto simp: framed_def)
  then show ?case by (auto simp: read_loop.simps [of c md a s])
next
  case (Cons f fs)
  have p: "stream_pending a = f @ PROTOCOL_FRAME_TERMINATOR # (framed fs @ t)"
    using Cons.prems(1) by (simp add: framed_def)
  with Cons.prems obtain a' where a': "next_frame a (st_completed s) = (a', Inr (Some f))"
    using next_frame_find [OF p, of "st_completed s"] by auto
  note N = next_frame_Some [OF a']
  have "total_fits a'" "acquisition_ok a'" "\<forall>f\<in>set (t # fs). frame_fits a' f"
    "stream_pending a' = framed fs @ t"
    using N p Cons.prems by (auto simp: total_fits_def frame_fits_def)
  with Cons.IH [of a'] Cons.prems a' show ?case
    by (auto simp: read_loop.simps [of c md a s] split: sum.splits prod.splits option.splits)
qed


section \<open>The conversation a stream carries\<close>

text \<open>The frames of a successful stream, and the outputs from a sequence number on.\<close>

definition output_frames :: "nat \<Rightarrow> identity_document list \<Rightarrow> ProtocolFrame list" where
  "output_frames n docs = map (\<lambda>(i, d). ProtocolOutput (int i) d) (enumerate n docs)"

definition conversation :: "string \<Rightarrow> identity_document list \<Rightarrow> ProtocolFrame list" where
  "conversation digest docs =
     ProtocolPrelude digest # output_frames 0 docs @ [ProtocolComplete (int (length docs))]"

fun frame_documents :: "ProtocolFrame list \<Rightarrow> identity_document list" where
  "frame_documents [] = []"
| "frame_documents (ProtocolOutput _ d # fs) = d # frame_documents fs"
| "frame_documents (_ # fs) = frame_documents fs"

text \<open>The accepted frames of a prefix of the stream.\<close>

fun run_frames :: "frame_codec \<Rightarrow> int \<Rightarrow> StreamState \<Rightarrow> bytes list \<Rightarrow> StreamState option" where
  "run_frames c d s [] = Some s"
| "run_frames c d s (f # fs) =
     (if st_completed s then None
      else (case decode_frame c f d of
          Inl _ \<Rightarrow> None
        | Inr frame \<Rightarrow>
            (case accept s frame of
               (s', None) \<Rightarrow> run_frames c d s' fs
             | (_, Some _) \<Rightarrow> None)))"

lemma accept_raise_keeps_outputs: "accept s frame = (s', Some v) \<Longrightarrow> st_outputs s' = st_outputs s"
  by (cases frame) (auto simp: accept_prelude_def accept_output_def accept_complete_def Let_def
      split: if_splits sum.splits option.splits)

lemma accept_outputs:
  "accept s frame = (s', None) \<Longrightarrow> st_outputs s' = st_outputs s @ frame_documents [frame]"
  by (cases frame) (auto simp: accept_prelude_def accept_output_def accept_complete_def Let_def
      split: if_splits sum.splits option.splits)

lemma accept_count:
  assumes "accept s frame = (s', None)" and "st_max_output_count s = Some m"
    and "int (length (st_outputs s)) \<le> m"
  shows "int (length (st_outputs s')) \<le> m" and "st_max_output_count s' = Some m"
  using assms by (cases frame; auto simp: accept_prelude_def accept_output_def accept_complete_def Let_def
      split: if_splits sum.splits)+

lemma run_frames_documents:
  "run_frames c d s fs = Some s' \<Longrightarrow>
     \<exists>frames. map (\<lambda>f. decode_frame c f d) fs = map Inr frames \<and>
       st_outputs s' = st_outputs s @ frame_documents frames"
proof (induction fs arbitrary: s)
  case Nil
  then show ?case by (auto intro: exI [of _ "[]"])
next
  case (Cons f fs)
  then obtain frame t where f: "decode_frame c f d = Inr frame" "accept s frame = (t, None)"
    "run_frames c d t fs = Some s'"
    by (auto split: if_splits sum.splits prod.splits option.splits)
  from Cons.IH [OF f(3)] obtain frames where
    "map (\<lambda>f. decode_frame c f d) fs = map Inr frames"
    "st_outputs s' = st_outputs t @ frame_documents frames" by blast
  with f(1) accept_outputs [OF f(2)] show ?case
    by (intro exI [of _ "frame # frames"]) (cases frame; simp)
qed

lemma read_loop_prefix:
  assumes "read_loop c md a s = (a', s', fl)" and "acquisition_ok a"
  shows "\<exists>fs rest t. stream_pending a = framed fs @ rest \<and>
    (\<forall>f\<in>set fs. PROTOCOL_FRAME_TERMINATOR \<notin> set f \<and> frame_fits a f) \<and>
    run_frames c (effective_depth c md) s fs = Some t \<and> st_outputs s' = st_outputs t \<and>
    (fl = None \<longrightarrow> rest = [] \<and> s' = t \<and> st_completed t \<and> total_fits a \<and>
      fa_bytes_received a' = fa_bytes_received a + int (length (fa_reader a)))"
  using assms
proof (induction c md a s arbitrary: a' s' fl rule: read_loop.induct)
  case (1 c md a s)
  obtain b r where b: "next_frame a (st_completed s) = (b, r)" by fastforce
  show ?case
  proof (cases r)
    case (Inl v)
    with b 1(2) have "s' = s" "fl = Some v" by (auto simp: read_loop.simps [of c md a s])
    then show ?thesis
      by (intro exI [of _ "[]"] exI [of _ "stream_pending a"] exI [of _ s]) (simp add: framed_def)
  next
    case (Inr g)
    show ?thesis
    proof (cases g)
      case None
      with b Inr 1(2) have "s' = s" "fl = finish s" "a' = b" by (auto simp: read_loop.simps [of c md a s])
      moreover have "next_frame a (st_completed s) = (b, Inr None)" using b Inr None by simp
      note E = next_frame_end [OF this 1(3)]
      have "total_fits a"
        using E by (auto simp: total_fits_def acquisition_ok_def)
      ultimately show ?thesis using E
        by (intro exI [of _ "[]"] exI [of _ "[]"] exI [of _ s])
          (auto simp: framed_def finish_def split: if_splits)
    next
      case (Some f)
      have nf: "next_frame a (st_completed s) = (b, Inr (Some f))" using b Inr Some by simp
      note N = next_frame_Some [OF nf]
      show ?thesis
      proof (cases "\<exists>frame t. \<not> st_completed s \<and>
          decode_frame c f (effective_depth c md) = Inr frame \<and> accept s frame = (t, None)")
        case False
        with nf 1(2) have "st_outputs s' = st_outputs s" "fl \<noteq> None"
          by (auto simp: read_loop.simps [of c md a s] dest: accept_raise_keeps_outputs
              split: if_splits sum.splits prod.splits option.splits)
        then show ?thesis
          by - (rule exI [of _ "[]"], rule exI [of _ "stream_pending a"], rule exI [of _ s],
            auto simp: framed_def)
      next
        case True
        then obtain frame t where open': "\<not> st_completed s"
          and d: "decode_frame c f (effective_depth c md) = Inr frame"
          and t: "accept s frame = (t, None)" by blast
        from nf 1(2) open' d t have "read_loop c md b t = (a', s', fl)"
          by (simp add: read_loop.simps [of c md a s])
        from 1(1) [OF nf [symmetric] refl refl open' d t [symmetric] refl this] N 1(3) obtain fs rest u where
          F: "stream_pending b = framed fs @ rest"
          "\<forall>f\<in>set fs. PROTOCOL_FRAME_TERMINATOR \<notin> set f \<and> frame_fits b f"
          "run_frames c (effective_depth c md) t fs = Some u" "st_outputs s' = st_outputs u"
          "fl = None \<longrightarrow> rest = [] \<and> s' = u \<and> st_completed u \<and> total_fits b \<and>
            fa_bytes_received a' = fa_bytes_received b + int (length (fa_reader b))"
          by blast
        show ?thesis
          by (rule exI [of _ "f # fs"], rule exI [of _ rest], rule exI [of _ u])
            (use F N open' d t in \<open>auto simp: framed_def frame_fits_def total_fits_def\<close>)
      qed
    qed
  qed
qed


text \<open>The state machine accepts exactly the conversations.\<close>

lemma output_frames_Cons:
  "output_frames n (d # docs) = ProtocolOutput (int n) d # output_frames (Suc n) docs"
  by (simp add: output_frames_def)

definition count_fits :: "StreamState \<Rightarrow> nat \<Rightarrow> bool" where
  "count_fits s n = (\<forall>m. st_max_output_count s = Some m \<longrightarrow> int n \<le> m)"

lemma accept_open:
  assumes "st_prelude_seen s" and "\<not> st_completed s"
  shows "accept s frame = (s', None) \<longleftrightarrow>
    (\<exists>doc. frame = ProtocolOutput (int (length (st_outputs s))) doc \<and>
      count_fits s (Suc (length (st_outputs s))) \<and> s' = s\<lparr>st_outputs := st_outputs s @ [doc]\<rparr>) \<or>
    frame = ProtocolComplete (int (length (st_outputs s))) \<and> s' = s\<lparr>st_completed := True\<rparr>"
  using assms
  by (cases frame) (auto simp: accept_prelude_def accept_output_def accept_complete_def
      require_open_def count_fits_def split: option.splits if_splits)

lemma run_frames_completed: "st_completed s \<Longrightarrow> run_frames c d s fs = Some s' \<longleftrightarrow> fs = [] \<and> s' = s"
  by (cases fs) auto

lemma run_frames_open:
  assumes "st_prelude_seen s" and "\<not> st_completed s"
  shows "run_frames c d s fs = Some s' \<and> st_completed s' \<longleftrightarrow>
    (\<exists>docs. map (\<lambda>f. decode_frame c f d) fs = map Inr (output_frames (length (st_outputs s)) docs @
        [ProtocolComplete (int (length (st_outputs s) + length docs))]) \<and>
      (docs = [] \<or> count_fits s (length (st_outputs s) + length docs)) \<and>
      s' = s\<lparr>st_outputs := st_outputs s @ docs, st_completed := True\<rparr>)"
  (is "?L s fs \<longleftrightarrow> (\<exists>docs. ?R s fs docs)")
  using assms
proof (induction fs arbitrary: s)
  case Nil
  then show ?case by auto
next
  case (Cons f fs)
  let ?n = "length (st_outputs s)"
  let ?grow = "\<lambda>doc. s\<lparr>st_outputs := st_outputs s @ [doc]\<rparr>"
  have step: "?L s (f # fs) \<longleftrightarrow>
      (\<exists>doc. decode_frame c f d = Inr (ProtocolOutput (int ?n) doc) \<and> count_fits s (Suc ?n) \<and>
        ?L (?grow doc) fs) \<or>
      decode_frame c f d = Inr (ProtocolComplete (int ?n)) \<and> fs = [] \<and>
        s' = s\<lparr>st_completed := True\<rparr>"
  proof -
    have "?L s (f # fs) \<longleftrightarrow> (\<exists>frame t. decode_frame c f d = Inr frame \<and>
        accept s frame = (t, None) \<and> ?L t fs)"
      using Cons.prems by (auto split: sum.splits prod.splits option.splits)
    also have "\<dots> \<longleftrightarrow>
      (\<exists>doc. decode_frame c f d = Inr (ProtocolOutput (int ?n) doc) \<and> count_fits s (Suc ?n) \<and>
        ?L (?grow doc) fs) \<or>
      decode_frame c f d = Inr (ProtocolComplete (int ?n)) \<and> ?L (s\<lparr>st_completed := True\<rparr>) fs"
      unfolding accept_open [OF Cons.prems] by blast
    also have "?L (s\<lparr>st_completed := True\<rparr>) fs \<longleftrightarrow> fs = [] \<and> s' = s\<lparr>st_completed := True\<rparr>"
      by (auto simp: run_frames_completed)
    finally show ?thesis .
  qed
  have IH: "?L (?grow doc) fs \<longleftrightarrow> (\<exists>docs. ?R (?grow doc) fs docs)" for doc
    using Cons.IH [of "?grow doc"] Cons.prems by simp
  show ?case
  proof
    assume "?L s (f # fs)"
    with step consider doc where "decode_frame c f d = Inr (ProtocolOutput (int ?n) doc)"
        "count_fits s (Suc ?n)" "?L (?grow doc) fs"
      | "decode_frame c f d = Inr (ProtocolComplete (int ?n))" "fs = []" "s' = s\<lparr>st_completed := True\<rparr>"
      by blast
    then show "\<exists>docs. ?R s (f # fs) docs"
    proof cases
      case (1 doc)
      from 1(3) IH obtain docs where "?R (?grow doc) fs docs" by blast
      with 1(1,2) have "?R s (f # fs) (doc # docs)"
        by (auto simp: output_frames_Cons count_fits_def)
      then show ?thesis by blast
    next
      case 2
      then have "?R s (f # fs) []" by (simp add: output_frames_def)
      then show ?thesis by blast
    qed
  next
    assume "\<exists>docs. ?R s (f # fs) docs"
    then obtain docs where R: "?R s (f # fs) docs" by blast
    show "?L s (f # fs)"
    proof (cases docs)
      case Nil
      with R show ?thesis unfolding step by (auto simp: output_frames_def)
    next
      case (Cons doc rest)
      with R have "?R (?grow doc) fs rest" "decode_frame c f d = Inr (ProtocolOutput (int ?n) doc)"
        "count_fits s (Suc ?n)"
        by (auto simp: output_frames_Cons count_fits_def)
      with IH show ?thesis unfolding step by blast
    qed
  qed
qed


definition initial_acquisition :: "ExecutorSelfBudgets \<Rightarrow> bytes \<Rightarrow> FrameAcquisition" where
  "initial_acquisition b reader =
     \<lparr>fa_reader = reader, fa_max_frame_bytes = byte_limit (protocol_frame_bytes b),
      fa_max_total_bytes = byte_limit (protocol_total_bytes b), fa_buffer = [],
      fa_at_eof = False, fa_bytes_received = 0\<rparr>"

definition initial_state :: "ExecutorSelfBudgets \<Rightarrow> string \<Rightarrow> StreamState" where
  "initial_state b digest =
     \<lparr>st_request_id_sha256 = digest, st_max_output_count = count_limit (protocol_output_count b),
      st_outputs = [], st_prelude_seen = False, st_completed = False\<rparr>"

lemma read_protocol_stream_loop:
  "read_protocol_stream c bs digest b =
     (case read_loop c (count_limit (json_depth b)) (initial_acquisition b bs)
         (initial_state b digest) of
        (a, s, failure) \<Rightarrow> \<lparr>psr_outputs = st_outputs s, psr_bytes_received = fa_bytes_received a,
          psr_failure = failure\<rparr>)"
  by (simp add: read_protocol_stream_def initial_acquisition_def initial_state_def)

lemma positive_limitD: "positive_limit amount b \<Longrightarrow> limit_of amount b = Some m \<Longrightarrow> 0 < m"
  by (cases b) (auto simp: positive_limit_def)

lemma initial_acquisition_ok:
  assumes "ExecutorSelfBudgets_ok b"
  shows "acquisition_ok (initial_acquisition b bs)"
  using assms positive_limitD [of fb_max_bytes "protocol_total_bytes b"]
  by (force simp: acquisition_ok_def initial_acquisition_def ExecutorSelfBudgets_ok_def)

text \<open>The byte budgets a stream has to fit.\<close>

definition byte_budgets_fit :: "ExecutorSelfBudgets \<Rightarrow> bytes \<Rightarrow> bool" where
  "byte_budgets_fit b bs =
     ((\<forall>m. byte_limit (protocol_total_bytes b) = Some m \<longrightarrow> int (length bs) \<le> m) \<and>
      (\<forall>m. byte_limit (protocol_frame_bytes b) = Some m \<longrightarrow>
        (\<forall>f\<in>set (split_on PROTOCOL_FRAME_TERMINATOR bs). int (length f) \<le> m)))"

lemma split_stream_parts:
  "set (split_on PROTOCOL_FRAME_TERMINATOR bs) = set (stream_trailing bs # stream_frames bs)"
proof -
  have "split_on PROTOCOL_FRAME_TERMINATOR bs = stream_frames bs @ [stream_trailing bs]"
    unfolding stream_frames_def stream_trailing_def by simp
  then show ?thesis by (metis list.set(1,2) set_append sup_commute insert_is_Un)
qed

lemma read_loop_initial_ref:
  assumes "ExecutorSelfBudgets_ok b" and "byte_budgets_fit b bs"
  shows "snd (read_loop c (count_limit (json_depth b)) (initial_acquisition b bs) s) =
    ref_read c (effective_depth c (count_limit (json_depth b))) s (stream_frames bs) (stream_trailing bs)"
proof (rule read_loop_ref)
  show "stream_pending (initial_acquisition b bs) = framed (stream_frames bs) @ stream_trailing bs"
    by (simp add: framed_split stream_pending_def initial_acquisition_def)
  show "\<forall>f\<in>set (stream_trailing bs # stream_frames bs). frame_fits (initial_acquisition b bs) f"
    using assms(2) unfolding byte_budgets_fit_def split_stream_parts
    by (auto simp: frame_fits_def initial_acquisition_def)
  show "total_fits (initial_acquisition b bs)"
    using assms(2) by (simp add: total_fits_def initial_acquisition_def byte_budgets_fit_def)
qed (use initial_acquisition_ok [OF assms(1)] stream_parts in auto)

lemma accept_initial:
  "accept (initial_state b digest) frame = (s', None) \<longleftrightarrow>
     frame = ProtocolPrelude digest \<and> s' = (initial_state b digest)\<lparr>st_prelude_seen := True\<rparr>"
  by (cases frame) (auto simp: accept_prelude_def accept_output_def accept_complete_def
      require_open_def initial_state_def Let_def split: if_splits)

lemma run_frames_initial:
  assumes "ExecutorSelfBudgets_ok b"
  shows "run_frames c d (initial_state b digest) fs = Some s' \<and> st_completed s' \<longleftrightarrow>
    (\<exists>docs. map (\<lambda>f. decode_frame c f d) fs = map Inr (conversation digest docs) \<and>
      count_fits (initial_state b digest) (length docs) \<and>
      s' = (initial_state b digest)\<lparr>st_prelude_seen := True, st_outputs := docs, st_completed := True\<rparr>)"
proof (cases fs)
  case Nil
  then show ?thesis by (auto simp: initial_state_def conversation_def)
next
  case (Cons f gs)
  let ?s = "(initial_state b digest)\<lparr>st_prelude_seen := True\<rparr>"
  have open': "st_prelude_seen ?s" "\<not> st_completed ?s" by (simp_all add: initial_state_def)
  have zero: "count_fits (initial_state b digest) 0"
    using assms positive_limitD [of fc_max_count "protocol_output_count b"]
    by (force simp: count_fits_def initial_state_def ExecutorSelfBudgets_ok_def)
  have "run_frames c d (initial_state b digest) (f # gs) = Some s' \<longleftrightarrow>
      decode_frame c f d = Inr (ProtocolPrelude digest) \<and> run_frames c d ?s gs = Some s'"
  proof (cases "decode_frame c f d")
    case (Inr frame)
    obtain t r where t: "accept (initial_state b digest) frame = (t, r)" by fastforce
    have "\<not> st_completed (initial_state b digest)" by (simp add: initial_state_def)
    with Inr t accept_initial [of b digest frame t] accept_initial [of b digest frame ?s]
    show ?thesis by (cases r) auto
  qed simp
  with run_frames_open [OF open', of c d gs s'] zero show ?thesis
    by (auto simp: Cons conversation_def initial_state_def count_fits_def)
qed

lemma ref_read_run:
  "run_frames c d s fs = Some s' \<Longrightarrow> st_completed s' \<Longrightarrow> ref_read c d s fs [] = (s', None)"
  by (induction fs arbitrary: s)
    (auto simp: finish_def split: if_splits sum.splits prod.splits option.splits)


lemma run_frames_count:
  "run_frames c d s fs = Some s' \<Longrightarrow> st_max_output_count s = Some m \<Longrightarrow>
     int (length (st_outputs s)) \<le> m \<Longrightarrow> int (length (st_outputs s')) \<le> m"
proof (induction fs arbitrary: s)
  case (Cons f fs)
  then obtain frame t where "accept s frame = (t, None)" "run_frames c d t fs = Some s'"
    by (auto split: if_splits sum.splits prod.splits option.splits)
  with accept_count [of s frame t m] Cons show ?case by blast
qed simp

lemma read_loop_received:
  assumes "read_loop c md a s = (a', s', fl)" and "acquisition_ok a"
    and "fa_max_total_bytes a = Some m"
  shows "fa_bytes_received a' \<le> m + 1"
  using assms
proof (induction c md a s arbitrary: a' s' fl rule: read_loop.induct)
  case (1 c md a s)
  obtain b r where b: "next_frame a (st_completed s) = (b, r)" by fastforce
  have le: "fa_bytes_received b \<le> m + 1"
    using next_frame_received [OF b 1(4)] 1(3,4) by (auto simp: acquisition_ok_def)
  show ?case
  proof (cases "\<exists>f frame t. r = Inr (Some f) \<and> \<not> st_completed s \<and>
      decode_frame c f (effective_depth c md) = Inr frame \<and> accept s frame = (t, None)")
    case False
    with b 1(2) le show ?thesis
      by (auto simp: read_loop.simps [of c md a s]
          split: if_splits sum.splits prod.splits option.splits)
  next
    case True
    then obtain f frame t where f: "r = Inr (Some f)" "\<not> st_completed s"
      "decode_frame c f (effective_depth c md) = Inr frame" "accept s frame = (t, None)" by blast
    with b have nf: "next_frame a (st_completed s) = (b, Inr (Some f))" by simp
    from nf 1(2) f have "read_loop c md b t = (a', s', fl)"
      by (simp add: read_loop.simps [of c md a s])
    from 1(1) [OF nf [symmetric] refl refl f(2,3) f(4) [symmetric] refl this] next_frame_Some [OF nf] 1(3,4)
    show ?thesis by simp
  qed
qed

text \<open>A codec of tagged bytes, for concrete streams.\<close>

definition tag_codec :: frame_codec where
  "tag_codec = \<lparr>decode_strict = (\<lambda>bs _ _. Inr (JList (map (\<lambda>b. JInt (uint b)) bs))),
     canonical_bytes = (\<lambda>v. case v of JList xs \<Rightarrow>
       map (\<lambda>x. case x of JInt i \<Rightarrow> word_of_int i | _ \<Rightarrow> 0) xs | _ \<Rightarrow> []),
     validate_frame = (\<lambda>bs. case bs of
         [t, n] \<Rightarrow> if t = 1 then Some (ProtocolPrelude ''d'', True)
           else if t = 2 then Some (ProtocolOutput (uint n)
             \<lparr>doc_schema = ''s'', doc_schema_version = 1, doc_payload = JNull\<rparr>, True)
           else Some (ProtocolComplete (uint n), True)
       | _ \<Rightarrow> None),
     depth_ceiling = 8\<rparr>"

lemma tag_codec_decode:
  "decode_frame tag_codec bs d =
     (case validate_frame tag_codec bs of
        None \<Rightarrow> Inl (violation ProtocolFailureCode.MALFORMED_FRAME ''frame is not a valid protocol frame'')
      | Some (frame, _) \<Rightarrow> Inr frame)"
  by (auto simp: decode_frame_def require_canonical_json_bytes_def tag_codec_def o_def
      split: list.splits option.splits)

lemma tag_codec_frames:
  "decode_frame tag_codec [1, 0] d = Inr (ProtocolPrelude ''d'')"
  "decode_frame tag_codec [2, 0] d = Inr (ProtocolOutput 0
     \<lparr>doc_schema = ''s'', doc_schema_version = 1, doc_payload = JNull\<rparr>)"
  "decode_frame tag_codec [3, 1] d = Inr (ProtocolComplete 1)"
  unfolding tag_codec_decode by (simp_all add: tag_codec_def)

definition small_budgets :: ExecutorSelfBudgets where
  "small_budgets = ExecutorSelfBudgets_default\<lparr>protocol_frame_bytes := Finite \<lparr>fb_max_bytes = 2\<rparr>,
     protocol_total_bytes := Finite \<lparr>fb_max_bytes = 9\<rparr>,
     protocol_output_count := Finite \<lparr>fc_max_count = 1\<rparr>\<rparr>"

lemma small_budgets_ok: "ExecutorSelfBudgets_ok small_budgets"
  by (simp add: ExecutorSelfBudgets_ok_def ExecutorSelfBudgets_default_def small_budgets_def
      positive_limit_def)

section \<open>Properties\<close>


text \<open>
  C1: a stream is read without failure and yields the outputs \<open>docs\<close> exactly when it is
  the framing of a prelude that binds the request, the outputs numbered from zero and a
  completion with their count, and it fits every budget; all its bytes were then received.
\<close>

theorem stream_accepted_iff:
  assumes "ExecutorSelfBudgets_ok b"
  shows "psr_failure (read_protocol_stream c bs digest b) = None \<and>
      psr_outputs (read_protocol_stream c bs digest b) = docs \<and>
      psr_bytes_received (read_protocol_stream c bs digest b) = int (length bs) \<longleftrightarrow>
    (\<exists>fs. bs = framed fs \<and> (\<forall>f\<in>set fs. PROTOCOL_FRAME_TERMINATOR \<notin> set f) \<and>
      map (\<lambda>f. decode_frame c f (effective_depth c (count_limit (json_depth b)))) fs =
        map Inr (conversation digest docs) \<and>
      byte_budgets_fit b bs \<and>
      (\<forall>m. count_limit (protocol_output_count b) = Some m \<longrightarrow> int (length docs) \<le> m))"
    (is "?L \<longleftrightarrow> (\<exists>fs. ?R fs)")
proof -
  let ?a = "initial_acquisition b bs" and ?s = "initial_state b digest"
    and ?d = "effective_depth c (count_limit (json_depth b))"
  obtain a' s' fl where loop: "read_loop c (count_limit (json_depth b)) ?a ?s = (a', s', fl)"
    by (cases "read_loop c (count_limit (json_depth b)) ?a ?s")
  then have res: "read_protocol_stream c bs digest b =
      \<lparr>psr_outputs = st_outputs s', psr_bytes_received = fa_bytes_received a', psr_failure = fl\<rparr>"
    by (simp add: read_protocol_stream_loop)
  note P = read_loop_prefix [OF loop initial_acquisition_ok [OF assms]]
  have pending: "stream_pending ?a = bs" by (simp add: stream_pending_def initial_acquisition_def)
  have positive: "byte_limit (protocol_frame_bytes b) = Some m \<Longrightarrow> 0 < m" for m
    using assms positive_limitD [of fb_max_bytes "protocol_frame_bytes b"]
    by (simp add: ExecutorSelfBudgets_ok_def)
  have fit: "byte_budgets_fit b (framed fs)"
    if "\<forall>f\<in>set fs. PROTOCOL_FRAME_TERMINATOR \<notin> set f \<and> frame_fits ?a f" "bs = framed fs" "total_fits ?a" for fs
    using that split_framed [of fs "[]"] positive
    by (auto simp: byte_budgets_fit_def frame_fits_def total_fits_def initial_acquisition_def
        dest: less_imp_le)
  show ?thesis
  proof
    assume ?L
    then have "fl = None" and docs: "st_outputs s' = docs" by (simp_all add: res)
    with P obtain fs where fs: "bs = framed fs"
      "\<forall>f\<in>set fs. PROTOCOL_FRAME_TERMINATOR \<notin> set f \<and> frame_fits ?a f"
      "run_frames c ?d ?s fs = Some s'" "st_completed s'" "total_fits ?a"
      unfolding pending by auto
    from fs(3,4) run_frames_initial [OF assms, of c ?d digest fs s'] docs
    have "map (\<lambda>f. decode_frame c f ?d) fs = map Inr (conversation digest docs)"
      "count_fits ?s (length docs)"
      by (auto simp: initial_state_def)
    with fs fit [OF fs(2,1,5)] show "\<exists>fs. ?R fs"
      by (intro exI [of _ fs]) (auto simp: count_fits_def initial_state_def)
  next
    assume "\<exists>fs. ?R fs"
    then obtain fs where fs: "?R fs" by blast
    let ?t = "?s\<lparr>st_prelude_seen := True, st_outputs := docs, st_completed := True\<rparr>"
    have "run_frames c ?d ?s fs = Some ?t \<and> st_completed ?t"
      unfolding run_frames_initial [OF assms] using fs
      by (intro exI [of _ docs]) (simp add: count_fits_def initial_state_def)
    then have "ref_read c ?d ?s fs [] = (?t, None)" by (intro ref_read_run) simp_all
    moreover have "stream_frames bs = fs" "stream_trailing bs = []"
      using split_framed [of fs "[]"] fs by (simp_all add: stream_frames_def stream_trailing_def)
    moreover have "byte_budgets_fit b bs" using fs by blast
    ultimately have "s' = ?t" "fl = None"
      using read_loop_initial_ref [OF assms, of bs c ?s] loop by simp_all
    with P show ?L by (auto simp: res initial_acquisition_def)
  qed
qed


theorem stream_accepted_iff_witness:
  "psr_failure (read_protocol_stream tag_codec (framed [[1, 0], [2, 0], [3, 1]]) ''d'' small_budgets) =
     None"
proof -
  let ?bs = "framed [[1, 0], [2, 0], [3, 1]]"
  let ?doc = "\<lparr>doc_schema = ''s'', doc_schema_version = 1, doc_payload = JNull\<rparr>"
  have fit: "byte_budgets_fit small_budgets ?bs"
    by (simp add: byte_budgets_fit_def small_budgets_def framed_def PROTOCOL_FRAME_TERMINATOR_def)
  have conv: "map (\<lambda>f. decode_frame tag_codec f d) [[1, 0], [2, 0], [3, 1]] =
      map Inr (conversation ''d'' [?doc])" for d
    by (simp add: tag_codec_frames conversation_def output_frames_def)
  have "\<exists>fs. ?bs = framed fs \<and> (\<forall>f\<in>set fs. PROTOCOL_FRAME_TERMINATOR \<notin> set f) \<and>
      map (\<lambda>f. decode_frame tag_codec f
        (effective_depth tag_codec (count_limit (json_depth small_budgets)))) fs =
        map Inr (conversation ''d'' [?doc]) \<and> byte_budgets_fit small_budgets ?bs \<and>
      (\<forall>m. count_limit (protocol_output_count small_budgets) = Some m \<longrightarrow> int (length [?doc]) \<le> m)"
    by (rule exI [of _ "[[1, 0], [2, 0], [3, 1]]"], intro conjI conv fit)
      (simp_all add: small_budgets_def PROTOCOL_FRAME_TERMINATOR_def)
  with stream_accepted_iff [OF small_budgets_ok, of tag_codec ?bs "''d''" "[?doc]"]
  show ?thesis by blast
qed


text \<open>
  C3: on any stream whatsoever the reader stays within its budgets and keeps what it
  accepted: at most one byte more than the total budget is ever received, at most the
  allowed number of outputs is kept, and the outputs are the documents of the output frames
  in a prefix of the stream's frames, each of which decodes and fits the frame budget, even
  when the stream then fails.
\<close>

theorem reader_respects_budgets:
  assumes "ExecutorSelfBudgets_ok b" and "r = read_protocol_stream c bs digest b"
  shows "(\<forall>m. byte_limit (protocol_total_bytes b) = Some m \<longrightarrow> psr_bytes_received r \<le> m + 1) \<and>
    (\<forall>m. count_limit (protocol_output_count b) = Some m \<longrightarrow> int (length (psr_outputs r)) \<le> m) \<and>
    (\<exists>fs rest frames. bs = framed fs @ rest \<and>
      (\<forall>f\<in>set fs. PROTOCOL_FRAME_TERMINATOR \<notin> set f \<and>
        (\<forall>m. byte_limit (protocol_frame_bytes b) = Some m \<longrightarrow> int (length f) \<le> m)) \<and>
      map (\<lambda>f. decode_frame c f (effective_depth c (count_limit (json_depth b)))) fs =
        map Inr frames \<and>
      psr_outputs r = frame_documents frames)"
proof -
  let ?a = "initial_acquisition b bs" and ?s = "initial_state b digest"
    and ?d = "effective_depth c (count_limit (json_depth b))"
  obtain a' s' fl where loop: "read_loop c (count_limit (json_depth b)) ?a ?s = (a', s', fl)"
    by (cases "read_loop c (count_limit (json_depth b)) ?a ?s")
  then have res: "r = \<lparr>psr_outputs = st_outputs s', psr_bytes_received = fa_bytes_received a',
      psr_failure = fl\<rparr>"
    by (simp add: read_protocol_stream_loop assms(2))
  note ok = initial_acquisition_ok [OF assms(1), of bs]
  from read_loop_prefix [OF loop ok] obtain fs rest t where
    bs: "bs = framed fs @ rest"
    and fits: "\<forall>f\<in>set fs. PROTOCOL_FRAME_TERMINATOR \<notin> set f \<and> frame_fits ?a f"
    and run: "run_frames c ?d ?s fs = Some t" "st_outputs s' = st_outputs t"
    by (auto simp: stream_pending_def initial_acquisition_def)
  have "int (length (st_outputs s')) \<le> m" if "count_limit (protocol_output_count b) = Some m" for m
    using run_frames_count [OF run(1), of m] that run(2)
      positive_limitD [of fc_max_count "protocol_output_count b" m] assms(1)
    by (simp add: initial_state_def ExecutorSelfBudgets_ok_def)
  moreover have "fa_bytes_received a' \<le> m + 1" if "byte_limit (protocol_total_bytes b) = Some m" for m
    using read_loop_received [OF loop ok, of m] that by (simp add: initial_acquisition_def)
  moreover from run_frames_documents [OF run(1)] obtain frames where
    "map (\<lambda>f. decode_frame c f ?d) fs = map Inr frames" "st_outputs t = frame_documents frames"
    by (auto simp: initial_state_def)
  ultimately show ?thesis
    using bs fits run(2) unfolding res
    by (auto simp: frame_fits_def initial_acquisition_def intro!: exI [of _ fs])
qed

theorem reader_respects_budgets_witness:
  "psr_bytes_received (read_protocol_stream tag_codec (replicate 50 1) ''d'' small_budgets) \<le> 10"
  using reader_respects_budgets [OF small_budgets_ok refl, of tag_codec "replicate 50 1" "''d''"]
  by (simp add: small_budgets_def)

end
