(* ===== verification/Scheduler.thy ===== *)
theory Scheduler
  imports Retention
begin

text \<open>
  The execution scheduler of \<^verbatim>\<open>scheduling/scheduler.py\<close>. Every method body runs under one
  condition lock, so a method is one atomic step; the threads of \<^verbatim>\<open>_workers\<close> are part of the
  state, each waiting for admitted work, running one admission, or gone. The cancel token
  of an admission is named by its ticket, and \<open>cancelled\<close> is the set of tokens that are set.
  A method that waits on the condition has a \<open>wait condition\<close> and a body that runs once it holds.
  The answers of the environment (whether a thread starts, what an executor returns or raises)
  are arguments of the operations and appear in the labels of the step relation.
\<close>

section \<open>State\<close>

datatype AdmissionResult = ADMITTED | INTAKE_CLOSED | NO_ROOM

record 'c Admitted =
  ad_ticket :: int
  ad_job :: ExecutionJob
  ad_context :: 'c

record 'c Completion =
  cp_ticket :: int
  cp_completed_execution :: CompletedExecution
  cp_context :: 'c

datatype 'c worker = Waiting | Running "'c Admitted" | Exited

record 'c ExecutionScheduler =
  capacity :: int
  pending :: "'c Admitted list"
  ready :: "'c Completion list"
  tokens :: "int list"
  cancelled :: "int set"
  workers :: "'c worker list"
  next_ticket :: int
  residents :: int
  running :: int
  intake_closed :: bool
  expired :: bool
  broken :: "py_exn option"

definition SchedulerBroken :: py_exn where
  "SchedulerBroken =
     ExecutorFailure ''the execution pool broke: its scheduling machinery failed''
       ExecutorFailureCode.SCHEDULER_BROKEN"

definition ExecutionScheduler_new :: "int \<Rightarrow> (py_exn, 'c ExecutionScheduler) result" where
  "ExecutionScheduler_new n =
     (if n < 1 then Inl (ValueError ''scheduler capacity must be positive'')
      else Inr \<lparr>capacity = n, pending = [], ready = [], tokens = [], cancelled = {}, workers = [],
        next_ticket = 0, residents = 0, running = 0, intake_closed = False, expired = False,
        broken = None\<rparr>)"

section \<open>Admission\<close>

definition can_admit :: "'c ExecutionScheduler \<Rightarrow> bool" where
  "can_admit s = (residents s < capacity s \<and> \<not> intake_closed s)"

text \<open>Dropping queued work pops its tokens and cancels them.\<close>

definition break_scheduler :: "py_exn \<Rightarrow> 'c ExecutionScheduler \<Rightarrow> 'c ExecutionScheduler" where
  "break_scheduler failure s =
     (if broken s \<noteq> None then s
      else s\<lparr>broken := Some failure, intake_closed := True,
             cancelled := cancelled s \<union> set (map ad_ticket (pending s)),
             tokens := filter (\<lambda>t. t \<notin> set (map ad_ticket (pending s))) (tokens s),
             pending := []\<rparr>)"

text \<open>\<open>start\<close> is the failure of \<^verbatim>\<open>Thread.start\<close>, \<open>None\<close> when the thread starts.\<close>

definition ensure_worker :: "py_exn option \<Rightarrow> 'c ExecutionScheduler \<Rightarrow> 'c ExecutionScheduler" where
  "ensure_worker start s =
     (let idle = int (length (workers s)) - running s
      in if idle \<ge> int (length (pending s)) \<or> int (length (workers s)) \<ge> capacity s then s
         else case start of
           Some failure \<Rightarrow> break_scheduler failure s
         | None \<Rightarrow> s\<lparr>workers := workers s @ [Waiting]\<rparr>)"

definition admit ::
  "py_exn option \<Rightarrow> ExecutionJob \<Rightarrow> 'c \<Rightarrow> 'c ExecutionScheduler \<Rightarrow>
     AdmissionResult \<times> 'c ExecutionScheduler" where
  "admit start job context s =
     (if intake_closed s then (INTAKE_CLOSED, s)
      else if residents s \<ge> capacity s then (NO_ROOM, s)
      else (let ticket = next_ticket s;
                s = s\<lparr>next_ticket := next_ticket s + 1\<rparr>;
                s = (if expired s then s\<lparr>cancelled := insert ticket (cancelled s)\<rparr> else s);
                s = s\<lparr>tokens := tokens s @ [ticket],
                      pending := pending s @ [\<lparr>ad_ticket = ticket, ad_job = job, ad_context = context\<rparr>],
                      residents := residents s + 1\<rparr>;
                s = ensure_worker start s
            in (if broken s \<noteq> None then INTAKE_CLOSED else ADMITTED, s)))"

definition close_intake :: "'c ExecutionScheduler \<Rightarrow> 'c ExecutionScheduler" where
  "close_intake s = s\<lparr>intake_closed := True\<rparr>"

definition has_residents :: "'c ExecutionScheduler \<Rightarrow> bool" where
  "has_residents s = (residents s > 0)"

definition is_broken :: "'c ExecutionScheduler \<Rightarrow> bool" where
  "is_broken s = (broken s \<noteq> None)"

section \<open>Completions\<close>

definition release_ticket :: "int \<Rightarrow> 'c ExecutionScheduler \<Rightarrow> 'c ExecutionScheduler" where
  "release_ticket t s =
     s\<lparr>tokens := filter (\<lambda>x. x \<noteq> t) (tokens s), residents := residents s - 1\<rparr>"

text \<open>\<^verbatim>\<open>_take_ready_owned\<close>: the first completion the driver owns and the queue without it.\<close>

fun take_first :: "('a \<Rightarrow> bool) \<Rightarrow> 'a list \<Rightarrow> ('a \<times> 'a list) option" where
  "take_first P [] = None"
| "take_first P (x # xs) =
     (if P x then Some (x, xs) else map_option (\<lambda>(y, ys). (y, x # ys)) (take_first P xs))"

definition take_ready_owned ::
  "('c \<Rightarrow> bool) \<Rightarrow> 'c ExecutionScheduler \<Rightarrow> ('c Completion \<times> 'c ExecutionScheduler) option" where
  "take_ready_owned owned_by s =
     (case take_first (\<lambda>c. owned_by (cp_context c)) (ready s) of
        None \<Rightarrow> None
      | Some (c, rest) \<Rightarrow> Some (c, release_ticket (cp_ticket c) (s\<lparr>ready := rest\<rparr>)))"

fun take_ready :: "'c ExecutionScheduler \<Rightarrow> ('c Completion \<times> 'c ExecutionScheduler) option" where
  "take_ready s =
     (case ready s of
        [] \<Rightarrow> None
      | c # rest \<Rightarrow> Some (c, release_ticket (cp_ticket c) (s\<lparr>ready := rest\<rparr>)))"

definition raise_if_broken :: "'c ExecutionScheduler \<Rightarrow> (py_exn, unit) result" where
  "raise_if_broken s = ensure (broken s = None) SchedulerBroken"

definition take_completion_nowait ::
  "('c \<Rightarrow> bool) option \<Rightarrow> 'c ExecutionScheduler \<Rightarrow>
     (py_exn, 'c Completion option) result \<times> 'c ExecutionScheduler" where
  "take_completion_nowait owned_by s =
     (if ready s = [] then (bind_result (raise_if_broken s) (\<lambda>_. Inr None), s)
      else (case (case owned_by of None \<Rightarrow> take_ready s | Some f \<Rightarrow> take_ready_owned f s) of
          Some (c, s') \<Rightarrow> (Inr (Some c), s')
        | None \<Rightarrow> (bind_result (raise_if_broken s) (\<lambda>_. Inr None), s)))"

definition take_completion_wait :: "'c ExecutionScheduler \<Rightarrow> bool" where
  "take_completion_wait s =
     (ready s \<noteq> [] \<or> broken s \<noteq> None \<or> running s = 0 \<and> pending s = [])"

definition take_completion ::
  "'c ExecutionScheduler \<Rightarrow> (py_exn, 'c Completion option) result \<times> 'c ExecutionScheduler" where
  "take_completion s =
     (case take_ready s of
        Some (c, s') \<Rightarrow> (Inr (Some c), s')
      | None \<Rightarrow> (bind_result (raise_if_broken s) (\<lambda>_. Inr None), s))"

section \<open>Cancellation and shutdown\<close>

definition cancel_all :: "'c ExecutionScheduler \<Rightarrow> 'c ExecutionScheduler" where
  "cancel_all s = s\<lparr>cancelled := cancelled s \<union> set (tokens s)\<rparr>"

definition expire :: "'c ExecutionScheduler \<Rightarrow> 'c ExecutionScheduler" where
  "expire s = s\<lparr>expired := True, cancelled := cancelled s \<union> set (tokens s)\<rparr>"

definition quiescent :: "'c ExecutionScheduler \<Rightarrow> bool" where
  "quiescent s = (running s = 0 \<and> pending s = [])"

definition discard_completions :: "'c ExecutionScheduler \<Rightarrow> 'c ExecutionScheduler" where
  "discard_completions s = s\<lparr>ready := [], tokens := [], residents := 0\<rparr>"

text \<open>\<^verbatim>\<open>shutdown\<close> after every worker thread was joined.\<close>

definition shutdown_joined :: "bool \<Rightarrow> 'c ExecutionScheduler \<Rightarrow> 'c ExecutionScheduler" where
  "shutdown_joined preserve_completions s =
     (let s = s\<lparr>workers := [], pending := []\<rparr>
      in if preserve_completions then s else discard_completions s)"

definition release_owned :: "('c \<Rightarrow> bool) \<Rightarrow> 'c ExecutionScheduler \<Rightarrow> 'c ExecutionScheduler" where
  "release_owned owned_by s =
     (let owned = filter (\<lambda>c. owned_by (cp_context c)) (ready s)
      in s\<lparr>tokens := filter (\<lambda>t. t \<notin> set (map cp_ticket owned)) (tokens s),
           residents := residents s - int (length owned),
           ready := filter (\<lambda>c. \<not> owned_by (cp_context c)) (ready s)\<rparr>)"

section \<open>Worker threads\<close>

definition take_admitted_wait :: "'c ExecutionScheduler \<Rightarrow> bool" where
  "take_admitted_wait s = (pending s \<noteq> [] \<or> intake_closed s \<or> broken s \<noteq> None)"

definition take_admitted ::
  "'c ExecutionScheduler \<Rightarrow> 'c Admitted option \<times> 'c ExecutionScheduler" where
  "take_admitted s =
     (case pending s of
        [] \<Rightarrow> (None, s)
      | a # rest \<Rightarrow>
          (if broken s \<noteq> None then (None, s)
           else (Some a, s\<lparr>running := running s + 1, pending := rest\<rparr>)))"

definition finish ::
  "int \<Rightarrow> 'c Completion option \<Rightarrow> py_exn option \<Rightarrow> 'c ExecutionScheduler \<Rightarrow> 'c ExecutionScheduler" where
  "finish ticket completion failure s =
     (let s = s\<lparr>running := running s - 1\<rparr>;
          s = (case completion of
             Some c \<Rightarrow> s\<lparr>ready := ready s @ [c]\<rparr>
           | None \<Rightarrow> s\<lparr>tokens := filter (\<lambda>t. t \<noteq> ticket) (tokens s)\<rparr>)
      in case failure of Some f \<Rightarrow> break_scheduler f s | None \<Rightarrow> s)"

text \<open>\<open>outcome\<close> is what \<^verbatim>\<open>run_blocking\<close> raised or returned.\<close>

definition run_one ::
  "'c Admitted \<Rightarrow> (py_exn, CompletedExecution) result \<Rightarrow> 'c ExecutionScheduler \<Rightarrow>
     'c ExecutionScheduler" where
  "run_one admitted outcome s =
     (case outcome of
        Inl failure \<Rightarrow> finish (ad_ticket admitted) None (Some failure) s
      | Inr completed \<Rightarrow>
          finish (ad_ticket admitted)
            (Some \<lparr>cp_ticket = ad_ticket admitted, cp_completed_execution = completed,
                   cp_context = ad_context admitted\<rparr>) None s)"

section \<open>Steps\<close>

datatype 'c event =
    Admit ExecutionJob 'c "py_exn option" AdmissionResult int
  | CloseIntake
  | CancelAll
  | Expire
  | WorkerTake nat
  | WorkerExit nat
  | WorkerFinish nat "(py_exn, CompletedExecution) result"
  | Deliver "('c \<Rightarrow> bool) option" "'c Completion"
  | ReleaseOwned "'c \<Rightarrow> bool"
  | ShutdownJoined bool
  | Discard

text \<open>
  \<open>runs job c\<close> says that the executor may return \<open>c\<close> for \<open>job\<close>. The owner of a scheduler
  discards completions only after the workers were joined.
\<close>

inductive sched_step ::
  "(ExecutionJob \<Rightarrow> CompletedExecution \<Rightarrow> bool) \<Rightarrow> 'c ExecutionScheduler \<Rightarrow> 'c event \<Rightarrow>
     'c ExecutionScheduler \<Rightarrow> bool"
  for runs :: "ExecutionJob \<Rightarrow> CompletedExecution \<Rightarrow> bool" where
  step_admit: "admit start job context s = (r, t) \<Longrightarrow>
     sched_step runs s (Admit job context start r (next_ticket s)) t"
| step_close: "sched_step runs s CloseIntake (close_intake s)"
| step_cancel: "sched_step runs s CancelAll (cancel_all s)"
| step_expire: "sched_step runs s Expire (expire s)"
| step_take: "i < length (workers s) \<Longrightarrow> workers s ! i = Waiting \<Longrightarrow> take_admitted_wait s \<Longrightarrow>
     take_admitted s = (Some a, t) \<Longrightarrow>
     sched_step runs s (WorkerTake i) (t\<lparr>workers := (workers t)[i := Running a]\<rparr>)"
| step_exit: "i < length (workers s) \<Longrightarrow> workers s ! i = Waiting \<Longrightarrow> take_admitted_wait s \<Longrightarrow>
     take_admitted s = (None, t) \<Longrightarrow>
     sched_step runs s (WorkerExit i) (t\<lparr>workers := (workers t)[i := Exited]\<rparr>)"
| step_finish: "i < length (workers s) \<Longrightarrow> workers s ! i = Running a \<Longrightarrow>
     (\<And>c. outcome = Inr c \<Longrightarrow> runs (ad_job a) c) \<Longrightarrow>
     sched_step runs s (WorkerFinish i outcome)
       (run_one a outcome (s\<lparr>workers := (workers s)[i := Waiting]\<rparr>))"
| step_deliver: "take_completion_nowait owned_by s = (Inr (Some c), t) \<Longrightarrow>
     sched_step runs s (Deliver owned_by c) t"
| step_release: "sched_step runs s (ReleaseOwned owned_by) (release_owned owned_by s)"
| step_shutdown: "intake_closed s \<Longrightarrow> list_all (\<lambda>w. w = Exited) (workers s) \<Longrightarrow>
     sched_step runs s (ShutdownJoined preserve) (shutdown_joined preserve s)"
| step_discard: "workers s = [] \<Longrightarrow> intake_closed s \<Longrightarrow>
     sched_step runs s Discard (discard_completions s)"

section \<open>The invariant\<close>

fun admission_of :: "'c worker \<Rightarrow> 'c Admitted list" where
  "admission_of (Running a) = [a]"
| "admission_of _ = []"

definition running_admissions :: "'c ExecutionScheduler \<Rightarrow> 'c Admitted list" where
  "running_admissions s = concat (map admission_of (workers s))"

definition live_workers :: "'c worker list \<Rightarrow> nat" where
  "live_workers ws = length (filter (\<lambda>w. w \<noteq> Exited) ws)"

text \<open>The tickets and contexts the scheduler still owes a completion for.\<close>

definition items :: "'c ExecutionScheduler \<Rightarrow> (int \<times> 'c) multiset" where
  "items s =
     mset (map (\<lambda>a. (ad_ticket a, ad_context a)) (pending s @ running_admissions s)) +
     mset (map (\<lambda>c. (cp_ticket c, cp_context c)) (ready s))"

definition live :: "'c ExecutionScheduler \<Rightarrow> int multiset" where
  "live s = image_mset fst (items s)"

definition counts_ok :: "'c ExecutionScheduler \<Rightarrow> bool" where
  "counts_ok s =
     (1 \<le> capacity s \<and> running s = int (length (running_admissions s)) \<and>
      int (length (pending s)) + running s + int (length (ready s)) \<le> residents s \<and>
      residents s \<le> capacity s \<and>
      (broken s = None \<longrightarrow>
        residents s = int (length (pending s)) + running s + int (length (ready s))) \<and>
      int (length (pending s)) + running s \<le> int (live_workers (workers s)) \<and>
      int (length (workers s)) \<le> capacity s \<and>
      (broken s \<noteq> None \<longrightarrow> pending s = [] \<and> intake_closed s) \<and>
      (\<not> intake_closed s \<longrightarrow> Exited \<notin> set (workers s)))"

definition tickets_ok :: "'c ExecutionScheduler \<Rightarrow> bool" where
  "tickets_ok s =
     ((\<forall>t. count (live s) t \<le> 1) \<and> 0 \<le> next_ticket s \<and> (\<forall>t\<in>#live s. t < next_ticket s) \<and>
      (\<forall>t\<in>set (tokens s). t < next_ticket s) \<and>
      set_mset (live s) \<subseteq> set (tokens s) \<and> distinct (tokens s) \<and>
      (broken s = None \<longrightarrow> set (tokens s) \<subseteq> set_mset (live s)) \<and>
      (expired s \<longrightarrow> set_mset (live s) \<subseteq> cancelled s))"

definition sched_inv :: "'c ExecutionScheduler \<Rightarrow> bool" where
  "sched_inv s = (counts_ok s \<and> tickets_ok s)"

lemmas inv_defs = sched_inv_def counts_ok_def tickets_ok_def

section \<open>Worker lists\<close>

lemma filter_update:
  "i < length xs \<Longrightarrow>
     length (filter P (xs[i := y])) + (if P (xs ! i) then 1 else 0) =
     length (filter P xs) + (if P y then 1 else 0)"
proof (induction xs arbitrary: i)
  case (Cons x xs)
  then show ?case
  proof (cases i)
    case (Suc j)
    with Cons.IH [of j] Cons.prems show ?thesis by auto
  qed simp
qed simp

lemma count_le_1_disjoint:
  assumes "\<forall>t. count (A + B) t \<le> 1" and "t \<in># B"
  shows "t \<notin># A"
proof
  assume "t \<in># A"
  then have "1 \<le> count A t" "1 \<le> count B t" using assms(2) by simp_all
  with assms(1) [rule_format, of t] show False by simp
qed

lemma admissions_update:
  "i < length ws \<Longrightarrow>
     mset (concat (map admission_of (ws[i := w]))) + mset (admission_of (ws ! i)) =
     mset (concat (map admission_of ws)) + mset (admission_of w)"
proof (induction ws arbitrary: i)
  case (Cons v ws)
  then show ?case by (cases i) (auto simp: ac_simps)
qed simp

lemma admissions_le_live: "length (concat (map admission_of ws)) \<le> live_workers ws"
proof (induction ws)
  case (Cons w ws)
  then show ?case by (cases w) (auto simp: live_workers_def)
qed (simp add: live_workers_def)

lemma admissions_lt_live:
  "i < length ws \<Longrightarrow> ws ! i = Waiting \<Longrightarrow> length (concat (map admission_of ws)) < live_workers ws"
proof -
  assume i: "i < length ws" "ws ! i = Waiting"
  have "mset (concat (map admission_of (ws[i := Exited]))) = mset (concat (map admission_of ws))"
    using admissions_update [OF i(1), of Exited] i(2) by simp
  then have "length (concat (map admission_of (ws[i := Exited]))) = length (concat (map admission_of ws))"
    by (metis size_mset)
  moreover have "live_workers (ws[i := Exited]) + 1 = live_workers ws"
    using filter_update [OF i(1), of "\<lambda>w. w \<noteq> Exited" Exited] i(2) by (simp add: live_workers_def)
  ultimately show ?thesis using admissions_le_live [of "ws[i := Exited]"] by simp
qed

text \<open>Which threads a step changes, in terms of the three measures the invariant uses.\<close>

lemma running_admissions_upd [simp]:
  "running_admissions (s\<lparr>pending := p\<rparr>) = running_admissions s"
  "running_admissions (s\<lparr>ready := r\<rparr>) = running_admissions s"
  "running_admissions (s\<lparr>tokens := k\<rparr>) = running_admissions s"
  "running_admissions (s\<lparr>cancelled := c\<rparr>) = running_admissions s"
  "running_admissions (s\<lparr>next_ticket := n\<rparr>) = running_admissions s"
  "running_admissions (s\<lparr>residents := n\<rparr>) = running_admissions s"
  "running_admissions (s\<lparr>running := n\<rparr>) = running_admissions s"
  "running_admissions (s\<lparr>intake_closed := b\<rparr>) = running_admissions s"
  "running_admissions (s\<lparr>expired := b\<rparr>) = running_admissions s"
  "running_admissions (s\<lparr>broken := e\<rparr>) = running_admissions s"
  "running_admissions (s\<lparr>workers := workers s @ [Waiting]\<rparr>) = running_admissions s"
  by (simp_all add: running_admissions_def)

lemma live_workers_append [simp]: "live_workers (ws @ [Waiting]) = live_workers ws + 1"
  by (simp add: live_workers_def)

section \<open>Preservation\<close>

lemma inv_new: "ExecutionScheduler_new n = Inr s \<Longrightarrow> sched_inv s"
  by (auto simp: ExecutionScheduler_new_def inv_defs live_def items_def running_admissions_def
      live_workers_def split: if_splits)

text \<open>
  Every step but an admission keeps the owed tickets or removes some: the tokens of what it
  removes go with it.
\<close>

lemma tickets_shrink:
  assumes "tickets_ok s" and live: "live s = D + live t"
    and same: "next_ticket t = next_ticket s" "expired t = expired s"
    and tokens: "tokens t = filter (\<lambda>k. k \<notin># D) (tokens s)"
    and more: "cancelled s \<subseteq> cancelled t" and "broken t = None \<Longrightarrow> broken s = None"
  shows "tickets_ok t"
proof -
  have one: "count (live s) k \<le> 1" for k using assms(1) by (simp add: tickets_ok_def)
  have sub: "set_mset (live t) \<subseteq> set_mset (live s)" unfolding live by auto
  have disj: "k \<notin># D" if "k \<in># live t" for k
    using count_le_1_disjoint [of D "live t" k] one live that by simp
  have "count (live t) k \<le> 1" for k
    using one [of k] unfolding live by simp
  moreover have "set_mset (live t) \<subseteq> set (tokens t)"
    using sub disj assms(1) by (auto simp: tokens tickets_ok_def)
  moreover have "set (tokens t) \<subseteq> set_mset (live t)" if "broken t = None"
  proof
    fix k assume "k \<in> set (tokens t)"
    then have "k \<in># live s" "k \<notin># D"
      using assms(1,7) that by (auto simp: tokens tickets_ok_def)
    then show "k \<in># live t" unfolding live by simp
  qed
  moreover have "set_mset (live t) \<subseteq> cancelled t" if "expired t"
    using that sub more assms(1) same by (auto simp: tickets_ok_def)
  ultimately show ?thesis
    using assms(1) sub unfolding tickets_ok_def same by (auto simp: tokens)
qed

lemma tickets_same:
  assumes "tickets_ok s" and "items t = items s" and "next_ticket t = next_ticket s"
    and "expired t = expired s" and "tokens t = tokens s" and "cancelled s \<subseteq> cancelled t"
    and "broken t = broken s"
  shows "tickets_ok t"
  using assms by (intro tickets_shrink [of s "{#}" t]) (simp_all add: live_def)

lemma tickets_break:
  assumes "tickets_ok s"
  shows "tickets_ok (break_scheduler failure s)"
proof (cases "broken s")
  case None
  let ?s = "break_scheduler failure s" and ?D = "mset (map ad_ticket (pending s))"
  have "items s = mset (map (\<lambda>a. (ad_ticket a, ad_context a)) (pending s)) + items ?s"
    using None by (simp add: items_def break_scheduler_def)
  then have "live s = ?D + live ?s"
    by (simp add: live_def image_mset.compositionality o_def)
  then show ?thesis
    by (rule tickets_shrink [rotated])
      (use assms None in \<open>simp_all add: sched_inv_def break_scheduler_def\<close>)
qed (use assms in \<open>simp add: break_scheduler_def\<close>)

lemma inv_break: "sched_inv s \<Longrightarrow> sched_inv (break_scheduler failure s)"
  using tickets_break [of s failure] by (auto simp: sched_inv_def counts_ok_def break_scheduler_def)

lemma live_workers_all: "Exited \<notin> set ws \<Longrightarrow> live_workers ws = length ws"
  by (induction ws) (auto simp: live_workers_def)

lemma inv_admit:
  assumes "sched_inv s" and "admit start job context s = (r, t)"
  shows "sched_inv t"
proof (cases "intake_closed s \<or> residents s \<ge> capacity s")
  case True
  with assms show ?thesis by (auto simp: admit_def split: if_splits)
next
  case False
  let ?k = "next_ticket s"
  define u where "u = s\<lparr>next_ticket := ?k + 1,
    cancelled := (if expired s then insert ?k (cancelled s) else cancelled s),
    tokens := tokens s @ [?k],
    pending := pending s @ [\<lparr>ad_ticket = ?k, ad_job = job, ad_context = context\<rparr>],
    residents := residents s + 1\<rparr>"
  have t: "t = ensure_worker start u"
    using assms(2) False by (auto simp: admit_def u_def Let_def split: if_splits)
  have nb: "broken s = None" using assms(1) False by (auto simp: inv_defs)
  have live: "live u = add_mset ?k (live s)"
    by (simp add: u_def live_def items_def)
  have fresh: "?k \<notin># live s" "?k \<notin> set (tokens s)" using assms(1) by (auto simp: inv_defs)
  then have zero: "count (live s) ?k = 0" by (simp add: not_in_iff)
  have tick: "tickets_ok u"
    using assms(1) fresh zero nb unfolding sched_inv_def tickets_ok_def live
    by (auto simp: u_def less_imp_le)
  have all: "live_workers (workers s) = length (workers s)" "Exited \<notin> set (workers s)"
    using assms(1) False live_workers_all by (auto simp: inv_defs)
  consider (idle) "t = u" "int (length (pending u)) + running u \<le> int (length (workers u))"
    | (fail) f where "t = break_scheduler f u"
    | (spawn) "t = u\<lparr>workers := workers u @ [Waiting]\<rparr>" "int (length (workers u)) < capacity u"
  proof (cases "int (length (workers u)) - running u \<ge> int (length (pending u)) \<or>
      int (length (workers u)) \<ge> capacity u")
    case True
    moreover have "int (length (pending u)) + running u \<le> capacity u"
      using assms(1) False nb by (auto simp: inv_defs u_def)
    moreover have "t = u" using True unfolding t ensure_worker_def Let_def by simp
    ultimately show thesis by (intro that(1)) auto
  next
    case nspawn: False
    then show thesis
      using that(2,3) unfolding t ensure_worker_def Let_def by (cases start) auto
  qed
  then show ?thesis
  proof cases
    case idle
    have "counts_ok u" using assms(1) False nb all idle(2) by (auto simp: inv_defs u_def)
    with tick idle show ?thesis by (simp add: sched_inv_def)
  next
    case fail
    have "counts_ok t" unfolding fail
      using assms(1) False nb all by (auto simp: inv_defs u_def break_scheduler_def)
    with tickets_break [OF tick] fail show ?thesis by (simp add: sched_inv_def)
  next
    case spawn
    have "counts_ok t" unfolding spawn
      using assms(1) False nb all spawn(2) by (auto simp: inv_defs u_def running_admissions_def)
    moreover have "tickets_ok t"
      by (rule tickets_same [OF tick]) (simp_all add: spawn items_def)
    ultimately show ?thesis by (simp add: sched_inv_def)
  qed
qed

lemma inv_take:
  assumes "sched_inv s" and i: "i < length (workers s)" "workers s ! i = Waiting"
    and "take_admitted s = (Some a, t)"
  shows "sched_inv (t\<lparr>workers := (workers t)[i := Running a]\<rparr>)"
proof -
  let ?t = "t\<lparr>workers := (workers t)[i := Running a]\<rparr>"
  from assms(4) obtain rest where p: "pending s = a # rest" and nb: "broken s = None"
    and t: "t = s\<lparr>running := running s + 1, pending := rest\<rparr>"
    by (auto simp: take_admitted_def split: list.splits if_splits)
  have adm: "mset (running_admissions ?t) = add_mset a (mset (running_admissions s))"
    using admissions_update [OF i(1), of "Running a"] i(2)
    by (simp add: running_admissions_def t)
  then have len: "length (running_admissions ?t) = Suc (length (running_admissions s))"
    by (metis size_add_mset size_mset)
  have liv: "live_workers (workers ?t) = live_workers (workers s)"
    using filter_update [OF i(1), of "\<lambda>w. w \<noteq> Exited" "Running a"] i(2)
    by (simp add: live_workers_def t)
  have ex: "Exited \<in> set ((workers s)[i := Running a]) \<Longrightarrow> Exited \<in> set (workers s)"
    using set_update_subset_insert [of "workers s" i "Running a"] by blast
  have "counts_ok ?t"
    using assms(1) len liv ex nb p by (auto simp: inv_defs t)
  moreover have "items ?t = items s" using adm by (simp add: items_def t p)
  then have "tickets_ok ?t"
    by (rule tickets_same [rotated]) (use assms(1) in \<open>simp_all add: sched_inv_def t\<close>)
  ultimately show ?thesis by (simp add: sched_inv_def)
qed

lemma inv_exit:
  assumes "sched_inv s" and i: "i < length (workers s)" "workers s ! i = Waiting"
    and "take_admitted_wait s" and "take_admitted s = (None, t)"
  shows "sched_inv (t\<lparr>workers := (workers t)[i := Exited]\<rparr>)"
proof -
  let ?t = "t\<lparr>workers := (workers t)[i := Exited]\<rparr>"
  from assms(5) have t: "t = s" and "pending s = [] \<or> broken s \<noteq> None"
    by (auto simp: take_admitted_def split: list.splits if_splits)
  with assms(1,4) have p: "pending s = []" "intake_closed s"
    by (auto simp: inv_defs take_admitted_wait_def)
  have adm: "mset (running_admissions ?t) = mset (running_admissions s)"
    using admissions_update [OF i(1), of Exited] i(2) by (simp add: running_admissions_def t)
  then have len: "length (running_admissions ?t) = length (running_admissions s)"
    by (metis size_mset)
  have liv: "length (running_admissions ?t) \<le> live_workers (workers ?t)"
    using admissions_le_live [of "workers ?t"] by (simp add: running_admissions_def)
  have "counts_ok ?t"
    using assms(1) p len liv by (auto simp: inv_defs t)
  moreover have "items ?t = items s" using adm by (simp add: items_def t)
  then have "tickets_ok ?t"
    by (rule tickets_same [rotated]) (use assms(1) in \<open>simp_all add: sched_inv_def t\<close>)
  ultimately show ?thesis by (simp add: sched_inv_def)
qed

text \<open>A finished run: the thread is free again and the admission left the running ones.\<close>

lemma finished_worker:
  assumes "sched_inv s" and i: "i < length (workers s)" "workers s ! i = Running a"
  defines "u \<equiv> s\<lparr>workers := (workers s)[i := Waiting], running := running s - 1\<rparr>"
  shows "mset (running_admissions s) = add_mset a (mset (running_admissions u))"
    and "running u = int (length (running_admissions u))"
    and "live_workers (workers u) = live_workers (workers s)"
    and "Exited \<in> set (workers u) \<Longrightarrow> Exited \<in> set (workers s)"
    and "live s = add_mset (ad_ticket a) (live u)"
proof -
  have adm: "mset (running_admissions s) = add_mset a (mset (running_admissions u))"
    using admissions_update [OF i(1), of Waiting] i(2)
    by (simp add: running_admissions_def u_def)
  then show "mset (running_admissions s) = add_mset a (mset (running_admissions u))" .
  have "length (running_admissions s) = Suc (length (running_admissions u))"
    using adm by (metis size_add_mset size_mset)
  then show "running u = int (length (running_admissions u))"
    using assms(1) by (simp add: inv_defs u_def)
  show "live_workers (workers u) = live_workers (workers s)"
    using filter_update [OF i(1), of "\<lambda>w. w \<noteq> Exited" Waiting] i(2)
    by (simp add: live_workers_def u_def)
  show "Exited \<in> set (workers u) \<Longrightarrow> Exited \<in> set (workers s)"
    using set_update_subset_insert [of "workers s" i Waiting] by (auto simp: u_def)
  show "live s = add_mset (ad_ticket a) (live u)"
    using adm by (simp add: live_def items_def u_def)
qed

lemma inv_finish:
  assumes "sched_inv s" and i: "i < length (workers s)" "workers s ! i = Running a"
  shows "sched_inv (run_one a outcome (s\<lparr>workers := (workers s)[i := Waiting]\<rparr>))"
proof -
  define u where "u = s\<lparr>workers := (workers s)[i := Waiting], running := running s - 1\<rparr>"
  note F = finished_worker [OF assms, folded u_def]
  show ?thesis
  proof (cases outcome)
    case (Inr c)
    let ?c = "\<lparr>cp_ticket = ad_ticket a, cp_completed_execution = c, cp_context = ad_context a\<rparr>"
    let ?t = "u\<lparr>ready := ready u @ [?c]\<rparr>"
    have "items ?t = items s" using F(1) by (simp add: items_def u_def)
    then have "tickets_ok ?t"
      by (rule tickets_same [rotated]) (use assms(1) in \<open>simp_all add: sched_inv_def u_def\<close>)
    moreover have "counts_ok ?t"
      using assms(1) F(2,3,4) by (auto simp: inv_defs u_def)
    ultimately show ?thesis
      by (simp add: Inr run_one_def finish_def u_def sched_inv_def)
  next
    case (Inl e)
    let ?t = "u\<lparr>tokens := filter (\<lambda>t. t \<noteq> ad_ticket a) (tokens u)\<rparr>"
    have b: "run_one a outcome (s\<lparr>workers := (workers s)[i := Waiting]\<rparr>) = break_scheduler e ?t"
      by (simp add: Inl run_one_def finish_def u_def)
    have "live s = {#ad_ticket a#} + live ?t" using F(5) by (simp add: live_def items_def)
    then have "tickets_ok ?t"
      by (rule tickets_shrink [rotated]) (use assms(1) in \<open>simp_all add: sched_inv_def u_def\<close>)
    moreover have "counts_ok (break_scheduler e ?t)"
      using assms(1) F(2,3,4) by (auto simp: inv_defs u_def break_scheduler_def)
    ultimately show ?thesis using tickets_break [of ?t e] b by (simp add: sched_inv_def)
  qed
qed

lemma take_first_Some:
  "take_first P xs = Some (y, ys) \<Longrightarrow> P y \<and> mset xs = add_mset y (mset ys)"
  by (induction xs arbitrary: ys) (auto split: if_splits)

lemma inv_release_ticket:
  assumes "sched_inv s" and "mset (ready s) = add_mset c (mset rest)"
  shows "sched_inv (release_ticket (cp_ticket c) (s\<lparr>ready := rest\<rparr>))" (is "sched_inv ?t")
proof -
  have len: "length (ready s) = Suc (length rest)"
    using assms(2) by (metis size_add_mset size_mset)
  have "live s = {#cp_ticket c#} + live ?t"
    using assms(2) by (simp add: live_def items_def release_ticket_def)
  then have "tickets_ok ?t"
    by (rule tickets_shrink [rotated])
      (use assms(1) in \<open>simp_all add: sched_inv_def release_ticket_def\<close>)
  moreover have "counts_ok ?t"
    using assms(1) len by (auto simp: inv_defs release_ticket_def)
  ultimately show ?thesis by (simp add: sched_inv_def)
qed

lemma nowait_Some:
  assumes "take_completion_nowait owned_by s = (Inr (Some c), t)"
  shows "\<exists>rest. mset (ready s) = add_mset c (mset rest) \<and>
    t = release_ticket (cp_ticket c) (s\<lparr>ready := rest\<rparr>) \<and>
    (\<forall>f. owned_by = Some f \<longrightarrow> f (cp_context c)) \<and>
    (owned_by = None \<longrightarrow> ready s = c # rest)"
  using assms
  by (auto simp: take_completion_nowait_def take_ready_owned_def raise_if_broken_def bind_ensure
      split: if_splits option.splits list.splits dest: take_first_Some)

lemma inv_release_owned:
  assumes "sched_inv s"
  shows "sched_inv (release_owned owned_by s)" (is "sched_inv ?t")
proof -
  let ?owned = "filter (\<lambda>c. owned_by (cp_context c)) (ready s)"
  have "mset (ready s) = mset ?owned + mset (ready ?t)"
    by (simp add: release_owned_def Let_def)
  then have "items s = image_mset (\<lambda>c. (cp_ticket c, cp_context c)) (mset ?owned) + items ?t"
    by (simp add: items_def release_owned_def Let_def flip: image_mset_union)
  then have "live s = mset (map cp_ticket ?owned) + live ?t"
    by (simp add: live_def image_mset.compositionality o_def)
  then have "tickets_ok ?t"
    by (rule tickets_shrink [rotated])
      (use assms in \<open>simp_all add: sched_inv_def release_owned_def Let_def\<close>)
  moreover have "length (ready s) = length ?owned + length (ready ?t)"
    by (simp add: release_owned_def Let_def sum_length_filter_compl)
  then have "counts_ok ?t"
    using assms by (auto simp: inv_defs release_owned_def Let_def)
  ultimately show ?thesis by (simp add: sched_inv_def)
qed


lemma running_none: "workers s = [] \<Longrightarrow> running_admissions s = []"
  by (simp add: running_admissions_def)

lemma all_exited: "list_all (\<lambda>w. w = Exited) ws \<Longrightarrow>
    concat (map admission_of ws) = [] \<and> live_workers ws = 0"
  by (induction ws) (auto simp: live_workers_def)

lemma pending_none: "sched_inv s \<Longrightarrow> live_workers (workers s) = 0 \<Longrightarrow> pending s = []"
proof -
  assume "sched_inv s" "live_workers (workers s) = 0"
  then have "int (length (pending s)) + int (length (running_admissions s)) \<le> 0"
    by (simp add: sched_inv_def counts_ok_def)
  then have "length (pending s) = 0" by linarith
  then show ?thesis by simp
qed

lemma inv_discard:
  assumes "sched_inv s" and "running_admissions s = []" and "pending s = []" and "intake_closed s"
  shows "sched_inv (discard_completions s)"
proof -
  have same: "running_admissions (discard_completions s) = []"
    using assms(2) by (simp add: discard_completions_def)
  have "live (discard_completions s) = {#}"
    using assms(3) by (simp add: live_def items_def same) (simp add: discard_completions_def)
  with same show ?thesis
    using assms unfolding inv_defs by (simp add: discard_completions_def)
qed

lemma inv_shutdown:
  assumes "sched_inv s" and "intake_closed s" and "list_all (\<lambda>w. w = Exited) (workers s)"
  shows "sched_inv (shutdown_joined preserve s)"
proof -
  have none: "running_admissions s = []" "live_workers (workers s) = 0" "pending s = []"
    using all_exited [OF assms(3)] pending_none [OF assms(1)]
    by (simp_all add: running_admissions_def)
  let ?t = "s\<lparr>workers := [], pending := []\<rparr>"
  have adm: "running_admissions ?t = []" by (simp add: running_admissions_def)
  have "tickets_ok ?t"
    by (rule tickets_same [of s]) (use assms(1) none adm in \<open>simp_all add: sched_inv_def items_def\<close>)
  moreover have "counts_ok ?t"
    using assms(1) none adm by (auto simp: inv_defs live_workers_def)
  ultimately have "sched_inv ?t" by (simp add: sched_inv_def)
  with inv_discard [of ?t] assms(2) adm show ?thesis
    by (auto simp: shutdown_joined_def Let_def)
qed

lemma inv_cancel:
  assumes "sched_inv s"
  shows "sched_inv (cancel_all s)" and "sched_inv (expire s)" and "sched_inv (close_intake s)"
proof -
  have same: "running_admissions (cancel_all s) = running_admissions s"
    "running_admissions (expire s) = running_admissions s"
    "running_admissions (close_intake s) = running_admissions s"
    by (simp_all add: cancel_all_def expire_def close_intake_def)
  then have live: "live (cancel_all s) = live s" "live (expire s) = live s" "live (close_intake s) = live s"
    by (simp_all add: live_def items_def)  (simp_all add: cancel_all_def expire_def close_intake_def)
  show "sched_inv (cancel_all s)" "sched_inv (expire s)" "sched_inv (close_intake s)"
    using assms unfolding inv_defs same live
    by (auto simp: cancel_all_def expire_def close_intake_def)
qed

interpretation scheduler: invariant_system "sched_step runs" sched_inv
  for runs :: "ExecutionJob \<Rightarrow> CompletedExecution \<Rightarrow> bool"
proof
  fix s t :: "'a ExecutionScheduler" and e
  assume inv: "sched_inv s" and "sched_step runs s e t"
  from this(2) show "sched_inv t"
  proof cases
    case (step_deliver owned_by c)
    with nowait_Some inv_release_ticket [OF inv] show ?thesis by blast
  next
    case step_discard
    have "pending s = []" using pending_none [OF inv] step_discard by (simp add: live_workers_def)
    with inv_discard [OF inv running_none] step_discard show ?thesis by simp
  qed (auto intro: inv_admit [OF inv] inv_cancel [OF inv] inv_take [OF inv] inv_exit [OF inv]
      inv_finish [OF inv] inv_release_owned [OF inv] inv_shutdown [OF inv])
qed

section \<open>What a run delivers\<close>

fun admitted_of :: "'c event \<Rightarrow> (int \<times> ExecutionJob \<times> 'c) list" where
  "admitted_of (Admit job context start ADMITTED ticket) = [(ticket, job, context)]"
| "admitted_of _ = []"

fun delivered_of :: "'c event \<Rightarrow> 'c Completion list" where
  "delivered_of (Deliver owned_by c) = [c]"
| "delivered_of _ = []"

definition admissions :: "'c event list \<Rightarrow> (int \<times> ExecutionJob \<times> 'c) list" where
  "admissions es = concat (map admitted_of es)"

definition deliveries :: "'c event list \<Rightarrow> 'c Completion list" where
  "deliveries es = concat (map delivered_of es)"

text \<open>The events by which an owner gives completions up.\<close>

fun gives_up :: "'c event \<Rightarrow> bool" where
  "gives_up (ReleaseOwned _) = True"
| "gives_up (ShutdownJoined preserve) = (\<not> preserve)"
| "gives_up Discard = True"
| "gives_up _ = False"

definition admission_item :: "int \<times> ExecutionJob \<times> 'c \<Rightarrow> int \<times> 'c" where
  "admission_item = (\<lambda>(t, job, context). (t, context))"

definition completion_item :: "'c Completion \<Rightarrow> int \<times> 'c" where
  "completion_item c = (cp_ticket c, cp_context c)"

lemma logs_snoc [simp]:
  "admissions (es @ [e]) = admissions es @ admitted_of e"
  "deliveries (es @ [e]) = deliveries es @ delivered_of e"
  "admissions [] = []" "deliveries [] = []"
  by (simp_all add: admissions_def deliveries_def)

lemma items_break: "items (break_scheduler e s) \<subseteq># items s"
  by (simp add: items_def break_scheduler_def)

lemma ensure_worker_cases:
  obtains (same) "ensure_worker start s = s"
    | (spawn) "ensure_worker start s = s\<lparr>workers := workers s @ [Waiting]\<rparr>"
    | (fail) f where "ensure_worker start s = break_scheduler f s"
proof -
  have "ensure_worker start s = s \<or> ensure_worker start s = s\<lparr>workers := workers s @ [Waiting]\<rparr> \<or>
      (\<exists>f. ensure_worker start s = break_scheduler f s)"
    unfolding ensure_worker_def Let_def by (simp split: option.splits) blast
  then show thesis using that by blast
qed

lemma admit_cases:
  assumes "admit start job context s = (r, t)"
  obtains (refused) "r \<noteq> ADMITTED" "t = s"
    | (dropped) "r = INTAKE_CLOSED" "pending t = []" "running_admissions t = running_admissions s"
      "ready t = ready s" "broken t \<noteq> None" "residents t = residents s + 1"
      "next_ticket t = next_ticket s + 1" "running t = running s"
    | (admitted) "r = ADMITTED" "broken t = None"
      "pending t = pending s @ [\<lparr>ad_ticket = next_ticket s, ad_job = job, ad_context = context\<rparr>]"
      "running_admissions t = running_admissions s" "ready t = ready s"
      "next_ticket t = next_ticket s + 1" "residents t = residents s + 1" "running t = running s"
    | (stale) "broken s \<noteq> None" "\<not> intake_closed s"
proof (cases "intake_closed s \<or> residents s \<ge> capacity s")
  case True
  then show thesis using assms refused by (auto simp: admit_def split: if_splits)
next
  case False
  define u where "u = s\<lparr>next_ticket := next_ticket s + 1,
    cancelled := (if expired s then insert (next_ticket s) (cancelled s) else cancelled s),
    tokens := tokens s @ [next_ticket s],
    pending := pending s @ [\<lparr>ad_ticket = next_ticket s, ad_job = job, ad_context = context\<rparr>],
    residents := residents s + 1\<rparr>"
  have t: "t = ensure_worker start u" and r: "r = (if broken t \<noteq> None then INTAKE_CLOSED else ADMITTED)"
    using assms False by (auto simp: admit_def u_def Let_def split: if_splits)
  have u: "running_admissions u = running_admissions s" by (simp add: u_def)
  show thesis
  proof (cases "broken s")
    case (Some e)
    with False stale show thesis by simp
  next
    case None
    show thesis
    proof (cases rule: ensure_worker_cases [of start u])
      case same
      with None t r u show thesis by (intro admitted) (simp_all add: u_def)
    next
      case spawn
      with None t r show thesis by (intro admitted) (simp_all add: u_def running_admissions_def)
    next
      case (fail f)
      with None t r u show thesis
        by (intro dropped) (simp_all add: u_def break_scheduler_def running_admissions_def)
    qed
  qed
qed

lemma take_items:
  assumes "i < length (workers s)" "workers s ! i = Waiting" "take_admitted s = (Some a, t)"
  shows "items (t\<lparr>workers := (workers t)[i := Running a]\<rparr>) = items s"
  using admissions_update [OF assms(1), of "Running a"] assms
  by (auto simp: items_def running_admissions_def take_admitted_def split: list.splits if_splits)

lemma exit_items:
  assumes "i < length (workers s)" "workers s ! i = Waiting" "take_admitted s = (None, t)"
  shows "items (t\<lparr>workers := (workers t)[i := Exited]\<rparr>) = items s" and "broken t = broken s"
  using admissions_update [OF assms(1), of Exited] assms
  by (auto simp: items_def running_admissions_def take_admitted_def split: list.splits if_splits)

lemma finish_items:
  assumes "i < length (workers s)" "workers s ! i = Running a"
  shows "items (run_one a outcome (s\<lparr>workers := (workers s)[i := Waiting]\<rparr>)) \<subseteq># items s"
    and "broken (run_one a outcome (s\<lparr>workers := (workers s)[i := Waiting]\<rparr>)) = None \<Longrightarrow>
      items (run_one a outcome (s\<lparr>workers := (workers s)[i := Waiting]\<rparr>)) = items s"
proof -
  have adm: "mset (concat (map admission_of (workers s))) =
      add_mset a (mset (concat (map admission_of ((workers s)[i := Waiting]))))"
    using admissions_update [OF assms(1), of Waiting] assms(2) by simp
  let ?t = "run_one a outcome (s\<lparr>workers := (workers s)[i := Waiting]\<rparr>)"
  show "items ?t \<subseteq># items s"
    by (cases outcome)
      (auto simp: run_one_def finish_def items_def running_admissions_def break_scheduler_def adm Let_def
        intro: subset_mset.order_trans [OF mset_subset_eq_add_right])
  show "items ?t = items s" if "broken ?t = None"
    using that by (cases outcome)
      (auto simp: run_one_def finish_def items_def running_admissions_def break_scheduler_def adm Let_def
        split: if_splits)
qed

lemma step_items:
  assumes "sched_inv s" and "sched_step runs s e t"
  shows "items t + mset (map completion_item (delivered_of e)) \<subseteq>#
      items s + mset (map admission_item (admitted_of e))"
    and "broken t = None \<Longrightarrow> \<not> gives_up e \<Longrightarrow>
      items t + mset (map completion_item (delivered_of e)) =
      items s + mset (map admission_item (admitted_of e))"
proof -
  have "items t + mset (map completion_item (delivered_of e)) \<subseteq>#
      items s + mset (map admission_item (admitted_of e)) \<and>
    (broken t = None \<longrightarrow> \<not> gives_up e \<longrightarrow>
      items t + mset (map completion_item (delivered_of e)) =
      items s + mset (map admission_item (admitted_of e)))"
    using assms(2)
  proof cases
    case (step_admit start job ctx r)
    from step_admit(2) show ?thesis
    proof (cases rule: admit_cases)
      case refused
      then show ?thesis using step_admit by (cases r) simp_all
    next
      case dropped
      then show ?thesis using step_admit by (auto simp: items_def)
    next
      case admitted
      then show ?thesis using step_admit by (simp add: items_def admission_item_def)
    next
      case stale
      with assms(1) show ?thesis by (auto simp: inv_defs)
    qed
  next
    case (step_deliver owned_by c)
    with nowait_Some [OF step_deliver(2)] show ?thesis
      by (auto simp: items_def release_ticket_def completion_item_def)
  next
    case (step_release owned_by)
    then show ?thesis by (auto simp: items_def release_owned_def Let_def intro!: image_mset_subseteq_mono)
  next
    case (step_shutdown preserve)
    then show ?thesis using all_exited [of "workers s"] pending_none [OF assms(1)]
      by (auto simp: shutdown_joined_def discard_completions_def items_def running_admissions_def Let_def)
  next
    case step_discard
    then show ?thesis by (auto simp: discard_completions_def items_def)
  next
    case (step_take i a u)
    then show ?thesis using take_items [OF step_take(3,4,6)] by simp
  next
    case (step_exit i u)
    then show ?thesis using exit_items(1) [OF step_exit(3,4,6)] by simp
  next
    case (step_finish i a outcome)
    then show ?thesis using finish_items [OF step_finish(3,4), of outcome] by simp
  qed (simp_all add: items_def close_intake_def cancel_all_def expire_def)
  then show "items t + mset (map completion_item (delivered_of e)) \<subseteq>#
      items s + mset (map admission_item (admitted_of e))"
    "broken t = None \<Longrightarrow> \<not> gives_up e \<Longrightarrow>
      items t + mset (map completion_item (delivered_of e)) =
      items s + mset (map admission_item (admitted_of e))"
    by blast+
qed

lemma step_broken:
  assumes "sched_step runs s e t" and "broken t = None"
  shows "broken s = None"
  using assms
proof cases
  case (step_admit start job ctx r)
  with assms(2) show ?thesis
    by (cases start) (auto simp: admit_def ensure_worker_def break_scheduler_def Let_def split: if_splits)
next
  case (step_finish i a outcome)
  with assms(2) show ?thesis
    by (cases outcome) (auto simp: run_one_def finish_def break_scheduler_def Let_def split: if_splits)
next
  case (step_deliver owned_by c)
  with nowait_Some [OF step_deliver(2)] assms(2) show ?thesis by (auto simp: release_ticket_def)
qed (auto simp: close_intake_def cancel_all_def expire_def take_admitted_def release_owned_def
    shutdown_joined_def discard_completions_def Let_def split: list.splits if_splits)

lemma step_next_ticket:
  assumes "sched_step runs s e t"
  shows "next_ticket t \<ge> next_ticket s \<and>
    (\<forall>k job ctx. (k, job, ctx) \<in> set (admitted_of e) \<longrightarrow> k = next_ticket s \<and> next_ticket t = k + 1) \<and>
    length (admitted_of e) \<le> 1"
  using assms
proof cases
  case (step_admit start job ctx r)
  from step_admit(2) have "next_ticket t \<ge> next_ticket s \<and> (r = ADMITTED \<longrightarrow> next_ticket t = next_ticket s + 1)"
    by (cases start) (auto simp: admit_def ensure_worker_def break_scheduler_def Let_def split: if_splits)
  then show ?thesis using step_admit by (cases r) auto
next
  case (step_finish i a outcome)
  then show ?thesis
    by (cases outcome) (auto simp: run_one_def finish_def break_scheduler_def Let_def)
next
  case (step_deliver owned_by c)
  with nowait_Some [OF step_deliver(2)] show ?thesis by (auto simp: release_ticket_def)
qed (auto simp: close_intake_def cancel_all_def expire_def take_admitted_def release_owned_def
    shutdown_joined_def discard_completions_def Let_def split: list.splits if_splits)

text \<open>A run from a new scheduler.\<close>

definition sched_run ::
  "(ExecutionJob \<Rightarrow> CompletedExecution \<Rightarrow> bool) \<Rightarrow> int \<Rightarrow> 'c event list \<Rightarrow> 'c ExecutionScheduler \<Rightarrow> bool" where
  "sched_run runs n es t =
     (\<exists>s. ExecutionScheduler_new n = Inr s \<and> trace (sched_step runs) s es t)"

lemma sched_run_inv: "sched_run runs n es t \<Longrightarrow> sched_inv t"
  unfolding sched_run_def using scheduler.trace_inv inv_new by blast

lemma new_empty: "ExecutionScheduler_new n = Inr s \<Longrightarrow> items s = {#} \<and> next_ticket s = 0"
  by (auto simp: ExecutionScheduler_new_def items_def running_admissions_def split: if_splits)

lemma run_conservation:
  assumes "trace (sched_step runs) s es t" and "ExecutionScheduler_new n = Inr s"
  shows "items t + mset (map completion_item (deliveries es)) \<subseteq># mset (map admission_item (admissions es)) \<and>
    (broken t = None \<longrightarrow> list_all (\<lambda>e. \<not> gives_up e) es \<longrightarrow>
      items t + mset (map completion_item (deliveries es)) = mset (map admission_item (admissions es))) \<and>
    distinct (map fst (admissions es)) \<and> (\<forall>a\<in>set (admissions es). fst a < next_ticket t)"
  using assms
proof (induction rule: trace.induct)
  case (trace_nil s)
  with new_empty [of n s] show ?case by simp
next
  case (trace_snoc s es t e u)
  have inv: "sched_inv t" using scheduler.trace_inv [OF trace_snoc.hyps(1)] inv_new trace_snoc.prems by blast
  note I = step_items [OF inv trace_snoc.hyps(2)] and B = step_broken [OF trace_snoc.hyps(2)]
    and N = step_next_ticket [OF trace_snoc.hyps(2)]
  let ?A = "mset (map admission_item (admissions es))" and ?D = "mset (map completion_item (deliveries es))"
  let ?a = "mset (map admission_item (admitted_of e))" and ?d = "mset (map completion_item (delivered_of e))"
  have IH: "items t + ?D \<subseteq># ?A"
    "broken t = None \<Longrightarrow> list_all (\<lambda>e. \<not> gives_up e) es \<Longrightarrow> items t + ?D = ?A"
    "distinct (map fst (admissions es))" "\<forall>a\<in>set (admissions es). fst a < next_ticket t"
    using trace_snoc.IH trace_snoc.prems by auto
  have "(items u + ?d) + ?D \<subseteq># (items t + ?a) + ?D"
    using I(1) by (rule subset_mset.add_right_mono)
  also have "\<dots> = (items t + ?D) + ?a" by (simp add: ac_simps)
  also have "\<dots> \<subseteq># ?A + ?a" using IH(1) by (rule subset_mset.add_right_mono)
  finally have sub: "items u + (?D + ?d) \<subseteq># ?A + ?a" by (simp add: ac_simps)
  have eq: "items u + (?D + ?d) = ?A + ?a"
    if "broken u = None" "list_all (\<lambda>e. \<not> gives_up e) (es @ [e])"
  proof -
    have "items u + ?d = items t + ?a" using I(2) that by simp
    moreover have "items t + ?D = ?A" using IH(2) B that by simp
    moreover have "items u + (?D + ?d) = (items u + ?d) + ?D" by (simp only: ac_simps)
    moreover have "(items t + ?a) + ?D = (items t + ?D) + ?a" by (simp only: ac_simps)
    ultimately show ?thesis by (simp only:)
  qed
  have "distinct (map fst (admissions es @ admitted_of e))"
    using IH(3,4) N by (cases "admitted_of e") (auto simp: less_le)
  moreover have "\<forall>a\<in>set (admissions es @ admitted_of e). fst a < next_ticket u"
    using IH(4) N by force
  ultimately show ?case using sub eq by simp
qed

text \<open>Where the entries of a state come from, one step back.\<close>

lemma admissions_update_subset:
  "set (concat (map admission_of (ws[i := w]))) \<subseteq>
     set (concat (map admission_of ws)) \<union> set (admission_of w)"
  using set_update_subset_insert [of ws i w] by auto

lemma step_origin:
  assumes "sched_inv s" and "sched_step runs s e t"
  shows "\<forall>a\<in>set (pending t @ running_admissions t).
      a \<in> set (pending s @ running_admissions s) \<or>
      (ad_ticket a, ad_job a, ad_context a) \<in> set (admitted_of e)"
    and "\<forall>c\<in>set (ready t) \<union> set (delivered_of e). c \<in> set (ready s) \<or>
      (\<exists>a\<in>set (running_admissions s). cp_ticket c = ad_ticket a \<and> cp_context c = ad_context a \<and>
        runs (ad_job a) (cp_completed_execution c))"
proof -
  have "(\<forall>a\<in>set (pending t @ running_admissions t).
      a \<in> set (pending s @ running_admissions s) \<or>
      (ad_ticket a, ad_job a, ad_context a) \<in> set (admitted_of e)) \<and>
    (\<forall>c\<in>set (ready t) \<union> set (delivered_of e). c \<in> set (ready s) \<or>
      (\<exists>a\<in>set (running_admissions s). cp_ticket c = ad_ticket a \<and> cp_context c = ad_context a \<and>
        runs (ad_job a) (cp_completed_execution c)))"
    using assms(2)
  proof cases
    case (step_admit start job ctx r)
    from step_admit(2) show ?thesis
    proof (cases rule: admit_cases)
      case stale
      with assms(1) show ?thesis by (auto simp: inv_defs)
    qed (use step_admit in auto)
  next
    case (step_take i a u)
    from step_take(6) obtain rest where u: "u = s\<lparr>running := running s + 1, pending := rest\<rparr>"
      "pending s = a # rest"
      by (auto simp: take_admitted_def split: list.splits if_splits)
    with step_take admissions_update_subset [of "workers s" i "Running a"] show ?thesis
      by (auto simp: running_admissions_def)
  next
    case (step_exit i u)
    from step_exit(6) have "u = s" by (auto simp: take_admitted_def split: list.splits if_splits)
    with step_exit admissions_update_subset [of "workers s" i Exited] show ?thesis
      by (auto simp: running_admissions_def)
  next
    case (step_finish i a outcome)
    have mem: "a \<in> set (running_admissions s)"
      using nth_mem [OF step_finish(3)] step_finish(4)
      by (force simp: running_admissions_def)
    have sub: "set (concat (map admission_of ((workers s)[i := Waiting]))) \<subseteq> set (running_admissions s)"
      using admissions_update_subset [of "workers s" i Waiting] by (simp add: running_admissions_def)
    let ?t = "run_one a outcome (s\<lparr>workers := (workers s)[i := Waiting]\<rparr>)"
    have p: "set (pending ?t) \<subseteq> set (pending s)" and w: "workers ?t = (workers s)[i := Waiting]"
      by (cases outcome; simp add: run_one_def finish_def break_scheduler_def Let_def)+
    have r: "set (ready ?t) \<subseteq> set (ready s) \<union> {c. cp_ticket c = ad_ticket a \<and>
        cp_context c = ad_context a \<and> outcome = Inr (cp_completed_execution c)}"
      by (cases outcome) (auto simp: run_one_def finish_def break_scheduler_def Let_def)
    have "set (running_admissions ?t) \<subseteq> set (running_admissions s)"
      using sub w by (simp add: running_admissions_def)
    moreover have "c \<in> set (ready s) \<or>
        (\<exists>a\<in>set (running_admissions s). cp_ticket c = ad_ticket a \<and> cp_context c = ad_context a \<and>
          runs (ad_job a) (cp_completed_execution c))" if "c \<in> set (ready ?t)" for c
      using r that mem step_finish(5) by blast
    ultimately show ?thesis
      using p unfolding step_finish(1,2) by auto
  next
    case (step_deliver owned_by c)
    from nowait_Some [OF step_deliver(2)] obtain rest where
      "mset (ready s) = add_mset c (mset rest)"
      "t = release_ticket (cp_ticket c) (s\<lparr>ready := rest\<rparr>)" by blast
    moreover from this(1) have "set (ready s) = insert c (set rest)"
      by (metis set_mset_add_mset_insert set_mset_mset)
    ultimately show ?thesis using step_deliver by (auto simp: release_ticket_def running_admissions_def)
  next
    case (step_shutdown preserve)
    then show ?thesis using all_exited [of "workers s"]
      by (auto simp: shutdown_joined_def discard_completions_def running_admissions_def Let_def)
  qed (auto simp: close_intake_def cancel_all_def expire_def release_owned_def
      discard_completions_def running_admissions_def Let_def)
  then show "\<forall>a\<in>set (pending t @ running_admissions t).
      a \<in> set (pending s @ running_admissions s) \<or>
      (ad_ticket a, ad_job a, ad_context a) \<in> set (admitted_of e)"
    "\<forall>c\<in>set (ready t) \<union> set (delivered_of e). c \<in> set (ready s) \<or>
      (\<exists>a\<in>set (running_admissions s). cp_ticket c = ad_ticket a \<and> cp_context c = ad_context a \<and>
        runs (ad_job a) (cp_completed_execution c))"
    by blast+
qed

lemma run_origin:
  assumes "trace (sched_step runs) s es t" and "ExecutionScheduler_new n = Inr s"
  shows "(\<forall>a\<in>set (pending t @ running_admissions t).
      (ad_ticket a, ad_job a, ad_context a) \<in> set (admissions es)) \<and>
    (\<forall>c\<in>set (ready t) \<union> set (deliveries es). \<exists>job.
      (cp_ticket c, job, cp_context c) \<in> set (admissions es) \<and> runs job (cp_completed_execution c))"
  using assms
proof (induction rule: trace.induct)
  case (trace_nil s)
  then show ?case
    by (auto simp: ExecutionScheduler_new_def running_admissions_def split: if_splits)
next
  case (trace_snoc s es t e u)
  have inv: "sched_inv t" using scheduler.trace_inv [OF trace_snoc.hyps(1)] inv_new trace_snoc.prems by blast
  note O = step_origin [OF inv trace_snoc.hyps(2)]
  have IH: "\<forall>a\<in>set (pending t @ running_admissions t).
      (ad_ticket a, ad_job a, ad_context a) \<in> set (admissions es)"
    "\<forall>c\<in>set (ready t) \<union> set (deliveries es). \<exists>job.
      (cp_ticket c, job, cp_context c) \<in> set (admissions es) \<and> runs job (cp_completed_execution c)"
    using trace_snoc.IH trace_snoc.prems by auto
  have "\<exists>job. (cp_ticket c, job, cp_context c) \<in> set (admissions (es @ [e])) \<and>
      runs job (cp_completed_execution c)"
    if "c \<in> set (ready u) \<union> set (deliveries (es @ [e]))" for c
  proof (cases "c \<in> set (ready t) \<union> set (deliveries es)")
    case True
    with IH(2) show ?thesis by auto
  next
    case False
    with that O(2) obtain a where "a \<in> set (running_admissions t)" "cp_ticket c = ad_ticket a"
      "cp_context c = ad_context a" "runs (ad_job a) (cp_completed_execution c)" by auto
    with IH(1) show ?thesis by auto
  qed
  moreover have "\<forall>a\<in>set (pending u @ running_admissions u).
      (ad_ticket a, ad_job a, ad_context a) \<in> set (admissions (es @ [e]))"
    using O(1) IH(1) by auto
  ultimately show ?case by blast
qed

section \<open>Progress\<close>

fun worker_event :: "'c event \<Rightarrow> bool" where
  "worker_event (WorkerTake _) = True"
| "worker_event (WorkerExit _) = True"
| "worker_event (WorkerFinish _ _) = True"
| "worker_event _ = False"

lemma no_waiting: "Waiting \<notin> set ws \<Longrightarrow> live_workers ws = length (concat (map admission_of ws))"
proof (induction ws)
  case (Cons w ws)
  then show ?case by (cases w) (auto simp: live_workers_def)
qed (simp add: live_workers_def)

lemma no_residents:
  assumes "sched_inv s" and "broken s = None" and "residents s = 0"
  shows "pending s = [] \<and> running_admissions s = [] \<and> ready s = []"
proof -
  have "int (length (pending s)) + int (length (running_admissions s)) + int (length (ready s)) = 0"
    using assms by (simp add: sched_inv_def counts_ok_def)
  then have "length (pending s) = 0 \<and> length (running_admissions s) = 0 \<and> length (ready s) = 0"
    by linarith
  then show ?thesis by simp
qed

lemma pending_can_start:
  assumes "sched_inv s" and "pending s \<noteq> []"
  shows "\<exists>i t. sched_step runs s (WorkerTake i) t"
proof -
  have nb: "broken s = None" using assms by (auto simp: inv_defs)
  have "length (running_admissions s) < live_workers (workers s)"
    using assms by (auto simp: inv_defs neq_Nil_conv)
  then have "Waiting \<in> set (workers s)"
    using no_waiting [of "workers s"] by (auto simp: running_admissions_def)
  then obtain i where i: "i < length (workers s)" "workers s ! i = Waiting"
    by (auto simp: in_set_conv_nth)
  moreover obtain a u where "take_admitted s = (Some a, u)"
    using assms(2) nb by (auto simp: take_admitted_def neq_Nil_conv)
  ultimately show ?thesis
    using assms(2) by (blast intro: step_take [unfolded take_admitted_wait_def])
qed

lemma running_can_finish:
  assumes "sched_inv s" and "running s > 0"
  shows "\<exists>i a. i < length (workers s) \<and> workers s ! i = Running a \<and>
    (\<forall>c. runs (ad_job a) c \<longrightarrow> (\<exists>t. sched_step runs s (WorkerFinish i (Inr c)) t)) \<and>
    (\<forall>f. \<exists>t. sched_step runs s (WorkerFinish i (Inl f)) t)"
proof -
  have "running_admissions s \<noteq> []" using assms by (auto simp: inv_defs)
  then obtain w where w: "w \<in> set (workers s)" "admission_of w \<noteq> []"
    by (auto simp: running_admissions_def)
  from w(2) obtain a where "w = Running a" by (cases w) auto
  with w obtain i where i: "i < length (workers s)" "workers s ! i = Running a"
    by (auto simp: in_set_conv_nth)
  show ?thesis
    by (intro exI [of _ i] exI [of _ a]) (auto intro!: i exI step_finish)
qed

definition work_left :: "'c ExecutionScheduler \<Rightarrow> nat" where
  "work_left s = 2 * length (pending s) + length (running_admissions s) + live_workers (workers s)"

lemma worker_step_decreases:
  assumes "sched_step runs s e t" and "worker_event e"
  shows "work_left t < work_left s"
  using assms
proof cases
  case (step_take i a u)
  from step_take(6) obtain rest where u: "u = s\<lparr>running := running s + 1, pending := rest\<rparr>"
    "pending s = a # rest" by (auto simp: take_admitted_def split: list.splits if_splits)
  have "length (running_admissions t) = Suc (length (running_admissions s))"
    using admissions_update [OF step_take(3), of "Running a"] step_take(2,4) u
    by (simp add: running_admissions_def) (metis size_add_mset size_mset)
  moreover have "live_workers (workers t) = live_workers (workers s)"
    using filter_update [OF step_take(3), of "\<lambda>w. w \<noteq> Exited" "Running a"] step_take(2,4) u
    by (simp add: live_workers_def)
  ultimately show ?thesis using step_take(2) u by (simp add: work_left_def)
next
  case (step_exit i u)
  then have u: "u = s" by (auto simp: take_admitted_def split: list.splits if_splits)
  have "length (running_admissions t) = length (running_admissions s)"
    using admissions_update [OF step_exit(3), of Exited] step_exit(2,4) u
    by (simp add: running_admissions_def) (metis size_mset)
  moreover have "live_workers (workers t) + 1 = live_workers (workers s)"
    using filter_update [OF step_exit(3), of "\<lambda>w. w \<noteq> Exited" Exited] step_exit(2,4) u
    by (simp add: live_workers_def)
  ultimately show ?thesis using step_exit(2) u by (simp add: work_left_def)
next
  case (step_finish i a outcome)
  let ?ws = "(workers s)[i := Waiting]"
  have t: "workers t = ?ws" "length (pending t) \<le> length (pending s)"
    unfolding step_finish(2)
    by (cases outcome; simp add: run_one_def finish_def break_scheduler_def Let_def)+
  have "Suc (length (running_admissions t)) = length (running_admissions s)"
    using admissions_update [OF step_finish(3), of Waiting] step_finish(4) t
    by (simp add: running_admissions_def) (metis size_add_mset size_mset)
  moreover have "live_workers (workers t) = live_workers (workers s)"
    using filter_update [OF step_finish(3), of "\<lambda>w. w \<noteq> Exited" Waiting] step_finish(4) t
    by (simp add: live_workers_def)
  ultimately show ?thesis using t(2) by (simp add: work_left_def)
qed simp_all

lemma worker_trace_bounded:
  "trace (sched_step runs) s es t \<Longrightarrow> list_all worker_event es \<Longrightarrow>
     work_left t + length es \<le> work_left s"
  by (induction rule: trace.induct) (force dest: worker_step_decreases)+

section \<open>A break always shows\<close>

fun tears_down :: "'c event \<Rightarrow> bool" where
  "tears_down (ShutdownJoined preserve) = (\<not> preserve)"
| "tears_down Discard = True"
| "tears_down _ = False"

definition break_shows :: "'c ExecutionScheduler \<Rightarrow> bool" where
  "break_shows s =
     (sched_inv s \<and>
      (broken s \<noteq> None \<longrightarrow> residents s > running s + int (length (ready s))))"

interpretation breaking: invariant_system
  "\<lambda>s e t. sched_step runs s e t \<and> \<not> tears_down e" break_shows
  for runs :: "ExecutionJob \<Rightarrow> CompletedExecution \<Rightarrow> bool"
proof
  fix s t :: "'a ExecutionScheduler" and e
  assume inv: "break_shows s" and step: "sched_step runs s e t \<and> \<not> tears_down e"
  have sinv: "sched_inv s" using inv by (simp add: break_shows_def)
  have tinv: "sched_inv t" using scheduler.step_inv [OF sinv] step by blast
  have "residents t > running t + int (length (ready t))" if "broken t \<noteq> None"
    using step [THEN conjunct1]
  proof cases
    case (step_admit start job ctx r)
    from step_admit(2) show ?thesis
    proof (cases rule: admit_cases)
      case refused
      then show ?thesis using inv that by (simp add: break_shows_def)
    next
      case dropped
      have "broken s = None" "\<not> intake_closed s"
        using dropped(2-) step_admit(2) sinv by (auto simp: admit_def inv_defs split: if_splits)
      then show ?thesis using dropped sinv by (simp add: inv_defs)
    next
      case stale
      then show ?thesis using sinv by (auto simp: inv_defs)
    qed (use that in simp)
  next
    case (step_finish i a outcome)
    then show ?thesis using inv that
      by (cases outcome; cases "broken s")
        (auto simp: break_shows_def inv_defs run_one_def finish_def break_scheduler_def Let_def)
  next
    case (step_deliver owned_by c)
    from nowait_Some [OF step_deliver(2)] obtain rest where
      r: "mset (ready s) = add_mset c (mset rest)"
      "t = release_ticket (cp_ticket c) (s\<lparr>ready := rest\<rparr>)" by blast
    from r(1) have "length (ready s) = Suc (length rest)" by (metis size_add_mset size_mset)
    with r inv that show ?thesis by (auto simp: break_shows_def release_ticket_def)
  next
    case (step_release owned_by)
    have "length (filter (\<lambda>c. owned_by (cp_context c)) (ready s)) +
        length (filter (\<lambda>c. \<not> owned_by (cp_context c)) (ready s)) = length (ready s)"
      by (rule sum_length_filter_compl)
    with step_release inv that show ?thesis by (auto simp: break_shows_def release_owned_def Let_def)
  qed (use inv that step in \<open>auto simp: break_shows_def close_intake_def cancel_all_def expire_def
      take_admitted_def shutdown_joined_def Let_def split: list.splits if_splits\<close>)
  with tinv show "break_shows t" by (simp add: break_shows_def)
qed


section \<open>A sample run\<close>

definition sample_job :: ExecutionJob where
  "sample_job = \<lparr>job_id = 1, job_target = TrustedCommandTarget [''/bin/true''] [],
     job_env = \<lparr>eg_kind = EnvGrantKind.NONE, eg_variables = [], eg_excluded_var_names = []\<rparr>,
     job_budgets = Budgets_unbudgeted, job_workspace = WorkingDirectoryGrant_scratch\<rparr>"

definition sample_time :: datetime where
  "sample_time = \<lparr>year = 2024, month = 1, day = 1, hour = 0, minute = 0, second = 0,
     microsecond = 0, utcoffset = Some 0\<rparr>"

definition sample_completed :: CompletedExecution where
  "sample_completed =
     (let i = \<lparr>eid_job_id = 1, eid_attempt_id = 2\<rparr>
      in \<lparr>ce_result = \<lparr>res_execution_id = i, res_outcome = ExitedOutcome 0,
            res_attribution = attribute_outcome (ExitedOutcome 0), res_protocol_outputs = [],
            res_payload_outputs = empty_payload_outputs,
            res_measurements = \<lparr>ms_started_at = sample_time, ms_finished_at = sample_time,
              ms_duration_ns = 0, ms_teardown_duration_ns = 0, ms_input_bytes = 0,
              ms_protocol_bytes_received = 0\<rparr>\<rparr>,
          ce_record_receipt = FakeRecordReceipt i\<rparr>)"

abbreviation one_admitted :: "ExecutionJob \<Rightarrow> unit Admitted" where
  "one_admitted job \<equiv> \<lparr>ad_ticket = 0, ad_job = job, ad_context = ()\<rparr>"

abbreviation one_completion :: "CompletedExecution \<Rightarrow> unit Completion" where
  "one_completion c \<equiv> \<lparr>cp_ticket = 0, cp_completed_execution = c, cp_context = ()\<rparr>"

definition sample_admitted :: "unit Admitted" where
  "sample_admitted = \<lparr>ad_ticket = 0, ad_job = sample_job, ad_context = ()\<rparr>"

definition sample_completion :: "unit Completion" where
  "sample_completion = \<lparr>cp_ticket = 0, cp_completed_execution = sample_completed, cp_context = ()\<rparr>"

definition sample_state :: "unit Admitted list \<Rightarrow> unit Completion list \<Rightarrow> unit worker list \<Rightarrow>
    unit ExecutionScheduler" where
  "sample_state p r ws = \<lparr>capacity = 1, pending = p, ready = r, tokens = [0], cancelled = {},
     workers = ws, next_ticket = 1, residents = 1,
     running = (case ws of [Running _] \<Rightarrow> 1 | _ \<Rightarrow> 0), intake_closed = False,
     expired = False, broken = None\<rparr>"

lemma sample_run_admit:
  "sched_run runs 1 [Admit sample_job () None ADMITTED 0] (sample_state [sample_admitted] [] [Waiting])"
proof -
  define s0 :: "unit ExecutionScheduler" where
    "s0 = \<lparr>capacity = 1, pending = [], ready = [], tokens = [], cancelled = {}, workers = [],
       next_ticket = 0, residents = 0, running = 0, intake_closed = False, expired = False,
       broken = None\<rparr>"
  have "admit None sample_job () s0 = (ADMITTED, sample_state [sample_admitted] [] [Waiting])"
    by (simp add: admit_def s0_def ensure_worker_def sample_state_def sample_admitted_def Let_def)
  then have "sched_step runs s0 (Admit sample_job () None ADMITTED (next_ticket s0))
      (sample_state [sample_admitted] [] [Waiting])"
    by (rule step_admit)
  then have "trace (sched_step runs) s0 [Admit sample_job () None ADMITTED 0]
      (sample_state [sample_admitted] [] [Waiting])"
    by (intro trace_single) (simp add: s0_def)
  moreover have "ExecutionScheduler_new 1 = Inr s0" by (simp add: ExecutionScheduler_new_def s0_def)
  ultimately show ?thesis unfolding sched_run_def by blast
qed

lemma one_job_work:
  assumes "runs job c"
  shows "trace (sched_step runs) (sample_state [one_admitted job] [] [Waiting])
     [WorkerTake 0, WorkerFinish 0 (Inr c)] (sample_state [] [one_completion c] [Waiting])"
proof -
  have "take_admitted (sample_state [one_admitted job] [] [Waiting]) =
      (Some (one_admitted job), (sample_state [] [] [Waiting])\<lparr>running := 1\<rparr>)"
    by (simp add: take_admitted_def sample_state_def)
  from step_take [OF _ _ _ this, of 0 runs]
  have one: "sched_step runs (sample_state [one_admitted job] [] [Waiting]) (WorkerTake 0)
      (sample_state [] [] [Running (one_admitted job)])"
    by (simp add: sample_state_def take_admitted_wait_def)
  have "sched_step runs (sample_state [] [] [Running (one_admitted job)])
      (WorkerFinish 0 (Inr c))
      (run_one (one_admitted job) (Inr c)
        ((sample_state [] [] [Running (one_admitted job)])\<lparr>workers :=
          (workers (sample_state [] [] [Running (one_admitted job)]))[0 := Waiting]\<rparr>))"
    by (rule step_finish) (simp_all add: sample_state_def assms)
  then have two: "sched_step runs (sample_state [] [] [Running (one_admitted job)])
      (WorkerFinish 0 (Inr c)) (sample_state [] [one_completion c] [Waiting])"
    by (simp add: run_one_def finish_def sample_state_def Let_def)
  have "trace (sched_step runs) (sample_state [] [] [Running (one_admitted job)])
      [WorkerFinish 0 (Inr c)] (sample_state [] [one_completion c] [Waiting])"
    using two by (rule trace_single)
  with one show ?thesis by (rule trace_Cons)
qed

lemma sample_work:
  "trace (sched_step (\<lambda>_ _. True)) (sample_state [sample_admitted] [] [Waiting])
     [WorkerTake 0, WorkerFinish 0 (Inr sample_completed)] (sample_state [] [sample_completion] [Waiting])"
  unfolding sample_admitted_def sample_completion_def by (rule one_job_work) (rule TrueI)

lemma sched_run_append: "sched_run runs n es s \<Longrightarrow> trace (sched_step runs) s fs t \<Longrightarrow> sched_run runs n (es @ fs) t"
  unfolding sched_run_def by (blast intro: trace_append)

lemmas sample_run = sched_run_append [OF sample_run_admit sample_work]

section \<open>Properties\<close>

text \<open>
  C15: in every state a scheduler reaches, whatever drivers, workers and thread starts do
  and in whatever order: it holds no more residents than its capacity, counts every owed
  completion as a resident (exactly, until it breaks), never has more threads than its
  capacity, and has for every queued job a worker thread of its own that is free to take it.
\<close>

theorem scheduler_bounds:
  assumes "sched_run runs n es s"
  shows "residents s \<le> capacity s \<and>
    int (length (pending s)) + running s + int (length (ready s)) \<le> residents s \<and>
    (broken s = None \<longrightarrow>
      residents s = int (length (pending s)) + running s + int (length (ready s))) \<and>
    running s = int (length (running_admissions s)) \<and>
    int (length (workers s)) \<le> capacity s \<and>
    int (length (pending s)) \<le> int (live_workers (workers s)) - running s"
  using sched_run_inv [OF assms] by (auto simp: sched_inv_def counts_ok_def)

theorem scheduler_bounds_witness:
  "residents (sample_state [sample_admitted] [] [Waiting]) \<le> 1"
  using scheduler_bounds [OF sample_run_admit [of "\<lambda>_ _. True"]] by (simp add: sample_state_def)

text \<open>
  C16: every admitted job is delivered at most once and never twice, each delivered
  completion carries the ticket and the context of an admitted job and is a completion the
  executor gave for that very job; and as long as the scheduler is not broken and no owner
  gave completions up, the deliveries and what is still owed are together exactly the
  admissions, so once nothing is owed every job was delivered exactly once.
\<close>

theorem scheduler_delivers_exactly_once:
  assumes "sched_run runs n es s"
  shows "distinct (map fst (admissions es)) \<and> distinct (map cp_ticket (deliveries es)) \<and>
    (\<forall>c\<in>set (deliveries es). \<exists>job. (cp_ticket c, job, cp_context c) \<in> set (admissions es) \<and>
      runs job (cp_completed_execution c)) \<and>
    (broken s = None \<and> list_all (\<lambda>e. \<not> gives_up e) es \<longrightarrow>
      mset (map completion_item (deliveries es)) + items s = mset (map admission_item (admissions es))) \<and>
    (broken s = None \<and> list_all (\<lambda>e. \<not> gives_up e) es \<and> residents s = 0 \<longrightarrow>
      mset (map cp_ticket (deliveries es)) = mset (map fst (admissions es)))"
proof -
  from assms obtain s0 where new: "ExecutionScheduler_new n = Inr s0"
    and tr: "trace (sched_step runs) s0 es s" by (auto simp: sched_run_def)
  note C = run_conservation [OF tr new] and O = run_origin [OF tr new]
  have fst_item: "map fst (map admission_item as) = map fst as" for as :: "(int \<times> ExecutionJob \<times> 'a) list"
    by (simp add: admission_item_def split_beta)
  have fst_comp: "map fst (map completion_item cs) = map cp_ticket cs" for cs :: "'a Completion list"
    by (simp add: completion_item_def)
  have "mset (map completion_item (deliveries es)) \<subseteq># mset (map admission_item (admissions es))"
    using C by (meson mset_subset_eq_add_right subset_mset.order_trans)
  then have sub: "mset (map cp_ticket (deliveries es)) \<subseteq># mset (map fst (admissions es))"
    using image_mset_subseteq_mono [of _ _ fst] fst_item fst_comp by (metis mset_map)
  have d: "distinct (map cp_ticket (deliveries es))"
    unfolding distinct_count_atmost_1
  proof (intro allI)
    fix k
    have "count (mset (map cp_ticket (deliveries es))) k \<le> count (mset (map fst (admissions es))) k"
      using sub by (rule mset_subset_eq_count)
    also have "\<dots> \<le> 1" using C distinct_count_atmost_1 [of "map fst (admissions es)"] by auto
    finally show "count (mset (map cp_ticket (deliveries es))) k =
        (if k \<in> set (map cp_ticket (deliveries es)) then 1 else 0)"
      by (metis One_nat_def count_eq_zero_iff count_greater_eq_one_iff le_antisym set_mset_mset)
  qed
  have drained: "mset (map cp_ticket (deliveries es)) = mset (map fst (admissions es))"
    if "broken s = None" "list_all (\<lambda>e. \<not> gives_up e) es" "residents s = 0"
  proof -
    have "items s = {#}"
      using no_residents [OF sched_run_inv [OF assms]] that by (simp add: items_def)
    with C that have "mset (map completion_item (deliveries es)) = mset (map admission_item (admissions es))"
      by simp
    then show ?thesis using fst_item fst_comp by (metis mset_map)
  qed
  show ?thesis using C O d drained by (auto simp: add.commute)
qed


lemma sample_deliver:
  "trace (sched_step (\<lambda>_ _. True)) (sample_state [] [sample_completion] [Waiting])
     [Deliver None sample_completion]
     ((sample_state [] [] [Waiting])\<lparr>tokens := [], residents := 0\<rparr>)"
proof (rule trace_single, rule step_deliver)
  show "take_completion_nowait None (sample_state [] [sample_completion] [Waiting]) =
      (Inr (Some sample_completion), (sample_state [] [] [Waiting])\<lparr>tokens := [], residents := 0\<rparr>)"
    by (simp add: take_completion_nowait_def release_ticket_def sample_state_def sample_completion_def)
qed

theorem scheduler_delivers_exactly_once_witness:
  "mset (map cp_ticket (deliveries
     [Admit sample_job () None ADMITTED 0, WorkerTake 0, WorkerFinish 0 (Inr sample_completed),
      Deliver None sample_completion])) = {#0#}"
  using scheduler_delivers_exactly_once [OF sched_run_append [OF sample_run sample_deliver]]
  by (simp add: sample_state_def admissions_def)

text \<open>
  C17: a driver that waits for a completion is never left waiting: from any reached state the
  worker threads can take only a bounded number of steps, and when they can take none, every
  queued and running job is done and the wait of \<^verbatim>\<open>take_completion\<close> and of
  \<^verbatim>\<open>wait_for_quiescence\<close> is over.
\<close>

theorem scheduler_never_strands_a_driver:
  assumes "sched_run runs n es s" and "trace (sched_step runs) s fs t" and "list_all worker_event fs"
  shows "length fs \<le> 2 * length (pending s) + length (running_admissions s) + length (workers s) \<and>
    ((\<nexists>e u. worker_event e \<and> sched_step runs t e u) \<longrightarrow> quiescent t \<and> take_completion_wait t)"
proof
  have "work_left s \<le> 2 * length (pending s) + length (running_admissions s) + length (workers s)"
    by (simp add: work_left_def live_workers_def)
  with worker_trace_bounded [OF assms(2,3)]
  show "length fs \<le> 2 * length (pending s) + length (running_admissions s) + length (workers s)" by simp
  have inv: "sched_inv t"
    using scheduler.trace_inv [OF assms(2)] sched_run_inv [OF assms(1)] by blast
  show "(\<nexists>e u. worker_event e \<and> sched_step runs t e u) \<longrightarrow> quiescent t \<and> take_completion_wait t"
  proof
    assume none: "\<nexists>e u. worker_event e \<and> sched_step runs t e u"
    have "pending t = []"
      using pending_can_start [OF inv, of runs] none worker_event.simps(1) by blast
    moreover have "\<not> running t > 0"
      using running_can_finish [OF inv, of runs] none worker_event.simps(3) by blast
    then have "running t = 0" using inv by (simp add: inv_defs)
    ultimately show "quiescent t \<and> take_completion_wait t"
      by (simp add: quiescent_def take_completion_wait_def)
  qed
qed

theorem scheduler_never_strands_a_driver_witness:
  "length [WorkerTake 0, WorkerFinish 0 (Inr sample_completed) :: unit event] \<le> 3"
  using scheduler_never_strands_a_driver [OF sample_run_admit sample_work]
  by (simp add: sample_state_def running_admissions_def)

lemma trace_restrict:
  "trace step s es t \<Longrightarrow> list_all P es \<Longrightarrow> trace (\<lambda>s e t. step s e t \<and> P e) s es t"
  by (induction rule: trace.induct) (auto intro: trace.intros)

text \<open>
  A break always surfaces: once the scheduler broke, and until its owner tears it down,
  it still counts residents, so a driver never takes the batch for finished; nothing is
  queued, nothing more is admitted, and the driver that has taken every buffered completion
  gets the scheduler-broken failure.
\<close>

theorem scheduler_break_surfaces:
  assumes "sched_run runs n es s" and "list_all (\<lambda>e. \<not> tears_down e) es" and "broken s \<noteq> None"
  shows "has_residents s \<and> pending s = [] \<and> \<not> can_admit s \<and>
    admit start job context s = (INTAKE_CLOSED, s) \<and>
    take_completion_wait s \<and>
    (ready s = [] \<longrightarrow> take_completion s = (Inl SchedulerBroken, s) \<and>
      take_completion_nowait owned_by s = (Inl SchedulerBroken, s))"
proof -
  from assms(1) obtain s0 where new: "ExecutionScheduler_new n = Inr s0"
    and tr: "trace (sched_step runs) s0 es s" by (auto simp: sched_run_def)
  have "break_shows s0"
    using new inv_new [OF new] by (auto simp: break_shows_def ExecutionScheduler_new_def split: if_splits)
  with breaking.trace_inv [OF trace_restrict [OF tr assms(2)]]
  have "break_shows s" by simp
  then have "residents s > running s + int (length (ready s))" and inv: "sched_inv s"
    using assms(3) by (auto simp: break_shows_def)
  then have "residents s > 0" by (simp add: inv_defs)
  then show ?thesis
    using inv assms(3)
    by (auto simp: has_residents_def can_admit_def admit_def take_completion_wait_def
        take_completion_def take_completion_nowait_def raise_if_broken_def inv_defs)
qed

theorem scheduler_break_surfaces_witness:
  "\<exists>s :: unit ExecutionScheduler. broken s \<noteq> None \<and> has_residents s \<and>
     take_completion s = (Inl SchedulerBroken, s)"
proof -
  define s0 :: "unit ExecutionScheduler" where
    "s0 = \<lparr>capacity = 1, pending = [], ready = [], tokens = [], cancelled = {}, workers = [],
       next_ticket = 0, residents = 0, running = 0, intake_closed = False, expired = False,
       broken = None\<rparr>"
  define s1 :: "unit ExecutionScheduler" where
    "s1 = \<lparr>capacity = 1, pending = [], ready = [], tokens = [], cancelled = {0}, workers = [],
       next_ticket = 1, residents = 1, running = 0, intake_closed = True, expired = False,
       broken = Some (OSError None)\<rparr>"
  have "admit (Some (OSError None)) sample_job () s0 = (INTAKE_CLOSED, s1)"
    by (simp add: admit_def s0_def s1_def ensure_worker_def break_scheduler_def Let_def)
  then have "trace (sched_step (\<lambda>_ _. True)) s0
      [Admit sample_job () (Some (OSError None)) INTAKE_CLOSED (next_ticket s0)] s1"
    by (intro trace_single step_admit)
  moreover have "ExecutionScheduler_new 1 = Inr s0" by (simp add: ExecutionScheduler_new_def s0_def)
  ultimately have run: "sched_run (\<lambda>_ _. True) 1
      [Admit sample_job () (Some (OSError None)) INTAKE_CLOSED (next_ticket s0)] s1"
    unfolding sched_run_def by blast
  have "broken s1 \<noteq> None" "ready s1 = []" by (simp_all add: s1_def)
  with scheduler_break_surfaces [OF run, of None sample_job "()" None] show ?thesis
    by (intro exI [of _ s1]) simp
qed

text \<open>
  Cancellation reaches all owed work: after \<^verbatim>\<open>cancel_all\<close> or \<^verbatim>\<open>expire\<close> the token of every
  queued, running or buffered job is set, and once the batch expired this holds in every
  later state, because later admissions are born cancelled.
\<close>

theorem scheduler_expiry_reaches_everything:
  assumes "sched_run runs n es s"
  shows "set_mset (live s) \<subseteq> cancelled (cancel_all s) \<and> set_mset (live s) \<subseteq> cancelled (expire s) \<and>
    (expired s \<longrightarrow> set_mset (live s) \<subseteq> cancelled s)"
  using sched_run_inv [OF assms] by (auto simp: sched_inv_def tickets_ok_def cancel_all_def expire_def)

theorem scheduler_expiry_reaches_everything_witness:
  "0 \<in> cancelled (expire (sample_state [sample_admitted] [] [Waiting]))"
  using scheduler_expiry_reaches_everything [OF sample_run_admit [of "\<lambda>_ _. True"]]
  by (simp add: live_def items_def sample_state_def sample_admitted_def)

section \<open>Completion order\<close>

fun finished_of :: "'c event \<Rightarrow> CompletedExecution list" where
  "finished_of (WorkerFinish i (Inr c)) = [c]"
| "finished_of _ = []"

fun filtered_delivery :: "'c event \<Rightarrow> bool" where
  "filtered_delivery (Deliver (Some f) c) = True"
| "filtered_delivery _ = False"

lemma step_order:
  assumes "sched_step runs s e t" and "\<not> gives_up e" and "\<not> filtered_delivery e"
  shows "map cp_completed_execution (delivered_of e @ ready t) =
    map cp_completed_execution (ready s) @ finished_of e"
  using assms
proof cases
  case (step_admit start job ctx r)
  from step_admit(2) show ?thesis
  proof (cases rule: admit_cases)
    case stale
    with step_admit show ?thesis
      by (cases start) (auto simp: admit_def ensure_worker_def break_scheduler_def Let_def split: if_splits)
  qed (use step_admit in \<open>cases r; simp\<close>)+
next
  case (step_finish i a outcome)
  then show ?thesis
    by (cases outcome) (auto simp: run_one_def finish_def break_scheduler_def Let_def)
next
  case (step_deliver owned_by c)
  with assms(3) have "owned_by = None" by (cases owned_by) auto
  with nowait_Some [OF step_deliver(2)] step_deliver show ?thesis by (auto simp: release_ticket_def)
qed (auto simp: close_intake_def cancel_all_def expire_def take_admitted_def shutdown_joined_def
    Let_def split: list.splits if_splits)

text \<open>
  With drivers that take whatever is ready, completions are delivered in the order in
  which the executions finished: the deliveries so far followed by the buffer are the
  finished executions in order.
\<close>

theorem scheduler_completion_order:
  assumes "sched_run runs n es s"
    and "list_all (\<lambda>e. \<not> gives_up e \<and> \<not> filtered_delivery e) es"
  shows "map cp_completed_execution (deliveries es @ ready s) = concat (map finished_of es)"
proof -
  from assms(1) obtain s0 where "ExecutionScheduler_new n = Inr s0"
    and tr: "trace (sched_step runs) s0 es s" by (auto simp: sched_run_def)
  then have "ready s0 = []" by (auto simp: ExecutionScheduler_new_def split: if_splits)
  with tr assms(2) show ?thesis
  proof (induction rule: trace.induct)
    case (trace_snoc s es t e u)
    then have "map cp_completed_execution (deliveries es @ ready t) = concat (map finished_of es)"
      by simp
    with step_order [OF trace_snoc.hyps(2)] trace_snoc.prems show ?case by simp
  qed simp
qed

theorem scheduler_completion_order_witness:
  "map cp_completed_execution (deliveries
     [Admit sample_job () None ADMITTED 0, WorkerTake 0, WorkerFinish 0 (Inr sample_completed),
      Deliver None sample_completion]) = [sample_completed]"
  using scheduler_completion_order [OF sched_run_append [OF sample_run sample_deliver]]
  by (simp add: sample_state_def)

end
