(* ===== verification/Batch.thy ===== *)
theory Batch
  imports Scheduler
begin

text \<open>
  The batch driver \<^verbatim>\<open>run_batch\<close> of \<^verbatim>\<open>scheduling/scheduler.py\<close> as a transition system: the
  generator's control point is part of the state, its loop over the source and the scheduler
  is cut at every call that takes the scheduler's lock, and the worker threads, the deadline
  watcher and the consumer interleave with it in any way. The specification is that a batch
  that returns has yielded, for every job of the source, exactly one completion of that job.
\<close>

section \<open>The generator\<close>

text \<open>
  Control points: the head of the admission loop, the call of \<^verbatim>\<open>admit\<close> with a pulled job, the
  test after that loop, the wait for a completion, the \<^verbatim>\<open>yield\<close>, the \<^verbatim>\<open>finally\<close> block (with the
  exception in flight) and the end.
\<close>

datatype phase =
    Filling
  | Admitting ExecutionJob
  | Testing
  | Taking
  | Yielding
  | Closing "py_exn option"
  | Done "py_exn option"

record batch =
  b_scheduler :: "unit ExecutionScheduler"
  b_source :: "ExecutionJob list"
  b_pulled :: "ExecutionJob list"
  b_exhausted :: bool
  b_carried :: "ExecutionJob option"
  b_yielded :: "CompletedExecution list"
  b_phase :: phase
  b_closed :: bool

definition run_batch_start :: "int \<Rightarrow> ExecutionJob list \<Rightarrow> (py_exn, batch) result" where
  "run_batch_start n jobs =
     bind_result (ExecutionScheduler_new n) (\<lambda>scheduler.
       Inr \<lparr>b_scheduler = scheduler, b_source = jobs, b_pulled = [], b_exhausted = False,
            b_carried = None, b_yielded = [], b_phase = Filling, b_closed = False\<rparr>)"

text \<open>\<^verbatim>\<open>while not exhausted and scheduler.can_admit()\<close> and the pull of the next job.\<close>

definition fill_step :: "batch \<Rightarrow> batch" where
  "fill_step b =
     (if b_exhausted b \<or> \<not> can_admit (b_scheduler b) then b\<lparr>b_phase := Testing\<rparr>
      else case b_carried b of
        Some job \<Rightarrow> b\<lparr>b_carried := None, b_phase := Admitting job\<rparr>
      | None \<Rightarrow>
          (case b_source b of
             [] \<Rightarrow> b\<lparr>b_exhausted := True, b_phase := Testing\<rparr>
           | job # rest \<Rightarrow>
               b\<lparr>b_source := rest, b_pulled := b_pulled b @ [job], b_phase := Admitting job\<rparr>))"

definition admit_step :: "py_exn option \<Rightarrow> ExecutionJob \<Rightarrow> batch \<Rightarrow> batch" where
  "admit_step start job b =
     (case admit start job () (b_scheduler b) of
        (ADMITTED, s) \<Rightarrow> b\<lparr>b_scheduler := s, b_phase := Filling\<rparr>
      | (INTAKE_CLOSED, s) \<Rightarrow> b\<lparr>b_scheduler := s, b_exhausted := True, b_phase := Testing\<rparr>
      | (NO_ROOM, s) \<Rightarrow> b\<lparr>b_scheduler := s, b_carried := Some job, b_phase := Testing\<rparr>)"

definition test_step :: "batch \<Rightarrow> batch" where
  "test_step b =
     (if b_exhausted b \<and> b_carried b = None \<and> \<not> has_residents (b_scheduler b)
      then b\<lparr>b_phase := Closing None\<rparr> else b\<lparr>b_phase := Taking\<rparr>)"

definition take_step :: "batch \<Rightarrow> batch" where
  "take_step b =
     (case take_completion (b_scheduler b) of
        (Inr (Some c), s) \<Rightarrow>
          b\<lparr>b_scheduler := s, b_yielded := b_yielded b @ [cp_completed_execution c],
            b_phase := Yielding\<rparr>
      | (Inr None, s) \<Rightarrow> b\<lparr>b_scheduler := s, b_phase := Closing None\<rparr>
      | (Inl e, s) \<Rightarrow> b\<lparr>b_scheduler := s, b_phase := Closing (Some e)\<rparr>)"

text \<open>Whether the deadline watcher expires the scheduler.\<close>

definition watch_batch_deadline :: "int \<Rightarrow> int \<Rightarrow> bool \<Rightarrow> bool \<Rightarrow> bool" where
  "watch_batch_deadline deadline_ns now_ns disarmed_while_waiting disarmed =
     (let remaining = deadline_ns - now_ns
      in \<not> (remaining > 0 \<and> disarmed_while_waiting) \<and> \<not> disarmed)"

datatype batch_event =
    Driver
  | Workers "unit event"
  | DeadlineWatcher
  | ConsumerCloses
  | SourceRaises py_exn

inductive batch_step ::
  "(ExecutionJob \<Rightarrow> CompletedExecution \<Rightarrow> bool) \<Rightarrow> batch \<Rightarrow> batch_event \<Rightarrow> batch \<Rightarrow> bool"
  for runs :: "ExecutionJob \<Rightarrow> CompletedExecution \<Rightarrow> bool" where
  batch_fill: "b_phase b = Filling \<Longrightarrow> batch_step runs b Driver (fill_step b)"
| batch_admit: "b_phase b = Admitting job \<Longrightarrow> batch_step runs b Driver (admit_step start job b)"
| batch_test: "b_phase b = Testing \<Longrightarrow> batch_step runs b Driver (test_step b)"
| batch_take: "b_phase b = Taking \<Longrightarrow> take_completion_wait (b_scheduler b) \<Longrightarrow>
     batch_step runs b Driver (take_step b)"
| batch_resume: "b_phase b = Yielding \<Longrightarrow> batch_step runs b Driver (b\<lparr>b_phase := Filling\<rparr>)"
| batch_close: "b_phase b = Yielding \<Longrightarrow>
     batch_step runs b ConsumerCloses (b\<lparr>b_phase := Closing None, b_closed := True\<rparr>)"
| batch_raise: "b_phase b = Filling \<Longrightarrow> \<not> b_exhausted b \<Longrightarrow>
     batch_step runs b (SourceRaises e) (b\<lparr>b_phase := Closing (Some e)\<rparr>)"
| batch_intake: "b_phase b = Closing r \<Longrightarrow> \<not> intake_closed (b_scheduler b) \<Longrightarrow>
     batch_step runs b Driver (b\<lparr>b_scheduler := close_intake (b_scheduler b)\<rparr>)"
| batch_done: "b_phase b = Closing r \<Longrightarrow> intake_closed (b_scheduler b) \<Longrightarrow>
     quiescent (b_scheduler b) \<Longrightarrow> list_all (\<lambda>w. w = Exited) (workers (b_scheduler b)) \<Longrightarrow>
     batch_step runs b Driver
       (b\<lparr>b_scheduler := shutdown_joined False (b_scheduler b), b_phase := Done r\<rparr>)"
| batch_workers: "worker_event e \<Longrightarrow> sched_step runs (b_scheduler b) e s \<Longrightarrow>
     batch_step runs b (Workers e) (b\<lparr>b_scheduler := s\<rparr>)"
| batch_deadline: "(\<And>r. b_phase b \<noteq> Done r) \<Longrightarrow>
     batch_step runs b DeadlineWatcher (b\<lparr>b_scheduler := expire (b_scheduler b)\<rparr>)"

definition batch_run ::
  "(ExecutionJob \<Rightarrow> CompletedExecution \<Rightarrow> bool) \<Rightarrow> int \<Rightarrow> ExecutionJob list \<Rightarrow> batch_event list \<Rightarrow>
     batch \<Rightarrow> bool" where
  "batch_run runs n jobs es b =
     (\<exists>b0. run_batch_start n jobs = Inr b0 \<and> trace (batch_step runs) b0 es b)"

section \<open>What the scheduler delivered\<close>

definition admitted_jobs :: "'c event list \<Rightarrow> ExecutionJob list" where
  "admitted_jobs es = map (\<lambda>a. fst (snd a)) (admissions es)"

text \<open>\<open>matches runs jobs cs\<close>: the completions are those of the jobs, one each, in some order.\<close>

definition matches ::
  "(ExecutionJob \<Rightarrow> CompletedExecution \<Rightarrow> bool) \<Rightarrow> ExecutionJob list \<Rightarrow> CompletedExecution list \<Rightarrow> bool" where
  "matches runs jobs cs = (\<exists>js. mset js = mset jobs \<and> list_all2 runs js cs)"

lemma drained_delivery:
  assumes "sched_run runs n es s" and "broken s = None" and "list_all (\<lambda>e. \<not> gives_up e) es"
    and "residents s = 0"
  shows "matches runs (admitted_jobs es) (map cp_completed_execution (deliveries es))"
proof -
  from assms(1) obtain s0 where new: "ExecutionScheduler_new n = Inr s0"
    and tr: "trace (sched_step runs) s0 es s" by (auto simp: sched_run_def)
  note C = run_conservation [OF tr new] and O = run_origin [OF tr new]
  define job_of where "job_of k = fst (the (map_of (admissions es) k))" for k
  have dist: "distinct (map fst (admissions es))" using C by blast
  have job_of: "job_of k = job" if "(k, job, ctx) \<in> set (admissions es)" for k job ctx
    using map_of_is_SomeI [OF dist that] by (simp add: job_of_def)
  have "items s = {#}"
    using no_residents [OF sched_run_inv [OF assms(1)] assms(2,4)] by (simp add: items_def)
  with C assms(2,3) have "mset (map completion_item (deliveries es)) = mset (map admission_item (admissions es))"
    by simp
  then have "image_mset fst (mset (map completion_item (deliveries es))) =
      image_mset fst (mset (map admission_item (admissions es)))" by simp
  then have tickets: "mset (map cp_ticket (deliveries es)) = mset (map fst (admissions es))"
    by (simp add: completion_item_def admission_item_def image_mset.compositionality o_def split_beta)
  let ?js = "map (\<lambda>c. job_of (cp_ticket c)) (deliveries es)"
  have "mset ?js = image_mset job_of (mset (map cp_ticket (deliveries es)))"
    by (simp add: image_mset.compositionality o_def)
  also have "\<dots> = mset (map (\<lambda>a. job_of (fst a)) (admissions es))"
    unfolding tickets by (simp add: image_mset.compositionality o_def)
  also have "map (\<lambda>a. job_of (fst a)) (admissions es) = admitted_jobs es"
    unfolding admitted_jobs_def by (rule map_cong) (auto simp: job_of)
  finally have "mset ?js = mset (admitted_jobs es)" .
  moreover have "list_all2 runs ?js (map cp_completed_execution (deliveries es))"
    using O job_of by (auto simp: list_all2_conv_all_nth dest!: nth_mem) blast
  ultimately show ?thesis unfolding matches_def by blast
qed

section \<open>The invariant of a batch\<close>

fun active :: "phase \<Rightarrow> bool" where
  "active (Closing _) = False"
| "active (Done _) = False"
| "active _ = True"

fun held :: "phase \<Rightarrow> ExecutionJob list" where
  "held (Admitting job) = [job]"
| "held _ = []"

text \<open>Pulled jobs that are neither yielded nor counted as residents.\<close>

definition slack :: "batch \<Rightarrow> int" where
  "slack b = int (length (b_pulled b)) - int (length (b_yielded b)) - residents (b_scheduler b)"

definition driver_ok :: "ExecutionJob list \<Rightarrow> unit event list \<Rightarrow> batch \<Rightarrow> bool" where
  "driver_ok jobs es b =
     (b_carried b = None \<and>
      (broken (b_scheduler b) = None \<longrightarrow> b_pulled b = admitted_jobs es @ held (b_phase b)) \<and>
      (intake_closed (b_scheduler b) \<longrightarrow> broken (b_scheduler b) \<noteq> None) \<and>
      (b_exhausted b \<and> broken (b_scheduler b) = None \<longrightarrow> b_source b = []) \<and>
      (b_phase b = Testing \<and> \<not> b_exhausted b \<or> b_phase b = Taking \<longrightarrow> residents (b_scheduler b) > 0) \<and>
      0 \<le> slack b \<and> slack b \<le> 1 \<and> slack b + residents (b_scheduler b) \<le> capacity (b_scheduler b) \<and>
      (\<not> b_exhausted b \<longrightarrow> slack b = int (length (held (b_phase b)))) \<and>
      (held (b_phase b) \<noteq> [] \<longrightarrow> \<not> b_exhausted b))"

definition batch_inv_at ::
  "(ExecutionJob \<Rightarrow> CompletedExecution \<Rightarrow> bool) \<Rightarrow> int \<Rightarrow> ExecutionJob list \<Rightarrow> unit event list \<Rightarrow>
     batch \<Rightarrow> bool" where
  "batch_inv_at runs n jobs es b =
     (sched_run runs n es (b_scheduler b) \<and>
      capacity (b_scheduler b) = n \<and> jobs = b_pulled b @ b_source b \<and>
      ((\<forall>r. b_phase b \<noteq> Done r) \<longrightarrow> list_all (\<lambda>e. \<not> gives_up e) es) \<and>
      map cp_completed_execution (deliveries es) = b_yielded b \<and>
      int (length (b_pulled b)) \<le> int (length (b_yielded b)) + n \<and>
      (active (b_phase b) \<longrightarrow> driver_ok jobs es b) \<and>
      ((b_phase b = Closing None \<or> b_phase b = Done None) \<and> \<not> b_closed b \<longrightarrow>
        matches runs jobs (b_yielded b)))"

definition batch_inv ::
  "(ExecutionJob \<Rightarrow> CompletedExecution \<Rightarrow> bool) \<Rightarrow> int \<Rightarrow> ExecutionJob list \<Rightarrow> batch \<Rightarrow> bool" where
  "batch_inv runs n jobs b = (\<exists>es. batch_inv_at runs n jobs es b)"

lemma sched_run_snoc: "sched_run runs n es s \<Longrightarrow> sched_step runs s e t \<Longrightarrow> sched_run runs n (es @ [e]) t"
  by (rule sched_run_append) (auto intro: trace_single)

lemma step_capacity:
  assumes "sched_step runs s e t"
  shows "capacity t = capacity s"
  using assms
proof cases
  case (step_admit start job ctx r)
  then show ?thesis
    by (cases start) (auto simp: admit_def ensure_worker_def break_scheduler_def Let_def split: if_splits)
next
  case (step_finish i a outcome)
  then show ?thesis by (cases outcome) (auto simp: run_one_def finish_def break_scheduler_def Let_def)
next
  case (step_deliver owned_by c)
  with nowait_Some [OF step_deliver(2)] show ?thesis by (auto simp: release_ticket_def)
qed (auto simp: close_intake_def cancel_all_def expire_def take_admitted_def release_owned_def
    shutdown_joined_def discard_completions_def Let_def split: list.splits if_splits)

lemma not_gives_up_tears: "list_all (\<lambda>e. \<not> gives_up e) es \<Longrightarrow> list_all (\<lambda>e. \<not> tears_down e) es"
proof (induction es)
  case (Cons e es)
  then show ?case by (cases e) auto
qed simp

lemma run_break_shows:
  assumes "sched_run runs n es s" and "list_all (\<lambda>e. \<not> gives_up e) es"
  shows "break_shows s"
proof -
  from assms(1) obtain s0 where new: "ExecutionScheduler_new n = Inr s0"
    and tr: "trace (sched_step runs) s0 es s" by (auto simp: sched_run_def)
  have "break_shows s0"
    using new inv_new [OF new] by (auto simp: break_shows_def ExecutionScheduler_new_def split: if_splits)
  with breaking.trace_inv [OF trace_restrict [OF tr not_gives_up_tears [OF assms(2)]]]
  show ?thesis by simp
qed

lemma broken_residents: "break_shows s \<Longrightarrow> broken s \<noteq> None \<Longrightarrow> residents s > 0"
proof -
  assume "break_shows s" "broken s \<noteq> None"
  then have "residents s > running s + int (length (ready s))" "0 \<le> running s"
    by (auto simp: break_shows_def sched_inv_def counts_ok_def)
  then show ?thesis by simp
qed

text \<open>A worker step neither admits nor delivers, and keeps what the driver relies on.\<close>

lemma worker_step_frame:
  assumes "sched_step runs s e t" and "worker_event e"
  shows "residents t = residents s" and "admitted_of e = []" and "delivered_of e = []"
    and "\<not> gives_up e" and "intake_closed t \<Longrightarrow> intake_closed s \<or> broken t \<noteq> None"
proof -
  show "admitted_of e = []" "delivered_of e = []" "\<not> gives_up e"
    using assms(2) by (cases e; simp)+
  have "residents t = residents s \<and> (intake_closed t \<longrightarrow> intake_closed s \<or> broken t \<noteq> None)"
    using assms
  proof cases
    case (step_take i a u)
    then show ?thesis by (auto simp: take_admitted_def split: list.splits if_splits)
  next
    case (step_exit i u)
    then show ?thesis by (auto simp: take_admitted_def split: list.splits if_splits)
  next
    case (step_finish i a outcome)
    then show ?thesis
      by (cases outcome) (auto simp: run_one_def finish_def break_scheduler_def Let_def)
  qed simp_all
  then show "residents t = residents s" "intake_closed t \<Longrightarrow> intake_closed s \<or> broken t \<noteq> None"
    by blast+
qed

lemma batch_inv_start:
  assumes "run_batch_start n jobs = Inr b"
  shows "batch_inv runs n jobs b"
proof -
  from assms obtain s where s: "ExecutionScheduler_new n = Inr s"
    and b: "b = \<lparr>b_scheduler = s, b_source = jobs, b_pulled = [], b_exhausted = False,
      b_carried = None, b_yielded = [], b_phase = Filling, b_closed = False\<rparr>"
    by (auto simp: run_batch_start_def bind_result_eq_Inr)
  have "sched_run runs n [] s"
    unfolding sched_run_def by (rule exI [of _ s]) (simp add: s trace_nil)
  with s have "batch_inv_at runs n jobs [] b"
    by (auto simp: batch_inv_at_def b driver_ok_def slack_def admitted_jobs_def
        ExecutionScheduler_new_def split: if_splits)
  then show ?thesis unfolding batch_inv_def by blast
qed


section \<open>Preservation\<close>

lemma batch_inv_workers:
  assumes inv: "batch_inv_at runs n jobs es b" and step: "sched_step runs (b_scheduler b) e s"
    and "worker_event e"
  shows "batch_inv_at runs n jobs (es @ [e]) (b\<lparr>b_scheduler := s\<rparr>)"
proof -
  note F = worker_step_frame [OF step assms(3)] and B = step_broken [OF step]
  have "driver_ok jobs (es @ [e]) (b\<lparr>b_scheduler := s\<rparr>)" if "driver_ok jobs es b"
    using that F B step_capacity [OF step]
    by (cases "broken s") (auto simp: driver_ok_def slack_def admitted_jobs_def)
  then show ?thesis
    using inv F sched_run_snoc [OF _ step] step_capacity [OF step]
    by (auto simp: batch_inv_at_def)
qed

lemma batch_inv_deadline:
  assumes inv: "batch_inv_at runs n jobs es b" and "\<forall>r. b_phase b \<noteq> Done r"
  shows "batch_inv_at runs n jobs (es @ [Expire]) (b\<lparr>b_scheduler := expire (b_scheduler b)\<rparr>)"
proof -
  have run: "sched_run runs n (es @ [Expire]) (expire (b_scheduler b))"
    using inv by (auto simp: batch_inv_at_def intro: sched_run_snoc step_expire)
  have "driver_ok jobs (es @ [Expire]) (b\<lparr>b_scheduler := expire (b_scheduler b)\<rparr>)"
    if "driver_ok jobs es b"
    using that by (auto simp: driver_ok_def slack_def admitted_jobs_def expire_def)
  then show ?thesis
    using inv run assms(2) by (auto simp: batch_inv_at_def expire_def)
qed

lemma batch_inv_fill:
  assumes inv: "batch_inv_at runs n jobs es b" and p: "b_phase b = Filling"
  shows "batch_inv_at runs n jobs es (fill_step b)"
proof -
  have d: "driver_ok jobs es b" and run: "sched_run runs n es (b_scheduler b)"
    and ng: "list_all (\<lambda>e. \<not> gives_up e) es"
    using inv p by (auto simp: batch_inv_at_def)
  have pos: "capacity (b_scheduler b) \<ge> 1"
    using sched_run_inv [OF run] by (simp add: inv_defs)
  have broken: "broken (b_scheduler b) \<noteq> None \<Longrightarrow> residents (b_scheduler b) > 0"
    using broken_residents run_break_shows [OF run ng] by blast
  show ?thesis
  proof (cases "b_exhausted b \<or> \<not> can_admit (b_scheduler b)")
    case True
    have "residents (b_scheduler b) > 0" if "\<not> b_exhausted b"
      using True that pos broken d by (auto simp: can_admit_def driver_ok_def)
    with True inv d p show ?thesis
      by (auto simp: fill_step_def batch_inv_at_def driver_ok_def slack_def)
  next
    case False
    then have room: "residents (b_scheduler b) < capacity (b_scheduler b)"
      and open': "\<not> intake_closed (b_scheduler b)" by (auto simp: can_admit_def)
    have nb: "broken (b_scheduler b) = None"
      using sched_run_inv [OF run] open' by (auto simp: inv_defs)
    show ?thesis
    proof (cases "b_source b")
      case Nil
      with False inv d p show ?thesis
        by (auto simp: fill_step_def batch_inv_at_def driver_ok_def slack_def)
    next
      case (Cons job rest)
      with False inv d p room nb show ?thesis
        by (auto simp: fill_step_def batch_inv_at_def driver_ok_def slack_def)
    qed
  qed
qed

lemma batch_inv_admit:
  assumes inv: "batch_inv_at runs n jobs es b" and p: "b_phase b = Admitting job"
  shows "batch_inv runs n jobs (admit_step start job b)"
proof -
  let ?s = "b_scheduler b"
  have d: "driver_ok jobs es b" and run: "sched_run runs n es ?s"
    using inv p by (auto simp: batch_inv_at_def)
  obtain r t where a: "admit start job () ?s = (r, t)" by fastforce
  let ?e = "Admit job () start r (next_ticket ?s)"
  have step: "sched_step runs ?s ?e t" using a by (rule step_admit)
  have sinv: "sched_inv ?s" by (rule sched_run_inv [OF run])
  have room: "residents ?s < capacity ?s" using d p by (auto simp: driver_ok_def)
  from a show ?thesis
  proof (cases rule: admit_cases)
    case stale
    with sinv show ?thesis by (auto simp: inv_defs)
  next
    case refused
    have "\<not> intake_closed ?s \<Longrightarrow> broken ?s = None" using sinv by (auto simp: inv_defs)
    then have "intake_closed ?s" "r = INTAKE_CLOSED"
      using a refused room by (auto simp: admit_def Let_def split: if_splits)
    with refused inv d p a have "batch_inv_at runs n jobs es (admit_step start job b)"
      by (auto simp: admit_step_def batch_inv_at_def driver_ok_def slack_def)
    then show ?thesis unfolding batch_inv_def by blast
  next
    case dropped
    have "batch_inv_at runs n jobs (es @ [?e]) (admit_step start job b)"
      using inv d p a dropped sched_run_snoc [OF run step] step_capacity [OF step] room
      by (auto simp: admit_step_def batch_inv_at_def driver_ok_def slack_def)
    then show ?thesis unfolding batch_inv_def by blast
  next
    case admitted
    have "broken ?s = None" using step_broken [OF step] admitted by blast
    moreover have "\<not> intake_closed ?s"
      using a admitted by (auto simp: admit_def split: if_splits)
    moreover have "intake_closed t \<Longrightarrow> intake_closed ?s"
      using a admitted by (cases start)
        (auto simp: admit_def ensure_worker_def break_scheduler_def Let_def split: if_splits)
    ultimately have "batch_inv_at runs n jobs (es @ [?e]) (admit_step start job b)"
      using inv d p a admitted sched_run_snoc [OF run step] step_capacity [OF step] room
      by (auto simp: admit_step_def batch_inv_at_def driver_ok_def slack_def admitted_jobs_def)
    then show ?thesis unfolding batch_inv_def by blast
  qed
qed


lemma batch_inv_test:
  assumes inv: "batch_inv_at runs n jobs es b" and p: "b_phase b = Testing"
  shows "batch_inv_at runs n jobs es (test_step b)"
proof -
  let ?s = "b_scheduler b"
  have d: "driver_ok jobs es b" and run: "sched_run runs n es ?s"
    and ng: "list_all (\<lambda>e. \<not> gives_up e) es"
    using inv p by (auto simp: batch_inv_at_def)
  show ?thesis
  proof (cases "b_exhausted b \<and> b_carried b = None \<and> \<not> has_residents ?s")
    case False
    with inv d p show ?thesis
      by (auto simp: test_step_def batch_inv_at_def driver_ok_def slack_def has_residents_def)
  next
    case True
    have "0 \<le> residents ?s" using sched_run_inv [OF run] by (auto simp: inv_defs)
    then have zero: "residents ?s = 0" using True by (simp add: has_residents_def)
    have nb: "broken ?s = None"
      using broken_residents [OF run_break_shows [OF run ng]] zero by fastforce
    have "jobs = admitted_jobs es"
      using inv d p True nb by (auto simp: batch_inv_at_def driver_ok_def)
    with drained_delivery [OF run nb ng zero] inv True p show ?thesis
      by (auto simp: test_step_def batch_inv_at_def)
  qed
qed

lemma batch_inv_take:
  assumes inv: "batch_inv_at runs n jobs es b" and p: "b_phase b = Taking"
    and "take_completion_wait (b_scheduler b)"
  shows "batch_inv runs n jobs (take_step b)"
proof -
  let ?s = "b_scheduler b"
  have d: "driver_ok jobs es b" and run: "sched_run runs n es ?s"
    and pos: "residents ?s > 0" using inv p by (auto simp: batch_inv_at_def driver_ok_def)
  have sinv: "sched_inv ?s" by (rule sched_run_inv [OF run])
  show ?thesis
  proof (cases "ready ?s")
    case Nil
    have "broken ?s \<noteq> None"
      using assms(3) Nil pos sinv by (auto simp: take_completion_wait_def inv_defs)
    with Nil inv p have "batch_inv_at runs n jobs es (take_step b)"
      by (auto simp: take_step_def take_completion_def raise_if_broken_def batch_inv_at_def)
    then show ?thesis unfolding batch_inv_def by blast
  next
    case (Cons c rest)
    let ?t = "release_ticket (cp_ticket c) (?s\<lparr>ready := rest\<rparr>)"
    have "take_completion_nowait None ?s = (Inr (Some c), ?t)"
      using Cons by (simp add: take_completion_nowait_def)
    then have step: "sched_step runs ?s (Deliver None c) ?t" by (rule step_deliver)
    have t: "residents ?t = residents ?s - 1" "broken ?t = broken ?s" "capacity ?t = capacity ?s"
      "intake_closed ?t = intake_closed ?s" by (simp_all add: release_ticket_def)
    have "batch_inv_at runs n jobs (es @ [Deliver None c]) (take_step b)"
      using inv d p Cons sched_run_snoc [OF run step] t
      by (auto simp: take_step_def take_completion_def batch_inv_at_def driver_ok_def slack_def
          admitted_jobs_def)
    then show ?thesis unfolding batch_inv_def by blast
  qed
qed

lemma batch_inv_closing:
  assumes inv: "batch_inv_at runs n jobs es b" and p: "b_phase b = Closing r"
  shows "batch_inv_at runs n jobs (es @ [CloseIntake]) (b\<lparr>b_scheduler := close_intake (b_scheduler b)\<rparr>)"
proof -
  have "sched_run runs n (es @ [CloseIntake]) (close_intake (b_scheduler b))"
    using inv by (auto simp: batch_inv_at_def intro: sched_run_snoc step_close)
  then show ?thesis using inv p by (auto simp: batch_inv_at_def close_intake_def)
qed

lemma batch_inv_done:
  assumes inv: "batch_inv_at runs n jobs es b" and p: "b_phase b = Closing r"
    and "intake_closed (b_scheduler b)" and "list_all (\<lambda>w. w = Exited) (workers (b_scheduler b))"
  shows "batch_inv_at runs n jobs (es @ [ShutdownJoined False])
    (b\<lparr>b_scheduler := shutdown_joined False (b_scheduler b), b_phase := Done r\<rparr>)"
proof -
  have "sched_run runs n (es @ [ShutdownJoined False]) (shutdown_joined False (b_scheduler b))"
    using inv assms(3,4) by (auto simp: batch_inv_at_def intro: sched_run_snoc step_shutdown)
  then show ?thesis using inv p
    by (auto simp: batch_inv_at_def shutdown_joined_def discard_completions_def Let_def)
qed

interpretation batch: invariant_system "batch_step runs" "batch_inv runs n jobs"
  for runs n jobs
proof
  fix b b' e
  assume "batch_inv runs n jobs b" and step: "batch_step runs b e b'"
  then obtain es where inv: "batch_inv_at runs n jobs es b" by (auto simp: batch_inv_def)
  have intro: "batch_inv_at runs n jobs fs c \<Longrightarrow> batch_inv runs n jobs c" for fs c
    unfolding batch_inv_def by blast
  from step show "batch_inv runs n jobs b'"
  proof cases
    case batch_resume
    with inv have "batch_inv_at runs n jobs es b'"
      by (auto simp: batch_inv_at_def driver_ok_def slack_def)
    then show ?thesis by (rule intro)
  next
    case batch_close
    with inv have "batch_inv_at runs n jobs es b'" by (auto simp: batch_inv_at_def)
    then show ?thesis by (rule intro)
  next
    case (batch_raise x)
    with inv have "batch_inv_at runs n jobs es b'" by (auto simp: batch_inv_at_def)
    then show ?thesis by (rule intro)
  qed (auto intro: intro [OF batch_inv_fill [OF inv]] batch_inv_admit [OF inv]
      intro [OF batch_inv_test [OF inv]] batch_inv_take [OF inv] intro [OF batch_inv_closing [OF inv]]
      intro [OF batch_inv_done [OF inv]] intro [OF batch_inv_workers [OF inv]]
      intro [OF batch_inv_deadline [OF inv]])
qed

lemma batch_run_inv: "batch_run runs n jobs es b \<Longrightarrow> batch_inv runs n jobs b"
  unfolding batch_run_def using batch.trace_inv batch_inv_start by blast


section \<open>Progress and termination\<close>

fun phase_rank :: "bool \<Rightarrow> phase \<Rightarrow> nat" where
  "phase_rank closed Filling = 5"
| "phase_rank closed (Admitting _) = 20"
| "phase_rank closed Testing = 4"
| "phase_rank closed Taking = 3"
| "phase_rank closed Yielding = 6"
| "phase_rank closed (Closing _) = (if closed then 1 else 2)"
| "phase_rank closed (Done _) = 0"

definition batch_work :: "batch \<Rightarrow> nat" where
  "batch_work b =
     30 * length (b_source b) + 10 * nat (residents (b_scheduler b)) + work_left (b_scheduler b) +
     phase_rank (intake_closed (b_scheduler b)) (b_phase b)"

lemma work_left_admit:
  assumes "admit start job ctx s = (r, t)" and "sched_inv s"
  shows "work_left t \<le> work_left s + 3 \<and> residents t \<le> residents s + 1"
proof (cases "intake_closed s \<or> residents s \<ge> capacity s")
  case True
  with assms show ?thesis by (auto simp: admit_def split: if_splits)
next
  case False
  define u where "u = s\<lparr>next_ticket := next_ticket s + 1,
    cancelled := (if expired s then insert (next_ticket s) (cancelled s) else cancelled s),
    tokens := tokens s @ [next_ticket s],
    pending := pending s @ [\<lparr>ad_ticket = next_ticket s, ad_job = job, ad_context = ctx\<rparr>],
    residents := residents s + 1\<rparr>"
  have t: "t = ensure_worker start u"
    using assms False by (auto simp: admit_def u_def Let_def split: if_splits)
  have u: "running_admissions u = running_admissions s" "workers u = workers s"
    "length (pending u) = Suc (length (pending s))" "residents u = residents s + 1"
    by (simp_all add: u_def)
  show ?thesis
  proof (cases rule: ensure_worker_cases [of start u])
    case same
    with t u show ?thesis by (simp add: work_left_def)
  next
    case spawn
    have "running_admissions (u\<lparr>workers := workers u @ [Waiting]\<rparr>) = running_admissions u"
      by (simp add: running_admissions_def)
    with spawn t u show ?thesis by (simp add: work_left_def)
  next
    case (fail f)
    have "workers (break_scheduler f u) = workers u"
      "length (pending (break_scheduler f u)) \<le> length (pending u)"
      "residents (break_scheduler f u) = residents u"
      by (simp_all add: break_scheduler_def)
    with t u fail show ?thesis by (simp add: work_left_def running_admissions_def)
  qed
qed

lemma batch_step_decreases:
  assumes inv: "batch_inv runs n jobs b" and step: "batch_step runs b e b'"
    and "e \<noteq> DeadlineWatcher"
  shows "batch_work b' < batch_work b"
proof -
  from inv obtain es where at: "batch_inv_at runs n jobs es b" by (auto simp: batch_inv_def)
  then have sinv: "sched_inv (b_scheduler b)" by (auto simp: batch_inv_at_def intro: sched_run_inv)
  then have pos: "0 \<le> residents (b_scheduler b)" by (auto simp: inv_defs)
  from step show ?thesis
  proof cases
    case batch_fill
    have "b_carried b = None" using at batch_fill by (auto simp: batch_inv_at_def driver_ok_def)
    with batch_fill show ?thesis
      by (auto simp: fill_step_def batch_work_def split: list.splits)
  next
    case (batch_admit job start)
    obtain r t where a: "admit start job () (b_scheduler b) = (r, t)" by fastforce
    have "nat (residents t) \<le> Suc (nat (residents (b_scheduler b)))"
      using work_left_admit [OF a sinv] pos by linarith
    moreover have "r \<noteq> NO_ROOM"
    proof
      assume "r = NO_ROOM"
      with a have "residents (b_scheduler b) \<ge> capacity (b_scheduler b)"
        by (auto simp: admit_def Let_def split: if_splits)
      with at batch_admit show False by (auto simp: batch_inv_at_def driver_ok_def)
    qed
    ultimately show ?thesis using batch_admit a work_left_admit [OF a sinv]
      by (cases r) (auto simp: admit_step_def batch_work_def)
  next
    case batch_test
    then show ?thesis by (auto simp: test_step_def batch_work_def)
  next
    case batch_take
    show ?thesis
    proof (cases "ready (b_scheduler b)")
      case Nil
      then show ?thesis using batch_take
        by (auto simp: take_step_def take_completion_def raise_if_broken_def bind_ensure batch_work_def)
    next
      case (Cons c rest)
      have "residents (b_scheduler b) > 0"
        using at batch_take by (auto simp: batch_inv_at_def driver_ok_def)
      with Cons batch_take show ?thesis
        by (auto simp: take_step_def take_completion_def release_ticket_def batch_work_def
            work_left_def running_admissions_def)
    qed
  next
    case (batch_done r)
    then show ?thesis
      by (auto simp: batch_work_def shutdown_joined_def discard_completions_def Let_def work_left_def
          running_admissions_def live_workers_def)
  next
    case (batch_workers f s)
    note F = worker_step_frame(1,5) [OF batch_workers(4,3)]
    have "phase_rank (intake_closed s) (b_phase b) \<le> phase_rank (intake_closed (b_scheduler b)) (b_phase b)"
      if "intake_closed (b_scheduler b) \<longrightarrow> intake_closed s"
      using that by (cases "b_phase b") auto
    moreover have "intake_closed (b_scheduler b) \<longrightarrow> intake_closed s"
      using batch_workers(4,3)
      by cases (auto simp: take_admitted_def run_one_def finish_def break_scheduler_def Let_def
          split: list.splits if_splits sum.splits)
    ultimately show ?thesis
      using worker_step_decreases [OF batch_workers(4,3)] F(1) batch_workers(2)
      by (simp add: batch_work_def)
  qed (use assms(3) in \<open>auto simp: batch_work_def close_intake_def work_left_def running_admissions_def\<close>)
qed

lemma batch_progress:
  assumes inv: "batch_inv runs n jobs b" and "\<forall>r. b_phase b \<noteq> Done r"
  shows "\<exists>e b'. (e = Driver \<or> (\<exists>f. e = Workers f)) \<and> batch_step runs b e b'"
proof -
  from inv obtain es where at: "batch_inv_at runs n jobs es b" by (auto simp: batch_inv_def)
  then have sinv: "sched_inv (b_scheduler b)" by (auto simp: batch_inv_at_def intro: sched_run_inv)
  have work: "\<exists>e b'. (e = Driver \<or> (\<exists>f. e = Workers f)) \<and> batch_step runs b e b'"
    if "worker_event e" "sched_step runs (b_scheduler b) e t" for e t
    using batch_workers [OF that] by blast
  show ?thesis
  proof (cases "quiescent (b_scheduler b)")
    case False
    then have "pending (b_scheduler b) \<noteq> [] \<or> running (b_scheduler b) > 0"
      using sinv by (auto simp: quiescent_def inv_defs)
    then show ?thesis
      using pending_can_start [OF sinv, of runs] running_can_finish [OF sinv, of runs] work
      by (metis worker_event.simps(1,3))
  next
    case True
    show ?thesis
    proof (cases "b_phase b")
      case Taking
      with True have "take_completion_wait (b_scheduler b)"
        by (simp add: quiescent_def take_completion_wait_def)
      with Taking show ?thesis by (blast intro: batch_take)
    next
      case (Closing r)
      show ?thesis
      proof (cases "intake_closed (b_scheduler b) \<and> list_all (\<lambda>w. w = Exited) (workers (b_scheduler b))")
        case all: True
        with True Closing show ?thesis by (blast intro: batch_done)
      next
        case some: False
        show ?thesis
        proof (cases "intake_closed (b_scheduler b)")
          case False
          with Closing show ?thesis by (blast intro: batch_intake)
        next
          case closed: True
          with some obtain i where i: "i < length (workers (b_scheduler b))"
            "workers (b_scheduler b) ! i \<noteq> Exited"
            by (auto simp: list_all_length)
          have "running_admissions (b_scheduler b) = []"
            using True sinv by (auto simp: quiescent_def inv_defs)
          then have "admission_of (workers (b_scheduler b) ! i) = []"
            using i(1) by (simp add: running_admissions_def)
          with i(2) have "workers (b_scheduler b) ! i = Waiting"
            by (cases "workers (b_scheduler b) ! i") auto
          moreover have "take_admitted (b_scheduler b) = (None, b_scheduler b)"
            using True by (simp add: take_admitted_def quiescent_def)
          ultimately show ?thesis
            using work [OF _ step_exit [OF i(1)]] closed
            by (auto simp: take_admitted_wait_def)
        qed
      qed
    qed (use assms(2) in \<open>blast intro: batch_fill batch_admit batch_test batch_resume\<close>)+
  qed
qed


lemma batch_trace_work:
  assumes "trace (batch_step runs) b0 es b" and "batch_inv runs n jobs b0"
  shows "length (filter (\<lambda>e. e \<noteq> DeadlineWatcher) es) + batch_work b \<le> batch_work b0"
  using assms
proof (induction rule: trace.induct)
  case (trace_snoc s es t e u)
  then have inv: "batch_inv runs n jobs t" using batch.trace_inv by blast
  show ?case
  proof (cases "e = DeadlineWatcher")
    case True
    with trace_snoc have "u = t\<lparr>b_scheduler := expire (b_scheduler t)\<rparr>"
      by (auto elim: batch_step.cases)
    then have "batch_work u = batch_work t"
      by (simp add: batch_work_def expire_def cancel_all_def work_left_def running_admissions_def)
    with True trace_snoc show ?thesis by simp
  next
    case False
    with trace_snoc batch_step_decreases [OF inv trace_snoc(2)] show ?thesis by simp
  qed
qed simp

text \<open>What an exception in flight can be.\<close>

lemma batch_exception:
  assumes "trace (batch_step runs) b0 es b" and "b_phase b0 = Filling"
    and "b_phase b = Closing (Some e) \<or> b_phase b = Done (Some e)"
  shows "e = SchedulerBroken \<or> SourceRaises e \<in> set es"
  using assms
proof (induction rule: trace.induct)
  case (trace_snoc b0 es t f u)
  from \<open>batch_step runs t f u\<close> trace_snoc.IH trace_snoc.prems show ?case
  proof cases
    case batch_fill
    with trace_snoc show ?thesis
      by (auto simp: fill_step_def split: if_splits option.splits list.splits)
  next
    case (batch_admit job start)
    with trace_snoc show ?thesis
      by (auto simp: admit_step_def split: prod.splits AdmissionResult.splits)
  next
    case batch_test
    with trace_snoc show ?thesis by (auto simp: test_step_def split: if_splits)
  next
    case batch_take
    with trace_snoc show ?thesis
      by (auto simp: take_step_def take_completion_def raise_if_broken_def bind_ensure
          split: option.splits if_splits)
  qed auto
qed simp

section \<open>A sample batch\<close>

definition sample_batch :: "ExecutionJob \<Rightarrow> unit ExecutionScheduler \<Rightarrow> bool \<Rightarrow> CompletedExecution list \<Rightarrow> phase \<Rightarrow> batch" where
  "sample_batch job s ex ys p =
     \<lparr>b_scheduler = s, b_source = [], b_pulled = [job], b_exhausted = ex, b_carried = None,
      b_yielded = ys, b_phase = p, b_closed = False\<rparr>"

definition sample_drained :: "bool \<Rightarrow> unit worker \<Rightarrow> unit ExecutionScheduler" where
  "sample_drained closed w =
     (sample_state [] [] [w])\<lparr>tokens := [], residents := 0, intake_closed := closed\<rparr>"

lemmas sample_batch_simps = sample_batch_def sample_state_def sample_drained_def

lemma sample_batch_admits:
  "batch_run runs 1 [job] [Driver, Driver, Driver, Driver]
     (sample_batch job (sample_state [one_admitted job] [] [Waiting]) False [] Taking)"
proof -
  define s0 :: "unit ExecutionScheduler" where
    "s0 = \<lparr>capacity = 1, pending = [], ready = [], tokens = [], cancelled = {}, workers = [],
       next_ticket = 0, residents = 0, running = 0, intake_closed = False, expired = False,
       broken = None\<rparr>"
  define b0 where "b0 = (sample_batch job s0 False [] Filling)\<lparr>b_source := [job], b_pulled := []\<rparr>"
  define s1 where "s1 = sample_state [one_admitted job] [] [Waiting]"
  have new: "run_batch_start 1 [job] = Inr b0"
    by (simp add: run_batch_start_def ExecutionScheduler_new_def b0_def s0_def sample_batch_def)
  have 1: "batch_step runs b0 Driver (sample_batch job s0 False [] (Admitting job))"
    using batch_fill [of b0 runs]
    by (simp add: b0_def s0_def sample_batch_def fill_step_def can_admit_def)
  have "admit None job () s0 = (ADMITTED, s1)"
    by (simp add: admit_def s0_def s1_def ensure_worker_def sample_state_def Let_def)
  then have 2: "batch_step runs (sample_batch job s0 False [] (Admitting job)) Driver
      (sample_batch job s1 False [] Filling)"
    using batch_admit [of "sample_batch job s0 False [] (Admitting job)" job runs None]
    by (simp add: sample_batch_def admit_step_def)
  have 3: "batch_step runs (sample_batch job s1 False [] Filling) Driver (sample_batch job s1 False [] Testing)"
    using batch_fill [of "sample_batch job s1 False [] Filling" runs]
    by (simp add: s1_def sample_batch_simps fill_step_def can_admit_def)
  have 4: "batch_step runs (sample_batch job s1 False [] Testing) Driver (sample_batch job s1 False [] Taking)"
    using batch_test [of "sample_batch job s1 False [] Testing" runs]
    by (simp add: s1_def sample_batch_simps test_step_def)
  have "trace (batch_step runs) b0 [Driver, Driver, Driver, Driver] (sample_batch job s1 False [] Taking)"
    by (intro trace_Cons [of "batch_step runs", OF 1] trace_Cons [of "batch_step runs", OF 2]
        trace_Cons [of "batch_step runs", OF 3] trace_single [of "batch_step runs", OF 4])
  with new show ?thesis by (auto simp: batch_run_def s1_def)
qed

lemma trace_snocD: "trace step s (es @ [e]) u \<Longrightarrow> \<exists>t. trace step s es t \<and> step t e u"
  by (erule trace.cases) auto

lemma trace_pairD: "trace step s [e, f] u \<Longrightarrow> \<exists>t. step s e t \<and> step t f u"
  using trace_snocD [of step s "[e]" f u] trace_snocD [of step s "[]" e]
  by (fastforce elim: trace.cases)

lemma sample_batch_works:
  assumes "runs job c"
  shows "trace (batch_step runs) (sample_batch job (sample_state [one_admitted job] [] [Waiting]) False [] Taking)
     [Workers (WorkerTake 0), Workers (WorkerFinish 0 (Inr c))]
     (sample_batch job (sample_state [] [one_completion c] [Waiting]) False [] Taking)"
proof -
  obtain s where one: "sched_step runs (sample_state [one_admitted job] [] [Waiting]) (WorkerTake 0) s"
    and two: "sched_step runs s (WorkerFinish 0 (Inr c))
      (sample_state [] [one_completion c] [Waiting])"
    using trace_pairD [OF one_job_work [of runs, OF assms]] by blast
  have "batch_step runs (sample_batch job (sample_state [one_admitted job] [] [Waiting]) False [] Taking)
      (Workers (WorkerTake 0)) (sample_batch job s False [] Taking)"
    using batch_workers [of "WorkerTake 0" runs "sample_batch job (sample_state [one_admitted job] [] [Waiting]) False [] Taking" s] one
    by (simp add: sample_batch_def)
  moreover have "batch_step runs (sample_batch job s False [] Taking)
      (Workers (WorkerFinish 0 (Inr c)))
      (sample_batch job (sample_state [] [one_completion c] [Waiting]) False [] Taking)"
    using batch_workers [of "WorkerFinish 0 (Inr c)" runs "sample_batch job s False [] Taking"] two
    by (simp add: sample_batch_def)
  ultimately show ?thesis by (blast intro: trace_Cons trace_single)
qed

lemma sample_batch_ends:
  "trace (batch_step runs) (sample_batch job (sample_state [] [one_completion c] [Waiting]) False [] Taking)
     [Driver, Driver, Driver, Driver, Driver, Workers (WorkerExit 0), Driver]
     (sample_batch job ((sample_drained True Exited)\<lparr>workers := []\<rparr>) True [c] (Done None))"
proof -
  let ?b = "\<lambda>closed w ex p. sample_batch job (sample_drained closed w) ex [c] p"
  have 1: "batch_step runs (sample_batch job (sample_state [] [one_completion c] [Waiting]) False [] Taking) Driver
      (?b False Waiting False Yielding)"
    using batch_take [of "sample_batch job (sample_state [] [one_completion c] [Waiting]) False [] Taking" runs]
    by (simp add: sample_batch_simps take_step_def take_completion_def take_completion_wait_def
        release_ticket_def)
  have 2: "batch_step runs (?b False Waiting False Yielding) Driver (?b False Waiting False Filling)"
    using batch_resume [of "?b False Waiting False Yielding" runs] by (simp add: sample_batch_simps)
  have 3: "batch_step runs (?b False Waiting False Filling) Driver (?b False Waiting True Testing)"
    using batch_fill [of "?b False Waiting False Filling" runs]
    by (simp add: sample_batch_simps fill_step_def can_admit_def)
  have 4: "batch_step runs (?b False Waiting True Testing) Driver (?b False Waiting True (Closing None))"
    using batch_test [of "?b False Waiting True Testing" runs]
    by (simp add: sample_batch_simps test_step_def has_residents_def)
  have 5: "batch_step runs (?b False Waiting True (Closing None)) Driver (?b True Waiting True (Closing None))"
    using batch_intake [of "?b False Waiting True (Closing None)" None runs]
    by (simp add: sample_batch_simps close_intake_def)
  have "sched_step runs (sample_drained True Waiting) (WorkerExit 0) (sample_drained True Exited)"
    using step_exit [of 0 "sample_drained True Waiting" _ runs]
    by (simp add: sample_batch_simps take_admitted_wait_def take_admitted_def)
  then have 6: "batch_step runs (?b True Waiting True (Closing None)) (Workers (WorkerExit 0))
      (?b True Exited True (Closing None))"
    using batch_workers [of "WorkerExit 0" runs "?b True Waiting True (Closing None)" "sample_drained True Exited"]
    by (simp add: sample_batch_def)
  have 7: "batch_step runs (?b True Exited True (Closing None)) Driver
      (sample_batch job ((sample_drained True Exited)\<lparr>workers := []\<rparr>) True [c] (Done None))"
    using batch_done [of "?b True Exited True (Closing None)" None runs]
    by (simp add: sample_batch_simps quiescent_def shutdown_joined_def discard_completions_def Let_def)
  show ?thesis
    by (intro trace_Cons [of "batch_step runs", OF 1] trace_Cons [of "batch_step runs", OF 2]
        trace_Cons [of "batch_step runs", OF 3] trace_Cons [of "batch_step runs", OF 4]
        trace_Cons [of "batch_step runs", OF 5] trace_Cons [of "batch_step runs", OF 6]
        trace_single [of "batch_step runs", OF 7])
qed

lemma batch_run_append:
  "batch_run runs n jobs es b \<Longrightarrow> trace (batch_step runs) b fs c \<Longrightarrow> batch_run runs n jobs (es @ fs) c"
  unfolding batch_run_def by (blast intro: trace_append)

text \<open>The whole batch of one job, for whatever completion the executor may return for it.\<close>

lemma sample_batch_run:
  assumes "runs job c"
  shows "\<exists>es. batch_run runs 1 [job] es
    (sample_batch job ((sample_drained True Exited)\<lparr>workers := []\<rparr>) True [c] (Done None))"
  using batch_run_append [OF batch_run_append [OF sample_batch_admits
    sample_batch_works [of runs, OF assms]] sample_batch_ends] by blast

section \<open>Properties\<close>

text \<open>
  C18: a batch that ends without an exception, and that its consumer did not close early, has
  yielded exactly one completion of every job of the source: the yielded completions are, in
  some order, one run of each job, whatever the capacity, the interleaving of the driver, the
  workers and the deadline watcher, and the worker threads that could be started.
\<close>

theorem batch_yields_every_job:
  assumes "batch_run runs n jobs es b" and "b_phase b = Done None" and "\<not> b_closed b"
  shows "matches runs jobs (b_yielded b)"
  using batch_run_inv [OF assms(1)] assms(2,3) by (auto simp: batch_inv_def batch_inv_at_def)

theorem batch_yields_every_job_witness:
  "matches (\<lambda>_ _. True) [sample_job] [sample_completed]"
  proof -
  obtain es where "batch_run (\<lambda>_ _. True) 1 [sample_job] es
      (sample_batch sample_job ((sample_drained True Exited)\<lparr>workers := []\<rparr>) True [sample_completed] (Done None))"
    using sample_batch_run [of "\<lambda>_ _. True"] by blast
  from batch_yields_every_job [OF this] show ?thesis by (simp add: sample_batch_def)
qed

text \<open>
  The source is pulled lazily and in order: at every moment the pulled jobs are a prefix
  of the source, and at most the capacity of them are not yet yielded.
\<close>

theorem batch_pulls_lazily:
  assumes "batch_run runs n jobs es b"
  shows "jobs = b_pulled b @ b_source b \<and>
    int (length (b_pulled b)) \<le> int (length (b_yielded b)) + n"
  using batch_run_inv [OF assms] by (auto simp: batch_inv_def batch_inv_at_def)

theorem batch_pulls_lazily_witness:
  "int (length [sample_job]) \<le> int (length ([] :: CompletedExecution list)) + 1"
  using batch_pulls_lazily [OF sample_batch_admits [of _ sample_job]] by (simp add: sample_batch_def)

text \<open>
  C19: a batch ends: no run of it, over a source of \<open>k\<close> jobs, has more than \<open>30 * k + 5\<close> steps
  of the driver, the workers and the consumer, and a batch that has not ended always has a
  step of the driver or of a worker to make, so it can never wait for something that does
  not come.
\<close>

theorem batch_terminates:
  assumes "batch_run runs n jobs es b"
  shows "length (filter (\<lambda>e. e \<noteq> DeadlineWatcher) es) \<le> 30 * length jobs + 5 \<and>
    ((\<exists>r. b_phase b = Done r) \<or>
     (\<exists>e b'. (e = Driver \<or> (\<exists>f. e = Workers f)) \<and> batch_step runs b e b'))"
proof -
  from assms obtain b0 where new: "run_batch_start n jobs = Inr b0"
    and tr: "trace (batch_step runs) b0 es b" by (auto simp: batch_run_def)
  have "batch_inv runs n jobs b0" by (rule batch_inv_start [OF new])
  moreover have "batch_work b0 = 30 * length jobs + 5"
    using new by (auto simp: run_batch_start_def ExecutionScheduler_new_def batch_work_def work_left_def
        running_admissions_def live_workers_def split: if_splits)
  ultimately show ?thesis
    using batch_trace_work [OF tr] batch_progress [OF batch_run_inv [OF assms]] by fastforce
qed

theorem batch_terminates_witness:
  "\<exists>b. batch_run (\<lambda>_ _. True) 1 [sample_job] [Driver, Driver, Driver, Driver] b \<and>
     (\<exists>e b'. (e = Driver \<or> (\<exists>f. e = Workers f)) \<and> batch_step (\<lambda>_ _. True) b e b')"
proof -
  let ?b = "sample_batch sample_job (sample_state [one_admitted sample_job] [] [Waiting]) False [] Taking"
  have "\<forall>r. b_phase ?b \<noteq> Done r" by (simp add: sample_batch_def)
  with batch_terminates [OF sample_batch_admits [of "\<lambda>_ _. True" sample_job]]
    sample_batch_admits [of "\<lambda>_ _. True" sample_job]
  show ?thesis by blast
qed

text \<open>
  The only exceptions a batch ends with are the one its source raised while a job was
  pulled and the scheduler-broken failure; every failure of a worker surfaces as the latter.
\<close>

theorem batch_failures:
  assumes "batch_run runs n jobs es b" and "b_phase b = Done (Some e)"
  shows "e = SchedulerBroken \<or> SourceRaises e \<in> set es"
proof -
  from assms(1) obtain b0 where new: "run_batch_start n jobs = Inr b0"
    and tr: "trace (batch_step runs) b0 es b" by (auto simp: batch_run_def)
  have "b_phase b0 = Filling"
    using new by (auto simp: run_batch_start_def ExecutionScheduler_new_def split: if_splits)
  then show ?thesis using batch_exception [OF tr] assms(2) by blast
qed


theorem batch_failures_witness:
  "\<exists>es b. batch_run (\<lambda>_ _. True) 1 [sample_job] es b \<and> b_phase b = Done (Some (OSError None)) \<and>
     (OSError None = SchedulerBroken \<or> SourceRaises (OSError None) \<in> set es)"
proof -
  define b0 where "b0 = (sample_batch sample_job (sample_drained False Exited) False [] Filling)
    \<lparr>b_scheduler := (sample_drained False Exited)\<lparr>workers := [], next_ticket := 0\<rparr>,
     b_source := [sample_job], b_pulled := []\<rparr>"
  define b1 where "b1 = b0\<lparr>b_phase := Closing (Some (OSError None))\<rparr>"
  define b2 where "b2 = b1\<lparr>b_scheduler := close_intake (b_scheduler b1)\<rparr>"
  define b3 where "b3 = b2\<lparr>b_scheduler := shutdown_joined False (b_scheduler b2),
    b_phase := Done (Some (OSError None))\<rparr>"
  have new: "run_batch_start 1 [sample_job] = Inr b0"
    by (simp add: run_batch_start_def ExecutionScheduler_new_def b0_def sample_batch_simps)
  have 1: "batch_step (\<lambda>_ _. True) b0 (SourceRaises (OSError None)) b1"
    unfolding b1_def by (rule batch_raise) (simp_all add: b0_def sample_batch_def)
  have 2: "batch_step (\<lambda>_ _. True) b1 Driver b2"
    unfolding b2_def
    by (rule batch_intake) (simp_all add: b1_def b0_def sample_batch_simps)
  have 3: "batch_step (\<lambda>_ _. True) b2 Driver b3"
    unfolding b3_def
    by (rule batch_done) (simp_all add: b2_def b1_def b0_def sample_batch_simps close_intake_def quiescent_def)
  have run: "batch_run (\<lambda>_ _. True) 1 [sample_job] [SourceRaises (OSError None), Driver, Driver] b3"
    unfolding batch_run_def
    using new trace_Cons [of "batch_step (\<lambda>_ _. True)", OF 1
        trace_Cons [of "batch_step (\<lambda>_ _. True)", OF 2
          trace_single [of "batch_step (\<lambda>_ _. True)", OF 3]]] by blast
  have "b_phase b3 = Done (Some (OSError None))" by (simp add: b3_def)
  with batch_failures [OF run] run show ?thesis by blast
qed

end
