(* ===== verification/Pool.thy ===== *)
theory Pool
  imports Batch
begin

text \<open>
  The execution pool of \<^verbatim>\<open>scheduling/pool.py\<close>: capacity resolution, the pool's lifecycle, and
  the stream drivers that share one scheduler. The pool runs on one event loop: a coroutine
  keeps the loop until it awaits, so a stream's turn of \<^verbatim>\<open>_drive_stream\<close> is cut only at its calls
  of the scheduler, where worker threads may interleave, and other coroutines run only when
  every stream is suspended. A stream's local variables, the semaphore of its \<^verbatim>\<open>map_stream\<close> and
  its source-pull task are its record; what the pool hands to its caller is logged in it.
  A source is a list: a run only ever pulls a finite prefix of it.
\<close>

section \<open>Capacity\<close>

datatype PoolCapacity = AutoPoolCapacity | FixedPoolCapacity int

definition FixedPoolCapacity_new :: "int \<Rightarrow> (py_exn, PoolCapacity) result" where
  "FixedPoolCapacity_new max_active_jobs =
     bind_result (ensure (\<not> max_active_jobs < 1) (ValueError ''max_active_jobs must be positive''))
       (\<lambda>_. Inr (FixedPoolCapacity max_active_jobs))"

fun PoolCapacity_ok :: "PoolCapacity \<Rightarrow> bool" where
  "PoolCapacity_ok AutoPoolCapacity = True"
| "PoolCapacity_ok (FixedPoolCapacity n) = (1 \<le> n)"

record EffectivePoolCapacity =
  epc_source :: CapacitySource
  epc_cpu_count :: int
  epc_max_active_jobs :: int

text \<open>The model's fields are \<^verbatim>\<open>PositiveInt\<close>.\<close>

definition EffectivePoolCapacity_new ::
  "CapacitySource \<Rightarrow> int \<Rightarrow> int \<Rightarrow> (py_exn, EffectivePoolCapacity) result" where
  "EffectivePoolCapacity_new source cpu_count max_active_jobs =
     bind_result (ensure (0 < cpu_count \<and> 0 < max_active_jobs)
         (ValueError ''Input should be greater than 0''))
       (\<lambda>_. Inr \<lparr>epc_source = source, epc_cpu_count = cpu_count, epc_max_active_jobs = max_active_jobs\<rparr>)"

text \<open>\<open>reported\<close> is what the operating system reports, \<open>None\<close> when it does not know.\<close>

definition usable_cpu_count :: "int option \<Rightarrow> int" where
  "usable_cpu_count reported =
     max 1 (case reported of None \<Rightarrow> 1 | Some n \<Rightarrow> if n = 0 then 1 else n)"

definition resolve_pool_capacity ::
  "int option \<Rightarrow> PoolCapacity \<Rightarrow> (py_exn, EffectivePoolCapacity) result" where
  "resolve_pool_capacity reported declared =
     (let cpus = usable_cpu_count reported
      in case declared of
           AutoPoolCapacity \<Rightarrow> EffectivePoolCapacity_new CapacitySource.AUTO cpus cpus
         | FixedPoolCapacity n \<Rightarrow> EffectivePoolCapacity_new CapacitySource.FIXED cpus n)"

definition batch_capacity ::
  "int option \<Rightarrow> PoolCapacity option \<Rightarrow> PoolCapacity \<Rightarrow> (py_exn, int) result" where
  "batch_capacity reported config fallback =
     bind_result (resolve_pool_capacity reported (case config of Some c \<Rightarrow> c | None \<Rightarrow> fallback))
       (\<lambda>effective. Inr (epc_max_active_jobs effective))"

section \<open>Contexts and their owners\<close>

text \<open>
  A context is a caller's, or one tagged with the \<^verbatim>\<open>map_stream\<close> that submitted it; the identity
  of a \<^verbatim>\<open>_StreamOwner\<close> object is a number.
\<close>

datatype 'c ctx = Plain 'c | OwnedContext nat 'c

fun owns :: "nat \<Rightarrow> 'c ctx \<Rightarrow> bool" where
  "owns owner (OwnedContext o' _) = (o' = owner)"
| "owns owner (Plain _) = False"

fun unowned :: "'c ctx \<Rightarrow> bool" where
  "unowned (Plain _) = True"
| "unowned (OwnedContext _ _) = False"

text \<open>The claim of a driver: \<open>None\<close> for \<^verbatim>\<open>run_stream\<close>, the owner for \<^verbatim>\<open>map_stream\<close>.\<close>

fun claims :: "nat option \<Rightarrow> 'c ctx \<Rightarrow> bool" where
  "claims None = unowned"
| "claims (Some owner) = owns owner"

fun tag_context :: "nat option \<Rightarrow> 'c \<Rightarrow> 'c ctx" where
  "tag_context None c = Plain c"
| "tag_context (Some owner) c = OwnedContext owner c"

fun caller_context :: "'c ctx \<Rightarrow> 'c" where
  "caller_context (Plain c) = c"
| "caller_context (OwnedContext _ c) = c"

record 'c ExecutionSubmission =
  sub_job :: ExecutionJob
  sub_context :: 'c

record 'c ExecutionCompletion =
  ec_completed_execution :: CompletedExecution
  ec_context :: 'c

section \<open>Streams\<close>

text \<open>
  The task that pulls the next submission: waiting for the semaphore of \<^verbatim>\<open>_gated\<close>, waiting for the
  caller's source, done with a submission or its end, or failed with the source's exception.
\<close>

datatype 'c pull =
    AwaitGate
  | AwaitSource
  | Pulled "'c ctx ExecutionSubmission option"
  | PullFailed py_exn

datatype stream_end = Returned | Raised py_exn | CallerCancelled | CallerClosed

text \<open>
  Control points of \<^verbatim>\<open>_drive_stream\<close> and of its caller: the head of the loop, the take of a
  completion, the prefetch before a yield, the yield, the test for the end, the admission, the
  collection of the pulled submission, the start of a pull, the wait, the \<^verbatim>\<open>finally\<close> block, and
  the \<^verbatim>\<open>finally\<close> block of \<^verbatim>\<open>map_stream\<close>. A stream closed by its consumer is finalised later.
\<close>

datatype 'c stream_phase =
    Head
  | TakingOwn
  | Prefetching "'c ctx Completion"
  | Yielded
  | Ending
  | AdmittingCarried
  | Collecting
  | Pulling
  | Parked
  | Abandoned
  | Leaving bool stream_end
  | Releasing stream_end
  | Ended stream_end

record 'c stream =
  st_owner :: "nat option"
  st_width :: int
  st_permits :: int
  st_source :: "'c ExecutionSubmission list"
  st_taken :: "'c ctx ExecutionSubmission list"
  st_exhausted :: bool
  st_carried :: "'c ctx ExecutionSubmission option"
  st_pull :: "'c pull option"
  st_wakeup :: bool
  st_registered :: bool
  st_outstanding :: int
  st_admitted :: "'c ctx ExecutionSubmission list"
  st_yielded :: "'c ctx ExecutionCompletion list"
  st_phase :: "'c stream_phase"

type_synonym 'c pool_scheduler = "'c ctx ExecutionScheduler"

text \<open>
  \<^verbatim>\<open>_gated\<close> tags what it yields and passes the semaphore first; a plain source is pulled as it is.
\<close>

definition start_pull :: "'c stream \<Rightarrow> 'c pull" where
  "start_pull st = (case st_owner st of None \<Rightarrow> AwaitSource | Some _ \<Rightarrow> AwaitGate)"

definition wants_pull :: "'c pool_scheduler \<Rightarrow> 'c stream \<Rightarrow> bool" where
  "wants_pull s st =
     (\<not> st_exhausted st \<and> st_carried st = None \<and> st_pull st = None \<and> can_admit s)"

text \<open>
  The head of the loop. Cancelling a pull that has already failed raises its exception again.
\<close>

definition head_step :: "ExecutionPoolState \<Rightarrow> 'c stream \<Rightarrow> 'c stream" where
  "head_step state st =
     (let st = st\<lparr>st_wakeup := False\<rparr>
      in if state = ExecutionPoolState.RUNNING then st\<lparr>st_phase := TakingOwn\<rparr>
         else let st = st\<lparr>st_exhausted := True, st_carried := None\<rparr>
           in case st_pull st of
                Some (PullFailed e) \<Rightarrow> st\<lparr>st_phase := Leaving False (Raised e)\<rparr>
              | _ \<Rightarrow> st\<lparr>st_pull := None, st_phase := TakingOwn\<rparr>)"

text \<open>
  \<^verbatim>\<open>take_completion_nowait\<close> and the handler of \<^verbatim>\<open>SchedulerBroken\<close>.
\<close>

definition take_own_step ::
  "ExecutionPoolState \<Rightarrow> 'c pool_scheduler \<Rightarrow> 'c stream \<Rightarrow>
     ExecutionPoolState \<times> 'c pool_scheduler \<times> 'c stream" where
  "take_own_step state s st =
     (case take_completion_nowait (Some (claims (st_owner st))) s of
        (Inr (Some c), s') \<Rightarrow>
          (state, s', st\<lparr>st_outstanding := st_outstanding st - 1, st_phase := Prefetching c\<rparr>)
      | (Inr None, s') \<Rightarrow> (state, s', st\<lparr>st_phase := Ending\<rparr>)
      | (Inl e, s') \<Rightarrow>
          (if state = ExecutionPoolState.RUNNING then ExecutionPoolState.BROKEN else state, s',
           st\<lparr>st_phase := Leaving False (Raised e)\<rparr>))"

text \<open>
  The yield; \<^verbatim>\<open>map_stream\<close> releases a permit and hands out the caller's context.
\<close>

definition yield_step :: "'c pool_scheduler \<Rightarrow> 'c ctx Completion \<Rightarrow> 'c stream \<Rightarrow> 'c stream" where
  "yield_step s c st =
     (let st = (if wants_pull s st then st\<lparr>st_pull := Some (start_pull st)\<rparr> else st)
      in st\<lparr>st_yielded := st_yielded st @
              [\<lparr>ec_completed_execution = cp_completed_execution c, ec_context = cp_context c\<rparr>],
            st_permits := (case st_owner st of None \<Rightarrow> st_permits st | Some _ \<Rightarrow> st_permits st + 1),
            st_phase := Yielded\<rparr>)"

definition ending_step :: "'c pool_scheduler \<Rightarrow> 'c stream \<Rightarrow> 'c stream" where
  "ending_step s st =
     (if st_exhausted st \<and> st_carried st = None \<and>
         (case st_owner st of Some _ \<Rightarrow> st_outstanding st = 0 | None \<Rightarrow> \<not> has_residents s)
      then st\<lparr>st_phase := Leaving False Returned\<rparr> else st\<lparr>st_phase := AdmittingCarried\<rparr>)"

definition admit_carried_step ::
  "py_exn option \<Rightarrow> 'c pool_scheduler \<Rightarrow> 'c stream \<Rightarrow> 'c pool_scheduler \<times> 'c stream" where
  "admit_carried_step start s st =
     (case st_carried st of
        None \<Rightarrow> (s, st\<lparr>st_phase := Collecting\<rparr>)
      | Some sub \<Rightarrow>
          (case admit start (sub_job sub) (sub_context sub) s of
             (ADMITTED, s') \<Rightarrow>
               (s', st\<lparr>st_carried := None, st_outstanding := st_outstanding st + 1,
                      st_admitted := st_admitted st @ [sub], st_phase := Head\<rparr>)
           | (INTAKE_CLOSED, s') \<Rightarrow>
               (s', st\<lparr>st_carried := None, st_exhausted := True, st_phase := Head\<rparr>)
           | (NO_ROOM, s') \<Rightarrow> (s', st\<lparr>st_phase := Collecting\<rparr>)))"

definition collect_step :: "ExecutionPoolState \<Rightarrow> 'c stream \<Rightarrow> 'c stream" where
  "collect_step state st =
     (case st_pull st of
        Some (Pulled None) \<Rightarrow> st\<lparr>st_pull := None, st_exhausted := True, st_phase := Head\<rparr>
      | Some (Pulled (Some sub)) \<Rightarrow>
          (if state = ExecutionPoolState.RUNNING
           then st\<lparr>st_pull := None, st_carried := Some sub, st_phase := Head\<rparr>
           else st\<lparr>st_pull := None, st_phase := Head\<rparr>)
      | Some (PullFailed e) \<Rightarrow> st\<lparr>st_phase := Leaving False (Raised e)\<rparr>
      | _ \<Rightarrow> st\<lparr>st_phase := Pulling\<rparr>)"

definition park_step :: "'c pool_scheduler \<Rightarrow> 'c stream \<Rightarrow> 'c stream" where
  "park_step s st =
     (let st = (if wants_pull s st then st\<lparr>st_pull := Some (start_pull st)\<rparr> else st)
      in st\<lparr>st_phase := Parked\<rparr>)"

fun pull_done :: "'c pull option \<Rightarrow> bool" where
  "pull_done (Some (Pulled _)) = True"
| "pull_done (Some (PullFailed _)) = True"
| "pull_done _ = False"

definition wakes :: "'c stream \<Rightarrow> bool" where
  "wakes st = (st_wakeup st \<or> pull_done (st_pull st))"

section \<open>The pull task\<close>

text \<open>\<^verbatim>\<open>_gated\<close>: the semaphore, then the source; the permit goes back when the source has ended.\<close>

definition gate_acquired :: "'c stream \<Rightarrow> 'c stream" where
  "gate_acquired st = st\<lparr>st_permits := st_permits st - 1, st_pull := Some AwaitSource\<rparr>"

definition next_submission :: "'c stream \<Rightarrow> 'c stream" where
  "next_submission st =
     (case st_source st of
        [] \<Rightarrow> st\<lparr>st_pull := Some (Pulled None),
               st_permits := (case st_owner st of None \<Rightarrow> st_permits st | Some _ \<Rightarrow> st_permits st + 1)\<rparr>
      | sub # rest \<Rightarrow>
          (let tagged = \<lparr>sub_job = sub_job sub, sub_context = tag_context (st_owner st) (sub_context sub)\<rparr>
           in st\<lparr>st_source := rest, st_taken := st_taken st @ [tagged],
                 st_pull := Some (Pulled (Some tagged))\<rparr>))"

definition source_raises :: "py_exn \<Rightarrow> 'c stream \<Rightarrow> 'c stream" where
  "source_raises e st = st\<lparr>st_pull := Some (PullFailed e)\<rparr>"

section \<open>The pool\<close>

text \<open>The close task, after \<^verbatim>\<open>create_task\<close>: waiting for quiescence, joining, finishing, done.\<close>

datatype close_stage = CloseWaiting | CloseJoining | CloseFinishing | CloseDone

record 'c ExecutionPool =
  p_config :: PoolCapacity
  p_effective_capacity :: "EffectivePoolCapacity option"
  p_state :: ExecutionPoolState
  p_closed :: bool
  p_scheduler :: "'c pool_scheduler option"
  p_owning_loop :: "nat option"
  p_close_task :: "close_stage option"
  p_active_streams :: int
  p_streams :: "'c stream list"
  p_shutdown_complete :: bool
  p_notified :: bool

definition ExecutionPool_new :: "PoolCapacity \<Rightarrow> 'c ExecutionPool" where
  "ExecutionPool_new config =
     \<lparr>p_config = config, p_effective_capacity = None, p_state = ExecutionPoolState.CREATED,
      p_closed = False, p_scheduler = None, p_owning_loop = None, p_close_task = None,
      p_active_streams = 0, p_streams = [], p_shutdown_complete = False, p_notified = False\<rparr>"

definition effective_capacity :: "'c ExecutionPool \<Rightarrow> (py_exn, EffectivePoolCapacity) result" where
  "effective_capacity p =
     (case p_effective_capacity p of
        None \<Rightarrow> Inl (ExecutorFailure ''effective capacity is resolved when the pool is entered''
                  ExecutorFailureCode.POOL_CAPACITY_UNRESOLVED)
      | Some c \<Rightarrow> Inr c)"

definition require_owning_loop :: "nat \<Rightarrow> 'c ExecutionPool \<Rightarrow> (py_exn, unit) result" where
  "require_owning_loop current p =
     (case p_owning_loop p of
        None \<Rightarrow> Inr ()
      | Some loop \<Rightarrow>
          ensure (current = loop)
            (ExecutorFailure ''an execution pool is driven only by the event loop that opened it''
              ExecutorFailureCode.POOL_WRONG_EVENT_LOOP))"

definition running_scheduler :: "'c ExecutionPool \<Rightarrow> (py_exn, 'c pool_scheduler) result" where
  "running_scheduler p =
     bind_result (ensure (p_state p = ExecutionPoolState.RUNNING)
         (ExecutorFailure (''an execution pool in state '' @ ExecutionPoolState_value (p_state p) @ '' cannot stream'')
           ExecutorFailureCode.POOL_INVALID_STATE))
       (\<lambda>_. case p_scheduler p of
          None \<Rightarrow> Inl (ExecutorFailure ''the execution pool has no scheduler'' ExecutorFailureCode.POOL_NO_SCHEDULER)
        | Some s \<Rightarrow> Inr s)"

definition closing_scheduler ::
  "'c ExecutionPool \<Rightarrow> 'c pool_scheduler option \<times> 'c ExecutionPool" where
  "closing_scheduler p =
     (if p_closed p then (None, p)
      else case p_scheduler p of
        None \<Rightarrow> (None, p\<lparr>p_closed := True, p_state := ExecutionPoolState.CLOSED\<rparr>)
      | Some s \<Rightarrow> (Some s, p))"

definition closed_state :: "bool \<Rightarrow> ExecutionPoolState" where
  "closed_state broke = (if broke then ExecutionPoolState.BROKEN else ExecutionPoolState.CLOSED)"

definition wake_streams :: "'c ExecutionPool \<Rightarrow> 'c ExecutionPool" where
  "wake_streams p =
     p\<lparr>p_streams := map (\<lambda>st. if st_registered st then st\<lparr>st_wakeup := True\<rparr> else st) (p_streams p)\<rparr>"

text \<open>
  A scheduler operation that announces its change schedules \<^verbatim>\<open>_wake_streams\<close> on the loop.
\<close>

definition announced :: "'c pool_scheduler \<Rightarrow> 'c ExecutionPool \<Rightarrow> 'c ExecutionPool" where
  "announced s p = p\<lparr>p_scheduler := Some s, p_notified := True\<rparr>"

definition notify_streams :: "'c ExecutionPool \<Rightarrow> 'c ExecutionPool" where
  "notify_streams p = (wake_streams p)\<lparr>p_notified := False\<rparr>"

definition aenter :: "nat \<Rightarrow> int option \<Rightarrow> 'c ExecutionPool \<Rightarrow> (py_exn, 'c ExecutionPool) result" where
  "aenter current reported p =
     bind_result (ensure (p_state p = ExecutionPoolState.CREATED)
         (ExecutorFailure (''an execution pool in state '' @ ExecutionPoolState_value (p_state p) @ '' cannot be opened'')
           ExecutorFailureCode.POOL_INVALID_STATE))
       (\<lambda>_. bind_result (resolve_pool_capacity reported (p_config p)) (\<lambda>effective.
         bind_result (ExecutionScheduler_new (epc_max_active_jobs effective)) (\<lambda>scheduler.
           Inr (p\<lparr>p_effective_capacity := Some effective, p_owning_loop := Some current,
                  p_scheduler := Some scheduler, p_state := ExecutionPoolState.RUNNING\<rparr>))))"

text \<open>\<^verbatim>\<open>_close\<close> up to its wait for the close task.\<close>

definition close_pool :: "bool \<Rightarrow> 'c ExecutionPool \<Rightarrow> 'c ExecutionPool" where
  "close_pool abort p =
     (case closing_scheduler p of
        (None, p) \<Rightarrow> p
      | (Some s, p) \<Rightarrow>
          (let (s, p) =
             (if p_close_task p = None
              then (close_intake s,
                    (wake_streams (announced (close_intake s) (p\<lparr>p_state := ExecutionPoolState.DRAINING\<rparr>)))
                      \<lparr>p_close_task := Some CloseWaiting\<rparr>)
              else (s, p))
           in if abort then announced (cancel_all s) p else p))"

definition drain :: "nat \<Rightarrow> 'c ExecutionPool \<Rightarrow> (py_exn, 'c ExecutionPool) result" where
  "drain current p = bind_result (require_owning_loop current p) (\<lambda>_. Inr (close_pool False p))"

definition abort_pool :: "nat \<Rightarrow> 'c ExecutionPool \<Rightarrow> (py_exn, 'c ExecutionPool) result" where
  "abort_pool current p = bind_result (require_owning_loop current p) (\<lambda>_. Inr (close_pool True p))"

definition aexit :: "nat \<Rightarrow> bool \<Rightarrow> 'c ExecutionPool \<Rightarrow> (py_exn, 'c ExecutionPool) result" where
  "aexit current raised p =
     bind_result (require_owning_loop current p) (\<lambda>_.
       if p_closed p then Inr p
       else if p_state p = ExecutionPoolState.CREATED
       then Inr (p\<lparr>p_closed := True, p_state := ExecutionPoolState.CLOSED\<rparr>)
       else if raised then abort_pool current p else drain current p)"

text \<open>The last part of \<^verbatim>\<open>_finish_close\<close>, on the loop.\<close>

definition finish_close :: "'c pool_scheduler \<Rightarrow> 'c ExecutionPool \<Rightarrow> 'c ExecutionPool" where
  "finish_close s p =
     (let p = wake_streams (p\<lparr>p_shutdown_complete := True, p_closed := True,
            p_state := closed_state (is_broken s), p_close_task := Some CloseDone\<rparr>)
      in if p_active_streams p = 0 then announced (discard_completions s) p else p)"

text \<open>
  The start of a stream: \<open>width\<close> is \<^verbatim>\<open>concurrency\<close>, and \<open>mapped\<close> tells \<^verbatim>\<open>map_stream\<close> from \<^verbatim>\<open>run_stream\<close>.
\<close>

definition new_stream ::
  "nat option \<Rightarrow> int \<Rightarrow> 'c ExecutionSubmission list \<Rightarrow> 'c stream" where
  "new_stream owner width source =
     \<lparr>st_owner = owner, st_width = width, st_permits = width, st_source = source, st_taken = [],
      st_exhausted = False, st_carried = None, st_pull = None, st_wakeup = False,
      st_registered = True, st_outstanding = 0, st_admitted = [], st_yielded = [], st_phase = Head\<rparr>"

definition drive_stream ::
  "nat \<Rightarrow> nat option \<Rightarrow> int \<Rightarrow> 'c ExecutionSubmission list \<Rightarrow> 'c ExecutionPool \<Rightarrow>
     (py_exn, 'c ExecutionPool) result" where
  "drive_stream current owner width source p =
     bind_result (require_owning_loop current p) (\<lambda>_.
       bind_result (running_scheduler p) (\<lambda>_.
         Inr (p\<lparr>p_streams := p_streams p @ [new_stream owner width source],
                p_active_streams := p_active_streams p + 1\<rparr>)))"

definition run_stream ::
  "nat \<Rightarrow> 'c ExecutionSubmission list \<Rightarrow> 'c ExecutionPool \<Rightarrow> (py_exn, 'c ExecutionPool) result" where
  "run_stream current source p = drive_stream current None 0 source p"

definition map_stream ::
  "nat \<Rightarrow> int option \<Rightarrow> 'c ExecutionSubmission list \<Rightarrow> 'c ExecutionPool \<Rightarrow>
     (py_exn, 'c ExecutionPool) result" where
  "map_stream current concurrency source p =
     bind_result (require_owning_loop current p) (\<lambda>_.
       bind_result (case concurrency of
            None \<Rightarrow> bind_result (effective_capacity p) (\<lambda>c. Inr (epc_max_active_jobs c))
          | Some width \<Rightarrow> Inr width) (\<lambda>width.
         bind_result (ensure (\<not> width < 1) (ValueError ''concurrency must be positive'')) (\<lambda>_.
           bind_result (running_scheduler p) (\<lambda>_.
             drive_stream current (Some (length (p_streams p))) width source p))))"

text \<open>
  The \<^verbatim>\<open>finally\<close> block of \<^verbatim>\<open>_drive_stream\<close>: the pull is cancelled first, which raises the
  exception of a pull that has failed and skips the rest of the block.
\<close>

definition leave_step :: "nat \<Rightarrow> bool \<Rightarrow> stream_end \<Rightarrow> 'c pool_scheduler \<Rightarrow> 'c ExecutionPool \<Rightarrow> 'c ExecutionPool" where
  "leave_step i released r s p =
     (let st = p_streams p ! i;
          after = (\<lambda>r. if released \<or> st_owner st = None then Ended r else Releasing r)
      in case st_pull st of
           Some (PullFailed e) \<Rightarrow>
             p\<lparr>p_streams := (p_streams p)[i := st\<lparr>st_phase := after (Raised e)\<rparr>]\<rparr>
         | _ \<Rightarrow>
             (let p = p\<lparr>p_streams := (p_streams p)[i :=
                          st\<lparr>st_pull := None, st_registered := False, st_phase := after r\<rparr>],
                        p_active_streams := p_active_streams p - 1\<rparr>
              in if p_active_streams p = 0 \<and> p_shutdown_complete p
                 then announced (discard_completions s) p else p))"


section \<open>Steps\<close>

fun suspended :: "'c stream_phase \<Rightarrow> bool" where
  "suspended Yielded = True"
| "suspended Parked = True"
| "suspended Abandoned = True"
| "suspended (Ended _) = True"
| "suspended _ = False"

definition loop_free :: "'c ExecutionPool \<Rightarrow> bool" where
  "loop_free p = list_all (\<lambda>st. suspended (st_phase st)) (p_streams p)"

text \<open>Whether \<^verbatim>\<open>admit\<close> gets past its guards, and so announces a change.\<close>

definition admits :: "'c pool_scheduler \<Rightarrow> 'c stream \<Rightarrow> bool" where
  "admits s st = (st_carried st \<noteq> None \<and> can_admit s)"

definition admit_events :: "py_exn option \<Rightarrow> 'c pool_scheduler \<Rightarrow> 'c stream \<Rightarrow> 'c ctx event list" where
  "admit_events start s st =
     (case st_carried st of
        None \<Rightarrow> []
      | Some sub \<Rightarrow>
          [Admit (sub_job sub) (sub_context sub) start
             (fst (admit start (sub_job sub) (sub_context sub) s)) (next_ticket s)])"

fun taken_events :: "'c stream \<Rightarrow> 'c stream \<Rightarrow> 'c ctx event list" where
  "taken_events st st' =
     (case st_phase st' of Prefetching c \<Rightarrow> [Deliver (Some (claims (st_owner st))) c] | _ \<Rightarrow> [])"

text \<open>
  One piece of a stream between two calls of the scheduler, of the pull task or of the caller:
  the scheduler events it performs and whether a change was announced. \<open>turn_close\<close> is the
  consumer that stops, \<open>turn_finalize\<close> the later finalisation of the driver it dropped, and
  \<open>turn_cancel\<close> the cancellation of the waiting task.
\<close>

inductive turn ::
  "ExecutionPoolState \<Rightarrow> 'c pool_scheduler \<Rightarrow> 'c stream \<Rightarrow> 'c ctx event list \<Rightarrow> bool \<Rightarrow>
     ExecutionPoolState \<Rightarrow> 'c pool_scheduler \<Rightarrow> 'c stream \<Rightarrow> bool" where
  turn_head: "st_phase st = Head \<Longrightarrow> turn state s st [] False state s (head_step state st)"
| turn_take: "st_phase st = TakingOwn \<Longrightarrow> take_own_step state s st = (state', s', st') \<Longrightarrow>
     turn state s st (taken_events st st') (taken_events st st' \<noteq> []) state' s' st'"
| turn_yield: "st_phase st = Prefetching c \<Longrightarrow> turn state s st [] False state s (yield_step s c st)"
| turn_resume: "st_phase st = Yielded \<Longrightarrow> turn state s st [] False state s (st\<lparr>st_phase := Head\<rparr>)"
| turn_close: "st_phase st = Yielded \<Longrightarrow> st_owner st = Some owner \<Longrightarrow>
     turn state s st [ReleaseOwned (owns owner)] True state (release_owned (owns owner) s)
       (st\<lparr>st_phase := Abandoned\<rparr>)"
| turn_close_plain: "st_phase st = Yielded \<Longrightarrow> st_owner st = None \<Longrightarrow>
     turn state s st [] False state s (st\<lparr>st_phase := Abandoned\<rparr>)"
| turn_finalize: "st_phase st = Abandoned \<Longrightarrow>
     turn state s st [] False state s (st\<lparr>st_phase := Leaving True CallerClosed\<rparr>)"
| turn_ending: "st_phase st = Ending \<Longrightarrow> turn state s st [] False state s (ending_step s st)"
| turn_admit: "st_phase st = AdmittingCarried \<Longrightarrow> admit_carried_step start s st = (s', st') \<Longrightarrow>
     turn state s st (admit_events start s st) (admits s st) state s' st'"
| turn_collect: "st_phase st = Collecting \<Longrightarrow> turn state s st [] False state s (collect_step state st)"
| turn_park: "st_phase st = Pulling \<Longrightarrow> turn state s st [] False state s (park_step s st)"
| turn_wake: "st_phase st = Parked \<Longrightarrow> wakes st \<Longrightarrow>
     turn state s st [] False state s (st\<lparr>st_phase := Head\<rparr>)"
| turn_cancel: "st_phase st = Parked \<Longrightarrow>
     turn state s st [] False state s (st\<lparr>st_phase := Leaving False CallerCancelled\<rparr>)"
| turn_release: "st_phase st = Releasing r \<Longrightarrow> st_owner st = Some owner \<Longrightarrow>
     turn state s st [ReleaseOwned (owns owner)] True state (release_owned (owns owner) s)
       (st\<lparr>st_phase := Ended r\<rparr>)"

text \<open>The pull task of a stream runs when the loop is free.\<close>

inductive pull_step :: "'c stream \<Rightarrow> 'c stream \<Rightarrow> bool" where
  pull_gate: "st_pull st = Some AwaitGate \<Longrightarrow> 0 < st_permits st \<Longrightarrow> pull_step st (gate_acquired st)"
| pull_source: "st_pull st = Some AwaitSource \<Longrightarrow> pull_step st (next_submission st)"
| pull_raises: "st_pull st = Some AwaitSource \<Longrightarrow> pull_step st (source_raises e st)"

definition close_events :: "bool \<Rightarrow> 'c ExecutionPool \<Rightarrow> 'c ctx event list" where
  "close_events abort p =
     (if p_closed p \<or> p_scheduler p = None then []
      else (if p_close_task p = None then [CloseIntake] else []) @ (if abort then [CancelAll] else []))"

definition exit_events :: "bool \<Rightarrow> 'c ExecutionPool \<Rightarrow> 'c ctx event list" where
  "exit_events raised p =
     (if p_closed p \<or> p_state p = ExecutionPoolState.CREATED then [] else close_events raised p)"

fun finishes :: "'c event \<Rightarrow> bool" where
  "finishes (WorkerFinish _ _) = True"
| "finishes _ = False"

definition leave_events :: "nat \<Rightarrow> 'c ExecutionPool \<Rightarrow> 'c ctx event list" where
  "leave_events i p =
     (case st_pull (p_streams p ! i) of
        Some (PullFailed e) \<Rightarrow> []
      | _ \<Rightarrow> if p_active_streams p = 1 \<and> p_shutdown_complete p then [Discard] else [])"

text \<open>
  A step of the pool, labelled with the scheduler events it performs.
\<close>

inductive pool_step ::
  "(ExecutionJob \<Rightarrow> CompletedExecution \<Rightarrow> bool) \<Rightarrow> 'c ExecutionPool \<Rightarrow> 'c ctx event list \<Rightarrow>
     'c ExecutionPool \<Rightarrow> bool"
  for runs :: "ExecutionJob \<Rightarrow> CompletedExecution \<Rightarrow> bool" where
  pool_enter: "loop_free p \<Longrightarrow> aenter current reported p = Inr p' \<Longrightarrow> pool_step runs p [] p'"
| pool_exit: "loop_free p \<Longrightarrow> aexit current raised p = Inr p' \<Longrightarrow>
     pool_step runs p (exit_events raised p) p'"
| pool_drain: "loop_free p \<Longrightarrow> drain current p = Inr p' \<Longrightarrow> pool_step runs p (close_events False p) p'"
| pool_abort: "loop_free p \<Longrightarrow> abort_pool current p = Inr p' \<Longrightarrow> pool_step runs p (close_events True p) p'"
| pool_quiesced: "p_close_task p = Some CloseWaiting \<Longrightarrow> p_scheduler p = Some s \<Longrightarrow> quiescent s \<Longrightarrow>
     pool_step runs p [] (p\<lparr>p_close_task := Some CloseJoining\<rparr>)"
| pool_joined: "p_close_task p = Some CloseJoining \<Longrightarrow> p_scheduler p = Some s \<Longrightarrow>
     intake_closed s \<Longrightarrow> list_all (\<lambda>w. w = Exited) (workers s) \<Longrightarrow>
     pool_step runs p [ShutdownJoined True]
       ((announced (shutdown_joined True s) p)\<lparr>p_close_task := Some CloseFinishing\<rparr>)"
| pool_finish: "loop_free p \<Longrightarrow> p_close_task p = Some CloseFinishing \<Longrightarrow> p_scheduler p = Some s \<Longrightarrow>
     pool_step runs p (if p_active_streams p = 0 then [Discard] else []) (finish_close s p)"
| pool_notify: "loop_free p \<Longrightarrow> p_notified p \<Longrightarrow> pool_step runs p [] (notify_streams p)"
| pool_worker: "p_scheduler p = Some s \<Longrightarrow> worker_event e \<Longrightarrow> sched_step runs s e s' \<Longrightarrow>
     pool_step runs p [e] (p\<lparr>p_scheduler := Some s', p_notified := p_notified p \<or> finishes e\<rparr>)"
| pool_run_stream: "loop_free p \<Longrightarrow> run_stream current source p = Inr p' \<Longrightarrow> pool_step runs p [] p'"
| pool_map_stream: "loop_free p \<Longrightarrow> map_stream current concurrency source p = Inr p' \<Longrightarrow>
     pool_step runs p [] p'"
| pool_turn: "i < length (p_streams p) \<Longrightarrow> p_scheduler p = Some s \<Longrightarrow>
     suspended (st_phase (p_streams p ! i)) \<longrightarrow> loop_free p \<Longrightarrow>
     turn (p_state p) s (p_streams p ! i) l n state' s' st' \<Longrightarrow>
     pool_step runs p l
       (p\<lparr>p_state := state', p_scheduler := Some s', p_notified := p_notified p \<or> n,
          p_streams := (p_streams p)[i := st']\<rparr>)"
| pool_pull: "i < length (p_streams p) \<Longrightarrow> loop_free p \<Longrightarrow> pull_step (p_streams p ! i) st' \<Longrightarrow>
     pool_step runs p [] (p\<lparr>p_streams := (p_streams p)[i := st']\<rparr>)"
| pool_leave: "i < length (p_streams p) \<Longrightarrow> p_scheduler p = Some s \<Longrightarrow>
     st_phase (p_streams p ! i) = Leaving released r \<Longrightarrow>
     pool_step runs p (leave_events i p) (leave_step i released r s p)"

text \<open>A run of a pool with the log of the scheduler events it performed.\<close>

inductive pool_run ::
  "(ExecutionJob \<Rightarrow> CompletedExecution \<Rightarrow> bool) \<Rightarrow> PoolCapacity \<Rightarrow> 'c ctx event list \<Rightarrow>
     'c ExecutionPool \<Rightarrow> bool"
  for runs :: "ExecutionJob \<Rightarrow> CompletedExecution \<Rightarrow> bool" and config :: PoolCapacity where
  pool_run_new: "PoolCapacity_ok config \<Longrightarrow> pool_run runs config [] (ExecutionPool_new config)"
| pool_run_step: "pool_run runs config es p \<Longrightarrow> pool_step runs p l p' \<Longrightarrow>
     pool_run runs config (es @ l) p'"


section \<open>The pool's lifecycle\<close>

definition registered_count :: "'c stream list \<Rightarrow> int" where
  "registered_count sts = int (length (filter st_registered sts))"

definition unopened_ok :: "'c ExecutionPool \<Rightarrow> bool" where
  "unopened_ok p =
     (p_streams p = [] \<and> p_close_task p = None \<and> \<not> p_notified p \<and> \<not> p_shutdown_complete p \<and>
      p_state p = (if p_closed p then ExecutionPoolState.CLOSED else ExecutionPoolState.CREATED) \<and>
      p_effective_capacity p = None \<and> p_owning_loop p = None)"

fun stage_ok :: "close_stage option \<Rightarrow> ExecutionPoolState \<Rightarrow> 'c pool_scheduler \<Rightarrow> bool" where
  "stage_ok None state s =
     ((state = ExecutionPoolState.RUNNING \<or> state = ExecutionPoolState.BROKEN \<and> broken s \<noteq> None) \<and>
      (intake_closed s \<longrightarrow> broken s \<noteq> None))"
| "stage_ok (Some CloseDone) state s =
     (state = closed_state (is_broken s) \<and> intake_closed s \<and> workers s = [])"
| "stage_ok (Some CloseFinishing) state s =
     (state = ExecutionPoolState.DRAINING \<and> intake_closed s \<and> workers s = [])"
| "stage_ok (Some _) state s = (state = ExecutionPoolState.DRAINING \<and> intake_closed s)"

definition opened_ok :: "'c pool_scheduler \<Rightarrow> 'c ExecutionPool \<Rightarrow> bool" where
  "opened_ok s p =
     (p_owning_loop p \<noteq> None \<and> stage_ok (p_close_task p) (p_state p) s \<and>
      (\<exists>c. p_effective_capacity p = Some c \<and> epc_max_active_jobs c = capacity s) \<and>
      p_closed p = (p_close_task p = Some CloseDone) \<and>
      p_shutdown_complete p = (p_close_task p = Some CloseDone) \<and>
      (p_close_task p = Some CloseDone \<and> p_active_streams p = 0 \<longrightarrow> ready s = [] \<and> residents s = 0))"

text \<open>A stream counts as active until it ends; one that ends by an exception may stay counted.\<close>

definition stream_reg_ok :: "'c stream \<Rightarrow> bool" where
  "stream_reg_ok st =
     (case st_phase st of
        Ended (Raised _) \<Rightarrow> True | Releasing (Raised _) \<Rightarrow> True
      | Ended _ \<Rightarrow> \<not> st_registered st | Releasing _ \<Rightarrow> \<not> st_registered st | _ \<Rightarrow> st_registered st)"

definition pool_ok :: "'c ExecutionPool \<Rightarrow> bool" where
  "pool_ok p =
     (p_active_streams p = registered_count (p_streams p) \<and>
      list_all stream_reg_ok (p_streams p) \<and>
      (case p_scheduler p of None \<Rightarrow> unopened_ok p | Some s \<Rightarrow> opened_ok s p))"

lemma wake_streams_simps [simp]:
  "p_scheduler (wake_streams p) = p_scheduler p" "p_state (wake_streams p) = p_state p"
  "p_close_task (wake_streams p) = p_close_task p" "p_closed (wake_streams p) = p_closed p"
  "p_active_streams (wake_streams p) = p_active_streams p"
  "p_shutdown_complete (wake_streams p) = p_shutdown_complete p"
  "p_effective_capacity (wake_streams p) = p_effective_capacity p"
  "p_owning_loop (wake_streams p) = p_owning_loop p" "p_notified (wake_streams p) = p_notified p"
  "p_config (wake_streams p) = p_config p" "length (p_streams (wake_streams p)) = length (p_streams p)"
  by (simp_all add: wake_streams_def)

lemma registered_wake [simp]: "registered_count (p_streams (wake_streams p)) = registered_count (p_streams p)"
proof -
  have "length (filter st_registered (map (\<lambda>st. if st_registered st then st\<lparr>st_wakeup := True\<rparr> else st) sts))
      = length (filter st_registered sts)" for sts :: "'a stream list"
    by (induction sts) auto
  then show ?thesis by (simp add: registered_count_def wake_streams_def)
qed

lemma registered_update:
  "i < length sts \<Longrightarrow> registered_count (sts[i := st']) =
     registered_count sts - (if st_registered (sts ! i) then 1 else 0) + (if st_registered st' then 1 else 0)"
  using filter_update [of i sts st_registered st'] by (simp add: registered_count_def split: if_splits)

lemma registered_append [simp]:
  "registered_count (sts @ [st]) = registered_count sts + (if st_registered st then 1 else 0)"
  by (simp add: registered_count_def)

lemmas pool_ok_defs = pool_ok_def opened_ok_def unopened_ok_def

subsection \<open>What scheduler steps keep\<close>

lemma take_own_cases:
  assumes "take_own_step state s st = (state', s', st')"
  obtains (deliver) c where "take_completion_nowait (Some (claims (st_owner st))) s = (Inr (Some c), s')"
      "state' = state"
      "st' = st\<lparr>st_outstanding := st_outstanding st - 1, st_phase := Prefetching c\<rparr>"
    | (none) "take_completion_nowait (Some (claims (st_owner st))) s = (Inr None, s)" "s' = s"
      "state' = state" "st' = st\<lparr>st_phase := Ending\<rparr>"
    | (broke) "s' = s" "broken s \<noteq> None"
      "state' = (if state = ExecutionPoolState.RUNNING then ExecutionPoolState.BROKEN else state)"
      "st' = st\<lparr>st_phase := Leaving False (Raised SchedulerBroken)\<rparr>"
proof (cases "take_completion_nowait (Some (claims (st_owner st))) s")
  case (Pair r u)
  show thesis
  proof (cases r)
    case (Inl e)
    with Pair have "u = s" "broken s \<noteq> None" "e = SchedulerBroken"
      by (auto simp: take_completion_nowait_def take_ready_owned_def raise_if_broken_def bind_ensure
          split: if_splits option.splits)
    with Pair Inl assms show thesis by (intro broke) (auto simp: take_own_step_def)
  next
    case (Inr m)
    show thesis
    proof (cases m)
      case None
      with Pair Inr have "u = s"
        by (auto simp: take_completion_nowait_def take_ready_owned_def raise_if_broken_def bind_ensure
            split: if_splits option.splits)
      with Pair Inr None assms show thesis by (intro none) (auto simp: take_own_step_def)
    next
      case (Some c)
      with Pair Inr assms show thesis by (intro deliver [of c]) (auto simp: take_own_step_def)
    qed
  qed
qed

lemma admit_carried_cases:
  assumes "admit_carried_step start s st = (s', st')"
  obtains (bare) "st_carried st = None" "s' = s" "st' = st\<lparr>st_phase := Collecting\<rparr>"
    | (admitted) sub where "st_carried st = Some sub"
      "admit start (sub_job sub) (sub_context sub) s = (ADMITTED, s')"
      "st' = st\<lparr>st_carried := None, st_outstanding := st_outstanding st + 1,
        st_admitted := st_admitted st @ [sub], st_phase := Head\<rparr>"
    | (closed) sub where "st_carried st = Some sub"
      "admit start (sub_job sub) (sub_context sub) s = (INTAKE_CLOSED, s')"
      "st' = st\<lparr>st_carried := None, st_exhausted := True, st_phase := Head\<rparr>"
    | (full) sub where "st_carried st = Some sub"
      "admit start (sub_job sub) (sub_context sub) s = (NO_ROOM, s')"
      "st' = st\<lparr>st_phase := Collecting\<rparr>"
proof (cases "st_carried st")
  case None
  with assms show thesis by (intro bare) (auto simp: admit_carried_step_def)
next
  case (Some sub)
  obtain r u where a: "admit start (sub_job sub) (sub_context sub) s = (r, u)" by fastforce
  show thesis
  proof (cases r)
    case ADMITTED
    with assms Some a show thesis by (intro admitted [of sub]) (auto simp: admit_carried_step_def)
  next
    case INTAKE_CLOSED
    with assms Some a show thesis by (intro closed [of sub]) (auto simp: admit_carried_step_def)
  next
    case NO_ROOM
    with assms Some a show thesis by (intro full [of sub]) (auto simp: admit_carried_step_def)
  qed
qed

text \<open>A turn performs its events on the scheduler.\<close>

lemma turn_sched:
  assumes "turn state s st l n state' s' st'"
  shows "trace (sched_step runs) s l s'"
  using assms
proof cases
  case turn_take
  from turn_take(4) show ?thesis
  proof (cases rule: take_own_cases)
    case (deliver c)
    then show ?thesis using turn_take step_deliver [OF deliver(1)] by (auto intro: trace_single)
  qed (use turn_take in \<open>auto intro: trace_nil\<close>)
next
  case (turn_admit start)
  from turn_admit(5) show ?thesis
    by (cases rule: admit_carried_cases)
      (use turn_admit in \<open>auto simp: admit_events_def intro: trace_nil intro!: trace_single step_admit\<close>)
qed (auto intro: trace_nil trace_single step_release)

lemma announced_simps [simp]:
  "p_scheduler (announced s p) = Some s" "p_notified (announced s p)"
  "p_streams (announced s p) = p_streams p" "p_state (announced s p) = p_state p"
  "p_close_task (announced s p) = p_close_task p" "p_closed (announced s p) = p_closed p"
  "p_active_streams (announced s p) = p_active_streams p"
  "p_shutdown_complete (announced s p) = p_shutdown_complete p"
  "p_effective_capacity (announced s p) = p_effective_capacity p"
  "p_owning_loop (announced s p) = p_owning_loop p"
  by (simp_all add: announced_def)

text \<open>What a request to close does, in one equation.\<close>

definition closing :: "bool \<Rightarrow> 'c pool_scheduler \<Rightarrow> 'c pool_scheduler" where
  "closing abort s = (if abort then cancel_all s else s)"

lemma close_pool_cases:
  obtains (closed) "p_closed p" "close_pool abort p = p" "close_events abort p = []"
    | (unopened) "\<not> p_closed p" "p_scheduler p = None" "close_events abort p = []"
      "close_pool abort p = p\<lparr>p_closed := True, p_state := ExecutionPoolState.CLOSED\<rparr>"
    | (first) s where "\<not> p_closed p" "p_scheduler p = Some s" "p_close_task p = None"
      "close_events abort p = CloseIntake # (if abort then [CancelAll] else [])"
      "close_pool abort p = (wake_streams (announced (closing abort (close_intake s)) p))
        \<lparr>p_state := ExecutionPoolState.DRAINING, p_close_task := Some CloseWaiting\<rparr>"
    | (again) s where "\<not> p_closed p" "p_scheduler p = Some s" "p_close_task p \<noteq> None"
      "close_events abort p = (if abort then [CancelAll] else [])"
      "close_pool abort p = p\<lparr>p_scheduler := Some (closing abort s), p_notified := p_notified p \<or> abort\<rparr>"
proof (cases "p_closed p")
  case True
  then show thesis using closed by (simp add: close_pool_def closing_scheduler_def close_events_def)
next
  case open_: False
  show thesis
  proof (cases "p_scheduler p")
    case None
    then show thesis using open_ unopened
      by (simp add: close_pool_def closing_scheduler_def close_events_def)
  next
    case (Some s)
    show thesis
    proof (cases "p_close_task p = None")
      case True
      then show thesis using open_ Some
        by (intro first [of s]) (simp_all add: close_pool_def closing_scheduler_def close_events_def
            closing_def announced_def wake_streams_def)
    next
      case False
      then show thesis using open_ Some
        by (intro again [of s]) (auto simp: close_pool_def closing_scheduler_def close_events_def
            closing_def announced_def)
    qed
  qed
qed


lemma turn_stream_frame:
  assumes "turn state s st l n state' s' st'"
  shows "st_registered st' = st_registered st" "st_owner st' = st_owner st" "st_width st' = st_width st"
proof -
  have "st_registered st' = st_registered st \<and> st_owner st' = st_owner st \<and> st_width st' = st_width st"
    using assms
  proof cases
    case turn_take
    from turn_take(4) show ?thesis by (cases rule: take_own_cases) auto
  next
    case (turn_admit start)
    from turn_admit(5) show ?thesis by (cases rule: admit_carried_cases) auto
  qed (auto simp: head_step_def yield_step_def ending_step_def collect_step_def park_step_def Let_def
      split: option.splits pull.splits if_splits)
  then show "st_registered st' = st_registered st" "st_owner st' = st_owner st" "st_width st' = st_width st"
    by blast+
qed

lemma pull_stream_frame:
  assumes "pull_step st st'"
  shows "st_registered st' = st_registered st" "st_owner st' = st_owner st" "st_width st' = st_width st"
    "st_phase st' = st_phase st" "st_wakeup st' = st_wakeup st" "st_yielded st' = st_yielded st"
    "st_outstanding st' = st_outstanding st" "st_admitted st' = st_admitted st"
    "st_carried st' = st_carried st" "st_exhausted st' = st_exhausted st"
  using assms by (cases, auto simp: gate_acquired_def next_submission_def source_raises_def Let_def
      split: list.splits)+

lemma turn_sched_frame:
  assumes "turn state s st l n state' s' st'"
  shows "capacity s' = capacity s" "broken s \<noteq> None \<Longrightarrow> broken s' \<noteq> None"
    "intake_closed s \<Longrightarrow> intake_closed s' \<and> workers s' = workers s \<and> broken s' = broken s"
    "ready s = [] \<Longrightarrow> intake_closed s \<Longrightarrow> ready s' = [] \<and> residents s' = residents s"
    "\<not> intake_closed s \<Longrightarrow> intake_closed s' \<Longrightarrow> broken s' \<noteq> None"
    "state' = state \<or> state = ExecutionPoolState.RUNNING \<and> state' = ExecutionPoolState.BROKEN \<and> broken s' \<noteq> None"
proof -
  have "capacity s' = capacity s \<and> (broken s \<noteq> None \<longrightarrow> broken s' \<noteq> None) \<and>
    (intake_closed s \<longrightarrow> intake_closed s' \<and> workers s' = workers s \<and> broken s' = broken s) \<and>
    (ready s = [] \<longrightarrow> intake_closed s \<longrightarrow> ready s' = [] \<and> residents s' = residents s) \<and>
    (\<not> intake_closed s \<longrightarrow> intake_closed s' \<longrightarrow> broken s' \<noteq> None) \<and>
    (state' = state \<or> state = ExecutionPoolState.RUNNING \<and> state' = ExecutionPoolState.BROKEN \<and> broken s' \<noteq> None)"
    using assms
  proof cases
    case turn_take
    from turn_take(4) show ?thesis
    proof (cases rule: take_own_cases)
      case (deliver c)
      from nowait_Some [OF deliver(1)] deliver show ?thesis by (auto simp: release_ticket_def)
    qed auto
  next
    case (turn_admit start)
    have F: "capacity u = capacity s \<and> (broken s \<noteq> None \<longrightarrow> broken u \<noteq> None) \<and>
      (intake_closed s \<longrightarrow> u = s) \<and> (\<not> intake_closed s \<longrightarrow> intake_closed u \<longrightarrow> broken u \<noteq> None)"
      if "admit start job ctx s = (r, u)" for job ctx r u
      using that by (cases start) (auto simp: admit_def ensure_worker_def break_scheduler_def Let_def split: if_splits)
    from turn_admit(5) show ?thesis
    proof (cases rule: admit_carried_cases)
      case bare
      then show ?thesis using turn_admit by simp
    qed (use turn_admit F in auto)
  qed (auto simp: release_owned_def Let_def)
  then show "capacity s' = capacity s" "broken s \<noteq> None \<Longrightarrow> broken s' \<noteq> None"
    "intake_closed s \<Longrightarrow> intake_closed s' \<and> workers s' = workers s \<and> broken s' = broken s"
    "ready s = [] \<Longrightarrow> intake_closed s \<Longrightarrow> ready s' = [] \<and> residents s' = residents s"
    "\<not> intake_closed s \<Longrightarrow> intake_closed s' \<Longrightarrow> broken s' \<noteq> None"
    "state' = state \<or> state = ExecutionPoolState.RUNNING \<and> state' = ExecutionPoolState.BROKEN \<and> broken s' \<noteq> None"
    by blast+
qed

lemma stage_turn:
  assumes "turn state s st l n state' s' st'" and "stage_ok stage state s"
  shows "stage_ok stage state' s'"
proof -
  note F = turn_sched_frame [OF assms(1)]
  show ?thesis
  proof (cases stage)
    case None
    with assms(2) F show ?thesis by auto
  next
    case (Some t)
    with assms(2) have "intake_closed s" "state \<noteq> ExecutionPoolState.RUNNING"
      by (cases t; auto simp: closed_state_def split: if_splits)+
    then have "intake_closed s' \<and> workers s' = workers s \<and> broken s' = broken s" "state' = state"
      using F(3,6) by auto
    with Some assms(2) show ?thesis by (cases t) (auto simp: is_broken_def)
  qed
qed

lemma worker_frame:
  assumes "sched_step runs s e t" "worker_event e"
  shows "capacity t = capacity s" "broken s \<noteq> None \<Longrightarrow> broken t \<noteq> None"
    "intake_closed s \<Longrightarrow> intake_closed t" "\<not> intake_closed s \<Longrightarrow> intake_closed t \<Longrightarrow> broken t \<noteq> None"
    "workers s \<noteq> []"
    "\<not> finishes e \<Longrightarrow> ready t = ready s \<and> residents t = residents s \<and> intake_closed t = intake_closed s \<and>
       broken t = broken s"
proof -
  have "capacity t = capacity s \<and> (broken s \<noteq> None \<longrightarrow> broken t \<noteq> None) \<and>
    (intake_closed s \<longrightarrow> intake_closed t) \<and> (\<not> intake_closed s \<longrightarrow> intake_closed t \<longrightarrow> broken t \<noteq> None) \<and>
    workers s \<noteq> [] \<and> (\<not> finishes e \<longrightarrow> ready t = ready s \<and> residents t = residents s \<and>
      intake_closed t = intake_closed s \<and> broken t = broken s)"
    using assms
    by cases (auto simp: take_admitted_def run_one_def finish_def break_scheduler_def Let_def
        split: list.splits if_splits sum.splits)
  then show "capacity t = capacity s" "broken s \<noteq> None \<Longrightarrow> broken t \<noteq> None"
    "intake_closed s \<Longrightarrow> intake_closed t" "\<not> intake_closed s \<Longrightarrow> intake_closed t \<Longrightarrow> broken t \<noteq> None"
    "workers s \<noteq> []"
    "\<not> finishes e \<Longrightarrow> ready t = ready s \<and> residents t = residents s \<and> intake_closed t = intake_closed s \<and>
       broken t = broken s"
    by blast+
qed

lemma stage_worker:
  assumes "sched_step runs s e t" "worker_event e" and "stage_ok stage state s"
  shows "stage_ok stage state t"
proof -
  note F = worker_frame [OF assms(1,2)]
  show ?thesis
  proof (cases stage)
    case None
    with assms(3) F(2-4) show ?thesis by auto
  next
    case (Some c)
    with assms(3) F show ?thesis by (cases c) auto
  qed
qed


lemma list_all_update: "list_all P xs \<Longrightarrow> P y \<Longrightarrow> list_all P (xs[i := y])"
  by (cases "i < length xs") (auto simp: list_all_length nth_list_update)

lemma turn_reg_ok:
  assumes "turn state s st l n state' s' st'" and "stream_reg_ok st"
  shows "stream_reg_ok st'"
  using assms(1)
proof cases
  case turn_take
  from turn_take(4) show ?thesis
    by (cases rule: take_own_cases) (use assms(2) turn_take in \<open>auto simp: stream_reg_ok_def\<close>)
next
  case (turn_admit start)
  from turn_admit(5) show ?thesis
    by (cases rule: admit_carried_cases) (use assms(2) turn_admit in \<open>auto simp: stream_reg_ok_def\<close>)
next
  case (turn_release r owner)
  with assms(2) show ?thesis by (cases r) (auto simp: stream_reg_ok_def)
qed (use assms(2) in \<open>auto simp: stream_reg_ok_def head_step_def yield_step_def ending_step_def
      collect_step_def park_step_def Let_def split: option.splits pull.splits if_splits\<close>)

lemma wake_reg_ok: "list_all stream_reg_ok (p_streams (wake_streams p)) = list_all stream_reg_ok (p_streams p)"
proof -
  have "stream_reg_ok (st\<lparr>st_wakeup := b\<rparr>) = stream_reg_ok st" for st :: "'a stream" and b
    by (simp add: stream_reg_ok_def split: stream_phase.splits stream_end.splits)
  then have "stream_reg_ok (if c then st\<lparr>st_wakeup := b\<rparr> else st) = stream_reg_ok st"
    for st :: "'a stream" and b c by simp
  then show ?thesis by (simp add: wake_streams_def list.pred_map o_def)
qed

lemma opened_not_created: "stage_ok stage state s \<Longrightarrow> state \<noteq> ExecutionPoolState.CREATED"
  by (cases "(stage, state, s)" rule: stage_ok.cases) (auto simp: closed_state_def split: if_splits)

lemma stage_close: "stage_ok stage state s \<Longrightarrow> stage \<noteq> None \<Longrightarrow> stage_ok stage state (closing abort s)"
  by (cases "(stage, state, s)" rule: stage_ok.cases)
    (auto simp: closing_def cancel_all_def is_broken_def)

lemma pool_ok_close:
  assumes "pool_ok p"
  shows "pool_ok (close_pool abort p)"
proof (cases rule: close_pool_cases [of p abort])
  case closed
  with assms show ?thesis by simp
next
  case unopened
  with assms show ?thesis by (auto simp: pool_ok_defs)
next
  case (first s)
  with assms show ?thesis
    by (auto simp: pool_ok_def opened_ok_def wake_reg_ok closing_def cancel_all_def close_intake_def)
next
  case (again s)
  have frame: "capacity (closing abort s) = capacity s" "ready (closing abort s) = ready s"
    "residents (closing abort s) = residents s"
    by (simp_all add: closing_def cancel_all_def)
  have "stage_ok (p_close_task p) (p_state p) (closing abort s)"
    using assms again by (auto simp: pool_ok_def opened_ok_def intro: stage_close)
  with again assms frame show ?thesis by (simp add: pool_ok_def opened_ok_def)
qed

lemma pool_ok_drive:
  assumes "pool_ok p" and "drive_stream current owner width source p = Inr p'"
  shows "pool_ok p'"
  using assms
  by (auto simp: drive_stream_def running_scheduler_def result_simps pool_ok_def opened_ok_def
      new_stream_def stream_reg_ok_def closed_state_def split: option.splits if_splits)

lemma pool_ok_leave:
  assumes "pool_ok p" and "i < length (p_streams p)" and "p_scheduler p = Some s"
    and "st_phase (p_streams p ! i) = Leaving released r"
  shows "pool_ok (leave_step i released r s p)"
proof -
  let ?st = "p_streams p ! i"
  have reg: "st_registered ?st"
    using assms by (auto simp: pool_ok_def list_all_length stream_reg_ok_def)
  define after where "after = (\<lambda>r. if released \<or> st_owner ?st = None then Ended r else Releasing r :: 'a stream_phase)"
  have ok: "stream_reg_ok (st\<lparr>st_registered := False, st_phase := after r\<rparr>)"
    "stream_reg_ok (st\<lparr>st_phase := after (Raised e)\<rparr>)" for st r e
    by (simp_all add: stream_reg_ok_def after_def split: stream_end.splits)
  show ?thesis
  proof (cases "\<exists>e. st_pull ?st = Some (PullFailed e)")
    case True
    then obtain e where e: "st_pull ?st = Some (PullFailed e)" by blast
    then have "leave_step i released r s p =
        p\<lparr>p_streams := (p_streams p)[i := ?st\<lparr>st_phase := after (Raised e)\<rparr>]\<rparr>"
      by (simp add: leave_step_def after_def Let_def)
    then show ?thesis using assms reg ok(2)
      by (auto simp: pool_ok_def opened_ok_def registered_update intro: list_all_update)
  next
    case False
    define q where "q = p\<lparr>p_streams := (p_streams p)[i :=
        ?st\<lparr>st_pull := None, st_registered := False, st_phase := after r\<rparr>],
        p_active_streams := p_active_streams p - 1\<rparr>"
    from False have l: "leave_step i released r s p =
        (if p_active_streams q = 0 \<and> p_shutdown_complete q then announced (discard_completions s) q else q)"
      by (auto simp: leave_step_def after_def q_def Let_def split: option.splits pull.splits)
    have "stream_reg_ok (?st\<lparr>st_pull := None, st_registered := False, st_phase := after r\<rparr>)"
      using ok(1) [of r "?st\<lparr>st_pull := None\<rparr>"] by simp
    then have "p_active_streams q = registered_count (p_streams q) \<and> list_all stream_reg_ok (p_streams q)"
      using assms(1,2) reg by (auto simp: q_def pool_ok_def registered_update intro: list_all_update)
    moreover have "p_scheduler q = Some s" "p_owning_loop q = p_owning_loop p"
      "p_close_task q = p_close_task p" "p_state q = p_state p" "p_closed q = p_closed p"
      "p_effective_capacity q = p_effective_capacity p" "p_shutdown_complete q = p_shutdown_complete p"
      using assms(3) by (simp_all add: q_def)
    moreover have "stage_ok (Some CloseDone) (p_state p) (discard_completions s)"
      if "stage_ok (Some CloseDone) (p_state p) s"
      using that by (auto simp: discard_completions_def is_broken_def)
    ultimately show ?thesis
      using assms(1,3) unfolding l by (auto simp: pool_ok_def opened_ok_def discard_completions_def)
  qed
qed

lemma pool_ok_step:
  assumes "pool_ok p" and "pool_step runs p l p'"
  shows "pool_ok p'"
  using assms(2)
proof cases
  case (pool_enter current reported)
  from pool_enter(3) have "p_state p = ExecutionPoolState.CREATED"
    by (auto simp: aenter_def result_simps)
  with assms(1) have none: "p_scheduler p = None"
    by (auto simp: pool_ok_def opened_ok_def dest: opened_not_created split: option.splits)
  from pool_enter(3) obtain e s where "ExecutionScheduler_new (epc_max_active_jobs e) = Inr s"
    and p': "p' = p\<lparr>p_effective_capacity := Some e, p_owning_loop := Some current,
      p_scheduler := Some s, p_state := ExecutionPoolState.RUNNING\<rparr>"
    by (auto simp: aenter_def result_simps)
  then have "capacity s = epc_max_active_jobs e" "\<not> intake_closed s"
    by (auto simp: ExecutionScheduler_new_def split: if_splits)
  with p' none assms(1) \<open>p_state p = ExecutionPoolState.CREATED\<close> show ?thesis
    by (auto simp: pool_ok_defs split: if_splits)
next
  case (pool_exit current raised)
  from pool_exit(3) have "p' = p \<or> (\<exists>a. p' = close_pool a p) \<or>
      p_state p = ExecutionPoolState.CREATED \<and> \<not> p_closed p \<and> p' = p\<lparr>p_closed := True, p_state := ExecutionPoolState.CLOSED\<rparr>"
    by (auto simp: aexit_def drain_def abort_pool_def result_simps split: if_splits)
  moreover have "p_scheduler p = None" if "p_state p = ExecutionPoolState.CREATED"
    using that assms(1) by (auto simp: pool_ok_def opened_ok_def dest: opened_not_created split: option.splits)
  ultimately show ?thesis using assms(1) pool_ok_close by (auto simp: pool_ok_defs)
next
  case pool_drain
  then show ?thesis using assms(1) pool_ok_close by (auto simp: drain_def result_simps)
next
  case pool_abort
  then show ?thesis using assms(1) pool_ok_close by (auto simp: abort_pool_def result_simps)
next
  case (pool_joined s)
  then show ?thesis using assms(1) by (auto simp: pool_ok_def opened_ok_def shutdown_joined_def Let_def)
next
  case (pool_finish s)
  then show ?thesis using assms(1)
    by (auto simp: pool_ok_def opened_ok_def finish_close_def wake_reg_ok discard_completions_def is_broken_def Let_def)
next
  case pool_notify
  then show ?thesis using assms(1)
    by (auto simp: pool_ok_defs notify_streams_def wake_reg_ok split: option.splits)
next
  case (pool_worker s e s')
  then show ?thesis using assms(1) stage_worker [OF pool_worker(5,4)] worker_frame(1,5) [OF pool_worker(5,4)]
    by (auto simp: pool_ok_def opened_ok_def)
next
  case (pool_run_stream current source)
  then show ?thesis using assms(1) pool_ok_drive by (auto simp: run_stream_def)
next
  case (pool_map_stream current concurrency source)
  then show ?thesis using assms(1) pool_ok_drive by (fastforce simp: map_stream_def result_simps)
next
  case (pool_turn i s n state' s' st')
  have "list_all stream_reg_ok ((p_streams p)[i := st'])"
    using assms(1) pool_turn turn_reg_ok [OF pool_turn(5)]
    by (intro list_all_update) (auto simp: pool_ok_def list_all_length)
  with pool_turn assms(1) stage_turn [OF pool_turn(5)] turn_sched_frame [OF pool_turn(5)]
    turn_stream_frame(1) [OF pool_turn(5)]
  show ?thesis by (auto simp: pool_ok_def opened_ok_def registered_update)
next
  case (pool_pull i st')
  have "stream_reg_ok st' = stream_reg_ok (p_streams p ! i)"
    using pull_stream_frame(1,4) [OF pool_pull(5)]
    by (simp add: stream_reg_ok_def split: stream_phase.splits stream_end.splits)
  then have "list_all stream_reg_ok ((p_streams p)[i := st'])"
    using assms(1) pool_pull by (intro list_all_update) (auto simp: pool_ok_def list_all_length)
  with pool_pull assms(1) pull_stream_frame(1) [OF pool_pull(5)] show ?thesis
    by (auto simp: pool_ok_defs registered_update split: option.splits)
next
  case (pool_leave i s released r)
  then show ?thesis using pool_ok_leave [OF assms(1)] by simp
qed (use assms(1) in \<open>auto simp: pool_ok_def opened_ok_def\<close>)


section \<open>The scheduler of a pool\<close>

lemma trace_capacity: "trace (sched_step runs) s es t \<Longrightarrow> capacity t = capacity s"
  by (induction rule: trace.induct) (auto simp: step_capacity)

lemma close_trace:
  "trace (sched_step runs) s (if abort then [CancelAll] else []) (closing abort s)"
  by (auto simp: closing_def intro: trace_nil trace_single step_cancel)

lemma close_pool_sched:
  assumes "p_scheduler p = Some s"
  shows "\<exists>s'. p_scheduler (close_pool abort p) = Some s' \<and> trace (sched_step runs) s (close_events abort p) s'"
proof (cases rule: close_pool_cases [of p abort])
  case (first t)
  have "trace (sched_step runs) s (CloseIntake # (if abort then [CancelAll] else []))
      (closing abort (close_intake s))"
    using trace_Cons [OF step_close close_trace] .
  with first assms show ?thesis by (cases abort) auto
next
  case (again t)
  with assms close_trace [of runs s abort] show ?thesis by (cases abort) auto
qed (use assms in \<open>auto intro: trace_nil\<close>)

lemma close_pool_unopened:
  "p_scheduler p = None \<Longrightarrow> close_events abort p = []"
  "p_scheduler p = None \<Longrightarrow> p_scheduler (close_pool abort p) = None"
  by (simp_all add: close_events_def close_pool_def closing_scheduler_def)

text \<open>
  A step of an opened pool performs its label on the scheduler, and only entering the pool
  gives it one.
\<close>

lemma pool_step_sched:
  assumes "pool_ok p" and "pool_step runs p l p'"
  shows "p_scheduler p = Some s \<Longrightarrow> \<exists>s'. p_scheduler p' = Some s' \<and> trace (sched_step runs) s l s'"
    and "p_scheduler p = None \<Longrightarrow> l = [] \<and>
      (\<forall>s'. p_scheduler p' = Some s' \<longrightarrow> ExecutionScheduler_new (capacity s') = Inr s')"
proof -
  have "(\<forall>s. p_scheduler p = Some s \<longrightarrow> (\<exists>s'. p_scheduler p' = Some s' \<and> trace (sched_step runs) s l s')) \<and>
    (p_scheduler p = None \<longrightarrow> l = [] \<and>
      (\<forall>s'. p_scheduler p' = Some s' \<longrightarrow> ExecutionScheduler_new (capacity s') = Inr s'))"
    using assms(2)
  proof cases
    case (pool_enter current reported)
    then have "p_state p = ExecutionPoolState.CREATED" by (auto simp: aenter_def result_simps)
    with assms(1) have "p_scheduler p = None"
      by (auto simp: pool_ok_def opened_ok_def dest: opened_not_created split: option.splits)
    with pool_enter show ?thesis
      by (auto simp: aenter_def result_simps ExecutionScheduler_new_def split: if_splits)
  next
    case (pool_exit current raised)
    then have "p' = close_pool raised p \<and> l = close_events raised p \<or> p_scheduler p' = p_scheduler p \<and> l = []"
      by (auto simp: aexit_def drain_def abort_pool_def exit_events_def result_simps split: if_splits)
    then show ?thesis using close_pool_sched by (auto simp: close_pool_unopened intro: trace_nil)
  next
    case pool_drain
    then show ?thesis using close_pool_sched
      by (auto simp: drain_def result_simps close_pool_unopened)
  next
    case pool_abort
    then show ?thesis using close_pool_sched
      by (auto simp: abort_pool_def result_simps close_pool_unopened)
  next
    case (pool_joined s)
    then show ?thesis by (auto intro!: trace_single step_shutdown)
  next
    case (pool_finish s)
    then have "workers s = []" "intake_closed s" using assms(1) by (auto simp: pool_ok_def opened_ok_def)
    with pool_finish show ?thesis
      by (auto simp: finish_close_def Let_def intro: trace_nil intro!: trace_single step_discard)
  next
    case (pool_leave i s released r)
    have "p_shutdown_complete p \<Longrightarrow> workers s = [] \<and> intake_closed s"
      using assms(1) pool_leave(4) by (auto simp: pool_ok_def opened_ok_def)
    with pool_leave show ?thesis
      by (auto simp: leave_step_def leave_events_def Let_def intro: trace_nil intro!: trace_single step_discard
          split: option.splits pull.splits)
  next
    case (pool_turn i s n state' s' st')
    then show ?thesis using turn_sched [OF pool_turn(5), of runs] by auto
  qed (auto simp: notify_streams_def run_stream_def map_stream_def drive_stream_def running_scheduler_def
      result_simps intro: trace_nil trace_single split: option.splits)
  then show "p_scheduler p = Some s \<Longrightarrow> \<exists>s'. p_scheduler p' = Some s' \<and> trace (sched_step runs) s l s'"
    "p_scheduler p = None \<Longrightarrow> l = [] \<and>
      (\<forall>s'. p_scheduler p' = Some s' \<longrightarrow> ExecutionScheduler_new (capacity s') = Inr s')"
    by blast+
qed

lemma pool_run_ok: "pool_run runs config es p \<Longrightarrow> pool_ok p"
proof (induction rule: pool_run.induct)
  case pool_run_new
  show ?case by (simp add: pool_ok_defs ExecutionPool_new_def registered_count_def)
qed (rule pool_ok_step)

lemma pool_run_sched:
  assumes "pool_run runs config es p"
  shows "(p_scheduler p = None \<longrightarrow> es = []) \<and>
    (\<forall>s. p_scheduler p = Some s \<longrightarrow> sched_run runs (capacity s) es s)"
  using assms
proof (induction rule: pool_run.induct)
  case pool_run_new
  show ?case by (simp add: ExecutionPool_new_def)
next
  case (pool_run_step es p l p')
  note S = pool_step_sched [OF pool_run_ok [OF pool_run_step(1)] pool_run_step(2)]
  show ?case
  proof (cases "p_scheduler p")
    case None
    then have "es = []" "l = []" using pool_run_step.IH S(2) by auto
    moreover have "sched_run runs (capacity s) [] s" if "p_scheduler p' = Some s" for s
      using S(2) None that by (auto simp: sched_run_def intro: trace_nil)
    ultimately show ?thesis by auto
  next
    case (Some s)
    with S(1) obtain s' where s': "p_scheduler p' = Some s'" "trace (sched_step runs) s l s'" by blast
    with Some pool_run_step.IH have "sched_run runs (capacity s) (es @ l) s'"
      by (auto intro: sched_run_append)
    with s' trace_capacity [OF s'(2)] show ?thesis by simp
  qed
qed

end
