(* ===== verification/Streams.thy ===== *)
theory Streams
  imports Pool
begin

text \<open>
  What the streams of an execution pool get: which completions reach which stream, that a
  \<^verbatim>\<open>map_stream\<close> gets exactly one completion for each of its submissions, how far it runs ahead of
  its consumer, and that a waiting stream is always woken when there is something for it to do.
\<close>

section \<open>Claims\<close>

text \<open>
  Drivers that share a queue claim disjoint parts of it: taking the first entry of one claim
  leaves every other claim's entries as they were.
\<close>

locale exclusive_claims =
  fixes claim :: "'o \<Rightarrow> 'x \<Rightarrow> bool"
  assumes exclusive: "claim a x \<Longrightarrow> claim b x \<Longrightarrow> a = b"
begin

lemma other_empty: "a \<noteq> b \<Longrightarrow> list_all (\<lambda>c. claim a (key c)) xs \<Longrightarrow> filter (\<lambda>c. claim b (key c)) xs = []"
  using exclusive by (induction xs) auto

lemma take_first_other:
  "take_first (\<lambda>c. claim a (key c)) xs = Some (y, ys) \<Longrightarrow> a \<noteq> b \<Longrightarrow>
     filter (\<lambda>c. claim b (key c)) ys = filter (\<lambda>c. claim b (key c)) xs"
proof (induction xs arbitrary: ys)
  case (Cons x xs)
  then show ?case using exclusive by (auto split: if_splits)
qed simp

lemma release_other:
  "a \<noteq> b \<Longrightarrow> filter (\<lambda>c. claim b (key c)) (filter (\<lambda>c. \<not> claim a (key c)) xs) =
     filter (\<lambda>c. claim b (key c)) xs"
  using exclusive by (induction xs) auto

end

interpretation claims: exclusive_claims claims
proof
  fix a b and x :: "'c ctx"
  assume "claims a x" and "claims b x"
  then show "a = b" by (cases a; cases b; cases x) auto
qed

lemma claims_tag [simp]: "claims owner (tag_context owner c)"
  by (cases owner) auto

section \<open>Routing\<close>

definition own_admissions :: "nat \<Rightarrow> 'c ctx event list \<Rightarrow> (int \<times> ExecutionJob \<times> 'c ctx) list" where
  "own_admissions i es = filter (\<lambda>a. claims (Some i) (snd (snd a))) (admissions es)"

definition own_deliveries :: "nat \<Rightarrow> 'c ctx event list \<Rightarrow> 'c ctx Completion list" where
  "own_deliveries i es = filter (\<lambda>c. claims (Some i) (cp_context c)) (deliveries es)"

definition submission_of :: "int \<times> ExecutionJob \<times> 'c ctx \<Rightarrow> 'c ctx ExecutionSubmission" where
  "submission_of a = \<lparr>sub_job = fst (snd a), sub_context = snd (snd a)\<rparr>"

definition completion_of :: "'c ctx Completion \<Rightarrow> 'c ctx ExecutionCompletion" where
  "completion_of c = \<lparr>ec_completed_execution = cp_completed_execution c, ec_context = cp_context c\<rparr>"

fun in_hand :: "'c stream_phase \<Rightarrow> 'c ctx Completion list" where
  "in_hand (Prefetching c) = [c]"
| "in_hand _ = []"

fun ends_normally :: "'c stream_phase \<Rightarrow> bool" where
  "ends_normally (Leaving _ r) = (r = Returned)"
| "ends_normally (Releasing r) = (r = Returned)"
| "ends_normally (Ended r) = (r = Returned)"
| "ends_normally _ = False"

definition claims_ok :: "'c stream \<Rightarrow> bool" where
  "claims_ok st =
     (list_all (\<lambda>c. claims (st_owner st) (ec_context c)) (st_yielded st) \<and>
      list_all (\<lambda>c. claims (st_owner st) (cp_context c)) (in_hand (st_phase st)) \<and>
      list_all (\<lambda>sub. claims (st_owner st) (sub_context sub)) (st_taken st) \<and>
      (\<forall>sub. st_carried st = Some sub \<longrightarrow> claims (st_owner st) (sub_context sub)) \<and>
      (\<forall>sub. st_pull st = Some (Pulled (Some sub)) \<longrightarrow> claims (st_owner st) (sub_context sub)))"

definition ledger_ok :: "'c ctx event list \<Rightarrow> nat \<Rightarrow> 'c stream \<Rightarrow> bool" where
  "ledger_ok es i st =
     (st_owner st = Some i \<longrightarrow>
       map completion_of (own_deliveries i es) =
         st_yielded st @ map completion_of (in_hand (st_phase st)) \<and>
       map submission_of (own_admissions i es) = st_admitted st \<and>
       st_outstanding st = int (length (own_admissions i es)) - int (length (own_deliveries i es)) \<and>
       (ends_normally (st_phase st) \<longrightarrow> st_outstanding st = 0))"

definition route_ok :: "'c ctx event list \<Rightarrow> nat \<Rightarrow> 'c stream \<Rightarrow> bool" where
  "route_ok es i st = ((st_owner st = None \<or> st_owner st = Some i) \<and> claims_ok st \<and> ledger_ok es i st)"

definition route_inv :: "'c ctx event list \<Rightarrow> 'c ExecutionPool \<Rightarrow> bool" where
  "route_inv es p =
     ((\<forall>i<length (p_streams p). route_ok es i (p_streams p ! i)) \<and>
      (\<forall>i\<ge>length (p_streams p). own_admissions i es = [] \<and> own_deliveries i es = []))"

lemma own_append [simp]:
  "own_admissions i (es @ fs) = own_admissions i es @ own_admissions i fs"
  "own_deliveries i (es @ fs) = own_deliveries i es @ own_deliveries i fs"
  "own_admissions i [] = []" "own_deliveries i [] = []"
  by (simp_all add: own_admissions_def own_deliveries_def admissions_def deliveries_def)

text \<open>An event list is foreign to a stream when it neither admits nor delivers for it.\<close>

definition foreign :: "nat \<Rightarrow> 'c ctx event list \<Rightarrow> bool" where
  "foreign i l = (own_admissions i l = [] \<and> own_deliveries i l = [])"

lemma foreign_append: "foreign i l \<Longrightarrow> ledger_ok (es @ l) i st = ledger_ok es i st"
  by (simp add: foreign_def ledger_ok_def)

lemma neutral_foreign: "admissions l = [] \<Longrightarrow> deliveries l = [] \<Longrightarrow> foreign i l"
  by (simp add: foreign_def own_admissions_def own_deliveries_def)

lemma neutral_events:
  "admissions (close_events abort p) = []" "deliveries (close_events abort p) = []"
  "admissions (exit_events abort p) = []" "deliveries (exit_events abort p) = []"
  "admissions (leave_events i p) = []" "deliveries (leave_events i p) = []"
  "admissions [Discard] = []" "deliveries [Discard] = []"
  "admissions [ShutdownJoined b] = []" "deliveries [ShutdownJoined b] = []"
  "worker_event e \<Longrightarrow> admissions [e] = []" "worker_event e \<Longrightarrow> deliveries [e] = []"
  by (auto simp: close_events_def exit_events_def leave_events_def admissions_def deliveries_def
      split: option.splits pull.splits) (cases e; simp)+

lemma own_events [simp]:
  "own_admissions i [Admit job ctx start r k] =
     (if r = ADMITTED \<and> claims (Some i) ctx then [(k, job, ctx)] else [])"
  "own_deliveries i [Admit job ctx start r k] = []"
  "own_admissions i [Deliver f c] = []"
  "own_deliveries i [Deliver f c] = (if claims (Some i) (cp_context c) then [c] else [])"
  "own_admissions i [ReleaseOwned g] = []" "own_deliveries i [ReleaseOwned g] = []"
  by (cases r; simp add: own_admissions_def own_deliveries_def admissions_def deliveries_def)+

lemma turn_foreign:
  assumes "turn state s st l n state' s' st'" and "claims_ok st" and "st_owner st \<noteq> Some j"
  shows "foreign j l"
  using assms(1)
proof cases
  case turn_take
  from turn_take(4) show ?thesis
  proof (cases rule: take_own_cases)
    case (deliver c)
    then have "claims (st_owner st) (cp_context c)" using nowait_Some [OF deliver(1)] by blast
    then have "\<not> claims (Some j) (cp_context c)" using assms(3) claims.exclusive by blast
    with deliver turn_take show ?thesis by (simp add: foreign_def)
  qed (use turn_take in \<open>auto simp: foreign_def\<close>)
next
  case (turn_admit start)
  have "\<not> claims (Some j) (sub_context sub)" if "st_carried st = Some sub" for sub
    using that assms(2,3) claims.exclusive unfolding claims_ok_def by blast
  then show ?thesis using turn_admit by (cases "st_carried st") (auto simp: foreign_def admit_events_def)
qed (auto simp: foreign_def)


lemma turn_claims:
  assumes "turn state s st l n state' s' st'" and "claims_ok st"
  shows "claims_ok st'"
  using assms(1)
proof cases
  case turn_take
  from turn_take(4) show ?thesis
  proof (cases rule: take_own_cases)
    case (deliver c)
    with nowait_Some [OF deliver(1)] assms(2) show ?thesis by (auto simp: claims_ok_def)
  qed (use assms(2) in \<open>auto simp: claims_ok_def\<close>)
next
  case (turn_admit start)
  from turn_admit(5) show ?thesis
    by (cases rule: admit_carried_cases) (use assms(2) in \<open>auto simp: claims_ok_def\<close>)
next
  case (turn_yield c)
  with assms(2) show ?thesis
    by (auto simp: claims_ok_def yield_step_def Let_def start_pull_def split: option.splits if_splits)
qed (use assms(2) in \<open>auto simp: claims_ok_def head_step_def ending_step_def collect_step_def park_step_def
      start_pull_def Let_def split: option.splits pull.splits if_splits\<close>)

lemma turn_ledger:
  assumes "turn state s st l n state' s' st'" and "claims_ok st" and "ledger_ok es i st"
  shows "ledger_ok (es @ l) i st'"
  using assms(1)
proof cases
  case turn_take
  from turn_take(4) show ?thesis
  proof (cases rule: take_own_cases)
    case (deliver c)
    with nowait_Some [OF deliver(1)] assms(3) turn_take show ?thesis by (auto simp: ledger_ok_def)
  qed (use assms(3) turn_take in \<open>auto simp: ledger_ok_def\<close>)
next
  case (turn_admit start)
  from turn_admit(5) show ?thesis
  proof (cases rule: admit_carried_cases)
    case (admitted sub)
    then have "claims (st_owner st) (sub_context sub)" using assms(2) by (simp add: claims_ok_def)
    with admitted assms(3) turn_admit show ?thesis
      by (auto simp: ledger_ok_def admit_events_def submission_of_def)
  qed (use assms(3) turn_admit in \<open>auto simp: ledger_ok_def admit_events_def\<close>)
next
  case (turn_yield c)
  with assms(3) show ?thesis by (auto simp: ledger_ok_def yield_step_def completion_of_def Let_def)
qed (use assms(3) in \<open>auto simp: ledger_ok_def head_step_def ending_step_def collect_step_def park_step_def
      Let_def split: option.splits pull.splits if_splits\<close>)

lemma pull_route:
  assumes "pull_step st st'" and "route_ok es i st"
  shows "route_ok es i st'"
proof -
  note F = pull_stream_frame [OF assms(1)]
  have "claims_ok st'"
    using assms by cases (auto simp: route_ok_def claims_ok_def gate_acquired_def next_submission_def
        source_raises_def Let_def split: list.splits)
  moreover have "ledger_ok es i st' = ledger_ok es i st" unfolding ledger_ok_def F ..
  ultimately show ?thesis using F(2) assms(2) by (simp add: route_ok_def)
qed

lemma wakeup_route: "route_ok es i (st\<lparr>st_wakeup := b\<rparr>) = route_ok es i st"
  by (simp add: route_ok_def claims_ok_def ledger_ok_def)

text \<open>An update of one stream, and steps that leave the streams' own records alone.\<close>

lemma route_update:
  assumes "route_inv es p" and "i < length (p_streams p)" and "p_streams p' = (p_streams p)[i := st']"
    and "route_ok (es @ l) i st'" and "\<And>j. j \<noteq> i \<Longrightarrow> foreign j l"
  shows "route_inv (es @ l) p'"
proof -
  have "route_ok (es @ l) j (p_streams p' ! j)" if "j < length (p_streams p')" for j
  proof (cases "j = i")
    case False
    with assms that show ?thesis
      using foreign_append [OF assms(5)] by (simp add: route_inv_def route_ok_def)
  qed (use assms that in simp)
  moreover have "own_admissions j (es @ l) = [] \<and> own_deliveries j (es @ l) = []"
    if "j \<ge> length (p_streams p')" for j
    using assms(1-3) that assms(5) [of j] by (auto simp: route_inv_def foreign_def)
  ultimately show ?thesis by (simp add: route_inv_def)
qed

definition rewoken :: "'c stream list \<Rightarrow> 'c stream list \<Rightarrow> bool" where
  "rewoken sts sts' = list_all2 (\<lambda>st st'. st' = st \<or> st' = st\<lparr>st_wakeup := True\<rparr>) sts sts'"

lemma rewoken_refl [simp]: "rewoken sts sts"
  by (simp add: rewoken_def list.rel_refl)

lemma rewoken_wake [simp]: "rewoken (p_streams p) (p_streams (wake_streams p))"
  by (simp add: rewoken_def wake_streams_def list_all2_conv_all_nth)

lemma rewoken_close: "rewoken (p_streams p) (p_streams (close_pool abort p))"
proof (cases rule: close_pool_cases [of p abort])
  case (first s)
  have "p_streams (wake_streams (announced t p)) = p_streams (wake_streams p)" for t
    by (simp add: wake_streams_def)
  with first show ?thesis by simp
qed simp_all

text \<open>The steps that neither admit nor deliver and leave the streams' records alone.\<close>

lemma quiet_steps:
  assumes "pool_step runs p l p'"
  obtains (turned) i s n state' s' st' where "i < length (p_streams p)" "p_scheduler p = Some s"
      "suspended (st_phase (p_streams p ! i)) \<longrightarrow> loop_free p"
      "turn (p_state p) s (p_streams p ! i) l n state' s' st'"
      "p' = p\<lparr>p_state := state', p_scheduler := Some s', p_notified := p_notified p \<or> n,
         p_streams := (p_streams p)[i := st']\<rparr>"
    | (pulled) i st' where "i < length (p_streams p)" "loop_free p" "pull_step (p_streams p ! i) st'"
      "l = []" "p' = p\<lparr>p_streams := (p_streams p)[i := st']\<rparr>"
    | (left) i s released r where "i < length (p_streams p)" "p_scheduler p = Some s"
      "st_phase (p_streams p ! i) = Leaving released r" "l = leave_events i p"
      "p' = leave_step i released r s p"
    | (opened) current owner width source where
      "drive_stream current owner width source p = Inr p'" "l = []" "loop_free p"
      "owner = None \<or> owner = Some (length (p_streams p)) \<and> 1 \<le> width"
    | (quiet) "rewoken (p_streams p) (p_streams p')" "admissions l = []" "deliveries l = []"
  using assms
proof cases
  case (pool_exit current raised)
  then have "p_streams p' = p_streams p \<or> p' = close_pool raised p"
    by (auto simp: aexit_def drain_def abort_pool_def result_simps split: if_splits)
  with pool_exit rewoken_close quiet show thesis by (auto simp: neutral_events)
next
  case pool_drain
  then show thesis using quiet rewoken_close by (auto simp: neutral_events drain_def result_simps)
next
  case pool_abort
  then show thesis using quiet rewoken_close by (auto simp: neutral_events abort_pool_def result_simps)
next
  case (pool_enter current reported)
  then show thesis using quiet by (auto simp: aenter_def result_simps)
next
  case (pool_finish s)
  have "rewoken (p_streams p) (p_streams (finish_close s p))"
    by (simp add: finish_close_def Let_def wake_streams_def rewoken_def list_all2_conv_all_nth)
  with pool_finish quiet show thesis by (auto simp: neutral_events)
next
  case pool_notify
  have "rewoken (p_streams p) (p_streams (notify_streams p))" by (simp add: notify_streams_def)
  with pool_notify quiet show thesis by simp
next
  case (pool_worker s e s')
  then show thesis by (intro quiet) (simp_all add: neutral_events)
next
  case (pool_run_stream current source)
  then show thesis using opened by (auto simp: run_stream_def)
next
  case (pool_map_stream current concurrency source)
  from pool_map_stream(3) obtain width where "\<not> width < 1"
    "drive_stream current (Some (length (p_streams p))) width source p = Inr p'"
    by (auto simp: map_stream_def result_simps)
  with pool_map_stream show thesis by (intro opened) auto
next
  case (pool_joined s)
  then show thesis by (intro quiet) (simp_all add: neutral_events)
next
  case (pool_turn i s n state' s' st')
  then show thesis by (intro turned [of i s n state' s' st']) auto
next
  case (pool_pull i st')
  then show thesis by (intro pulled [of i st']) auto
next
  case (pool_leave i s released r)
  then show thesis by (intro left [of i s released r]) auto
next
  case (pool_quiesced s)
  then show thesis by (intro quiet) simp_all
qed

lemma route_frame:
  assumes "route_inv es p" and "rewoken (p_streams p) (p_streams p')"
    and "admissions l = []" "deliveries l = []"
  shows "route_inv (es @ l) p'"
proof -
  have len: "length (p_streams p') = length (p_streams p)"
    using assms(2) by (auto simp: rewoken_def dest: list_all2_lengthD)
  have "route_ok (es @ l) i (p_streams p ! i)" if "i < length (p_streams p)" for i
    using assms(1) that foreign_append [OF neutral_foreign [OF assms(3,4)]]
    by (simp add: route_inv_def route_ok_def)
  then have "route_ok (es @ l) i (p_streams p' ! i)" if "i < length (p_streams p)" for i
    using list_all2_nthD [OF assms(2) [unfolded rewoken_def] that] that by (metis wakeup_route)
  then show ?thesis
    using assms(1) len neutral_foreign [OF assms(3,4)] by (auto simp: route_inv_def foreign_def)
qed

lemma route_open:
  assumes "route_inv es p" and "drive_stream current owner width source p = Inr p'"
    and "owner = None \<or> owner = Some (length (p_streams p))"
  shows "route_inv es p'"
proof -
  have "p_streams p' = p_streams p @ [new_stream owner width source]"
    using assms(2) by (auto simp: drive_stream_def result_simps)
  with assms(1,3) show ?thesis
    by (auto simp: route_inv_def nth_append route_ok_def claims_ok_def ledger_ok_def new_stream_def)
qed

definition left_stream :: "bool \<Rightarrow> stream_end \<Rightarrow> 'c stream \<Rightarrow> 'c stream" where
  "left_stream released r st =
     (let after = (\<lambda>r. if released \<or> st_owner st = None then Ended r else Releasing r)
      in case st_pull st of
           Some (PullFailed e) \<Rightarrow> st\<lparr>st_phase := after (Raised e)\<rparr>
         | _ \<Rightarrow> st\<lparr>st_pull := None, st_registered := False, st_phase := after r\<rparr>)"

lemma leave_streams:
  "p_streams (leave_step i released r s p) = (p_streams p)[i := left_stream released r (p_streams p ! i)]"
  by (auto simp: leave_step_def left_stream_def Let_def split: option.splits pull.splits)

lemma left_stream_frame [simp]:
  "st_owner (left_stream released r st) = st_owner st" "st_yielded (left_stream released r st) = st_yielded st"
  "st_taken (left_stream released r st) = st_taken st" "st_carried (left_stream released r st) = st_carried st"
  "st_admitted (left_stream released r st) = st_admitted st"
  "st_outstanding (left_stream released r st) = st_outstanding st"
  "st_permits (left_stream released r st) = st_permits st" "st_width (left_stream released r st) = st_width st"
  "st_source (left_stream released r st) = st_source st"
  "st_exhausted (left_stream released r st) = st_exhausted st"
  "in_hand (st_phase (left_stream released r st)) = []"
  "st_phase (left_stream released r st) \<noteq> Parked"
  by (simp_all add: left_stream_def Let_def split: option.splits pull.splits)

lemma left_stream_pull:
  "st_pull (left_stream released r st) = None \<or> (\<exists>e. st_pull (left_stream released r st) = Some (PullFailed e))"
  "ends_normally (st_phase (left_stream released r st)) \<Longrightarrow>
     r = Returned \<and> st_pull (left_stream released r st) = None"
  by (auto simp: left_stream_def Let_def split: option.splits pull.splits if_splits)

lemma leave_scheduler:
  assumes "p_scheduler p = Some s"
  shows "\<exists>s'. p_scheduler (leave_step i released r s p) = Some s' \<and> (s' = s \<or> s' = discard_completions s) \<and>
    (p_notified (leave_step i released r s p) \<or>
      s' = s \<and> p_notified (leave_step i released r s p) = p_notified p) \<and>
    p_state (leave_step i released r s p) = p_state p"
  using assms by (auto simp: leave_step_def Let_def split: option.splits pull.splits)


lemma route_step:
  assumes "route_inv es p" and "pool_step runs p l p'"
  shows "route_inv (es @ l) p'"
  using assms(2)
proof (cases rule: quiet_steps)
  case (turned i s n state' s' st')
  have ok: "route_ok es i (p_streams p ! i)" using assms(1) turned(1) by (simp add: route_inv_def)
  then have "route_ok (es @ l) i st'"
    using turn_claims [OF turned(4)] turn_ledger [OF turned(4)] turn_stream_frame(2) [OF turned(4)]
    by (simp add: route_ok_def)
  moreover have "foreign j l" if "j \<noteq> i" for j
    using turn_foreign [OF turned(4)] ok that by (auto simp: route_ok_def)
  ultimately show ?thesis using turned(5) by (intro route_update [OF assms(1) turned(1)]) auto
next
  case (pulled i st')
  have "route_ok es i st'" using pull_route [OF pulled(3)] assms(1) pulled(1) by (simp add: route_inv_def)
  with assms(1) pulled route_update [of es p i p' st' "[]"] show ?thesis by (simp add: foreign_def)
next
  case (left i s released r)
  have "route_ok es i (left_stream released r (p_streams p ! i))"
    using assms(1) left(1,3) left_stream_pull [of released r "p_streams p ! i"]
    by (auto simp: route_inv_def route_ok_def claims_ok_def ledger_ok_def)
  then have "route_ok (es @ l) i (left_stream released r (p_streams p ! i))"
    unfolding route_ok_def left(4) using foreign_append [OF neutral_foreign [OF neutral_events(5,6)]] by blast
  then show ?thesis using left(4,5)
    by (intro route_update [OF assms(1) left(1)]) (auto simp: leave_streams neutral_foreign neutral_events)
next
  case (opened current owner width source)
  then show ?thesis using route_open [OF assms(1) opened(1)] by auto
next
  case quiet
  then show ?thesis by (rule route_frame [OF assms(1)])
qed

lemma pool_run_route: "pool_run runs config es p \<Longrightarrow> route_inv es p"
proof (induction rule: pool_run.induct)
  case pool_run_new
  show ?case by (simp add: route_inv_def ExecutionPool_new_def)
qed (rule route_step)


section \<open>One completion for each submission\<close>

lemma filter_items:
  "filter_mset (\<lambda>x. P (snd x)) (mset (map admission_item xs)) =
     mset (map admission_item (filter (\<lambda>a. P (snd (snd a))) xs))"
  "filter_mset (\<lambda>x. P (snd x)) (mset (map completion_item cs)) =
     mset (map completion_item (filter (\<lambda>c. P (cp_context c)) cs))"
  subgoal by (induction xs) (auto simp: admission_item_def split_beta)
  subgoal by (induction cs) (auto simp: completion_item_def)
  done

lemma own_items:
  assumes "sched_run runs n es s"
  shows "mset (map completion_item (own_deliveries i es)) \<subseteq># mset (map admission_item (own_admissions i es))"
proof -
  from assms obtain s0 where new: "ExecutionScheduler_new n = Inr s0"
    and tr: "trace (sched_step runs) s0 es s" by (auto simp: sched_run_def)
  have "mset (map completion_item (deliveries es)) \<subseteq># mset (map admission_item (admissions es))"
    using run_conservation [OF tr new] mset_subset_eq_add_right subset_mset.trans by blast
  from multiset_filter_mono [OF this, of "\<lambda>x. claims (Some i) (snd x)"] show ?thesis
    unfolding filter_items own_deliveries_def own_admissions_def .
qed

lemma subseteq_size_eq: "M \<subseteq># N \<Longrightarrow> size M = size N \<Longrightarrow> M = N"
  using mset_subset_size [of M N] by (auto simp: subset_mset.less_le)

text \<open>\<open>answers runs subs cs\<close>: the completions are runs of the submissions, one each, in some order.\<close>

definition answers ::
  "(ExecutionJob \<Rightarrow> CompletedExecution \<Rightarrow> bool) \<Rightarrow> 'c ctx ExecutionSubmission list \<Rightarrow>
     'c ctx ExecutionCompletion list \<Rightarrow> bool" where
  "answers runs subs cs =
     (\<exists>order. mset order = mset subs \<and>
       list_all2 (\<lambda>sub c. runs (sub_job sub) (ec_completed_execution c) \<and> ec_context c = sub_context sub)
         order cs)"

lemma own_answers:
  assumes "sched_run runs n es s"
    and "length (own_admissions i es) = length (own_deliveries i es)"
  shows "answers runs (map submission_of (own_admissions i es)) (map completion_of (own_deliveries i es))"
proof -
  let ?A = "own_admissions i es" and ?D = "own_deliveries i es"
  from assms(1) obtain s0 where new: "ExecutionScheduler_new n = Inr s0"
    and tr: "trace (sched_step runs) s0 es s" by (auto simp: sched_run_def)
  note C = run_conservation [OF tr new] and O = run_origin [OF tr new]
  define job_of where "job_of k = fst (the (map_of (admissions es) k))" for k
  have job_of: "job_of k = job" if "(k, job, ctx) \<in> set (admissions es)" for k job ctx
    using C map_of_is_SomeI [OF _ that] by (simp add: job_of_def)
  define sub where "sub x = \<lparr>sub_job = job_of (fst x), sub_context = snd x\<rparr>" for x :: "int \<times> 'a ctx"
  have items: "mset (map completion_item ?D) = mset (map admission_item ?A)"
    using own_items [OF assms(1), of i] assms(2) by (intro subseteq_size_eq) simp_all
  have "submission_of a = sub (admission_item a)" if "a \<in> set ?A" for a
    using that job_of [of "fst a" "fst (snd a)" "snd (snd a)"]
    by (auto simp: own_admissions_def submission_of_def sub_def admission_item_def split_beta)
  then have "map submission_of ?A = map sub (map admission_item ?A)" by simp
  moreover have "mset (map sub (map completion_item ?D)) = mset (map sub (map admission_item ?A))"
    using arg_cong [OF items, of "image_mset sub"] unfolding mset_map .
  ultimately have "mset (map sub (map completion_item ?D)) = mset (map submission_of ?A)" by argo
  moreover have "list_all2 (\<lambda>sub c. runs (sub_job sub) (ec_completed_execution c) \<and> ec_context c = sub_context sub)
      (map sub (map completion_item ?D)) (map completion_of ?D)"
  proof -
    have "runs (job_of (cp_ticket c)) (cp_completed_execution c)" if "c \<in> set ?D" for c
    proof -
      have "c \<in> set (deliveries es)" using that by (simp add: own_deliveries_def)
      then show ?thesis using O job_of by blast
    qed
    then show ?thesis
      by (auto simp: list_all2_conv_all_nth sub_def completion_item_def completion_of_def)
  qed
  ultimately show ?thesis unfolding answers_def by blast
qed


section \<open>The source and the semaphore\<close>

fun pulled_list :: "'c pull option \<Rightarrow> 'c ctx ExecutionSubmission list" where
  "pulled_list (Some (Pulled (Some sub))) = [sub]"
| "pulled_list _ = []"

definition carried_list :: "'a option \<Rightarrow> 'a list" where
  "carried_list x = (case x of None \<Rightarrow> [] | Some a \<Rightarrow> [a])"

fun dropped_out :: "'c stream_phase \<Rightarrow> bool" where
  "dropped_out Abandoned = True"
| "dropped_out (Leaving _ r) = (r \<noteq> Returned)"
| "dropped_out (Releasing r) = (r \<noteq> Returned)"
| "dropped_out (Ended r) = (r \<noteq> Returned)"
| "dropped_out _ = False"

definition gate_ok :: "'c stream \<Rightarrow> bool" where
  "gate_ok st =
     (st_owner st \<noteq> None \<longrightarrow>
       0 \<le> st_permits st \<and>
       st_permits st + int (length (st_taken st)) - int (length (st_yielded st)) +
         (if st_pull st = Some AwaitSource then 1 else 0) \<le> st_width st)"

definition source_ok :: "bool \<Rightarrow> 'c stream \<Rightarrow> bool" where
  "source_ok up st =
     ((st_carried st \<noteq> None \<longrightarrow> st_pull st = None) \<and>
      (st_exhausted st \<longrightarrow> st_pull st = None \<or> (\<exists>e. st_pull st = Some (PullFailed e))) \<and>
      (st_pull st = Some (Pulled None) \<longrightarrow> st_source st = []) \<and>
      (ends_normally (st_phase st) \<longrightarrow> st_exhausted st \<and> st_carried st = None) \<and>
      (up \<and> \<not> dropped_out (st_phase st) \<longrightarrow>
        st_taken st = st_admitted st @ carried_list (st_carried st) @ pulled_list (st_pull st) \<and>
        (st_exhausted st \<longrightarrow> st_source st = [])))"

definition pool_running :: "'c ExecutionPool \<Rightarrow> bool" where
  "pool_running p =
     (p_state p = ExecutionPoolState.RUNNING \<and> (\<exists>s. p_scheduler p = Some s \<and> broken s = None))"

definition source_inv :: "'c ExecutionPool \<Rightarrow> bool" where
  "source_inv p = list_all (\<lambda>st. gate_ok st \<and> source_ok (pool_running p) st) (p_streams p)"

lemma source_ok_weaken: "source_ok r st \<Longrightarrow> (r' \<longrightarrow> r) \<Longrightarrow> source_ok r' st"
  by (auto simp: source_ok_def)

lemma turn_gate:
  assumes "turn state s st l n state' s' st'" and "gate_ok st"
  shows "gate_ok st'"
  using assms(1)
proof cases
  case turn_take
  from turn_take(4) show ?thesis
    by (cases rule: take_own_cases) (use assms(2) in \<open>auto simp: gate_ok_def\<close>)
next
  case (turn_admit start)
  from turn_admit(5) show ?thesis
    by (cases rule: admit_carried_cases) (use assms(2) in \<open>auto simp: gate_ok_def\<close>)
next
  case (turn_yield c)
  with assms(2) show ?thesis
    by (auto simp: gate_ok_def yield_step_def start_pull_def Let_def split: option.splits if_splits)
qed (use assms(2) in \<open>auto simp: gate_ok_def head_step_def ending_step_def collect_step_def park_step_def
      start_pull_def Let_def split: option.splits pull.splits if_splits\<close>)

lemma pull_gate_source:
  assumes "pull_step st st'" and "gate_ok st" "source_ok r st"
  shows "gate_ok st'" "source_ok r st'"
proof -
  have "gate_ok st' \<and> source_ok r st'"
    using assms(1)
  proof cases
    case pull_gate
    then show ?thesis using assms(2,3) by (auto simp: gate_ok_def source_ok_def gate_acquired_def)
  next
    case pull_source
    then show ?thesis
    proof (cases "st_source st")
      case Nil
      then show ?thesis using assms(2,3) pull_source
        by (cases "st_owner st") (auto simp: gate_ok_def source_ok_def next_submission_def)
    next
      case (Cons sub rest)
      then show ?thesis using assms(2,3) pull_source
        by (cases "st_carried st") (auto simp: gate_ok_def source_ok_def next_submission_def carried_list_def Let_def)
    qed
  next
    case (pull_raises e)
    then show ?thesis using assms(2,3) by (auto simp: gate_ok_def source_ok_def source_raises_def)
  qed
  then show "gate_ok st'" "source_ok r st'" by blast+
qed

lemma turn_source:
  assumes "turn state s st l n state' s' st'" and "source_ok (state = ExecutionPoolState.RUNNING \<and> broken s = None) st"
    and "intake_closed s \<and> state = ExecutionPoolState.RUNNING \<longrightarrow> broken s \<noteq> None"
  shows "source_ok (state' = ExecutionPoolState.RUNNING \<and> broken s' = None) st'"
  using assms(1)
proof cases
  case turn_take
  from turn_take(4) show ?thesis
  proof (cases rule: take_own_cases)
    case (deliver c)
    with nowait_Some [OF deliver(1)] have "broken s' = broken s" by (auto simp: release_ticket_def)
    with deliver assms(2) turn_take show ?thesis by (auto simp: source_ok_def)
  qed (use assms(2) turn_take in \<open>auto simp: source_ok_def\<close>)
next
  case (turn_admit start)
  have B: "broken u = None \<Longrightarrow> broken s = None" "r = INTAKE_CLOSED \<Longrightarrow> broken u = None \<Longrightarrow> intake_closed s"
    "r = NO_ROOM \<Longrightarrow> u = s" "r = ADMITTED \<Longrightarrow> broken u = None"
    if "admit start job ctx s = (r, u)" for job ctx r u
    using that by (cases start; auto simp: admit_def ensure_worker_def break_scheduler_def Let_def split: if_splits)+
  from turn_admit(5) show ?thesis
  proof (cases rule: admit_carried_cases)
    case bare
    with assms(2) turn_admit show ?thesis by (auto simp: source_ok_def)
  next
    case (admitted sub)
    with assms(2) turn_admit B(1) [OF admitted(2)] show ?thesis
      by (auto simp: source_ok_def carried_list_def)
  next
    case (closed sub)
    with assms(2,3) turn_admit B(1,2) [OF closed(2)] show ?thesis by (auto simp: source_ok_def)
  next
    case (full sub)
    with assms(2) turn_admit B(3) [OF full(2)] show ?thesis by (auto simp: source_ok_def)
  qed
next
  case (turn_yield c)
  with assms(2) show ?thesis
    by (auto simp: source_ok_def yield_step_def wants_pull_def start_pull_def Let_def split: option.splits if_splits)
next
  case turn_park
  with assms(2) show ?thesis
    by (auto simp: source_ok_def park_step_def wants_pull_def start_pull_def Let_def split: option.splits if_splits)
next
  case turn_collect
  with assms(2) show ?thesis
    by (auto simp: source_ok_def collect_step_def carried_list_def split: option.splits pull.splits)
qed (use assms(2) in \<open>auto simp: source_ok_def head_step_def ending_step_def release_owned_def Let_def
      split: option.splits pull.splits if_splits\<close>)


lemma trace_broken: "trace (sched_step runs) s l t \<Longrightarrow> broken t = None \<Longrightarrow> broken s = None"
  by (induction rule: trace.induct) (auto dest: step_broken)

lemma state_running:
  assumes "pool_ok p" and "pool_step runs p l p'" and "p_scheduler p \<noteq> None"
    and "p_state p' = ExecutionPoolState.RUNNING"
  shows "p_state p = ExecutionPoolState.RUNNING"
proof -
  have close: "p_state (close_pool abort p) = ExecutionPoolState.RUNNING \<Longrightarrow> p_state p = ExecutionPoolState.RUNNING" for abort
    by (cases rule: close_pool_cases [of p abort]) auto
  show ?thesis using assms(2)
  proof cases
    case (pool_enter current reported)
    then have "p_state p = ExecutionPoolState.CREATED" by (auto simp: aenter_def result_simps)
    with assms(1,3) show ?thesis
      by (auto simp: pool_ok_def opened_ok_def dest: opened_not_created split: option.splits)
  next
    case (pool_exit current raised)
    then show ?thesis using assms(4) close
      by (auto simp: aexit_def drain_def abort_pool_def result_simps split: if_splits)
  next
    case (pool_finish s)
    then show ?thesis using assms(4) by (auto simp: finish_close_def closed_state_def Let_def split: if_splits)
  next
    case (pool_turn i s n state' s' st')
    then show ?thesis using assms(4) turn_sched_frame(6) [OF pool_turn(5)] by auto
  next
    case (pool_leave i s released r)
    then show ?thesis using assms(4) leave_scheduler [OF pool_leave(4), of i released r] by auto
  qed (use assms(4) close in \<open>auto simp: drain_def abort_pool_def notify_streams_def run_stream_def
      map_stream_def drive_stream_def result_simps\<close>)
qed

lemma running_step:
  assumes "pool_ok p" and "pool_step runs p l p'" and "p_streams p \<noteq> []" and "pool_running p'"
  shows "pool_running p"
proof -
  obtain s where s: "p_scheduler p = Some s"
    using assms(1,3) by (auto simp: pool_ok_def unopened_ok_def split: option.splits)
  from pool_step_sched(1) [OF assms(1,2) s] assms(4) have "broken s = None"
    by (auto simp: pool_running_def dest: trace_broken)
  with s state_running [OF assms(1,2)] assms(4) show ?thesis by (auto simp: pool_running_def)
qed

lemma source_step:
  assumes "pool_ok p" and "source_inv p" and "pool_step runs p l p'"
  shows "source_inv p'"
proof -
  have keep: "gate_ok st \<and> source_ok (pool_running p') st" if "st \<in> set (p_streams p)" for st
  proof -
    from that have "p_streams p \<noteq> []" by auto
    with running_step [OF assms(1,3)] assms(2) that show ?thesis
      by (auto simp: source_inv_def list_all_iff intro: source_ok_weaken)
  qed
  have replace: ?thesis
    if "p_streams p' = (p_streams p)[i := st']" "gate_ok st'" "source_ok (pool_running p') st'" for i st'
    using keep that unfolding source_inv_def that(1)
    by (intro list_all_update) (auto simp: list_all_iff)
  from assms(3) show ?thesis
  proof (cases rule: quiet_steps)
    case (turned i s n state' s' st')
    have mem: "gate_ok (p_streams p ! i)" "source_ok (pool_running p) (p_streams p ! i)"
      using assms(2) turned(1) by (auto simp: source_inv_def list_all_length)
    have "intake_closed s \<and> p_state p = ExecutionPoolState.RUNNING \<longrightarrow> broken s \<noteq> None"
      using assms(1) turned(2)
      by (cases "(p_close_task p, p_state p, s)" rule: stage_ok.cases)
        (auto simp: pool_ok_def opened_ok_def closed_state_def split: if_splits)
    with turn_source [OF turned(4)] mem turned(2)
    have "source_ok (pool_running p') st'" by (auto simp: pool_running_def turned(5))
    with turn_gate [OF turned(4) mem(1)] turned(5) show ?thesis by (intro replace) auto
  next
    case (pulled i st')
    have "gate_ok (p_streams p ! i)" "source_ok (pool_running p') (p_streams p ! i)"
      using keep pulled(1) by auto
    from pull_gate_source [OF pulled(3) this] pulled(5) show ?thesis by (intro replace) auto
  next
    case (left i s released r)
    let ?st = "p_streams p ! i"
    have ok: "gate_ok ?st" "source_ok (pool_running p') ?st" using keep left(1) by auto
    have "gate_ok (left_stream released r ?st)"
      using ok(1) left_stream_pull(1) [of released r ?st] by (auto simp: gate_ok_def split: if_splits)
    moreover have "source_ok (pool_running p') (left_stream released r ?st)"
      using ok(2) left(3)
      by (auto simp: source_ok_def left_stream_def Let_def split: option.splits pull.splits)
    ultimately show ?thesis using left(5) leave_streams by (intro replace) auto
  next
    case (opened current owner width source)
    then have "p_streams p' = p_streams p @ [new_stream owner width source]"
      by (auto simp: drive_stream_def result_simps)
    with keep opened(4) show ?thesis
      by (auto simp: source_inv_def list_all_iff gate_ok_def source_ok_def new_stream_def carried_list_def)
  next
    case quiet
    have "gate_ok (st\<lparr>st_wakeup := b\<rparr>) = gate_ok st" "source_ok r (st\<lparr>st_wakeup := b\<rparr>) = source_ok r st"
      for r b and st :: "'a stream" by (simp_all add: gate_ok_def source_ok_def)
    with quiet(1) keep show ?thesis
      by (auto simp: source_inv_def rewoken_def list_all_length list_all2_conv_all_nth)
  qed
qed

lemma pool_run_source: "pool_run runs config es p \<Longrightarrow> source_inv p"
proof (induction rule: pool_run.induct)
  case pool_run_new
  show ?case by (simp add: source_inv_def ExecutionPool_new_def)
next
  case (pool_run_step es p l p')
  then show ?case using source_step pool_run_ok by blast
qed


section \<open>Wake-ups\<close>

text \<open>
  What a turn of the driver tests, in the order in which it tests it: the pool still runs (or
  the stream has given its source up), nothing of its own is buffered and the scheduler has
  not broken, it is not at its end, a carried submission found no room, no pull is wanted.
\<close>

definition state_settled :: "ExecutionPoolState \<Rightarrow> 'c pool_scheduler \<Rightarrow> 'c stream \<Rightarrow> bool" where
  "state_settled state s st =
     (state = ExecutionPoolState.RUNNING \<or> broken s \<noteq> None \<or>
      st_exhausted st \<and> st_carried st = None \<and> st_pull st = None)"

definition nothing_ready :: "'c pool_scheduler \<Rightarrow> 'c stream \<Rightarrow> bool" where
  "nothing_ready s st =
     (broken s = None \<and> list_all (\<lambda>c. \<not> claims (st_owner st) (cp_context c)) (ready s))"

definition not_finished :: "'c pool_scheduler \<Rightarrow> 'c stream \<Rightarrow> bool" where
  "not_finished s st =
     (\<not> (st_exhausted st \<and> st_carried st = None \<and>
         (case st_owner st of Some _ \<Rightarrow> st_outstanding st = 0 | None \<Rightarrow> \<not> has_residents s)))"

definition no_room :: "'c pool_scheduler \<Rightarrow> 'c stream \<Rightarrow> bool" where
  "no_room s st = (st_carried st \<noteq> None \<longrightarrow> \<not> intake_closed s \<and> residents s \<ge> capacity s)"

definition idle :: "ExecutionPoolState \<Rightarrow> 'c pool_scheduler \<Rightarrow> 'c stream \<Rightarrow> bool" where
  "idle state s st =
     (state_settled state s st \<and> nothing_ready s st \<and> not_finished s st \<and> no_room s st \<and> \<not> wants_pull s st)"

lemmas idle_defs = idle_def state_settled_def nothing_ready_def not_finished_def no_room_def wants_pull_def

lemma tests_phase [simp]:
  "state_settled state s (st\<lparr>st_phase := ph\<rparr>) = state_settled state s st"
  "nothing_ready s (st\<lparr>st_phase := ph\<rparr>) = nothing_ready s st"
  "not_finished s (st\<lparr>st_phase := ph\<rparr>) = not_finished s st"
  "no_room s (st\<lparr>st_phase := ph\<rparr>) = no_room s st"
  "wants_pull s (st\<lparr>st_phase := ph\<rparr>) = wants_pull s st"
  by (simp_all add: idle_defs split: option.splits)

fun tested :: "'c stream_phase \<Rightarrow> ExecutionPoolState \<Rightarrow> 'c pool_scheduler \<Rightarrow> 'c stream \<Rightarrow> bool" where
  "tested TakingOwn state s st = state_settled state s st"
| "tested Ending state s st = (state_settled state s st \<and> nothing_ready s st)"
| "tested AdmittingCarried state s st =
     (state_settled state s st \<and> nothing_ready s st \<and> not_finished s st)"
| "tested Collecting state s st =
     (state_settled state s st \<and> nothing_ready s st \<and> not_finished s st \<and> no_room s st)"
| "tested Pulling state s st =
     (state_settled state s st \<and> nothing_ready s st \<and> not_finished s st \<and> no_room s st \<and>
      \<not> pull_done (st_pull st))"
| "tested Parked state s st = (pull_done (st_pull st) \<or> idle state s st)"
| "tested _ state s st = True"

definition wake_ok :: "ExecutionPoolState \<Rightarrow> 'c pool_scheduler \<Rightarrow> bool \<Rightarrow> 'c stream \<Rightarrow> bool" where
  "wake_ok state s notified st =
     (\<not> st_wakeup st \<and> \<not> notified \<longrightarrow> tested (st_phase st) state s st)"

definition wake_inv :: "'c ExecutionPool \<Rightarrow> bool" where
  "wake_inv p =
     (\<forall>s. p_scheduler p = Some s \<longrightarrow> list_all (wake_ok (p_state p) s (p_notified p)) (p_streams p))"

text \<open>What the tests read of the scheduler.\<close>

definition same_view :: "'c pool_scheduler \<Rightarrow> 'c pool_scheduler \<Rightarrow> bool" where
  "same_view s t =
     (ready t = ready s \<and> residents t = residents s \<and> intake_closed t = intake_closed s \<and>
      broken t = broken s \<and> capacity t = capacity s)"

lemma tested_same_view:
  assumes "same_view s t" and "tested ph state s st"
    and "state' = state \<or> state = ExecutionPoolState.RUNNING \<and> broken t \<noteq> None"
  shows "tested ph state' t st"
  using assms
  by (cases "(ph, state, s, st)" rule: tested.cases)
    (auto simp: same_view_def idle_defs has_residents_def can_admit_def split: option.splits)

lemma nowait_none:
  "take_completion_nowait (Some f) s = (Inr None, s) \<Longrightarrow>
     broken s = None \<and> list_all (\<lambda>c. \<not> f (cp_context c)) (ready s)"
proof -
  have "take_first P xs = None \<Longrightarrow> list_all (\<lambda>c. \<not> P c) xs" for P and xs :: "'a Completion list"
    by (induction xs) (auto split: if_splits)
  then show "take_completion_nowait (Some f) s = (Inr None, s) \<Longrightarrow>
     broken s = None \<and> list_all (\<lambda>c. \<not> f (cp_context c)) (ready s)"
    by (auto simp: take_completion_nowait_def take_ready_owned_def raise_if_broken_def bind_ensure
        split: if_splits option.splits)
qed

lemma turn_view:
  assumes "turn state s st l n state' s' st'" and "\<not> n"
  shows "s' = s" and "state' = state \<or> state = ExecutionPoolState.RUNNING \<and> broken s' \<noteq> None"
proof -
  show "s' = s" using assms(1)
  proof cases
    case turn_take
    from turn_take(4) show ?thesis by (cases rule: take_own_cases) (use turn_take assms(2) in auto)
  next
    case (turn_admit start)
    from turn_admit(5) show ?thesis
      by (cases rule: admit_carried_cases)
        (use turn_admit assms(2) in \<open>auto simp: admits_def can_admit_def admit_def split: if_splits\<close>)
  qed (use assms(2) in auto)
  show "state' = state \<or> state = ExecutionPoolState.RUNNING \<and> broken s' \<noteq> None"
    using turn_sched_frame(6) [OF assms(1)] by blast
qed

lemma turn_wake_ok:
  assumes "turn state s st l n state' s' st'" and "wake_ok state s notified st"
  shows "wake_ok state' s' (notified \<or> n) st'"
  using assms(1)
proof cases
  case turn_head
  then show ?thesis
    by (auto simp: wake_ok_def head_step_def state_settled_def Let_def split: option.splits pull.splits)
next
  case turn_take
  from turn_take(4) show ?thesis
  proof (cases rule: take_own_cases)
    case none
    with nowait_none [OF none(1)] turn_take assms(2) show ?thesis
      by (auto simp: wake_ok_def nothing_ready_def)
  qed (use turn_take in \<open>auto simp: wake_ok_def\<close>)
next
  case turn_ending
  with assms(2) show ?thesis
    by (auto simp: wake_ok_def ending_step_def) (auto simp: not_finished_def)
next
  case (turn_admit start)
  from turn_admit(5) show ?thesis
  proof (cases rule: admit_carried_cases)
    case bare
    with turn_admit assms(2) show ?thesis by (auto simp: wake_ok_def) (auto simp: no_room_def)
  next
    case (full sub)
    then have "s' = s" "\<not> intake_closed s" "residents s \<ge> capacity s"
      by (auto simp: admit_def Let_def split: if_splits)
    with full turn_admit assms(2) show ?thesis by (auto simp: wake_ok_def) (auto simp: no_room_def)
  qed (auto simp: wake_ok_def)
next
  case turn_collect
  with assms(2) show ?thesis
    by (auto simp: wake_ok_def collect_step_def split: option.splits pull.splits)
next
  case turn_park
  show ?thesis
  proof (cases "wants_pull s st")
    case True
    then have "idle state s (st\<lparr>st_pull := Some (start_pull st), st_phase := Parked\<rparr>)"
      if "state_settled state s st" "nothing_ready s st"
      using that by (auto simp: idle_defs)
    with True turn_park assms(2) show ?thesis by (auto simp: wake_ok_def park_step_def)
  next
    case False
    with turn_park assms(2) show ?thesis by (auto simp: wake_ok_def park_step_def idle_def)
  qed
qed (use assms(2) in \<open>auto simp: wake_ok_def yield_step_def Let_def\<close>)


lemma wake_ok_keep:
  assumes "wake_ok state s notified st"
    and "notified' \<or> notified' = notified \<and> same_view s t \<and>
      (state' = state \<or> state = ExecutionPoolState.RUNNING \<and> broken t \<noteq> None)"
  shows "wake_ok state' t notified' st"
  using assms tested_same_view [of s t "st_phase st" state st state'] by (auto simp: wake_ok_def)

lemma woken_ok:
  assumes "stream_reg_ok st"
  shows "wake_ok state s notified (if st_registered st then st\<lparr>st_wakeup := True\<rparr> else st)"
proof (cases "st_registered st")
  case False
  with assms show ?thesis by (cases "st_phase st") (auto simp: stream_reg_ok_def wake_ok_def)
qed (simp add: wake_ok_def)

lemma wake_streams_ok:
  "pool_ok p \<Longrightarrow> list_all (wake_ok state s notified) (p_streams (wake_streams p))"
proof -
  assume "pool_ok p"
  then have "stream_reg_ok (p_streams p ! i)" if "i < length (p_streams p)" for i
    using that by (simp add: pool_ok_def list_all_length)
  then have "wake_ok state s notified (p_streams (wake_streams p) ! i)" if "i < length (p_streams p)" for i
    using that woken_ok [of "p_streams p ! i" state s notified] unfolding wake_streams_def by simp
  then show "list_all (wake_ok state s notified) (p_streams (wake_streams p))"
    by (simp add: list_all_length)
qed

lemma wake_keep:
  assumes "wake_inv p" and "p_scheduler p = Some s" and "p_scheduler p' = Some t"
    and "p_streams p' = p_streams p"
    and "p_notified p' \<or> p_notified p' = p_notified p \<and> same_view s t \<and> p_state p' = p_state p"
  shows "wake_inv p'"
  using assms by (auto simp: wake_inv_def list_all_iff intro: wake_ok_keep)

lemma wake_close:
  assumes "pool_ok p" and "wake_inv p"
  shows "wake_inv (close_pool abort p)"
proof (cases rule: close_pool_cases [of p abort])
  case (first s)
  have "p_streams (wake_streams (announced t p)) = p_streams (wake_streams p)" for t
    by (simp add: wake_streams_def)
  with first wake_streams_ok [OF assms(1)] show ?thesis unfolding wake_inv_def first(5) by simp
next
  case (again s)
  have "same_view s (closing abort s)" by (simp add: same_view_def closing_def cancel_all_def)
  with again assms(2) show ?thesis by (intro wake_keep [OF assms(2) again(2)]) auto
qed (use assms in \<open>auto simp: wake_inv_def\<close>)

lemma pull_wake_ok:
  assumes "pull_step st st'" and "wake_ok state s notified st" and "suspended (st_phase st)"
  shows "wake_ok state s notified st'"
proof -
  note F = pull_stream_frame [OF assms(1)]
  have some: "st_pull st \<noteq> None" "st_pull st' \<noteq> None" "\<not> pull_done (st_pull st)"
    using assms(1)
    by (cases, auto simp: gate_acquired_def next_submission_def source_raises_def Let_def split: list.splits)+
  show ?thesis
  proof (cases "st_phase st = Parked")
    case True
    with assms(2) some F show ?thesis by (auto simp: wake_ok_def idle_defs split: option.splits)
  next
    case False
    with assms(3) F show ?thesis by (cases "st_phase st") (auto simp: wake_ok_def)
  qed
qed

lemma wake_step:
  assumes "pool_ok p" and "wake_inv p" and "pool_step runs p l p'"
  shows "wake_inv p'"
  using assms(3)
proof cases
  case (pool_enter current reported)
  then have "p_state p = ExecutionPoolState.CREATED" by (auto simp: aenter_def result_simps)
  with assms(1) have "p_streams p = []"
    by (auto simp: pool_ok_def opened_ok_def unopened_ok_def dest: opened_not_created split: option.splits)
  with pool_enter show ?thesis by (auto simp: aenter_def result_simps wake_inv_def)
next
  case (pool_exit current raised)
  then have "p' = p \<or> p' = close_pool raised p \<or>
      p_scheduler p' = p_scheduler p \<and> p_streams p' = p_streams p \<and> p_state p = ExecutionPoolState.CREATED"
    by (auto simp: aexit_def drain_def abort_pool_def result_simps split: if_splits)
  moreover have "p_state p = ExecutionPoolState.CREATED \<Longrightarrow> p_scheduler p = None"
    using assms(1) by (auto simp: pool_ok_def opened_ok_def dest: opened_not_created split: option.splits)
  ultimately show ?thesis using assms(1,2) wake_close by (auto simp: wake_inv_def)
next
  case pool_drain
  then show ?thesis using assms(1,2) wake_close by (auto simp: drain_def result_simps)
next
  case pool_abort
  then show ?thesis using assms(1,2) wake_close by (auto simp: abort_pool_def result_simps)
next
  case (pool_quiesced s)
  then show ?thesis using assms(2) by (simp add: wake_inv_def)
next
  case (pool_joined s)
  then show ?thesis by (intro wake_keep [OF assms(2) pool_joined(4)]) auto
next
  case (pool_finish s)
  have "p_streams p' = p_streams (wake_streams p)"
    using pool_finish(2) by (simp add: finish_close_def wake_streams_def Let_def)
  then show ?thesis using wake_streams_ok [OF assms(1)] by (simp add: wake_inv_def)
next
  case pool_notify
  then show ?thesis using wake_streams_ok [OF assms(1)] by (simp add: wake_inv_def notify_streams_def)
next
  case (pool_worker s e s')
  have "finishes e \<or> same_view s s'"
    using worker_frame(1,6) [OF pool_worker(5,4)] by (auto simp: same_view_def)
  with pool_worker show ?thesis by (intro wake_keep [OF assms(2) pool_worker(3)]) auto
next
  case (pool_turn i s n state' s' st')
  have ok: "list_all (wake_ok (p_state p) s (p_notified p)) (p_streams p)"
    using assms(2) pool_turn by (simp add: wake_inv_def)
  have same: "n \<or> same_view s s' \<and> (state' = p_state p \<or> p_state p = ExecutionPoolState.RUNNING \<and> broken s' \<noteq> None)"
    using turn_view [OF pool_turn(5)] by (auto simp: same_view_def)
  have others: "list_all (wake_ok state' s' (p_notified p \<or> n)) (p_streams p)"
    using ok same by (auto simp: list_all_iff intro: wake_ok_keep)
  have "wake_ok state' s' (p_notified p \<or> n) st'"
    using turn_wake_ok [OF pool_turn(5)] ok pool_turn(2) by (simp add: list_all_length)
  with others pool_turn show ?thesis by (simp add: wake_inv_def list_all_update)
next
  case (pool_pull i st')
  then have "suspended (st_phase (p_streams p ! i))" by (simp add: loop_free_def list_all_length)
  with pool_pull pull_wake_ok [OF pool_pull(5)] assms(2) show ?thesis
    by (auto simp: wake_inv_def list_all_length nth_list_update)
next
  case (pool_leave i s released r)
  obtain t where t: "p_scheduler p' = Some t" "p_notified p' \<or> t = s \<and> p_notified p' = p_notified p"
    "p_state p' = p_state p"
    using leave_scheduler [OF pool_leave(4), of i released r] pool_leave(2) by blast
  have "wake_ok (p_state p') t (p_notified p') (left_stream released r (p_streams p ! i))"
    by (simp add: wake_ok_def left_stream_def Let_def split: option.splits pull.splits)
  moreover have "list_all (wake_ok (p_state p') t (p_notified p')) (p_streams p)"
    using assms(2) pool_leave(4) t by (auto simp: wake_inv_def list_all_iff same_view_def intro: wake_ok_keep)
  ultimately show ?thesis using pool_leave t leave_streams [of i released r s p]
    by (simp add: wake_inv_def list_all_update)
next
  case (pool_run_stream current source)
  then show ?thesis using assms(2)
    by (auto simp: run_stream_def drive_stream_def result_simps wake_inv_def wake_ok_def new_stream_def)
next
  case (pool_map_stream current concurrency source)
  then show ?thesis using assms(2)
    by (auto simp: map_stream_def drive_stream_def result_simps wake_inv_def wake_ok_def new_stream_def)
qed

lemma pool_run_wake: "pool_run runs config es p \<Longrightarrow> wake_inv p"
proof (induction rule: pool_run.induct)
  case pool_run_new
  show ?case by (simp add: wake_inv_def ExecutionPool_new_def)
next
  case (pool_run_step es p l p')
  then show ?case using wake_step pool_run_ok by blast
qed


text \<open>A whole turn of the driver, with nothing interleaved.\<close>

definition whole_turn ::
  "py_exn option \<Rightarrow> ExecutionPoolState \<Rightarrow> 'c pool_scheduler \<Rightarrow> 'c stream \<Rightarrow>
     ExecutionPoolState \<times> 'c pool_scheduler \<times> 'c stream" where
  "whole_turn start state s st =
     (let (state, s, st) = take_own_step state s (head_step state st);
          (s, st) = admit_carried_step start s (ending_step s st)
      in (state, s, park_step s (collect_step state st)))"

lemma ending_step_test:
  "ending_step s st =
     (if not_finished s st then st\<lparr>st_phase := AdmittingCarried\<rparr> else st\<lparr>st_phase := Leaving False Returned\<rparr>)"
  by (simp add: ending_step_def not_finished_def)

lemma idle_whole_turn:
  assumes "idle state s st" and "\<not> pull_done (st_pull st)" and "st_phase st = Parked" "\<not> st_wakeup st"
    and "st_exhausted st \<and> st_carried st = None \<longrightarrow> st_pull st = None"
  shows "whole_turn start state s st = (state, s, st)"
proof -
  let ?st = "st\<lparr>st_phase := TakingOwn\<rparr>"
  have wake: "st\<lparr>st_wakeup := False\<rparr> = st" "st\<lparr>st_phase := Parked\<rparr> = st"
    using assms(3,4) by (cases st; simp)+
  have head: "head_step state st = ?st"
  proof (cases "state = ExecutionPoolState.RUNNING")
    case True
    then show ?thesis unfolding head_step_def Let_def wake(1) by simp
  next
    case False
    then have gone: "st_exhausted st" "st_carried st = None" "st_pull st = None"
      using assms(1) by (auto simp: idle_def state_settled_def nothing_ready_def)
    then have "st\<lparr>st_exhausted := True, st_carried := None, st_pull := None, st_phase := TakingOwn\<rparr> = ?st"
      by (cases st) simp
    with False gone(3) show ?thesis unfolding head_step_def Let_def wake(1) by simp
  qed
  have first: "take_first (\<lambda>c. claims (st_owner st) (cp_context c)) xs = None"
    if "list_all (\<lambda>c. \<not> claims (st_owner st) (cp_context c)) xs" for xs
    using that by (induction xs) auto
  have take: "take_own_step state s ?st = (state, s, st\<lparr>st_phase := Ending\<rparr>)"
    using assms(1) first [of "ready s"]
    by (auto simp: idle_def nothing_ready_def take_own_step_def take_completion_nowait_def
        take_ready_owned_def raise_if_broken_def)
  have ending: "ending_step s (st\<lparr>st_phase := Ending\<rparr>) = st\<lparr>st_phase := AdmittingCarried\<rparr>"
    using assms(1) by (simp add: idle_def ending_step_test)
  have "admit start (sub_job sub) (sub_context sub) s = (NO_ROOM, s)" if "st_carried st = Some sub" for sub
    using assms(1) that by (auto simp: idle_def no_room_def admit_def)
  then have admit: "admit_carried_step start s (st\<lparr>st_phase := AdmittingCarried\<rparr>) = (s, st\<lparr>st_phase := Collecting\<rparr>)"
    by (simp add: admit_carried_step_def split: option.splits)
  have collect: "collect_step state (st\<lparr>st_phase := Collecting\<rparr>) = st\<lparr>st_phase := Pulling\<rparr>"
    using assms(2) by (auto simp: collect_step_def split: option.splits pull.splits)
  have park: "park_step s (st\<lparr>st_phase := Pulling\<rparr>) = st"
    using assms(1) by (simp add: idle_def park_step_def wake)
  show ?thesis by (simp add: whole_turn_def head take ending admit collect park)
qed

section \<open>A sample run of a pool\<close>

text \<open>
  The next step of a stream that holds the loop, as a function; it is the step of the
  relation when no worker thread fails to start.
\<close>

definition advance :: "nat \<Rightarrow> 'c ExecutionPool \<Rightarrow> 'c ExecutionPool" where
  "advance i p =
     (case p_scheduler p of
        None \<Rightarrow> p
      | Some s \<Rightarrow>
          (let st = p_streams p ! i;
               put = (\<lambda>state s n st. p\<lparr>p_state := state, p_scheduler := Some s,
                 p_notified := p_notified p \<or> n, p_streams := (p_streams p)[i := st]\<rparr>)
           in case st_phase st of
                Head \<Rightarrow> put (p_state p) s False (head_step (p_state p) st)
              | TakingOwn \<Rightarrow>
                  (case take_own_step (p_state p) s st of
                     (state', s', st') \<Rightarrow> put state' s' (taken_events st st' \<noteq> []) st')
              | Prefetching c \<Rightarrow> put (p_state p) s False (yield_step s c st)
              | Ending \<Rightarrow> put (p_state p) s False (ending_step s st)
              | AdmittingCarried \<Rightarrow>
                  (case admit_carried_step None s st of (s', st') \<Rightarrow> put (p_state p) s' (admits s st) st')
              | Collecting \<Rightarrow> put (p_state p) s False (collect_step (p_state p) st)
              | Pulling \<Rightarrow> put (p_state p) s False (park_step s st)
              | Leaving released r \<Rightarrow> leave_step i released r s p
              | Releasing r \<Rightarrow>
                  (case st_owner st of
                     None \<Rightarrow> p
                   | Some owner \<Rightarrow> put (p_state p) (release_owned (owns owner) s) True (st\<lparr>st_phase := Ended r\<rparr>))
              | _ \<Rightarrow> p))"

definition reachable ::
  "(ExecutionJob \<Rightarrow> CompletedExecution \<Rightarrow> bool) \<Rightarrow> PoolCapacity \<Rightarrow> 'c ExecutionPool \<Rightarrow> bool" where
  "reachable runs config p = (\<exists>es. pool_run runs config es p)"

lemma reachable_step: "reachable runs config p \<Longrightarrow> pool_step runs p l p' \<Longrightarrow> reachable runs config p'"
  unfolding reachable_def by (blast intro: pool_run_step)

lemma reachable_turn:
  "reachable runs config p \<Longrightarrow> p_scheduler p = Some s \<Longrightarrow> i < length (p_streams p) \<Longrightarrow>
     \<not> suspended (st_phase (p_streams p ! i)) \<Longrightarrow>
     turn (p_state p) s (p_streams p ! i) l n state' s' st' \<Longrightarrow>
     reachable runs config (p\<lparr>p_state := state', p_scheduler := Some s', p_notified := p_notified p \<or> n,
       p_streams := (p_streams p)[i := st']\<rparr>)"
  by (rule reachable_step [OF _ pool_turn]) auto

lemma reachable_advance:
  assumes "reachable runs config p" and "i < length (p_streams p)"
  shows "reachable runs config (advance i p)"
proof (cases "p_scheduler p")
  case None
  with assms(1) show ?thesis by (simp add: advance_def)
next
  case (Some s)
  note T = reachable_turn [OF assms(1) Some assms(2)]
  show ?thesis
  proof (cases "st_phase (p_streams p ! i)")
    case Head
    with T [OF _ turn_head] Some show ?thesis by (simp add: advance_def Let_def)
  next
    case TakingOwn
    obtain a b c where t: "take_own_step (p_state p) s (p_streams p ! i) = (a, b, c)" by (metis prod_cases3)
    with TakingOwn T [OF _ turn_take [OF TakingOwn t]] Some show ?thesis by (simp add: advance_def Let_def)
  next
    case (Prefetching c)
    with T [OF _ turn_yield] Some show ?thesis by (simp add: advance_def Let_def)
  next
    case Ending
    with T [OF _ turn_ending] Some show ?thesis by (simp add: advance_def Let_def)
  next
    case AdmittingCarried
    obtain a b where t: "admit_carried_step None s (p_streams p ! i) = (a, b)" by fastforce
    with AdmittingCarried T [OF _ turn_admit [OF AdmittingCarried t]] Some show ?thesis
      by (simp add: advance_def Let_def)
  next
    case Collecting
    with T [OF _ turn_collect] Some show ?thesis by (simp add: advance_def Let_def)
  next
    case Pulling
    with T [OF _ turn_park] Some show ?thesis by (simp add: advance_def Let_def)
  next
    case (Leaving released r)
    with reachable_step [OF assms(1) pool_leave [OF assms(2) Some]] Some show ?thesis
      by (simp add: advance_def Let_def)
  next
    case (Releasing r)
    show ?thesis
    proof (cases "st_owner (p_streams p ! i)")
      case owner: None
      with assms(1) Some Releasing show ?thesis by (simp add: advance_def Let_def)
    next
      case owner: (Some j)
      with Releasing T [OF _ turn_release [OF Releasing owner]] Some show ?thesis
        by (simp add: advance_def Let_def)
    qed
  qed (use assms(1) Some in \<open>simp_all add: advance_def Let_def\<close>)
qed


text \<open>
  A pool of capacity one and a \<^verbatim>\<open>map_stream\<close> over one submission, up to the wait for its completion.
\<close>

definition sample_submission :: "unit ExecutionSubmission" where
  "sample_submission = \<lparr>sub_job = sample_job, sub_context = ()\<rparr>"

definition sample_tagged :: "unit ctx ExecutionSubmission" where
  "sample_tagged = \<lparr>sub_job = sample_job, sub_context = OwnedContext 0 ()\<rparr>"

definition pool_admission :: "unit ctx Admitted" where
  "pool_admission = \<lparr>ad_ticket = 0, ad_job = sample_job, ad_context = OwnedContext 0 ()\<rparr>"

definition pool_completion :: "unit ctx Completion" where
  "pool_completion = \<lparr>cp_ticket = 0, cp_completed_execution = sample_completed, cp_context = OwnedContext 0 ()\<rparr>"

definition pool_sched :: "unit ctx Admitted list \<Rightarrow> unit ctx Completion list \<Rightarrow> int list \<Rightarrow> unit ctx worker list \<Rightarrow>
    unit pool_scheduler" where
  "pool_sched pend rdy toks ws = \<lparr>capacity = 1, pending = pend, ready = rdy, tokens = toks, cancelled = {},
     workers = ws, next_ticket = int (length ws), residents = int (length pend + length rdy +
       length (concat (map admission_of ws))),
     running = int (length (concat (map admission_of ws))), intake_closed = False, expired = False, broken = None\<rparr>"

definition sample_pool :: "unit pool_scheduler \<Rightarrow> bool \<Rightarrow> unit stream \<Rightarrow> unit ExecutionPool" where
  "sample_pool s n st = \<lparr>p_config = FixedPoolCapacity 1,
     p_effective_capacity = Some \<lparr>epc_source = CapacitySource.FIXED, epc_cpu_count = 4, epc_max_active_jobs = 1\<rparr>,
     p_state = ExecutionPoolState.RUNNING, p_closed = False, p_scheduler = Some s, p_owning_loop = Some 0,
     p_close_task = None, p_active_streams = (if st_registered st then 1 else 0), p_streams = [st],
     p_shutdown_complete = False, p_notified = n\<rparr>"

definition waiting_stream :: "unit stream" where
  "waiting_stream = \<lparr>st_owner = Some 0, st_width = 1, st_permits = 0, st_source = [], st_taken = [sample_tagged],
     st_exhausted = False, st_carried = None, st_pull = None, st_wakeup = False, st_registered = True,
     st_outstanding = 1, st_admitted = [sample_tagged], st_yielded = [], st_phase = Parked\<rparr>"

lemmas sample_pool_defs = sample_submission_def sample_tagged_def pool_admission_def pool_completion_def
  pool_sched_def sample_pool_def waiting_stream_def

lemmas advance_defs = advance_def head_step_def take_own_step_def yield_step_def ending_step_def
  admit_carried_step_def collect_step_def park_step_def leave_step_def wants_pull_def start_pull_def
  take_completion_nowait_def take_ready_owned_def raise_if_broken_def can_admit_def has_residents_def
  admits_def admit_def ensure_worker_def release_ticket_def release_owned_def

lemma reachable_advances:
  "reachable runs config p \<Longrightarrow> 0 < length (p_streams p) \<Longrightarrow> reachable runs config ((advance 0 ^^ k) p)"
proof (induction k)
  case (Suc k)
  have len: "length (p_streams (advance i q)) = length (p_streams q)" for i and q :: "'a ExecutionPool"
    by (auto simp: advance_def leave_step_def Let_def split: option.splits stream_phase.splits prod.splits pull.splits)
  then have "length (p_streams ((advance 0 ^^ k) p)) = length (p_streams p)" by (induction k) simp_all
  with Suc show ?case by (simp add: reachable_advance)
qed simp

lemma reachable_pull:
  "reachable runs config (sample_pool s n st) \<Longrightarrow> suspended (st_phase st) \<Longrightarrow> pull_step st st' \<Longrightarrow>
     reachable runs config (sample_pool s n st')"
  using reachable_step [OF _ pool_pull [of 0 "sample_pool s n st" st' runs]] pull_stream_frame(1) [of st st']
  by (simp add: sample_pool_def loop_free_def)

lemma reachable_wake:
  "reachable runs config (sample_pool s n st) \<Longrightarrow> st_phase st = Parked \<Longrightarrow> wakes st \<Longrightarrow>
     reachable runs config (sample_pool s n (st\<lparr>st_phase := Head\<rparr>))"
  using reachable_step [OF _ pool_turn [of 0 "sample_pool s n st" s, OF _ _ _ turn_wake]]
  by (simp add: sample_pool_def loop_free_def)


lemma sample_opened: "reachable runs (FixedPoolCapacity 1) (sample_pool (pool_sched [] [] [] []) False
    (new_stream (Some 0) 1 [sample_submission]))"
proof -
  define p :: "unit ExecutionPool" where "p = ExecutionPool_new (FixedPoolCapacity 1)"
  define q where "q = (sample_pool (pool_sched [] [] [] []) False (new_stream (Some 0) 1 []))
    \<lparr>p_streams := [], p_active_streams := 0\<rparr>"
  have "reachable runs (FixedPoolCapacity 1) p"
    unfolding reachable_def p_def using pool_run_new [of "FixedPoolCapacity 1" runs] by auto
  moreover have "pool_step runs p [] q"
    by (rule pool_enter [of _ 0 "Some 4"])
      (simp_all add: p_def q_def ExecutionPool_new_def loop_free_def aenter_def resolve_pool_capacity_def
        usable_cpu_count_def EffectivePoolCapacity_new_def ExecutionScheduler_new_def sample_pool_defs Let_def)
  moreover have "pool_step runs q [] (sample_pool (pool_sched [] [] [] []) False
      (new_stream (Some 0) 1 [sample_submission]))"
    by (rule pool_map_stream [of _ 0 None "[sample_submission]"])
      (simp_all add: q_def loop_free_def map_stream_def require_owning_loop_def effective_capacity_def
        running_scheduler_def drive_stream_def new_stream_def sample_pool_defs)
  ultimately show ?thesis by (blast intro: reachable_step)
qed

lemma sample_pulled: "reachable runs (FixedPoolCapacity 1) (sample_pool (pool_sched [] [] [] []) False
    ((new_stream (Some 0) 1 [])\<lparr>st_permits := 0, st_taken := [sample_tagged],
       st_pull := Some (Pulled (Some sample_tagged))\<rparr>))"
proof -
  let ?P = "sample_pool (pool_sched [] [] [] []) False"
  let ?st = "\<lambda>pull permits. (new_stream (Some 0) 1 [sample_submission])
    \<lparr>st_permits := permits, st_pull := Some pull, st_phase := Parked\<rparr>"
  have "(advance 0 ^^ 6) (?P (new_stream (Some 0) 1 [sample_submission])) = ?P (?st AwaitGate 1)"
    by (simp add: eval_nat_numeral advance_defs sample_pool_defs new_stream_def)
  with reachable_advances [OF sample_opened, of runs 6]
  have r1: "reachable runs (FixedPoolCapacity 1) (?P (?st AwaitGate 1))" by (simp add: sample_pool_def)
  have "pull_step (?st AwaitGate 1) (?st AwaitSource 0)"
    using pull_gate [of "?st AwaitGate 1"] by (simp add: gate_acquired_def new_stream_def)
  from reachable_pull [OF r1 _ this]
  have r2: "reachable runs (FixedPoolCapacity 1) (?P (?st AwaitSource 0))" by simp
  have "pull_step (?st AwaitSource 0) ((new_stream (Some 0) 1 [])\<lparr>st_permits := 0,
      st_taken := [sample_tagged], st_pull := Some (Pulled (Some sample_tagged)), st_phase := Parked\<rparr>)"
    using pull_source [of "?st AwaitSource 0"]
    by (simp add: next_submission_def new_stream_def sample_submission_def sample_tagged_def Let_def)
  from reachable_pull [OF r2 _ this]
  have "reachable runs (FixedPoolCapacity 1) (?P ((new_stream (Some 0) 1 [])\<lparr>st_permits := 0,
      st_taken := [sample_tagged], st_pull := Some (Pulled (Some sample_tagged)), st_phase := Parked\<rparr>))"
    by simp
  from reachable_wake [OF this] show ?thesis by (simp add: wakes_def new_stream_def)
qed

lemma sample_waiting: "reachable runs (FixedPoolCapacity 1)
    (sample_pool (pool_sched [pool_admission] [] [0] [Waiting]) True waiting_stream)"
proof -
  let ?st = "(new_stream (Some 0) 1 [])\<lparr>st_permits := 0, st_taken := [sample_tagged],
    st_pull := Some (Pulled (Some sample_tagged))\<rparr>"
  have 1: "(advance 0 ^^ 5) (sample_pool (pool_sched [] [] [] []) False ?st) =
      sample_pool (pool_sched [] [] [] []) False (?st\<lparr>st_pull := None, st_carried := Some sample_tagged\<rparr>)"
    by (simp add: eval_nat_numeral advance_defs sample_pool_defs new_stream_def)
  have 2: "(advance 0 ^^ 4) (sample_pool (pool_sched [] [] [] []) False (?st\<lparr>st_pull := None, st_carried := Some sample_tagged\<rparr>)) =
      sample_pool (pool_sched [pool_admission] [] [0] [Waiting]) True (waiting_stream\<lparr>st_phase := Head\<rparr>)"
    by (simp add: eval_nat_numeral advance_defs sample_pool_defs new_stream_def Let_def)
  have 3: "(advance 0 ^^ 6) (sample_pool (pool_sched [pool_admission] [] [0] [Waiting]) True (waiting_stream\<lparr>st_phase := Head\<rparr>)) =
      sample_pool (pool_sched [pool_admission] [] [0] [Waiting]) True waiting_stream"
    by (simp add: eval_nat_numeral advance_defs sample_pool_defs Let_def)
  have "reachable runs (FixedPoolCapacity 1) (sample_pool (pool_sched [] [] [] []) False
      (?st\<lparr>st_pull := None, st_carried := Some sample_tagged\<rparr>))"
    using reachable_advances [OF sample_pulled, of runs 5] 1 by (simp add: sample_pool_def)
  from reachable_advances [OF this, of 4] 2
  have "reachable runs (FixedPoolCapacity 1)
      (sample_pool (pool_sched [pool_admission] [] [0] [Waiting]) True (waiting_stream\<lparr>st_phase := Head\<rparr>))"
    by (simp add: sample_pool_def)
  from reachable_advances [OF this, of 6] 3 show ?thesis by (simp add: sample_pool_def)
qed


text \<open>The worker runs the job; the stream is notified, wakes and yields.\<close>

lemma sample_worked:
  assumes "reachable (\<lambda>_ _. True) config (sample_pool (pool_sched [pool_admission] [] [0] [Waiting]) n st)"
  shows "reachable (\<lambda>_ _. True) config (sample_pool (pool_sched [] [pool_completion] [0] [Waiting]) True st)"
proof -
  let ?R = "\<lambda>_ _. True" and ?S = "pool_sched [pool_admission] [] [0] [Waiting]"
  have "take_admitted ?S = (Some pool_admission, ?S\<lparr>running := 1, pending := []\<rparr>)"
    by (simp add: take_admitted_def pool_sched_def)
  from step_take [OF _ _ _ this, of 0 ?R]
  have 1: "sched_step ?R ?S (WorkerTake 0) (pool_sched [] [] [0] [Running pool_admission])"
    by (simp add: pool_sched_def take_admitted_wait_def)
  have "sched_step ?R (pool_sched [] [] [0] [Running pool_admission]) (WorkerFinish 0 (Inr sample_completed))
      (run_one pool_admission (Inr sample_completed) ((pool_sched [] [] [0] [Running pool_admission])
        \<lparr>workers := (workers (pool_sched [] [] [0] [Running pool_admission]))[0 := Waiting]\<rparr>))"
    by (rule step_finish) (simp_all add: pool_sched_def)
  then have 2: "sched_step ?R (pool_sched [] [] [0] [Running pool_admission]) (WorkerFinish 0 (Inr sample_completed))
      (pool_sched [] [pool_completion] [0] [Waiting])"
    by (simp add: run_one_def finish_def pool_sched_def pool_completion_def pool_admission_def)
  have "reachable ?R config (sample_pool (pool_sched [] [] [0] [Running pool_admission]) n st)"
    using reachable_step [OF assms pool_worker [OF _ _ 1]] by (simp add: sample_pool_def)
  from reachable_step [OF this pool_worker [OF _ _ 2]] show ?thesis by (simp add: sample_pool_def)
qed

definition done_stream :: "unit stream" where
  "done_stream = waiting_stream\<lparr>st_permits := 1, st_outstanding := 0, st_exhausted := True,
     st_yielded := [completion_of pool_completion], st_registered := False, st_phase := Ended Returned\<rparr>"

lemma sample_yielded: "reachable (\<lambda>_ _. True) (FixedPoolCapacity 1)
    (sample_pool (pool_sched [] [] [] [Waiting]) True
      (waiting_stream\<lparr>st_permits := 1, st_outstanding := 0, st_yielded := [completion_of pool_completion],
         st_pull := Some AwaitGate, st_phase := Yielded\<rparr>))"
proof -
  let ?S = "pool_sched [] [pool_completion] [0] [Waiting]"
  note worked = sample_worked [OF sample_waiting]
  have "pool_step (\<lambda>_ _. True) (sample_pool ?S True waiting_stream) []
      (sample_pool ?S False (waiting_stream\<lparr>st_wakeup := True\<rparr>))"
    using pool_notify [of "sample_pool ?S True waiting_stream"]
    by (simp add: sample_pool_def loop_free_def waiting_stream_def notify_streams_def wake_streams_def)
  from reachable_wake [OF reachable_step [OF worked this]]
  have "reachable (\<lambda>_ _. True) (FixedPoolCapacity 1)
      (sample_pool ?S False (waiting_stream\<lparr>st_wakeup := True, st_phase := Head\<rparr>))"
    by (simp add: wakes_def waiting_stream_def)
  from reachable_advances [OF this, of 3]
  show ?thesis
    by (simp add: eval_nat_numeral advance_defs sample_pool_defs completion_of_def Let_def)
qed

lemma sample_done: "reachable (\<lambda>_ _. True) (FixedPoolCapacity 1)
    (sample_pool (pool_sched [] [] [] [Waiting]) True done_stream)"
proof -
  let ?P = "sample_pool (pool_sched [] [] [] [Waiting]) True"
  let ?st = "waiting_stream\<lparr>st_permits := 1, st_outstanding := 0,
    st_yielded := [completion_of pool_completion], st_pull := Some AwaitGate, st_phase := Yielded\<rparr>"
  have "pull_step ?st (?st\<lparr>st_permits := 0, st_pull := Some AwaitSource\<rparr>)"
    using pull_gate [of ?st] by (simp add: gate_acquired_def)
  from reachable_pull [OF sample_yielded _ this]
  have r: "reachable (\<lambda>_ _. True) (FixedPoolCapacity 1) (?P (?st\<lparr>st_permits := 0, st_pull := Some AwaitSource\<rparr>))"
    by simp
  have "pull_step (?st\<lparr>st_permits := 0, st_pull := Some AwaitSource\<rparr>) (?st\<lparr>st_pull := Some (Pulled None)\<rparr>)"
    using pull_source [of "?st\<lparr>st_permits := 0, st_pull := Some AwaitSource\<rparr>"]
    by (simp add: next_submission_def waiting_stream_def)
  from reachable_pull [OF r _ this]
  have "reachable (\<lambda>_ _. True) (FixedPoolCapacity 1) (?P (?st\<lparr>st_pull := Some (Pulled None)\<rparr>))" by simp
  moreover have "pool_step (\<lambda>_ _. True) (?P (?st\<lparr>st_pull := Some (Pulled None)\<rparr>)) []
      (?P (?st\<lparr>st_pull := Some (Pulled None), st_phase := Head\<rparr>))"
    using pool_turn [of 0 "?P (?st\<lparr>st_pull := Some (Pulled None)\<rparr>)" "pool_sched [] [] [] [Waiting]",
        OF _ _ _ turn_resume]
    by (simp add: sample_pool_def loop_free_def)
  ultimately have "reachable (\<lambda>_ _. True) (FixedPoolCapacity 1)
      (?P (?st\<lparr>st_pull := Some (Pulled None), st_phase := Head\<rparr>))" by (rule reachable_step)
  from reachable_advances [OF this, of 10] show ?thesis
    by (simp add: eval_nat_numeral advance_defs sample_pool_defs done_stream_def Let_def)
qed

text \<open>The consumer is cancelled while its job is running.\<close>

definition gone_stream :: "unit stream" where
  "gone_stream = waiting_stream\<lparr>st_registered := False, st_phase := Ended CallerCancelled\<rparr>"

lemma sample_gone: "reachable (\<lambda>_ _. True) (FixedPoolCapacity 1)
    (sample_pool (pool_sched [] [pool_completion] [0] [Waiting]) True gone_stream)"
proof -
  let ?P = "sample_pool (pool_sched [pool_admission] [] [0] [Waiting]) True"
  have "pool_step (\<lambda>_ _. True) (?P waiting_stream) []
      (?P (waiting_stream\<lparr>st_phase := Leaving False CallerCancelled\<rparr>))"
    using pool_turn [of 0 "?P waiting_stream" "pool_sched [pool_admission] [] [0] [Waiting]",
        OF _ _ _ turn_cancel]
    by (simp add: sample_pool_def loop_free_def waiting_stream_def)
  from reachable_advances [OF reachable_step [OF sample_waiting this], of 2]
  have "reachable (\<lambda>_ _. True) (FixedPoolCapacity 1) (?P gone_stream)"
    by (simp add: eval_nat_numeral advance_defs sample_pool_defs gone_stream_def Let_def)
  then show ?thesis by (rule sample_worked)
qed


section \<open>Properties\<close>

lemma reachableE: "reachable runs config p \<Longrightarrow> (\<And>es. pool_run runs config es p \<Longrightarrow> thesis) \<Longrightarrow> thesis"
  unfolding reachable_def by blast

text \<open>
  C20: a \<^verbatim>\<open>map_stream\<close> that ends normally has yielded exactly one completion for each submission it
  had admitted: the yielded completions are, in some order, one run of each of those
  submissions under its own context, whatever other streams share the pool and however the
  workers, the other coroutines and the wake-ups interleave. If the pool still runs and has
  not broken, these are all the submissions its source had.
\<close>

theorem map_stream_exactly_once:
  assumes "pool_run runs config es p" and "i < length (p_streams p)"
    and "st_owner (p_streams p ! i) = Some i" and "st_phase (p_streams p ! i) = Ended Returned"
  shows "answers runs (st_admitted (p_streams p ! i)) (st_yielded (p_streams p ! i)) \<and>
    (pool_running p \<longrightarrow>
      st_admitted (p_streams p ! i) = st_taken (p_streams p ! i) \<and> st_source (p_streams p ! i) = [])"
proof -
  let ?st = "p_streams p ! i"
  have ledger: "ledger_ok es i ?st"
    using pool_run_route [OF assms(1)] assms(2) by (simp add: route_inv_def route_ok_def)
  obtain s where s: "p_scheduler p = Some s" "sched_run runs (capacity s) es s"
    using pool_run_ok [OF assms(1)] pool_run_sched [OF assms(1)] assms(2)
    by (cases "p_scheduler p") (auto simp: pool_ok_def unopened_ok_def)
  have "answers runs (st_admitted ?st) (st_yielded ?st)"
    using own_answers [OF s(2), of i] ledger assms(3,4) by (simp add: ledger_ok_def)
  moreover have "st_admitted ?st = st_taken ?st \<and> st_source ?st = []" if "pool_running p"
    using pool_run_source [OF assms(1)] assms(2,4) that
    by (auto simp: source_inv_def list_all_length source_ok_def carried_list_def)
  ultimately show ?thesis by blast
qed

theorem map_stream_exactly_once_witness:
  "answers (\<lambda>_ _. True) [sample_tagged] [completion_of pool_completion]"
proof -
  obtain es where "pool_run (\<lambda>_ _. True) (FixedPoolCapacity 1) es
      (sample_pool (pool_sched [] [] [] [Waiting]) True done_stream)"
    using sample_done by (rule reachableE)
  from map_stream_exactly_once [OF this, of 0] show ?thesis
    by (simp add: sample_pool_def done_stream_def waiting_stream_def)
qed

text \<open>
  Completions are routed: everything a stream yields, and everything it holds to yield
  next, is claimed by that stream. A \<^verbatim>\<open>map_stream\<close> gets only completions of its own submissions,
  and a plain stream never gets one of a \<^verbatim>\<open>map_stream\<close>.
\<close>

theorem streams_get_their_own:
  assumes "pool_run runs config es p" and "i < length (p_streams p)"
  shows "(st_owner (p_streams p ! i) = None \<or> st_owner (p_streams p ! i) = Some i) \<and>
    list_all (\<lambda>c. claims (st_owner (p_streams p ! i)) (ec_context c)) (st_yielded (p_streams p ! i)) \<and>
    list_all (\<lambda>c. claims (st_owner (p_streams p ! i)) (cp_context c)) (in_hand (st_phase (p_streams p ! i)))"
  using pool_run_route [OF assms(1)] assms(2) by (simp add: route_inv_def route_ok_def claims_ok_def)

theorem streams_get_their_own_witness: "claims (Some 0) (ec_context (completion_of pool_completion))"
proof -
  obtain es where "pool_run (\<lambda>_ _. True) (FixedPoolCapacity 1) es
      (sample_pool (pool_sched [] [] [] [Waiting]) True done_stream)"
    using sample_done by (rule reachableE)
  from streams_get_their_own [OF this, of 0] show ?thesis
    by (simp add: sample_pool_def done_stream_def waiting_stream_def)
qed

text \<open>
  A \<^verbatim>\<open>map_stream\<close> runs ahead of its consumer by at most its width: the submissions it has
  pulled and not yet answered are never more than the width, the jobs resident in the pool
  never more than the capacity the pool resolved.
\<close>

theorem map_stream_width:
  assumes "pool_run runs config es p" and "i < length (p_streams p)"
    and "st_owner (p_streams p ! i) = Some i" and "p_scheduler p = Some s"
  shows "int (length (st_taken (p_streams p ! i))) \<le>
      int (length (st_yielded (p_streams p ! i))) + st_width (p_streams p ! i) \<and>
    residents s \<le> capacity s \<and>
    (\<exists>c. p_effective_capacity p = Some c \<and> epc_max_active_jobs c = capacity s)"
proof -
  have "gate_ok (p_streams p ! i)"
    using pool_run_source [OF assms(1)] assms(2) by (simp add: source_inv_def list_all_length)
  moreover have "sched_inv s" using pool_run_sched [OF assms(1)] assms(4) sched_run_inv by blast
  moreover have "opened_ok s p" using pool_run_ok [OF assms(1)] assms(4) by (simp add: pool_ok_def)
  ultimately show ?thesis using assms(3) by (auto simp: gate_ok_def inv_defs opened_ok_def split: if_splits)
qed

theorem map_stream_width_witness: "int (length [sample_tagged]) \<le> int (length ([] :: nat list)) + 1"
proof -
  obtain es where "pool_run (\<lambda>_ _. True) (FixedPoolCapacity 1) es
      (sample_pool (pool_sched [pool_admission] [] [0] [Waiting]) True waiting_stream)"
    using sample_waiting by (rule reachableE)
  from map_stream_width [OF this, of 0] show ?thesis by (simp add: sample_pool_def waiting_stream_def)
qed




subsection \<open>The lifecycle and what outlives a stream\<close>

text \<open>
  C22: the lifecycle of a pool: a pool not yet entered has no scheduler; a running pool accepts
  work unless its scheduler broke; a closed pool has joined its worker threads, has nothing
  queued or running, reports itself broken exactly when its scheduler broke, and, once no
  stream is active, retains no completion.
\<close>

theorem pool_lifecycle:
  assumes "pool_run runs config es p"
  shows "(p_state p = ExecutionPoolState.CREATED \<longrightarrow> p_scheduler p = None \<and> \<not> p_closed p) \<and>
    (\<forall>s. p_scheduler p = Some s \<longrightarrow>
      (p_state p = ExecutionPoolState.RUNNING \<longrightarrow> p_close_task p = None \<and> (intake_closed s \<longrightarrow> broken s \<noteq> None)) \<and>
      (p_closed p \<longrightarrow> workers s = [] \<and> pending s = [] \<and> running s = 0 \<and> intake_closed s \<and>
        p_state p = (if broken s \<noteq> None then ExecutionPoolState.BROKEN else ExecutionPoolState.CLOSED) \<and>
        (p_active_streams p = 0 \<longrightarrow> ready s = [] \<and> residents s = 0)))"
proof -
  note ok = pool_run_ok [OF assms]
  have "p_scheduler p = None \<and> \<not> p_closed p" if "p_state p = ExecutionPoolState.CREATED"
    using ok that by (auto simp: pool_ok_def opened_ok_def unopened_ok_def dest: opened_not_created
        split: option.splits if_splits)
  moreover have "p_close_task p = None \<and> (intake_closed s \<longrightarrow> broken s \<noteq> None)"
    if "p_scheduler p = Some s" "p_state p = ExecutionPoolState.RUNNING" for s
    using ok that by (cases "(p_close_task p, p_state p, s)" rule: stage_ok.cases)
      (auto simp: pool_ok_def opened_ok_def closed_state_def split: if_splits)
  moreover have "workers s = [] \<and> pending s = [] \<and> running s = 0 \<and> intake_closed s \<and>
      p_state p = (if broken s \<noteq> None then ExecutionPoolState.BROKEN else ExecutionPoolState.CLOSED) \<and>
      (p_active_streams p = 0 \<longrightarrow> ready s = [] \<and> residents s = 0)"
    if s: "p_scheduler p = Some s" and "p_closed p" for s
  proof -
    have "sched_inv s" using pool_run_sched [OF assms] s sched_run_inv by blast
    moreover have "workers s = []" "intake_closed s" "p_state p = closed_state (is_broken s)"
      "p_active_streams p = 0 \<longrightarrow> ready s = [] \<and> residents s = 0"
      using ok that by (auto simp: pool_ok_def opened_ok_def)
    ultimately show ?thesis
      by (auto simp: inv_defs running_admissions_def live_workers_def closed_state_def is_broken_def)
  qed
  ultimately show ?thesis by blast
qed

theorem pool_lifecycle_witness:
  "\<not> intake_closed (pool_sched [] [] [] [Waiting]) \<and>
     p_close_task (sample_pool (pool_sched [] [] [] [Waiting]) True done_stream) = None"
proof -
  obtain es where "pool_run (\<lambda>_ _. True) (FixedPoolCapacity 1) es
      (sample_pool (pool_sched [] [] [] [Waiting]) True done_stream)"
    using sample_done by (rule reachableE)
  from pool_lifecycle [OF this] show ?thesis by (simp add: sample_pool_def pool_sched_def)
qed

fun drops :: "'c Completion \<Rightarrow> 'c event \<Rightarrow> bool" where
  "drops c Discard = True"
| "drops c (ShutdownJoined preserve) = (\<not> preserve)"
| "drops c (Deliver None d) = True"
| "drops c (Deliver (Some f) d) = f (cp_context c)"
| "drops c (ReleaseOwned f) = f (cp_context c)"
| "drops c _ = False"

lemma step_keeps:
  assumes "sched_step runs s e t" and "\<not> drops c e" and "c \<in> set (ready s)"
  shows "c \<in> set (ready t)"
  using assms(1)
proof cases
  case (step_admit start job ctx r)
  then show ?thesis using assms(3)
    by (cases start) (auto simp: admit_def ensure_worker_def break_scheduler_def Let_def split: if_splits)
next
  case (step_finish i a outcome)
  then show ?thesis using assms(3)
    by (cases outcome) (auto simp: run_one_def finish_def break_scheduler_def Let_def)
next
  case (step_deliver owned_by d)
  from nowait_Some [OF step_deliver(2)] obtain rest where r: "mset (ready s) = add_mset d (mset rest)"
    "t = release_ticket (cp_ticket d) (s\<lparr>ready := rest\<rparr>)" "\<forall>f. owned_by = Some f \<longrightarrow> f (cp_context d)"
    by blast
  have "c \<noteq> d" using assms(2) step_deliver(1) r(3) by (cases owned_by) auto
  moreover have "set (ready s) = insert d (set rest)"
    using r(1) by (metis set_mset_add_mset_insert set_mset_mset)
  ultimately show ?thesis using assms(3) r(2) by (auto simp: release_ticket_def)
qed (use assms(2,3) in \<open>auto simp: close_intake_def cancel_all_def expire_def take_admitted_def release_owned_def
    shutdown_joined_def discard_completions_def Let_def split: list.splits if_splits\<close>)

lemma trace_keeps:
  "trace (sched_step runs) s l t \<Longrightarrow> list_all (\<lambda>e. \<not> drops c e) l \<Longrightarrow> c \<in> set (ready s) \<Longrightarrow> c \<in> set (ready t)"
  by (induction rule: trace.induct) (auto intro: step_keeps)

lemma turn_drops:
  assumes "turn state s st l n state' s' st'" and "claims (Some j) (cp_context c)" and "st_owner st \<noteq> Some j"
  shows "list_all (\<lambda>e. \<not> drops c e) l"
proof -
  have other: "\<not> claims (st_owner st) (cp_context c)" using assms(2,3) claims.exclusive by blast
  show ?thesis using assms(1)
  proof cases
    case turn_take
    with other show ?thesis by (simp split: stream_phase.splits)
  next
    case (turn_admit start)
    then show ?thesis by (simp add: admit_events_def split: option.splits)
  next
    case (turn_close owner)
    with other show ?thesis by simp
  next
    case (turn_release r owner)
    with other show ?thesis by simp
  qed auto
qed

lemma ended_stream_stays:
  assumes "pool_step runs p l p'" and "j < length (p_streams p)" and "st_phase (p_streams p ! j) = Ended r"
  shows "j < length (p_streams p') \<and> st_phase (p_streams p' ! j) = Ended r \<and>
    st_owner (p_streams p' ! j) = st_owner (p_streams p ! j) \<and>
    st_registered (p_streams p' ! j) = st_registered (p_streams p ! j)"
  using assms(1)
proof (cases rule: quiet_steps)
  case (turned i s n state' s' st')
  then have "i \<noteq> j" using assms(3) by (auto elim: turn.cases)
  with turned assms(2,3) show ?thesis by simp
next
  case (pulled i st')
  with assms(2,3) pull_stream_frame [OF pulled(3)] show ?thesis by (cases "i = j") auto
next
  case (left i s released q)
  then have "i \<noteq> j" using assms(3) by auto
  with left assms(2,3) show ?thesis by (simp add: leave_streams)
next
  case (opened current owner width source)
  then have "p_streams p' = p_streams p @ [new_stream owner width source]"
    by (auto simp: drive_stream_def result_simps)
  with assms(2,3) show ?thesis by (simp add: nth_append)
next
  case quiet
  then have "length (p_streams p') = length (p_streams p)"
    "p_streams p' ! j = p_streams p ! j \<or> p_streams p' ! j = (p_streams p ! j)\<lparr>st_wakeup := True\<rparr>"
    using assms(2) by (auto simp: rewoken_def list_all2_conv_all_nth)
  with assms(2,3) show ?thesis by auto
qed

text \<open>
  C23: a \<^verbatim>\<open>map_stream\<close> that ends while one of its jobs is still running leaves that job's completion
  behind for good: once it is buffered, no step of the pool, short of discarding everything
  after the pool was closed, ever takes it, and it keeps counting as a resident.
\<close>

theorem departed_stream_holds_capacity:
  assumes "pool_run runs config es p" and "p_scheduler p = Some s" and "j < length (p_streams p)"
    and "st_owner (p_streams p ! j) = Some j" and "st_phase (p_streams p ! j) = Ended r"
    and "c \<in> set (ready s)" and "owns j (cp_context c)"
    and "pool_step runs p l p'" and "Discard \<notin> set l"
  shows "\<exists>s'. p_scheduler p' = Some s' \<and> c \<in> set (ready s') \<and> 0 < residents s' \<and>
    st_phase (p_streams p' ! j) = Ended r \<and> st_owner (p_streams p' ! j) = Some j"
proof -
  have owners: "st_owner (p_streams p ! i) \<noteq> Some j" if "i < length (p_streams p)" "i \<noteq> j" for i
    using pool_run_route [OF assms(1)] that by (auto simp: route_inv_def route_ok_def)
  have neutral: "list_all (\<lambda>e. \<not> drops c e) l"
    if "\<forall>e\<in>set l. e = CloseIntake \<or> e = CancelAll \<or> e = ShutdownJoined True \<or> worker_event e \<or> e = Discard"
  proof -
    have "worker_event e \<Longrightarrow> \<not> drops c e" for e by (cases e) auto
    with that assms(9) show ?thesis by (fastforce simp: list_all_iff)
  qed
  have "list_all (\<lambda>e. \<not> drops c e) l"
    using assms(8)
  proof cases
    case (pool_turn i s n state' s' st')
    then have "i \<noteq> j" using assms(5) by (auto elim: turn.cases)
    with owners pool_turn(2) turn_drops [OF pool_turn(5)] assms(7) show ?thesis by simp
  qed (use neutral in \<open>auto simp: close_events_def exit_events_def leave_events_def
      split: if_splits option.splits pull.splits\<close>)
  moreover obtain s' where s': "p_scheduler p' = Some s'" "trace (sched_step runs) s l s'"
    using pool_step_sched(1) [OF pool_run_ok [OF assms(1)] assms(8,2)] by blast
  ultimately have kept: "c \<in> set (ready s')" using trace_keeps assms(6) by blast
  have "sched_inv s'"
    using pool_run_sched [OF pool_run_step [OF assms(1,8)]] s'(1) sched_run_inv by blast
  then have "int (length (pending s')) + running s' + int (length (ready s')) \<le> residents s'" "0 \<le> running s'"
    by (auto simp: inv_defs)
  then have "0 < residents s'" using length_pos_if_in_set [OF kept] by linarith
  with s'(1) kept ended_stream_stays [OF assms(8,3,5)] assms(4) show ?thesis by auto
qed

theorem departed_stream_holds_capacity_witness:
  "\<not> can_admit (pool_sched [] [pool_completion] [0] [Waiting]) \<and>
   (\<exists>s'. p_scheduler (notify_streams (sample_pool (pool_sched [] [pool_completion] [0] [Waiting]) True gone_stream)) =
       Some s' \<and> pool_completion \<in> set (ready s') \<and> 0 < residents s')"
proof -
  let ?p = "sample_pool (pool_sched [] [pool_completion] [0] [Waiting]) True gone_stream"
  obtain es where run: "pool_run (\<lambda>_ _. True) (FixedPoolCapacity 1) es ?p"
    using sample_gone by (rule reachableE)
  have "pool_step (\<lambda>_ _. True) ?p [] (notify_streams ?p)"
    by (rule pool_notify) (simp_all add: sample_pool_def loop_free_def gone_stream_def)
  from departed_stream_holds_capacity [OF run _ _ _ _ _ _ this, of _ 0 CallerCancelled pool_completion]
  show ?thesis
    by (auto simp: sample_pool_def gone_stream_def waiting_stream_def pool_sched_def pool_completion_def can_admit_def)
qed

text \<open>
  A stream whose source raised ends without being unregistered: the \<^verbatim>\<open>finally\<close> block of the
  driver raises the source's exception again before it counts the stream out. Such a stream
  stays counted as active in every later state, so no step discards the completions of the
  closed pool.
\<close>

theorem failed_source_stays_active:
  assumes "pool_run runs config es p" and "i < length (p_streams p)"
    and "st_phase (p_streams p ! i) = Ended r" and "st_registered (p_streams p ! i)"
    and "pool_step runs p l p'"
  shows "st_phase (p_streams p' ! i) = Ended r \<and> st_registered (p_streams p' ! i) \<and>
    0 < p_active_streams p' \<and> Discard \<notin> set l"
proof -
  have stays: "i < length (p_streams p')" "st_phase (p_streams p' ! i) = Ended r"
    "st_registered (p_streams p' ! i)"
    using ended_stream_stays [OF assms(5,2,3)] assms(4) by auto
  have pos: "0 < registered_count sts" if "i < length sts" "st_registered (sts ! i)" for sts :: "'a stream list"
    using that by (auto simp: registered_count_def filter_empty_conv)
  have "0 < p_active_streams p'"
    using pool_run_ok [OF pool_run_step [OF assms(1,5)]] pos [OF stays(1,3)] by (simp add: pool_ok_def)
  moreover have "0 < p_active_streams p"
    using pool_run_ok [OF assms(1)] pos [OF assms(2,4)] by (simp add: pool_ok_def)
  moreover have "Discard \<notin> set l"
    using assms(5)
  proof cases
    case (pool_leave j s released q)
    then have "p_streams p ! j \<noteq> p_streams p ! i" using assms(3) by auto
    then have "j \<noteq> i" by auto
    have "st_registered (p_streams p ! j)"
      using pool_run_ok [OF assms(1)] pool_leave(3,5) by (auto simp: pool_ok_def list_all_length stream_reg_ok_def)
    then have "registered_count ((p_streams p)[j := (p_streams p ! j)\<lparr>st_registered := False\<rparr>]) = p_active_streams p - 1"
      using pool_run_ok [OF assms(1)] pool_leave(3) by (simp add: registered_update pool_ok_def)
    moreover have "0 < registered_count ((p_streams p)[j := (p_streams p ! j)\<lparr>st_registered := False\<rparr>])"
      using assms(2,4) \<open>j \<noteq> i\<close> by (intro pos) simp_all
    ultimately show ?thesis using pool_leave by (auto simp: leave_events_def split: option.splits pull.splits)
  next
    case (pool_worker s e s')
    then show ?thesis by (cases e) auto
  next
    case (pool_turn j s n state' s' st')
    from pool_turn(5) show ?thesis
      by cases (auto simp: admit_events_def split: option.splits stream_phase.splits)
  qed (use \<open>0 < p_active_streams p\<close> in \<open>auto simp: close_events_def exit_events_def split: if_splits\<close>)
  ultimately show ?thesis using stays by blast
qed

definition failed_stream :: "unit stream" where
  "failed_stream = (new_stream (Some 0) 1 [sample_submission])\<lparr>st_permits := 0,
     st_pull := Some (PullFailed (OSError None)), st_phase := Ended (Raised (OSError None))\<rparr>"

lemma sample_failed: "reachable runs (FixedPoolCapacity 1) (sample_pool (pool_sched [] [] [] []) True failed_stream)"
proof -
  let ?P = "sample_pool (pool_sched [] [] [] []) False"
  let ?st = "\<lambda>pull permits. (new_stream (Some 0) 1 [sample_submission])
    \<lparr>st_permits := permits, st_pull := Some pull, st_phase := Parked\<rparr>"
  have "(advance 0 ^^ 6) (?P (new_stream (Some 0) 1 [sample_submission])) = ?P (?st AwaitGate 1)"
    by (simp add: eval_nat_numeral advance_defs sample_pool_defs new_stream_def)
  with reachable_advances [OF sample_opened, of runs 6]
  have r1: "reachable runs (FixedPoolCapacity 1) (?P (?st AwaitGate 1))" by (simp add: sample_pool_def)
  have "pull_step (?st AwaitGate 1) (?st AwaitSource 0)"
    using pull_gate [of "?st AwaitGate 1"] by (simp add: gate_acquired_def new_stream_def)
  from reachable_pull [OF r1 _ this]
  have r2: "reachable runs (FixedPoolCapacity 1) (?P (?st AwaitSource 0))" by simp
  have "pull_step (?st AwaitSource 0) (?st (PullFailed (OSError None)) 0)"
    using pull_raises [of "?st AwaitSource 0" "OSError None"] by (simp add: source_raises_def new_stream_def)
  from reachable_wake [OF reachable_pull [OF r2 _ this]]
  have r3: "reachable runs (FixedPoolCapacity 1) (?P ((?st (PullFailed (OSError None)) 0)\<lparr>st_phase := Head\<rparr>))"
    by (simp add: wakes_def)
  have "(advance 0 ^^ 7) (?P ((?st (PullFailed (OSError None)) 0)\<lparr>st_phase := Head\<rparr>)) =
      sample_pool (pool_sched [] [] [] []) True failed_stream"
    by (simp add: eval_nat_numeral advance_defs sample_pool_defs new_stream_def failed_stream_def Let_def)
  with reachable_advances [OF r3, of 7] show ?thesis by (simp add: sample_pool_def)
qed

theorem failed_source_stays_active_witness:
  "0 < p_active_streams (notify_streams (sample_pool (pool_sched [] [] [] []) True failed_stream))"
proof -
  let ?p = "sample_pool (pool_sched [] [] [] []) True failed_stream"
  obtain es where run: "pool_run (\<lambda>_ _. True) (FixedPoolCapacity 1) es ?p"
    using sample_failed by (rule reachableE)
  have "pool_step (\<lambda>_ _. True) ?p [] (notify_streams ?p)"
    by (rule pool_notify) (simp_all add: sample_pool_def loop_free_def failed_stream_def)
  from failed_source_stays_active [OF run _ _ _ this, of 0 "Raised (OSError None)"] show ?thesis
    by (simp add: sample_pool_def failed_stream_def new_stream_def)
qed

end
