(* ===== verification/ErrorDetail.thy ===== *)
theory ErrorDetail
  imports Prelude
begin

text \<open>
  The bounded rendering of a payload's exception, \<^verbatim>\<open>format_payload_error_detail\<close> of
  \<^verbatim>\<open>importable_json.py\<close>, with the UTF-8 codec it relies on. Text is a list of code points, lone
  surrogates included; the payload's objects are values that say what each guarded operation
  on them returns or that it raises. The codec is the one of the standard library:
  \<^verbatim>\<open>backslashreplace\<close> when encoding, \<^verbatim>\<open>replace\<close> and \<^verbatim>\<open>ignore\<close> on the maximal ill-formed parts when
  decoding.
\<close>

section \<open>UTF-8\<close>

type_synonym code_points = "nat list"
type_synonym octets = "nat list"

definition lit :: "string \<Rightarrow> code_points" where
  "lit s = map of_char s"

definition is_surrogate :: "nat \<Rightarrow> bool" where
  "is_surrogate c = (0xD800 \<le> c \<and> c \<le> 0xDFFF)"

definition is_scalar :: "nat \<Rightarrow> bool" where
  "is_scalar c = (c < 0x110000 \<and> \<not> is_surrogate c)"

definition utf8_bytes :: "nat \<Rightarrow> octets" where
  "utf8_bytes c =
     (if c < 0x80 then [c]
      else if c < 0x800 then [0xC0 + c div 64, 0x80 + c mod 64]
      else if c < 0x10000 then [0xE0 + c div 4096, 0x80 + c div 64 mod 64, 0x80 + c mod 64]
      else [0xF0 + c div 262144, 0x80 + c div 4096 mod 64, 0x80 + c div 64 mod 64, 0x80 + c mod 64])"

definition hex_code :: "nat \<Rightarrow> nat" where
  "hex_code d = (if d < 10 then 0x30 + d else 0x57 + d)"

text \<open>The escape of a code point that has no UTF-8 encoding: a backslash, \<^verbatim>\<open>u\<close>, four digits.\<close>

definition backslash_escape :: "nat \<Rightarrow> code_points" where
  "backslash_escape c =
     [0x5C, 0x75, hex_code (c div 4096), hex_code (c div 256 mod 16), hex_code (c div 16 mod 16),
      hex_code (c mod 16)]"

definition escape_char :: "nat \<Rightarrow> code_points" where
  "escape_char c = (if is_surrogate c then backslash_escape c else [c])"

definition encode_char :: "nat \<Rightarrow> octets" where
  "encode_char c = (if is_surrogate c then concat (map utf8_bytes (backslash_escape c)) else utf8_bytes c)"

definition encode_backslashreplace :: "code_points \<Rightarrow> octets" where
  "encode_backslashreplace text = concat (map encode_char text)"

definition is_cont :: "nat \<Rightarrow> bool" where
  "is_cont b = (0x80 \<le> b \<and> b \<le> 0xBF)"

definition second_ok :: "nat \<Rightarrow> nat \<Rightarrow> bool" where
  "second_ok lead b =
     (if lead = 0xE0 then 0xA0 \<le> b \<and> b \<le> 0xBF
      else if lead = 0xED then 0x80 \<le> b \<and> b \<le> 0x9F
      else if lead = 0xF0 then 0x90 \<le> b \<and> b \<le> 0xBF
      else if lead = 0xF4 then 0x80 \<le> b \<and> b \<le> 0x8F
      else is_cont b)"

text \<open>
  One step of the decoder: the code point and what follows it, or an error and what follows
  the maximal ill-formed part.
\<close>

fun decode_two :: "nat \<Rightarrow> octets \<Rightarrow> nat option \<times> octets" where
  "decode_two b [] = (None, [])"
| "decode_two b (c # cs) =
     (if is_cont c then (Some ((b - 0xC0) * 64 + (c - 0x80)), cs) else (None, c # cs))"

fun decode_three :: "nat \<Rightarrow> octets \<Rightarrow> nat option \<times> octets" where
  "decode_three b [] = (None, [])"
| "decode_three b [c] = (None, if second_ok b c then [] else [c])"
| "decode_three b (c # d # ds) =
     (if \<not> second_ok b c then (None, c # d # ds)
      else if \<not> is_cont d then (None, d # ds)
      else (Some ((b - 0xE0) * 4096 + (c - 0x80) * 64 + (d - 0x80)), ds))"

fun decode_four :: "nat \<Rightarrow> octets \<Rightarrow> nat option \<times> octets" where
  "decode_four b [] = (None, [])"
| "decode_four b [c] = (None, if second_ok b c then [] else [c])"
| "decode_four b [c, d] =
     (None, if \<not> second_ok b c then [c, d] else if \<not> is_cont d then [d] else [])"
| "decode_four b (c # d # e # es) =
     (if \<not> second_ok b c then (None, c # d # e # es)
      else if \<not> is_cont d then (None, d # e # es)
      else if \<not> is_cont e then (None, e # es)
      else (Some ((b - 0xF0) * 262144 + (c - 0x80) * 4096 + (d - 0x80) * 64 + (e - 0x80)), es))"

definition decode_step :: "nat \<Rightarrow> octets \<Rightarrow> nat option \<times> octets" where
  "decode_step b bs =
     (if b < 0x80 then (Some b, bs)
      else if 0xC2 \<le> b \<and> b \<le> 0xDF then decode_two b bs
      else if 0xE0 \<le> b \<and> b \<le> 0xEF then decode_three b bs
      else if 0xF0 \<le> b \<and> b \<le> 0xF4 then decode_four b bs
      else (None, bs))"

lemma decode_step_shrinks: "length (snd (decode_step b bs)) \<le> length bs"
proof -
  have "length (snd (decode_two b bs)) \<le> length bs" by (cases "(b, bs)" rule: decode_two.cases) auto
  moreover have "length (snd (decode_three b bs)) \<le> length bs"
    by (cases "(b, bs)" rule: decode_three.cases) auto
  moreover have "length (snd (decode_four b bs)) \<le> length bs"
    by (cases "(b, bs)" rule: decode_four.cases) auto
  ultimately show ?thesis by (simp add: decode_step_def)
qed

text \<open>\<open>on_error\<close> is what an ill-formed part decodes to.\<close>

function utf8_decode :: "code_points \<Rightarrow> octets \<Rightarrow> code_points" where
  "utf8_decode on_error [] = []"
| "utf8_decode on_error (b # bs) =
     (case decode_step b bs of
        (Some c, rest) \<Rightarrow> c # utf8_decode on_error rest
      | (None, rest) \<Rightarrow> on_error @ utf8_decode on_error rest)"
  by pat_completeness auto

lemma decode_step_rest: "(m, rest) = decode_step b bs \<Longrightarrow> length rest < length (b # bs)"
  using decode_step_shrinks [of b bs] by (cases "decode_step b bs") auto

termination utf8_decode
  by (relation "measure (\<lambda>(e, bs). length bs)") (auto dest: decode_step_rest)

definition decode_replace :: "octets \<Rightarrow> code_points" where
  "decode_replace = utf8_decode [0xFFFD]"

definition decode_ignore :: "octets \<Rightarrow> code_points" where
  "decode_ignore = utf8_decode []"

section \<open>The rendering\<close>

definition PAYLOAD_ERROR_DETAIL_MAX_BYTES :: nat where
  "PAYLOAD_ERROR_DETAIL_MAX_BYTES = 8192"

definition PAYLOAD_ERROR_DETAIL_TRUNCATION_MARKER :: string where
  "PAYLOAD_ERROR_DETAIL_TRUNCATION_MARKER = ''... [truncated]''"

definition PAYLOAD_RAISED_DETAIL_PREFIX :: string where
  "PAYLOAD_RAISED_DETAIL_PREFIX = ''the importable JSON entry point raised''"

definition PAYLOAD_ERROR_UNPRINTABLE_PLACEHOLDER :: string where
  "PAYLOAD_ERROR_UNPRINTABLE_PLACEHOLDER = ''<unprintable>''"

definition PAYLOAD_ERROR_TRACEBACK_OMITTED_MARKER :: string where
  "PAYLOAD_ERROR_TRACEBACK_OMITTED_MARKER = ''<traceback unavailable>''"

text \<open>
  A value the payload controls: an exact \<^verbatim>\<open>str\<close>, an instance of a subclass of \<^verbatim>\<open>str\<close> with the text it
  stands for, or another object, on which \<^verbatim>\<open>str\<close> raises or returns a string.
\<close>

datatype py_str = ExactStr code_points | StrSubclass code_points

datatype py_value = IsStr py_str | NotStr "py_str option"

text \<open>
  An exception: what reading its type's two names gives, what \<^verbatim>\<open>str\<close> of it returns or the
  exception it raises, and the lines of its traceback, each \<open>None\<close> where reading raises.
\<close>

datatype payload_error =
  PayloadError (pe_type_names: "(py_value \<times> py_value) option")
    (pe_str: "(payload_error, py_str) sum") (pe_traceback: "py_value list option")

definition exact_str :: "py_value \<Rightarrow> code_points" where
  "exact_str v =
     (case v of
        IsStr (ExactStr t) \<Rightarrow> t
      | IsStr (StrSubclass t) \<Rightarrow> t
      | NotStr (Some (ExactStr t)) \<Rightarrow> t
      | NotStr _ \<Rightarrow> lit PAYLOAD_ERROR_UNPRINTABLE_PLACEHOLDER)"

fun is_str :: "py_value \<Rightarrow> bool" where
  "is_str (IsStr _) = True"
| "is_str (NotStr _) = False"

definition safe_type_names :: "payload_error \<Rightarrow> code_points \<times> code_points" where
  "safe_type_names e =
     (let placeholder = lit PAYLOAD_ERROR_UNPRINTABLE_PLACEHOLDER
      in case pe_type_names e of
           None \<Rightarrow> (placeholder, placeholder)
         | Some (module, qualified) \<Rightarrow>
             (if \<not> is_str module \<or> \<not> is_str qualified then (placeholder, placeholder)
              else (exact_str module, exact_str qualified)))"

definition unprintable_message :: "payload_error \<Rightarrow> payload_error \<Rightarrow> code_points" where
  "unprintable_message e failure =
     (let raised = snd (safe_type_names e); by_name = snd (safe_type_names failure);
          placeholder = lit PAYLOAD_ERROR_UNPRINTABLE_PLACEHOLDER
      in if placeholder = raised \<or> placeholder = by_name then placeholder
         else lit ''<unprintable '' @ raised @ lit '': __str__ raised '' @ by_name @ lit ''>'')"

definition safe_message :: "payload_error \<Rightarrow> code_points" where
  "safe_message e =
     (case pe_str e of
        Inl failure \<Rightarrow> unprintable_message e failure
      | Inr message \<Rightarrow> exact_str (IsStr message))"

definition newline :: code_points where
  "newline = [10]"

definition safe_traceback_lines :: "payload_error \<Rightarrow> code_points list" where
  "safe_traceback_lines e =
     (case pe_traceback e of
        None \<Rightarrow> [lit PAYLOAD_ERROR_TRACEBACK_OMITTED_MARKER @ newline]
      | Some lines \<Rightarrow> map exact_str lines)"

definition truncate_utf8 :: "code_points \<Rightarrow> code_points" where
  "truncate_utf8 text =
     (let encoded = encode_backslashreplace text
      in if length encoded \<le> PAYLOAD_ERROR_DETAIL_MAX_BYTES then decode_replace encoded
         else let marker = lit PAYLOAD_ERROR_DETAIL_TRUNCATION_MARKER;
                  budget = PAYLOAD_ERROR_DETAIL_MAX_BYTES - length (encode_backslashreplace marker);
                  kept = decode_ignore (take budget encoded)
              in kept @ marker)"

definition detail_text ::
  "code_points \<Rightarrow> code_points \<Rightarrow> code_points \<Rightarrow> code_points list \<Rightarrow> code_points" where
  "detail_text module_text qualified_name message traceback_lines =
     (let qualified = (if module_text = lit ''builtins'' then qualified_name
            else module_text @ lit ''.'' @ qualified_name);
          headline = lit PAYLOAD_RAISED_DETAIL_PREFIX @ lit '': '' @ qualified @ lit '': '' @ message
      in headline @ newline @ concat traceback_lines)"

definition format_detail ::
  "code_points \<Rightarrow> code_points \<Rightarrow> code_points \<Rightarrow> code_points list \<Rightarrow> code_points" where
  "format_detail module_text qualified_name message traceback_lines =
     truncate_utf8 (detail_text module_text qualified_name message traceback_lines)"

definition format_payload_error_detail :: "payload_error \<Rightarrow> code_points" where
  "format_payload_error_detail e =
     (let (module_text, qualified_name) = safe_type_names e
      in format_detail module_text qualified_name (safe_message e) (safe_traceback_lines e))"


section \<open>The codec\<close>

lemma split_code:
  obtains a b d e :: nat where "c = a * 262144 + b * 4096 + d * 64 + e" "b < 64" "d < 64" "e < 64"
    "c div 262144 = a" "c div 4096 = a * 64 + b" "c div 4096 mod 64 = b" "c div 64 mod 64 = d" "c mod 64 = e"
proof -
  define q where "q = c div 64"
  define r where "r = q div 64"
  have 1: "c = q * 64 + c mod 64" by (simp add: q_def)
  have 2: "q = r * 64 + q mod 64" by (simp add: r_def)
  have 3: "r = r div 64 * 64 + r mod 64" by simp
  have divs: "c div 4096 = r" "c div 262144 = r div 64"
    by (simp_all add: q_def r_def flip: div_mult2_eq)
  show thesis
  proof (rule that [of "r div 64" "r mod 64" "q mod 64" "c mod 64"])
    show "c = r div 64 * 262144 + r mod 64 * 4096 + q mod 64 * 64 + c mod 64"
      using 1 2 3 by linarith
    show "c div 4096 = r div 64 * 64 + r mod 64" using divs 3 by simp
  qed (simp_all add: divs q_def)
qed

lemma decode_char:
  assumes "is_scalar c"
  shows "utf8_decode on_error (utf8_bytes c @ rest) = c # utf8_decode on_error rest"
proof -
  obtain a b d e where s: "c = a * 262144 + b * 4096 + d * 64 + e" "b < 64" "d < 64" "e < 64"
    "c div 262144 = a" "c div 4096 = a * 64 + b" "c div 4096 mod 64 = b" "c div 64 mod 64 = d" "c mod 64 = e"
    by (rule split_code [of c])
  consider "c < 0x80" | "0x80 \<le> c" "c < 0x800" | "0x800 \<le> c" "c < 0x10000" | "0x10000 \<le> c" by linarith
  then show ?thesis
  proof cases
    case 1
    then show ?thesis by (simp add: utf8_bytes_def decode_step_def)
  next
    case 2
    have "c div 64 = d" "2 \<le> d" "d < 32" using 2 s by auto
    with 2 s show ?thesis by (simp add: utf8_bytes_def decode_step_def is_cont_def)
  next
    case 3
    then have a: "a = 0" "b < 16" using s by auto
    have lo: "b = 0 \<longrightarrow> 32 \<le> d" using 3 s a by auto
    have hi: "b = 13 \<longrightarrow> d < 32" using assms s a by (auto simp: is_scalar_def is_surrogate_def)
    have top: "c div 4096 = b" using s a by simp
    show ?thesis using 3 s(1-4,8,9) a lo hi top
      by (auto simp: utf8_bytes_def decode_step_def is_cont_def second_ok_def)
  next
    case 4
    then have "a < 5" "a = 4 \<Longrightarrow> b < 16" "a = 0 \<Longrightarrow> 16 \<le> b"
      using assms s by (auto simp: is_scalar_def)
    then show ?thesis using 4 s
      by (auto simp: utf8_bytes_def decode_step_def is_cont_def second_ok_def)
  qed
qed

lemma decode_partial:
  assumes "is_scalar c" and "n < length (utf8_bytes c)"
  shows "utf8_decode [] (take n (utf8_bytes c)) = []"
proof -
  obtain a b d e where s: "c = a * 262144 + b * 4096 + d * 64 + e" "b < 64" "d < 64" "e < 64"
    "c div 262144 = a" "c div 4096 = a * 64 + b" "c div 4096 mod 64 = b" "c div 64 mod 64 = d" "c mod 64 = e"
    by (rule split_code [of c])
  have n: "n = 0 \<or> n = 1 \<or> n = 2 \<or> n = 3"
    using assms(2) by (auto simp: utf8_bytes_def split: if_splits)
  consider "c < 0x80" | "0x80 \<le> c" "c < 0x800" | "0x800 \<le> c" "c < 0x10000" | "0x10000 \<le> c" by linarith
  then show ?thesis
  proof cases
    case 1
    then show ?thesis using assms(2) by (simp add: utf8_bytes_def)
  next
    case 2
    have "c div 64 = d" "2 \<le> d" "d < 32" using 2 s by auto
    with 2 s n assms(2) show ?thesis by (auto simp: utf8_bytes_def decode_step_def is_cont_def)
  next
    case 3
    then have a: "a = 0" "b < 16" using s by auto
    have lo: "b = 0 \<longrightarrow> 32 \<le> d" using 3 s a by auto
    have hi: "b = 13 \<longrightarrow> d < 32" using assms s a by (auto simp: is_scalar_def is_surrogate_def)
    have top: "c div 4096 = b" using s a by simp
    show ?thesis using 3 s(1-4,8,9) a lo hi top n assms(2)
      by (auto simp: utf8_bytes_def decode_step_def is_cont_def second_ok_def)
  next
    case 4
    then have "a < 5" "a = 4 \<Longrightarrow> b < 16" "a = 0 \<Longrightarrow> 16 \<le> b"
      using assms s by (auto simp: is_scalar_def)
    then have lead: "decode_step (240 + a) bs = decode_four (240 + a) bs" "second_ok (240 + a) (128 + b)"
      "is_cont (128 + d)" for bs
      using s(2-4) by (auto simp: decode_step_def second_ok_def is_cont_def)
    have "utf8_bytes c = [240 + a, 128 + b, 128 + d, 128 + e]"
      using 4 s by (simp add: utf8_bytes_def)
    with n show ?thesis by (elim disjE) (simp_all add: lead numeral_2_eq_2 numeral_3_eq_3)
  qed
qed

definition escaped :: "code_points \<Rightarrow> code_points" where
  "escaped text = concat (map escape_char text)"

definition utf8 :: "code_points \<Rightarrow> octets" where
  "utf8 text = concat (map utf8_bytes text)"

lemma encode_escaped: "encode_backslashreplace text = utf8 (escaped text)"
  by (induction "text") (auto simp: encode_backslashreplace_def utf8_def escaped_def encode_char_def escape_char_def)

lemma hex_code_less: "d < 16 \<Longrightarrow> hex_code d < 0x80"
  by (simp add: hex_code_def)

lemma escape_char_scalar:
  assumes "c < 0x110000"
  shows "list_all is_scalar (escape_char c)"
proof -
  have "c \<le> 57343 \<Longrightarrow> c div 4096 < 16" by simp
  with assms hex_code_less [of "c div 4096"] hex_code_less [of "c div 256 mod 16"]
    hex_code_less [of "c div 16 mod 16"] hex_code_less [of "c mod 16"]
  show ?thesis by (auto simp: escape_char_def backslash_escape_def is_scalar_def is_surrogate_def)
qed

lemma escaped_scalar: "list_all (\<lambda>c. c < 0x110000) text \<Longrightarrow> list_all is_scalar (escaped text)"
  by (induction "text") (auto simp: escaped_def escape_char_scalar)

lemma escaped_id: "list_all is_scalar text \<Longrightarrow> escaped text = text"
  by (induction "text") (auto simp: escaped_def escape_char_def is_scalar_def)

lemma utf8_round_trip: "list_all is_scalar text \<Longrightarrow> utf8_decode on_error (utf8 text) = text"
  by (induction "text") (auto simp: utf8_def decode_char)

text \<open>The longest prefix of a text whose encoding fits.\<close>

fun fitting :: "nat \<Rightarrow> code_points \<Rightarrow> code_points" where
  "fitting n [] = []"
| "fitting n (c # cs) =
     (if length (utf8_bytes c) \<le> n then c # fitting (n - length (utf8_bytes c)) cs else [])"

lemma decode_truncated:
  "list_all is_scalar text \<Longrightarrow> decode_ignore (take n (utf8 text)) = fitting n text"
proof (induction "text" arbitrary: n)
  case Nil
  then show ?case by (simp add: decode_ignore_def utf8_def)
next
  case (Cons c cs)
  then have scalar: "is_scalar c" by simp
  show ?case
  proof (cases "length (utf8_bytes c) \<le> n")
    case True
    then have "take n (utf8 (c # cs)) = utf8_bytes c @ take (n - length (utf8_bytes c)) (utf8 cs)"
      by (simp add: utf8_def)
    with Cons True decode_char [OF scalar] show ?thesis by (simp add: decode_ignore_def)
  next
    case False
    then have "take n (utf8 (c # cs)) = take n (utf8_bytes c)" by (simp add: utf8_def)
    with False decode_partial [OF scalar] show ?thesis by (simp add: decode_ignore_def)
  qed
qed

lemma utf8_bytes_length: "0 < length (utf8_bytes c)" "length (utf8_bytes c) \<le> 4"
  by (simp_all add: utf8_bytes_def)

lemma fitting_prefix: "\<exists>rest. text = fitting n text @ rest"
  by (induction n "text" rule: fitting.induct) auto

lemma fitting_fits: "length (utf8 (fitting n text)) \<le> n"
  by (induction n "text" rule: fitting.induct) (auto simp: utf8_def)

lemma utf8_Cons [simp]: "utf8 (c # cs) = utf8_bytes c @ utf8 cs" "utf8 [] = []"
  by (simp_all add: utf8_def)

lemma fitting_longest: "n < length (utf8 cs) \<Longrightarrow> n < length (utf8 (fitting n cs)) + 4"
proof (induction n cs rule: fitting.induct)
  case (2 n c cs)
  show ?case
  proof (cases "length (utf8_bytes c) \<le> n")
    case True
    with 2 have "n - length (utf8_bytes c) < length (utf8 (fitting (n - length (utf8_bytes c)) cs)) + 4" by simp
    with True show ?thesis by simp
  next
    case False
    with utf8_bytes_length(2) [of c] show ?thesis by simp
  qed
qed simp

lemma utf8_append [simp]: "utf8 (xs @ ys) = utf8 xs @ utf8 ys"
  by (simp add: utf8_def)

lemma list_all_fitting: "list_all P cs \<Longrightarrow> list_all P (fitting n cs)"
  by (induction n cs rule: fitting.induct) auto

lemma marker_facts:
  "list_all is_scalar (lit PAYLOAD_ERROR_DETAIL_TRUNCATION_MARKER)"
  "length (utf8 (lit PAYLOAD_ERROR_DETAIL_TRUNCATION_MARKER)) = 15"
  by (simp_all add: lit_def PAYLOAD_ERROR_DETAIL_TRUNCATION_MARKER_def is_scalar_def is_surrogate_def
      utf8_bytes_def)

text \<open>What truncation computes: the escaped text, or its longest fitting prefix and the marker.\<close>

lemma truncate_utf8_eq:
  assumes "list_all (\<lambda>c. c < 0x110000) cs"
  shows "truncate_utf8 cs =
    (if length (utf8 (escaped cs)) \<le> 8192 then escaped cs
     else fitting (8192 - 15) (escaped cs) @ lit PAYLOAD_ERROR_DETAIL_TRUNCATION_MARKER)"
proof -
  have "encode_backslashreplace (lit PAYLOAD_ERROR_DETAIL_TRUNCATION_MARKER) =
      utf8 (lit PAYLOAD_ERROR_DETAIL_TRUNCATION_MARKER)"
    by (simp add: encode_escaped escaped_id marker_facts)
  then show ?thesis
    using utf8_round_trip [OF escaped_scalar [OF assms]] decode_truncated [OF escaped_scalar [OF assms]]
    by (simp add: truncate_utf8_def encode_escaped decode_replace_def PAYLOAD_ERROR_DETAIL_MAX_BYTES_def
        marker_facts Let_def)
qed

section \<open>Payload text\<close>

abbreviation text_ok :: "code_points \<Rightarrow> bool" where
  "text_ok \<equiv> list_all (\<lambda>c. c < 0x110000)"

fun str_ok :: "py_str \<Rightarrow> bool" where
  "str_ok (ExactStr t) = text_ok t"
| "str_ok (StrSubclass t) = text_ok t"

fun value_ok :: "py_value \<Rightarrow> bool" where
  "value_ok (IsStr s) = str_ok s"
| "value_ok (NotStr None) = True"
| "value_ok (NotStr (Some s)) = str_ok s"

text \<open>The strings an exception shows are Python strings: lists of code points.\<close>

primrec error_ok :: "payload_error \<Rightarrow> bool" where
  "error_ok (PayloadError names str lines) =
     ((case names of None \<Rightarrow> True | Some (m, q) \<Rightarrow> value_ok m \<and> value_ok q) \<and>
      (case map_sum error_ok str_ok str of Inl b \<Rightarrow> b | Inr b \<Rightarrow> b) \<and>
      (case lines of None \<Rightarrow> True | Some ls \<Rightarrow> list_all value_ok ls))"

lemma lit_ok: "text_ok (lit s)"
proof -
  have "of_char c < (0x110000 :: nat)" for c :: char
    using nat_of_char_less_256 [of c] by (rule order.strict_trans) simp
  then show ?thesis by (simp add: lit_def list_all_iff)
qed

lemma exact_str_ok: "value_ok v \<Longrightarrow> text_ok (exact_str v)"
  by (auto simp: exact_str_def lit_ok split: py_value.splits py_str.splits option.splits)

lemma safe_type_names_ok: "error_ok e \<Longrightarrow> text_ok (fst (safe_type_names e)) \<and> text_ok (snd (safe_type_names e))"
  by (cases e) (auto simp: safe_type_names_def lit_ok exact_str_ok Let_def split: option.splits)

lemma safe_message_ok:
  assumes "error_ok e"
  shows "text_ok (safe_message e)"
proof (cases "pe_str e")
  case (Inl failure)
  then have "error_ok failure" using assms by (cases e) auto
  with Inl assms safe_type_names_ok show ?thesis
    by (simp add: safe_message_def unprintable_message_def lit_ok Let_def)
next
  case (Inr s)
  then have "str_ok s" using assms by (cases e) auto
  with Inr show ?thesis by (simp add: safe_message_def exact_str_ok)
qed

lemma safe_traceback_ok: "error_ok e \<Longrightarrow> text_ok (concat (safe_traceback_lines e))"
  using lit_ok [of PAYLOAD_ERROR_TRACEBACK_OMITTED_MARKER]
  by (cases e) (auto simp: safe_traceback_lines_def newline_def list_all_iff
      dest!: exact_str_ok split: option.splits)

definition detail_of :: "payload_error \<Rightarrow> code_points" where
  "detail_of e =
     detail_text (fst (safe_type_names e)) (snd (safe_type_names e)) (safe_message e) (safe_traceback_lines e)"

lemma detail_of_ok: "error_ok e \<Longrightarrow> text_ok (detail_of e)"
  using safe_type_names_ok safe_message_ok safe_traceback_ok
  by (simp add: detail_of_def detail_text_def lit_ok newline_def Let_def)

lemma format_truncates: "format_payload_error_detail e = truncate_utf8 (detail_of e)"
  by (simp add: format_payload_error_detail_def format_detail_def detail_of_def split_beta)

section \<open>Properties\<close>



end
