(* ===== verification/ImportableJson.thy ===== *)
theory ImportableJson
  imports Streams ErrorDetail
begin

text \<open>
  Importable JSON: the envelope, the job builders and the result parser of \<^verbatim>\<open>importable_json.py\<close>,
  and the in-process executor of \<^verbatim>\<open>execution/importable_json_executor.py\<close>. Imported modules and
  their entry points are not part of the repository: \<open>lookup\<close> says what importing a module and
  reading an attribute of it gives, and a callable is a function to what a call of it returns
  or raises. \<open>strict_json\<close> and \<open>strict\<close> stand for \<^verbatim>\<open>dr_serialize.validate_strict_json\<close>, \<open>None\<close>
  where it raises, and \<open>py_repr\<close> for \<^verbatim>\<open>repr\<close> of a string. Rendered text enters a record as the
  characters of its UTF-8 encoding.
\<close>

section \<open>The envelope\<close>

definition ENVELOPE_SCHEMA :: string where
  "ENVELOPE_SCHEMA = ''dr_exec.importable_json''"

definition ENVELOPE_SCHEMA_VERSION :: int where
  "ENVELOPE_SCHEMA_VERSION = 1"

definition is_importable_json_envelope :: "identity_document \<Rightarrow> bool" where
  "is_importable_json_envelope document =
     (doc_schema document = ENVELOPE_SCHEMA \<and> doc_schema_version document = ENVELOPE_SCHEMA_VERSION)"

datatype importable_error =
    ImportableJsonResultError string
  | StrictJsonError
  | BuildError py_exn

definition envelope :: "(json \<Rightarrow> json option) \<Rightarrow> json \<Rightarrow> (importable_error, identity_document) result" where
  "envelope strict_json payload =
     (case strict_json payload of
        None \<Rightarrow> Inl StrictJsonError
      | Some validated \<Rightarrow>
          Inr \<lparr>doc_schema = ENVELOPE_SCHEMA, doc_schema_version = ENVELOPE_SCHEMA_VERSION,
               doc_payload = validated\<rparr>)"

section \<open>Job builders\<close>

definition source_lines :: "string list \<Rightarrow> string" where
  "source_lines ls = concat (map (\<lambda>l. l @ [CHR 0x0A]) ls)"

definition driver_source :: "(string \<Rightarrow> string) \<Rightarrow> ImportableEntryPoint \<Rightarrow> string" where
  "driver_source py_repr entry_point = source_lines [
     ''import importlib as _dr_exec_importlib'',
     '''',
     ''_DR_EXEC_MODULE_NAME = '' @ py_repr (ep_module_name entry_point),
     ''_DR_EXEC_ATTRIBUTE_NAME = '' @ py_repr (ep_attribute_name entry_point),
     ''_DR_EXEC_ENVELOPE_SCHEMA = '' @ py_repr ENVELOPE_SCHEMA,
     ''_DR_EXEC_ENVELOPE_SCHEMA_VERSION = '' @ int_str ENVELOPE_SCHEMA_VERSION,
     '''',
     '''',
     ''def dr_exec_main(request, emit):'',
     ''    if ('',
     ''        request[\"schema\"] != _DR_EXEC_ENVELOPE_SCHEMA'',
     ''        or request[\"schema_version\"] != _DR_EXEC_ENVELOPE_SCHEMA_VERSION'',
     ''    ):'',
     ''        raise ValueError(\"request does not use the importable JSON envelope\")'',
     ''    module = _dr_exec_importlib.import_module(_DR_EXEC_MODULE_NAME)'',
     ''    entry_point = getattr(module, _DR_EXEC_ATTRIBUTE_NAME)'',
     ''    if not callable(entry_point):'',
     ''        raise TypeError(\"the imported module attribute is not callable\")'',
     ''    result = entry_point(request[\"payload\"])'',
     ''    emit({'',
     ''        \"schema\": _DR_EXEC_ENVELOPE_SCHEMA,'',
     ''        \"schema_version\": _DR_EXEC_ENVELOPE_SCHEMA_VERSION,'',
     ''        \"payload\": result,'',
     ''    })'']"

definition lift_build :: "(py_exn, 'a) result \<Rightarrow> (importable_error, 'a) result" where
  "lift_build r = map_sum BuildError id r"

definition build_trusted_importable_json_job ::
  "(string \<Rightarrow> string) \<Rightarrow> (json \<Rightarrow> json option) \<Rightarrow> uuid \<Rightarrow> ImportableEntryPoint \<Rightarrow> json \<Rightarrow> EnvGrant \<Rightarrow>
     Budgets option \<Rightarrow> (importable_error, ExecutionJob) result" where
  "build_trusted_importable_json_job py_repr strict_json job entry_point request env budgets =
     bind_result (envelope strict_json request) (\<lambda>document.
     bind_result (lift_build (validate_driver_source (driver_source py_repr entry_point))) (\<lambda>src.
       Inr \<lparr>job_id = job, job_target = TrustedPythonTarget src document, job_env = env,
            job_budgets = (case budgets of None \<Rightarrow> Budgets_unbudgeted | Some b \<Rightarrow> b),
            job_workspace = WorkingDirectoryGrant_scratch\<rparr>))"

definition build_untrusted_importable_json_job ::
  "(string \<Rightarrow> string) \<Rightarrow> (json \<Rightarrow> json option) \<Rightarrow> uuid \<Rightarrow> ImportableEntryPoint \<Rightarrow> json \<Rightarrow> EnvGrant \<Rightarrow>
     Budgets option \<Rightarrow> (importable_error, ExecutionJob) result" where
  "build_untrusted_importable_json_job py_repr strict_json job entry_point request env budgets =
     bind_result (envelope strict_json request) (\<lambda>document.
     bind_result (lift_build (validate_driver_source (driver_source py_repr entry_point))) (\<lambda>src.
       Inr \<lparr>job_id = job,
            job_target = UntrustedPythonTarget src document ContainmentProfile.PROCESS_BOUNDARY_ONLY,
            job_env = env, job_budgets = (case budgets of None \<Rightarrow> Budgets_unbudgeted | Some b \<Rightarrow> b),
            job_workspace = WorkingDirectoryGrant_scratch\<rparr>))"

definition build_in_process_importable_json_job ::
  "(json \<Rightarrow> json option) \<Rightarrow> uuid \<Rightarrow> ImportableEntryPoint \<Rightarrow> json \<Rightarrow> Budgets option \<Rightarrow>
     (importable_error, ExecutionJob) result" where
  "build_in_process_importable_json_job strict_json job entry_point request budgets =
     bind_result (envelope strict_json request) (\<lambda>document.
     bind_result (lift_build EnvGrant_none) (\<lambda>env.
       Inr \<lparr>job_id = job, job_target = InProcessImportableJsonTarget entry_point document, job_env = env,
            job_budgets = (case budgets of None \<Rightarrow> Budgets_unbudgeted | Some b \<Rightarrow> b),
            job_workspace = WorkingDirectoryGrant_scratch\<rparr>))"

definition parse_importable_json_result ::
  "(json \<Rightarrow> json option) \<Rightarrow> CompletedExecution \<Rightarrow> (importable_error, json) result" where
  "parse_importable_json_result strict_json completed =
     (if res_outcome (ce_result completed) \<noteq> ExitedOutcome 0
      then Inl (ImportableJsonResultError
        ''the importable JSON execution did not exit cleanly with code zero'')
      else case res_protocol_outputs (ce_result completed) of
        [output] \<Rightarrow>
          (if \<not> is_importable_json_envelope output
           then Inl (ImportableJsonResultError
             ''the importable JSON output does not use the required envelope'')
           else case strict_json (doc_payload output) of
             None \<Rightarrow> Inl StrictJsonError
           | Some v \<Rightarrow> Inr v)
      | _ \<Rightarrow> Inl (ImportableJsonResultError
          ''the importable JSON execution did not produce exactly one output''))"

section \<open>Calling an entry point\<close>

text \<open>
  What a call, an import or an attribute read can raise besides an \<^verbatim>\<open>Exception\<close> its caller handles;
  \<open>SystemExit\<close> carries its code when that is an integer.
\<close>

datatype escape = SystemExit "int option" | KeyboardInterrupt | OtherEscape

datatype 'v call = Returns 'v | RaisesException payload_error | RaisesBase escape

datatype 'v entry =
    ImportRaises
  | ImportEscapes escape
  | AttributeMissing
  | AttributeEscapes escape
  | NotCallable
  | Entry "json \<Rightarrow> 'v call"

datatype dispatch =
    ExecutorDispatchError string
  | PayloadDispatchError string
  | PayloadResultError string
  | Escapes escape
  | Result json

definition text_string :: "code_points \<Rightarrow> string" where
  "text_string cs = map char_of (utf8 cs)"

definition invoke_importable_entry_point ::
  "(string \<Rightarrow> string) \<Rightarrow> (json \<Rightarrow> json option) \<Rightarrow> ('v \<Rightarrow> json option) \<Rightarrow>
     (ImportableEntryPoint \<Rightarrow> 'v entry) \<Rightarrow> ImportableEntryPoint \<Rightarrow> identity_document \<Rightarrow> dispatch" where
  "invoke_importable_entry_point py_repr strict_json strict lookup entry_point request =
     (if \<not> is_importable_json_envelope request
      then ExecutorDispatchError ''request does not use the importable JSON envelope''
      else case strict_json (doc_payload request) of
        None \<Rightarrow> ExecutorDispatchError ''request payload is not strict JSON''
      | Some payload \<Rightarrow>
          (case lookup entry_point of
             ImportRaises \<Rightarrow>
               ExecutorDispatchError (''could not import '' @ py_repr (ep_module_name entry_point))
           | ImportEscapes x \<Rightarrow> Escapes x
           | AttributeMissing \<Rightarrow>
               ExecutorDispatchError (py_repr (ep_module_name entry_point) @ '' has no attribute '' @
                 py_repr (ep_attribute_name entry_point))
           | AttributeEscapes x \<Rightarrow> Escapes x
           | NotCallable \<Rightarrow> ExecutorDispatchError ''the imported module attribute is not callable''
           | Entry f \<Rightarrow>
               (case f payload of
                  RaisesBase x \<Rightarrow> Escapes x
                | RaisesException e \<Rightarrow> PayloadDispatchError (text_string (format_payload_error_detail e))
                | Returns v \<Rightarrow>
                    (case strict v of
                       None \<Rightarrow> PayloadResultError ''the importable JSON entry point returned non-strict JSON''
                     | Some result \<Rightarrow> Result result))))"

section \<open>The in-process executor\<close>

text \<open>One reading of the cancel token and of the deadline flag.\<close>

type_synonym stop_reading = "bool \<times> bool"

definition stop_outcome :: "stop_reading \<Rightarrow> bool \<Rightarrow> ExecutionOutcome option" where
  "stop_outcome reading was_started =
     (if fst reading then Some (CancelledOutcome was_started)
      else if snd reading then Some (BudgetExceededOutcome BudgetAxis.WALL_TIME)
      else None)"

record Execution =
  ex_execution_id :: ExecutionId
  ex_started_at :: datetime
  ex_started_ns :: int
  ex_input_bytes :: int

type_synonym clock = "datetime \<times> int"

definition completed ::
  "clock \<Rightarrow> Execution \<Rightarrow> ExecutionOutcome \<Rightarrow> identity_document list \<Rightarrow> string option \<Rightarrow>
     (ExecutionOutcome \<Rightarrow> ExecutionAttribution) option \<Rightarrow> (py_exn, CompletedExecution) result" where
  "completed clock execution outcome protocol_outputs attribution_detail attribution_override =
     completed_execution (fst clock) (snd clock) (ex_execution_id execution)
       (InProcessRecordReceipt (ex_execution_id execution)) outcome protocol_outputs
       (ex_started_at execution) (ex_started_ns execution) (ex_input_bytes execution)
       attribution_detail attribution_override"

definition stopped ::
  "clock \<Rightarrow> Execution \<Rightarrow> stop_reading \<Rightarrow> bool \<Rightarrow> (py_exn, CompletedExecution) result option" where
  "stopped clock execution reading was_started =
     map_option (\<lambda>outcome. completed clock execution outcome [] None None)
       (stop_outcome reading was_started)"

text \<open>
  The body: \<open>before\<close> and \<open>after\<close> are the readings of the stop state around the call. A failed
  construction of the completion is an exception of the body.
\<close>

datatype body_end = BodyReturns CompletedExecution | BodyRaises escape

definition body_of :: "(py_exn, CompletedExecution) result \<Rightarrow> body_end" where
  "body_of r = (case r of Inr c \<Rightarrow> BodyReturns c | Inl _ \<Rightarrow> BodyRaises OtherEscape)"

definition run_body ::
  "clock \<Rightarrow> stop_reading \<Rightarrow> stop_reading \<Rightarrow> dispatch \<Rightarrow> Execution \<Rightarrow> body_end" where
  "run_body clock before after dispatched execution =
     (case stopped clock execution before False of
        Some r \<Rightarrow> body_of r
      | None \<Rightarrow>
          (case dispatched of
             ExecutorDispatchError m \<Rightarrow>
               body_of (completed clock execution (malformed_frame_outcome m) [] None
                 (Some executor_protocol_failure_attribution))
           | Escapes x \<Rightarrow> BodyRaises x
           | PayloadResultError m \<Rightarrow>
               body_of (case stopped clock execution after True of
                  Some r \<Rightarrow> r
                | None \<Rightarrow> completed clock execution (malformed_frame_outcome m) [] None None)
           | PayloadDispatchError m \<Rightarrow>
               body_of (case stopped clock execution after True of
                  Some r \<Rightarrow> r
                | None \<Rightarrow> completed clock execution (ExitedOutcome 1) [] (Some m) None)
           | Result v \<Rightarrow>
               body_of (case stopped clock execution after True of
                  Some r \<Rightarrow> r
                | None \<Rightarrow> completed clock execution (ExitedOutcome 0)
                    [\<lparr>doc_schema = ENVELOPE_SCHEMA, doc_schema_version = ENVELOPE_SCHEMA_VERSION,
                      doc_payload = v\<rparr>] None None)))"

text \<open>The handler around the body, with its own reading of the stop state and of the clocks.\<close>

definition run_attempt ::
  "clock \<Rightarrow> stop_reading \<Rightarrow> body_end \<Rightarrow> Execution \<Rightarrow> (py_exn, CompletedExecution) result" where
  "run_attempt clock handler body execution =
     (case body of
        BodyReturns c \<Rightarrow> Inr c
      | BodyRaises x \<Rightarrow>
          (case (if x \<noteq> KeyboardInterrupt then stopped clock execution handler True else None) of
             Some r \<Rightarrow> r
           | None \<Rightarrow>
               (case x of
                  SystemExit code \<Rightarrow>
                    completed clock execution (ExitedOutcome (case code of Some n \<Rightarrow> n | None \<Rightarrow> 1)) [] None None
                | _ \<Rightarrow> completed clock execution (ExitedOutcome 1) []
                    (Some ''the importable JSON entry point terminated'') None)))"

definition in_process_target ::
  "(identity_document \<Rightarrow> bytes) \<Rightarrow> ExecutionJob \<Rightarrow> (py_exn, ImportableEntryPoint \<times> identity_document) result" where
  "in_process_target canonical_identity job =
     bind_result (validate_declaration canonical_identity job) (\<lambda>_.
       case job_target job of
         InProcessImportableJsonTarget entry_point request \<Rightarrow> Inr (entry_point, request)
       | _ \<Rightarrow> Inl (ExecutorFailure
           ''the importable JSON executor accepts only in-process importable JSON targets''
           ExecutorFailureCode.IMPORTABLE_JSON_TARGET_MISMATCH))"

definition attempt ::
  "(uuid \<Rightarrow> bytes \<Rightarrow> uuid) \<Rightarrow> (identity_document \<Rightarrow> bytes) \<Rightarrow> clock \<Rightarrow> ExecutionJob \<Rightarrow> identity_document \<Rightarrow>
     Execution" where
  "attempt uuid5 canonical_identity start job request =
     \<lparr>ex_execution_id = \<lparr>eid_job_id = job_id job, eid_attempt_id = attempt_id_for_job uuid5 (job_id job)\<rparr>,
      ex_started_at = fst start, ex_started_ns = snd start,
      ex_input_bytes = int (length (request_transport_bytes canonical_identity request))\<rparr>"

definition interrupted_attempt ::
  "(uuid \<Rightarrow> bytes \<Rightarrow> uuid) \<Rightarrow> (identity_document \<Rightarrow> bytes) \<Rightarrow> clock \<Rightarrow> ExecutionJob \<Rightarrow> Execution" where
  "interrupted_attempt uuid5 canonical_identity start job =
     \<lparr>ex_execution_id = \<lparr>eid_job_id = job_id job, eid_attempt_id = attempt_id_for_job uuid5 (job_id job)\<rparr>,
      ex_started_at = fst start, ex_started_ns = snd start,
      ex_input_bytes = (case job_target job of
         InProcessImportableJsonTarget _ request \<Rightarrow>
           int (length (request_transport_bytes canonical_identity request))
       | _ \<Rightarrow> 0)\<rparr>"

text \<open>
  What the environment of one attempt decides: the clocks at its start, at the end of its body
  and in its handler, the three readings of the stop state, and the importable modules.
\<close>

record 'v surroundings =
  sg_start :: clock
  sg_body :: clock
  sg_handler :: clock
  sg_before :: stop_reading
  sg_after :: stop_reading
  sg_in_handler :: stop_reading
  sg_lookup :: "ImportableEntryPoint \<Rightarrow> 'v entry"

text \<open>The library functions an executor calls.\<close>

record 'v services =
  sv_uuid5 :: "uuid \<Rightarrow> bytes \<Rightarrow> uuid"
  sv_canonical_identity :: "identity_document \<Rightarrow> bytes"
  sv_repr :: "string \<Rightarrow> string"
  sv_strict_json :: "json \<Rightarrow> json option"
  sv_strict :: "'v \<Rightarrow> json option"

definition attempt_job ::
  "'v services \<Rightarrow> 'v surroundings \<Rightarrow> ExecutionJob \<Rightarrow> (py_exn, CompletedExecution) result" where
  "attempt_job sv sg job =
     bind_result (in_process_target (sv_canonical_identity sv) job) (\<lambda>(entry_point, request).
       let execution = attempt (sv_uuid5 sv) (sv_canonical_identity sv) (sg_start sg) job request;
           dispatched = invoke_importable_entry_point (sv_repr sv) (sv_strict_json sv) (sv_strict sv)
             (sg_lookup sg) entry_point request
       in run_attempt (sg_handler sg) (sg_in_handler sg)
            (run_body (sg_body sg) (sg_before sg) (sg_after sg) dispatched execution) execution)"

definition run_blocking ::
  "'v services \<Rightarrow> 'v surroundings \<Rightarrow> ExecutionJob \<Rightarrow> (py_exn, CompletedExecution) result" where
  "run_blocking sv sg job = attempt_job sv sg job"

text \<open>
  \<^verbatim>\<open>run\<close>: the awaiting task gets what the offloaded attempt returns or raises, unless it is
  interrupted first; then the completion is made from the facts the attempt has published,
  if it has started.
\<close>

definition run_interrupted ::
  "'v services \<Rightarrow> clock \<Rightarrow> clock \<Rightarrow> Execution option \<Rightarrow> ExecutionJob \<Rightarrow> (py_exn, CompletedExecution) result" where
  "run_interrupted sv start now handoff job =
     (let execution = (case handoff of
            Some execution \<Rightarrow> execution
          | None \<Rightarrow> interrupted_attempt (sv_uuid5 sv) (sv_canonical_identity sv) start job)
      in completed now execution (ExitedOutcome 1) []
           (Some ''the importable JSON entry point terminated'') None)"

definition run_many ::
  "int option \<Rightarrow> PoolCapacity option \<Rightarrow> ExecutionJob list \<Rightarrow> (py_exn, batch) result" where
  "run_many reported config jobs =
     bind_result (batch_capacity reported config AutoPoolCapacity) (\<lambda>n. run_batch_start n jobs)"

definition open_pool :: "PoolCapacity option \<Rightarrow> 'c ExecutionPool" where
  "open_pool config = ExecutionPool_new (case config of Some c \<Rightarrow> c | None \<Rightarrow> AutoPoolCapacity)"

section \<open>Completions\<close>

text \<open>The clock readings a completion needs: UTC, and neither clock stepped back since the start.\<close>

definition clock_ok :: "clock \<Rightarrow> clock \<Rightarrow> bool" where
  "clock_ok start now =
     (utcoffset (fst start) = Some 0 \<and> utcoffset (fst now) = Some 0 \<and>
      \<not> datetime_fields (fst now) < datetime_fields (fst start) \<and> snd start \<le> snd now)"

definition started :: "Execution \<Rightarrow> clock" where
  "started execution = (ex_started_at execution, ex_started_ns execution)"

lemma completed_Inr:
  "(\<exists>c. completed clock execution outcome outputs detail override = Inr c) \<longleftrightarrow>
     clock_ok (started execution) clock \<and> 0 \<le> ex_input_bytes execution \<and>
     protocol_output_count_matches outcome outputs"
  by (auto simp: completed_def completed_execution_def ExecutionMeasurements_new_def require_utc_def
      protocol_output_count_must_match_outcome_def CompletedExecution_new_def clock_ok_def started_def
      Let_def result_simps split: if_splits)

lemma completed_facts:
  assumes "completed clock execution outcome outputs detail override = Inr c"
  shows "res_execution_id (ce_result c) = ex_execution_id execution"
    and "ce_record_receipt c = InProcessRecordReceipt (ex_execution_id execution)"
    and "res_outcome (ce_result c) = outcome"
    and "res_protocol_outputs (ce_result c) = outputs"
    and "at_owner (res_attribution (ce_result c)) = at_owner
      (case override of Some f \<Rightarrow> if is_protocol_failed outcome then f outcome else attribute_outcome outcome
       | None \<Rightarrow> attribute_outcome outcome)"
  using assms
  by (auto simp: completed_def completed_execution_def ExecutionMeasurements_new_def
      protocol_output_count_must_match_outcome_def CompletedExecution_new_def Let_def result_simps
      split: if_splits option.splits)

lemma output_count_simps [simp]:
  "protocol_output_count_matches (malformed_frame_outcome m) []"
  "protocol_output_count_matches (ExitedOutcome n) outputs"
  "protocol_output_count_matches (CancelledOutcome b) outputs"
  "protocol_output_count_matches (BudgetExceededOutcome a) outputs"
  by (simp_all add: protocol_output_count_matches_def malformed_frame_outcome_def)

lemma completed_total:
  "clock_ok (started execution) clock \<Longrightarrow> 0 \<le> ex_input_bytes execution \<Longrightarrow>
     protocol_output_count_matches outcome outputs \<Longrightarrow>
     \<exists>c. completed clock execution outcome outputs detail override = Inr c"
  by (simp add: completed_Inr)

section \<open>What an attempt reports\<close>

definition stop_or :: "stop_reading \<Rightarrow> bool \<Rightarrow> ExecutionOutcome \<Rightarrow> ExecutionOutcome" where
  "stop_or reading was_started otherwise =
     (case stop_outcome reading was_started of Some stop \<Rightarrow> stop | None \<Rightarrow> otherwise)"

definition exit_code :: "escape \<Rightarrow> int" where
  "exit_code x = (case x of SystemExit (Some n) \<Rightarrow> n | _ \<Rightarrow> 1)"

text \<open>The outcome as a table over the stop readings and the end of the call.\<close>

definition verdict :: "stop_reading \<Rightarrow> stop_reading \<Rightarrow> stop_reading \<Rightarrow> dispatch \<Rightarrow> ExecutionOutcome" where
  "verdict before after handler dispatched =
     stop_or before False
       (case dispatched of
          ExecutorDispatchError m \<Rightarrow> malformed_frame_outcome m
        | PayloadResultError m \<Rightarrow> stop_or after True (malformed_frame_outcome m)
        | PayloadDispatchError m \<Rightarrow> stop_or after True (ExitedOutcome 1)
        | Result v \<Rightarrow> stop_or after True (ExitedOutcome 0)
        | Escapes x \<Rightarrow>
            if x = KeyboardInterrupt then ExitedOutcome 1
            else stop_or handler True (ExitedOutcome (exit_code x)))"

definition quiet :: "stop_reading \<Rightarrow> bool" where
  "quiet reading = (\<not> fst reading \<and> \<not> snd reading)"

definition result_outputs :: "stop_reading \<Rightarrow> stop_reading \<Rightarrow> dispatch \<Rightarrow> identity_document list" where
  "result_outputs before after dispatched =
     (case dispatched of
        Result v \<Rightarrow>
          if quiet before \<and> quiet after
          then [\<lparr>doc_schema = ENVELOPE_SCHEMA, doc_schema_version = ENVELOPE_SCHEMA_VERSION, doc_payload = v\<rparr>]
          else []
      | _ \<Rightarrow> [])"

definition charged :: "stop_reading \<Rightarrow> dispatch \<Rightarrow> ExecutionOutcome \<Rightarrow> FailureOwner" where
  "charged before dispatched outcome =
     (case dispatched of
        ExecutorDispatchError _ \<Rightarrow>
          if quiet before then FailureOwner.EXECUTOR else at_owner (attribute_outcome outcome)
      | _ \<Rightarrow> at_owner (attribute_outcome outcome))"

definition reports ::
  "Execution \<Rightarrow> ExecutionOutcome \<Rightarrow> identity_document list \<Rightarrow> FailureOwner \<Rightarrow> CompletedExecution \<Rightarrow> bool" where
  "reports execution outcome outputs owner c =
     (res_execution_id (ce_result c) = ex_execution_id execution \<and>
      ce_record_receipt c = InProcessRecordReceipt (ex_execution_id execution) \<and>
      res_outcome (ce_result c) = outcome \<and> res_protocol_outputs (ce_result c) = outputs \<and>
      at_owner (res_attribution (ce_result c)) = owner)"

lemma stop_outcome_None: "stop_outcome reading b = None \<longleftrightarrow> quiet reading"
  by (auto simp: stop_outcome_def quiet_def)

lemma stop_outcome_NoneD: "stop_outcome reading b = None \<Longrightarrow> quiet reading"
  by (simp add: stop_outcome_None)

lemma stop_outcome_SomeD: "stop_outcome reading b = Some outcome \<Longrightarrow> \<not> quiet reading"
  by (auto simp: stop_outcome_def quiet_def split: if_splits)

lemma stop_outcome_fits:
  "stop_outcome reading b = Some outcome \<Longrightarrow> protocol_output_count_matches outcome []"
  by (auto simp: stop_outcome_def split: if_splits)

lemma completed_reports:
  assumes "clock_ok (started execution) clock" and "0 \<le> ex_input_bytes execution"
    and "protocol_output_count_matches outcome outputs"
  shows "\<exists>c. completed clock execution outcome outputs detail override = Inr c \<and>
    reports execution outcome outputs (at_owner
      (case override of Some f \<Rightarrow> if is_protocol_failed outcome then f outcome else attribute_outcome outcome
       | None \<Rightarrow> attribute_outcome outcome)) c"
proof -
  obtain c where c: "completed clock execution outcome outputs detail override = Inr c"
    using completed_total [OF assms] by blast
  then show ?thesis using completed_facts [OF c] by (simp add: reports_def)
qed

lemma after_reports:
  assumes "clock_ok (started execution) clock" and "0 \<le> ex_input_bytes execution"
    and "protocol_output_count_matches outcome outputs"
  shows "\<exists>c. body_of (case stopped clock execution after True of Some r \<Rightarrow> r
      | None \<Rightarrow> completed clock execution outcome outputs detail None) = BodyReturns c \<and>
      reports execution (stop_or after True outcome) (if quiet after then outputs else [])
        (at_owner (attribute_outcome (stop_or after True outcome))) c"
proof (cases "stop_outcome after True")
  case None
  then have "quiet after" by (rule stop_outcome_NoneD)
  then show ?thesis
    using completed_reports [OF assms, of detail None] None
    by (auto simp: stopped_def stop_or_def body_of_def)
next
  case (Some stop)
  then have "\<not> quiet after" by (rule stop_outcome_SomeD)
  then show ?thesis
    using completed_reports [OF assms(1,2) stop_outcome_fits [OF Some], of None None] Some
    by (auto simp: stopped_def stop_or_def body_of_def)
qed

text \<open>The body of an attempt whose clocks have not been stepped back.\<close>

lemma run_body_reports:
  assumes "clock_ok (started execution) clock" and "0 \<le> ex_input_bytes execution"
    and "\<And>x. quiet before \<Longrightarrow> dispatched \<noteq> Escapes x"
  shows "\<exists>c. run_body clock before after dispatched execution = BodyReturns c \<and>
    reports execution (verdict before after handler dispatched) (result_outputs before after dispatched)
      (charged before dispatched (verdict before after handler dispatched)) c"
proof (cases "stop_outcome before False")
  case (Some outcome)
  then have "\<not> quiet before" by (rule stop_outcome_SomeD)
  then show ?thesis
    using completed_reports [OF assms(1,2) stop_outcome_fits [OF Some], of None None] Some
    by (auto simp: run_body_def stopped_def body_of_def verdict_def stop_or_def result_outputs_def
        charged_def split: dispatch.split)
next
  case None
  then have q: "quiet before" by (rule stop_outcome_NoneD)
  note C = completed_reports [OF assms(1,2)]
  have S: "stopped clock execution before False = None" "stop_or before False outcome = outcome" for outcome
    using None by (simp_all add: stopped_def stop_or_def)
  note S = S q run_body_def verdict_def result_outputs_def charged_def
  show ?thesis
  proof (cases dispatched)
    case (ExecutorDispatchError m)
    obtain c where c: "completed clock execution (malformed_frame_outcome m) [] None
        (Some executor_protocol_failure_attribution) = Inr c"
      "reports execution (malformed_frame_outcome m) [] FailureOwner.EXECUTOR c"
      using C [OF output_count_simps(1) [of m], of None "Some executor_protocol_failure_attribution"]
      by (auto simp: is_protocol_failed_def malformed_frame_outcome_def)
    then show ?thesis
      using None q ExecutorDispatchError
      by (auto simp: run_body_def stopped_def body_of_def verdict_def stop_or_def result_outputs_def charged_def)
  next
    case (Escapes x)
    then show ?thesis using assms(3) q by simp
  next
    case (PayloadResultError m)
    then show ?thesis
      using after_reports [OF assms(1,2) output_count_simps(1) [of m], where after = after and detail = None] by (simp add: S)
  next
    case (PayloadDispatchError m)
    then show ?thesis
      using after_reports [OF assms(1,2) output_count_simps(2) [of 1 "[]"], where after = after and detail = "Some m"] by (simp add: S)
  next
    case (Result v)
    then show ?thesis
      using after_reports [OF assms(1,2) output_count_simps(2) [of 0
        "[\<lparr>doc_schema = ENVELOPE_SCHEMA, doc_schema_version = ENVELOPE_SCHEMA_VERSION, doc_payload = v\<rparr>]"],
        where after = after and detail = None] by (simp add: S)
  qed
qed

lemma run_attempt_reports:
  assumes "clock_ok (started execution) body_clock" and "clock_ok (started execution) handler_clock"
    and "0 \<le> ex_input_bytes execution"
  shows "\<exists>c. run_attempt handler_clock handler (run_body body_clock before after dispatched execution) execution =
      Inr c \<and>
    reports execution (verdict before after handler dispatched) (result_outputs before after dispatched)
      (charged before dispatched (verdict before after handler dispatched)) c"
proof (cases "quiet before \<and> (\<exists>x. dispatched = Escapes x)")
  case False
  then have "\<And>x. quiet before \<Longrightarrow> dispatched \<noteq> Escapes x" by blast
  from run_body_reports [where before = before and after = after and handler = handler, OF assms(1,3) this]
  show ?thesis by (auto simp: run_attempt_def)
next
  case True
  then obtain x where x: "dispatched = Escapes x" and q: "stop_outcome before False = None"
    using stop_outcome_None by blast
  have body: "run_body body_clock before after (Escapes x) execution = BodyRaises x"
    using q by (simp add: run_body_def stopped_def)
  note C = completed_reports [OF assms(2,3)]
  have exits: "\<exists>c. completed handler_clock execution (ExitedOutcome n) [] detail None = Inr c \<and>
      reports execution (ExitedOutcome n) [] (at_owner (attribute_outcome (ExitedOutcome n))) c" for n detail
    using C [OF output_count_simps(2) [of n "[]"], of detail None] by simp
  show ?thesis
  proof (cases "if x = KeyboardInterrupt then None else stop_outcome handler True")
    case None
    then have "(if x \<noteq> KeyboardInterrupt then stopped handler_clock execution handler True else None) = None"
      by (auto simp: stopped_def)
    then have "\<exists>detail. run_attempt handler_clock handler (BodyRaises x) execution =
        completed handler_clock execution (ExitedOutcome (exit_code x)) [] detail None"
      by (auto simp: run_attempt_def exit_code_def split: escape.split option.split)
    moreover have "verdict before after handler (Escapes x) = ExitedOutcome (exit_code x)"
      using None by (auto simp: verdict_def stop_or_def q exit_code_def split: if_splits)
    ultimately show ?thesis
      using exits by (auto simp: body x result_outputs_def charged_def simp del: attribute_outcome.simps)
  next
    case (Some stop)
    then have s: "stop_outcome handler True = Some stop" "x \<noteq> KeyboardInterrupt" by (auto split: if_splits)
    show ?thesis
      using C [OF stop_outcome_fits [OF s(1)], of None None] s
      by (auto simp: body run_attempt_def stopped_def verdict_def stop_or_def q x
        result_outputs_def charged_def)
  qed
qed

section \<open>The executor contract\<close>

text \<open>
  What the scheduler and its clients rely on: \<open>returns job c\<close> is that the executor may return
  \<open>c\<close> for \<open>job\<close>, and a returned completion and its receipt carry the execution id of the job.
\<close>

locale executor =
  fixes returns :: "ExecutionJob \<Rightarrow> CompletedExecution \<Rightarrow> bool"
    and execution_id_of :: "ExecutionJob \<Rightarrow> ExecutionId"
  assumes carries_id: "returns job c \<Longrightarrow> res_execution_id (ce_result c) = execution_id_of job"
    and receipt_agrees: "returns job c \<Longrightarrow>
      receipt_execution_id (ce_record_receipt c) = res_execution_id (ce_result c)"
    and id_names_job: "eid_job_id (execution_id_of job) = job_id job"
begin

lemma matched_ids:
  assumes "matches returns jobs cs"
  shows "mset (map (\<lambda>c. res_execution_id (ce_result c)) cs) = mset (map execution_id_of jobs)"
proof -
  obtain js where js: "mset js = mset jobs" "list_all2 returns js cs"
    using assms by (auto simp: matches_def)
  from js(2) have "map (\<lambda>c. res_execution_id (ce_result c)) cs = map execution_id_of js"
    by (induction rule: list_all2_induct) (auto simp: carries_id)
  then show ?thesis using js(1) by (metis mset_map)
qed

lemma matched_receipts:
  assumes "matches returns jobs cs" and "c \<in> set cs"
  shows "\<exists>job\<in>set jobs. returns job c \<and>
    receipt_execution_id (ce_record_receipt c) = res_execution_id (ce_result c)"
proof -
  obtain js where "mset js = mset jobs" and two: "list_all2 returns js cs"
    using assms by (auto simp: matches_def)
  then have "set js = set jobs" by (metis set_mset_mset)
  moreover obtain i where "i < length cs" "c = cs ! i" using assms(2) by (metis in_set_conv_nth)
  ultimately obtain job where "job \<in> set jobs" "returns job c"
    using two by (metis list_all2_conv_all_nth nth_mem)
  then show ?thesis using receipt_agrees by blast
qed

lemma batch_returns_ids:
  assumes "batch_run returns n jobs es b" and "b_phase b = Done None" and "\<not> b_closed b"
  shows "mset (map (\<lambda>c. res_execution_id (ce_result c)) (b_yielded b)) = mset (map execution_id_of jobs)"
  using batch_run_inv [OF assms(1)] assms(2,3)
  by (intro matched_ids) (auto simp: batch_inv_def batch_inv_at_def)

lemma batch_names_jobs:
  assumes "batch_run returns n jobs es b" and "b_phase b = Done None" and "\<not> b_closed b"
  shows "mset (map (\<lambda>c. eid_job_id (res_execution_id (ce_result c))) (b_yielded b)) = mset (map job_id jobs)"
proof -
  have "mset (map eid_job_id (map (\<lambda>c. res_execution_id (ce_result c)) (b_yielded b))) =
      mset (map eid_job_id (map execution_id_of jobs))"
    using batch_returns_ids [OF assms] by (metis mset_map)
  then show ?thesis by (simp add: o_def id_names_job)
qed

end

definition job_execution_id :: "(uuid \<Rightarrow> bytes \<Rightarrow> uuid) \<Rightarrow> ExecutionJob \<Rightarrow> ExecutionId" where
  "job_execution_id uuid5 job =
     \<lparr>eid_job_id = job_id job, eid_attempt_id = attempt_id_for_job uuid5 (job_id job)\<rparr>"

definition in_process_returns :: "'v services \<Rightarrow> ExecutionJob \<Rightarrow> CompletedExecution \<Rightarrow> bool" where
  "in_process_returns sv job c = (\<exists>sg. run_blocking sv sg job = Inr c)"

lemma completed_ids:
  "completed clock execution outcome outputs detail override = Inr c \<Longrightarrow>
     res_execution_id (ce_result c) = ex_execution_id execution \<and>
     ce_record_receipt c = InProcessRecordReceipt (ex_execution_id execution)"
  by (simp add: completed_facts(1,2))

lemma stopped_ids:
  "stopped clock execution reading b = Some (Inr c) \<Longrightarrow>
     res_execution_id (ce_result c) = ex_execution_id execution \<and>
     ce_record_receipt c = InProcessRecordReceipt (ex_execution_id execution)"
  by (auto simp: stopped_def completed_ids)

lemma run_body_ids:
  "run_body clock before after dispatched execution = BodyReturns c \<Longrightarrow>
     res_execution_id (ce_result c) = ex_execution_id execution \<and>
     ce_record_receipt c = InProcessRecordReceipt (ex_execution_id execution)"
  by (auto simp: run_body_def body_of_def dest: stopped_ids completed_ids
      split: option.splits dispatch.splits sum.splits)

lemma run_attempt_ids:
  assumes "run_attempt clock handler body execution = Inr c"
    and "\<And>c. body = BodyReturns c \<Longrightarrow> res_execution_id (ce_result c) = ex_execution_id execution \<and>
      ce_record_receipt c = InProcessRecordReceipt (ex_execution_id execution)"
  shows "res_execution_id (ce_result c) = ex_execution_id execution \<and>
     ce_record_receipt c = InProcessRecordReceipt (ex_execution_id execution)"
  using assms
  by (auto simp: run_attempt_def dest: stopped_ids completed_ids
      split: body_end.splits option.splits escape.splits if_splits)

lemma in_process_ids:
  assumes "run_blocking sv sg job = Inr c"
  shows "res_execution_id (ce_result c) = job_execution_id (sv_uuid5 sv) job \<and>
    ce_record_receipt c = InProcessRecordReceipt (job_execution_id (sv_uuid5 sv) job)"
proof -
  obtain ep request where t: "in_process_target (sv_canonical_identity sv) job = Inr (ep, request)"
    using assms by (auto simp: run_blocking_def attempt_job_def result_simps)
  let ?x = "attempt (sv_uuid5 sv) (sv_canonical_identity sv) (sg_start sg) job request"
  have "ex_execution_id ?x = job_execution_id (sv_uuid5 sv) job"
    by (simp add: attempt_def job_execution_id_def)
  moreover have "res_execution_id (ce_result c) = ex_execution_id ?x \<and>
      ce_record_receipt c = InProcessRecordReceipt (ex_execution_id ?x)"
    by (rule run_attempt_ids [OF assms [unfolded run_blocking_def attempt_job_def t Let_def
        bind_result_Inr prod.case]]) (rule run_body_ids)
  ultimately show ?thesis by simp
qed

interpretation in_process: executor "in_process_returns sv" "job_execution_id (sv_uuid5 sv)"
  for sv :: "'v services"
  by unfold_locales (auto simp: in_process_returns_def job_execution_id_def dest: in_process_ids)

lemma in_process_run_reports:
  assumes "in_process_target (sv_canonical_identity sv) job = Inr (ep, request)"
    and "clock_ok (sg_start sg) (sg_body sg)" and "clock_ok (sg_start sg) (sg_handler sg)"
    and "d = invoke_importable_entry_point (sv_repr sv) (sv_strict_json sv) (sv_strict sv) (sg_lookup sg) ep request"
    and "outcome = verdict (sg_before sg) (sg_after sg) (sg_in_handler sg) d"
  shows "\<exists>c. run_blocking sv sg job = Inr c \<and> res_outcome (ce_result c) = outcome \<and>
    res_protocol_outputs (ce_result c) = result_outputs (sg_before sg) (sg_after sg) d \<and>
    at_owner (res_attribution (ce_result c)) = charged (sg_before sg) d outcome"
proof -
  let ?x = "attempt (sv_uuid5 sv) (sv_canonical_identity sv) (sg_start sg) job request"
  have "started ?x = sg_start sg" "0 \<le> ex_input_bytes ?x"
    by (simp_all add: attempt_def started_def)
  then show ?thesis
    using run_attempt_reports [of ?x "sg_body sg" "sg_handler sg" "sg_in_handler sg" "sg_before sg" "sg_after sg" d]
      assms by (auto simp: run_blocking_def attempt_job_def reports_def)
qed

section \<open>Built jobs\<close>

lemma built_in_process_job:
  assumes "build_in_process_importable_json_job strict_json j ep request budgets = Inr job"
  obtains payload where "strict_json request = Some payload"
    and "job_target job = InProcessImportableJsonTarget ep
      \<lparr>doc_schema = ENVELOPE_SCHEMA, doc_schema_version = ENVELOPE_SCHEMA_VERSION, doc_payload = payload\<rparr>"
    and "job_id job = j"
  using assms
  by (auto simp: build_in_process_importable_json_job_def envelope_def lift_build_def result_simps
      split: option.splits)

lemma invoke_result_iff:
  "invoke_importable_entry_point py_repr strict_json strict lookup ep request = Result v \<longleftrightarrow>
     is_importable_json_envelope request \<and>
     (\<exists>payload f r. strict_json (doc_payload request) = Some payload \<and> lookup ep = Entry f \<and>
        f payload = Returns r \<and> strict r = Some v)"
  by (auto simp: invoke_importable_entry_point_def split: option.splits entry.splits call.splits)

lemma verdict_zero_outputs:
  assumes "verdict before after handler d = ExitedOutcome 0"
  shows "result_outputs before after d = (case d of Result v \<Rightarrow>
      [\<lparr>doc_schema = ENVELOPE_SCHEMA, doc_schema_version = ENVELOPE_SCHEMA_VERSION, doc_payload = v\<rparr>]
    | _ \<Rightarrow> [])"
  using assms
  by (auto simp: verdict_def stop_or_def result_outputs_def stop_outcome_def quiet_def
      split: dispatch.splits if_splits option.splits)

lemma parse_in_process:
  assumes "res_outcome (ce_result c) = verdict before after handler d"
    and "res_protocol_outputs (ce_result c) = result_outputs before after d"
    and "\<And>v. d = Result v \<Longrightarrow> strict_json v = Some v"
  shows "parse_importable_json_result strict_json c = Inr v \<longleftrightarrow> d = Result v \<and> quiet before \<and> quiet after"
proof (cases "d = Result v \<and> quiet before \<and> quiet after")
  case True
  then have "verdict before after handler d = ExitedOutcome 0"
    by (simp add: verdict_def stop_or_def stop_outcome_def quiet_def)
  then show ?thesis
    using True assms by (simp add: parse_importable_json_result_def result_outputs_def
        is_importable_json_envelope_def)
next
  case False
  have "parse_importable_json_result strict_json c \<noteq> Inr v"
  proof (cases "verdict before after handler d = ExitedOutcome 0")
    case True
    then have "\<exists>w. d = Result w \<Longrightarrow> quiet before \<and> quiet after"
      by (auto simp: verdict_def stop_or_def stop_outcome_def quiet_def split: if_splits)
    then show ?thesis
      using False True assms by (auto simp: parse_importable_json_result_def verdict_zero_outputs [OF True]
        is_importable_json_envelope_def split: dispatch.splits)
  qed (simp add: parse_importable_json_result_def assms(1))
  with False show ?thesis by blast
qed

text \<open>A sample environment: one module whose entry point returns its payload.\<close>

definition sample_services :: "json services" where
  "sample_services = \<lparr>sv_uuid5 = (\<lambda>_ _. 7), sv_canonical_identity = (\<lambda>_. []), sv_repr = id,
     sv_strict_json = Some, sv_strict = Some\<rparr>"

definition sample_surroundings :: "datetime \<Rightarrow> json surroundings" where
  "sample_surroundings finished = \<lparr>sg_start = (sample_time, 0), sg_body = (finished, 5),
     sg_handler = (finished, 6), sg_before = (False, False), sg_after = (False, False),
     sg_in_handler = (False, False), sg_lookup = (\<lambda>_. Entry Returns)\<rparr>"

definition sample_entry_point :: ImportableEntryPoint where
  "sample_entry_point = \<lparr>ep_module_name = ''m'', ep_attribute_name = ''f''\<rparr>"

definition sample_in_process_job :: ExecutionJob where
  "sample_in_process_job = \<lparr>job_id = 1, job_target = InProcessImportableJsonTarget sample_entry_point
       \<lparr>doc_schema = ENVELOPE_SCHEMA, doc_schema_version = ENVELOPE_SCHEMA_VERSION, doc_payload = JNull\<rparr>,
     job_env = \<lparr>eg_kind = EnvGrantKind.NONE, eg_variables = [], eg_excluded_var_names = []\<rparr>,
     job_budgets = Budgets_unbudgeted, job_workspace = WorkingDirectoryGrant_scratch\<rparr>"

lemma sample_build:
  "build_in_process_importable_json_job Some 1 sample_entry_point JNull None = Inr sample_in_process_job"
  by (simp add: build_in_process_importable_json_job_def envelope_def lift_build_def EnvGrant_none_def
      EnvGrant_post_init_def sample_in_process_job_def)

lemma sample_in_process_admitted:
  "validate_declaration (\<lambda>_. []) sample_in_process_job = Inr ()"
  by (simp add: validate_declaration_def sample_in_process_job_def validate_input_budget_def
      validate_working_directory_grant_def WorkingDirectoryGrant_scratch_def Budgets_unbudgeted_def)

lemmas sample_env_simps = sample_services_def sample_surroundings_def clock_ok_def sample_time_def
  datetime_fields_def

lemma sample_target:
  "in_process_target (sv_canonical_identity sample_services) sample_in_process_job = Inr (sample_entry_point,
     \<lparr>doc_schema = ENVELOPE_SCHEMA, doc_schema_version = ENVELOPE_SCHEMA_VERSION, doc_payload = JNull\<rparr>)"
  unfolding in_process_target_def sample_services_def services.simps sample_in_process_admitted
  by (simp add: sample_in_process_job_def)

lemma sample_clocks:
  "clock_ok (sg_start (sample_surroundings sample_time)) (sg_body (sample_surroundings sample_time))"
  "clock_ok (sg_start (sample_surroundings sample_time)) (sg_handler (sample_surroundings sample_time))"
  by (simp_all add: sample_env_simps)

lemma charged_iff:
  "charged before d (verdict before after handler d) = FailureOwner.EXECUTOR \<longleftrightarrow>
     quiet before \<and> (\<exists>m. d = ExecutorDispatchError m) \<or>
     verdict before after handler d = BudgetExceededOutcome BudgetAxis.WALL_TIME"
  by (cases d) (auto simp: charged_def verdict_def stop_or_def stop_outcome_def quiet_def
      malformed_frame_outcome_def)

lemma completed_stepped_back:
  "\<not> clock_ok (started execution) clock \<Longrightarrow> completed clock execution outcome outputs detail override \<noteq> Inr c"
  using completed_Inr by blast

lemma stopped_stepped_back:
  "\<not> clock_ok (started execution) clock \<Longrightarrow> stopped clock execution reading b \<noteq> Some (Inr c)"
  by (auto simp: stopped_def completed_stepped_back)

lemma run_attempt_stepped_back:
  assumes "datetime_fields (fst body_clock) < datetime_fields (fst (started execution))"
    and "datetime_fields (fst handler_clock) < datetime_fields (fst (started execution))"
  shows "run_attempt handler_clock handler (run_body body_clock before after dispatched execution) execution
    \<noteq> Inr c"
proof -
  have no: "\<not> clock_ok (started execution) body_clock" "\<not> clock_ok (started execution) handler_clock"
    using assms by (simp_all add: clock_ok_def)
  have never: "(completed clock execution outcome outputs detail override = Inr c) = False"
    "(stopped clock execution reading b = Some (Inr c)) = False"
    if "clock = body_clock \<or> clock = handler_clock" for clock outcome outputs detail override reading b c
    using no that completed_stepped_back stopped_stepped_back by blast+
  have body: "(run_body body_clock before after dispatched execution = BodyReturns c) = False" for c
    by (auto simp: never run_body_def body_of_def split: option.splits dispatch.splits sum.splits)
  then show ?thesis
    by (auto simp: never run_attempt_def split: body_end.splits option.splits escape.splits if_splits)
qed

section \<open>Properties\<close>

text \<open>
  C25: an importable JSON call end to end. Let strict validation be idempotent and accept what
  it returns. A job built for an in-process call and admitted by the declaration gate runs to a
  completion whenever the clocks are not stepped back, and parsing that completion gives a
  value exactly when no stop was seen around the call and the entry point, called with the
  validated request, returned a value whose strict form is that value.
\<close>

theorem importable_json_end_to_end:
  assumes built: "build_in_process_importable_json_job (sv_strict_json sv) j ep request budgets = Inr job"
    and admitted: "validate_declaration (sv_canonical_identity sv) job = Inr ()"
    and clocks: "clock_ok (sg_start sg) (sg_body sg)" "clock_ok (sg_start sg) (sg_handler sg)"
    and idempotent: "\<And>v w. sv_strict_json sv v = Some w \<Longrightarrow> sv_strict_json sv w = Some w"
    and strict: "\<And>r v. sv_strict sv r = Some v \<Longrightarrow> sv_strict_json sv v = Some v"
  shows "\<exists>c. run_blocking sv sg job = Inr c \<and>
    (\<forall>v. parse_importable_json_result (sv_strict_json sv) c = Inr v \<longleftrightarrow>
       quiet (sg_before sg) \<and> quiet (sg_after sg) \<and>
       (\<exists>payload f r. sv_strict_json sv request = Some payload \<and> sg_lookup sg ep = Entry f \<and>
          f payload = Returns r \<and> sv_strict sv r = Some v))"
proof -
  obtain payload where payload: "sv_strict_json sv request = Some payload"
    and target: "job_target job = InProcessImportableJsonTarget ep
      \<lparr>doc_schema = ENVELOPE_SCHEMA, doc_schema_version = ENVELOPE_SCHEMA_VERSION, doc_payload = payload\<rparr>"
    by (rule built_in_process_job [OF built])
  let ?request = "\<lparr>doc_schema = ENVELOPE_SCHEMA, doc_schema_version = ENVELOPE_SCHEMA_VERSION, doc_payload = payload\<rparr>"
  define d where "d = invoke_importable_entry_point (sv_repr sv) (sv_strict_json sv) (sv_strict sv)
    (sg_lookup sg) ep ?request"
  have "in_process_target (sv_canonical_identity sv) job = Inr (ep, ?request)"
    using admitted target by (simp add: in_process_target_def)
  from in_process_run_reports [OF this clocks d_def refl] obtain c where c: "run_blocking sv sg job = Inr c"
    "res_outcome (ce_result c) = verdict (sg_before sg) (sg_after sg) (sg_in_handler sg) d"
    "res_protocol_outputs (ce_result c) = result_outputs (sg_before sg) (sg_after sg) d" by blast
  have d: "d = Result v \<longleftrightarrow> (\<exists>f r. sg_lookup sg ep = Entry f \<and> f payload = Returns r \<and>
      sv_strict sv r = Some v)" for v
    using idempotent [OF payload] unfolding d_def invoke_result_iff
    by (simp add: is_importable_json_envelope_def)
  then have "\<And>v. d = Result v \<Longrightarrow> sv_strict_json sv v = Some v" using strict by blast
  from parse_in_process [OF c(2,3) this] show ?thesis
    using c(1) d payload by auto
qed

theorem importable_json_end_to_end_witness:
  "\<exists>c. run_blocking sample_services (sample_surroundings sample_time) sample_in_process_job = Inr c \<and>
     parse_importable_json_result Some c = Inr JNull"
  using importable_json_end_to_end [of sample_services 1 sample_entry_point JNull None sample_in_process_job
      "sample_surroundings sample_time"] sample_build sample_in_process_admitted
  by (auto simp: sample_env_simps quiet_def)

text \<open>
  A batch of in-process jobs. Whatever the modules do, whatever the clocks and stops are,
  and under any interleaving, a batch that ends without an exception and was not closed early
  has yielded one completion per job, with the job's id and the attempt id derived from it,
  each under an in-process receipt of the same execution.
\<close>

theorem in_process_run_many:
  assumes "run_many reported config jobs = Inr b0"
    and "trace (batch_step (in_process_returns sv)) b0 es b"
    and "b_phase b = Done None" and "\<not> b_closed b"
  shows "mset (map (\<lambda>c. res_execution_id (ce_result c)) (b_yielded b)) =
      mset (map (job_execution_id (sv_uuid5 sv)) jobs) \<and>
    mset (map (\<lambda>c. eid_job_id (res_execution_id (ce_result c))) (b_yielded b)) = mset (map job_id jobs) \<and>
    (\<forall>c\<in>set (b_yielded b). ce_record_receipt c = InProcessRecordReceipt (res_execution_id (ce_result c)))"
proof -
  obtain n where run: "batch_run (in_process_returns sv) n jobs es b"
    using assms(1,2) by (auto simp: run_many_def batch_run_def result_simps)
  have "matches (in_process_returns sv) jobs (b_yielded b)"
    using batch_run_inv [OF run] assms(3,4) by (auto simp: batch_inv_def batch_inv_at_def)
  then have "ce_record_receipt c = InProcessRecordReceipt (res_execution_id (ce_result c))"
    if "c \<in> set (b_yielded b)" for c
    using in_process.matched_receipts [OF _ that] in_process_ids by (fastforce simp: in_process_returns_def)
  then show ?thesis
    using in_process.batch_returns_ids [OF run assms(3,4)] in_process.batch_names_jobs [OF run assms(3,4)]
    by simp
qed

theorem in_process_run_many_witness:
  "\<exists>c. run_blocking sample_services (sample_surroundings sample_time) sample_in_process_job = Inr c \<and>
     eid_job_id (res_execution_id (ce_result c)) = 1 \<and>
     ce_record_receipt c = InProcessRecordReceipt (res_execution_id (ce_result c))"
proof -
  obtain c where c: "run_blocking sample_services (sample_surroundings sample_time) sample_in_process_job = Inr c"
    using in_process_run_reports [OF sample_target sample_clocks refl refl] by blast
  then have "in_process_returns sample_services sample_in_process_job c" by (auto simp: in_process_returns_def)
  from sample_batch_run [of "in_process_returns sample_services", OF this] obtain es where
    "batch_run (in_process_returns sample_services) 1 [sample_in_process_job] es
      (sample_batch sample_in_process_job ((sample_drained True Exited)\<lparr>workers := []\<rparr>) True [c] (Done None))"
    by blast
  then obtain b0 where b0: "run_batch_start 1 [sample_in_process_job] = Inr b0"
    "trace (batch_step (in_process_returns sample_services)) b0 es
      (sample_batch sample_in_process_job ((sample_drained True Exited)\<lparr>workers := []\<rparr>) True [c] (Done None))"
    by (auto simp: batch_run_def)
  have "run_many None (Some (FixedPoolCapacity 1)) [sample_in_process_job] = Inr b0"
    using b0(1) by (simp add: run_many_def batch_capacity_def resolve_pool_capacity_def
        EffectivePoolCapacity_new_def usable_cpu_count_def Let_def)
  from in_process_run_many [OF this b0(2)] c show ?thesis
    by (auto simp: sample_batch_def sample_in_process_job_def)
qed

text \<open>
  One attempt of an admitted in-process job whose clocks are not stepped back. It returns a
  completion whatever the module does. A cancel seen before the call outranks an expired
  deadline and both outrank the call, so nothing of the module shows; the executor is charged
  exactly for a request or an entry point that could not be called and for an exceeded
  deadline; and outputs are reported only with a clean exit.
\<close>

theorem in_process_attempt:
  assumes "in_process_target (sv_canonical_identity sv) job = Inr (ep, request)"
    and "clock_ok (sg_start sg) (sg_body sg)" and "clock_ok (sg_start sg) (sg_handler sg)"
    and "d = invoke_importable_entry_point (sv_repr sv) (sv_strict_json sv) (sv_strict sv) (sg_lookup sg) ep request"
  shows "\<exists>c. run_blocking sv sg job = Inr c \<and>
    (fst (sg_before sg) \<longrightarrow> res_outcome (ce_result c) = CancelledOutcome False) \<and>
    (sg_before sg = (False, True) \<longrightarrow> res_outcome (ce_result c) = BudgetExceededOutcome BudgetAxis.WALL_TIME) \<and>
    (at_owner (res_attribution (ce_result c)) = FailureOwner.EXECUTOR \<longleftrightarrow>
       quiet (sg_before sg) \<and> (\<exists>m. d = ExecutorDispatchError m) \<or>
       res_outcome (ce_result c) = BudgetExceededOutcome BudgetAxis.WALL_TIME) \<and>
    (res_protocol_outputs (ce_result c) \<noteq> [] \<longrightarrow> res_outcome (ce_result c) = ExitedOutcome 0)"
proof -
  let ?o = "verdict (sg_before sg) (sg_after sg) (sg_in_handler sg) d"
  obtain c where c: "run_blocking sv sg job = Inr c" "res_outcome (ce_result c) = ?o"
    "res_protocol_outputs (ce_result c) = result_outputs (sg_before sg) (sg_after sg) d"
    "at_owner (res_attribution (ce_result c)) = charged (sg_before sg) d ?o"
    using in_process_run_reports [OF assms refl] by blast
  have "fst (sg_before sg) \<Longrightarrow> ?o = CancelledOutcome False"
    and "sg_before sg = (False, True) \<Longrightarrow> ?o = BudgetExceededOutcome BudgetAxis.WALL_TIME"
    by (simp_all add: verdict_def stop_or_def stop_outcome_def)
  moreover have "charged (sg_before sg) d ?o = FailureOwner.EXECUTOR \<longleftrightarrow>
      quiet (sg_before sg) \<and> (\<exists>m. d = ExecutorDispatchError m) \<or> ?o = BudgetExceededOutcome BudgetAxis.WALL_TIME"
    by (rule charged_iff)
  moreover have "result_outputs (sg_before sg) (sg_after sg) d \<noteq> [] \<Longrightarrow> ?o = ExitedOutcome 0"
    by (auto simp: verdict_def stop_or_def stop_outcome_def quiet_def result_outputs_def
        split: dispatch.splits if_splits)
  ultimately show ?thesis using c by auto
qed

theorem in_process_attempt_witness:
  "\<exists>c. run_blocking sample_services ((sample_surroundings sample_time)\<lparr>sg_before := (True, True)\<rparr>)
       sample_in_process_job = Inr c \<and> res_outcome (ce_result c) = CancelledOutcome False"
  using in_process_attempt [OF sample_target, of "(sample_surroundings sample_time)\<lparr>sg_before := (True, True)\<rparr>",
      OF _ _ refl] sample_clocks by auto

text \<open>
  C26: a stepped-back wall clock breaks the pool. If the wall clock reads an earlier time in the
  body and in the handler of an attempt than at its start, the completion cannot be built and
  its failure leaves \<^verbatim>\<open>run_blocking\<close>, whatever the entry point did; the worker of an unbroken
  scheduler that ran it then breaks the scheduler, dropping every other queued job.
\<close>

theorem stepped_back_clock_breaks:
  assumes "in_process_target (sv_canonical_identity sv) (ad_job a) = Inr (ep, request)"
    and "datetime_fields (fst (sg_body sg)) < datetime_fields (fst (sg_start sg))"
    and "datetime_fields (fst (sg_handler sg)) < datetime_fields (fst (sg_start sg))"
    and "broken s = None"
  shows "\<exists>e. run_blocking sv sg (ad_job a) = Inl e \<and>
    broken (run_one a (run_blocking sv sg (ad_job a)) s) = Some e \<and>
    pending (run_one a (run_blocking sv sg (ad_job a)) s) = []"
proof -
  let ?x = "attempt (sv_uuid5 sv) (sv_canonical_identity sv) (sg_start sg) (ad_job a) request"
  have x: "started ?x = sg_start sg" by (simp add: attempt_def started_def)
  have "run_blocking sv sg (ad_job a) \<noteq> Inr c" for c
    using run_attempt_stepped_back [where execution = ?x and body_clock = "sg_body sg" and
        handler_clock = "sg_handler sg"] assms(1-3) x
    by (simp add: run_blocking_def attempt_job_def Let_def)
  then obtain e where e: "run_blocking sv sg (ad_job a) = Inl e"
    by (cases "run_blocking sv sg (ad_job a)") auto
  then show ?thesis
    using assms(4) by (simp add: run_one_def finish_def break_scheduler_def Let_def)
qed

theorem stepped_back_clock_breaks_witness:
  "\<exists>e. broken (run_one \<lparr>ad_ticket = 0, ad_job = sample_in_process_job, ad_context = ()\<rparr>
      (run_blocking sample_services (sample_surroundings (sample_time\<lparr>year := 2023\<rparr>)) sample_in_process_job)
      (sample_state [] [] [Waiting])) = Some e"
proof -
  let ?sg = "sample_surroundings (sample_time\<lparr>year := 2023\<rparr>)"
  have "datetime_fields (fst (sg_body ?sg)) < datetime_fields (fst (sg_start ?sg))"
    "datetime_fields (fst (sg_handler ?sg)) < datetime_fields (fst (sg_start ?sg))"
    by (simp_all add: sample_env_simps)
  from stepped_back_clock_breaks [of sample_services "one_admitted sample_in_process_job", simplified,
      OF sample_target this, of "sample_state [] [] [Waiting]"] show ?thesis
    by (auto simp: sample_state_def)
qed

end
