(* ===== verification/Worker.thy ===== *)
theory Worker
  imports ImportableJson "HOL-Library.Countable"
begin

text \<open>
  The worker process of the worker pool, \<^verbatim>\<open>execution/worker_pool_worker.py\<close>, and the parent's
  reading of its result frames in \<^verbatim>\<open>execution/worker_pool.py\<close>. The worker imports nothing of the
  package, so the constants and the error formatter are declared again, as in the source.
  \<open>wk_loads\<close> stands for decoding a frame: UTF-8, \<^verbatim>\<open>json.loads\<close> and
  \<^verbatim>\<open>dr_serialize.validate_identity_document\<close>; \<open>wk_canonical\<close> for
  \<^verbatim>\<open>canonical_identity_json_bytes\<close>; a raised exception is its text.
\<close>

section \<open>Constants\<close>

definition WORKER_ENVELOPE_SCHEMA :: string where
  "WORKER_ENVELOPE_SCHEMA = ''dr_exec.importable_json''"

definition WORKER_ENVELOPE_SCHEMA_VERSION :: int where
  "WORKER_ENVELOPE_SCHEMA_VERSION = 1"

definition WORKER_FRAME_TERMINATOR :: byte where
  "WORKER_FRAME_TERMINATOR = 10"

definition STATUS_KEY :: string where "STATUS_KEY = ''status''"
definition DETAIL_KEY :: string where "DETAIL_KEY = ''detail''"
definition RESULT_KEY :: string where "RESULT_KEY = ''result''"

datatype WorkerFrameStatus = OK | PAYLOAD_RAISED | PAYLOAD_RESULT_INVALID | EXECUTOR_REJECTED

fun WorkerFrameStatus_value :: "WorkerFrameStatus \<Rightarrow> string" where
  "WorkerFrameStatus_value OK = ''ok''"
| "WorkerFrameStatus_value PAYLOAD_RAISED = ''payload_raised''"
| "WorkerFrameStatus_value PAYLOAD_RESULT_INVALID = ''payload_result_invalid''"
| "WorkerFrameStatus_value EXECUTOR_REJECTED = ''executor_rejected''"

definition WorkerFrameStatus_members :: "WorkerFrameStatus list" where
  "WorkerFrameStatus_members = [OK, PAYLOAD_RAISED, PAYLOAD_RESULT_INVALID, EXECUTOR_REJECTED]"

interpretation worker_frame_status: str_enum WorkerFrameStatus_value WorkerFrameStatus_members
proof
  show "x \<in> set WorkerFrameStatus_members" for x
    by (cases x) (simp_all add: WorkerFrameStatus_members_def)
qed (simp add: WorkerFrameStatus_members_def)

definition READY_FRAME :: bytes where
  "READY_FRAME = ascii_bytes ''ready'' @ [WORKER_FRAME_TERMINATOR]"

definition STARTUP_IMPORT_FAILED_EXIT_CODE :: int where
  "STARTUP_IMPORT_FAILED_EXIT_CODE = 3"

definition ORPHANED_WORKER_EXIT_CODE :: int where
  "ORPHANED_WORKER_EXIT_CODE = 4"

section \<open>The worker's copy of the error formatter\<close>

definition WORKER_DETAIL_MAX_BYTES :: nat where
  "WORKER_DETAIL_MAX_BYTES = 8192"

definition WORKER_DETAIL_TRUNCATION_MARKER :: string where
  "WORKER_DETAIL_TRUNCATION_MARKER = ''... [truncated]''"

definition WORKER_RAISED_DETAIL_PREFIX :: string where
  "WORKER_RAISED_DETAIL_PREFIX = ''the importable JSON entry point raised''"

definition WORKER_UNPRINTABLE_PLACEHOLDER :: string where
  "WORKER_UNPRINTABLE_PLACEHOLDER = ''<unprintable>''"

definition WORKER_TRACEBACK_OMITTED_MARKER :: string where
  "WORKER_TRACEBACK_OMITTED_MARKER = ''<traceback unavailable>''"

definition worker_exact_str :: "py_value \<Rightarrow> code_points" where
  "worker_exact_str v =
     (case v of
        IsStr (ExactStr t) \<Rightarrow> t
      | IsStr (StrSubclass t) \<Rightarrow> t
      | NotStr (Some (ExactStr t)) \<Rightarrow> t
      | NotStr _ \<Rightarrow> lit WORKER_UNPRINTABLE_PLACEHOLDER)"

definition worker_safe_type_names :: "payload_error \<Rightarrow> code_points \<times> code_points" where
  "worker_safe_type_names e =
     (let placeholder = lit WORKER_UNPRINTABLE_PLACEHOLDER
      in case pe_type_names e of
           None \<Rightarrow> (placeholder, placeholder)
         | Some (module, qualified) \<Rightarrow>
             (if \<not> is_str module \<or> \<not> is_str qualified then (placeholder, placeholder)
              else (worker_exact_str module, worker_exact_str qualified)))"

definition worker_unprintable_message :: "payload_error \<Rightarrow> payload_error \<Rightarrow> code_points" where
  "worker_unprintable_message e failure =
     (let raised = snd (worker_safe_type_names e); by_name = snd (worker_safe_type_names failure);
          placeholder = lit WORKER_UNPRINTABLE_PLACEHOLDER
      in if placeholder = raised \<or> placeholder = by_name then placeholder
         else lit ''<unprintable '' @ raised @ lit '': __str__ raised '' @ by_name @ lit ''>'')"

definition worker_safe_message :: "payload_error \<Rightarrow> code_points" where
  "worker_safe_message e =
     (case pe_str e of
        Inl failure \<Rightarrow> worker_unprintable_message e failure
      | Inr message \<Rightarrow> worker_exact_str (IsStr message))"

definition worker_safe_traceback_lines :: "payload_error \<Rightarrow> code_points list" where
  "worker_safe_traceback_lines e =
     (case pe_traceback e of
        None \<Rightarrow> [lit WORKER_TRACEBACK_OMITTED_MARKER @ newline]
      | Some lines \<Rightarrow> map worker_exact_str lines)"

definition worker_truncate_utf8 :: "code_points \<Rightarrow> code_points" where
  "worker_truncate_utf8 text =
     (let encoded = encode_backslashreplace text
      in if length encoded \<le> WORKER_DETAIL_MAX_BYTES then decode_replace encoded
         else let marker = lit WORKER_DETAIL_TRUNCATION_MARKER;
                  budget = WORKER_DETAIL_MAX_BYTES - length (encode_backslashreplace marker);
                  kept = decode_ignore (take budget encoded)
              in kept @ marker)"

definition worker_format_detail ::
  "code_points \<Rightarrow> code_points \<Rightarrow> code_points \<Rightarrow> code_points list \<Rightarrow> code_points" where
  "worker_format_detail module_text qualified_name message traceback_lines =
     (let qualified = (if module_text = lit ''builtins'' then qualified_name
            else module_text @ lit ''.'' @ qualified_name);
          headline = lit WORKER_RAISED_DETAIL_PREFIX @ lit '': '' @ qualified @ lit '': '' @ message
      in worker_truncate_utf8 (headline @ newline @ concat traceback_lines))"

definition worker_format_payload_error_detail :: "payload_error \<Rightarrow> code_points" where
  "worker_format_payload_error_detail e =
     (let (module_text, qualified_name) = worker_safe_type_names e
      in worker_format_detail module_text qualified_name (worker_safe_message e)
           (worker_safe_traceback_lines e))"

section \<open>Frames\<close>

text \<open>\<^verbatim>\<open>stream.readline()\<close> on what the stream will deliver until its end of file.\<close>

fun readline :: "bytes \<Rightarrow> bytes \<times> bytes" where
  "readline [] = ([], [])"
| "readline (b # bs) =
     (if b = WORKER_FRAME_TERMINATOR then ([b], bs)
      else let (line, rest) = readline bs in (b # line, rest))"

lemma readline_split: "readline bs = (line, rest) \<Longrightarrow> bs = line @ rest"
  by (induction bs arbitrary: line) (auto split: if_splits prod.splits)

lemma readline_shrinks: "fst (readline bs) \<noteq> [] \<Longrightarrow> length (snd (readline bs)) < length bs"
  using readline_split [of bs "fst (readline bs)" "snd (readline bs)"]
  by (metis add_less_same_cancel2 length_append length_greater_0_conv not_add_less2 prod.collapse
      less_add_same_cancel2)

definition ends_frame :: "bytes \<Rightarrow> bool" where
  "ends_frame chunk = (chunk \<noteq> [] \<and> last chunk = WORKER_FRAME_TERMINATOR)"

function read_frame :: "bytes list \<Rightarrow> bytes \<Rightarrow> bytes option \<times> bytes" where
  "read_frame chunks stream =
     (let chunk = fst (readline stream); rest = snd (readline stream)
      in if chunk = [] then (if chunks = [] then None else Some (concat chunks), rest)
         else if ends_frame chunk then (Some (concat (chunks @ [chunk])), rest)
         else read_frame (chunks @ [chunk]) rest)"
  by pat_completeness auto
termination
  by (relation "measure (\<lambda>(chunks, stream). length stream)") (auto dest: readline_shrinks)

declare read_frame.simps [simp del]

section \<open>Serving requests\<close>

record 'v worker_services =
  wk_loads :: "bytes \<Rightarrow> (string, identity_document) result"
  wk_canonical :: "identity_document \<Rightarrow> bytes"
  wk_strict_json :: "json \<Rightarrow> (string, json) result"
  wk_strict :: "'v \<Rightarrow> (string, json) result"

definition worker_document :: "json \<Rightarrow> identity_document" where
  "worker_document payload =
     \<lparr>doc_schema = WORKER_ENVELOPE_SCHEMA, doc_schema_version = WORKER_ENVELOPE_SCHEMA_VERSION,
      doc_payload = payload\<rparr>"

definition decode_request :: "'v worker_services \<Rightarrow> bytes \<Rightarrow> (string, identity_document) result" where
  "decode_request wk frame =
     bind_result (wk_loads wk frame) (\<lambda>document.
       if doc_schema document \<noteq> WORKER_ENVELOPE_SCHEMA \<or>
          doc_schema_version document \<noteq> WORKER_ENVELOPE_SCHEMA_VERSION
       then Inl ''request does not use the importable JSON envelope''
       else Inr document)"

definition result_frame :: "'v worker_services \<Rightarrow> json \<Rightarrow> bytes" where
  "result_frame wk v =
     wk_canonical wk (worker_document
       (JObj [(STATUS_KEY, JStr (WorkerFrameStatus_value OK)), (RESULT_KEY, v)])) @ [WORKER_FRAME_TERMINATOR]"

definition status_frame :: "'v worker_services \<Rightarrow> WorkerFrameStatus \<Rightarrow> string \<Rightarrow> bytes" where
  "status_frame wk status detail =
     wk_canonical wk (worker_document
       (JObj [(STATUS_KEY, JStr (WorkerFrameStatus_value status)), (DETAIL_KEY, JStr detail)])) @
     [WORKER_FRAME_TERMINATOR]"

text \<open>What only a \<^verbatim>\<open>BaseException\<close> of the entry point leaves is an escape.\<close>

definition handle :: "'v worker_services \<Rightarrow> (json \<Rightarrow> 'v call) \<Rightarrow> bytes \<Rightarrow> (escape, bytes) result" where
  "handle wk entry_point frame =
     (case decode_request wk frame of
        Inl m \<Rightarrow> Inr (status_frame wk EXECUTOR_REJECTED m)
      | Inr request \<Rightarrow>
          (case wk_strict_json wk (doc_payload request) of
             Inl m \<Rightarrow> Inr (status_frame wk EXECUTOR_REJECTED m)
           | Inr payload \<Rightarrow>
               (case entry_point payload of
                  RaisesBase x \<Rightarrow> Inl x
                | RaisesException e \<Rightarrow> Inr (status_frame wk PAYLOAD_RAISED
                    (text_string (worker_format_payload_error_detail e)))
                | Returns v \<Rightarrow>
                    (case wk_strict wk v of
                       Inl m \<Rightarrow> Inr (status_frame wk PAYLOAD_RESULT_INVALID m)
                     | Inr r \<Rightarrow> Inr (result_frame wk r)))))"

lemma read_frame_shrinks:
  "fst (read_frame chunks stream) \<noteq> None \<Longrightarrow> chunks = [] \<Longrightarrow> length (snd (read_frame chunks stream)) < length stream"
  "length (snd (read_frame chunks stream)) \<le> length stream"
proof -
  show le: "length (snd (read_frame chunks stream)) \<le> length stream" for chunks stream
  proof (induction chunks stream rule: read_frame.induct)
    case (1 chunks stream)
    have "length (snd (readline stream)) \<le> length stream"
      using readline_split [of stream "fst (readline stream)" "snd (readline stream)"]
      by (metis le_add2 length_append prod.collapse)
    with 1 show ?case by (subst read_frame.simps) (auto simp: Let_def intro: order.trans)
  qed
  show "length (snd (read_frame chunks stream)) < length stream"
    if "fst (read_frame chunks stream) \<noteq> None" "chunks = []"
  proof -
    have c: "fst (readline stream) \<noteq> []" using that by (subst (asm) read_frame.simps) (auto simp: Let_def)
    then show ?thesis
      using readline_shrinks [OF c] le [of "chunks @ [fst (readline stream)]" "snd (readline stream)"]
      by (subst read_frame.simps) (auto simp: Let_def)
  qed
qed

text \<open>
  The loop over the request pipe: the frames written to the result pipe and the exception that
  ended it, if not the end of the request pipe.
\<close>

function serve ::
  "'v worker_services \<Rightarrow> (json \<Rightarrow> 'v call) \<Rightarrow> bytes \<Rightarrow> bytes list \<times> escape option" where
  "serve wk entry_point requests =
     (case read_frame [] requests of
        (None, _) \<Rightarrow> ([], None)
      | (Some frame, rest) \<Rightarrow>
          (case handle wk entry_point frame of
             Inl x \<Rightarrow> ([], Some x)
           | Inr reply \<Rightarrow>
               (let (replies, ended) = serve wk entry_point rest in (reply # replies, ended))))"
  by pat_completeness auto
termination
proof (relation "measure (\<lambda>(wk, f, requests). length requests)")
  fix wk :: "'v worker_services" and f :: "json \<Rightarrow> 'v call" and requests rest frame m reply
  assume "(m, rest) = read_frame [] requests" "m = Some frame"
  then show "((wk, f, rest), (wk, f, requests)) \<in> measure (\<lambda>(wk, f, requests). length requests)"
    using read_frame_shrinks(1) [of "[]" requests] by (metis case_prod_conv fst_conv in_measure option.distinct(1) snd_conv)
qed auto

declare serve.simps [simp del]

section \<open>The worker process\<close>

text \<open>\<open>killed\<close>: whether the process sent its own group a signal that ends it.\<close>

definition kill_own_process_group :: "int \<Rightarrow> int \<Rightarrow> bool \<Rightarrow> bool" where
  "kill_own_process_group pid pgrp killpg_ok = (if pgrp \<noteq> pid then False else killpg_ok)"

text \<open>
  The watchdog's polls of \<^verbatim>\<open>os.getppid()\<close>: whether the worker is killed by signal or exits with
  the orphan's code, \<open>None\<close> while every poll gave the owner's pid.
\<close>

fun poll_parent :: "int \<Rightarrow> bool \<Rightarrow> int list \<Rightarrow> int option option" where
  "poll_parent parent_pid killed [] = None"
| "poll_parent parent_pid killed (p # ps) =
     (if p = parent_pid then poll_parent parent_pid killed ps
      else Some (if killed then None else Some ORPHANED_WORKER_EXIT_CODE))"

definition resolve_entry_point :: "'v entry \<Rightarrow> (json \<Rightarrow> 'v call) option" where
  "resolve_entry_point e = (case e of Entry f \<Rightarrow> Some f | _ \<Rightarrow> None)"

text \<open>
  How a worker process ends: by the signal it sends its own group, or with an exit code.
  \<open>exit_status\<close> is the interpreter's exit code for an exception nothing catches.
\<close>

datatype process_end = Signaled int | Exited int

record worker_os =
  os_pid :: int
  os_pgrp :: int
  os_setpgid_ok :: bool
  os_killpg_ok :: bool

definition leads_group :: "worker_os \<Rightarrow> bool" where
  "leads_group os =
     kill_own_process_group (os_pid os) (if os_setpgid_ok os then os_pid os else os_pgrp os) (os_killpg_ok os)"

definition worker_main ::
  "'v worker_services \<Rightarrow> (escape \<Rightarrow> int) \<Rightarrow> worker_os \<Rightarrow> 'v entry \<Rightarrow> bytes \<Rightarrow> bytes \<times> process_end" where
  "worker_main wk exit_status os looked_up requests =
     (let (written, code) =
        (case resolve_entry_point looked_up of
           None \<Rightarrow> ([], STARTUP_IMPORT_FAILED_EXIT_CODE)
         | Some entry_point \<Rightarrow>
             (let (replies, ended) = serve wk entry_point requests
              in (READY_FRAME @ concat replies, case ended of None \<Rightarrow> 0 | Some x \<Rightarrow> exit_status x)))
      in (written, if leads_group os then Signaled 9 else Exited code))"

section \<open>The parent's side\<close>

function drain_frames :: "bytes list \<Rightarrow> bytes \<Rightarrow> bytes list" where
  "drain_frames chunks stream =
     (let chunk = fst (readline stream); rest = snd (readline stream)
      in if chunk = [] then []
         else if ends_frame chunk then concat (chunks @ [chunk]) # drain_frames [] rest
         else drain_frames (chunks @ [chunk]) rest)"
  by pat_completeness auto
termination
  by (relation "measure (\<lambda>(chunks, stream). length stream)") (auto dest: readline_shrinks)

declare drain_frames.simps [simp del]

record WorkerExecution =
  we_execution_id :: ExecutionId
  we_started_at :: datetime
  we_started_ns :: int
  we_transport :: bytes

definition worker_completed ::
  "clock \<Rightarrow> WorkerExecution \<Rightarrow> ExecutionOutcome \<Rightarrow> identity_document list \<Rightarrow> string option \<Rightarrow>
     (ExecutionOutcome \<Rightarrow> ExecutionAttribution) option \<Rightarrow> (py_exn, CompletedExecution) result" where
  "worker_completed clock execution outcome protocol_outputs attribution_detail attribution_override =
     completed_execution (fst clock) (snd clock) (we_execution_id execution)
       (WorkerPoolRecordReceipt (we_execution_id execution)) outcome protocol_outputs
       (we_started_at execution) (we_started_ns execution) (int (length (we_transport execution)))
       attribution_detail attribution_override"

definition protocol_failed ::
  "clock \<Rightarrow> WorkerExecution \<Rightarrow> string \<Rightarrow> (py_exn, CompletedExecution) result" where
  "protocol_failed clock execution detail =
     worker_completed clock execution (malformed_frame_outcome detail) [] None
       (Some executor_protocol_failure_attribution)"

definition worker_frame_payload ::
  "(bytes \<Rightarrow> (string, identity_document) result) \<Rightarrow> bytes \<Rightarrow> (string, (string \<times> json) list) result" where
  "worker_frame_payload loads frame =
     (case loads frame of
        Inl _ \<Rightarrow> Inl ''the worker returned a malformed frame''
      | Inr document \<Rightarrow>
          if \<not> is_importable_json_envelope document
          then Inl ''the worker result does not use the envelope''
          else case doc_payload document of
            JObj ps \<Rightarrow> Inr ps
          | _ \<Rightarrow> Inl ''the worker result payload is not an object'')"

text \<open>\<^verbatim>\<open>payload.get(key)\<close>, \<open>JNull\<close> being \<^verbatim>\<open>None\<close>.\<close>

definition get_key :: "(string \<times> json) list \<Rightarrow> string \<Rightarrow> json" where
  "get_key ps key = (case map_of ps key of None \<Rightarrow> JNull | Some v \<Rightarrow> v)"

definition frame_status :: "(string \<times> json) list \<Rightarrow> WorkerFrameStatus option" where
  "frame_status ps =
     (case get_key ps STATUS_KEY of
        JStr s \<Rightarrow> enum_lookup WorkerFrameStatus_value WorkerFrameStatus_members s
      | _ \<Rightarrow> None)"

text \<open>\<^verbatim>\<open>str\<close> of a decoded value; \<open>py_str\<close> is its rendering of anything but text.\<close>

definition str_of :: "(json \<Rightarrow> string) \<Rightarrow> json \<Rightarrow> string" where
  "str_of py_str v = (case v of JStr s \<Rightarrow> s | _ \<Rightarrow> py_str v)"

definition interpret_frame ::
  "(bytes \<Rightarrow> (string, identity_document) result) \<Rightarrow> (json \<Rightarrow> string) \<Rightarrow> clock \<Rightarrow> WorkerExecution \<Rightarrow>
     bytes \<Rightarrow> (py_exn, CompletedExecution) result" where
  "interpret_frame loads py_str clock execution frame =
     (case worker_frame_payload loads frame of
        Inl m \<Rightarrow> protocol_failed clock execution m
      | Inr ps \<Rightarrow>
          (let detail = str_of py_str (get_key ps DETAIL_KEY)
           in case frame_status ps of
                Some OK \<Rightarrow> worker_completed clock execution (ExitedOutcome 0)
                  [\<lparr>doc_schema = ENVELOPE_SCHEMA, doc_schema_version = ENVELOPE_SCHEMA_VERSION,
                    doc_payload = get_key ps RESULT_KEY\<rparr>] None None
              | Some PAYLOAD_RAISED \<Rightarrow>
                  worker_completed clock execution (ExitedOutcome 1) [] (Some detail) None
              | Some PAYLOAD_RESULT_INVALID \<Rightarrow>
                  worker_completed clock execution (malformed_frame_outcome detail) [] None None
              | Some EXECUTOR_REJECTED \<Rightarrow> protocol_failed clock execution detail
              | None \<Rightarrow> protocol_failed clock execution ''the worker returned an unknown result status''))"

section \<open>The two formatters agree\<close>

lemma worker_constants:
  "WORKER_DETAIL_MAX_BYTES = PAYLOAD_ERROR_DETAIL_MAX_BYTES"
  "WORKER_DETAIL_TRUNCATION_MARKER = PAYLOAD_ERROR_DETAIL_TRUNCATION_MARKER"
  "WORKER_RAISED_DETAIL_PREFIX = PAYLOAD_RAISED_DETAIL_PREFIX"
  "WORKER_UNPRINTABLE_PLACEHOLDER = PAYLOAD_ERROR_UNPRINTABLE_PLACEHOLDER"
  "WORKER_TRACEBACK_OMITTED_MARKER = PAYLOAD_ERROR_TRACEBACK_OMITTED_MARKER"
  by (simp_all add: WORKER_DETAIL_MAX_BYTES_def WORKER_DETAIL_TRUNCATION_MARKER_def
      WORKER_RAISED_DETAIL_PREFIX_def WORKER_UNPRINTABLE_PLACEHOLDER_def WORKER_TRACEBACK_OMITTED_MARKER_def
      PAYLOAD_ERROR_DETAIL_MAX_BYTES_def PAYLOAD_ERROR_DETAIL_TRUNCATION_MARKER_def
      PAYLOAD_RAISED_DETAIL_PREFIX_def PAYLOAD_ERROR_UNPRINTABLE_PLACEHOLDER_def
      PAYLOAD_ERROR_TRACEBACK_OMITTED_MARKER_def)

lemma worker_exact_str_eq: "worker_exact_str = exact_str"
  unfolding worker_exact_str_def [abs_def] exact_str_def [abs_def] worker_constants ..

lemma worker_type_names_eq: "worker_safe_type_names = safe_type_names"
  unfolding worker_safe_type_names_def [abs_def] safe_type_names_def [abs_def] worker_constants
    worker_exact_str_eq ..

lemma worker_message_eq: "worker_safe_message = safe_message"
  unfolding worker_safe_message_def [abs_def] safe_message_def [abs_def] worker_unprintable_message_def
    unprintable_message_def worker_constants worker_exact_str_eq worker_type_names_eq ..

lemma worker_traceback_eq: "worker_safe_traceback_lines = safe_traceback_lines"
  unfolding worker_safe_traceback_lines_def [abs_def] safe_traceback_lines_def [abs_def] worker_constants
    worker_exact_str_eq ..

lemma worker_truncate_eq: "worker_truncate_utf8 = truncate_utf8"
  unfolding worker_truncate_utf8_def [abs_def] truncate_utf8_def [abs_def] worker_constants ..

lemma worker_format_eq: "worker_format_payload_error_detail = format_payload_error_detail"
  unfolding worker_format_payload_error_detail_def [abs_def] format_payload_error_detail_def [abs_def]
    worker_format_detail_def format_detail_def detail_text_def worker_constants worker_type_names_eq
    worker_message_eq worker_traceback_eq worker_truncate_eq Let_def ..

lemma worker_document_eq:
  "worker_document p =
     \<lparr>doc_schema = ENVELOPE_SCHEMA, doc_schema_version = ENVELOPE_SCHEMA_VERSION, doc_payload = p\<rparr>"
  by (simp add: worker_document_def WORKER_ENVELOPE_SCHEMA_def WORKER_ENVELOPE_SCHEMA_VERSION_def
      ENVELOPE_SCHEMA_def ENVELOPE_SCHEMA_VERSION_def)

section \<open>Framing\<close>

definition framed :: "bytes \<Rightarrow> bytes" where
  "framed body = body @ [WORKER_FRAME_TERMINATOR]"

definition one_line :: "bytes \<Rightarrow> bool" where
  "one_line body = (WORKER_FRAME_TERMINATOR \<notin> set body)"

lemma readline_framed: "one_line body \<Longrightarrow> readline (framed body @ rest) = (framed body, rest)"
  unfolding framed_def one_line_def by (induction body) auto

lemma framed_simps [simp]: "framed body \<noteq> []" "ends_frame (framed body)"
  by (simp_all add: framed_def ends_frame_def)

lemma read_frame_framed:
  "one_line body \<Longrightarrow> read_frame [] (framed body @ rest) = (Some (framed body), rest)"
  by (subst read_frame.simps) (simp add: readline_framed)

lemma read_frame_end: "read_frame [] [] = (None, [])"
  by (subst read_frame.simps) simp

lemma drain_frames_framed:
  "\<forall>body\<in>set bodies. one_line body \<Longrightarrow> drain_frames [] (concat (map framed bodies)) = map framed bodies"
proof (induction bodies)
  case Nil
  then show ?case by (subst drain_frames.simps) simp
next
  case (Cons body bodies)
  then show ?case by (subst drain_frames.simps) (simp add: readline_framed)
qed

definition answers :: "(escape, bytes) result list \<Rightarrow> bytes list" where
  "answers rs = map projr (takeWhile (\<lambda>r. \<not> isl r) rs)"

lemma serve_framed:
  assumes "\<forall>request\<in>set requests. one_line request"
  shows "fst (serve wk f (concat (map framed requests))) =
    answers (map (\<lambda>request. handle wk f (framed request)) requests)"
  using assms
proof (induction requests)
  case Nil
  then show ?case by (subst serve.simps) (simp add: read_frame_end answers_def)
next
  case (Cons request requests)
  then have step: "read_frame [] (framed request @ concat (map framed requests)) =
      (Some (framed request), concat (map framed requests))"
    by (simp add: read_frame_framed)
  from Cons show ?case
    by (subst serve.simps) (auto simp: step answers_def split: sum.splits prod.splits)
qed

lemma handle_framed: "handle wk f frame = Inr reply \<Longrightarrow> \<exists>d. reply = framed (wk_canonical wk d)"
  by (auto simp: handle_def result_frame_def status_frame_def framed_def
      split: sum.splits call.splits)

lemma answers_framed:
  assumes "\<forall>d. one_line (wk_canonical wk d)"
  shows "\<exists>bodies. answers (map (\<lambda>request. handle wk f (framed request)) requests) = map framed bodies \<and>
    (\<forall>body\<in>set bodies. one_line body)"
proof (induction requests)
  case Nil
  then show ?case by (simp add: answers_def)
next
  case (Cons request requests)
  then obtain bodies where b: "answers (map (\<lambda>request. handle wk f (framed request)) requests) = map framed bodies"
    "\<forall>body\<in>set bodies. one_line body" by blast
  show ?case
  proof (cases "handle wk f (framed request)")
    case (Inl x)
    then show ?thesis by (simp add: answers_def)
  next
    case (Inr reply)
    then obtain d where "reply = framed (wk_canonical wk d)" using handle_framed by blast
    then have "answers (map (\<lambda>request. handle wk f (framed request)) (request # requests)) =
        map framed (wk_canonical wk d # bodies)"
      using Inr b(1) by (simp add: answers_def)
    with b(2) assms show ?thesis by (metis set_ConsD)
  qed
qed

lemma ready_framed: "READY_FRAME = framed (ascii_bytes ''ready'')" "one_line (ascii_bytes ''ready'')"
  by (simp_all add: READY_FRAME_def framed_def one_line_def ascii_bytes_def WORKER_FRAME_TERMINATOR_def)

section \<open>The worker and the in-process executor agree\<close>

text \<open>
  What the two executors rely on in the JSON codec: a document reads back as itself when its
  objects list their keys in canonical order (\<open>reads_back\<close>), and the objects of the worker's
  frames read back with the same entries, whatever their order.
\<close>

definition reads_back :: "'v worker_services \<Rightarrow> json \<Rightarrow> bool" where
  "reads_back wk p = (wk_loads wk (framed (wk_canonical wk (worker_document p))) = Inr (worker_document p))"

definition object_reads_back :: "'v worker_services \<Rightarrow> (string \<times> json) list \<Rightarrow> bool" where
  "object_reads_back wk ps =
     (\<exists>qs. wk_loads wk (framed (wk_canonical wk (worker_document (JObj ps)))) = Inr (worker_document (JObj qs)) \<and>
        map_of qs = map_of ps)"

definition frame_codec :: "'v worker_services \<Rightarrow> bool" where
  "frame_codec wk =
     ((\<forall>s d. object_reads_back wk [(STATUS_KEY, JStr s), (DETAIL_KEY, JStr d)]) \<and>
      (\<forall>s v. reads_back wk v \<longrightarrow> object_reads_back wk [(STATUS_KEY, JStr s), (RESULT_KEY, v)]))"

definition or_none :: "('e, 'a) result \<Rightarrow> 'a option" where
  "or_none r = (case r of Inl _ \<Rightarrow> None | Inr x \<Rightarrow> Some x)"

definition in_process_services ::
  "(uuid \<Rightarrow> bytes \<Rightarrow> uuid) \<Rightarrow> (string \<Rightarrow> string) \<Rightarrow> 'v worker_services \<Rightarrow> 'v services" where
  "in_process_services uuid5 py_repr wk =
     \<lparr>sv_uuid5 = uuid5, sv_canonical_identity = wk_canonical wk, sv_repr = py_repr,
      sv_strict_json = (\<lambda>v. or_none (wk_strict_json wk v)), sv_strict = (\<lambda>v. or_none (wk_strict wk v))\<rparr>"

definition worker_attempt ::
  "(uuid \<Rightarrow> bytes \<Rightarrow> uuid) \<Rightarrow> (identity_document \<Rightarrow> bytes) \<Rightarrow> clock \<Rightarrow> ExecutionJob \<Rightarrow> identity_document \<Rightarrow>
     WorkerExecution" where
  "worker_attempt uuid5 canonical_identity start job request =
     \<lparr>we_execution_id = \<lparr>eid_job_id = job_id job, eid_attempt_id = attempt_id_for_job uuid5 (job_id job)\<rparr>,
      we_started_at = fst start, we_started_ns = snd start,
      we_transport = request_transport_bytes canonical_identity request\<rparr>"

definition attribution_of ::
  "ExecutionOutcome \<Rightarrow> string option \<Rightarrow> (ExecutionOutcome \<Rightarrow> ExecutionAttribution) option \<Rightarrow>
     ExecutionAttribution" where
  "attribution_of outcome detail override =
     (let base = (case override of
            Some f \<Rightarrow> if is_protocol_failed outcome then f outcome else attribute_outcome outcome
          | None \<Rightarrow> attribute_outcome outcome)
      in case detail of Some d \<Rightarrow> base\<lparr>at_detail := Some d\<rparr> | None \<Rightarrow> base)"

lemma completed_execution_reports:
  assumes "clock_ok (started_at, started_ns) (finished_at, now_ns)" and "0 \<le> n"
    and "protocol_output_count_matches outcome outputs" and "receipt_execution_id receipt = i"
  obtains c where "completed_execution finished_at now_ns i receipt outcome outputs started_at started_ns n
      detail override = Inr c"
    and "res_execution_id (ce_result c) = i" and "ce_record_receipt c = receipt"
    and "res_outcome (ce_result c) = outcome" and "res_protocol_outputs (ce_result c) = outputs"
    and "res_attribution (ce_result c) = attribution_of outcome detail override"
  using assms
  by (force simp: completed_execution_def ExecutionMeasurements_new_def require_utc_def attribution_of_def
      protocol_output_count_must_match_outcome_def CompletedExecution_new_def clock_ok_def Let_def)

text \<open>Two completions that differ at most in their measurements, receipts and the text of a failure.\<close>

fun same_outcome :: "ExecutionOutcome \<Rightarrow> ExecutionOutcome \<Rightarrow> bool" where
  "same_outcome (ProtocolFailedOutcome code _ n) (ProtocolFailedOutcome code' _ n') = (code = code' \<and> n = n')"
| "same_outcome outcome outcome' = (outcome = outcome')"

definition agree :: "CompletedExecution \<Rightarrow> CompletedExecution \<Rightarrow> bool" where
  "agree c c' =
     (res_execution_id (ce_result c) = res_execution_id (ce_result c') \<and>
      same_outcome (res_outcome (ce_result c)) (res_outcome (ce_result c')) \<and>
      res_protocol_outputs (ce_result c) = res_protocol_outputs (ce_result c') \<and>
      at_owner (res_attribution (ce_result c)) = at_owner (res_attribution (ce_result c')) \<and>
      (\<not> is_protocol_failed (res_outcome (ce_result c)) \<longrightarrow>
        res_attribution (ce_result c) = res_attribution (ce_result c')))"

lemma completions_agree:
  assumes ids: "ex_execution_id x = we_execution_id y"
    and clocks: "clock_ok (started x) clock" "clock_ok (we_started_at y, we_started_ns y) clock'"
    and n: "0 \<le> ex_input_bytes x"
    and counts: "protocol_output_count_matches outcome outputs" "protocol_output_count_matches outcome' outputs"
    and same: "same_outcome outcome outcome'"
      "at_owner (attribution_of outcome detail override) = at_owner (attribution_of outcome' detail' override)"
      "\<not> is_protocol_failed outcome \<Longrightarrow>
         attribution_of outcome detail override = attribution_of outcome' detail' override"
  shows "\<exists>c c'. completed clock x outcome outputs detail override = Inr c \<and>
    worker_completed clock' y outcome' outputs detail' override = Inr c' \<and> agree c c'"
proof -
  have clock: "clock_ok (ex_started_at x, ex_started_ns x) (fst clock, snd clock)"
    using clocks(1) by (simp add: started_def)
  obtain c where "completed clock x outcome outputs detail override = Inr c"
    "res_execution_id (ce_result c) = ex_execution_id x" "res_outcome (ce_result c) = outcome"
    "res_protocol_outputs (ce_result c) = outputs"
    "res_attribution (ce_result c) = attribution_of outcome detail override"
    by (rule completed_execution_reports [OF clock n counts(1), of "InProcessRecordReceipt (ex_execution_id x)"])
      (auto simp: completed_def)
  moreover obtain c' where "worker_completed clock' y outcome' outputs detail' override = Inr c'"
    "res_execution_id (ce_result c') = we_execution_id y" "res_outcome (ce_result c') = outcome'"
    "res_protocol_outputs (ce_result c') = outputs"
    "res_attribution (ce_result c') = attribution_of outcome' detail' override"
    by (rule completed_execution_reports [of "we_started_at y" "we_started_ns y" "fst clock'" "snd clock'" _
        outcome' outputs "WorkerPoolRecordReceipt (we_execution_id y)", OF _ of_nat_0_le_iff counts(2)])
      (use clocks(2) in \<open>auto simp: worker_completed_def\<close>)
  ultimately show ?thesis using same ids by (auto simp: agree_def)
qed

lemma key_simps [simp]: "STATUS_KEY \<noteq> DETAIL_KEY" "STATUS_KEY \<noteq> RESULT_KEY" "DETAIL_KEY \<noteq> STATUS_KEY" "RESULT_KEY \<noteq> STATUS_KEY"
  "RESULT_KEY \<noteq> DETAIL_KEY"
  by (simp_all add: STATUS_KEY_def DETAIL_KEY_def RESULT_KEY_def)

lemma worker_envelope [simp]: "is_importable_json_envelope (worker_document p)" "doc_payload (worker_document p) = p"
  by (simp_all add: worker_document_eq is_importable_json_envelope_def)

lemma frame_codecD:
  assumes "frame_codec wk"
  shows "object_reads_back wk [(STATUS_KEY, JStr s), (DETAIL_KEY, JStr d)]"
    and "reads_back wk v \<Longrightarrow> object_reads_back wk [(STATUS_KEY, JStr s), (RESULT_KEY, v)]"
  using assms by (simp_all add: frame_codec_def)

lemma interpret_status_frame:
  assumes "frame_codec wk"
  shows "interpret_frame (wk_loads wk) py_str clock y (status_frame wk status d) =
    (case status of
       OK \<Rightarrow> worker_completed clock y (ExitedOutcome 0) [worker_document JNull] None None
     | PAYLOAD_RAISED \<Rightarrow> worker_completed clock y (ExitedOutcome 1) [] (Some d) None
     | PAYLOAD_RESULT_INVALID \<Rightarrow> worker_completed clock y (malformed_frame_outcome d) [] None None
     | EXECUTOR_REJECTED \<Rightarrow> protocol_failed clock y d)"
proof -
  obtain qs where "wk_loads wk (status_frame wk status d) = Inr (worker_document (JObj qs))"
    and qs: "map_of qs = map_of [(STATUS_KEY, JStr (WorkerFrameStatus_value status)), (DETAIL_KEY, JStr d)]"
    using frame_codecD(1) [OF assms, of "WorkerFrameStatus_value status" d]
    unfolding object_reads_back_def status_frame_def framed_def by blast
  moreover have "get_key qs RESULT_KEY = JNull"
    by (simp add: get_key_def qs STATUS_KEY_def DETAIL_KEY_def RESULT_KEY_def)
  ultimately show ?thesis
    by (simp add: interpret_frame_def worker_frame_payload_def get_key_def frame_status_def str_of_def
        worker_frame_status.lookup_value worker_document_eq [symmetric] Let_def split: WorkerFrameStatus.split)
qed

lemma interpret_result_frame:
  assumes "frame_codec wk" and "reads_back wk v"
  shows "interpret_frame (wk_loads wk) py_str clock y (result_frame wk v) =
    worker_completed clock y (ExitedOutcome 0) [worker_document v] None None"
proof -
  obtain qs where "wk_loads wk (result_frame wk v) = Inr (worker_document (JObj qs))"
    and "map_of qs = map_of [(STATUS_KEY, JStr (WorkerFrameStatus_value OK)), (RESULT_KEY, v)]"
    using frame_codecD(2) [OF assms, of "WorkerFrameStatus_value OK"]
    unfolding object_reads_back_def result_frame_def framed_def by blast
  then show ?thesis
    by (simp add: interpret_frame_def worker_frame_payload_def get_key_def frame_status_def
        worker_frame_status.lookup_value [of OK, simplified] worker_document_eq [symmetric] Let_def)
qed

lemma run_blocking_quiet:
  assumes "in_process_target (sv_canonical_identity sv) job = Inr (ep, request)"
    and "quiet (sg_before sg)" and "quiet (sg_after sg)"
    and "d = invoke_importable_entry_point (sv_repr sv) (sv_strict_json sv) (sv_strict sv) (sg_lookup sg) ep request"
    and "clock_ok (sg_start sg) (sg_body sg)"
    and "x = attempt (sv_uuid5 sv) (sv_canonical_identity sv) (sg_start sg) job request"
  shows "d = Result v \<Longrightarrow> run_blocking sv sg job = completed (sg_body sg) x (ExitedOutcome 0)
      [worker_document v] None None"
    and "d = PayloadDispatchError m \<Longrightarrow> run_blocking sv sg job =
      completed (sg_body sg) x (ExitedOutcome 1) [] (Some m) None"
    and "d = PayloadResultError m \<Longrightarrow> run_blocking sv sg job =
      completed (sg_body sg) x (malformed_frame_outcome m) [] None None"
    and "d = ExecutorDispatchError m \<Longrightarrow> run_blocking sv sg job =
      completed (sg_body sg) x (malformed_frame_outcome m) [] None (Some executor_protocol_failure_attribution)"
proof -
  have x: "clock_ok (started x) (sg_body sg)" "0 \<le> ex_input_bytes x"
    using assms(5,6) by (simp_all add: attempt_def started_def)
  have total: "\<exists>c. completed (sg_body sg) x outcome outputs detail override = Inr c"
    if "protocol_output_count_matches outcome outputs" for outcome outputs detail override
    using x that by (simp add: completed_Inr)
  have s: "stopped clock x (sg_before sg) b = None" "stopped clock x (sg_after sg) b = None" for clock b
    using assms(2,3) by (simp_all add: stopped_def stop_outcome_None)
  have returned: "run_attempt clock reading (body_of r) x = r" if "\<exists>c. r = Inr c" for clock reading r
    using that by (auto simp: run_attempt_def body_of_def)
  note unfold = run_blocking_def attempt_job_def assms(1) run_body_def s returned total worker_document_eq
    assms(4) [symmetric] assms(6) [symmetric]
  show "d = Result v \<Longrightarrow> run_blocking sv sg job = completed (sg_body sg) x (ExitedOutcome 0)
      [worker_document v] None None"
    and "d = PayloadDispatchError m \<Longrightarrow> run_blocking sv sg job =
      completed (sg_body sg) x (ExitedOutcome 1) [] (Some m) None"
    and "d = PayloadResultError m \<Longrightarrow> run_blocking sv sg job =
      completed (sg_body sg) x (malformed_frame_outcome m) [] None None"
    and "d = ExecutorDispatchError m \<Longrightarrow> run_blocking sv sg job =
      completed (sg_body sg) x (malformed_frame_outcome m) [] None (Some executor_protocol_failure_attribution)"
    by (simp_all add: unfold)
qed

lemma malformed_agree [simp]:
  "same_outcome (malformed_frame_outcome m) (malformed_frame_outcome m')"
  "is_protocol_failed (malformed_frame_outcome m)"
  "at_owner (attribution_of (malformed_frame_outcome m) None None) = FailureOwner.PAYLOAD"
  "at_owner (attribution_of (malformed_frame_outcome m) None (Some executor_protocol_failure_attribution)) =
     FailureOwner.EXECUTOR"
  by (simp_all add: is_protocol_failed_def malformed_frame_outcome_def attribution_of_def)

text \<open>What the parent makes of a worker's answer, given how the in-process call would end.\<close>

fun dispatched_as ::
  "dispatch \<Rightarrow> (py_exn, CompletedExecution) result \<Rightarrow> clock \<Rightarrow> WorkerExecution \<Rightarrow> bool" where
  "dispatched_as (ExecutorDispatchError _) r now y = (\<exists>m. r = protocol_failed now y m)"
| "dispatched_as (PayloadResultError _) r now y =
     (\<exists>m. r = worker_completed now y (malformed_frame_outcome m) [] None None)"
| "dispatched_as (PayloadDispatchError m) r now y = (r = worker_completed now y (ExitedOutcome 1) [] (Some m) None)"
| "dispatched_as (Result v) r now y = (r = worker_completed now y (ExitedOutcome 0) [worker_document v] None None)"
| "dispatched_as (Escapes _) r now y = False"

lemma handle_dispatch:
  assumes codec: "frame_codec wk" and payload: "reads_back wk payload" and entry: "lookup ep = Entry f"
    and no_escape: "\<And>p x. f p \<noteq> RaisesBase x"
    and results: "\<forall>r v. wk_strict wk r = Inr v \<longrightarrow> reads_back wk v"
  shows "\<exists>reply. handle wk f (framed (request_transport_bytes (wk_canonical wk) (worker_document payload))) =
      Inr reply \<and>
    dispatched_as (invoke_importable_entry_point (sv_repr (in_process_services uuid5 py_repr wk))
        (sv_strict_json (in_process_services uuid5 py_repr wk)) (sv_strict (in_process_services uuid5 py_repr wk))
        lookup ep (worker_document payload))
      (interpret_frame (wk_loads wk) py_str now y reply) now y"
proof -
  have request: "decode_request wk (framed (wk_canonical wk (worker_document payload))) = Inr (worker_document payload)"
    using payload by (simp add: decode_request_def reads_back_def) (simp add: worker_document_def)
  note unfold = handle_def request_transport_bytes_def request invoke_importable_entry_point_def
    in_process_services_def or_none_def entry worker_format_eq
  note frames = interpret_status_frame [OF codec] interpret_result_frame [OF codec results [rule_format]]
  show ?thesis
  proof (cases "wk_strict_json wk payload")
    case (Inl m)
    then show ?thesis by (auto simp: unfold frames)
  next
    case (Inr p)
    then show ?thesis
      using no_escape [of p] by (auto simp: unfold frames split: call.split sum.split)
  qed
qed

section \<open>Properties\<close>

text \<open>
  C27: a worker answers every request before the first one whose entry point call escapes, in
  order, and the parent's reader gets the ready frame and exactly those answers as frames; a
  worker that leads its process group ends by its own SIGKILL. Requests and canonical documents
  are single lines.
\<close>

theorem worker_answers_in_order:
  assumes "\<forall>request\<in>set requests. one_line request" and "\<forall>d. one_line (wk_canonical wk d)"
  shows "drain_frames [] (fst (worker_main wk exit_status os (Entry f) (concat (map framed requests)))) =
      READY_FRAME # answers (map (\<lambda>request. handle wk f (framed request)) requests) \<and>
    (leads_group os \<longrightarrow>
      snd (worker_main wk exit_status os (Entry f) (concat (map framed requests))) = Signaled 9)"
proof -
  obtain bodies where b: "answers (map (\<lambda>request. handle wk f (framed request)) requests) = map framed bodies"
    "\<forall>body\<in>set bodies. one_line body" using answers_framed [OF assms(2)] by blast
  let ?all = "ascii_bytes ''ready'' # bodies"
  have "fst (worker_main wk exit_status os (Entry f) (concat (map framed requests))) = concat (map framed ?all)"
    using serve_framed [OF assms(1), of wk f] b(1)
    by (simp add: worker_main_def resolve_entry_point_def split_beta ready_framed(1))
  moreover have "drain_frames [] (concat (map framed ?all)) = map framed ?all"
    by (rule drain_frames_framed) (use b(2) ready_framed(2) in simp)
  ultimately show ?thesis
    by (simp add: b(1) ready_framed(1) worker_main_def split_beta)
qed

definition plain_worker :: "json worker_services" where
  "plain_worker = \<lparr>wk_loads = (\<lambda>_. Inl ''no JSON''), wk_canonical = (\<lambda>_. [123, 125]),
     wk_strict_json = Inr, wk_strict = Inr\<rparr>"

theorem worker_answers_in_order_witness:
  "drain_frames [] (fst (worker_main plain_worker (\<lambda>_. 1) \<lparr>os_pid = 5, os_pgrp = 5, os_setpgid_ok = True,
     os_killpg_ok = True\<rparr> (Entry Returns) (concat (map framed [[65], [66]])))) =
   [READY_FRAME, [123, 125, 10], [123, 125, 10]]"
proof -
  have reply: "handle plain_worker f r = Inr [123, 125, 10]" for f r
    by (simp add: handle_def decode_request_def status_frame_def plain_worker_def WORKER_FRAME_TERMINATOR_def)
  show ?thesis
    using worker_answers_in_order [of "[[65], [66]]" plain_worker "\<lambda>_. 1"
        "\<lparr>os_pid = 5, os_pgrp = 5, os_setpgid_ok = True, os_killpg_ok = True\<rparr>" Returns]
    by (simp add: reply answers_def) (simp add: one_line_def plain_worker_def WORKER_FRAME_TERMINATOR_def)
qed


text \<open>
  A concrete codec for the witness: a document is written in unary, as the number the library
  gives its fields.
\<close>

instance json :: countable
  by countable_datatype

definition unary_canonical :: "identity_document \<Rightarrow> bytes" where
  "unary_canonical d = replicate (to_nat (doc_schema d, doc_schema_version d, doc_payload d)) 0"

definition unary_loads :: "bytes \<Rightarrow> (string, identity_document) result" where
  "unary_loads frame =
     (case from_nat (length frame - 1) of
        (schema, version, payload) \<Rightarrow>
          Inr \<lparr>doc_schema = schema, doc_schema_version = version, doc_payload = payload\<rparr>)"

definition unary_worker :: "json worker_services" where
  "unary_worker = \<lparr>wk_loads = unary_loads, wk_canonical = unary_canonical, wk_strict_json = Inr,
     wk_strict = Inr\<rparr>"

lemma unary_round_trip: "unary_loads (framed (unary_canonical d)) = Inr d"
  by (simp add: unary_loads_def framed_def unary_canonical_def)

lemma unary_codec: "frame_codec unary_worker" "reads_back unary_worker v"
  by (auto simp: frame_codec_def reads_back_def object_reads_back_def unary_worker_def unary_round_trip)


end
