(* ===== verification/WorkerPool.thy ===== *)
theory WorkerPool
  imports Worker
begin

text \<open>
  The worker pool of \<^verbatim>\<open>execution/worker_pool.py\<close>: the set of worker slots shared by the threads that
  run jobs and the threads that close the pool, and the executor around it. Every access to
  shared state (the slot queue, the closed event, the registry under its lock, a worker's two
  pipes) is one step, so the step relation interleaves the threads as the source does. A worker
  is the index of its process; \<open>lost\<close> and \<open>leaked\<close> are ghost state.
\<close>

section \<open>Stop conditions\<close>

record StopWatch =
  sw_deadline_ns :: "int option"
  sw_has_token :: bool
  sw_started :: bool

definition unwatched :: "StopWatch \<Rightarrow> bool" where
  "unwatched s = (sw_deadline_ns s = None \<and> \<not> sw_has_token s)"

text \<open>\<open>cancelled\<close> is the reading of the caller's token, \<open>now_ns\<close> that of the clock.\<close>

definition watch_outcome :: "StopWatch \<Rightarrow> bool \<Rightarrow> int \<Rightarrow> ExecutionOutcome option" where
  "watch_outcome s is_cancelled now_ns =
     (if sw_has_token s \<and> is_cancelled then Some (CancelledOutcome (sw_started s))
      else case sw_deadline_ns s of
        Some d \<Rightarrow> if now_ns \<ge> d then Some (BudgetExceededOutcome BudgetAxis.WALL_TIME) else None
      | None \<Rightarrow> None)"

text \<open>How long the next wait lasts, in nanoseconds; the poll interval is ten milliseconds.\<close>

definition STOP_POLL_NS :: int where
  "STOP_POLL_NS = 10000000"

definition poll_ns :: "StopWatch \<Rightarrow> int \<Rightarrow> int" where
  "poll_ns s now_ns =
     (case sw_deadline_ns s of
        None \<Rightarrow> STOP_POLL_NS
      | Some d \<Rightarrow> max 0 (min STOP_POLL_NS (d - now_ns)))"

text \<open>
  \<^verbatim>\<open>_get_watched\<close> as the polls it makes: what the queue gave within the interval, and the
  readings taken when it gave nothing. \<open>None\<close> is a loop that still waits.
\<close>

fun get_watched :: "StopWatch \<Rightarrow> ('a option \<times> bool \<times> int) list \<Rightarrow> (ExecutionOutcome, 'a) result option" where
  "get_watched s [] = None"
| "get_watched s ((Some x, _, _) # polls) = Some (Inr x)"
| "get_watched s ((None, is_cancelled, now_ns) # polls) =
     (if unwatched s then get_watched s polls
      else case watch_outcome s is_cancelled now_ns of
        Some outcome \<Rightarrow> Some (Inl outcome)
      | None \<Rightarrow> get_watched s polls)"

section \<open>Workers\<close>

text \<open>What the reader thread publishes: a frame of the result pipe or the end of it.\<close>

datatype published = ReadyFrame | Answer nat bytes | EndOfFrames

text \<open>
  A worker process and its pipes: \<open>wp_exit\<close> is its return code once it has ended, \<open>wp_requests\<close>
  the requests it has not answered, by the thread that sent them, \<open>wp_announced\<close> whether it has
  written its ready frame, \<open>wp_ready\<close> the parent's flag, and \<open>wp_open\<close> whether the parent's end of
  the request pipe is open.
\<close>

record Worker =
  wp_exit :: "int option"
  wp_announced :: bool
  wp_requests :: "nat list"
  wp_frames :: "published list"
  wp_ready :: bool
  wp_open :: bool

definition spawned_worker :: Worker where
  "spawned_worker = \<lparr>wp_exit = None, wp_announced = False, wp_requests = [], wp_frames = [], wp_ready = False,
     wp_open = True\<rparr>"

definition alive :: "Worker \<Rightarrow> bool" where
  "alive w = (wp_exit w = None)"

definition ends :: "int \<Rightarrow> Worker \<Rightarrow> Worker" where
  "ends code w =
     (if alive w then w\<lparr>wp_exit := Some code, wp_frames := wp_frames w @ [EndOfFrames]\<rparr> else w)"

text \<open>
  \<^verbatim>\<open>terminate\<close> is two steps of its thread: the process group is killed and the process reaped, then,
  once the reader thread has published the end of the frames, the request pipe is closed.
\<close>

definition kill :: "Worker \<Rightarrow> Worker" where
  "kill w = ends (- 9) w"

definition close_requests :: "Worker \<Rightarrow> Worker" where
  "close_requests w = w\<lparr>wp_open := False\<rparr>"

definition death :: "int \<Rightarrow> ExecutionOutcome" where
  "death code = (if code < 0 then SignaledOutcome (- code) else ExitedOutcome code)"

section \<open>Threads\<close>

text \<open>How the use of a worker ends for a job.\<close>

datatype job_end =
    Answered nat bytes
  | Stopped ExecutionOutcome
  | Died int
  | StartupFailed
  | SpawnRefused int string
  | SetClosed
  | Escaped

text \<open>
  Where a job's thread stands in \<^verbatim>\<open>lease\<close>, \<^verbatim>\<open>_dispatch\<close>, \<^verbatim>\<open>_exchange\<close> and the exit of its lease; the
  flag of \<open>Exiting\<close> is \<^verbatim>\<open>_discarded\<close>.
\<close>

datatype job_phase =
    Entering
  | Waiting
  | Checking nat
  | Spawning
  | Registering nat
  | Starting nat
  | Sending nat
  | Receiving nat
  | Exiting nat bool job_end
  | Releasing nat job_end
  | Retiring nat job_end
  | Terminating nat job_end
  | Freeing job_end
  | Finished job_end

datatype closer_phase =
    Closing
  | Setting
  | Snapshotting
  | Killing "nat list"
  | Draining "nat option list"
  | Refilling "nat option list"
  | Closed

datatype thread = Job job_phase | Closer closer_phase

record WorkerSet =
  ws_width :: nat
  ws_slots :: "nat option list"
  ws_closed :: bool
  ws_live :: "nat list"
  ws_workers :: "Worker list"
  ws_threads :: "thread list"
  ws_lost :: nat
  ws_leaked :: "nat set"

definition WorkerSet_new :: "nat \<Rightarrow> thread list \<Rightarrow> WorkerSet" where
  "WorkerSet_new width threads =
     \<lparr>ws_width = width, ws_slots = replicate width None, ws_closed = False, ws_live = [], ws_workers = [],
      ws_threads = threads, ws_lost = 0, ws_leaked = {}\<rparr>"

text \<open>Operations on the shared state.\<close>

definition put_slot :: "nat option \<Rightarrow> WorkerSet \<Rightarrow> WorkerSet" where
  "put_slot slot s = s\<lparr>ws_slots := ws_slots s @ [slot]\<rparr>"

definition register :: "nat \<Rightarrow> WorkerSet \<Rightarrow> WorkerSet" where
  "register w s = s\<lparr>ws_live := w # removeAll w (ws_live s)\<rparr>"

definition unregister :: "nat \<Rightarrow> WorkerSet \<Rightarrow> WorkerSet" where
  "unregister w s = s\<lparr>ws_live := removeAll w (ws_live s)\<rparr>"

definition on_worker :: "nat \<Rightarrow> (Worker \<Rightarrow> Worker) \<Rightarrow> WorkerSet \<Rightarrow> WorkerSet" where
  "on_worker w f s = s\<lparr>ws_workers := (ws_workers s)[w := f (ws_workers s ! w)]\<rparr>"


definition add_worker :: "WorkerSet \<Rightarrow> WorkerSet" where
  "add_worker s = s\<lparr>ws_workers := ws_workers s @ [spawned_worker]\<rparr>"

text \<open>
  The steps of a job's thread while it uses its worker (\<^verbatim>\<open>wait_for_ready\<close>, \<^verbatim>\<open>send\<close>, \<^verbatim>\<open>receive\<close>), in the
  form of the whole relation below.
\<close>

inductive worker_use_step ::
  "(nat \<Rightarrow> bool) \<Rightarrow> nat \<Rightarrow> job_phase \<Rightarrow> WorkerSet \<Rightarrow> job_phase \<Rightarrow> WorkerSet \<Rightarrow> bool"
  for watched :: "nat \<Rightarrow> bool" and i :: nat where
start_again: "wp_ready (ws_workers s ! w) \<Longrightarrow> worker_use_step watched i (Starting w) s (Sending w) s"
| start_ready: "\<not> wp_ready (ws_workers s ! w) \<Longrightarrow> wp_frames (ws_workers s ! w) = ReadyFrame # fs \<Longrightarrow>
    worker_use_step watched i (Starting w) s (Sending w)
      (on_worker w (\<lambda>v. v\<lparr>wp_frames := fs, wp_ready := True\<rparr>) s)"
| start_failed: "\<not> wp_ready (ws_workers s ! w) \<Longrightarrow> wp_frames (ws_workers s ! w) = f # fs \<Longrightarrow>
    f \<noteq> ReadyFrame \<Longrightarrow>
    worker_use_step watched i (Starting w) s (Exiting w True StartupFailed)
      (on_worker w (\<lambda>v. v\<lparr>wp_frames := fs\<rparr>) s)"
| start_stopped: "watched i \<Longrightarrow> \<not> wp_ready (ws_workers s ! w) \<Longrightarrow>
    worker_use_step watched i (Starting w) s (Exiting w True (Stopped outcome)) s"
| send: "wp_open (ws_workers s ! w) \<Longrightarrow> alive (ws_workers s ! w) \<Longrightarrow>
    worker_use_step watched i (Sending w) s (Receiving w)
      (on_worker w (\<lambda>v. v\<lparr>wp_requests := wp_requests v @ [i]\<rparr>) s)"
| send_died: "wp_open (ws_workers s ! w) \<Longrightarrow> wp_exit (ws_workers s ! w) = Some code \<Longrightarrow>
    worker_use_step watched i (Sending w) s (Exiting w True (Died code)) s"
| send_escapes: "\<not> wp_open (ws_workers s ! w) \<Longrightarrow>
    worker_use_step watched i (Sending w) s (Exiting w False Escaped) s"
| receive: "wp_frames (ws_workers s ! w) = Answer j frame # fs \<Longrightarrow>
    worker_use_step watched i (Receiving w) s (Exiting w False (Answered j frame))
      (on_worker w (\<lambda>v. v\<lparr>wp_frames := fs\<rparr>) s)"
| receive_died: "wp_frames (ws_workers s ! w) = EndOfFrames # fs \<Longrightarrow>
    wp_exit (ws_workers s ! w) = Some code \<Longrightarrow>
    worker_use_step watched i (Receiving w) s (Exiting w True (Died code))
      (on_worker w (\<lambda>v. v\<lparr>wp_frames := fs\<rparr>) s)"
| receive_stopped: "watched i \<Longrightarrow>
    worker_use_step watched i (Receiving w) s (Exiting w True (Stopped outcome)) s"

text \<open>
  The steps of a job's thread: \<open>job_step i p s q t\<close> takes thread \<open>i\<close> in phase \<open>p\<close> and the shared
  state \<open>s\<close> to phase \<open>q\<close> and state \<open>t\<close>. \<open>watched i\<close> says whether job \<open>i\<close> has a stop condition. A spawn
  that raises anything but a refused \<^verbatim>\<open>Popen\<close> (a pipe or the reader thread that cannot be made)
  escapes \<^verbatim>\<open>lease\<close> without giving the slot back. The lock a new worker is registered under stays
  held while one that came too late is terminated, which only delays the other threads.
\<close>

inductive job_step ::
  "(nat \<Rightarrow> bool) \<Rightarrow> nat \<Rightarrow> job_phase \<Rightarrow> WorkerSet \<Rightarrow> job_phase \<Rightarrow> WorkerSet \<Rightarrow> bool"
  for watched :: "nat \<Rightarrow> bool" and i :: nat where
  enter_closed: "ws_closed s \<Longrightarrow> job_step watched i Entering s (Finished SetClosed) s"
| enter_open: "\<not> ws_closed s \<Longrightarrow> job_step watched i Entering s Waiting s"
| wait_stopped: "watched i \<Longrightarrow> job_step watched i Waiting s (Finished (Stopped outcome)) s"
| take_worker: "ws_slots s = Some w # rest \<Longrightarrow>
    job_step watched i Waiting s (Checking w) (s\<lparr>ws_slots := rest\<rparr>)"
| take_empty: "ws_slots s = None # rest \<Longrightarrow>
    job_step watched i Waiting s Spawning (s\<lparr>ws_slots := rest\<rparr>)"
| check_closed: "ws_closed s \<Longrightarrow> job_step watched i (Checking w) s (Retiring w SetClosed) s"
| check_open: "\<not> ws_closed s \<Longrightarrow> job_step watched i (Checking w) s (Starting w) s"
| spawn: "job_step watched i Spawning s (Registering (length (ws_workers s))) (add_worker s)"
| spawn_refused: "job_step watched i Spawning s (Finished (SpawnRefused e m)) (put_slot None s)"
| spawn_escapes: "job_step watched i Spawning s (Finished Escaped) (s\<lparr>ws_lost := ws_lost s + 1\<rparr>)"
| spawn_leaks: "job_step watched i Spawning s (Finished Escaped)
    ((add_worker s)\<lparr>ws_lost := ws_lost s + 1, ws_leaked := insert (length (ws_workers s)) (ws_leaked s)\<rparr>)"
| register_closed: "ws_closed s \<Longrightarrow>
    job_step watched i (Registering w) s (Terminating w SetClosed) s"
| register_open: "\<not> ws_closed s \<Longrightarrow> job_step watched i (Registering w) s (Starting w) (register w s)"
| use_worker: "worker_use_step watched i p s q t \<Longrightarrow> job_step watched i p s q t"
| exit_discarded: "job_step watched i (Exiting w True r) s (Retiring w r) s"
| exit_closed: "ws_closed s \<Longrightarrow> job_step watched i (Exiting w False r) s (Retiring w r) s"
| exit_open: "\<not> ws_closed s \<Longrightarrow> job_step watched i (Exiting w False r) s (Releasing w r) s"
| release: "job_step watched i (Releasing w r) s (Finished r) (put_slot (Some w) s)"
| retire_live: "w \<in> set (ws_live s) \<Longrightarrow>
    job_step watched i (Retiring w r) s (Terminating w r) (unregister w s)"
| retire_gone: "w \<notin> set (ws_live s) \<Longrightarrow> job_step watched i (Retiring w r) s (Freeing r) (unregister w s)"
| terminate_kill: "alive (ws_workers s ! w) \<Longrightarrow>
    job_step watched i (Terminating w r) s (Terminating w r) (on_worker w kill s)"
| terminate_close: "\<not> alive (ws_workers s ! w) \<Longrightarrow>
    job_step watched i (Terminating w r) s (Freeing r) (on_worker w close_requests s)"
| free: "job_step watched i (Freeing r) s (Finished r) (put_slot None s)"

inductive closer_step :: "closer_phase \<Rightarrow> WorkerSet \<Rightarrow> closer_phase \<Rightarrow> WorkerSet \<Rightarrow> bool" where
  close_again: "ws_closed s \<Longrightarrow> closer_step Closing s Closed s"
| close_first: "\<not> ws_closed s \<Longrightarrow> closer_step Closing s Setting s"
| close_set: "closer_step Setting s Snapshotting (s\<lparr>ws_closed := True\<rparr>)"
| close_snapshot: "closer_step Snapshotting s (Killing (ws_live s)) (s\<lparr>ws_live := []\<rparr>)"
| close_kill: "alive (ws_workers s ! w) \<Longrightarrow>
    closer_step (Killing (w # rest)) s (Killing (w # rest)) (on_worker w kill s)"
| close_requests_of: "\<not> alive (ws_workers s ! w) \<Longrightarrow>
    closer_step (Killing (w # rest)) s (Killing rest) (on_worker w close_requests s)"
| close_killed: "closer_step (Killing []) s (Draining []) s"
| drain_slot: "ws_slots s = slot # rest \<Longrightarrow>
    closer_step (Draining taken) s (Draining (taken @ [slot])) (s\<lparr>ws_slots := rest\<rparr>)"
| drain_empty: "ws_slots s = [] \<Longrightarrow> closer_step (Draining taken) s (Refilling taken) s"
| refill_kill: "alive (ws_workers s ! w) \<Longrightarrow>
    closer_step (Refilling (Some w # rest)) s (Refilling (Some w # rest)) (on_worker w kill s)"
| refill_close: "\<not> alive (ws_workers s ! w) \<Longrightarrow>
    closer_step (Refilling (Some w # rest)) s (Refilling (None # rest)) (on_worker w close_requests s)"
| refill_empty: "closer_step (Refilling (None # rest)) s (Refilling rest) (put_slot None s)"
| refilled: "closer_step (Refilling []) s Closed s"

text \<open>
  What a worker process does on its own; an answer is any frame, tagged by the request it answers.
\<close>

inductive worker_step :: "Worker \<Rightarrow> Worker \<Rightarrow> bool" where
  announce: "alive v \<Longrightarrow> \<not> wp_announced v \<Longrightarrow>
    worker_step v (v\<lparr>wp_announced := True, wp_frames := wp_frames v @ [ReadyFrame]\<rparr>)"
| answer: "alive v \<Longrightarrow> wp_announced v \<Longrightarrow> wp_requests v = j # rest \<Longrightarrow>
    worker_step v (v\<lparr>wp_requests := rest, wp_frames := wp_frames v @ [Answer j frame]\<rparr>)"
| dies: "alive v \<Longrightarrow> worker_step v (ends code v)"

datatype pool_event = Thread nat | Process nat

inductive set_step :: "(nat \<Rightarrow> bool) \<Rightarrow> WorkerSet \<Rightarrow> pool_event \<Rightarrow> WorkerSet \<Rightarrow> bool"
  for watched :: "nat \<Rightarrow> bool" where
  set_job: "i < length (ws_threads s) \<Longrightarrow> ws_threads s ! i = Job p \<Longrightarrow> job_step watched i p s q t \<Longrightarrow>
    set_step watched s (Thread i) (t\<lparr>ws_threads := (ws_threads t)[i := Job q]\<rparr>)"
| set_closer: "i < length (ws_threads s) \<Longrightarrow> ws_threads s ! i = Closer p \<Longrightarrow> closer_step p s q t \<Longrightarrow>
    set_step watched s (Thread i) (t\<lparr>ws_threads := (ws_threads t)[i := Closer q]\<rparr>)"
| set_worker: "w < length (ws_workers s) \<Longrightarrow> worker_step (ws_workers s ! w) v \<Longrightarrow>
    set_step watched s (Process w) (s\<lparr>ws_workers := (ws_workers s)[w := v]\<rparr>)"

definition fresh_thread :: "thread \<Rightarrow> bool" where
  "fresh_thread th = (th = Job Entering \<or> th = Closer Closing)"

definition set_run ::
  "(nat \<Rightarrow> bool) \<Rightarrow> nat \<Rightarrow> nat \<Rightarrow> pool_event list \<Rightarrow> WorkerSet \<Rightarrow> bool" where
  "set_run watched width n es s =
     (\<exists>threads. length threads = n \<and> list_all fresh_thread threads \<and>
        trace (set_step watched) (WorkerSet_new width threads) es s)"

section \<open>Where the slots are\<close>

fun job_tokens :: "job_phase \<Rightarrow> nat option list" where
  "job_tokens Entering = []"
| "job_tokens Waiting = []"
| "job_tokens (Checking w) = [Some w]"
| "job_tokens Spawning = [None]"
| "job_tokens (Registering w) = [Some w]"
| "job_tokens (Starting w) = [Some w]"
| "job_tokens (Sending w) = [Some w]"
| "job_tokens (Receiving w) = [Some w]"
| "job_tokens (Exiting w _ _) = [Some w]"
| "job_tokens (Releasing w _) = [Some w]"
| "job_tokens (Retiring w _) = [Some w]"
| "job_tokens (Terminating w _) = [Some w]"
| "job_tokens (Freeing _) = [None]"
| "job_tokens (Finished _) = []"

fun closer_tokens :: "closer_phase \<Rightarrow> nat option list" where
  "closer_tokens (Draining taken) = taken"
| "closer_tokens (Refilling taken) = taken"
| "closer_tokens _ = []"

fun tokens :: "thread \<Rightarrow> nat option list" where
  "tokens (Job p) = job_tokens p"
| "tokens (Closer p) = closer_tokens p"

definition all_slots :: "WorkerSet \<Rightarrow> nat option multiset" where
  "all_slots s = mset (ws_slots s) + (\<Sum>th\<leftarrow>ws_threads s. mset (tokens th))"

text \<open>What a step does to the slots of the queue and of the thread that makes it.\<close>

definition moves :: "WorkerSet \<Rightarrow> nat option list \<Rightarrow> WorkerSet \<Rightarrow> nat option list \<Rightarrow> bool" where
  "moves s mine t mine' =
     (ws_threads t = ws_threads s \<and> ws_width t = ws_width s \<and>
      length (ws_slots t) + length mine' + ws_lost t = length (ws_slots s) + length mine + ws_lost s \<and>
      length (ws_workers s) \<le> length (ws_workers t) \<and>
      (\<forall>w. count (mset (ws_slots t) + mset mine') (Some w) \<le>
         count (mset (ws_slots s) + mset mine) (Some w) +
         (if length (ws_workers s) \<le> w \<and> w < length (ws_workers t) then 1 else 0)))"

lemmas set_ops = put_slot_def register_def unregister_def on_worker_def add_worker_def

lemma use_step_moves: "worker_use_step watched i p s q t \<Longrightarrow> moves s (job_tokens p) t (job_tokens q)"
  by (induction rule: worker_use_step.induct) (simp_all add: moves_def set_ops)

lemma job_step_moves: "job_step watched i p s q t \<Longrightarrow> moves s (job_tokens p) t (job_tokens q)"
proof (induction rule: job_step.induct)
  case (use_worker p s q t)
  then show ?case by (rule use_step_moves)
qed (simp_all add: moves_def set_ops)

lemma closer_step_moves: "closer_step p s q t \<Longrightarrow> moves s (closer_tokens p) t (closer_tokens q)"
  by (induction rule: closer_step.induct) (simp_all add: moves_def set_ops)

text \<open>Replacing one element of a list of which a sum is taken.\<close>

lemma sum_list_update_split:
  fixes f :: "'a \<Rightarrow> 'b::comm_monoid_add"
  assumes "i < length xs"
  shows "(\<Sum>x\<leftarrow>xs[i := y]. f x) = f y + (\<Sum>x\<leftarrow>take i xs @ drop (Suc i) xs. f x)"
    and "(\<Sum>x\<leftarrow>xs. f x) = f (xs ! i) + (\<Sum>x\<leftarrow>take i xs @ drop (Suc i) xs. f x)"
  using assms by (simp_all add: upd_conv_take_nth_drop ac_simps)
    (subst id_take_nth_drop [OF assms], simp add: ac_simps)

definition owned :: "WorkerSet \<Rightarrow> bool" where
  "owned s = (\<forall>w. count (all_slots s) (Some w) \<le> (if w < length (ws_workers s) then 1 else 0))"

definition accounted :: "WorkerSet \<Rightarrow> bool" where
  "accounted s = (size (all_slots s) + ws_lost s = ws_width s)"

lemma one_slot_arith:
  fixes a b c n m w :: nat
  assumes "a \<le> b + (if n \<le> w \<and> w < m then 1 else 0)" and "n \<le> m"
    and "b + c \<le> (if w < n then 1 else 0)"
  shows "a + c \<le> (if w < m then 1 else 0)"
  using assms by (cases "w < n"; cases "w < m") simp_all

lemma moves_slots:
  assumes "i < length (ws_threads s)" and "moves s (tokens (ws_threads s ! i)) t (tokens th)"
    and "u = t\<lparr>ws_threads := (ws_threads t)[i := th]\<rparr>"
  shows "owned s \<Longrightarrow> owned u" and "accounted s \<Longrightarrow> accounted u"
proof -
  let ?rest = "\<Sum>x\<leftarrow>take i (ws_threads s) @ drop (Suc i) (ws_threads s). mset (tokens x)"
  have all: "all_slots s = mset (ws_slots s) + mset (tokens (ws_threads s ! i)) + ?rest"
    "all_slots u = mset (ws_slots t) + mset (tokens th) + ?rest"
    using assms by (simp_all add: all_slots_def moves_def
        sum_list_update_split [where f = "\<lambda>th. mset (tokens th)", OF assms(1)] ac_simps del: map_append)
  show "accounted s \<Longrightarrow> accounted u"
    using assms(2,3) unfolding accounted_def all by (simp add: moves_def)
  assume own: "owned s"
  show "owned u"
    unfolding owned_def
  proof
    fix w
    have "count (mset (ws_slots t) + mset (tokens th)) (Some w) \<le>
        count (mset (ws_slots s) + mset (tokens (ws_threads s ! i))) (Some w) +
        (if length (ws_workers s) \<le> w \<and> w < length (ws_workers t) then 1 else 0)"
      and "length (ws_workers s) \<le> length (ws_workers t)"
      using assms(2) by (auto simp: moves_def)
    moreover have "count (all_slots s) (Some w) \<le> (if w < length (ws_workers s) then 1 else 0)"
      using own by (simp add: owned_def)
    moreover have "ws_workers u = ws_workers t" using assms(3) by simp
    ultimately show "count (all_slots u) (Some w) \<le> (if w < length (ws_workers u) then 1 else 0)"
      unfolding all count_union by (metis one_slot_arith)
  qed
qed

lemma slots_step: "set_step watched s e t \<Longrightarrow> owned s \<and> accounted s \<Longrightarrow> owned t \<and> accounted t"
proof (induction rule: set_step.induct)
  case (set_job i s p q t)
  then have "moves s (tokens (ws_threads s ! i)) t (tokens (Job q))" by (simp add: job_step_moves)
  from moves_slots [OF set_job(1) this refl] set_job show ?case by blast
next
  case (set_closer i s p q t)
  then have "moves s (tokens (ws_threads s ! i)) t (tokens (Closer q))" by (simp add: closer_step_moves)
  from moves_slots [OF set_closer(1) this refl] set_closer show ?case by blast
qed (simp add: owned_def accounted_def all_slots_def)

section \<open>Whose answer a job gets\<close>

definition is_answer :: "published \<Rightarrow> bool" where
  "is_answer f = (case f of Answer _ _ \<Rightarrow> True | _ \<Rightarrow> False)"

text \<open>A worker that owes nothing, and one that owes job \<open>i\<close> exactly one answer.\<close>

definition clean :: "Worker \<Rightarrow> bool" where
  "clean v = (wp_requests v = [] \<and> filter is_answer (wp_frames v) = [])"

definition serving :: "nat \<Rightarrow> Worker \<Rightarrow> bool" where
  "serving i v =
     (wp_requests v = [i] \<and> filter is_answer (wp_frames v) = [] \<or>
      wp_requests v = [] \<and> (\<exists>frame. filter is_answer (wp_frames v) = [Answer i frame]))"

fun own_answer :: "nat \<Rightarrow> job_end \<Rightarrow> bool" where
  "own_answer i (Answered j _) = (j = i)"
| "own_answer i _ = True"

fun phase_ok :: "nat \<Rightarrow> job_phase \<Rightarrow> Worker list \<Rightarrow> bool" where
  "phase_ok i (Checking w) ws = clean (ws ! w)"
| "phase_ok i (Registering w) ws = clean (ws ! w)"
| "phase_ok i (Starting w) ws = clean (ws ! w)"
| "phase_ok i (Sending w) ws = clean (ws ! w)"
| "phase_ok i (Receiving w) ws = serving i (ws ! w)"
| "phase_ok i (Exiting w discarded r) ws = (own_answer i r \<and> (\<not> discarded \<longrightarrow> clean (ws ! w)))"
| "phase_ok i (Releasing w r) ws = (own_answer i r \<and> clean (ws ! w))"
| "phase_ok i (Retiring w r) ws = own_answer i r"
| "phase_ok i (Terminating w r) ws = own_answer i r"
| "phase_ok i (Freeing r) ws = own_answer i r"
| "phase_ok i (Finished r) ws = own_answer i r"
| "phase_ok i _ ws = True"

definition same_debt :: "Worker \<Rightarrow> Worker \<Rightarrow> bool" where
  "same_debt v v' = ((clean v \<longrightarrow> clean v') \<and> (\<forall>i. serving i v \<longrightarrow> serving i v'))"

lemma same_debt_refl [simp]: "same_debt v v"
  by (simp add: same_debt_def)

lemma same_debtI:
  "wp_requests v' = wp_requests v \<Longrightarrow> filter is_answer (wp_frames v') = filter is_answer (wp_frames v) \<Longrightarrow>
    same_debt v v'"
  by (simp add: same_debt_def clean_def serving_def)

lemma same_debt_ends [simp]: "same_debt v (ends code v)"
  by (rule same_debtI) (simp_all add: ends_def is_answer_def)

lemma same_debt_close [simp]: "same_debt v (close_requests v)" "same_debt v (kill v)"
  by (auto simp: close_requests_def kill_def intro: same_debtI)

lemma same_debt_worker_step: "worker_step v v' \<Longrightarrow> same_debt v v'"
proof (induction rule: worker_step.induct)
  case (answer v j rest frame)
  then show ?case by (auto simp: same_debt_def clean_def serving_def is_answer_def)
qed (auto intro: same_debtI simp: is_answer_def)

lemma phase_ok_mono:
  "phase_ok i p ws \<Longrightarrow> (\<And>w. Some w \<in> set (job_tokens p) \<Longrightarrow> same_debt (ws ! w) (ws' ! w)) \<Longrightarrow>
    phase_ok i p ws'"
  by (cases p) (auto simp: same_debt_def)

definition debts_ok :: "WorkerSet \<Rightarrow> bool" where
  "debts_ok s =
     ((\<forall>w. Some w \<in> set (ws_slots s) \<longrightarrow> clean (ws_workers s ! w)) \<and>
      (\<forall>i p. i < length (ws_threads s) \<longrightarrow> ws_threads s ! i = Job p \<longrightarrow> phase_ok i p (ws_workers s)))"

lemma held_below:
  assumes "owned s" and "Some w \<in># all_slots s"
  shows "w < length (ws_workers s)"
  using assms by (force simp: owned_def split: if_splits)

lemma queued_slot: "Some w \<in> set (ws_slots s) \<Longrightarrow> Some w \<in># all_slots s"
  by (simp add: all_slots_def)

lemma in_sum_list_mset: "x \<in># (\<Sum>y\<leftarrow>ys. f y) \<longleftrightarrow> (\<exists>y\<in>set ys. x \<in># f y)"
  by (induction ys) auto

lemma thread_slot: "i < length (ws_threads s) \<Longrightarrow> Some w \<in> set (tokens (ws_threads s ! i)) \<Longrightarrow> Some w \<in># all_slots s"
  by (auto simp: all_slots_def in_sum_list_mset intro: nth_mem)

lemma unique_holder:
  assumes own: "owned s" and i: "i < length (ws_threads s)" "Some w \<in> set (tokens (ws_threads s ! i))"
  shows "Some w \<notin> set (ws_slots s)"
    and "k < length (ws_threads s) \<Longrightarrow> Some w \<in> set (tokens (ws_threads s ! k)) \<Longrightarrow> k = i"
proof -
  let ?rest = "\<Sum>x\<leftarrow>take i (ws_threads s) @ drop (Suc i) (ws_threads s). mset (tokens x)"
  have all: "all_slots s = mset (ws_slots s) + mset (tokens (ws_threads s ! i)) + ?rest"
    using sum_list_update_split(2) [where f = "\<lambda>th. mset (tokens th)", OF i(1)]
    by (simp add: all_slots_def del: map_append)
  have "count (all_slots s) (Some w) \<le> (if w < length (ws_workers s) then 1 else 0)"
    using own by (simp add: owned_def)
  then have "count (all_slots s) (Some w) \<le> 1" by (rule order_trans) simp
  moreover have "1 \<le> count (mset (tokens (ws_threads s ! i))) (Some w)"
    using i(2) by (metis One_nat_def Suc_leI count_greater_zero_iff set_mset_mset)
  ultimately have "count (mset (ws_slots s)) (Some w) = 0" and rest: "count ?rest (Some w) = 0"
    unfolding all count_union by linarith+
  then show "Some w \<notin> set (ws_slots s)" by (metis count_eq_zero_iff set_mset_mset)
  assume k: "k < length (ws_threads s)" "Some w \<in> set (tokens (ws_threads s ! k))"
  show "k = i"
  proof (rule ccontr)
    assume "k \<noteq> i"
    then have "ws_threads s ! k \<in> set (take i (ws_threads s) @ drop (Suc i) (ws_threads s))"
    proof (cases "k < i")
      case True
      then have "take i (ws_threads s) ! k \<in> set (take i (ws_threads s))" using k(1) by (intro nth_mem) simp
      then show ?thesis using True by simp
    next
      case False
      then have "drop (Suc i) (ws_threads s) ! (k - Suc i) \<in> set (drop (Suc i) (ws_threads s))"
        using k(1) \<open>k \<noteq> i\<close> by (intro nth_mem) simp
      then show ?thesis using False \<open>k \<noteq> i\<close> k(1) by simp
    qed
    then have "Some w \<in># ?rest" using k(2) by (subst in_sum_list_mset) auto
    then show False using rest by (metis count_eq_zero_iff)
  qed
qed

lemma nth_on_worker:
  "ws_workers (on_worker w f s) ! v =
     (if v = w \<and> w < length (ws_workers s) then f (ws_workers s ! w) else ws_workers s ! v)"
  by (cases "w < length (ws_workers s)") (simp_all add: on_worker_def nth_list_update list_update_beyond not_less)

lemma on_worker_rest [simp]:
  "ws_slots (on_worker w f s) = ws_slots s" "ws_threads (on_worker w f s) = ws_threads s"
  "ws_live (on_worker w f s) = ws_live s" "ws_closed (on_worker w f s) = ws_closed s"
  "ws_leaked (on_worker w f s) = ws_leaked s" "length (ws_workers (on_worker w f s)) = length (ws_workers s)"
  by (simp_all add: on_worker_def)

lemma use_step_debts:
  assumes "worker_use_step watched i p s q t" and "phase_ok i p (ws_workers s)"
    and "\<And>w. Some w \<in> set (job_tokens p) \<Longrightarrow> w < length (ws_workers s)"
    and "\<And>w. Some w \<in> set (ws_slots s) \<Longrightarrow> Some w \<notin> set (job_tokens p) \<and> clean (ws_workers s ! w)"
  shows "phase_ok i q (ws_workers t)"
    and "Some w \<in> set (ws_slots t) \<Longrightarrow>
      Some w \<in> set (ws_slots s) \<and> Some w \<notin> set (job_tokens p) \<or> clean (ws_workers t ! w)"
    and "w < length (ws_workers s) \<Longrightarrow> Some w \<notin> set (job_tokens p) \<Longrightarrow>
      same_debt (ws_workers s ! w) (ws_workers t ! w)"
    and "ws_threads t = ws_threads s"
  using assms by (induction rule: worker_use_step.induct)
    (auto simp: put_slot_def register_def unregister_def add_worker_def nth_on_worker nth_append
      clean_def serving_def is_answer_def spawned_worker_def
      split: published.splits)

lemma job_step_debts:
  assumes "job_step watched i p s q t" and "phase_ok i p (ws_workers s)"
    and "\<And>w. Some w \<in> set (job_tokens p) \<Longrightarrow> w < length (ws_workers s)"
    and "\<And>w. Some w \<in> set (ws_slots s) \<Longrightarrow> Some w \<notin> set (job_tokens p) \<and> clean (ws_workers s ! w)"
  shows "phase_ok i q (ws_workers t)"
    and "Some w \<in> set (ws_slots t) \<Longrightarrow>
      Some w \<in> set (ws_slots s) \<and> Some w \<notin> set (job_tokens p) \<or> clean (ws_workers t ! w)"
    and "w < length (ws_workers s) \<Longrightarrow> Some w \<notin> set (job_tokens p) \<Longrightarrow>
      same_debt (ws_workers s ! w) (ws_workers t ! w)"
    and "ws_threads t = ws_threads s"
  using assms
  by (induction rule: job_step.induct)
    (auto simp: put_slot_def register_def unregister_def add_worker_def nth_on_worker nth_append
      clean_def spawned_worker_def dest: use_step_debts)

lemma closer_step_debts:
  assumes "closer_step p s q t"
  shows "Some w \<in> set (ws_slots t) \<Longrightarrow> Some w \<in> set (ws_slots s)"
    and "same_debt (ws_workers s ! w) (ws_workers t ! w)" and "ws_threads t = ws_threads s"
  using assms by (induction rule: closer_step.induct) (auto simp: put_slot_def nth_on_worker)

lemma debts_step:
  assumes "set_step watched s e t" and own: "owned s" and debts: "debts_ok s"
  shows "debts_ok t"
  using assms(1)
proof (cases rule: set_step.cases)
  case (set_job i p q t')
  have below: "w < length (ws_workers s)" if "Some w \<in> set (job_tokens p)" for w
    using held_below [OF own thread_slot] set_job that by force
  have apart: "Some w \<notin> set (job_tokens p) \<and> clean (ws_workers s ! w)" if "Some w \<in> set (ws_slots s)" for w
    using unique_holder(1) [OF own set_job(3), of w] set_job(4) that debts by (auto simp: debts_ok_def)
  have ok: "phase_ok i p (ws_workers s)" using debts set_job by (simp add: debts_ok_def)
  note step = job_step_debts [OF set_job(5) ok below apart]
  have "clean (ws_workers t' ! w)" if "Some w \<in> set (ws_slots t')" for w
  proof (cases "Some w \<in> set (ws_slots s) \<and> Some w \<notin> set (job_tokens p)")
    case True
    then have "w < length (ws_workers s)" using held_below [OF own queued_slot] by blast
    with True step(3) have "same_debt (ws_workers s ! w) (ws_workers t' ! w)" by blast
    with True apart show ?thesis by (auto simp: same_debt_def)
  qed (use step(2) that in blast)
  moreover have "phase_ok k p' (ws_workers t')"
    if k: "k < length (ws_threads s)" "ws_threads s ! k = Job p'" "k \<noteq> i" for k p'
  proof (rule phase_ok_mono)
    show "phase_ok k p' (ws_workers s)" using debts k by (simp add: debts_ok_def)
    fix w
    assume w: "Some w \<in> set (job_tokens p')"
    then have "Some w \<notin> set (job_tokens p)"
      using unique_holder(2) [OF own set_job(3), of w k] set_job(4) k by auto
    moreover have "w < length (ws_workers s)" using held_below [OF own thread_slot] k w by force
    ultimately show "same_debt (ws_workers s ! w) (ws_workers t' ! w)" using step(3) by blast
  qed
  ultimately show ?thesis
    using step(1,4) set_job by (auto simp: debts_ok_def nth_list_update)
next
  case (set_closer i p q t')
  note step = closer_step_debts [OF set_closer(5)]
  have "clean (ws_workers t' ! w)" if "Some w \<in> set (ws_slots t')" for w
    using step(1) [OF that] step(2) [of w] debts by (auto simp: debts_ok_def same_debt_def)
  moreover have "phase_ok k p' (ws_workers t')" if "k < length (ws_threads s)" "ws_threads s ! k = Job p'" for k p'
    by (rule phase_ok_mono [of _ _ "ws_workers s"]) (use step(2) that debts in \<open>auto simp: debts_ok_def\<close>)
  ultimately show ?thesis
    using step(3) set_closer by (auto simp: debts_ok_def nth_list_update)
next
  case (set_worker w v)
  then have same: "same_debt (ws_workers s ! x) (ws_workers t ! x)" for x
    by (cases "x = w") (simp_all add: same_debt_worker_step)
  have "clean (ws_workers t ! x)" if "Some x \<in> set (ws_slots s)" for x
    using that debts same [of x] by (auto simp: debts_ok_def same_debt_def)
  moreover have "phase_ok k p (ws_workers t)" if "k < length (ws_threads s)" "ws_threads s ! k = Job p" for k p
    by (rule phase_ok_mono [of _ _ "ws_workers s"]) (use same that debts in \<open>auto simp: debts_ok_def\<close>)
  ultimately show ?thesis using set_worker by (simp add: debts_ok_def)
qed

section \<open>Which workers live on\<close>

fun reaping_job :: "job_phase \<Rightarrow> nat set" where
  "reaping_job (Registering w) = {w}"
| "reaping_job (Terminating w _) = {w}"
| "reaping_job _ = {}"

fun reaping :: "thread \<Rightarrow> nat set" where
  "reaping (Job p) = reaping_job p"
| "reaping (Closer (Killing ws)) = set ws"
| "reaping (Closer _) = {}"

text \<open>
  Every living worker is registered, about to be registered or terminated by some thread, or was
  left behind by a spawn that failed after the process had started.
\<close>

definition attended :: "WorkerSet \<Rightarrow> bool" where
  "attended s =
     (\<forall>w < length (ws_workers s). alive (ws_workers s ! w) \<longrightarrow>
        w \<in> set (ws_live s) \<or> w \<in> ws_leaked s \<or> (\<exists>th\<in>set (ws_threads s). w \<in> reaping th))"

text \<open>Once the set is closed and the closing thread has taken the registry, it stays empty.\<close>

definition emptied :: "WorkerSet \<Rightarrow> bool" where
  "emptied s =
     ((\<forall>p. Closer p \<in> set (ws_threads s) \<longrightarrow> p = Closing \<or> p = Setting \<or> ws_closed s) \<and>
      (ws_closed s \<longrightarrow> ws_live s = [] \<or> Closer Snapshotting \<in> set (ws_threads s)))"

definition stray :: "WorkerSet \<Rightarrow> nat set \<Rightarrow> nat \<Rightarrow> bool" where
  "stray s reaped w =
     (w < length (ws_workers s) \<and> alive (ws_workers s ! w) \<and> w \<notin> set (ws_live s) \<and> w \<notin> ws_leaked s \<and>
      w \<notin> reaped)"

lemma alive_after [simp]: "\<not> alive (kill v)" "alive (close_requests v) = alive v" "\<not> alive (ends code v)"
  by (simp_all add: kill_def ends_def close_requests_def alive_def)

lemma alive_update [simp]:
  "alive (v\<lparr>wp_frames := fs\<rparr>) = alive v" "alive (v\<lparr>wp_frames := fs, wp_ready := b\<rparr>) = alive v"
  "alive (v\<lparr>wp_requests := rs\<rparr>) = alive v" "alive (v\<lparr>wp_requests := rs, wp_frames := fs\<rparr>) = alive v"
  "alive (v\<lparr>wp_announced := b, wp_frames := fs\<rparr>) = alive v"
  by (simp_all add: alive_def)

lemma use_step_strays:
  "worker_use_step watched i p s q t \<Longrightarrow> stray t (reaping_job q) w \<Longrightarrow> stray s (reaping_job p) w"
  by (induction rule: worker_use_step.induct)
    (auto simp: stray_def put_slot_def register_def unregister_def add_worker_def nth_on_worker nth_append
      split: if_splits)

lemma job_step_strays:
  "job_step watched i p s q t \<Longrightarrow> stray t (reaping_job q) w \<Longrightarrow> stray s (reaping_job p) w"
  by (induction rule: job_step.induct)
    (auto simp: stray_def put_slot_def register_def unregister_def add_worker_def nth_on_worker nth_append
      dest: use_step_strays split: if_splits)

lemma closer_step_strays:
  "closer_step p s q t \<Longrightarrow> stray t (reaping (Closer q)) w \<Longrightarrow> stray s (reaping (Closer p)) w"
  by (induction rule: closer_step.induct)
    (auto simp: stray_def put_slot_def nth_on_worker split: if_splits)

lemma worker_step_alive: "worker_step v v' \<Longrightarrow> alive v"
  by (induction rule: worker_step.induct) simp_all

lemma attended_update:
  assumes "i < length (ws_threads s)" and "ws_threads t = ws_threads s"
    and "\<And>w. stray t (reaping th) w \<Longrightarrow> stray s (reaping (ws_threads s ! i)) w" and "attended s"
  shows "attended (t\<lparr>ws_threads := (ws_threads t)[i := th]\<rparr>)"
  unfolding attended_def
proof (intro allI impI)
  fix w
  let ?t = "t\<lparr>ws_threads := (ws_threads t)[i := th]\<rparr>"
  assume w: "w < length (ws_workers ?t)" "alive (ws_workers ?t ! w)"
  show "w \<in> set (ws_live ?t) \<or> w \<in> ws_leaked ?t \<or> (\<exists>th\<in>set (ws_threads ?t). w \<in> reaping th)"
  proof (cases "stray t (reaping th) w")
    case True
    then have "stray s (reaping (ws_threads s ! i)) w" by (rule assms(3))
    then obtain x where x: "x \<in> set (ws_threads s)" "w \<in> reaping x" "x \<noteq> ws_threads s ! i"
      using assms(4) by (auto simp: stray_def attended_def)
    then obtain k where "k < length (ws_threads s)" "ws_threads s ! k = x" "k \<noteq> i"
      by (metis in_set_conv_nth)
    then have "x \<in> set (ws_threads ?t)"
      using assms(2) by (auto simp: in_set_conv_nth intro!: exI [of _ k])
    then show ?thesis using x by blast
  next
    case False
    moreover have "th \<in> set (ws_threads ?t)" using assms(1,2) by (simp add: set_update_memI)
    ultimately show ?thesis using w by (auto simp: stray_def)
  qed
qed

lemma attended_step: "set_step watched s e t \<Longrightarrow> attended s \<Longrightarrow> attended t"
proof (induction rule: set_step.induct)
  case (set_job i s p q t)
  then show ?case
    by (intro attended_update) (auto dest: job_step_strays job_step_moves simp: moves_def)
next
  case (set_closer i s p q t)
  then show ?case
    by (intro attended_update) (auto dest: closer_step_strays closer_step_moves simp: moves_def simp del: reaping.simps)
next
  case (set_worker w s v)
  then show ?case
    by (auto simp: attended_def nth_list_update dest: worker_step_alive split: if_splits)
qed

lemma use_step_emptied:
  "worker_use_step watched i p s q t \<Longrightarrow> ws_closed t = ws_closed s \<and> (ws_closed s \<longrightarrow> ws_live s = [] \<longrightarrow> ws_live t = [])"
  by (induction rule: worker_use_step.induct)
    (auto simp: put_slot_def register_def unregister_def add_worker_def)

lemma job_step_emptied:
  "job_step watched i p s q t \<Longrightarrow> ws_closed t = ws_closed s \<and> (ws_closed s \<longrightarrow> ws_live s = [] \<longrightarrow> ws_live t = [])"
  by (induction rule: job_step.induct)
    (auto simp: put_slot_def register_def unregister_def add_worker_def dest: use_step_emptied)

lemma emptied_step: "set_step watched s e t \<Longrightarrow> emptied s \<Longrightarrow> emptied t"
proof (induction rule: set_step.induct)
  case (set_job i s p q t)
  have threads: "ws_threads t = ws_threads s" using job_step_moves [OF set_job(3)] by (simp add: moves_def)
  have "Closer c \<in> set ((ws_threads s)[i := Job q]) \<longleftrightarrow> Closer c \<in> set (ws_threads s)" for c
    using set_job(1,2) by (auto simp: in_set_conv_nth nth_list_update) (metis thread.distinct(1))
  then show ?case
    using job_step_emptied [OF set_job(3)] set_job(4) threads by (auto simp: emptied_def)
next
  case (set_closer i s p q t)
  have threads: "ws_threads t = ws_threads s" using closer_step_moves [OF set_closer(3)] by (simp add: moves_def)
  have q: "Closer q \<in> set ((ws_threads s)[i := Closer q])" using set_closer(1) by (rule set_update_memI)
  have sub: "Closer c \<in> set ((ws_threads s)[i := Closer q]) \<Longrightarrow> c = q \<or> Closer c \<in> set (ws_threads s)" for c
    using set_update_subset_insert [of "ws_threads s" i "Closer q"] by blast
  have keep: "Closer c \<in> set (ws_threads s) \<Longrightarrow> c \<noteq> p \<Longrightarrow> Closer c \<in> set ((ws_threads s)[i := Closer q])" for c
    using set_closer(1,2) by (auto simp: in_set_conv_nth nth_list_update) (metis thread.inject(2))
  have p: "Closer p \<in> set (ws_threads s)" using set_closer(1,2) by (metis nth_mem)
  from set_closer(3) show ?case
    using set_closer(4) p sub keep q unfolding emptied_def threads
    by (cases rule: closer_step.cases) (auto simp: threads put_slot_def)
qed (simp add: emptied_def)

section \<open>The invariant of the worker set\<close>

definition set_inv :: "WorkerSet \<Rightarrow> bool" where
  "set_inv s = (owned s \<and> accounted s \<and> debts_ok s \<and> attended s \<and> emptied s)"

interpretation worker_set: invariant_system "set_step watched" set_inv
  for watched :: "nat \<Rightarrow> bool"
  by unfold_locales (auto simp: set_inv_def dest: slots_step debts_step attended_step emptied_step)

lemma fresh_tokens: "list_all fresh_thread ths \<Longrightarrow> (\<Sum>th\<leftarrow>ths. mset (tokens th)) = {#}"
  by (induction ths) (auto simp: fresh_thread_def)

lemma set_inv_new:
  assumes "list_all fresh_thread ths"
  shows "set_inv (WorkerSet_new width ths)"
proof -
  have "all_slots (WorkerSet_new width ths) = replicate_mset width None"
    using fresh_tokens [OF assms] by (simp add: all_slots_def WorkerSet_new_def)
  moreover have "ths ! i = Job p \<Longrightarrow> i < length ths \<Longrightarrow> phase_ok i p []"
    "Closer c \<in> set ths \<Longrightarrow> c = Closing" for i p c
    using assms by (auto simp: list_all_length fresh_thread_def in_set_conv_nth)
  ultimately show ?thesis
    by (auto simp: set_inv_def owned_def accounted_def debts_ok_def attended_def emptied_def WorkerSet_new_def)
qed

lemma trace_width: "trace (set_step watched) s es t \<Longrightarrow> ws_width t = ws_width s \<and> length (ws_threads t) = length (ws_threads s)"
proof (induction rule: trace.induct)
  case (trace_snoc s es t e u)
  from trace_snoc(2) have "ws_width u = ws_width t \<and> length (ws_threads u) = length (ws_threads t)"
    by (cases rule: set_step.cases) (auto dest: job_step_moves closer_step_moves simp: moves_def)
  with trace_snoc show ?case by simp
qed simp

lemma set_run_inv:
  assumes "set_run watched width n es s"
  shows "set_inv s" and "ws_width s = width" and "length (ws_threads s) = n"
proof -
  obtain ths where ths: "length ths = n" "list_all fresh_thread ths"
    "trace (set_step watched) (WorkerSet_new width ths) es s"
    using assms by (auto simp: set_run_def)
  show "set_inv s" by (rule worker_set.trace_inv [OF ths(3) set_inv_new [OF ths(2)]])
  show "ws_width s = width" "length (ws_threads s) = n"
    using trace_width [OF ths(3)] ths(1) by (simp_all add: WorkerSet_new_def)
qed

lemma use_step_lost: "worker_use_step watched i p s q t \<Longrightarrow> ws_lost s \<le> ws_lost t"
  by (induction rule: worker_use_step.induct) (simp_all add: set_ops)

lemma job_step_lost: "job_step watched i p s q t \<Longrightarrow> ws_lost s \<le> ws_lost t"
  by (induction rule: job_step.induct) (simp_all add: set_ops use_step_lost)

lemma closer_step_lost: "closer_step p s q t \<Longrightarrow> ws_lost s \<le> ws_lost t"
  by (induction rule: closer_step.induct) (simp_all add: set_ops)

lemma set_step_lost: "set_step watched s e t \<Longrightarrow> ws_lost s \<le> ws_lost t"
  by (cases rule: set_step.cases) (auto dest: job_step_lost closer_step_lost)

lemma size_all_slots: "size (all_slots s) = length (ws_slots s) + (\<Sum>th\<leftarrow>ws_threads s. length (tokens th))"
proof -
  have "size (\<Sum>th\<leftarrow>ths. mset (tokens th)) = (\<Sum>th\<leftarrow>ths. length (tokens th))" for ths
    by (induction ths) simp_all
  then show ?thesis by (simp add: all_slots_def)
qed

inductive_cases use_waiting_step: "worker_use_step watched i Waiting s q t"
inductive_cases waiting_step: "job_step watched i Waiting s q t"

lemma waiting_stays:
  assumes "set_step watched s e t" and "i < length (ws_threads s)" and "ws_threads s ! i = Job Waiting"
    and "\<not> watched i" and "ws_slots s = []"
  shows "ws_threads t ! i = Job Waiting"
  using assms(1)
proof (cases rule: set_step.cases)
  case (set_job k p q u)
  then have "ws_threads u = ws_threads s" using job_step_moves by (auto simp: moves_def)
  moreover have "k \<noteq> i" using set_job assms(3-5) by (auto elim!: waiting_step use_waiting_step)
  ultimately show ?thesis using set_job assms(3) by simp
next
  case (set_closer k p q u)
  then have "ws_threads u = ws_threads s" using closer_step_moves by (auto simp: moves_def)
  moreover have "k \<noteq> i" using set_closer assms(3) by auto
  ultimately show ?thesis using set_closer assms(3) by simp
qed (use assms(3) in simp)

lemma starving:
  assumes "trace (set_step watched) s es t" and "set_inv s" and "ws_lost s = ws_width s"
    and "i < length (ws_threads s)" and "ws_threads s ! i = Job Waiting" and "\<not> watched i"
  shows "set_inv t \<and> ws_lost t = ws_width t \<and> i < length (ws_threads t) \<and> ws_threads t ! i = Job Waiting"
  using assms
proof (induction rule: trace.induct)
  case (trace_snoc s es t e u)
  then have t: "set_inv t" "ws_lost t = ws_width t" "i < length (ws_threads t)" "ws_threads t ! i = Job Waiting"
    by blast+
  have one: "trace (set_step watched) t [e] u" by (rule trace_single) (rule trace_snoc(2))
  have u: "set_inv u" by (rule worker_set.trace_inv [OF one t(1)])
  have "ws_width u = ws_width t" "length (ws_threads u) = length (ws_threads t)" using trace_width [OF one] by simp_all
  moreover have "ws_lost u = ws_width u"
    using set_step_lost [OF trace_snoc(2)] u t(2) calculation(1) by (simp add: set_inv_def accounted_def)
  moreover have "ws_slots t = []" using t(1,2) by (simp add: set_inv_def accounted_def all_slots_def)
  ultimately show ?case
    using waiting_stays [OF trace_snoc(2) t(3,4)] trace_snoc.prems u t(3) by simp
qed simp

section \<open>The executor around the worker set\<close>

text \<open>
  \<^verbatim>\<open>__post_init__\<close>: the declared width or the automatic one; \<open>reported\<close> is the host's processor
  count.
\<close>

definition worker_pool_width :: "int option \<Rightarrow> int option \<Rightarrow> (py_exn, int) result" where
  "worker_pool_width reported worker_count =
     bind_result
       (case worker_count of
          None \<Rightarrow> bind_result (resolve_pool_capacity reported AutoPoolCapacity) (\<lambda>c. Inr (epc_max_active_jobs c))
        | Some n \<Rightarrow> Inr n)
       (\<lambda>width. bind_result (ensure (\<not> width < 1) (ValueError ''worker_count must be positive'')) (\<lambda>_. Inr width))"

definition worker_pool_target ::
  "(identity_document \<Rightarrow> bytes) \<Rightarrow> ImportableEntryPoint \<Rightarrow> ExecutionJob \<Rightarrow> (py_exn, identity_document) result" where
  "worker_pool_target canonical_identity entry_point job =
     bind_result (validate_declaration canonical_identity job) (\<lambda>_.
       case job_target job of
         InProcessImportableJsonTarget target_entry_point request \<Rightarrow>
           (if target_entry_point \<noteq> entry_point
            then Inl (ExecutorFailure ''a worker pool serves only the entry point it was opened with''
              ExecutorFailureCode.WORKER_POOL_ENTRY_POINT_MISMATCH)
            else Inr request)
       | _ \<Rightarrow> Inl (ExecutorFailure
           ''the worker pool executor accepts only in-process importable JSON targets''
           ExecutorFailureCode.WORKER_POOL_TARGET_MISMATCH))"

text \<open>The stop condition of \<^verbatim>\<open>_dispatch\<close>, before and after it has a worker.\<close>

definition dispatch_watch :: "WorkerExecution \<Rightarrow> int option \<Rightarrow> bool \<Rightarrow> bool \<Rightarrow> StopWatch" where
  "dispatch_watch execution deadline_ns has_token has_worker =
     \<lparr>sw_deadline_ns = (case deadline_ns of None \<Rightarrow> None | Some d \<Rightarrow> Some (we_started_ns execution + d)),
      sw_has_token = has_token, sw_started = has_worker\<rparr>"

text \<open>
  What \<^verbatim>\<open>_dispatch\<close> and \<^verbatim>\<open>_exchange\<close> return for each way the use of a worker ends; \<open>loads\<close> and
  \<open>py_str\<close> are those of \<open>interpret_frame\<close>.
\<close>

definition dispatch_completion ::
  "(bytes \<Rightarrow> (string, identity_document) result) \<Rightarrow> (json \<Rightarrow> string) \<Rightarrow> clock \<Rightarrow> WorkerExecution \<Rightarrow> job_end \<Rightarrow>
     (py_exn, CompletedExecution) result" where
  "dispatch_completion loads py_str now execution r =
     (case r of
        Answered _ frame \<Rightarrow> interpret_frame loads py_str now execution frame
      | Stopped outcome \<Rightarrow> worker_completed now execution outcome [] None None
      | Died code \<Rightarrow> worker_completed now execution (death code) []
          (Some ''the worker died while running the payload'') None
      | StartupFailed \<Rightarrow>
          protocol_failed now execution ''the worker failed its entry-point import at startup''
      | SpawnRefused e m \<Rightarrow> worker_completed now execution (SpawnFailedOutcome e m) [] None None
      | SetClosed \<Rightarrow>
          protocol_failed now execution ''the worker pool closed while this job was starting a worker''
      | Escaped \<Rightarrow> Inl (ValueError ''I/O operation on closed file''))"

definition worker_run_blocking ::
  "(uuid \<Rightarrow> bytes \<Rightarrow> uuid) \<Rightarrow> (identity_document \<Rightarrow> bytes) \<Rightarrow> (bytes \<Rightarrow> (string, identity_document) result) \<Rightarrow>
     (json \<Rightarrow> string) \<Rightarrow> ImportableEntryPoint \<Rightarrow> clock \<Rightarrow> clock \<Rightarrow> bool \<Rightarrow> job_end \<Rightarrow> ExecutionJob \<Rightarrow>
     (py_exn, CompletedExecution) result" where
  "worker_run_blocking uuid5 canonical_identity loads py_str entry_point start now is_cancelled r job =
     bind_result (worker_pool_target canonical_identity entry_point job) (\<lambda>request.
       let execution = worker_attempt uuid5 canonical_identity start job request
       in if is_cancelled then worker_completed now execution (CancelledOutcome False) [] None None
          else dispatch_completion loads py_str now execution r)"

definition worker_pool_run_many ::
  "int option \<Rightarrow> int \<Rightarrow> PoolCapacity option \<Rightarrow> ExecutionJob list \<Rightarrow> (py_exn, batch) result" where
  "worker_pool_run_many reported width config jobs =
     bind_result (batch_capacity reported config (FixedPoolCapacity width)) (\<lambda>n. run_batch_start n jobs)"

definition worker_pool_open_pool :: "int \<Rightarrow> PoolCapacity option \<Rightarrow> 'c ExecutionPool" where
  "worker_pool_open_pool width config =
     ExecutionPool_new (case config of Some c \<Rightarrow> c | None \<Rightarrow> FixedPoolCapacity width)"

definition worker_pool_returns ::
  "(uuid \<Rightarrow> bytes \<Rightarrow> uuid) \<Rightarrow> (identity_document \<Rightarrow> bytes) \<Rightarrow> (bytes \<Rightarrow> (string, identity_document) result) \<Rightarrow>
     (json \<Rightarrow> string) \<Rightarrow> ImportableEntryPoint \<Rightarrow> ExecutionJob \<Rightarrow> CompletedExecution \<Rightarrow> bool" where
  "worker_pool_returns uuid5 canonical_identity loads py_str entry_point job c =
     (\<exists>start now is_cancelled r.
        worker_run_blocking uuid5 canonical_identity loads py_str entry_point start now is_cancelled r job = Inr c)"

lemma worker_completed_ids:
  "worker_completed now y outcome outputs detail override = Inr c \<Longrightarrow>
    res_execution_id (ce_result c) = we_execution_id y \<and>
    ce_record_receipt c = WorkerPoolRecordReceipt (we_execution_id y)"
  by (auto simp: worker_completed_def completed_execution_def CompletedExecution_new_def Let_def result_simps
      split: if_splits)

lemma protocol_failed_ids:
  "protocol_failed now y m = Inr c \<Longrightarrow>
    res_execution_id (ce_result c) = we_execution_id y \<and>
    ce_record_receipt c = WorkerPoolRecordReceipt (we_execution_id y)"
  unfolding protocol_failed_def by (rule worker_completed_ids)

lemma dispatch_ids:
  "dispatch_completion loads py_str now y r = Inr c \<Longrightarrow>
    res_execution_id (ce_result c) = we_execution_id y \<and>
    ce_record_receipt c = WorkerPoolRecordReceipt (we_execution_id y)"
  unfolding dispatch_completion_def interpret_frame_def Let_def
  by (auto split: job_end.splits sum.splits option.splits WorkerFrameStatus.splits
      dest: worker_completed_ids protocol_failed_ids)

lemma worker_pool_ids:
  assumes "worker_pool_returns uuid5 canonical_identity loads py_str entry_point job c"
  shows "res_execution_id (ce_result c) = job_execution_id uuid5 job \<and>
    ce_record_receipt c = WorkerPoolRecordReceipt (job_execution_id uuid5 job)"
  using assms
  by (auto simp: worker_pool_returns_def worker_run_blocking_def result_simps Let_def worker_attempt_def
      job_execution_id_def split: if_splits dest!: worker_completed_ids dispatch_ids)

interpretation worker_pool: executor
  "worker_pool_returns uuid5 canonical_identity loads py_str entry_point" "job_execution_id uuid5"
  for uuid5 canonical_identity loads py_str entry_point
  by unfold_locales (auto simp: job_execution_id_def dest: worker_pool_ids)

section \<open>Three short runs\<close>

text \<open>A pool of width one, a job and a thread that closes the pool.\<close>

definition pool_at ::
  "nat option list \<Rightarrow> bool \<Rightarrow> nat list \<Rightarrow> Worker list \<Rightarrow> job_phase \<Rightarrow> closer_phase \<Rightarrow> WorkerSet" where
  "pool_at slots is_closed lv ws p c =
     \<lparr>ws_width = 1, ws_slots = slots, ws_closed = is_closed, ws_live = lv, ws_workers = ws,
      ws_threads = [Job p, Closer c], ws_lost = 0, ws_leaked = {}\<rparr>"

definition reaches :: "WorkerSet \<Rightarrow> WorkerSet \<Rightarrow> bool" where
  "reaches s t = (\<exists>es. trace (set_step (\<lambda>_. False)) s es t)"

lemma reaches_trans [trans]: "reaches s t \<Longrightarrow> reaches t u \<Longrightarrow> reaches s u"
  unfolding reaches_def by (blast intro: trace_append)

lemma reaches_job:
  "job_step (\<lambda>_. False) 0 p (pool_at sl cl lv ws p c) q (pool_at sl' cl' lv' ws' p c) \<Longrightarrow>
    reaches (pool_at sl cl lv ws p c) (pool_at sl' cl' lv' ws' q c)"
  unfolding reaches_def
  using set_job [of 0 "pool_at sl cl lv ws p c" p "\<lambda>_. False" q "pool_at sl' cl' lv' ws' p c"]
  by (auto simp: pool_at_def intro!: exI [of _ "[Thread 0]"] trace_single)

lemma reaches_closer:
  "closer_step c (pool_at sl cl lv ws p c) d (pool_at sl' cl' lv' ws' p c) \<Longrightarrow>
    reaches (pool_at sl cl lv ws p c) (pool_at sl' cl' lv' ws' p d)"
  unfolding reaches_def
  using set_closer [of 1 "pool_at sl cl lv ws p c" c d "pool_at sl' cl' lv' ws' p c" "\<lambda>_. False"]
  by (auto simp: pool_at_def intro!: exI [of _ "[Thread 1]"] trace_single)

lemma reaches_worker:
  "worker_step v v' \<Longrightarrow> reaches (pool_at sl cl lv [v] p c) (pool_at sl cl lv [v'] p c)"
  unfolding reaches_def
  using set_worker [of 0 "pool_at sl cl lv [v] p c" v' "\<lambda>_. False"]
  by (auto simp: pool_at_def intro!: exI [of _ "[Process 0]"] trace_single)

lemmas pool_run = pool_at_def set_ops spawned_worker_def alive_def kill_def ends_def close_requests_def

definition serving_worker :: "nat list \<Rightarrow> published list \<Rightarrow> Worker" where
  "serving_worker requests frames =
     \<lparr>wp_exit = None, wp_announced = True, wp_requests = requests, wp_frames = frames, wp_ready = True, wp_open = True\<rparr>"

definition killed_worker :: Worker where
  "killed_worker = \<lparr>wp_exit = Some (- 9), wp_announced = True, wp_requests = [], wp_frames = [EndOfFrames],
     wp_ready = True, wp_open = False\<rparr>"

lemma run_to_sending:
  "reaches (WorkerSet_new 1 [Job Entering, Closer Closing]) (pool_at [] False [0] [serving_worker [] []] (Sending 0) Closing)"
proof -
  have "WorkerSet_new 1 [Job Entering, Closer Closing] = pool_at [None] False [] [] Entering Closing"
    by (simp add: WorkerSet_new_def pool_at_def)
  also have "reaches \<dots> (pool_at [None] False [] [] Waiting Closing)"
    by (rule reaches_job, rule enter_open) (simp add: pool_at_def)
  also have "reaches \<dots> (pool_at [] False [] [] Spawning Closing)"
    by (rule reaches_job) (use take_empty [of "pool_at [None] False [] [] Waiting Closing" "[]"] in \<open>simp add: pool_run\<close>)
  also have "reaches \<dots> (pool_at [] False [] [spawned_worker] (Registering 0) Closing)"
    by (rule reaches_job) (use spawn [of _ _ "pool_at [] False [] [] Spawning Closing"] in \<open>simp add: pool_run\<close>)
  also have "reaches \<dots> (pool_at [] False [0] [spawned_worker] (Starting 0) Closing)"
    by (rule reaches_job) (use register_open [of "pool_at [] False [] [spawned_worker] (Registering 0) Closing"] in
      \<open>simp add: pool_run\<close>)
  also have "reaches \<dots> (pool_at [] False [0] [spawned_worker\<lparr>wp_announced := True, wp_frames := [ReadyFrame]\<rparr>]
      (Starting 0) Closing)"
    by (rule reaches_worker) (use announce [of spawned_worker] in \<open>simp add: pool_run\<close>)
  also have "reaches \<dots> (pool_at [] False [0] [serving_worker [] []] (Sending 0) Closing)"
    by (rule reaches_job, rule use_worker) (use start_ready [of "pool_at [] False [0]
      [spawned_worker\<lparr>wp_announced := True, wp_frames := [ReadyFrame]\<rparr>] (Starting 0) Closing" 0] in
      \<open>simp add: pool_run serving_worker_def\<close>)
  finally show ?thesis .
qed

text \<open>The pool closes between the worker's start and the sending of the request.\<close>

lemma run_close:
  assumes "ws = [serving_worker [] []]" and "slots = []"
  shows "reaches (pool_at slots False [0] ws p Closing) (pool_at slots True [] [killed_worker] p Closed)"
proof -
  have "reaches (pool_at slots False [0] ws p Closing) (pool_at slots False [0] ws p Setting)"
    by (rule reaches_closer, rule close_first) (simp add: pool_at_def)
  also have "reaches \<dots> (pool_at slots True [0] ws p Snapshotting)"
    by (rule reaches_closer) (use close_set [of "pool_at slots False [0] ws p Setting"] in \<open>simp add: pool_run\<close>)
  also have "reaches \<dots> (pool_at slots True [] ws p (Killing [0]))"
    by (rule reaches_closer) (use close_snapshot [of "pool_at slots True [0] ws p Snapshotting"] in \<open>simp add: pool_run\<close>)
  also have "reaches \<dots> (pool_at slots True [] [kill (serving_worker [] [])] p (Killing [0]))"
    by (rule reaches_closer) (use assms close_kill [of "pool_at slots True [] ws p (Killing [0])" 0 "[]"] in
      \<open>simp add: pool_run serving_worker_def\<close>)
  also have "reaches \<dots> (pool_at slots True [] [killed_worker] p (Killing []))"
    by (rule reaches_closer) (use close_requests_of [of "pool_at slots True [] [kill (serving_worker [] [])] p (Killing [0])" 0 "[]"]
      in \<open>simp add: pool_run serving_worker_def killed_worker_def\<close>)
  also have "reaches \<dots> (pool_at slots True [] [killed_worker] p (Draining []))"
    by (rule reaches_closer, rule close_killed)
  also have "reaches \<dots> (pool_at slots True [] [killed_worker] p (Refilling []))"
    by (rule reaches_closer, rule drain_empty) (simp add: pool_at_def assms(2))
  also have "reaches \<dots> (pool_at slots True [] [killed_worker] p Closed)"
    by (rule reaches_closer, rule refilled)
  finally show ?thesis .
qed

lemma run_escaping:
  "reaches (WorkerSet_new 1 [Job Entering, Closer Closing])
     (pool_at [None] True [] [killed_worker] (Finished Escaped) Closed)"
proof -
  note run_to_sending
  also have "reaches (pool_at [] False [0] [serving_worker [] []] (Sending 0) Closing)
      (pool_at [] True [] [killed_worker] (Sending 0) Closed)"
    by (rule run_close) simp_all
  also have "reaches \<dots> (pool_at [] True [] [killed_worker] (Exiting 0 False Escaped) Closed)"
    by (rule reaches_job, rule use_worker, rule send_escapes) (simp add: pool_at_def killed_worker_def)
  also have "reaches \<dots> (pool_at [] True [] [killed_worker] (Retiring 0 Escaped) Closed)"
    by (rule reaches_job, rule exit_closed) (simp add: pool_at_def)
  also have "reaches \<dots> (pool_at [] True [] [killed_worker] (Freeing Escaped) Closed)"
    by (rule reaches_job)
      (use retire_gone [of 0 "pool_at [] True [] [killed_worker] (Retiring 0 Escaped) Closed"] in \<open>simp add: pool_run\<close>)
  also have "reaches \<dots> (pool_at [None] True [] [killed_worker] (Finished Escaped) Closed)"
    by (rule reaches_job)
      (use free [of _ _ Escaped "pool_at [] True [] [killed_worker] (Freeing Escaped) Closed"] in \<open>simp add: pool_run\<close>)
  finally show ?thesis .
qed

text \<open>The worker answers, its slot goes back, and the pool is closed afterwards by another thread.\<close>

lemma run_answered:
  "reaches (WorkerSet_new 1 [Job Entering, Closer Closing])
     (pool_at [] False [0] [serving_worker [] []] (Exiting 0 False (Answered 0 [65])) Closing)"
proof -
  note run_to_sending
  also have "reaches (pool_at [] False [0] [serving_worker [] []] (Sending 0) Closing)
      (pool_at [] False [0] [serving_worker [0] []] (Receiving 0) Closing)"
    by (rule reaches_job, rule use_worker)
      (use send [of "pool_at [] False [0] [serving_worker [] []] (Sending 0) Closing" 0 "\<lambda>_. False" 0] in
        \<open>simp add: pool_run serving_worker_def\<close>)
  also have "reaches \<dots> (pool_at [] False [0] [serving_worker [] [Answer 0 [65]]] (Receiving 0) Closing)"
    by (rule reaches_worker)
      (use answer [of "serving_worker [0] []" 0 "[]" "[65]"] in \<open>simp add: pool_run serving_worker_def\<close>)
  also have "reaches \<dots> (pool_at [] False [0] [serving_worker [] []] (Exiting 0 False (Answered 0 [65])) Closing)"
    by (rule reaches_job, rule use_worker)
      (use receive [of "pool_at [] False [0] [serving_worker [] [Answer 0 [65]]] (Receiving 0) Closing" 0 0 "[65]" "[]"
        "\<lambda>_. False" 0] in \<open>simp add: pool_run serving_worker_def\<close>)
  finally show ?thesis .
qed

lemma run_answered_closed:
  "reaches (WorkerSet_new 1 [Job Entering, Closer Closing])
     (pool_at [None] True [] [killed_worker] (Finished (Answered 0 [65])) Closed)"
proof -
  let ?r = "Answered 0 [65]"
  note run_answered
  also have "reaches (pool_at [] False [0] [serving_worker [] []] (Exiting 0 False ?r) Closing)
      (pool_at [] True [] [killed_worker] (Exiting 0 False ?r) Closed)"
    by (rule run_close) simp_all
  also have "reaches \<dots> (pool_at [] True [] [killed_worker] (Retiring 0 ?r) Closed)"
    by (rule reaches_job, rule exit_closed) (simp add: pool_at_def)
  also have "reaches \<dots> (pool_at [] True [] [killed_worker] (Freeing ?r) Closed)"
    by (rule reaches_job)
      (use retire_gone [of 0 "pool_at [] True [] [killed_worker] (Retiring 0 ?r) Closed"] in \<open>simp add: pool_run\<close>)
  also have "reaches \<dots> (pool_at [None] True [] [killed_worker] (Finished ?r) Closed)"
    by (rule reaches_job)
      (use free [of _ _ ?r "pool_at [] True [] [killed_worker] (Freeing ?r) Closed"] in \<open>simp add: pool_run\<close>)
  finally show ?thesis .
qed

lemma reaches_run:
  "reaches (WorkerSet_new 1 [Job Entering, Closer Closing]) s \<Longrightarrow> \<exists>es. set_run (\<lambda>_. False) 1 2 es s"
  unfolding reaches_def set_run_def
  by (auto intro!: exI [of _ "[Job Entering, Closer Closing]"] simp: fresh_thread_def)

text \<open>A spawn that fails in another way than a refused process, with a second job queued behind it.\<close>

definition lost_slot :: WorkerSet where
  "lost_slot = \<lparr>ws_width = 1, ws_slots = [], ws_closed = False, ws_live = [], ws_workers = [],
     ws_threads = [Job (Finished Escaped), Job Waiting], ws_lost = 1, ws_leaked = {}\<rparr>"

lemma run_lost_slot: "\<exists>es. set_run (\<lambda>_. False) 1 2 es lost_slot"
proof -
  define at where "at = (\<lambda>slots p q n. \<lparr>ws_width = 1, ws_slots = slots, ws_closed = False, ws_live = [], ws_workers = [],
     ws_threads = [Job p, Job q], ws_lost = n, ws_leaked = {}\<rparr> :: WorkerSet)"
  have step: "set_step (\<lambda>_. False) (at sl p q n) (Thread 0) (at sl' p' q n')"
    if "job_step (\<lambda>_. False) 0 p (at sl p q n) p' (at sl' p q n')" for sl p q n sl' p' n'
    using set_job [OF _ _ that] by (simp add: at_def)
  have step': "set_step (\<lambda>_. False) (at sl p q n) (Thread 1) (at sl p q' n)"
    if "job_step (\<lambda>_. False) 1 q (at sl p q n) q' (at sl p q n)" for sl p q n q'
    using set_job [OF _ _ that] by (simp add: at_def)
  have "set_step (\<lambda>_. False) (at [None] Entering Entering 0) (Thread 0) (at [None] Waiting Entering 0)"
    by (rule step, rule enter_open) (simp add: at_def)
  moreover have "set_step (\<lambda>_. False) (at [None] Waiting Entering 0) (Thread 0) (at [] Spawning Entering 0)"
    by (rule step) (use take_empty [of "at [None] Waiting Entering 0" "[]"] in \<open>simp add: at_def\<close>)
  moreover have "set_step (\<lambda>_. False) (at [] Spawning Entering 0) (Thread 0) (at [] (Finished Escaped) Entering 1)"
    by (rule step) (use spawn_escapes [of _ _ "at [] Spawning Entering 0"] in \<open>simp add: at_def\<close>)
  moreover have "set_step (\<lambda>_. False) (at [] (Finished Escaped) Entering 1) (Thread 1) (at [] (Finished Escaped) Waiting 1)"
    by (rule step', rule enter_open) (simp add: at_def)
  ultimately have "trace (set_step (\<lambda>_. False)) (at [None] Entering Entering 0) [Thread 0, Thread 0, Thread 0, Thread 1]
      (at [] (Finished Escaped) Waiting 1)"
    by (intro trace_Cons [OF _ trace_Cons [OF _ trace_Cons [OF _ trace_single]]])
  moreover have "at [None] Entering Entering 0 = WorkerSet_new 1 [Job Entering, Job Entering]"
    "at [] (Finished Escaped) Waiting 1 = lost_slot"
    by (simp_all add: at_def WorkerSet_new_def lost_slot_def)
  ultimately show ?thesis
    unfolding set_run_def
    by (auto intro!: exI [of _ "[Job Entering, Job Entering]"] simp: fresh_thread_def)
qed

section \<open>Properties\<close>

text \<open>
  C29: whatever the interleaving of jobs, closing threads and workers, no worker is held by two
  threads or by a thread and the slot queue, and the answer a job ends with is the answer to the
  request that job sent.
\<close>

theorem worker_pool_answers_own:
  assumes "set_run watched width n es s" and "i < n"
  shows "(Some w \<in> set (tokens (ws_threads s ! i)) \<longrightarrow> Some w \<notin> set (ws_slots s) \<and>
      (\<forall>k<n. Some w \<in> set (tokens (ws_threads s ! k)) \<longrightarrow> k = i)) \<and>
    (ws_threads s ! i = Job (Finished (Answered j frame)) \<longrightarrow> j = i)"
proof -
  note inv = set_run_inv [OF assms(1)]
  have "j = i" if "ws_threads s ! i = Job (Finished (Answered j frame))"
    using inv assms(2) that by (fastforce simp: set_inv_def debts_ok_def)
  moreover have "owned s" using inv by (simp add: set_inv_def)
  note holder = unique_holder [OF this, of i w]
  ultimately show ?thesis using holder inv(3) assms(2) by blast
qed

theorem worker_pool_answers_own_witness:
  "\<exists>es s. set_run (\<lambda>_. False) 1 2 es s \<and> ws_threads s = [Job (Finished (Answered 0 [65])), Closer Closed] \<and>
     {j. ws_threads s ! 0 = Job (Finished (Answered j [65]))} = {0}"
proof -
  let ?s = "pool_at [None] True [] [killed_worker] (Finished (Answered 0 [65])) Closed"
  obtain es where run: "set_run (\<lambda>_. False) 1 2 es ?s" using reaches_run [OF run_answered_closed] by blast
  have threads: "ws_threads ?s = [Job (Finished (Answered 0 [65])), Closer Closed]" by (simp add: pool_at_def)
  moreover have "{j. ws_threads ?s ! 0 = Job (Finished (Answered j [65]))} = {0}"
    using worker_pool_answers_own [OF run, of 0, OF zero_less_numeral] threads by auto
  ultimately show ?thesis using run by blast
qed

text \<open>
  Slots are conserved. Those in the queue, those held by threads and those a failed spawn has
  lost always add up to the width, so at most that many jobs have a worker at once, and when every
  thread has finished the queue is as long as the width less what was lost.
\<close>

theorem worker_slots_conserved:
  assumes "set_run watched width n es s"
  shows "length (ws_slots s) + (\<Sum>th\<leftarrow>ws_threads s. length (tokens th)) + ws_lost s = width"
  using set_run_inv [OF assms] by (simp add: set_inv_def accounted_def size_all_slots)

theorem worker_slots_conserved_witness:
  "\<exists>es. set_run (\<lambda>_. False) 1 2 es lost_slot \<and>
     length (ws_slots lost_slot) + (\<Sum>th\<leftarrow>ws_threads lost_slot. length (tokens th)) = 0"
  using run_lost_slot worker_slots_conserved by (fastforce simp: lost_slot_def)

definition all_finished :: "WorkerSet \<Rightarrow> bool" where
  "all_finished s = (\<forall>th\<in>set (ws_threads s). (\<exists>r. th = Job (Finished r)) \<or> th = Closer Closed)"

text \<open>
  C30: closing leaves no worker behind. When every thread of the pool has finished, at least one of
  them having closed it, no worker process is alive except one whose spawn failed after the
  process had started.
\<close>

theorem closed_pool_leaves_no_worker:
  assumes "set_run watched width n es s" and "all_finished s" and "Closer Closed \<in> set (ws_threads s)"
    and "w < length (ws_workers s)" and "w \<notin> ws_leaked s"
  shows "\<not> alive (ws_workers s ! w)"
proof -
  have inv: "attended s" "emptied s" using set_run_inv(1) [OF assms(1)] by (simp_all add: set_inv_def)
  have "ws_live s = []" using inv(2) assms(2,3) by (auto simp: emptied_def all_finished_def)
  moreover have "w \<notin> reaping th" if "th \<in> set (ws_threads s)" for th
    using assms(2) that by (auto simp: all_finished_def)
  ultimately show ?thesis using inv(1) assms(4,5) by (auto simp: attended_def)
qed

theorem closed_pool_leaves_no_worker_witness:
  "\<exists>es s. set_run (\<lambda>_. False) 1 2 es s \<and> length (ws_workers s) = 1 \<and> \<not> alive (ws_workers s ! 0)"
proof -
  let ?s = "pool_at [None] True [] [killed_worker] (Finished (Answered 0 [65])) Closed"
  obtain es where run: "set_run (\<lambda>_. False) 1 2 es ?s" using reaches_run [OF run_answered_closed] by blast
  have "\<not> alive (ws_workers ?s ! 0)"
    by (rule closed_pool_leaves_no_worker [OF run]) (simp_all add: pool_at_def all_finished_def)
  moreover have "length (ws_workers ?s) = 1" by (simp add: pool_at_def)
  ultimately show ?thesis using run by blast
qed

text \<open>
  C31: a spawn that fails otherwise than by a refused process loses its slot. Once all slots are
  lost, a job that waits without a stop condition waits in every continuation.
\<close>

theorem lost_slots_starve:
  assumes "set_run watched width n es s" and "ws_lost s = width"
    and "i < n" and "ws_threads s ! i = Job Waiting" and "\<not> watched i"
    and "trace (set_step watched) s es' t"
  shows "ws_threads t ! i = Job Waiting"
  using starving [OF assms(6)] set_run_inv [OF assms(1)] assms(2-5) by simp

theorem lost_slots_starve_witness:
  "(\<exists>es. set_run (\<lambda>_. False) 1 2 es lost_slot) \<and>
     (\<nexists>es t. trace (set_step (\<lambda>_. False)) lost_slot es t \<and> ws_threads t ! 1 \<noteq> Job Waiting)"
proof -
  obtain es where run: "set_run (\<lambda>_. False) 1 2 es lost_slot" using run_lost_slot by blast
  have "ws_threads t ! 1 = Job Waiting" if "trace (set_step (\<lambda>_. False)) lost_slot es' t" for es' t
    using lost_slots_starve [OF run, of 1, OF _ _ _ _ that] by (simp add: lost_slot_def)
  with run show ?thesis by blast
qed

text \<open>
  Closing the pool can make a job raise. In some run the pool is closed after a job's worker
  became ready and before its request is sent; writing to the closed request pipe raises a
  \<^verbatim>\<open>ValueError\<close>, which is not the death of the worker the executor attributes, and it leaves
  \<^verbatim>\<open>run_blocking\<close>.
\<close>

theorem closing_escapes_send:
  "\<exists>es s. set_run (\<lambda>_. False) 1 2 es s \<and> ws_threads s = [Job (Finished Escaped), Closer Closed] \<and>
     ws_lost s = 0"
proof -
  let ?s = "pool_at [None] True [] [killed_worker] (Finished Escaped) Closed"
  have "ws_threads ?s = [Job (Finished Escaped), Closer Closed] \<and> ws_lost ?s = 0" by (simp add: pool_at_def)
  with reaches_run [OF run_escaping] show ?thesis by blast
qed

text \<open>
  A batch over the worker pool that ends without an exception and was not closed early has
  yielded, whatever the interleaving and however each job's use of a worker ended, one completion
  per job, under the job's id and the attempt id derived from it and a worker-pool receipt of the
  same execution.
\<close>

theorem worker_pool_run_many_complete:
  assumes "worker_pool_run_many reported width config jobs = Inr b0"
    and "trace (batch_step (worker_pool_returns uuid5 canonical_identity loads py_str entry_point)) b0 es b"
    and "b_phase b = Done None" and "\<not> b_closed b"
  shows "mset (map (\<lambda>c. res_execution_id (ce_result c)) (b_yielded b)) = mset (map (job_execution_id uuid5) jobs) \<and>
    (\<forall>c\<in>set (b_yielded b). ce_record_receipt c = WorkerPoolRecordReceipt (res_execution_id (ce_result c)))"
proof -
  let ?returns = "worker_pool_returns uuid5 canonical_identity loads py_str entry_point"
  obtain n where run: "batch_run ?returns n jobs es b"
    using assms(1,2) by (auto simp: worker_pool_run_many_def batch_run_def result_simps)
  have "matches ?returns jobs (b_yielded b)"
    using batch_run_inv [OF run] assms(3,4) by (auto simp: batch_inv_def batch_inv_at_def)
  then have "ce_record_receipt c = WorkerPoolRecordReceipt (res_execution_id (ce_result c))"
    if "c \<in> set (b_yielded b)" for c
    using worker_pool.matched_receipts [OF _ that] worker_pool_ids by fastforce
  then show ?thesis using worker_pool.batch_returns_ids [OF run assms(3,4)] by simp
qed

theorem worker_pool_run_many_complete_witness:
  "\<exists>c. worker_pool_returns (\<lambda>_ _. 7) unary_canonical unary_loads (\<lambda>_. []) sample_entry_point sample_in_process_job c \<and>
     ce_record_receipt c = WorkerPoolRecordReceipt (res_execution_id (ce_result c))"
proof -
  let ?returns = "worker_pool_returns (\<lambda>_ _. 7) unary_canonical unary_loads (\<lambda>_. []) sample_entry_point"
  have "worker_pool_target unary_canonical sample_entry_point sample_in_process_job = Inr (worker_document JNull)"
    by (simp add: worker_pool_target_def validate_declaration_def sample_in_process_job_def validate_input_budget_def
        validate_working_directory_grant_def WorkingDirectoryGrant_scratch_def Budgets_unbudgeted_def worker_document_eq)
  moreover obtain c where "worker_completed (sample_time, 0)
      (worker_attempt (\<lambda>_ _. 7) unary_canonical (sample_time, 0) sample_in_process_job (worker_document JNull))
      (CancelledOutcome False) [] None None = Inr c"
    unfolding worker_completed_def
    by (rule completed_execution_reports [of sample_time 0 sample_time 0 _ "CancelledOutcome False" "[]"
        "WorkerPoolRecordReceipt (job_execution_id (\<lambda>_ _. 7) sample_in_process_job)"
        "job_execution_id (\<lambda>_ _. 7) sample_in_process_job" None None, OF _ of_nat_0_le_iff])
      (auto simp: clock_ok_def sample_time_def worker_attempt_def job_execution_id_def)
  ultimately have c: "?returns sample_in_process_job c"
    unfolding worker_pool_returns_def
    by (intro exI [of _ "(sample_time, 0)"] exI [of _ True]) (simp add: worker_run_blocking_def)
  from sample_batch_run [of ?returns, OF this] obtain es where
    "batch_run ?returns 1 [sample_in_process_job] es
      (sample_batch sample_in_process_job ((sample_drained True worker.Exited)\<lparr>workers := []\<rparr>) True [c] (Done None))"
    by blast
  then obtain b0 where b0: "run_batch_start 1 [sample_in_process_job] = Inr b0"
    "trace (batch_step ?returns) b0 es
      (sample_batch sample_in_process_job ((sample_drained True worker.Exited)\<lparr>workers := []\<rparr>) True [c] (Done None))"
    by (auto simp: batch_run_def)
  have "worker_pool_run_many None 1 None [sample_in_process_job] = Inr b0"
    using b0(1) by (simp add: worker_pool_run_many_def batch_capacity_def resolve_pool_capacity_def
        EffectivePoolCapacity_new_def usable_cpu_count_def Let_def)
  from worker_pool_run_many_complete [OF this b0(2)] c show ?thesis
    by (auto simp: sample_batch_def)
qed

end
