(* ===== verification/Spawn.thy ===== *)
theory Spawn
  imports Records
begin

text \<open>
  The spawn helper of \<^verbatim>\<open>execution/spawn.py\<close>: the program the child runs between fork and the payload's
  exec, on a model of the process's descriptor table, and the parent's reading of the status line.
  The table maps a descriptor to its open file and its inheritable flag; \<open>limit\<close> is one more than
  the highest descriptor the process may open.
\<close>

section \<open>Constants\<close>

definition STATUS_STAGE_KEY :: string where "STATUS_STAGE_KEY = ''stage''"
definition STATUS_ERRNO_KEY :: string where "STATUS_ERRNO_KEY = ''errno''"
definition SETUP_STAGE_SESSION :: string where "SETUP_STAGE_SESSION = ''session''"
definition SETUP_STAGE_CHDIR :: string where "SETUP_STAGE_CHDIR = ''chdir''"
definition SETUP_STAGE_DESCRIPTORS :: string where "SETUP_STAGE_DESCRIPTORS = ''descriptors''"
definition SETUP_STAGE_EXEC :: string where "SETUP_STAGE_EXEC = ''exec''"

definition SETUP_FAILURE_EXIT_CODE :: int where "SETUP_FAILURE_EXIT_CODE = 127"

definition PAYLOAD_STDIN_DESCRIPTOR :: nat where "PAYLOAD_STDIN_DESCRIPTOR = 0"
definition PAYLOAD_STDOUT_DESCRIPTOR :: nat where "PAYLOAD_STDOUT_DESCRIPTOR = 1"
definition PAYLOAD_STDERR_DESCRIPTOR :: nat where "PAYLOAD_STDERR_DESCRIPTOR = 2"
definition PAYLOAD_PROTOCOL_DESCRIPTOR :: nat where "PAYLOAD_PROTOCOL_DESCRIPTOR = 3"

definition TERMINATION_SIGNAL :: int where "TERMINATION_SIGNAL = 15"
definition ESCALATION_SIGNAL :: int where "ESCALATION_SIGNAL = 9"

definition EBADF :: int where "EBADF = 9"
definition EMFILE :: int where "EMFILE = 24"
definition ENOENT :: int where "ENOENT = 2"

section \<open>Descriptor tables\<close>

type_synonym 'f fds = "nat \<Rightarrow> ('f \<times> bool) option"

text \<open>A failed call gives its errno; the table is the one it left.\<close>

type_synonym 'f fault = "int \<times> 'f fds"

definition free_fds :: "nat \<Rightarrow> 'f fds \<Rightarrow> nat list" where
  "free_fds limit t = filter (\<lambda>n. t n = None) [0..<limit]"

text \<open>\<^verbatim>\<open>os.dup\<close> gives the lowest free descriptor, not inheritable.\<close>

definition os_dup :: "nat \<Rightarrow> 'f fds \<Rightarrow> nat \<Rightarrow> ('f fault, nat \<times> 'f fds) result" where
  "os_dup limit t fd =
     (case t fd of
        None \<Rightarrow> Inl (EBADF, t)
      | Some (f, _) \<Rightarrow>
          (case free_fds limit t of
             [] \<Rightarrow> Inl (EMFILE, t)
           | n # _ \<Rightarrow> Inr (n, t(n \<mapsto> (f, False)))))"

definition os_dup2 :: "'f fds \<Rightarrow> nat \<Rightarrow> nat \<Rightarrow> bool \<Rightarrow> ('f fault, 'f fds) result" where
  "os_dup2 t fd target inheritable =
     (case t fd of None \<Rightarrow> Inl (EBADF, t) | Some (f, _) \<Rightarrow> Inr (t(target \<mapsto> (f, inheritable))))"

definition os_close :: "'f fds \<Rightarrow> nat \<Rightarrow> ('f fault, 'f fds) result" where
  "os_close t fd = (case t fd of None \<Rightarrow> Inl (EBADF, t) | Some _ \<Rightarrow> Inr (t(fd := None)))"

definition set_inheritable :: "'f fds \<Rightarrow> nat \<Rightarrow> bool \<Rightarrow> ('f fault, 'f fds) result" where
  "set_inheritable t fd inheritable =
     (case t fd of None \<Rightarrow> Inl (EBADF, t) | Some (f, _) \<Rightarrow> Inr (t(fd \<mapsto> (f, inheritable))))"

text \<open>A successful exec closes what is not inheritable.\<close>

definition after_exec :: "'f fds \<Rightarrow> 'f fds" where
  "after_exec t = (\<lambda>n. case t n of Some (f, True) \<Rightarrow> Some (f, True) | _ \<Rightarrow> None)"

text \<open>
  The child of \<^verbatim>\<open>Popen\<close> with \<^verbatim>\<open>close_fds\<close>, \<^verbatim>\<open>pass_fds\<close> and the three standard streams on the null
  device: those are put in place whatever the descriptors were, and only the passed descriptors
  stay open besides.
\<close>

definition popen_child :: "'f \<Rightarrow> nat list \<Rightarrow> 'f fds \<Rightarrow> 'f fds" where
  "popen_child devnull passed t =
     (\<lambda>n. if n < 3 then Some (devnull, True)
          else if n \<in> set passed then map_option (\<lambda>(f, _). (f, True)) (t n) else None)"

section \<open>The helper\<close>

text \<open>The names \<^verbatim>\<open>spawn_bootstrap_source\<close> binds in front of the helper's body.\<close>

record SpawnBootstrap =
  bs_executable :: string
  bs_argv :: "string list"
  bs_working_directory :: string
  bs_descriptor_map :: "(nat \<times> nat) list"
  bs_status_descriptor :: nat
  bs_highest_target_descriptor :: nat

definition spawn_bootstrap_source ::
  "string \<Rightarrow> string list \<Rightarrow> string \<Rightarrow> (nat \<times> nat) list \<Rightarrow> nat \<Rightarrow> SpawnBootstrap" where
  "spawn_bootstrap_source program argv working_directory descriptor_map status_descriptor =
     \<lparr>bs_executable = program, bs_argv = argv, bs_working_directory = working_directory,
      bs_descriptor_map = descriptor_map, bs_status_descriptor = status_descriptor,
      bs_highest_target_descriptor = PAYLOAD_PROTOCOL_DESCRIPTOR\<rparr>"

text \<open>What the operating system answers the helper's other calls: \<open>None\<close>, or an errno.\<close>

record child_os =
  co_limit :: nat
  co_setsid :: "int option"
  co_chdir :: "string \<Rightarrow> int option"
  co_execv :: "string \<Rightarrow> string list \<Rightarrow> int option"

text \<open>
  The helper ends by its exec, by a status line written to the file the status descriptor refers
  to at that time (if any), or by an exception outside its handlers.
\<close>

datatype 'f setup_end = Executed "'f fds" | SetupReported "'f option" bytes | HelperCrashed

definition status_line :: "string \<Rightarrow> int option \<Rightarrow> bytes" where
  "status_line stage e =
     ascii_bytes (''{\"'' @ STATUS_ERRNO_KEY @ ''\":'' @ (case e of None \<Rightarrow> ''null'' | Some n \<Rightarrow> int_str n) @
       '',\"'' @ STATUS_STAGE_KEY @ ''\":\"'' @ stage @ ''\"}'') @ [10]"

definition dr_exec_fail :: "SpawnBootstrap \<Rightarrow> 'f fds \<Rightarrow> string \<Rightarrow> int \<Rightarrow> 'f setup_end" where
  "dr_exec_fail bs t stage e =
     SetupReported (map_option fst (t (bs_status_descriptor bs))) (status_line stage (Some e))"

lemma free_fds_fill:
  assumes "n < limit" and "t n = None"
  shows "length (free_fds limit (t(n \<mapsto> x))) < length (free_fds limit t)"
proof -
  have "free_fds limit (t(n \<mapsto> x)) = filter (\<lambda>m. m \<noteq> n) (free_fds limit t)"
    by (auto simp: free_fds_def intro: filter_cong)
  moreover have "n \<in> set (free_fds limit t)" using assms by (simp add: free_fds_def)
  ultimately show ?thesis by (metis (mono_tags, lifting) length_filter_less)
qed

lemma os_dup_Inr:
  "os_dup limit t fd = Inr (n, t') \<Longrightarrow> \<exists>f b. t fd = Some (f, b) \<and> n < limit \<and> t n = None \<and>
     (\<forall>m<n. t m \<noteq> None) \<and> t' = t(n \<mapsto> (f, False))"
proof -
  assume *: "os_dup limit t fd = Inr (n, t')"
  then obtain f b rest where f: "t fd = Some (f, b)" "free_fds limit t = n # rest" "t' = t(n \<mapsto> (f, False))"
    by (auto simp: os_dup_def split: option.splits list.splits)
  have "n \<in> set (free_fds limit t)" using f(2) by simp
  then have n: "n < limit" "t n = None" by (simp_all add: free_fds_def)
  have "t m \<noteq> None" if "m < n" for m
  proof
    assume "t m = None"
    then have "m \<in> set (free_fds limit t)" using that n(1) by (simp add: free_fds_def)
    then have "m \<in> set rest" using f(2) that by simp
    moreover have "sorted (n # rest)" using f(2) by (metis free_fds_def sorted_upt sorted_wrt_filter)
    ultimately show False using that by auto
  qed
  with f n show ?thesis by auto
qed

text \<open>\<^verbatim>\<open>while held <= highest: held = os.dup(held)\<close>.\<close>

function climb :: "nat \<Rightarrow> nat \<Rightarrow> 'f fds \<Rightarrow> nat \<Rightarrow> ('f fault, nat \<times> 'f fds) result" where
  "climb limit highest t fd =
     (if fd \<le> highest
      then case os_dup limit t fd of Inl e \<Rightarrow> Inl e | Inr (n, t') \<Rightarrow> climb limit highest t' n
      else Inr (fd, t))"
  by pat_completeness auto

termination
  by (relation "measure (\<lambda>(limit, _, t, _). length (free_fds limit t))")
    (auto dest!: os_dup_Inr intro: free_fds_fill)

declare climb.simps [simp del]

definition stage_source :: "nat \<Rightarrow> nat \<Rightarrow> 'f fds \<Rightarrow> nat \<Rightarrow> ('f fault, nat \<times> 'f fds) result" where
  "stage_source limit highest t fd =
     bind_result (os_dup limit t fd) (\<lambda>(n, t'). climb limit highest t' n)"

fun stage_sources ::
  "nat \<Rightarrow> nat \<Rightarrow> 'f fds \<Rightarrow> (nat \<times> nat) list \<Rightarrow> ('f fault, (nat \<times> nat) list \<times> 'f fds) result" where
  "stage_sources limit highest t [] = Inr ([], t)"
| "stage_sources limit highest t ((fd, target) # rest) =
     bind_result (stage_source limit highest t fd) (\<lambda>(n, t').
       bind_result (stage_sources limit highest t' rest) (\<lambda>(staged, t''). Inr ((n, target) # staged, t'')))"

fun close_sources :: "'f fds \<Rightarrow> (nat \<times> nat) list \<Rightarrow> ('f fault, 'f fds) result" where
  "close_sources t [] = Inr t"
| "close_sources t ((fd, _) # rest) = bind_result (os_close t fd) (\<lambda>t'. close_sources t' rest)"

fun place_staged :: "'f fds \<Rightarrow> (nat \<times> nat) list \<Rightarrow> ('f fault, 'f fds) result" where
  "place_staged t [] = Inr t"
| "place_staged t ((n, target) # rest) =
     bind_result (os_dup2 t n target True) (\<lambda>t'. bind_result (os_close t' n) (\<lambda>t''. place_staged t'' rest))"

definition move_descriptors ::
  "nat \<Rightarrow> nat \<Rightarrow> 'f fds \<Rightarrow> (nat \<times> nat) list \<Rightarrow> ('f fault, 'f fds) result" where
  "move_descriptors limit highest t descriptor_map =
     bind_result (stage_sources limit highest t descriptor_map) (\<lambda>(staged, t1).
       bind_result (close_sources t1 descriptor_map) (\<lambda>t2. place_staged t2 staged))"


text \<open>\<^verbatim>\<open>_dr_exec_setup\<close>; making the status descriptor close-on-exec is outside every handler.\<close>

definition dr_exec_setup :: "child_os \<Rightarrow> SpawnBootstrap \<Rightarrow> 'f fds \<Rightarrow> 'f setup_end" where
  "dr_exec_setup os bs t =
     (case set_inheritable t (bs_status_descriptor bs) False of
        Inl _ \<Rightarrow> HelperCrashed
      | Inr t1 \<Rightarrow>
          (case co_setsid os of
             Some e \<Rightarrow> dr_exec_fail bs t1 SETUP_STAGE_SESSION e
           | None \<Rightarrow>
               (case co_chdir os (bs_working_directory bs) of
                  Some e \<Rightarrow> dr_exec_fail bs t1 SETUP_STAGE_CHDIR e
                | None \<Rightarrow>
                    (case move_descriptors (co_limit os) (bs_highest_target_descriptor bs) t1 (bs_descriptor_map bs) of
                       Inl (e, t2) \<Rightarrow> dr_exec_fail bs t2 SETUP_STAGE_DESCRIPTORS e
                     | Inr t2 \<Rightarrow>
                         (case co_execv os (bs_executable bs) (bs_argv bs) of
                            Some e \<Rightarrow> dr_exec_fail bs t2 SETUP_STAGE_EXEC e
                          | None \<Rightarrow> Executed (after_exec t2))))))"

text \<open>\<^verbatim>\<open>launch_bootstrap\<close>, once the helper's interpreter runs.\<close>

definition launch_bootstrap ::
  "child_os \<Rightarrow> 'f \<Rightarrow> 'f fds \<Rightarrow> string \<Rightarrow> string list \<Rightarrow> string \<Rightarrow> (nat \<times> nat) list \<Rightarrow> nat \<Rightarrow> 'f setup_end" where
  "launch_bootstrap os devnull t program argv working_directory descriptor_map status_write =
     dr_exec_setup os
       (spawn_bootstrap_source program argv working_directory descriptor_map status_write)
       (popen_child devnull (map fst descriptor_map @ [status_write]) t)"

section \<open>The parent's side\<close>

record SetupFailure =
  sf_stage :: string
  sf_errno :: "int option"

text \<open>
  \<open>loads\<close> is \<^verbatim>\<open>json.loads(line.decode("utf-8"))\<close>, \<open>None\<close> when either step raises; a boolean is an
  \<^verbatim>\<open>int\<close> to \<^verbatim>\<open>isinstance\<close>.
\<close>

definition parse_setup_status :: "(bytes \<Rightarrow> json option) \<Rightarrow> bytes \<Rightarrow> SetupFailure option" where
  "parse_setup_status loads line =
     (if line = [] then None
      else case loads line of
        Some (JObj ps) \<Rightarrow>
          Some \<lparr>sf_stage = (case map_of ps STATUS_STAGE_KEY of Some (JStr stage) \<Rightarrow> stage | _ \<Rightarrow> SETUP_STAGE_EXEC),
                sf_errno = (case map_of ps STATUS_ERRNO_KEY of
                   Some (JInt e) \<Rightarrow> Some e
                 | Some (JBool b) \<Rightarrow> Some (if b then 1 else 0)
                 | _ \<Rightarrow> None)\<rparr>
      | _ \<Rightarrow> Some \<lparr>sf_stage = SETUP_STAGE_EXEC, sf_errno = None\<rparr>)"

section \<open>Moving the descriptors\<close>

definition high_free :: "nat \<Rightarrow> nat \<Rightarrow> 'f fds \<Rightarrow> nat set" where
  "high_free limit highest t = {m. highest < m \<and> m < limit \<and> m \<notin> dom t}"

lemma finite_high_free [simp]: "finite (high_free limit highest t)"
  by (rule finite_subset [of _ "{..<limit}"]) (auto simp: high_free_def)

text \<open>A table that keeps another and adds only descriptors that are closed at exec.\<close>

definition grows :: "'f fds \<Rightarrow> 'f fds \<Rightarrow> bool" where
  "grows t t' = (t \<subseteq>\<^sub>m t' \<and> (\<forall>m\<in>dom t' - dom t. \<not> snd (the (t' m))))"

lemma grows_refl [simp]: "grows t t"
  by (simp add: grows_def)

lemma grows_trans: "grows t u \<Longrightarrow> grows u v \<Longrightarrow> grows t v"
  unfolding grows_def
  by (intro conjI) (blast intro: map_le_trans, metis DiffD1 DiffD2 DiffI domIff map_le_def)

lemma grows_dup: "n \<notin> dom t \<Longrightarrow> grows t (t(n \<mapsto> (f, False)))"
  by (auto simp: grows_def map_le_def)

lemma grows_keeps: "grows t t' \<Longrightarrow> t m = Some x \<Longrightarrow> t' m = Some x"
  by (metis domI grows_def map_le_def)

text \<open>The table after a copy of a file has come to rest at \<open>n\<close>: copies left below stay closed at exec.\<close>

definition settled :: "nat \<Rightarrow> nat \<Rightarrow> 'f fds \<Rightarrow> nat \<Rightarrow> 'f \<Rightarrow> 'f fds \<Rightarrow> bool" where
  "settled limit highest t n f t' =
     (highest < n \<and> n < limit \<and> n \<notin> dom t \<and> t' n = Some (f, False) \<and> grows t t' \<and>
      high_free limit highest t' = high_free limit highest t - {n})"

lemma settled_here: "highest < n \<Longrightarrow> n < limit \<Longrightarrow> n \<notin> dom t \<Longrightarrow> settled limit highest t n f (t(n \<mapsto> (f, False)))"
  by (auto simp: settled_def grows_dup high_free_def)

lemma high_free_low: "n \<le> highest \<Longrightarrow> high_free limit highest (t(n \<mapsto> x)) = high_free limit highest t"
  by (auto simp: high_free_def)

lemma settled_over:
  assumes "n \<notin> dom t" and "n \<le> highest" and "settled limit highest (t(n \<mapsto> (f, False))) k f t'"
  shows "settled limit highest t k f t'"
  using assms(3) by (auto simp: settled_def high_free_low [OF assms(2)] intro: grows_trans [OF grows_dup [OF assms(1)]])

lemma os_dup_ok:
  assumes "t fd = Some (f, b)" and "high_free limit highest t \<noteq> {}"
  shows "\<exists>n. os_dup limit t fd = Inr (n, t(n \<mapsto> (f, False))) \<and> n < limit \<and> n \<notin> dom t"
proof -
  obtain m where "m \<in> high_free limit highest t" using assms(2) by blast
  then have "m \<in> set (free_fds limit t)" by (simp add: free_fds_def high_free_def domIff del: not_None_eq)
  then obtain n rest where "free_fds limit t = n # rest" by (cases "free_fds limit t") auto
  then have "os_dup limit t fd = Inr (n, t(n \<mapsto> (f, False)))" by (simp add: os_dup_def assms(1))
  with os_dup_Inr [OF this] show ?thesis by (auto simp: domIff)
qed

lemma climb_ok:
  assumes "t fd = Some (f, False)" and "high_free limit highest t \<noteq> {}" and "fd \<le> highest"
  shows "\<exists>n t'. climb limit highest t fd = Inr (n, t') \<and> settled limit highest t n f t'"
  using assms
proof (induction limit highest t fd rule: climb.induct)
  case (1 limit highest t fd)
  obtain n where n: "os_dup limit t fd = Inr (n, t(n \<mapsto> (f, False)))" and free: "n < limit" "n \<notin> dom t"
    using os_dup_ok [OF 1(2,3)] by blast
  have step: "climb limit highest t fd = climb limit highest (t(n \<mapsto> (f, False))) n"
    using 1(4) n by (subst climb.simps) simp
  show ?case
  proof (cases "n \<le> highest")
    case True
    have "high_free limit highest (t(n \<mapsto> (f, False))) \<noteq> {}" using 1(3) high_free_low [OF True] by metis
    then have "\<exists>k t'. climb limit highest (t(n \<mapsto> (f, False))) n = Inr (k, t') \<and>
        settled limit highest (t(n \<mapsto> (f, False))) k f t'"
      by (rule "1.IH" [OF 1(4) n refl _ _ True, rotated]) simp
    then show ?thesis using step settled_over [OF free(2) True] by metis
  next
    case False
    then show ?thesis using step settled_here [OF _ free] by (simp add: climb.simps [of limit highest _ n])
  qed
qed

lemma stage_source_ok:
  assumes "t fd = Some (f, b)" and "high_free limit highest t \<noteq> {}"
  shows "\<exists>n t'. stage_source limit highest t fd = Inr (n, t') \<and> settled limit highest t n f t'"
proof -
  obtain n where n: "os_dup limit t fd = Inr (n, t(n \<mapsto> (f, False)))" and free: "n < limit" "n \<notin> dom t"
    using os_dup_ok [OF assms] by blast
  have step: "stage_source limit highest t fd = climb limit highest (t(n \<mapsto> (f, False))) n"
    by (simp add: stage_source_def n)
  show ?thesis
  proof (cases "n \<le> highest")
    case True
    have "high_free limit highest (t(n \<mapsto> (f, False))) \<noteq> {}" using assms(2) high_free_low [OF True] by metis
    then have "\<exists>k t'. climb limit highest (t(n \<mapsto> (f, False))) n = Inr (k, t') \<and>
        settled limit highest (t(n \<mapsto> (f, False))) k f t'"
      by (rule climb_ok [where t = "t(n \<mapsto> (f, False))", OF _ _ True, rotated]) simp
    then show ?thesis using step settled_over [OF free(2) True] by metis
  next
    case False
    then show ?thesis using step settled_here [OF _ free] by (simp add: climb.simps [of limit highest _ n])
  qed
qed

text \<open>What staging leaves: each source's file above the target range, in a place that was free.\<close>

definition staged_pair :: "nat \<Rightarrow> 'f fds \<Rightarrow> 'f fds \<Rightarrow> nat \<times> nat \<Rightarrow> nat \<times> nat \<Rightarrow> bool" where
  "staged_pair highest t t' p q =
     (snd q = snd p \<and> highest < fst q \<and> fst q \<notin> dom t \<and> t' (fst q) = Some (fst (the (t (fst p))), False))"

lemma stage_sources_ok:
  assumes "fst ` set descriptor_map \<subseteq> dom t"
    and "length descriptor_map \<le> card (high_free limit highest t)"
  shows "\<exists>staged t'. stage_sources limit highest t descriptor_map = Inr (staged, t') \<and>
    list_all2 (staged_pair highest t t') descriptor_map staged \<and> distinct (map fst staged) \<and> grows t t'"
  using assms
proof (induction descriptor_map arbitrary: t)
  case Nil
  then show ?case by simp
next
  case (Cons p rest)
  obtain fd target where p: "p = (fd, target)" by (cases p)
  obtain f b where f: "t fd = Some (f, b)" using Cons.prems(1) p by force
  have "high_free limit highest t \<noteq> {}" using Cons.prems(2) by auto
  then obtain n t1 where one: "stage_source limit highest t fd = Inr (n, t1)" "settled limit highest t n f t1"
    using stage_source_ok [where t = t and fd = fd and f = f and b = b and limit = limit and highest = highest] f
    by blast
  then have n: "highest < n" "n \<notin> dom t" "t1 n = Some (f, False)" "grows t t1" "n \<in> high_free limit highest t"
    by (simp_all add: settled_def high_free_def)
  have "length rest \<le> card (high_free limit highest t1)"
    using Cons.prems(2) one(2) n(5) by (simp add: settled_def)
  moreover have sub: "fst ` set rest \<subseteq> dom t" using Cons.prems(1) by auto
  then have "fst ` set rest \<subseteq> dom t1" using n(4) unfolding grows_def by (meson map_le_implies_dom_le order_trans)
  ultimately obtain staged t2 where rest: "stage_sources limit highest t1 rest = Inr (staged, t2)"
    "list_all2 (staged_pair highest t1 t2) rest staged" "distinct (map fst staged)" "grows t1 t2"
    using Cons.IH by blast
  have "staged_pair highest t t2 x y" if pair: "staged_pair highest t1 t2 x y" and x: "x \<in> set rest" for x y
  proof -
    obtain g where "t (fst x) = Some g" using sub x by (metis domD image_eqI subsetD)
    then have "t1 (fst x) = t (fst x)" using grows_keeps [OF n(4)] by simp
    moreover have "fst y \<notin> dom t" using pair n(4) unfolding staged_pair_def grows_def
      by (meson map_le_implies_dom_le subsetD)
    ultimately show ?thesis using pair by (simp add: staged_pair_def)
  qed
  then have "list_all2 (staged_pair highest t t2) rest staged"
    using rest(2) by (simp add: list_all2_conv_all_nth)
  moreover have "staged_pair highest t t2 p (n, target)"
    using n f p grows_keeps [OF rest(4) n(3)] by (simp add: staged_pair_def)
  moreover have "n \<notin> fst ` set staged"
  proof
    assume "n \<in> fst ` set staged"
    then obtain y where "y \<in> set staged" "fst y = n" by auto
    then obtain x where "staged_pair highest t1 t2 x y" using rest(2) by (metis in_set_conv_nth list_all2_conv_all_nth)
    then show False using \<open>fst y = n\<close> n(3) by (auto simp: staged_pair_def)
  qed
  ultimately show ?case using one(1) rest n(4) p by (auto intro: grows_trans)
qed

lemma close_sources_ok:
  "fst ` set descriptor_map \<subseteq> dom t \<Longrightarrow> distinct (map fst descriptor_map) \<Longrightarrow>
    close_sources t descriptor_map = Inr (t |` (- fst ` set descriptor_map))"
proof (induction descriptor_map arbitrary: t)
  case (Cons p rest)
  obtain fd target x where p: "p = (fd, target)" "t fd = Some x" using Cons.prems(1) by (cases p) auto
  have "fst ` set rest \<subseteq> dom t - {fd}" using Cons.prems p(1) by force
  then have "close_sources (t(fd := None)) rest = Inr (t(fd := None) |` (- fst ` set rest))"
    using Cons.prems(2) by (intro Cons.IH) (simp_all only: dom_fun_upd simp_thms if_True list.map distinct.simps)
  moreover have "t(fd := None) |` (- fst ` set rest) = t |` (- fst ` set (p # rest))"
    using p by (auto simp: restrict_map_def)
  ultimately show ?case using p by (simp add: os_close_def)
qed (simp add: restrict_map_def)

lemma place_staged_ok:
  assumes "distinct (map fst staged)" and "distinct (map snd staged)"
    and "\<forall>p\<in>set staged. highest < fst p \<and> snd p \<le> highest \<and> fst p \<in> dom t"
  shows "place_staged t staged = Inr (\<lambda>m. if m \<in> fst ` set staged then None
       else case map_of (map (\<lambda>(n, target). (target, n)) staged) m of
              Some n \<Rightarrow> Some (fst (the (t n)), True) | None \<Rightarrow> t m)"
  using assms
proof (induction staged arbitrary: t)
  case (Cons p rest)
  obtain n target f b where p: "p = (n, target)" "t n = Some (f, b)" using Cons.prems(3) by (cases p) force
  have ne: "target \<noteq> n" "n \<notin> fst ` set rest" "target \<notin> snd ` set rest" "target \<notin> fst ` set rest"
    "n \<notin> snd ` set rest"
    using Cons.prems p by force+
  let ?t = "(t(target \<mapsto> (f, True)))(n := None)"
  have rest: "place_staged ?t rest = Inr (\<lambda>m. if m \<in> fst ` set rest then None
       else case map_of (map (\<lambda>(n, target). (target, n)) rest) m of
              Some n \<Rightarrow> Some (fst (the (?t n)), True) | None \<Rightarrow> ?t m)"
  proof (rule Cons.IH)
    show "distinct (map fst rest)" "distinct (map snd rest)" using Cons.prems by simp_all
    show "\<forall>p\<in>set rest. highest < fst p \<and> snd p \<le> highest \<and> fst p \<in> dom ?t"
    proof
      fix x
      assume x: "x \<in> set rest"
      then have "highest < fst x \<and> snd x \<le> highest \<and> fst x \<in> dom t" using Cons.prems(3) by simp
      moreover have "fst x \<noteq> n" using x ne(2) by auto
      ultimately show "highest < fst x \<and> snd x \<le> highest \<and> fst x \<in> dom ?t" by simp
    qed
  qed
  have step: "place_staged t (p # rest) = place_staged ?t rest"
    using p ne by (simp add: os_dup2_def os_close_def)
  have "map_of (map (\<lambda>(n, target). (target, n)) rest) m = Some k \<Longrightarrow> k \<in> fst ` set rest \<and> m \<in> snd ` set rest" for m k
    by (force dest: map_of_SomeD)
  then have other: "map_of (map (\<lambda>(n, target). (target, n)) rest) m = Some k \<Longrightarrow>
      k \<noteq> n \<and> k \<noteq> target \<and> m \<noteq> target \<and> m \<noteq> n" for m k
    using ne by metis
  show ?case
    unfolding step rest sum.inject
  proof (rule ext)
    fix m
    show "(if m \<in> fst ` set rest then None
       else case map_of (map (\<lambda>(n, target). (target, n)) rest) m of
              Some n \<Rightarrow> Some (fst (the (?t n)), True) | None \<Rightarrow> ?t m) =
      (if m \<in> fst ` set (p # rest) then None
       else case map_of (map (\<lambda>(n, target). (target, n)) (p # rest)) m of
              Some n \<Rightarrow> Some (fst (the (t n)), True) | None \<Rightarrow> t m)"
      using p ne other [of m] by (auto split: option.splits)
  qed
qed simp

definition sources_of :: "(nat \<times> nat) list \<Rightarrow> nat \<Rightarrow> nat option" where
  "sources_of descriptor_map m = map_of (map (\<lambda>(fd, target). (target, fd)) descriptor_map) m"

lemma sources_of_staged:
  "list_all2 (\<lambda>p q. snd q = snd p \<and> g (fst q) = h (fst p)) descriptor_map staged \<Longrightarrow>
    map_option g (sources_of staged m) = map_option h (sources_of descriptor_map m)"
  unfolding sources_of_def by (induction rule: list_all2_induct) (auto split: prod.splits)

lemma sources_of_SomeD: "sources_of descriptor_map m = Some fd \<Longrightarrow> (fd, m) \<in> set descriptor_map"
  unfolding sources_of_def by (force dest: map_of_SomeD)

lemma sources_of_None: "sources_of descriptor_map m = None \<longleftrightarrow> m \<notin> snd ` set descriptor_map"
  unfolding sources_of_def by (force simp: map_of_eq_None_iff)

lemma after_exec_new: "grows t t' \<Longrightarrow> after_exec t' m = after_exec t m"
proof (cases "m \<in> dom t")
  case True
  moreover assume "grows t t'"
  ultimately have "t' m = t m" by (simp add: grows_def map_le_def)
  then show ?thesis by (simp add: after_exec_def)
next
  case False
  moreover assume grow: "grows t t'"
  have "after_exec t' m = None"
  proof (cases "t' m")
    case (Some x)
    then have "m \<in> dom t' - dom t" using False by blast
    then have "\<not> snd (the (t' m))" using grow unfolding grows_def by blast
    then have "\<not> snd x" using Some by simp
    then show ?thesis using Some by (cases x) (simp add: after_exec_def)
  qed (simp add: after_exec_def)
  ultimately show ?thesis by (cases "t m") (auto simp: after_exec_def)
qed

text \<open>
  Whatever numbers the sources have, after exec each target holds its source's file, no source is
  left, and everything else is as it was.
\<close>

lemma move_descriptors_ok:
  assumes sources: "fst ` set descriptor_map \<subseteq> dom t" "distinct (map fst descriptor_map)"
    and targets: "distinct (map snd descriptor_map)" "\<forall>p\<in>set descriptor_map. snd p \<le> highest"
    and room: "length descriptor_map \<le> card (high_free limit highest t)"
  shows "\<exists>t'. move_descriptors limit highest t descriptor_map = Inr t' \<and>
    (\<forall>m. m \<notin> snd ` set descriptor_map \<longrightarrow> m \<notin> fst ` set descriptor_map \<longrightarrow> m \<in> dom t \<longrightarrow> t' m = t m) \<and>
    (\<forall>m. after_exec t' m =
      (case sources_of descriptor_map m of
         Some fd \<Rightarrow> Some (fst (the (t fd)), True)
       | None \<Rightarrow> if m \<in> fst ` set descriptor_map then None else after_exec t m))"
proof -
  let ?S = "fst ` set descriptor_map"
  obtain staged t1 where stage: "stage_sources limit highest t descriptor_map = Inr (staged, t1)"
    "list_all2 (staged_pair highest t t1) descriptor_map staged" "distinct (map fst staged)" "grows t t1"
    using stage_sources_ok [OF sources(1) room] by blast
  have "?S \<subseteq> dom t1" using sources(1) stage(4) unfolding grows_def by (meson map_le_implies_dom_le order_trans)
  then have close: "close_sources t1 descriptor_map = Inr (t1 |` (- ?S))" by (rule close_sources_ok) (rule sources(2))
  have snds: "map snd staged = map snd descriptor_map"
    using stage(2) by (induction rule: list_all2_induct) (simp_all add: staged_pair_def)
  have held: "highest < fst q \<and> fst q \<notin> dom t \<and> fst q \<in> dom t1" if mem: "q \<in> set staged" for q
  proof -
    obtain k where "k < length staged" "staged ! k = q" using mem by (auto simp: in_set_conv_nth)
    then have "staged_pair highest t t1 (descriptor_map ! k) q"
      using list_all2_nthD2 [OF stage(2)] by metis
    then show ?thesis unfolding staged_pair_def by (blast intro: domI)
  qed
  have fresh: "fst q \<in> dom (t1 |` (- ?S))" if "q \<in> set staged" for q
    using held [OF that] sources(1) by (simp only: dom_restrict) blast
  let ?t = "\<lambda>m. if m \<in> fst ` set staged then None
       else case sources_of staged m of Some n \<Rightarrow> Some (fst (the ((t1 |` (- ?S)) n)), True) | None \<Rightarrow> (t1 |` (- ?S)) m"
  have place: "place_staged (t1 |` (- ?S)) staged = Inr ?t"
    unfolding sources_of_def
  proof (rule place_staged_ok [where highest = highest])
    have "snd q \<le> highest" if "q \<in> set staged" for q
      using targets(2) snds that by (metis (no_types, lifting) image_eqI image_iff list.set_map)
    then show "\<forall>p\<in>set staged. highest < fst p \<and> snd p \<le> highest \<and> fst p \<in> dom (t1 |` (- ?S))"
      using held fresh by blast
  qed (use stage(3) snds targets(1) in simp_all)
  have files: "map_option (\<lambda>n. fst (the ((t1 |` (- ?S)) n))) (sources_of staged m) =
      map_option (\<lambda>fd. fst (the (t fd))) (sources_of descriptor_map m)" for m
  proof (rule sources_of_staged, rule list_all2_mono [OF stage(2)])
    fix p q
    assume pair: "staged_pair highest t t1 p q"
    then have "fst q \<notin> ?S" using sources(1) by (auto simp: staged_pair_def)
    then show "snd q = snd p \<and> fst (the ((t1 |` (- ?S)) (fst q))) = fst (the (t (fst p)))"
      using pair by (simp add: staged_pair_def)
  qed
  have "after_exec ?t m = (case sources_of descriptor_map m of
         Some fd \<Rightarrow> Some (fst (the (t fd)), True)
       | None \<Rightarrow> if m \<in> ?S then None else after_exec t m)" for m
  proof (cases "sources_of descriptor_map m")
    case (Some fd)
    then obtain n where n: "sources_of staged m = Some n" "fst (the ((t1 |` (- ?S)) n)) = fst (the (t fd))"
      using files [of m] by (cases "sources_of staged m") simp_all
    have "m \<le> highest" using sources_of_SomeD [OF Some] targets(2) by force
    then have "m \<notin> fst ` set staged" using held by fastforce
    then show ?thesis using n Some by (simp add: after_exec_def)
  next
    case None
    then have n: "sources_of staged m = None" using files [of m] by (cases "sources_of staged m") simp_all
    show ?thesis
    proof (cases "m \<in> fst ` set staged")
      case True
      then have "m \<notin> dom t" using held by auto
      then have "t m = None" by (metis domIff)
      then show ?thesis using None True by (simp add: after_exec_def)
    next
      case False
      then have "after_exec ?t m = after_exec (t1 |` (- ?S)) m" using n by (simp add: after_exec_def)
      also have "\<dots> = (if m \<in> ?S then None else after_exec t m)"
        using after_exec_new [OF stage(4), of m] by (simp add: after_exec_def restrict_map_def)
      finally show ?thesis using None by simp
    qed
  qed
  moreover have "?t m = t m" if "m \<notin> snd ` set descriptor_map" "m \<notin> ?S" "m \<in> dom t" for m
  proof -
    have "sources_of staged m = None" using that(1) snds by (metis list.set_map sources_of_None)
    moreover have "m \<notin> fst ` set staged" using held that(3) by auto
    moreover have "t1 m = t m" using stage(4) that(3) by (simp add: grows_def map_le_def)
    ultimately show ?thesis using that(2) by simp
  qed
  moreover have "move_descriptors limit highest t descriptor_map = Inr ?t"
    unfolding move_descriptors_def by (simp add: stage(1) close place)
  ultimately show ?thesis by blast
qed

text \<open>A failed move leaves the status descriptor where it was.\<close>

fun table_of :: "('f fault, 'a \<times> 'f fds) result \<Rightarrow> 'f fds" where
  "table_of (Inl (e, t)) = t"
| "table_of (Inr (x, t)) = t"

lemma os_dup_grows: "grows t (table_of (os_dup limit t fd))"
proof (cases "os_dup limit t fd")
  case (Inl x)
  then have "snd x = t" by (auto simp: os_dup_def split: option.splits list.splits)
  then show ?thesis using Inl by (cases x) simp
next
  case (Inr x)
  then show ?thesis using os_dup_Inr [of limit t fd "fst x" "snd x"] by (cases x) (auto intro!: grows_dup simp: domIff)
qed

lemma climb_grows: "grows t (table_of (climb limit highest t fd))"
proof (induction limit highest t fd rule: climb.induct)
  case (1 limit highest t fd)
  show ?case
  proof (cases "fd \<le> highest")
    case True
    note grow = os_dup_grows [of t limit fd]
    show ?thesis
    proof (cases "os_dup limit t fd")
      case (Inl x)
      then show ?thesis using grow True by (subst climb.simps) (cases x; simp)
    next
      case (Inr x)
      obtain k u where x: "x = (k, u)" by (cases x)
      have "climb limit highest t fd = climb limit highest u k" using True Inr x by (subst climb.simps) simp
      then show ?thesis
        using "1.IH" [OF True Inr [unfolded x] refl] grow Inr x by (auto intro: grows_trans)
    qed
  qed (simp add: climb.simps [of limit highest t fd])
qed

lemma stage_source_grows: "grows t (table_of (stage_source limit highest t fd))"
proof (cases "os_dup limit t fd")
  case (Inl x)
  then show ?thesis using os_dup_grows [of t limit fd] by (cases x) (simp add: stage_source_def)
next
  case (Inr x)
  obtain k u where x: "x = (k, u)" by (cases x)
  then have "grows t u" using os_dup_grows [of t limit fd] Inr by simp
  then show ?thesis using Inr x climb_grows [of u limit highest k] by (auto simp: stage_source_def intro: grows_trans)
qed

lemma stage_sources_grows: "grows t (table_of (stage_sources limit highest t dm))"
proof (induction dm arbitrary: t)
  case (Cons p dm)
  obtain fd target where p: "p = (fd, target)" by (cases p)
  note grow = stage_source_grows [of t limit highest fd]
  show ?case
  proof (cases "stage_source limit highest t fd")
    case (Inl x)
    then show ?thesis using p grow by (cases x) simp
  next
    case (Inr x)
    obtain n u where x: "x = (n, u)" by (cases x)
    then have "grows t u" using grow Inr by simp
    moreover have "table_of (stage_sources limit highest t (p # dm)) = table_of (stage_sources limit highest u dm)"
      using Inr x p by (cases "stage_sources limit highest u dm") auto
    ultimately show ?thesis using Cons.IH [of u] by (metis grows_trans)
  qed
qed simp

lemma dup_into_room:
  assumes "os_dup limit t fd = Inr (n, u)"
  shows "highest < n \<Longrightarrow> high_free limit highest t \<noteq> {}"
    and "n \<le> highest \<Longrightarrow> high_free limit highest u = high_free limit highest t"
proof -
  obtain f where n: "n < limit" "n \<notin> dom t" "u = t(n \<mapsto> (f, False))" using os_dup_Inr [OF assms] by (auto simp: domIff)
  show "highest < n \<Longrightarrow> high_free limit highest t \<noteq> {}" using n by (auto simp: high_free_def)
  show "n \<le> highest \<Longrightarrow> high_free limit highest u = high_free limit highest t"
    unfolding n(3) by (rule high_free_low)
qed

lemma climb_into_room:
  "climb limit highest t fd = Inr (n, t') \<Longrightarrow> fd \<le> highest \<Longrightarrow> high_free limit highest t \<noteq> {}"
proof (induction limit highest t fd rule: climb.induct)
  case (1 limit highest t fd)
  obtain k u where k: "os_dup limit t fd = Inr (k, u)"
    using 1(2,3) by (subst (asm) climb.simps) (auto split: sum.splits)
  then have "climb limit highest u k = Inr (n, t')" using 1(2,3) by (subst (asm) climb.simps) simp
  then show ?case
    using "1.IH" [OF 1(3) k refl] dup_into_room [OF k, of highest] by (cases "k \<le> highest") auto
qed

lemma stage_source_into_room:
  assumes "stage_source limit highest t fd = Inr (n, t')"
  shows "high_free limit highest t \<noteq> {}"
proof -
  obtain k u where k: "os_dup limit t fd = Inr (k, u)" "climb limit highest u k = Inr (n, t')"
    using assms by (auto simp: stage_source_def result_simps)
  then show ?thesis
    using climb_into_room [OF k(2)] dup_into_room [OF k(1), of highest] by (cases "k \<le> highest") auto
qed

lemma stage_sources_into_room:
  "fst ` set dm \<subseteq> dom t \<Longrightarrow> stage_sources limit highest t dm = Inr (staged, t') \<Longrightarrow>
    length dm \<le> card (high_free limit highest t)"
proof (induction dm arbitrary: t staged)
  case (Cons p dm)
  obtain fd target where p: "p = (fd, target)" by (cases p)
  obtain f b where f: "t fd = Some (f, b)" using Cons.prems(1) p by force
  obtain n u staged' where one: "stage_source limit highest t fd = Inr (n, u)"
    "stage_sources limit highest u dm = Inr (staged', t')"
    using Cons.prems(2) p by (auto simp: result_simps)
  have room: "high_free limit highest t \<noteq> {}" by (rule stage_source_into_room [OF one(1)])
  then have "settled limit highest t n f u"
    using stage_source_ok [where t = t and fd = fd and f = f and b = b and limit = limit and highest = highest] f one(1)
    by auto
  then have u: "high_free limit highest u = high_free limit highest t - {n}" "n \<in> high_free limit highest t" "grows t u"
    by (simp_all add: settled_def high_free_def)
  have "fst ` set dm \<subseteq> dom u"
    using Cons.prems(1) u(3) unfolding grows_def by (meson map_le_implies_dom_le order_trans set_subset_Cons image_mono)
  then have "length dm \<le> card (high_free limit highest u)" using Cons.IH one(2) by blast
  moreover have "Suc (card (high_free limit highest t - {n})) = card (high_free limit highest t)"
    by (rule card_Suc_Diff1) (use u(2) in simp_all)
  ultimately show ?case using u(1) by simp
qed simp

lemma move_descriptors_fault:
  assumes fault: "move_descriptors limit highest t descriptor_map = Inl (e, t')"
    and sources: "fst ` set descriptor_map \<subseteq> dom t" "distinct (map fst descriptor_map)"
    and targets: "distinct (map snd descriptor_map)" "\<forall>p\<in>set descriptor_map. snd p \<le> highest"
  shows "grows t t'"
proof (cases "stage_sources limit highest t descriptor_map")
  case (Inl x)
  then show ?thesis
    using fault stage_sources_grows [of t limit highest descriptor_map] by (simp add: move_descriptors_def)
next
  case (Inr x)
  then have "length descriptor_map \<le> card (high_free limit highest t)"
    using stage_sources_into_room [OF sources(1)] by (cases x) blast
  from move_descriptors_ok [OF sources targets this] obtain u where
    "move_descriptors limit highest t descriptor_map = Inr u" by blast
  then show ?thesis using fault by simp
qed

section \<open>Properties\<close>

text \<open>
  What the parent promises of the descriptors it passes: they are open and different, the status
  pipe's end is none of the sources or targets and has not the number of a standard stream.
\<close>

definition passed_ok :: "'f fds \<Rightarrow> (nat \<times> nat) list \<Rightarrow> nat \<Rightarrow> bool" where
  "passed_ok t descriptor_map status_write =
     (set (status_write # map fst descriptor_map) \<subseteq> dom t \<and>
      distinct (status_write # map fst descriptor_map) \<and> distinct (map snd descriptor_map) \<and>
      (\<forall>p\<in>set descriptor_map. snd p \<le> PAYLOAD_PROTOCOL_DESCRIPTOR \<and> snd p \<noteq> status_write) \<and>
      3 \<le> status_write)"

text \<open>The file a source has in the child.\<close>

definition child_file :: "'f \<Rightarrow> 'f fds \<Rightarrow> nat \<Rightarrow> 'f" where
  "child_file devnull t fd = (if fd < 3 then devnull else fst (the (t fd)))"

lemma popen_child_Some:
  assumes "fd \<in> set passed" and "set passed \<subseteq> dom t"
  shows "popen_child devnull passed t fd = Some (child_file devnull t fd, True)"
proof -
  obtain f b where "t fd = Some (f, b)" using assms by fastforce
  then show ?thesis using assms(1) by (simp add: popen_child_def child_file_def)
qed

lemma popen_child_dom:
  assumes "set passed \<subseteq> dom t"
  shows "dom (popen_child devnull passed t) = {..<3} \<union> set passed"
  using assms by (auto simp: popen_child_def dom_def split: if_splits)

lemma child_room:
  assumes "set passed \<subseteq> dom t" and "n + length passed + 4 \<le> limit"
  shows "n \<le> card (high_free limit 3 (popen_child devnull passed t))"
proof -
  have "{4..<limit} - set passed \<subseteq> high_free limit 3 (popen_child devnull passed t)"
    unfolding high_free_def popen_child_dom [OF assms(1)] by auto
  then have "card ({4..<limit} - set passed) \<le> card (high_free limit 3 (popen_child devnull passed t))"
    by (intro card_mono) simp_all
  moreover have "card {4..<limit} - card (set passed) \<le> card ({4..<limit} - set passed)"
    by (rule diff_card_le_card_Diff) simp
  moreover have "card (set passed) \<le> length passed" by (rule card_length)
  ultimately show ?thesis using assms(2) by simp
qed

text \<open>The child's table when it runs its setup: the passed files are there, the status end closes at exec.\<close>

definition setup_table :: "'f \<Rightarrow> 'f fds \<Rightarrow> (nat \<times> nat) list \<Rightarrow> nat \<Rightarrow> 'f fds" where
  "setup_table devnull t descriptor_map status_write =
     (popen_child devnull (map fst descriptor_map @ [status_write]) t)(status_write \<mapsto> (fst (the (t status_write)), False))"

lemma setup_table_facts:
  assumes "passed_ok t dm status_write"
  shows "set_inheritable (popen_child devnull (map fst dm @ [status_write]) t) status_write False =
      Inr (setup_table devnull t dm status_write)"
    and "fst ` set dm \<subseteq> dom (setup_table devnull t dm status_write)"
    and "\<And>fd. fd \<in> fst ` set dm \<Longrightarrow> fst (the (setup_table devnull t dm status_write fd)) = child_file devnull t fd"
    and "setup_table devnull t dm status_write status_write = Some (fst (the (t status_write)), False)"
    and "\<And>m. m \<notin> fst ` set dm \<Longrightarrow> after_exec (setup_table devnull t dm status_write) m =
      (if m < 3 then Some (devnull, True) else None)"
    and "high_free limit 3 (setup_table devnull t dm status_write) =
      high_free limit 3 (popen_child devnull (map fst dm @ [status_write]) t)"
proof -
  let ?passed = "map fst dm @ [status_write]"
  have passed: "set ?passed \<subseteq> dom t" "3 \<le> status_write" "status_write \<notin> fst ` set dm"
    using assms by (auto simp: passed_ok_def)
  have child: "popen_child devnull ?passed t fd = Some (child_file devnull t fd, True)" if "fd \<in> set ?passed" for fd
    by (rule popen_child_Some [OF that passed(1)])
  show "set_inheritable (popen_child devnull ?passed t) status_write False = Inr (setup_table devnull t dm status_write)"
    using child [of status_write] passed(2) by (simp add: set_inheritable_def setup_table_def child_file_def)
  show "fst ` set dm \<subseteq> dom (setup_table devnull t dm status_write)"
    unfolding setup_table_def dom_fun_upd popen_child_dom [OF passed(1)] by auto
  show "fst (the (setup_table devnull t dm status_write fd)) = child_file devnull t fd" if "fd \<in> fst ` set dm" for fd
  proof -
    have "fd \<noteq> status_write" "fd \<in> set ?passed" using that passed(3) by auto
    then show ?thesis using child [of fd] by (simp add: setup_table_def)
  qed
  show "setup_table devnull t dm status_write status_write = Some (fst (the (t status_write)), False)"
    by (simp add: setup_table_def)
  show "after_exec (setup_table devnull t dm status_write) m = (if m < 3 then Some (devnull, True) else None)"
    if "m \<notin> fst ` set dm" for m
    using that passed(2) by (auto simp: setup_table_def after_exec_def popen_child_def)
  have "dom (setup_table devnull t dm status_write) = dom (popen_child devnull ?passed t)"
    unfolding setup_table_def dom_fun_upd popen_child_dom [OF passed(1)] by auto
  then show "high_free limit 3 (setup_table devnull t dm status_write) = high_free limit 3 (popen_child devnull ?passed t)"
    unfolding high_free_def by simp
qed

lemma bs_simps [simp]:
  "bs_executable (spawn_bootstrap_source program argv wd dm status) = program"
  "bs_argv (spawn_bootstrap_source program argv wd dm status) = argv"
  "bs_working_directory (spawn_bootstrap_source program argv wd dm status) = wd"
  "bs_descriptor_map (spawn_bootstrap_source program argv wd dm status) = dm"
  "bs_status_descriptor (spawn_bootstrap_source program argv wd dm status) = status"
  "bs_highest_target_descriptor (spawn_bootstrap_source program argv wd dm status) = 3"
  by (simp_all add: spawn_bootstrap_source_def PAYLOAD_PROTOCOL_DESCRIPTOR_def)

lemma launch_table:
  "passed_ok t dm status_write \<Longrightarrow>
    launch_bootstrap os devnull t program argv working_directory dm status_write =
     (let bs = spawn_bootstrap_source program argv working_directory dm status_write;
          t1 = setup_table devnull t dm status_write
      in case co_setsid os of
           Some e \<Rightarrow> dr_exec_fail bs t1 SETUP_STAGE_SESSION e
         | None \<Rightarrow>
             (case co_chdir os working_directory of
                Some e \<Rightarrow> dr_exec_fail bs t1 SETUP_STAGE_CHDIR e
              | None \<Rightarrow>
                  (case move_descriptors (co_limit os) 3 t1 dm of
                     Inl (e, t2) \<Rightarrow> dr_exec_fail bs t2 SETUP_STAGE_DESCRIPTORS e
                   | Inr t2 \<Rightarrow>
                       (case co_execv os program argv of
                          Some e \<Rightarrow> dr_exec_fail bs t2 SETUP_STAGE_EXEC e
                        | None \<Rightarrow> Executed (after_exec t2)))))"
  unfolding launch_bootstrap_def dr_exec_setup_def Let_def bs_simps by (simp only: setup_table_facts(1) sum.case)

text \<open>The payload's descriptors: targets, standard streams that are neither, nothing else.\<close>

definition payload_fds :: "'f \<Rightarrow> 'f fds \<Rightarrow> (nat \<times> nat) list \<Rightarrow> 'f fds" where
  "payload_fds devnull t dm =
     (\<lambda>m. case sources_of dm m of
        Some fd \<Rightarrow> Some (child_file devnull t fd, True)
      | None \<Rightarrow> if m < 3 \<and> m \<notin> fst ` set dm then Some (devnull, True) else None)"

lemma moved_in_child:
  assumes ok: "passed_ok t dm status_write"
    and room: "length dm \<le> card (high_free limit 3 (setup_table devnull t dm status_write))"
  shows "\<exists>t'. move_descriptors limit 3 (setup_table devnull t dm status_write) dm = Inr t' \<and>
    t' status_write = Some (fst (the (t status_write)), False) \<and> after_exec t' = payload_fds devnull t dm"
proof -
  let ?t = "setup_table devnull t dm status_write"
  note facts = setup_table_facts [where devnull = devnull, OF ok]
  have dm: "distinct (map fst dm)" "distinct (map snd dm)" "\<forall>p\<in>set dm. snd p \<le> 3" "status_write \<notin> snd ` set dm"
    "status_write \<notin> fst ` set dm"
    using ok by (auto simp: passed_ok_def PAYLOAD_PROTOCOL_DESCRIPTOR_def)
  from move_descriptors_ok [OF facts(2) dm(1,2,3) room] obtain t' where
    t': "move_descriptors limit 3 ?t dm = Inr t'"
    "\<forall>m. m \<notin> snd ` set dm \<longrightarrow> m \<notin> fst ` set dm \<longrightarrow> m \<in> dom ?t \<longrightarrow> t' m = ?t m"
    "\<forall>m. after_exec t' m = (case sources_of dm m of Some fd \<Rightarrow> Some (fst (the (?t fd)), True)
       | None \<Rightarrow> if m \<in> fst ` set dm then None else after_exec ?t m)" by blast
  have "t' status_write = Some (fst (the (t status_write)), False)"
    using t'(2) dm(4,5) facts(4) by (metis domI)
  moreover have "after_exec t' m = payload_fds devnull t dm m" for m
  proof (cases "sources_of dm m")
    case None
    then show ?thesis using t'(3) facts(5) [of m] by (auto simp: payload_fds_def)
  next
    case (Some fd)
    then have "fd \<in> fst ` set dm" using sources_of_SomeD by force
    then show ?thesis using Some t'(3) facts(3) by (simp add: payload_fds_def)
  qed
  ultimately show ?thesis using t'(1) by blast
qed

lemma launch_reaches:
  assumes ok: "passed_ok t dm status_write" and limit: "2 * length dm + 5 \<le> co_limit os"
    and "co_setsid os = None" and "co_chdir os working_directory = None" and "co_execv os program argv = None"
  shows "launch_bootstrap os devnull t program argv working_directory dm status_write =
    Executed (payload_fds devnull t dm)"
proof -
  let ?passed = "map fst dm @ [status_write]"
  have "set ?passed \<subseteq> dom t" using ok by (auto simp: passed_ok_def)
  then have "length dm \<le> card (high_free (co_limit os) 3 (popen_child devnull ?passed t))"
    by (rule child_room) (use limit in simp)
  then have "length dm \<le> card (high_free (co_limit os) 3 (setup_table devnull t dm status_write))"
    unfolding setup_table_facts(6) [OF ok] .
  from moved_in_child [OF ok this] show ?thesis using assms(3-5) by (auto simp: launch_table [OF ok])
qed

text \<open>
  C32: whatever numbers the parent's pipe ends have, overlapping the protocol descriptor or not, a
  payload that is reached has on each target descriptor the file of its source, the null device on
  a standard stream that is no target, and nothing else: no second copy of a pipe end that would
  hold back an end of file. The setup reaches it whenever the session, the directory and the
  program are there and the child may open twice as many descriptors as it passes, and five more.
  The sources are not numbered like standard streams.
\<close>

theorem payload_gets_its_descriptors:
  assumes "passed_ok t dm status_write" and "\<forall>p\<in>set dm. 3 \<le> fst p" and "2 * length dm + 5 \<le> co_limit os"
    and "co_setsid os = None" and "co_chdir os working_directory = None" and "co_execv os program argv = None"
  shows "launch_bootstrap os devnull t program argv working_directory dm status_write =
    Executed (\<lambda>m. case sources_of dm m of
      Some fd \<Rightarrow> Some (fst (the (t fd)), True)
    | None \<Rightarrow> if m < 3 then Some (devnull, True) else None)"
proof -
  have "payload_fds devnull t dm = (\<lambda>m. case sources_of dm m of
      Some fd \<Rightarrow> Some (fst (the (t fd)), True)
    | None \<Rightarrow> if m < 3 then Some (devnull, True) else None)"
    using assms(2) by (auto simp: payload_fds_def child_file_def fun_eq_iff split: option.split dest!: sources_of_SomeD)
  then show ?thesis using launch_reaches [OF assms(1,3-6)] by simp
qed

definition sample_os :: child_os where
  "sample_os = \<lparr>co_limit = 64, co_setsid = None, co_chdir = (\<lambda>_. None), co_execv = (\<lambda>_ _. None)\<rparr>"

text \<open>A parent whose lowest free descriptor was 3, so that a source has the number of the protocol target.\<close>

definition sample_fds :: "nat fds" where
  "sample_fds = (\<lambda>n. if n < 20 then Some (100 + n, False) else None)"

definition sample_map :: "(nat \<times> nat) list" where
  "sample_map = [(3, 0), (6, 1), (8, 2), (14, 3)]"

lemma sample_dom: "dom sample_fds = {..<20}"
  by (auto simp: sample_fds_def domIff split: if_splits)

lemma sample_passed_ok: "passed_ok sample_fds sample_map 10"
  by (simp add: passed_ok_def sample_dom sample_map_def PAYLOAD_PROTOCOL_DESCRIPTOR_def)

theorem payload_gets_its_descriptors_witness:
  "\<exists>t'. launch_bootstrap sample_os 7 sample_fds ''p'' [''p''] ''/w'' sample_map 10 = Executed t' \<and>
     t' 0 = Some (103, True) \<and> t' 1 = Some (106, True) \<and> t' 2 = Some (108, True) \<and> t' 3 = Some (114, True) \<and>
     t' 4 = None \<and> t' 10 = None"
  using payload_gets_its_descriptors [OF sample_passed_ok, of sample_os "''/w''" "''p''" "[''p'']" 7]
  by (simp add: sample_os_def sample_map_def sources_of_def sample_fds_def)

text \<open>
  A source with the number of a standard stream, which a parent started with that stream closed
  gets from \<^verbatim>\<open>os.pipe\<close>, does not reach the payload: the null device \<^verbatim>\<open>Popen\<close> puts on the child's
  standard streams replaces it before the helper stages it, and the payload is started on the null
  device as if nothing were wrong.
\<close>

theorem standard_source_lost:
  assumes "passed_ok t dm status_write" and "2 * length dm + 5 \<le> co_limit os"
    and "co_setsid os = None" and "co_chdir os working_directory = None" and "co_execv os program argv = None"
    and "(fd, target) \<in> set dm" and "fd < 3"
  shows "\<exists>t'. launch_bootstrap os devnull t program argv working_directory dm status_write = Executed t' \<and>
    t' target = Some (devnull, True)"
proof -
  have "distinct (map fst (map (\<lambda>(fd, target). (target, fd)) dm))"
    using assms(1) by (simp add: passed_ok_def o_def case_prod_unfold)
  then have "sources_of dm target = Some fd"
    unfolding sources_of_def using assms(6) by (auto intro!: map_of_is_SomeI image_eqI [of _ _ "(fd, target)"])
  then show ?thesis
    using launch_reaches [OF assms(1-5), of devnull] assms(7) by (simp add: payload_fds_def child_file_def)
qed

theorem standard_source_lost_witness:
  "\<exists>t'. launch_bootstrap sample_os 7 sample_fds ''p'' [''p''] ''/w'' [(0, 0), (4, 1), (6, 2)] 8 = Executed t' \<and>
     t' 0 = Some (7, True)"
  using standard_source_lost [of sample_fds "[(0, 0), (4, 1), (6, 2)]" 8 sample_os "''/w''" "''p''" "[''p'']" 0 0 7]
  by (simp add: sample_os_def passed_ok_def sample_dom PAYLOAD_PROTOCOL_DESCRIPTOR_def)

definition setup_stages :: "string set" where
  "setup_stages = {SETUP_STAGE_SESSION, SETUP_STAGE_CHDIR, SETUP_STAGE_DESCRIPTORS, SETUP_STAGE_EXEC}"

lemma launch_cases:
  assumes ok: "passed_ok t dm status_write"
    and r: "r = launch_bootstrap os devnull t program argv working_directory dm status_write"
  obtains (executed) "r = Executed (payload_fds devnull t dm)"
  | (reported) stage e where "stage \<in> setup_stages"
      "r = SetupReported (Some (fst (the (t status_write)))) (status_line stage (Some e))"
proof -
  let ?t = "setup_table devnull t dm status_write"
  let ?bs = "spawn_bootstrap_source program argv working_directory dm status_write"
  note facts = setup_table_facts [where devnull = devnull, OF ok]
  have fail: "dr_exec_fail ?bs u stage e = SetupReported (Some (fst (the (t status_write)))) (status_line stage (Some e))"
    if "u status_write = Some (fst (the (t status_write)), False)" for u stage e
    using that by (simp add: dr_exec_fail_def)
  have dm: "distinct (map fst dm)" "distinct (map snd dm)" "\<forall>p\<in>set dm. snd p \<le> 3"
    using ok by (auto simp: passed_ok_def PAYLOAD_PROTOCOL_DESCRIPTOR_def)
  have moved: "t2 status_write = Some (fst (the (t status_write)), False) \<and> after_exec t2 = payload_fds devnull t dm"
    if m: "move_descriptors (co_limit os) 3 ?t dm = Inr t2" for t2
  proof -
    obtain staged t3 where "stage_sources (co_limit os) 3 ?t dm = Inr (staged, t3)"
      using m by (auto simp: move_descriptors_def result_simps)
    from moved_in_child [OF ok stage_sources_into_room [OF facts(2) this]] m show ?thesis by auto
  qed
  have faulted: "t2 status_write = Some (fst (the (t status_write)), False)"
    if m: "move_descriptors (co_limit os) 3 ?t dm = Inl (e, t2)" for e t2
    using grows_keeps [OF move_descriptors_fault [OF m facts(2) dm] facts(4)] .
  have stages: "SETUP_STAGE_SESSION \<in> setup_stages" "SETUP_STAGE_CHDIR \<in> setup_stages"
    "SETUP_STAGE_DESCRIPTORS \<in> setup_stages" "SETUP_STAGE_EXEC \<in> setup_stages" by (simp_all add: setup_stages_def)
  note r = r launch_table [OF ok] Let_def
  show thesis
  proof (cases "co_setsid os")
    case (Some e)
    then show ?thesis using reported [OF stages(1)] by (simp add: r fail [of "setup_table devnull t dm status_write"] facts(4))
  next
    case session: None
    show ?thesis
    proof (cases "co_chdir os working_directory")
      case (Some e)
      then show ?thesis using session reported [OF stages(2)] by (simp add: r fail [of "setup_table devnull t dm status_write"] facts(4))
    next
      case chdir: None
      show ?thesis
      proof (cases "move_descriptors (co_limit os) 3 ?t dm")
        case (Inl x)
        then show ?thesis using session chdir reported [OF stages(3)] faulted by (cases x) (simp add: r fail)
      next
        case (Inr t2)
        then show ?thesis
          using session chdir executed reported [OF stages(4)] moved [OF Inr]
          by (cases "co_execv os program argv") (simp_all add: r fail)
      qed
    qed
  qed
qed

text \<open>What the parent reads of the status pipe: a line written to it, or nothing.\<close>

definition status_read :: "'f \<Rightarrow> 'f setup_end \<Rightarrow> bytes" where
  "status_read status_file r =
     (case r of SetupReported (Some f) line \<Rightarrow> if f = status_file then line else [] | _ \<Rightarrow> [])"

lemma parse_status_line:
  "loads (status_line stage (Some e)) = Some (JObj [(STATUS_ERRNO_KEY, JInt e), (STATUS_STAGE_KEY, JStr stage)]) \<Longrightarrow>
    parse_setup_status loads (status_line stage (Some e)) = Some \<lparr>sf_stage = stage, sf_errno = Some e\<rparr>"
  by (simp add: parse_setup_status_def STATUS_ERRNO_KEY_def STATUS_STAGE_KEY_def) (simp add: status_line_def)



end
