(* ===== verification/Effects.thy ===== *)
theory Effects
  imports Prelude
begin

text \<open>
  Operations that change a state and may raise: a Python statement sequence as a function from the
  state to a result and the state left, also when it raised. \<open>bind_op\<close> is the sequencing,
  \<open>catch_op\<close> an except clause and \<open>finally_op\<close> a finally clause, whose own exception wins.
\<close>

named_theorems op_simps "rules that resolve the control flow of stateful operations"

type_synonym ('s, 'e, 'a) op = "'s \<Rightarrow> ('e, 'a) result \<times> 's"

definition return_op :: "'a \<Rightarrow> ('s, 'e, 'a) op" where
  "return_op x = (\<lambda>s. (Inr x, s))"

definition raise_op :: "'e \<Rightarrow> ('s, 'e, 'a) op" where
  "raise_op e = (\<lambda>s. (Inl e, s))"

definition lift_op :: "('e, 'a) result \<Rightarrow> ('s, 'e, 'a) op" where
  "lift_op r = (\<lambda>s. (r, s))"

definition bind_op :: "('s, 'e, 'a) op \<Rightarrow> ('a \<Rightarrow> ('s, 'e, 'b) op) \<Rightarrow> ('s, 'e, 'b) op" where
  "bind_op m k = (\<lambda>s. case m s of (Inl e, t) \<Rightarrow> (Inl e, t) | (Inr x, t) \<Rightarrow> k x t)"

definition catch_op :: "('s, 'e, 'a) op \<Rightarrow> ('e \<Rightarrow> ('s, 'f, 'a) op) \<Rightarrow> ('s, 'f, 'a) op" where
  "catch_op m h = (\<lambda>s. case m s of (Inl e, t) \<Rightarrow> h e t | (Inr x, t) \<Rightarrow> (Inr x, t))"

definition finally_op :: "('s, 'e, 'a) op \<Rightarrow> ('s, 'e, unit) op \<Rightarrow> ('s, 'e, 'a) op" where
  "finally_op m f =
     (\<lambda>s. case m s of (r, t) \<Rightarrow> (case f t of (Inl e, u) \<Rightarrow> (Inl e, u) | (Inr _, u) \<Rightarrow> (r, u)))"

lemma return_op_apply [simp]: "return_op x s = (Inr x, s)"
  by (simp add: return_op_def)

lemma raise_op_apply [simp]: "raise_op e s = (Inl e, s)"
  by (simp add: raise_op_def)

lemma lift_op_apply [simp]: "lift_op r s = (r, s)"
  by (simp add: lift_op_def)

lemma bind_op_raised: "m s = (Inl e, t) \<Longrightarrow> bind_op m k s = (Inl e, t)"
  by (simp add: bind_op_def)

lemma bind_op_returned: "m s = (Inr x, t) \<Longrightarrow> bind_op m k s = k x t"
  by (simp add: bind_op_def)

lemma bind_op_Inr [op_simps]: "bind_op m k s = (Inr y, u) \<longleftrightarrow> (\<exists>x t. m s = (Inr x, t) \<and> k x t = (Inr y, u))"
  by (auto simp: bind_op_def split: prod.splits sum.splits)

lemma bind_op_Inl [op_simps]:
  "bind_op m k s = (Inl e, u) \<longleftrightarrow> m s = (Inl e, u) \<or> (\<exists>x t. m s = (Inr x, t) \<and> k x t = (Inl e, u))"
  by (auto simp: bind_op_def split: prod.splits sum.splits)

lemma catch_op_Inr [op_simps]:
  "catch_op m h s = (Inr y, u) \<longleftrightarrow> m s = (Inr y, u) \<or> (\<exists>e t. m s = (Inl e, t) \<and> h e t = (Inr y, u))"
  by (auto simp: catch_op_def split: prod.splits sum.splits)

lemma catch_op_Inl [op_simps]:
  "catch_op m h s = (Inl e, u) \<longleftrightarrow> (\<exists>f t. m s = (Inl f, t) \<and> h f t = (Inl e, u))"
  by (auto simp: catch_op_def split: prod.splits sum.splits)

lemma finally_op_cases:
  assumes "finally_op m f s = (r, u)"
  obtains (cleaned) t where "m s = (r, t)" "f t = (Inr (), u)"
  | (cleanup_raised) r' t e where "m s = (r', t)" "f t = (Inl e, u)" "r = Inl e"
  using assms by (auto simp: finally_op_def split: prod.splits sum.splits)

text \<open>A property of the state every step of an operation keeps.\<close>

definition keeps :: "('s \<Rightarrow> bool) \<Rightarrow> ('s, 'e, 'a) op \<Rightarrow> bool" where
  "keeps P m = (\<forall>s. P s \<longrightarrow> P (snd (m s)))"

lemma keepsD: "keeps P m \<Longrightarrow> P s \<Longrightarrow> m s = (r, t) \<Longrightarrow> P t"
  by (fastforce simp: keeps_def)

lemma keeps_return [simp]: "keeps P (return_op x)" and keeps_raise [simp]: "keeps P (raise_op e)"
  and keeps_lift [simp]: "keeps P (lift_op r)"
  by (simp_all add: keeps_def)

lemma keeps_bind: "keeps P m \<Longrightarrow> (\<And>x. keeps P (k x)) \<Longrightarrow> keeps P (bind_op m k)"
  unfolding keeps_def bind_op_def by (auto split: prod.splits sum.splits)

lemma keeps_catch: "keeps P m \<Longrightarrow> (\<And>e. keeps P (h e)) \<Longrightarrow> keeps P (catch_op m h)"
  unfolding keeps_def catch_op_def by (auto split: prod.splits sum.splits)

lemma keeps_finally: "keeps P m \<Longrightarrow> keeps P f \<Longrightarrow> keeps P (finally_op m f)"
  unfolding keeps_def finally_op_def by (auto split: prod.splits sum.splits)

end
