(* ===== verification/Driver.thy ===== *)
theory Driver
  imports Protocol Effects
begin

text \<open>
  The child's side of a Python target: the wrapper that \<^verbatim>\<open>runtime/bootstrap.py\<close> puts around the
  driver source. It checks the request, owns the protected stream and writes the frames that the
  parent's reader of \<^verbatim>\<open>runtime/protocol.py\<close> accepts. \<^verbatim>\<open>json\<close> and \<^verbatim>\<open>hashlib\<close> are parameters,
  and so is the driver: what it emits, whether it catches what \<^verbatim>\<open>emit\<close> raises, and how it ends.
\<close>

section \<open>Python values\<close>

text \<open>
  The values a driver can hand to \<^verbatim>\<open>emit\<close>; \<open>PyOther\<close> is any object that is none of the JSON kinds,
  a tuple included. A dictionary is its items in order, a key being a string or not.
\<close>

datatype py_key = StrKey string | OtherKey

datatype py_value =
    PyNone
  | PyBool bool
  | PyInt int
  | PyFloat "64 word"
  | PyStr string
  | PyList "py_value list"
  | PyDict "(py_key \<times> py_value) list"
  | PyOther

fun strict_items :: "nat \<Rightarrow> (string \<Rightarrow> (py_exn, unit) result) list \<Rightarrow> string \<Rightarrow> (py_exn, unit) result" where
  "strict_items n [] path = Inr ()"
| "strict_items n (item # items) path =
     bind_result (item (path @ ''['' @ nat_str n @ '']'')) (\<lambda>_. strict_items (Suc n) items path)"

fun strict_entries :: "(py_key \<times> (string \<Rightarrow> (py_exn, unit) result)) list \<Rightarrow> string \<Rightarrow> (py_exn, unit) result" where
  "strict_entries [] path = Inr ()"
| "strict_entries ((OtherKey, item) # entries) path = Inl (ValueError (''non-string key at '' @ path))"
| "strict_entries ((StrKey key, item) # entries) path =
     bind_result (item (path @ ''.'' @ key)) (\<lambda>_. strict_entries entries path)"

primrec dr_exec_strict :: "py_value \<Rightarrow> string \<Rightarrow> (py_exn, unit) result" where
  "dr_exec_strict PyNone = (\<lambda>path. Inr ())"
| "dr_exec_strict (PyBool b) = (\<lambda>path. Inr ())"
| "dr_exec_strict (PyInt i) = (\<lambda>path. Inr ())"
| "dr_exec_strict (PyFloat w) = (\<lambda>path. ensure (float_finite w) (ValueError (''non-finite number at '' @ path)))"
| "dr_exec_strict (PyStr s) = (\<lambda>path. Inr ())"
| "dr_exec_strict (PyList xs) = strict_items 0 (map dr_exec_strict xs)"
| "dr_exec_strict (PyDict ps) = strict_entries (map (map_prod id dr_exec_strict) ps)"
| "dr_exec_strict PyOther = (\<lambda>path. Inl (ValueError (''unsupported value at '' @ path)))"

text \<open>The JSON value \<^verbatim>\<open>json.dumps\<close> renders, of a value it renders without coercing a key.\<close>

fun keyed :: "(py_key \<times> json option) list \<Rightarrow> (string \<times> json) list option" where
  "keyed [] = Some []"
| "keyed ((StrKey key, Some j) # rest) = map_option (\<lambda>ps. (key, j) # ps) (keyed rest)"
| "keyed (_ # rest) = None"

primrec to_json :: "py_value \<Rightarrow> json option" where
  "to_json PyNone = Some JNull"
| "to_json (PyBool b) = Some (JBool b)"
| "to_json (PyInt i) = Some (JInt i)"
| "to_json (PyFloat w) = (if float_finite w then Some (JFloat w) else None)"
| "to_json (PyStr s) = Some (JStr s)"
| "to_json (PyList xs) = map_option JList (those (map to_json xs))"
| "to_json (PyDict ps) = map_option JObj (keyed (map (map_prod id to_json) ps))"
| "to_json PyOther = None"

definition IDENTITY_FIELDS :: "string set" where
  "IDENTITY_FIELDS = {''schema'', ''schema_version'', ''payload''}"

definition dict_get :: "(py_key \<times> py_value) list \<Rightarrow> string \<Rightarrow> py_value" where
  "dict_get ps key = (case map_of ps (StrKey key) of Some v \<Rightarrow> v | None \<Rightarrow> PyOther)"

definition dr_exec_identity :: "py_value \<Rightarrow> string \<Rightarrow> (py_exn, (py_key \<times> py_value) list) result" where
  "dr_exec_identity document origin =
     (case document of
        PyDict ps \<Rightarrow>
          (if fst ` set ps \<noteq> StrKey ` IDENTITY_FIELDS
           then Inl (ValueError (origin @ '' must have exactly the identity fields''))
           else case dict_get ps ''schema'' of
             PyStr _ \<Rightarrow>
               (case dict_get ps ''schema_version'' of
                  PyInt _ \<Rightarrow> bind_result (dr_exec_strict (dict_get ps ''payload'') (origin @ ''.payload'')) (\<lambda>_. Inr ps)
                | _ \<Rightarrow> Inl (ValueError (origin @ '' schema_version must be an integer'')))
           | _ \<Rightarrow> Inl (ValueError (origin @ '' schema must be a string'')))
      | _ \<Rightarrow> Inl (ValueError (origin @ '' must be an object'')))"

text \<open>The document a validated dictionary stands for.\<close>

definition document_of :: "(py_key \<times> py_value) list \<Rightarrow> identity_document" where
  "document_of ps =
     \<lparr>doc_schema = (case dict_get ps ''schema'' of PyStr s \<Rightarrow> s | _ \<Rightarrow> ''''),
      doc_schema_version = (case dict_get ps ''schema_version'' of PyInt i \<Rightarrow> i | _ \<Rightarrow> 0),
      doc_payload = (case to_json (dict_get ps ''payload'') of Some j \<Rightarrow> j | None \<Rightarrow> JNull)\<rparr>"

section \<open>The protected writer\<close>

text \<open>\<^verbatim>\<open>json.loads(data.decode("utf-8"))\<close>, the pinned \<^verbatim>\<open>json.dumps\<close> and the hex digest.\<close>

record wrapper_services =
  ws_loads :: "bytes \<Rightarrow> py_value option"
  ws_dumps :: "json \<Rightarrow> (py_exn, bytes) result"
  ws_sha256 :: "bytes \<Rightarrow> string"

text \<open>
  The writer, the bytes that reached the pipe, those still in its buffer and what the next flushes
  meet: a failing one passes some bytes on and raises.
\<close>

record writer =
  wr_sequence :: int
  wr_closed :: bool
  wr_stream :: bytes
  wr_buffer :: bytes
  wr_faults :: "nat option list"

definition fresh_writer :: "nat option list \<Rightarrow> writer" where
  "fresh_writer faults = \<lparr>wr_sequence = 0, wr_closed = False, wr_stream = [], wr_buffer = [], wr_faults = faults\<rparr>"

definition flush :: "(writer, py_exn, unit) op" where
  "flush s =
     (case wr_faults s of
        Some n # faults \<Rightarrow>
          (Inl (OSError (Some 32)),
           s\<lparr>wr_stream := wr_stream s @ take n (wr_buffer s), wr_buffer := drop n (wr_buffer s), wr_faults := faults\<rparr>)
      | faults \<Rightarrow> (Inr (), s\<lparr>wr_stream := wr_stream s @ wr_buffer s, wr_buffer := [], wr_faults := drop 1 faults\<rparr>))"

definition frame_json :: "ProtocolFrame \<Rightarrow> json" where
  "frame_json frame =
     JObj ((''version'', JInt 1) #
       (case frame of
          ProtocolPrelude digest \<Rightarrow> [(''kind'', JStr ''prelude''), (''request_id_sha256'', JStr digest)]
        | ProtocolOutput n d \<Rightarrow>
            [(''kind'', JStr ''output''), (''sequence'', JInt n),
             (''document'', JObj [(''schema'', JStr (doc_schema d)), (''schema_version'', JInt (doc_schema_version d)),
               (''payload'', doc_payload d)])]
        | ProtocolComplete n \<Rightarrow> [(''kind'', JStr ''complete''), (''output_count'', JInt n)]))"

definition write_frame :: "wrapper_services \<Rightarrow> ProtocolFrame \<Rightarrow> (writer, py_exn, unit) op" where
  "write_frame sv frame s =
     (if wr_closed s then (Inl (ValueError ''the protected stream is already complete''), s)
      else case ws_dumps sv (frame_json frame) of
        Inl e \<Rightarrow> (Inl e, s)
      | Inr bs \<Rightarrow> flush (s\<lparr>wr_buffer := wr_buffer s @ bs @ [PROTOCOL_FRAME_TERMINATOR]\<rparr>))"

definition write_prelude :: "wrapper_services \<Rightarrow> bytes \<Rightarrow> (writer, py_exn, unit) op" where
  "write_prelude sv request_bytes = write_frame sv (ProtocolPrelude (ws_sha256 sv request_bytes))"

definition emit :: "wrapper_services \<Rightarrow> py_value \<Rightarrow> (writer, py_exn, unit) op" where
  "emit sv document =
     bind_op (lift_op (dr_exec_identity document ''output document'')) (\<lambda>validated s.
       bind_op (write_frame sv (ProtocolOutput (wr_sequence s) (document_of validated)))
         (\<lambda>_ s. (Inr (), s\<lparr>wr_sequence := wr_sequence s + 1\<rparr>)) s)"

text \<open>Closing the stream flushes what is left of the buffer.\<close>

definition write_complete :: "wrapper_services \<Rightarrow> (writer, py_exn, unit) op" where
  "write_complete sv s =
     bind_op (write_frame sv (ProtocolComplete (wr_sequence s))) (\<lambda>_ s.
       (if wr_buffer s = [] then (Inr (), s\<lparr>wr_closed := True\<rparr>) else flush (s\<lparr>wr_closed := True\<rparr>))) s"

section \<open>The wrapper\<close>

definition dr_exec_canonical :: "wrapper_services \<Rightarrow> py_value \<Rightarrow> (py_exn, bytes) result" where
  "dr_exec_canonical sv v =
     (case to_json v of None \<Rightarrow> Inl (ValueError ''not a JSON value'') | Some j \<Rightarrow> ws_dumps sv j)"

definition read_request :: "wrapper_services \<Rightarrow> bytes \<Rightarrow> (py_exn, py_value) result" where
  "read_request sv data =
     (case ws_loads sv data of
        None \<Rightarrow> Inl (ValueError ''request is not strict JSON'')
      | Some decoded \<Rightarrow>
          bind_result (dr_exec_identity decoded ''request'') (\<lambda>ps.
          bind_result (dr_exec_canonical sv (PyDict ps)) (\<lambda>canonical.
          bind_result (ensure (canonical = data) (ValueError ''request bytes are not canonical JSON bytes'')) (\<lambda>_.
            Inr (PyDict ps)))))"

text \<open>
  A driver: its source raises, or binds the entry point to nothing callable, or defines it. An entry
  point, given the request, emits values one by one, each with whether it catches what \<^verbatim>\<open>emit\<close>
  raises, and returns or raises.
\<close>

datatype driver =
    SourceRaises py_exn
  | NotCallable
  | Defines "py_value \<Rightarrow> (py_value \<times> bool) list \<times> py_exn option"

fun emit_all :: "wrapper_services \<Rightarrow> (py_value \<times> bool) list \<Rightarrow> (writer, py_exn, unit) op" where
  "emit_all sv [] = return_op ()"
| "emit_all sv ((v, catches) # vs) =
     bind_op (catch_op (emit sv v) (\<lambda>e. if catches then return_op () else raise_op e)) (\<lambda>_. emit_all sv vs)"

definition dr_exec_bootstrap :: "wrapper_services \<Rightarrow> bytes \<Rightarrow> driver \<Rightarrow> (writer, py_exn, unit) op" where
  "dr_exec_bootstrap sv data d =
     bind_op (lift_op (read_request sv data)) (\<lambda>request.
     bind_op (write_prelude sv data) (\<lambda>_.
       case d of
         SourceRaises e \<Rightarrow> raise_op e
       | NotCallable \<Rightarrow> raise_op (ValueError ''driver_source must define a callable dr_exec_main'')
       | Defines entrypoint \<Rightarrow>
           (case entrypoint request of (emissions, end) \<Rightarrow>
              bind_op (emit_all sv emissions) (\<lambda>_.
                case end of Some e \<Rightarrow> raise_op e | None \<Rightarrow> write_complete sv))))"

section \<open>What a driver emits\<close>

lemma those_None: "those xs = None \<longleftrightarrow> None \<in> set xs"
proof (induction xs)
  case (Cons x xs)
  then show ?case by (cases x) (auto split: option.split)
qed simp

lemma strict_items_iff: "strict_items n fs path = Inr () \<longleftrightarrow>
    (\<forall>i<length fs. (fs ! i) (path @ ''['' @ nat_str (n + i) @ '']'') = Inr ())"
proof (induction fs arbitrary: n)
  case (Cons f fs)
  show ?case using Cons.IH [of "Suc n"] by (auto simp: All_less_Suc2 result_simps)
qed simp

text \<open>The strict check accepts exactly the values that JSON can render without coercing.\<close>

lemma strict_iff_json: "dr_exec_strict v path = Inr () \<longleftrightarrow> to_json v \<noteq> None"
proof (induction v arbitrary: path)
  case (PyList xs)
  then have item: "dr_exec_strict (xs ! i) p = Inr () \<longleftrightarrow> to_json (xs ! i) \<noteq> None" if "i < length xs" for i p
    using that nth_mem by blast
  have "strict_items 0 (map dr_exec_strict xs) path = Inr () \<longleftrightarrow> (\<forall>x\<in>set xs. to_json x \<noteq> None)"
    by (simp add: strict_items_iff item all_set_conv_all_nth)
  moreover have "(\<forall>x\<in>set xs. to_json x \<noteq> None) \<longleftrightarrow> None \<notin> set (map to_json xs)" by force
  ultimately show ?case by (simp add: those_None)
next
  case (PyDict ps)
  have "strict_entries (map (map_prod id dr_exec_strict) qs) path = Inr () \<longleftrightarrow> keyed (map (map_prod id to_json) qs) \<noteq> None"
    if "set qs \<subseteq> set ps" for qs
    using that
  proof (induction qs)
    case (Cons q qs)
    obtain k v where q: "q = (k, v)" by (cases q)
    have "dr_exec_strict v p = Inr () \<longleftrightarrow> to_json v \<noteq> None" for p
      using PyDict [of "(k, v)" v] Cons.prems q by (simp add: prod_set_simps)
    then show ?case using Cons by (cases k; cases "to_json v") (auto simp: q result_simps)
  qed simp
  then show ?case by simp
qed (simp_all add: result_simps)

definition frame_bytes :: "wrapper_services \<Rightarrow> ProtocolFrame \<Rightarrow> bytes" where
  "frame_bytes sv frame = (case ws_dumps sv (frame_json frame) of Inr bs \<Rightarrow> bs | Inl _ \<Rightarrow> [])"

definition emission :: "wrapper_services \<Rightarrow> nat \<Rightarrow> py_value \<Rightarrow> (py_exn, identity_document) result" where
  "emission sv n v =
     bind_result (dr_exec_identity v ''output document'') (\<lambda>ps.
     bind_result (ws_dumps sv (frame_json (ProtocolOutput (int n) (document_of ps)))) (\<lambda>_. Inr (document_of ps)))"

text \<open>The documents an entry point gets out, and the exception it does not catch.\<close>

fun emitted :: "wrapper_services \<Rightarrow> nat \<Rightarrow> (py_value \<times> bool) list \<Rightarrow> identity_document list \<times> py_exn option" where
  "emitted sv n [] = ([], None)"
| "emitted sv n ((v, catches) # vs) =
     (case emission sv n v of
        Inl e \<Rightarrow> if catches then emitted sv n vs else ([], Some e)
      | Inr d \<Rightarrow> (case emitted sv (Suc n) vs of (docs, e) \<Rightarrow> (d # docs, e)))"

abbreviation writing :: "nat \<Rightarrow> bytes \<Rightarrow> writer" where
  "writing n bs \<equiv> \<lparr>wr_sequence = int n, wr_closed = False, wr_stream = bs, wr_buffer = [], wr_faults = []\<rparr>"

lemma framed_cons: "framed [] = []" "framed (f # fs) = f @ [PROTOCOL_FRAME_TERMINATOR] @ framed fs"
  "framed (fs @ gs) = framed fs @ framed gs"
  by (simp_all add: framed_def)

lemma write_frame_writing:
  "write_frame sv frame (writing n bs) =
     (case ws_dumps sv (frame_json frame) of
        Inl e \<Rightarrow> (Inl e, writing n bs)
      | Inr _ \<Rightarrow> (Inr (), writing n (bs @ framed [frame_bytes sv frame])))"
  by (simp add: write_frame_def flush_def frame_bytes_def framed_cons split: sum.split)

lemma emit_writing:
  "emit sv v (writing n bs) =
     (case emission sv n v of
        Inl e \<Rightarrow> (Inl e, writing n bs)
      | Inr d \<Rightarrow> (Inr (), writing (Suc n) (bs @ framed [frame_bytes sv (ProtocolOutput (int n) d)])))"
  by (auto simp: emit_def emission_def bind_op_def write_frame_writing bind_result_def split: sum.split)

lemma emit_all_writing:
  "emitted sv n vs = (docs, e) \<Longrightarrow>
     emit_all sv vs (writing n bs) =
       ((case e of None \<Rightarrow> Inr () | Some x \<Rightarrow> Inl x),
        writing (n + length docs) (bs @ framed (map (frame_bytes sv) (output_frames n docs))))"
proof (induction vs arbitrary: n bs docs)
  case Nil
  then show ?case by (auto simp: output_frames_def framed_cons)
next
  case (Cons p vs)
  obtain v catches where p: "p = (v, catches)" by (cases p)
  show ?case
  proof (cases "emission sv n v")
    case (Inl x)
    then show ?thesis
      using Cons p by (auto simp: bind_op_def catch_op_def emit_writing output_frames_def framed_cons split: if_splits)
  next
    case (Inr d)
    then obtain rest where rest: "emitted sv (Suc n) vs = (rest, e)" "docs = d # rest"
      using Cons.prems p by (auto split: prod.splits)
    show ?thesis
      using Cons.IH [OF rest(1)] Inr
      by (simp add: p rest(2) bind_op_def catch_op_def emit_writing output_frames_Cons framed_cons)
  qed
qed


section \<open>What the parent reads of it\<close>

text \<open>
  Canonical JSON sorts the keys of every object by code point, so a document comes back with its
  payload in key order.
\<close>

fun text_le :: "string \<Rightarrow> string \<Rightarrow> bool" where
  "text_le [] _ = True"
| "text_le (_ # _) [] = False"
| "text_le (a # as) (b # bs) = ((of_char a :: nat) < of_char b \<or> a = b \<and> text_le as bs)"

fun insert_entry :: "string \<times> json \<Rightarrow> (string \<times> json) list \<Rightarrow> (string \<times> json) list" where
  "insert_entry p [] = [p]"
| "insert_entry p (q # qs) = (if text_le (fst p) (fst q) then p # q # qs else q # insert_entry p qs)"

primrec key_sorted :: "json \<Rightarrow> json" where
  "key_sorted JNull = JNull"
| "key_sorted (JBool b) = JBool b"
| "key_sorted (JInt i) = JInt i"
| "key_sorted (JFloat w) = JFloat w"
| "key_sorted (JStr s) = JStr s"
| "key_sorted (JList xs) = JList (map key_sorted xs)"
| "key_sorted (JObj ps) = JObj (foldr insert_entry (map (map_prod id key_sorted) ps) [])"

definition normal_document :: "identity_document \<Rightarrow> identity_document" where
  "normal_document d = d\<lparr>doc_payload := key_sorted (doc_payload d)\<rparr>"

fun normal_frame :: "ProtocolFrame \<Rightarrow> ProtocolFrame" where
  "normal_frame (ProtocolOutput n d) = ProtocolOutput n (normal_document d)"
| "normal_frame frame = frame"

text \<open>
  What the two ends of the pipe rely on: a rendered frame has no line feed and, unless it is nested
  too deeply for the parent, decodes to the frame, \<open>fits\<close> being the parent's measure of nesting.
\<close>

definition wire_laws :: "frame_codec \<Rightarrow> wrapper_services \<Rightarrow> (json \<Rightarrow> int \<Rightarrow> bool) \<Rightarrow> bool" where
  "wire_laws c sv fits =
     (\<forall>frame bs d. ws_dumps sv (frame_json frame) = Inr bs \<longrightarrow>
        PROTOCOL_FRAME_TERMINATOR \<notin> set bs \<and> (fits (frame_json frame) d \<longrightarrow> decode_frame c bs d = Inr (normal_frame frame)))"

lemma ref_read_outputs:
  assumes "st_prelude_seen s" and "\<not> st_completed s" and "count_fits s (length (st_outputs s) + length docs)"
    and "map (\<lambda>f. decode_frame c f d) fs = map Inr (output_frames (length (st_outputs s)) docs @
      (if whole then [ProtocolComplete (int (length (st_outputs s) + length docs))] else []))"
  shows "ref_read c d s fs [] =
    (s\<lparr>st_outputs := st_outputs s @ docs, st_completed := whole\<rparr>,
     if whole then None else Some (violation ProtocolFailureCode.INCOMPLETE_STREAM ''stream ended before its completion frame''))"
  using assms
proof (induction docs arbitrary: s fs)
  case Nil
  have end1: "ref_read c d s [] [] = (s, finish s)" by simp
  show ?case
  proof (cases whole)
    case True
    then obtain f where "fs = [f]" "decode_frame c f d = Inr (ProtocolComplete (int (length (st_outputs s))))"
      using Nil.prems(4) by (auto simp: output_frames_def)
    then show ?thesis using Nil.prems True by (simp add: accept_complete_def require_open_def finish_def)
  next
    case False
    then show ?thesis using Nil.prems by (simp add: output_frames_def finish_def)
  qed
next
  case (Cons doc docs)
  let ?t = "s\<lparr>st_outputs := st_outputs s @ [doc]\<rparr>"
  obtain f gs where f: "fs = f # gs" "decode_frame c f d = Inr (ProtocolOutput (int (length (st_outputs s))) doc)"
    "map (\<lambda>f. decode_frame c f d) gs = map Inr (output_frames (length (st_outputs ?t)) docs @
      (if whole then [ProtocolComplete (int (length (st_outputs ?t) + length docs))] else []))"
    using Cons.prems(4) by (cases fs) (auto simp: output_frames_Cons)
  have "count_fits s (Suc (length (st_outputs s)))" using Cons.prems(3) by (auto simp: count_fits_def)
  then have accepted: "accept s (ProtocolOutput (int (length (st_outputs s))) doc) = (?t, None)"
    using accept_open [OF Cons.prems(1,2)] by blast
  have fits: "count_fits ?t (length (st_outputs ?t) + length docs)" using Cons.prems(3) by (simp add: count_fits_def)
  have "ref_read c d ?t gs [] = (?t\<lparr>st_outputs := st_outputs ?t @ docs, st_completed := whole\<rparr>,
     if whole then None else Some (violation ProtocolFailureCode.INCOMPLETE_STREAM ''stream ended before its completion frame''))"
    by (rule Cons.IH [OF _ _ fits f(3)]) (simp_all add: Cons.prems(1,2))
  then show ?case using f accepted Cons.prems(2) by simp
qed

text \<open>The reading of a conversation that is whole or breaks off before its completion frame.\<close>

lemma conversation_read:
  assumes ok: "ExecutorSelfBudgets_ok b" and laws: "wire_laws c sv fits"
    and frames: "frames = ProtocolPrelude digest # output_frames 0 docs @ (if whole then [ProtocolComplete (int (length docs))] else [])"
    and rendered: "\<forall>f\<in>set frames. \<exists>bs. ws_dumps sv (frame_json f) = Inr bs"
    and deep: "\<forall>f\<in>set frames. fits (frame_json f) (effective_depth c (count_limit (json_depth b)))"
    and bytes: "byte_budgets_fit b (framed (map (frame_bytes sv) frames))"
    and count: "\<forall>m. count_limit (protocol_output_count b) = Some m \<longrightarrow> int (length docs) \<le> m"
  shows "psr_outputs (read_protocol_stream c (framed (map (frame_bytes sv) frames)) digest b) = map normal_document docs \<and>
    psr_failure (read_protocol_stream c (framed (map (frame_bytes sv) frames)) digest b) =
      (if whole then None else Some (violation ProtocolFailureCode.INCOMPLETE_STREAM ''stream ended before its completion frame''))"
proof -
  let ?fs = "map (frame_bytes sv) frames" and ?d = "effective_depth c (count_limit (json_depth b))"
  let ?s = "(initial_state b digest)\<lparr>st_prelude_seen := True\<rparr>"
  have decoded: "decode_frame c (frame_bytes sv f) ?d = Inr (normal_frame f) \<and> PROTOCOL_FRAME_TERMINATOR \<notin> set (frame_bytes sv f)"
    if "f \<in> set frames" for f
    using laws rendered deep that unfolding wire_laws_def frame_bytes_def by (force split: sum.split)
  have split: "stream_frames (framed ?fs) = ?fs" "stream_trailing (framed ?fs) = []"
    using split_framed [of ?fs "[]"] decoded by (auto simp: stream_frames_def stream_trailing_def)
  have outs: "map normal_frame (output_frames n ds) = output_frames n (map normal_document ds)" for n ds
  proof (induction ds arbitrary: n)
    case Nil
    show ?case by (simp add: output_frames_def)
  qed (simp add: output_frames_Cons)
  have rest: "map (\<lambda>f. decode_frame c f ?d) (map (frame_bytes sv) (output_frames 0 docs @
      (if whole then [ProtocolComplete (int (length docs))] else []))) =
    map Inr (output_frames (length (st_outputs ?s)) (map normal_document docs) @
      (if whole then [ProtocolComplete (int (length (st_outputs ?s) + length (map normal_document docs)))] else []))"
  proof -
    have "map (\<lambda>f. decode_frame c f ?d) (map (frame_bytes sv) gs) = map Inr (map normal_frame gs)" if "set gs \<subseteq> set frames" for gs
      using that decoded by (auto simp: o_def)
    from this [of "output_frames 0 docs"] have "map (\<lambda>f. decode_frame c f ?d) (map (frame_bytes sv) (output_frames 0 docs)) =
      map Inr (output_frames 0 (map normal_document docs))" using frames outs [of 0 docs] by auto
    moreover have "decode_frame c (frame_bytes sv (ProtocolComplete (int (length docs)))) ?d = Inr (ProtocolComplete (int (length docs)))"
      if whole using decoded [of "ProtocolComplete (int (length docs))"] frames that by simp
    ultimately show ?thesis by (cases whole) (simp_all add: initial_state_def)
  qed
  have "count_fits ?s (length (st_outputs ?s) + length (map normal_document docs))"
    using count by (simp add: count_fits_def initial_state_def)
  from ref_read_outputs [OF _ _ this rest] have "ref_read c ?d ?s (map (frame_bytes sv) (output_frames 0 docs @
      (if whole then [ProtocolComplete (int (length docs))] else []))) [] =
    (?s\<lparr>st_outputs := map normal_document docs, st_completed := whole\<rparr>,
     if whole then None else Some (violation ProtocolFailureCode.INCOMPLETE_STREAM ''stream ended before its completion frame''))"
    by (simp add: initial_state_def)
  moreover have "decode_frame c (frame_bytes sv (ProtocolPrelude digest)) ?d = Inr (ProtocolPrelude digest)"
    using decoded [of "ProtocolPrelude digest"] frames by simp
  moreover have "accept (initial_state b digest) (ProtocolPrelude digest) = (?s, None)" using accept_initial by blast
  ultimately have "ref_read c ?d (initial_state b digest) ?fs [] =
    (?s\<lparr>st_outputs := map normal_document docs, st_completed := whole\<rparr>,
     if whole then None else Some (violation ProtocolFailureCode.INCOMPLETE_STREAM ''stream ended before its completion frame''))"
    by (simp add: frames initial_state_def)
  with read_loop_initial_ref [OF ok bytes, of c "initial_state b digest"] show ?thesis
    by (auto simp: read_protocol_stream_loop split split: prod.splits)
qed


lemma emitted_rendered:
  "emitted sv n vs = (docs, e) \<Longrightarrow> f \<in> set (output_frames n docs) \<Longrightarrow> \<exists>bs. ws_dumps sv (frame_json f) = Inr bs"
proof (induction vs arbitrary: n docs)
  case (Cons p vs)
  obtain v catches where p: "p = (v, catches)" by (cases p)
  show ?case
  proof (cases "emission sv n v")
    case (Inl x)
    then show ?thesis using Cons p by (auto simp: output_frames_def split: if_splits)
  next
    case (Inr d)
    then obtain rest where rest: "emitted sv (Suc n) vs = (rest, e)" "docs = d # rest"
      using Cons.prems(1) p by (auto split: prod.splits)
    then show ?thesis using Cons.IH [OF rest(1)] Cons.prems(2) Inr by (auto simp: output_frames_Cons emission_def result_simps)
  qed
qed (simp add: output_frames_def)


text \<open>A driver that emits one document, and one the wrapper refuses, over the tagged codec.\<close>

definition sample_document :: identity_document where
  "sample_document = \<lparr>doc_schema = ''s'', doc_schema_version = 1, doc_payload = JNull\<rparr>"

definition sample_value :: py_value where
  "sample_value = PyDict [(StrKey ''schema'', PyStr ''s''), (StrKey ''schema_version'', PyInt 1), (StrKey ''payload'', PyNone)]"

definition sample_wrapper :: wrapper_services where
  "sample_wrapper =
     \<lparr>ws_loads = (\<lambda>bs. if bs = [9] then Some sample_value else None),
      ws_dumps = (\<lambda>j.
        if j = frame_json (ProtocolPrelude ''d'') then Inr [1, 0]
        else if j = frame_json (ProtocolOutput 0 sample_document) then Inr [2, 0]
        else if j = frame_json (ProtocolComplete 1) then Inr [3, 1]
        else if Some j = to_json sample_value then Inr [9]
        else Inl (ValueError '''')),
      ws_sha256 = (\<lambda>_. ''d'')\<rparr>"

lemma frame_json_inject: "frame_json f = frame_json g \<longleftrightarrow> f = g"
proof -
  have same: "d = d'" if "doc_schema d = doc_schema d'" "doc_schema_version d = doc_schema_version d'" "doc_payload d = doc_payload d'"
    for d d' :: identity_document using that by (cases d; cases d') simp
  show ?thesis by (cases f; cases g) (auto simp: frame_json_def intro: same)
qed

lemma sample_request_json: "frame_json f \<noteq> j" if "to_json sample_value = Some j"
  using that by (cases f) (auto simp: frame_json_def sample_value_def)

lemma sample_wire: "wire_laws tag_codec sample_wrapper (\<lambda>_ _. True)"
proof -
  have other: "Some (frame_json f) \<noteq> to_json sample_value" for f using sample_request_json by metis
  show ?thesis
    unfolding wire_laws_def
    by (auto simp: sample_wrapper_def frame_json_inject tag_codec_frames sample_document_def normal_document_def
        PROTOCOL_FRAME_TERMINATOR_def other split: if_splits)
qed



end
