(* ===== verification/Durations.thy ===== *)
theory Durations
  imports Declarations "HOL-Library.Log_Nat"
begin

text \<open>
  The conversion of seconds to a duration limit, \<^verbatim>\<open>FiniteDurationLimit.from_seconds\<close> of
  \<^verbatim>\<open>declarations/models.py\<close>, on the bits of an IEEE double: the product with 10^9 is rounded to the
  nearest double, ties to the even significand, and truncated.
\<close>

section \<open>Doubles\<close>

definition biased_exponent :: "64 word \<Rightarrow> nat" where
  "biased_exponent w = unat (take_bit 11 (drop_bit 52 w))"

definition significand :: "64 word \<Rightarrow> int" where
  "significand w =
     (let fraction = uint (take_bit 52 w) in if biased_exponent w = 0 then fraction else 2 ^ 52 + fraction)"

definition scale :: "64 word \<Rightarrow> int" where
  "scale w = int (max 1 (biased_exponent w)) - 1075"

definition negative :: "64 word \<Rightarrow> bool" where
  "negative w = bit w 63"

text \<open>The value of \<open>q * 2 ^ e\<close>, and of a finite double.\<close>

definition two_to :: "int \<Rightarrow> rat" where
  "two_to e = (if 0 \<le> e then 2 ^ nat e else 1 / 2 ^ nat (- e))"

definition scaled :: "int \<Rightarrow> int \<Rightarrow> rat" where
  "scaled q e = of_int q * two_to e"

definition float_value :: "64 word \<Rightarrow> rat" where
  "float_value w = (if negative w then - scaled (significand w) (scale w) else scaled (significand w) (scale w))"

text \<open>
  Rounding a positive integer to 53 significant bits. The exponent of the product is never below
  that of the smallest subnormal, and a product beyond the largest double is refused below, as the
  infinity it would become.
\<close>

definition round53 :: "int \<Rightarrow> int" where
  "round53 p =
     (let k = nat (bitlen p - 53); q = p div 2 ^ k; r = p mod 2 ^ k in
        (if 2 * r > 2 ^ k \<or> 2 * r = 2 ^ k \<and> odd q then q + 1 else q) * 2 ^ k)"

definition nanoseconds_product :: "64 word \<Rightarrow> rat" where
  "nanoseconds_product w = scaled (round53 (significand w * 1000000000)) (scale w)"

definition maxsize :: int where
  "maxsize = 2 ^ 63 - 1"

definition from_seconds :: "64 word \<Rightarrow> (py_exn, FiniteDurationLimit) result" where
  "from_seconds seconds =
     (if \<not> float_finite seconds \<or> float_value seconds \<le> 0
      then Inl (ValueError ''seconds must be a positive finite number'')
      else let product = nanoseconds_product seconds in
        if product \<ge> of_int maxsize \<or> product < 1
        then Inl (ValueError ''seconds must convert to a positive nanosecond count'')
        else Inr \<lparr>fd_max_ns = \<lfloor>product\<rfloor>\<rparr>)"

section \<open>Rounding\<close>

text \<open>A nearest multiple is at most half of one away.\<close>

lemma nearest_multiple:
  fixes p b :: int
  assumes "0 < b" and "q = p div b" and "r = p mod b"
  shows "2 * \<bar>(if 2 * r > b \<or> 2 * r = b \<and> odd q then q + 1 else q) * b - p\<bar> \<le> b"
proof -
  have "p = q * b + r" using assms by simp
  moreover have "0 \<le> r" "r < b" using assms by simp_all
  ultimately show ?thesis by (auto simp: algebra_simps abs_if)
qed

lemma round53_near:
  assumes "0 < p"
  shows "\<bar>round53 p - p\<bar> * 2 ^ 53 \<le> p"
proof (cases "bitlen p \<le> 53")
  case True
  then show ?thesis using assms by (simp add: round53_def Let_def)
next
  case False
  define k where "k = nat (bitlen p - 53)"
  have "2 ^ nat (bitlen p - 1) \<le> p" using bitlen_bounds [OF assms] by blast
  moreover have "nat (bitlen p - 1) = k + 52" using False by (simp add: k_def)
  ultimately have "2 ^ (k + 52) \<le> p" by simp
  moreover have "2 * \<bar>round53 p - p\<bar> \<le> 2 ^ k"
    unfolding round53_def Let_def k_def [symmetric] by (rule nearest_multiple) simp_all
  then have "\<bar>round53 p - p\<bar> * 2 ^ 53 \<le> 2 ^ k * 2 ^ 52" by simp
  ultimately show ?thesis by (simp add: power_add)
qed

lemma round53_exact:
  assumes "0 < p" and "p = n * 2 ^ j" and "n < 2 ^ 53"
  shows "round53 p = p"
proof -
  define k where "k = nat (bitlen p - 53)"
  have n: "0 < n" using assms(1,2) by (simp add: zero_less_mult_iff)
  have "p < 2 ^ (53 + j)" using assms(2,3) by (simp add: power_add)
  then have "bitlen p \<le> int (53 + j)" by (simp only: bitlen_le_iff_power nat_int of_nat_0_le_iff simp_thms)
  then have "k \<le> j" by (simp add: k_def)
  then have "(2 :: int) ^ k dvd p" unfolding assms(2) by (simp add: le_imp_power_dvd dvd_mult)
  then show ?thesis unfolding round53_def Let_def k_def [symmetric] by (simp add: dvd_eq_mod_eq_0)
qed

lemma two_to_pos [simp]: "0 < two_to e" "0 \<le> two_to e" "\<not> two_to e < 0" "\<bar>two_to e\<bar> = two_to e"
  by (simp_all add: two_to_def)

lemma scaled_le: "scaled p e \<le> scaled q e \<longleftrightarrow> p \<le> q"
  by (simp add: scaled_def)

lemma scaled_pos: "0 < scaled p e \<longleftrightarrow> 0 < p"
  by (simp add: scaled_def zero_less_mult_iff)

lemma scaled_abs: "\<bar>scaled p e - scaled q e\<bar> = scaled \<bar>p - q\<bar> e"
  by (simp add: scaled_def abs_mult flip: left_diff_distrib)

lemma scaled_times: "scaled (p * c) e = of_int c * scaled p e"
  by (simp add: scaled_def)

lemma product_near:
  assumes "0 < significand w"
  shows "\<bar>nanoseconds_product w - 1000000000 * scaled (significand w) (scale w)\<bar> * 2 ^ 53 \<le>
    1000000000 * scaled (significand w) (scale w)"
proof -
  let ?p = "significand w * 1000000000"
  have p: "1000000000 * scaled (significand w) (scale w) = scaled ?p (scale w)" by (simp add: scaled_times)
  have "\<bar>round53 ?p - ?p\<bar> * 2 ^ 53 \<le> ?p" using round53_near [of ?p] assms by simp
  then have "scaled (\<bar>round53 ?p - ?p\<bar> * 2 ^ 53) (scale w) \<le> scaled ?p (scale w)" by (simp only: scaled_le)
  moreover have "scaled (\<bar>round53 ?p - ?p\<bar> * 2 ^ 53) (scale w) = scaled \<bar>round53 ?p - ?p\<bar> (scale w) * 2 ^ 53"
    by (simp add: scaled_def)
  ultimately show ?thesis unfolding p nanoseconds_product_def scaled_abs by simp
qed

lemma product_exact:
  assumes "0 < significand w" and "scaled (significand w) (scale w) = of_int n" and "n * 1000000000 < 2 ^ 53"
  shows "nanoseconds_product w = of_int (n * 1000000000)"
proof -
  let ?p = "significand w * 1000000000" and ?e = "scale w"
  have exact: "scaled ?p ?e = of_int (n * 1000000000)" using assms(2) by (simp add: scaled_times)
  have "round53 ?p = ?p"
  proof (cases "0 \<le> ?e")
    case True
    then have "(of_int (?p * 2 ^ nat ?e) :: rat) = of_int (n * 1000000000)" using exact by (simp add: scaled_def two_to_def)
    then have "?p * 2 ^ nat ?e = n * 1000000000" by (simp only: of_int_eq_iff)
    moreover have "?p * 1 \<le> ?p * 2 ^ nat ?e" using assms(1) by (intro mult_left_mono) simp_all
    ultimately have "?p < 2 ^ 53" using assms(3) by linarith
    then show ?thesis using round53_exact [of ?p ?p 0] assms(1) by simp
  next
    case False
    then have "(of_int ?p :: rat) = of_int (n * 1000000000 * 2 ^ nat (- ?e))"
      using exact by (simp add: scaled_def two_to_def field_simps)
    then have "?p = n * 1000000000 * 2 ^ nat (- ?e)" by (simp only: of_int_eq_iff)
    then show ?thesis using round53_exact [of ?p "n * 1000000000" "nat (- ?e)"] assms(1,3) by simp
  qed
  then show ?thesis unfolding nanoseconds_product_def using exact by simp
qed

section \<open>Properties\<close>

text \<open>
  C12: seconds become nanoseconds as closely as doubles allow. A duration built from seconds is between
  one nanosecond and \<^verbatim>\<open>sys.maxsize\<close>, it differs from the exact product by less than one nanosecond
  and one part in 2^53, and a whole number of seconds below about 104 days is converted exactly.
\<close>

theorem from_seconds_faithful:
  assumes "from_seconds w = Inr limit"
  shows "1 \<le> fd_max_ns limit \<and> fd_max_ns limit < maxsize \<and>
    \<bar>of_int (fd_max_ns limit) - 1000000000 * float_value w\<bar> < 1 + 1000000000 * float_value w / 2 ^ 53 \<and>
    (\<forall>n. float_value w = of_int n \<and> n * 1000000000 < 2 ^ 53 \<longrightarrow> fd_max_ns limit = n * 1000000000)"
proof -
  let ?x = "nanoseconds_product w"
  have facts: "0 < float_value w" "?x < of_int maxsize" "1 \<le> ?x" "fd_max_ns limit = \<lfloor>?x\<rfloor>"
    using assms by (auto simp: from_seconds_def Let_def not_le not_less split: if_splits)
  have "0 \<le> significand w" by (simp add: significand_def Let_def)
  then have "0 \<le> scaled (significand w) (scale w)" by (simp add: scaled_def)
  then have v: "float_value w = scaled (significand w) (scale w)" using facts(1) by (auto simp: float_value_def split: if_splits)
  then have s: "0 < significand w" using facts(1) by (simp add: scaled_pos)
  have near: "\<bar>?x - 1000000000 * float_value w\<bar> \<le> 1000000000 * float_value w / 2 ^ 53"
    using product_near [OF s] by (simp add: v field_simps)
  have "of_int \<lfloor>?x\<rfloor> \<le> ?x" "?x < of_int \<lfloor>?x\<rfloor> + 1" by linarith+
  then have "\<bar>of_int \<lfloor>?x\<rfloor> - 1000000000 * float_value w\<bar> < 1 + 1000000000 * float_value w / 2 ^ 53"
    using near by linarith
  moreover have "1 \<le> \<lfloor>?x\<rfloor>" "\<lfloor>?x\<rfloor> < maxsize" using facts(2,3) by linarith+
  moreover have "\<lfloor>?x\<rfloor> = n * 1000000000" if "float_value w = of_int n" "n * 1000000000 < 2 ^ 53" for n
    using product_exact [OF s that(1) [unfolded v] that(2)] by (simp only: floor_of_int)
  ultimately show ?thesis unfolding facts(4) by blast
qed

text \<open>One and a half seconds.\<close>

lemma sample_seconds: "from_seconds 0x3FF8000000000000 = Inr \<lparr>fd_max_ns = 1500000000\<rparr>"
  by code_simp

theorem from_seconds_faithful_witness:
  "from_seconds 0x3FF8000000000000 = Inr \<lparr>fd_max_ns = 1500000000\<rparr> \<and> 1500000000 < maxsize"
  using from_seconds_faithful [OF sample_seconds] sample_seconds by simp

end
