(* ===== verification/EngineParts.thy ===== *)
theory EngineParts
  imports Records Retention Protocol Spawn Runtime
begin

text \<open>
  The parts of \<^verbatim>\<open>execution/engine.py\<close> that decide without holding a descriptor: the resolved
  target, the loops of the transport workers and of the parent, the teardown and the outcome. A loop
  is a function of what the operating system answers it, call by call; a list of answers that ends
  before the loop does leaves it waiting.
\<close>

section \<open>Platform and target\<close>

definition SUPPORTED_PLATFORMS :: "string list" where
  "SUPPORTED_PLATFORMS = [''darwin'', ''linux'']"

definition validate_platform :: "string \<Rightarrow> (py_exn, unit) result" where
  "validate_platform platform =
     ensure (platform \<in> set SUPPORTED_PLATFORMS)
       (DeclarationError (''dr-exec v1 executes only on '' @ ''darwin, linux''))"

text \<open>\<open>which name path\<close> is \<^verbatim>\<open>shutil.which(name, path=path)\<close>.\<close>

definition resolve_executable ::
  "(string \<Rightarrow> string \<Rightarrow> string option) \<Rightarrow> string list \<Rightarrow> environment \<Rightarrow> (py_exn, string) result" where
  "resolve_executable which argv environment =
     (case argv of
        [] \<Rightarrow> Inl IndexError
      | name # _ \<Rightarrow>
          if is_absolute (PurePosixPath name) then Inr name
          else (case environment ''PATH'' of
              None \<Rightarrow> Inr name
            | Some granted_path \<Rightarrow> Inr (case which name granted_path of Some p \<Rightarrow> p | None \<Rightarrow> name)))"

record ResolvedTarget =
  tg_executable :: string
  tg_argv :: "string list"
  tg_stdin_bytes :: bytes
  tg_record :: ExecutionTargetRecord
  tg_request_id_sha256 :: "string option"
  tg_wants_protocol :: bool

definition first_argument :: "string list \<Rightarrow> (py_exn, string) result" where
  "first_argument argv = (case argv of [] \<Rightarrow> Inl IndexError | name # _ \<Rightarrow> Inr name)"

text \<open>\<open>digest\<close> is \<^verbatim>\<open>canonical_declaration_digest\<close>, \<open>prepare\<close> the runtime's \<^verbatim>\<open>prepare\<close>.\<close>

fun target_of ::
  "(ExecutionTarget \<Rightarrow> string) \<Rightarrow> (ExecutionTarget \<Rightarrow> (py_exn, PreparedPythonProcess) result) \<Rightarrow> ExecutionTarget \<Rightarrow>
     (py_exn, ResolvedTarget) result" where
  "target_of digest prepare (TrustedCommandTarget argv stdin) =
     bind_result (first_argument argv) (\<lambda>executable.
       Inr \<lparr>tg_executable = executable, tg_argv = argv, tg_stdin_bytes = stdin,
            tg_record = TrustedCommandTargetRecord (digest (TrustedCommandTarget argv stdin)),
            tg_request_id_sha256 = None, tg_wants_protocol = False\<rparr>)"
| "target_of digest prepare (UntrustedCommandTarget argv stdin profile) =
     bind_result (first_argument argv) (\<lambda>executable.
       Inr \<lparr>tg_executable = executable, tg_argv = argv, tg_stdin_bytes = stdin,
            tg_record = UntrustedCommandTargetRecord (digest (UntrustedCommandTarget argv stdin profile)) profile,
            tg_request_id_sha256 = None, tg_wants_protocol = False\<rparr>)"
| "target_of digest prepare (TrustedPythonTarget src request) =
     bind_result (prepare (TrustedPythonTarget src request)) (\<lambda>p.
     bind_result (first_argument (pp_argv p)) (\<lambda>executable.
       Inr \<lparr>tg_executable = executable, tg_argv = pp_argv p, tg_stdin_bytes = pp_request_bytes p,
            tg_record = TrustedPythonTargetRecord (digest (TrustedPythonTarget src request))
              (pp_request_id_sha256 p) (pp_runtime_record p),
            tg_request_id_sha256 = Some (pp_request_id_sha256 p), tg_wants_protocol = True\<rparr>))"
| "target_of digest prepare (UntrustedPythonTarget src request profile) =
     bind_result (prepare (UntrustedPythonTarget src request profile)) (\<lambda>p.
     bind_result (first_argument (pp_argv p)) (\<lambda>executable.
       Inr \<lparr>tg_executable = executable, tg_argv = pp_argv p, tg_stdin_bytes = pp_request_bytes p,
            tg_record = UntrustedPythonTargetRecord (digest (UntrustedPythonTarget src request profile))
              (pp_request_id_sha256 p) profile (pp_runtime_record p),
            tg_request_id_sha256 = Some (pp_request_id_sha256 p), tg_wants_protocol = True\<rparr>))"
| "target_of digest prepare (InProcessImportableJsonTarget entry_point request) =
     Inl (AssertionError ''run() rejects in-process targets before _target_of'')"

section \<open>Feeding standard input\<close>

text \<open>What one \<^verbatim>\<open>write\<close> does and what one \<^verbatim>\<open>read\<close> gives.\<close>

datatype write_obs = Wrote nat | WriteBlocked | WriteFailed
datatype read_obs = ReadBytes bytes | ReadBlocked | ReadFailed

record feed_ready =
  fr_released :: bool
  fr_writable :: "write_obs option"

datatype 'a loop = Done 'a | Waiting

datatype feed_end = Fed | FeedReleased | FeedBroken

fun feed :: "bytes \<Rightarrow> nat \<Rightarrow> feed_ready list \<Rightarrow> (feed_end \<times> bytes) loop" where
  "feed payload offset obs =
     (if \<not> offset < length payload then Done (Fed, take offset payload)
      else case obs of
        [] \<Rightarrow> Waiting
      | r # rest \<Rightarrow>
          if fr_released r then Done (FeedReleased, take offset payload)
          else (case fr_writable r of
              None \<Rightarrow> feed payload offset rest
            | Some WriteBlocked \<Rightarrow> feed payload offset rest
            | Some WriteFailed \<Rightarrow> Done (FeedBroken, take offset payload)
            | Some (Wrote n) \<Rightarrow> feed payload (offset + min n (length payload - offset)) rest))"

declare feed.simps [simp del]

section \<open>Draining the outputs\<close>

record DrainState =
  dr_retention :: PayloadRetention
  dr_overflow :: bool
  dr_protocol_result :: "ProtocolStreamResult option"

fun read_available :: "read_obs \<Rightarrow> bytes option" where
  "read_available ReadBlocked = Some []"
| "read_available ReadFailed = None"
| "read_available (ReadBytes chunk) = (if chunk = [] then None else Some chunk)"

text \<open>A ready key: the release pipe, a payload stream, or the protocol pipe with what writing on does.\<close>

datatype pump_key = ReleaseReady | StreamReady stream_name read_obs | ProtocolReady read_obs write_obs

record OutputPump =
  pm_state :: DrainState
  pm_streams :: "stream_name list"
  pm_protocol_live :: bool
  pm_forwards :: bool
  pm_forwarded :: bytes

definition pump_live :: "OutputPump \<Rightarrow> bool" where
  "pump_live p = (pm_streams p \<noteq> [] \<or> pm_protocol_live p)"

definition pump_offer :: "stream_name \<Rightarrow> bytes \<Rightarrow> DrainState \<Rightarrow> DrainState" where
  "pump_offer name chunk d =
     (let retention' = offer_to (dr_retention d) (name, chunk)
      in d\<lparr>dr_retention := retention', dr_overflow := dr_overflow d \<or> overflowed retention'\<rparr>)"

text \<open>A descriptor that has ended is unregistered and is not ready again.\<close>

fun pump_key_step :: "pump_key \<Rightarrow> OutputPump \<Rightarrow> OutputPump" where
  "pump_key_step ReleaseReady p = p"
| "pump_key_step (StreamReady name obs) p =
     (if name \<notin> set (pm_streams p) then p
      else case read_available obs of
        None \<Rightarrow> p\<lparr>pm_streams := removeAll name (pm_streams p)\<rparr>
      | Some chunk \<Rightarrow> p\<lparr>pm_state := pump_offer name chunk (pm_state p)\<rparr>)"
| "pump_key_step (ProtocolReady obs wr) p =
     (if \<not> pm_protocol_live p then p
      else case read_available obs of
        None \<Rightarrow> p\<lparr>pm_protocol_live := False\<rparr>
      | Some chunk \<Rightarrow>
          if pm_forwards p
          then p\<lparr>pm_forwarded := pm_forwarded p @ (case wr of Wrote n \<Rightarrow> take n chunk | _ \<Rightarrow> [])\<rparr>
          else p)"

text \<open>The keys of one \<^verbatim>\<open>select\<close>; a ready release pipe ends the pump.\<close>

fun pump_keys :: "pump_key list \<Rightarrow> OutputPump \<Rightarrow> bool \<times> OutputPump" where
  "pump_keys [] p = (False, p)"
| "pump_keys (k # ks) p = (if k = ReleaseReady then (True, p) else pump_keys ks (pump_key_step k p))"

fun pump :: "pump_key list list \<Rightarrow> OutputPump \<Rightarrow> OutputPump loop" where
  "pump selects p =
     (if \<not> pump_live p then Done p
      else case selects of
        [] \<Rightarrow> Waiting
      | ks # rest \<Rightarrow> (case pump_keys ks p of (released, p') \<Rightarrow> if released then Done p' else pump rest p'))"

declare pump.simps [simp del]

section \<open>The set-up status\<close>

record status_obs =
  so_now :: int
  so_selected :: bool
  so_read :: read_obs

datatype status_end = StatusBytes bytes | BootstrapTimeout

fun status_loop :: "int option \<Rightarrow> bytes \<Rightarrow> status_obs list \<Rightarrow> status_end loop" where
  "status_loop deadline collected [] = Waiting"
| "status_loop deadline collected (o1 # rest) =
     (if (case deadline of None \<Rightarrow> False | Some d \<Rightarrow> d - so_now o1 \<le> 0 \<or> \<not> so_selected o1) then Done BootstrapTimeout
      else case so_read o1 of
        ReadBytes [] \<Rightarrow> Done (StatusBytes collected)
      | ReadBytes chunk \<Rightarrow> status_loop deadline (collected @ chunk) rest
      | _ \<Rightarrow> Done (StatusBytes collected))"

definition read_setup_status :: "int option \<Rightarrow> int \<Rightarrow> status_obs list \<Rightarrow> status_end loop" where
  "read_setup_status startup_ns now obs = status_loop (map_option (\<lambda>ns. now + ns) startup_ns) [] obs"

section \<open>Waiting for the child\<close>

record StopReason =
  sp_axis :: "BudgetAxis option"
  sp_cancelled :: bool

text \<open>What one round of the wait sees, the clock included; the bounded wait ends every round.\<close>

record poll_obs =
  pl_exited :: bool
  pl_transport_failed :: bool
  pl_overflow :: bool
  pl_cancelled :: bool
  pl_now :: int

definition poll_ends :: "int option \<Rightarrow> bool \<Rightarrow> bool \<Rightarrow> poll_obs \<Rightarrow> StopReason option option" where
  "poll_ends deadline_ns fail_on_overflow has_token p =
     (if pl_exited p then Some None
      else if pl_transport_failed p then Some None
      else if fail_on_overflow \<and> pl_overflow p
      then Some (Some \<lparr>sp_axis = Some BudgetAxis.PAYLOAD_OUTPUT, sp_cancelled = False\<rparr>)
      else if has_token \<and> pl_cancelled p then Some (Some \<lparr>sp_axis = None, sp_cancelled = True\<rparr>)
      else case deadline_ns of
        None \<Rightarrow> None
      | Some d \<Rightarrow>
          if d - pl_now p \<le> 0 then Some (Some \<lparr>sp_axis = Some BudgetAxis.WALL_TIME, sp_cancelled = False\<rparr>) else None)"

fun await_child :: "int option \<Rightarrow> bool \<Rightarrow> bool \<Rightarrow> poll_obs list \<Rightarrow> StopReason option loop" where
  "await_child deadline_ns fail_on_overflow has_token [] = Waiting"
| "await_child deadline_ns fail_on_overflow has_token (p # ps) =
     (case poll_ends deadline_ns fail_on_overflow has_token p of
        Some stop \<Rightarrow> Done stop
      | None \<Rightarrow> await_child deadline_ns fail_on_overflow has_token ps)"

section \<open>Teardown and joining\<close>

datatype signal_sent = ToGroup int | ToChild int

text \<open>The clock around the teardown, whether the child ended in time or at all, and what the last probe finds.\<close>

record teardown_obs =
  td_started :: int
  td_finished :: int
  td_ended_in_time :: bool
  td_ends :: bool
  td_group_survives :: bool

definition reaped_within :: "int option \<Rightarrow> teardown_obs \<Rightarrow> bool loop" where
  "reaped_within termination_ns obs =
     (case termination_ns of
        None \<Rightarrow> if td_ends obs then Done True else Waiting
      | Some _ \<Rightarrow> Done (td_ended_in_time obs))"

definition tear_down :: "int option \<Rightarrow> bool \<Rightarrow> teardown_obs \<Rightarrow> (signal_sent list \<times> int) loop" where
  "tear_down termination_ns leads_group obs =
     (case reaped_within termination_ns obs of
        Waiting \<Rightarrow> Waiting
      | Done reaped \<Rightarrow>
          if \<not> td_ends obs then Waiting
          else Done
            (if \<not> leads_group
             then [ToChild TERMINATION_SIGNAL] @ (if reaped then [] else [ToChild ESCALATION_SIGNAL])
             else [ToGroup TERMINATION_SIGNAL, ToChild TERMINATION_SIGNAL] @
               (if reaped then [] else [ToGroup ESCALATION_SIGNAL, ToChild ESCALATION_SIGNAL]) @ [ToGroup 0] @
               (if td_group_survives obs then [ToGroup ESCALATION_SIGNAL] else []),
             td_finished obs - td_started obs))"

text \<open>A transport worker at the end of its join: still alive, or ended with or without an exception.\<close>

datatype worker_end = StillAlive | EndedFailed | EndedWell

definition raise_if_failed :: "string \<times> worker_end \<Rightarrow> (py_exn, unit) result" where
  "raise_if_failed = (\<lambda>(name, e). ensure (e \<noteq> EndedFailed)
     (ExecutorFailure (''the '' @ name @ '' transport worker failed'') ExecutorFailureCode.TRANSPORT_WORKER_FAILED))"

definition join_workers :: "int option \<Rightarrow> (string \<times> worker_end) list \<Rightarrow> (py_exn, unit) result loop" where
  "join_workers join_ns workers =
     (if StillAlive \<in> snd ` set workers
      then (if join_ns = None then Waiting
        else Done (Inl (ExecutorFailure ''payload transports did not reach EOF within the join budget''
          ExecutorFailureCode.TRANSPORT_JOIN_TIMEOUT)))
      else Done (for_each raise_if_failed workers))"

section \<open>Outcomes and receipts\<close>

definition spawn_outcome :: "SetupFailure \<Rightarrow> string \<Rightarrow> ExecutionOutcome" where
  "spawn_outcome failure program =
     (if sf_stage failure = SETUP_STAGE_EXEC \<and> sf_errno failure = Some 2
      then SpawnAbsentOutcome program
      else SpawnFailedOutcome (case sf_errno failure of Some e \<Rightarrow> e | None \<Rightarrow> 0) (sf_stage failure))"

definition exit_outcome :: "int \<Rightarrow> ExecutionOutcome" where
  "exit_outcome returncode = (if returncode < 0 then SignaledOutcome (- returncode) else ExitedOutcome returncode)"

definition outcome_of ::
  "int \<Rightarrow> DrainState \<Rightarrow> StopReason option \<Rightarrow> ProtocolStreamResult option \<Rightarrow> ExecutionOutcome" where
  "outcome_of returncode state stop protocol =
     (if overflowed (dr_retention state) then BudgetExceededOutcome BudgetAxis.PAYLOAD_OUTPUT
      else if (case stop of Some r \<Rightarrow> sp_axis r = Some BudgetAxis.WALL_TIME | None \<Rightarrow> False)
      then BudgetExceededOutcome BudgetAxis.WALL_TIME
      else if (case stop of Some r \<Rightarrow> sp_cancelled r | None \<Rightarrow> False) then CancelledOutcome True
      else case protocol of
        Some p \<Rightarrow> (case psr_failure p of
            Some f \<Rightarrow> ProtocolFailedOutcome (pf_code f) (pf_detail f) (int (length (psr_outputs p)))
          | None \<Rightarrow> exit_outcome returncode)
      | None \<Rightarrow> exit_outcome returncode)"

definition deadline_ns :: "ExecutionJob \<Rightarrow> int \<Rightarrow> int option" where
  "deadline_ns job started_ns = map_option (\<lambda>wall_time_ns. started_ns + wall_time_ns) (duration_limit (wall_time (job_budgets job)))"

definition fails_on_overflow :: "ExecutionJob \<Rightarrow> bool" where
  "fails_on_overflow job =
     (case payload_output (job_budgets job) of
        Finite b \<Rightarrow> overflow_policy b = OutputOverflowPolicy.FAIL
      | UnbudgetedLimit \<Rightarrow> False)"

section \<open>What the drain keeps\<close>

fun bytes_until_end :: "read_obs list \<Rightarrow> bytes" where
  "bytes_until_end [] = []"
| "bytes_until_end (r # rs) = (case read_available r of None \<Rightarrow> [] | Some chunk \<Rightarrow> chunk @ bytes_until_end rs)"

fun reads_of :: "stream_name \<Rightarrow> pump_key list \<Rightarrow> read_obs list" where
  "reads_of name [] = []"
| "reads_of name (StreamReady n r # ks) = (if n = name then r # reads_of name ks else reads_of name ks)"
| "reads_of name (_ # ks) = reads_of name ks"

fun protocol_reads :: "pump_key list \<Rightarrow> read_obs list" where
  "protocol_reads [] = []"
| "protocol_reads (ProtocolReady r _ # ks) = r # protocol_reads ks"
| "protocol_reads (_ # ks) = protocol_reads ks"

text \<open>A forwarding write that takes the whole chunk.\<close>

fun forwards_whole :: "pump_key \<Rightarrow> bool" where
  "forwards_whole (ProtocolReady r (Wrote n)) = (case read_available r of None \<Rightarrow> True | Some chunk \<Rightarrow> length chunk \<le> n)"
| "forwards_whole (ProtocolReady r _) = (read_available r = None)"
| "forwards_whole _ = True"

fun retention_of :: "stream_name \<Rightarrow> OutputPump \<Rightarrow> StreamRetention" where
  "retention_of Stdout p = pr_stdout (dr_retention (pm_state p))"
| "retention_of Stderr p = pr_stderr (dr_retention (pm_state p))"

fun stream_budget :: "stream_name \<Rightarrow> OutputBudget \<Rightarrow> StreamRetentionBudget option" where
  "stream_budget Stdout (Finite b) = Some (rb_stdout (retention b))"
| "stream_budget Stderr (Finite b) = Some (rb_stderr (retention b))"
| "stream_budget _ UnbudgetedLimit = None"

definition still_to_come :: "OutputPump \<Rightarrow> stream_name \<Rightarrow> pump_key list \<Rightarrow> bytes" where
  "still_to_come p name ks = (if name \<in> set (pm_streams p) then bytes_until_end (reads_of name ks) else [])"

definition still_to_forward :: "OutputPump \<Rightarrow> pump_key list \<Rightarrow> bytes" where
  "still_to_forward p ks = (if pm_protocol_live p then bytes_until_end (protocol_reads ks) else [])"

lemma pump_offer_retention:
  "retention_of name (p\<lparr>pm_state := pump_offer n chunk (pm_state p)\<rparr>) =
     (if n = name then offer (retention_of name p) chunk else retention_of name p)"
  by (cases n; cases name) (simp_all add: pump_offer_def Let_def)

lemma pump_step_keeps:
  assumes "holds b bs (retention_of name p)" and "\<And>r. b = Some r \<Longrightarrow> StreamRetentionBudget_ok r"
  shows "\<exists>bs'. holds b bs' (retention_of name (pump_key_step k p)) \<and>
    bs' @ still_to_come (pump_key_step k p) name ks = bs @ still_to_come p name (k # ks)"
proof (cases k)
  case ReleaseReady
  then show ?thesis using assms by (auto simp: still_to_come_def)
next
  case (ProtocolReady r wr)
  then show ?thesis using assms by (cases name) (auto simp: still_to_come_def split: option.splits)
next
  case (StreamReady n r)
  show ?thesis
  proof (cases "n \<in> set (pm_streams p)")
    case False
    then show ?thesis using assms StreamReady by (auto simp: still_to_come_def)
  next
    case True
    show ?thesis
    proof (cases "read_available r")
      case None
      then show ?thesis using assms StreamReady True by (cases name) (auto simp: still_to_come_def)
    next
      case (Some chunk)
      have "holds b (bs @ chunk) (offer (retention_of name p) chunk)" using holds_offer [OF assms] by blast
      then show ?thesis using assms StreamReady True Some
        by (cases "n = name") (auto simp: still_to_come_def pump_offer_retention)
    qed
  qed
qed

lemma pump_step_forwards:
  assumes "forwards_whole k" and "pm_forwards p"
  shows "pm_forwarded (pump_key_step k p) @ still_to_forward (pump_key_step k p) ks =
      pm_forwarded p @ still_to_forward p (k # ks) \<and> pm_forwards (pump_key_step k p)"
proof (cases k)
  case (ProtocolReady r wr)
  then show ?thesis using assms by (cases wr) (auto simp: still_to_forward_def split: option.splits)
qed (use assms in \<open>auto simp: still_to_forward_def split: option.splits\<close>)

text \<open>The overflow event is set exactly when the retention has overflowed.\<close>

lemma overflowed_offer: "overflowed r \<Longrightarrow> overflowed (offer_to r e)"
proof -
  have produced: "sr_produced_bytes (offer s c) \<ge> sr_produced_bytes s" for s c
    by (auto simp: offer_def Let_def split: option.splits)
  assume "overflowed r"
  then show ?thesis
    using produced [of "pr_stdout r" "snd e"] produced [of "pr_stderr r" "snd e"]
    by (cases "(r, e)" rule: offer_to.cases) (auto simp: overflowed_def pr_produced_bytes_def split: option.splits)
qed

lemma pump_step_overflow:
  "dr_overflow (pm_state p) \<longleftrightarrow> overflowed (dr_retention (pm_state p)) \<Longrightarrow>
     dr_overflow (pm_state (pump_key_step k p)) \<longleftrightarrow> overflowed (dr_retention (pm_state (pump_key_step k p)))"
  using overflowed_offer by (cases k) (auto simp: pump_offer_def Let_def split: option.splits)

lemma pump_keys_keep:
  assumes "pump_keys ks p = (False, p')" and "\<And>r. b = Some r \<Longrightarrow> StreamRetentionBudget_ok r"
    and "holds b bs (retention_of name p)"
  shows "\<exists>bs'. holds b bs' (retention_of name p') \<and>
    bs' @ still_to_come p' name rest = bs @ still_to_come p name (ks @ rest)"
  using assms(1,3)
proof (induction ks arbitrary: p bs)
  case (Cons k ks)
  from pump_step_keeps [OF Cons.prems(2) assms(2), of k "ks @ rest"] obtain bs1 where
    "holds b bs1 (retention_of name (pump_key_step k p))"
    "bs1 @ still_to_come (pump_key_step k p) name (ks @ rest) = bs @ still_to_come p name (k # ks @ rest)" by blast
  moreover have "pump_keys ks (pump_key_step k p) = (False, p')" using Cons.prems(1) by (simp split: if_splits)
  ultimately show ?case using Cons.IH [of "pump_key_step k p" bs1] by simp
qed auto

lemma pump_keys_forward:
  assumes "pump_keys ks p = (False, p')" and "\<forall>k\<in>set ks. forwards_whole k" and "pm_forwards p"
  shows "pm_forwarded p' @ still_to_forward p' rest = pm_forwarded p @ still_to_forward p (ks @ rest) \<and> pm_forwards p'"
  using assms
proof (induction ks arbitrary: p)
  case (Cons k ks)
  then show ?case using pump_step_forwards [of k p "ks @ rest"] by (simp split: if_splits)
qed simp

lemma pump_keys_overflow:
  "pump_keys ks p = (q, p') \<Longrightarrow> dr_overflow (pm_state p) \<longleftrightarrow> overflowed (dr_retention (pm_state p)) \<Longrightarrow>
     dr_overflow (pm_state p') \<longleftrightarrow> overflowed (dr_retention (pm_state p'))"
proof (induction ks arbitrary: p)
  case (Cons k ks)
  then show ?case using pump_step_overflow [OF Cons.prems(2), of k] by (auto split: if_splits)
qed simp

lemma pump_keys_limit:
  "pump_keys ks p = (q, p') \<Longrightarrow> pr_max_total_bytes (dr_retention (pm_state p')) = pr_max_total_bytes (dr_retention (pm_state p))"
proof (induction ks arbitrary: p)
  case (Cons k ks)
  have "pr_max_total_bytes (offer_to r e) = pr_max_total_bytes r" for r e
    by (cases "(r, e)" rule: offer_to.cases) simp_all
  then have "pr_max_total_bytes (dr_retention (pm_state (pump_key_step k p))) = pr_max_total_bytes (dr_retention (pm_state p))"
    by (cases k) (auto simp: pump_offer_def Let_def split: option.splits)
  then show ?case using Cons by (auto split: if_splits)
qed simp

lemma pump_keys_released: "pump_keys ks p = (True, p') \<Longrightarrow> ReleaseReady \<in> set ks"
  by (induction ks arbitrary: p) (auto split: if_splits)

lemma pump_ends:
  assumes "pump selects p = Done p'" and "ReleaseReady \<notin> \<Union> (set ` set selects)"
    and "\<And>r. b = Some r \<Longrightarrow> StreamRetentionBudget_ok r" and "holds b bs (retention_of name p)"
  shows "holds b (bs @ still_to_come p name (concat selects)) (retention_of name p')"
  using assms(1,2,4)
proof (induction selects arbitrary: p bs)
  case Nil
  then show ?case by (simp add: pump.simps [of "[]"] pump_live_def still_to_come_def split: if_splits)
next
  case (Cons ks selects)
  show ?case
  proof (cases "pump_live p")
    case False
    then show ?thesis using Cons.prems by (simp add: pump.simps [of "ks # selects"] pump_live_def still_to_come_def)
  next
    case True
    obtain q p1 where k: "pump_keys ks p = (q, p1)" by (cases "pump_keys ks p")
    have q: "\<not> q" using pump_keys_released [of ks p p1] k Cons.prems(2) by (cases q) auto
    then obtain bs1 where bs1: "holds b bs1 (retention_of name p1)"
      "bs1 @ still_to_come p1 name (concat selects) = bs @ still_to_come p name (ks @ concat selects)"
      using pump_keys_keep [of ks p p1 b bs name "concat selects"] k assms(3) Cons.prems(3) by auto
    have "pump selects p1 = Done p'" using Cons.prems(1) k q True by (simp add: pump.simps [of "ks # selects"])
    from Cons.IH [OF this _ bs1(1)] Cons.prems(2) bs1(2) show ?thesis by simp
  qed
qed

lemma pump_ends_forward:
  assumes "pump selects p = Done p'" and "ReleaseReady \<notin> \<Union> (set ` set selects)"
    and "\<forall>k\<in>\<Union> (set ` set selects). forwards_whole k" and "pm_forwards p"
  shows "pm_forwarded p' = pm_forwarded p @ still_to_forward p (concat selects)"
  using assms
proof (induction selects arbitrary: p)
  case Nil
  then show ?case by (simp add: pump.simps [of "[]"] pump_live_def still_to_forward_def split: if_splits)
next
  case (Cons ks selects)
  show ?case
  proof (cases "pump_live p")
    case False
    then show ?thesis using Cons.prems by (simp add: pump.simps [of "ks # selects"] pump_live_def still_to_forward_def)
  next
    case True
    obtain q p1 where k: "pump_keys ks p = (q, p1)" by (cases "pump_keys ks p")
    have q: "\<not> q" using pump_keys_released [of ks p p1] k Cons.prems(2) by (cases q) auto
    have "pump selects p1 = Done p'" using Cons.prems(1) k q True by (simp add: pump.simps [of "ks # selects"])
    with Cons.IH [OF this] Cons.prems(2-4) pump_keys_forward [of ks p p1 "concat selects"] k q show ?thesis by auto
  qed
qed

lemma pump_ends_overflow:
  assumes "pump selects p = Done p'" and "dr_overflow (pm_state p) \<longleftrightarrow> overflowed (dr_retention (pm_state p))"
  shows "(dr_overflow (pm_state p') \<longleftrightarrow> overflowed (dr_retention (pm_state p'))) \<and>
    pr_max_total_bytes (dr_retention (pm_state p')) = pr_max_total_bytes (dr_retention (pm_state p))"
  using assms
proof (induction selects arbitrary: p)
  case Nil
  then show ?case by (simp add: pump.simps [of "[]"] split: if_splits)
next
  case (Cons ks selects)
  show ?case
  proof (cases "pump_live p")
    case False
    then show ?thesis using Cons.prems by (simp add: pump.simps [of "ks # selects"])
  next
    case True
    obtain q p1 where k: "pump_keys ks p = (q, p1)" by (cases "pump_keys ks p")
    then show ?thesis
      using Cons pump_keys_overflow [OF k] pump_keys_limit [OF k] True
      by (cases q) (auto simp: pump.simps [of "ks # selects"])
  qed
qed

definition fresh_pump :: "OutputBudget \<Rightarrow> bool \<Rightarrow> OutputPump" where
  "fresh_pump budget protocol =
     \<lparr>pm_state = \<lparr>dr_retention = PayloadRetention_for_budget budget, dr_overflow = False, dr_protocol_result = None\<rparr>,
      pm_streams = [Stdout, Stderr], pm_protocol_live = protocol, pm_forwards = protocol, pm_forwarded = []\<rparr>"

text \<open>
  When the drain ends with all its streams, what it has kept is what the child wrote. However the
  reads fall, the retained outputs are the two streams' bytes up to their ends under the budget, the
  overflow event is set exactly when the budget is exceeded, and the protocol bytes are forwarded
  unchanged and in order.
\<close>

lemma drain_keeps_what_was_written:
  assumes "pump selects (fresh_pump budget protocol) = Done p" and "ReleaseReady \<notin> \<Union> (set ` set selects)"
    and "\<forall>k\<in>\<Union> (set ` set selects). forwards_whole k"
    and "case budget of Finite b \<Rightarrow> FiniteOutput_ok b | UnbudgetedLimit \<Rightarrow> True"
    and "out = bytes_until_end (reads_of Stdout (concat selects))" and "err = bytes_until_end (reads_of Stderr (concat selects))"
  shows "payload_snapshot (dr_retention (pm_state p)) =
      Inr \<lparr>po_stdout = retained (stream_budget Stdout budget) out, po_stderr = retained (stream_budget Stderr budget) err\<rparr> \<and>
    (dr_overflow (pm_state p) \<longleftrightarrow> overflowed (dr_retention (pm_state p))) \<and>
    (overflowed (dr_retention (pm_state p)) \<longleftrightarrow>
      (case budget of Finite b \<Rightarrow> int (length out) + int (length err) > fo_max_bytes b | UnbudgetedLimit \<Rightarrow> False)) \<and>
    (protocol \<longrightarrow> pm_forwarded p = bytes_until_end (protocol_reads (concat selects)))"
proof -
  let ?p = "fresh_pump budget protocol"
  have ok: "StreamRetentionBudget_ok r" if "stream_budget name budget = Some r" for name r
    using assms(4) that by (cases "(name, budget)" rule: stream_budget.cases) (auto simp: FiniteOutput_ok_def)
  have "holds (stream_budget name budget) [] (retention_of name ?p)" for name
    using holds_fresh by (cases budget; cases name) (simp_all add: fresh_pump_def)
  note start = this
  have held: "holds (stream_budget name budget) (bytes_until_end (reads_of name (concat selects))) (retention_of name p)" for name
    using pump_ends [OF assms(1,2) _ start [of name]] ok [of name]
    by (cases name) (simp_all add: still_to_come_def fresh_pump_def)
  have outs: "holds (stream_budget Stdout budget) (bytes_until_end (reads_of Stdout (concat selects))) (pr_stdout (dr_retention (pm_state p)))"
    "holds (stream_budget Stderr budget) (bytes_until_end (reads_of Stderr (concat selects))) (pr_stderr (dr_retention (pm_state p)))"
    using held [of Stdout] held [of Stderr] by simp_all
  have snapshot: "payload_snapshot (dr_retention (pm_state p)) =
      Inr \<lparr>po_stdout = retained (stream_budget Stdout budget) out, po_stderr = retained (stream_budget Stderr budget) err\<rparr>"
    using holds_snapshot [OF outs(1)] holds_snapshot [OF outs(2)] assms(5,6) by (simp add: payload_snapshot_def)
  have produced: "pr_produced_bytes (dr_retention (pm_state p)) = int (length out) + int (length err)"
    using outs assms(5,6)
    by (cases "stream_budget Stdout budget"; cases "stream_budget Stderr budget") (simp_all add: pr_produced_bytes_def holds_def Let_def)
  have limits: "(dr_overflow (pm_state p) \<longleftrightarrow> overflowed (dr_retention (pm_state p))) \<and>
    pr_max_total_bytes (dr_retention (pm_state p)) = pr_max_total_bytes (PayloadRetention_for_budget budget)"
  proof -
    have "\<not> overflowed (PayloadRetention_for_budget budget)"
      using assms(4) by (cases budget) (auto simp: overflowed_def pr_produced_bytes_def stream_retention_def FiniteOutput_ok_def)
    then show ?thesis using pump_ends_overflow [OF assms(1)] by (simp add: fresh_pump_def)
  qed
  have "overflowed (dr_retention (pm_state p)) \<longleftrightarrow>
      (case budget of Finite b \<Rightarrow> int (length out) + int (length err) > fo_max_bytes b | UnbudgetedLimit \<Rightarrow> False)"
    using limits produced by (cases budget) (simp_all add: overflowed_def)
  moreover have "protocol \<longrightarrow> pm_forwarded p = bytes_until_end (protocol_reads (concat selects))"
    using pump_ends_forward [OF assms(1-3)] by (simp add: fresh_pump_def still_to_forward_def)
  ultimately show ?thesis using snapshot limits by blast
qed

end
