(* ===== verification/Store.thy ===== *)
theory Store
  imports Records Effects
begin

text \<open>
  The run store of \<^verbatim>\<open>recording/store.py\<close>. \<^verbatim>\<open>dr_store\<close> and the pydantic record adapter are the
  parameter \<open>services\<close>, functions on the content of one record directory; the file system around
  them is a map from record ids to directories together with the faults the operating system will
  answer the coming calls with, one entry per call and none once the list is used up.
\<close>

section \<open>Exceptions\<close>

datatype store_exn_kind =
    DirectoryError | AllocationError | SidecarError | ByteLimitError | SerializationFailure | ValueFailure
  | FileExistsFailure | OsFailure | LoadFailure | OtherFailure

text \<open>An exception: its class, the errno it carries, its text and the cause it was raised from.\<close>

datatype store_exn = StoreExn (sx_kind: store_exn_kind) (sx_class: string) (sx_errno: "int option")
  (sx_text: string) (sx_cause: "store_exn option")

text \<open>\<^verbatim>\<open>DocumentDirectoryError\<close> and its subclasses.\<close>

definition is_directory_error :: "store_exn \<Rightarrow> bool" where
  "is_directory_error e = (sx_kind e \<in> {DirectoryError, AllocationError, SidecarError})"

definition is_load_error :: "store_exn \<Rightarrow> bool" where
  "is_load_error e = (sx_kind e = LoadFailure)"

definition load_error :: "string \<Rightarrow> store_exn option \<Rightarrow> store_exn" where
  "load_error m cause = StoreExn LoadFailure ''RecordLoadError'' None m cause"

primrec cause_chain :: "store_exn \<Rightarrow> store_exn list" where
  "cause_chain (StoreExn k c e m cause) =
     StoreExn k c e m cause # (case map_option cause_chain cause of None \<Rightarrow> [] | Some es \<Rightarrow> es)"

definition explicit_cause_chain_errno :: "store_exn \<Rightarrow> int option" where
  "explicit_cause_chain_errno e =
     (case filter (\<lambda>c. sx_errno c \<noteq> None) (cause_chain e) of [] \<Rightarrow> None | c # _ \<Rightarrow> sx_errno c)"

definition recording_failure :: "string \<Rightarrow> store_exn \<Rightarrow> RecordingFailure" where
  "recording_failure operation e =
     \<lparr>rf_operation = operation, rf_errno = explicit_cause_chain_errno e, rf_detail = Some (sx_class e),
      rf_failure_code = None\<rparr>"

definition manifest_read_message :: "store_exn \<Rightarrow> string \<Rightarrow> string" where
  "manifest_read_message e record_dir =
     (case filter (\<lambda>c. sx_kind c \<in> {ByteLimitError, SerializationFailure, ValueFailure}) (cause_chain e) of
        [] \<Rightarrow> ''could not read the run record at '' @ record_dir
      | c # _ \<Rightarrow>
          if sx_kind c = ByteLimitError
          then ''run record manifest at '' @ record_dir @ '' exceeds '' @ int_str (256 * 1024 * 1024) @ '' bytes''
          else ''run record at '' @ record_dir @ '' is not canonical JSON bytes'')"

datatype RegularChildFailureReason = MISSING | NOT_REGULAR | BOUNDS_EXCEEDED | UNSUPPORTED_PLATFORM | MISMATCH

fun regular_child_load_error_message :: "string \<Rightarrow> string \<Rightarrow> RegularChildFailureReason \<Rightarrow> string" where
  "regular_child_load_error_message label record_dir MISSING = label @ '' at '' @ record_dir @ '' is missing''"
| "regular_child_load_error_message label record_dir NOT_REGULAR =
     label @ '' at '' @ record_dir @ '' is not a regular file''"
| "regular_child_load_error_message label record_dir BOUNDS_EXCEEDED =
     label @ '' at '' @ record_dir @ '' exceeds read bounds''"
| "regular_child_load_error_message label record_dir UNSUPPORTED_PLATFORM =
     label @ '' at '' @ record_dir @ '' cannot be verified on this platform''"
| "regular_child_load_error_message label record_dir MISMATCH =
     label @ '' at '' @ record_dir @ '' does not match its record''"

section \<open>The services and the file system\<close>

record SidecarSummary =
  ss_head_length :: int
  ss_tail_length :: int
  ss_sidecar_hash :: string

datatype sidecar_fault = Unverified RegularChildFailureReason store_exn | Unchecked store_exn

record 'd services =
  sv_empty :: 'd
  sv_read_manifest :: "'d \<Rightarrow> (store_exn, json) result"
  sv_publish :: "json \<Rightarrow> 'd \<Rightarrow> store_exn option \<times> 'd"
  sv_write_sidecar :: "string \<Rightarrow> bytes \<Rightarrow> bytes \<Rightarrow> 'd \<Rightarrow> (store_exn, SidecarSummary) result \<times> 'd"
  sv_verify_sidecar :: "string \<Rightarrow> string \<Rightarrow> int \<Rightarrow> int \<Rightarrow> 'd \<Rightarrow> sidecar_fault option"
  sv_read_child :: "string \<Rightarrow> int \<Rightarrow> int \<Rightarrow> string \<Rightarrow> 'd \<Rightarrow>
    (RegularChildFailureReason \<times> store_exn, bytes) result"
  sv_dump :: "RunRecord \<Rightarrow> json"
  sv_validate :: "json \<Rightarrow> RunRecord option"
  sv_instance :: "RunRecord \<Rightarrow> bool"
  sv_text_repr :: "string \<Rightarrow> string"

datatype 'd node = Directory 'd | NotADirectory

record 'd run_root =
  rt_entries :: "uuid \<Rightarrow> 'd node option"
  rt_faults :: "store_exn option list"

text \<open>One call of the operating system: the fault it meets, if any.\<close>

definition io :: "('d run_root, store_exn, unit) op" where
  "io s = (case rt_faults s of
     [] \<Rightarrow> (Inr (), s)
   | None # fs \<Rightarrow> (Inr (), s\<lparr>rt_faults := fs\<rparr>)
   | Some e # fs \<Rightarrow> (Inl e, s\<lparr>rt_faults := fs\<rparr>))"

definition os_error :: "string \<Rightarrow> int \<Rightarrow> store_exn" where
  "os_error m e = StoreExn OsFailure ''OSError'' (Some e) m None"

definition with_directory :: "uuid \<Rightarrow> ('d \<Rightarrow> (store_exn, 'a) result \<times> 'd) \<Rightarrow> ('d run_root, store_exn, 'a) op" where
  "with_directory i f s =
     (case rt_entries s i of
        Some (Directory d) \<Rightarrow> (case f d of (r, d') \<Rightarrow> (r, s\<lparr>rt_entries := (rt_entries s)(i \<mapsto> Directory d')\<rparr>))
      | _ \<Rightarrow> (Inl (StoreExn DirectoryError ''DocumentDirectoryError'' None ''no such directory''
                 (Some (os_error ''no such directory'' 2))), s))"

definition mkdir :: "'d services \<Rightarrow> uuid \<Rightarrow> ('d run_root, store_exn, unit) op" where
  "mkdir sv i = bind_op io (\<lambda>_ s.
     case rt_entries s i of
       None \<Rightarrow> (Inr (), s\<lparr>rt_entries := (rt_entries s)(i \<mapsto> Directory (sv_empty sv))\<rparr>)
     | Some _ \<Rightarrow> (Inl (StoreExn FileExistsFailure ''FileExistsError'' (Some 17) ''file exists'' None), s))"

definition rmtree :: "uuid \<Rightarrow> ('d run_root, store_exn, unit) op" where
  "rmtree i = bind_op io (\<lambda>_ s.
     case rt_entries s i of
       Some (Directory _) \<Rightarrow> (Inr (), s\<lparr>rt_entries := (rt_entries s)(i := None)\<rparr>)
     | _ \<Rightarrow> (Inl (os_error ''not a directory'' 20), s))"

definition read_manifest :: "'d services \<Rightarrow> uuid \<Rightarrow> ('d run_root, store_exn, json) op" where
  "read_manifest sv i = bind_op io (\<lambda>_. with_directory i (\<lambda>d. (sv_read_manifest sv d, d)))"

definition publish :: "'d services \<Rightarrow> uuid \<Rightarrow> RunRecord \<Rightarrow> ('d run_root, store_exn, unit) op" where
  "publish sv i record = bind_op io (\<lambda>_. with_directory i (\<lambda>d.
     case sv_publish sv (sv_dump sv record) d of
       (None, d') \<Rightarrow> (Inr (), d')
     | (Some e, d') \<Rightarrow> (Inl e, d')))"

definition write_sidecar ::
  "'d services \<Rightarrow> uuid \<Rightarrow> string \<Rightarrow> RetainedPayloadStream \<Rightarrow> ('d run_root, store_exn, SidecarSummary) op" where
  "write_sidecar sv i name stream =
     bind_op io (\<lambda>_. with_directory i (sv_write_sidecar sv name (rp_head stream) (rp_tail stream)))"

section \<open>Reading records\<close>

definition header_schema_version :: "json \<Rightarrow> int option" where
  "header_schema_version manifest =
     (case obj_get manifest ''header'' of
        Some header \<Rightarrow> (case obj_get header ''schema_version'' of Some (JInt v) \<Rightarrow> Some v | _ \<Rightarrow> None)
      | None \<Rightarrow> None)"

definition CURRENT_RUN_RECORD_SCHEMA_VERSION :: int where
  "CURRENT_RUN_RECORD_SCHEMA_VERSION = 2"

definition record_dir :: "uuid \<Rightarrow> string" where
  "record_dir i = ''run-'' @ uuid_str i"

definition validated :: "'d services \<Rightarrow> uuid \<Rightarrow> json \<Rightarrow> (store_exn, RunRecord) result" where
  "validated sv i manifest =
     (case sv_validate sv manifest of
        Some r \<Rightarrow> Inr r
      | None \<Rightarrow> Inl (load_error (''run record at '' @ record_dir i @ '' is not a valid lifecycle record'') None))"

definition parse_record :: "'d services \<Rightarrow> uuid \<Rightarrow> json \<Rightarrow> (store_exn, RunRecord) result" where
  "parse_record sv i manifest =
     (case header_schema_version manifest of
        Some v \<Rightarrow> bind_result (ensure (v = CURRENT_RUN_RECORD_SCHEMA_VERSION)
          (load_error (''unsupported run record schema_version '' @ int_str v) None)) (\<lambda>_. validated sv i manifest)
      | None \<Rightarrow> validated sv i manifest)"

definition load_record :: "'d services \<Rightarrow> uuid \<Rightarrow> ('d run_root, store_exn, RunRecord) op" where
  "load_record sv i =
     bind_op
       (catch_op (read_manifest sv i) (\<lambda>e.
          raise_op (if is_directory_error e
            then load_error (manifest_read_message e (record_dir i)) (Some e) else e)))
       (\<lambda>manifest. lift_op (parse_record sv i manifest))"

definition unsupported_lifecycle_schema_version :: "'d services \<Rightarrow> uuid \<Rightarrow> ('d run_root, store_exn, int option) op" where
  "unsupported_lifecycle_schema_version sv i =
     catch_op
       (bind_op (read_manifest sv i) (\<lambda>manifest.
          return_op (case header_schema_version manifest of
            None \<Rightarrow> None
          | Some v \<Rightarrow> if v = CURRENT_RUN_RECORD_SCHEMA_VERSION then None else Some v)))
       (\<lambda>e. if is_directory_error e then return_op None else raise_op e)"

definition reclaim_unprepared_allocation :: "'d services \<Rightarrow> uuid \<Rightarrow> ('d run_root, store_exn, unit) op" where
  "reclaim_unprepared_allocation sv i =
     catch_op (bind_op (load_record sv i) (\<lambda>_. return_op ()))
       (\<lambda>e. if \<not> is_load_error e then raise_op e
         else bind_op (unsupported_lifecycle_schema_version sv i) (\<lambda>v.
           case v of Some _ \<Rightarrow> return_op () | None \<Rightarrow> rmtree i))"

definition is_os_error :: "store_exn \<Rightarrow> bool" where
  "is_os_error e = (sx_kind e \<in> {FileExistsFailure, OsFailure})"

definition allocation_error :: "uuid \<Rightarrow> store_exn \<Rightarrow> store_exn" where
  "allocation_error i e =
     StoreExn AllocationError ''AllocationError'' None (''could not allocate run record '' @ uuid_str i) (Some e)"

definition allocate :: "'d services \<Rightarrow> uuid \<Rightarrow> ('d run_root, store_exn, unit) op" where
  "allocate sv i =
     catch_op (mkdir sv i)
       (\<lambda>e. if sx_kind e = FileExistsFailure
         then bind_op (reclaim_unprepared_allocation sv i) (\<lambda>_.
           catch_op (mkdir sv i) (\<lambda>e. raise_op (if is_os_error e then allocation_error i e else e)))
         else raise_op (if is_os_error e then allocation_error i e else e))"

definition resolve :: "'d services \<Rightarrow> RunRecordReference \<Rightarrow> ('d run_root, store_exn, uuid) op" where
  "resolve sv reference =
     (let could_not = (\<lambda>cause. load_error (''could not resolve run record '' @ uuid_str (ref_record_id reference)) cause)
      in if ref_backend reference \<noteq> ''directory''
         then raise_op (load_error (''unsupported run record backend '' @ sv_text_repr sv (ref_backend reference)) None)
         else bind_op
           (catch_op io (\<lambda>e. raise_op (if is_os_error e then could_not (Some e) else e)))
           (\<lambda>_ s. case rt_entries s (ref_record_id reference) of
              None \<Rightarrow> (Inl (could_not (Some (os_error ''no such file'' 2))), s)
            | Some NotADirectory \<Rightarrow> (Inl (could_not None), s)
            | Some (Directory _) \<Rightarrow> (Inr (ref_record_id reference), s)))"

section \<open>The life cycle\<close>

datatype FinalizableRun =
    PreparedRun (fr_execution_id: ExecutionId) (fr_reference: RunRecordReference)
      (fr_header: RunRecordHeader) (fr_declaration: RunDeclaration)
  | RunningRun (fr_execution_id: ExecutionId) (fr_reference: RunRecordReference)
      (fr_header: RunRecordHeader) (fr_declaration: RunDeclaration)

fun handle_durable_state :: "FinalizableRun \<Rightarrow> RecordState" where
  "handle_durable_state (PreparedRun _ _ _ _) = RecordState.PREPARED"
| "handle_durable_state (RunningRun _ _ _ _) = RecordState.RUNNING"

text \<open>How a store operation raises: the classified failure with its cause, or the exception itself.\<close>

datatype store_failure = Classified string ExecutorFailureCode store_exn | Unclassified store_exn

definition executor_failure :: "string \<Rightarrow> ('s, store_exn, 'a) op \<Rightarrow> ('s, store_failure, 'a) op" where
  "executor_failure operation m =
     catch_op m (\<lambda>e. raise_op
       (if is_directory_error e \<or> is_load_error e
        then Classified (''could not '' @ operation) ExecutorFailureCode.RECORDING_OPERATION_FAILED e
        else Unclassified e))"

definition prepare ::
  "(uuid \<Rightarrow> bytes \<Rightarrow> uuid) \<Rightarrow> 'd services \<Rightarrow> RunRecordHeader \<Rightarrow> RunDeclaration \<Rightarrow>
     ('d run_root, store_failure, FinalizableRun) op" where
  "prepare uuid5 sv header declaration =
     (let execution_id = dec_execution_id declaration;
          reference = record_reference_for_job uuid5 (eid_job_id execution_id);
          i = ref_record_id reference
      in bind_op
           (executor_failure ''prepare the run record''
             (bind_op (allocate sv i) (\<lambda>_.
                catch_op (publish sv i (PreparedRecord header declaration))
                  (\<lambda>e. if is_directory_error e
                    then bind_op (reclaim_unprepared_allocation sv i) (\<lambda>_. raise_op e)
                    else raise_op e))))
           (\<lambda>_. return_op (PreparedRun execution_id reference header declaration)))"

definition STDOUT_SIDECAR_NAME :: string where "STDOUT_SIDECAR_NAME = ''stdout.bin''"
definition STDERR_SIDECAR_NAME :: string where "STDERR_SIDECAR_NAME = ''stderr.bin''"

definition retained_stream_record ::
  "RetainedPayloadStream \<Rightarrow> SidecarSummary \<Rightarrow> (py_exn, RetainedPayloadStreamRecord) result" where
  "retained_stream_record stream summary =
     RetainedPayloadStreamRecord_new
       \<lparr>rr_head_bytes = ss_head_length summary, rr_tail_bytes = ss_tail_length summary,
        rr_produced_bytes = rp_produced_bytes stream, rr_dropped_bytes = rp_dropped_bytes stream\<rparr>"

definition execution_result_record ::
  "ExecutionResult \<Rightarrow> SidecarSummary \<Rightarrow> SidecarSummary \<Rightarrow> (py_exn, ExecutionResultRecord) result" where
  "execution_result_record r stdout_summary stderr_summary =
     bind_result (retained_stream_record (po_stdout (res_payload_outputs r)) stdout_summary) (\<lambda>out.
     bind_result (retained_stream_record (po_stderr (res_payload_outputs r)) stderr_summary) (\<lambda>err.
       ExecutionResultRecord_new
         \<lparr>rec_execution_id = res_execution_id r, rec_outcome = res_outcome r,
          rec_attribution = res_attribution r, rec_protocol_outputs = res_protocol_outputs r,
          rec_payload_outputs = \<lparr>por_stdout = out, por_stderr = err\<rparr>,
          rec_measurements = res_measurements r\<rparr>))"

definition artifact_record :: "string \<Rightarrow> SidecarSummary \<Rightarrow> OutputArtifactRecord" where
  "artifact_record name summary =
     \<lparr>oa_relative_path = PurePosixPath name, oa_size_bytes = ss_head_length summary + ss_tail_length summary,
      oa_sha256 = ss_sidecar_hash summary\<rparr>"

definition finalized_record ::
  "RunRecord \<Rightarrow> ExecutionResult \<Rightarrow> SidecarSummary \<Rightarrow> SidecarSummary \<Rightarrow> (py_exn, RunRecord) result" where
  "finalized_record record r stdout_summary stderr_summary =
     bind_result (execution_result_record r stdout_summary stderr_summary) (\<lambda>result_record.
       RunRecord_new (FinalizedRecord (run_header record) (run_declaration record) result_record
         \<lparr>oas_stdout = artifact_record STDOUT_SIDECAR_NAME stdout_summary,
          oas_stderr = artifact_record STDERR_SIDECAR_NAME stderr_summary\<rparr>))"

text \<open>
  Constructing a record model: its own validators and those of the fields' types, which
  \<open>sv_instance\<close> stands for.
\<close>

definition constructed :: "'d services \<Rightarrow> (py_exn, RunRecord) result \<Rightarrow> (py_exn, RunRecord) result" where
  "constructed sv x =
     bind_result x (\<lambda>record.
     bind_result (ensure (sv_instance sv record) (ValueError ''validation error'')) (\<lambda>_. Inr record))"

text \<open>A rejected model raises pydantic's \<^verbatim>\<open>ValidationError\<close>, a \<^verbatim>\<open>ValueError\<close>.\<close>

definition or_invalid :: "(py_exn, 'a) result \<Rightarrow> ('s, store_exn, 'a) op" where
  "or_invalid r =
     (case r of
        Inl _ \<Rightarrow> raise_op (StoreExn ValueFailure ''ValidationError'' None ''validation error'' None)
      | Inr x \<Rightarrow> return_op x)"

definition mark_running ::
  "'d services \<Rightarrow> FinalizableRun \<Rightarrow> ProcessRecord \<Rightarrow> ('d run_root, store_failure, FinalizableRun) op" where
  "mark_running sv prepared_run process =
     bind_op
       (executor_failure ''publish the running run record''
         (bind_op (resolve sv (fr_reference prepared_run)) (\<lambda>i.
          bind_op (or_invalid (constructed sv (RunRecord_new
            (RunningRecord (fr_header prepared_run) (fr_declaration prepared_run) process)))) (\<lambda>running.
            publish sv i running))))
       (\<lambda>_. return_op (RunningRun (fr_execution_id prepared_run) (fr_reference prepared_run)
          (fr_header prepared_run) (fr_declaration prepared_run)))"

definition publish_finalized ::
  "'d services \<Rightarrow> FinalizableRun \<Rightarrow> ExecutionResult \<Rightarrow> ('d run_root, store_exn, unit) op" where
  "publish_finalized sv run r =
     bind_op (resolve sv (fr_reference run)) (\<lambda>i.
     bind_op (load_record sv i) (\<lambda>record.
       if run_state record = RecordState.FINALIZED
       then raise_op (load_error (''run record '' @ uuid_str i @ '' is already finalized'') None)
       else
         bind_op (write_sidecar sv i STDOUT_SIDECAR_NAME (po_stdout (res_payload_outputs r))) (\<lambda>stdout_summary.
         bind_op (write_sidecar sv i STDERR_SIDECAR_NAME (po_stderr (res_payload_outputs r))) (\<lambda>stderr_summary.
         bind_op (or_invalid (constructed sv (finalized_record record r stdout_summary stderr_summary))) (\<lambda>finalized.
           publish sv i finalized)))))"

definition durable_state :: "'d services \<Rightarrow> FinalizableRun \<Rightarrow> ('d run_root, store_exn, RecordState) op" where
  "durable_state sv run =
     catch_op
       (bind_op (resolve sv (fr_reference run)) (\<lambda>i.
        bind_op (load_record sv i) (\<lambda>record. return_op (run_state record))))
       (\<lambda>e. if is_load_error e then return_op (handle_durable_state run) else raise_op e)"

definition finalize ::
  "'d services \<Rightarrow> FinalizableRun \<Rightarrow> ExecutionResult \<Rightarrow> ('d run_root, store_failure, RecordReceipt) op" where
  "finalize sv run r =
     catch_op
       (catch_op
         (bind_op (publish_finalized sv run r) (\<lambda>_.
            return_op (CompleteRecordReceipt (fr_execution_id run) (fr_reference run))))
         (\<lambda>e. if is_directory_error e \<or> is_load_error e
           then bind_op (durable_state sv run) (\<lambda>latest.
             return_op (DegradedRecordReceipt (fr_execution_id run) (fr_reference run) latest
               [recording_failure ''finalize'' e]))
           else raise_op e))
       (\<lambda>e. raise_op (Unclassified e))"

section \<open>Loading and artifacts\<close>

definition verify_sidecar ::
  "'d services \<Rightarrow> uuid \<Rightarrow> string \<times> OutputArtifactRecord \<times> RetainedPayloadStreamRecord \<Rightarrow>
     ('d run_root, store_exn, unit) op" where
  "verify_sidecar sv i = (\<lambda>(expected_name, artifact, stream).
     if oa_relative_path artifact \<noteq> PurePosixPath expected_name
     then raise_op (load_error (''run record at '' @ record_dir i @ '' names an unexpected '' @ expected_name @
       '' artifact path'') None)
     else bind_op
       (catch_op io (\<lambda>e. raise_op (if is_directory_error e
          then load_error (''could not verify sidecar '' @ as_posix (oa_relative_path artifact) @ '' at '' @ record_dir i) (Some e)
          else e)))
       (\<lambda>_. with_directory i (\<lambda>d.
          case sv_verify_sidecar sv expected_name (oa_sha256 artifact) (rr_head_bytes stream) (rr_tail_bytes stream) d of
            None \<Rightarrow> (Inr (), d)
          | Some (Unverified reason e) \<Rightarrow>
              (Inl (load_error (regular_child_load_error_message
                 (''sidecar '' @ as_posix (oa_relative_path artifact)) (record_dir i) reason) (Some e)), d)
          | Some (Unchecked e) \<Rightarrow>
              (Inl (load_error (''could not verify sidecar '' @ as_posix (oa_relative_path artifact) @ '' at '' @ record_dir i)
                 (Some e)), d))))"

definition verify_sidecars :: "'d services \<Rightarrow> uuid \<Rightarrow> RunRecord \<Rightarrow> ('d run_root, store_exn, unit) op" where
  "verify_sidecars sv i record =
     bind_op (verify_sidecar sv i (STDOUT_SIDECAR_NAME, oas_stdout (run_outputs record),
        por_stdout (rec_payload_outputs (run_result record)))) (\<lambda>_.
     verify_sidecar sv i (STDERR_SIDECAR_NAME, oas_stderr (run_outputs record),
        por_stderr (rec_payload_outputs (run_result record))))"

definition load :: "'d services \<Rightarrow> RunRecordReference \<Rightarrow> ('d run_root, store_exn, RunRecord) op" where
  "load sv reference =
     bind_op (resolve sv reference) (\<lambda>i.
     bind_op (load_record sv i) (\<lambda>record.
       if run_state record = RecordState.FINALIZED
       then bind_op (verify_sidecars sv i record) (\<lambda>_. return_op record)
       else return_op record))"

text \<open>A \<open>max_bytes\<close> that is no integer is out of the model's types.\<close>

definition read_artifact ::
  "'d services \<Rightarrow> RunRecordReference \<Rightarrow> OutputArtifactRecord \<Rightarrow> int \<Rightarrow> ('d run_root, store_exn, bytes) op" where
  "read_artifact sv reference artifact max_bytes =
     (if max_bytes < 0
      then raise_op (StoreExn ValueFailure ''ValueError'' None ''max_bytes must be non-negative'' None)
      else
        bind_op (resolve sv reference) (\<lambda>i.
        bind_op (load_record sv i) (\<lambda>record.
          if run_state record \<noteq> RecordState.FINALIZED
          then raise_op (load_error (''run record '' @ uuid_str i @ '' is not finalized'') None)
          else if artifact \<noteq> oas_stdout (run_outputs record) \<and> artifact \<noteq> oas_stderr (run_outputs record)
          then raise_op (load_error (''artifact is not owned by run record '' @ uuid_str i) None)
          else if oa_size_bytes artifact > max_bytes
          then raise_op (load_error (''artifact exceeds the '' @ int_str max_bytes @ ''-byte read limit'') None)
          else bind_op io (\<lambda>_. with_directory i (\<lambda>d.
            case sv_read_child sv (as_posix (oa_relative_path artifact)) max_bytes (oa_size_bytes artifact)
                   (oa_sha256 artifact) d of
              Inr bs \<Rightarrow> (Inr bs, d)
            | Inl (reason, e) \<Rightarrow>
                (Inl (load_error (regular_child_load_error_message
                   (''artifact '' @ sv_text_repr sv (as_posix (oa_relative_path artifact))) (record_dir i) reason) (Some e)), d))))))"

section \<open>What the store relies on\<close>

text \<open>
  The documented behaviour of \<^verbatim>\<open>dr_store\<close>: a fresh directory has no manifest, a published manifest
  is what is read, publication is atomic, writing a sidecar leaves the manifest alone, and a
  written sidecar verifies and reads back until it is written again.
\<close>

definition directory_laws :: "'d services \<Rightarrow> bool" where
  "directory_laws sv =
     ((\<exists>e. sv_read_manifest sv (sv_empty sv) = Inl e \<and> is_directory_error e) \<and>
      (\<forall>j d d'. sv_publish sv j d = (None, d') \<longrightarrow> sv_read_manifest sv d' = Inr j) \<and>
      (\<forall>j d e d'. sv_publish sv j d = (Some e, d') \<longrightarrow> sv_read_manifest sv d' = sv_read_manifest sv d) \<and>
      (\<forall>n h t d r d'. sv_write_sidecar sv n h t d = (r, d') \<longrightarrow> sv_read_manifest sv d' = sv_read_manifest sv d))"

text \<open>The content of sidecar \<open>n\<close> with its two lengths and digest is there: it verifies and reads back.\<close>

definition sidecar_holds :: "'d services \<Rightarrow> string \<Rightarrow> SidecarSummary \<Rightarrow> bytes \<Rightarrow> 'd \<Rightarrow> bool" where
  "sidecar_holds sv n summary content d =
     (sv_verify_sidecar sv n (ss_sidecar_hash summary) (ss_head_length summary) (ss_tail_length summary) d = None \<and>
      (\<forall>limit \<ge> int (length content).
         sv_read_child sv n limit (int (length content)) (ss_sidecar_hash summary) d = Inr content))"

definition sidecar_laws :: "'d services \<Rightarrow> bool" where
  "sidecar_laws sv =
     ((\<forall>n h t d summary d'. sv_write_sidecar sv n h t d = (Inr summary, d') \<longrightarrow>
         sidecar_holds sv n summary (h @ t) d' \<and> ss_head_length summary = int (length h) \<and>
         ss_tail_length summary = int (length t)) \<and>
      (\<forall>n n' h t d r d' summary content. sv_write_sidecar sv n' h t d = (r, d') \<longrightarrow> n \<noteq> n' \<longrightarrow>
         sidecar_holds sv n summary content d \<longrightarrow> sidecar_holds sv n summary content d') \<and>
      (\<forall>n j d summary content. sidecar_holds sv n summary content d \<longrightarrow>
         sidecar_holds sv n summary content (snd (sv_publish sv j d))))"

text \<open>The record adapter reads back what the dump of a record instance says.\<close>

definition record_codec :: "'d services \<Rightarrow> bool" where
  "record_codec sv = (\<forall>i r. sv_instance sv r \<longrightarrow> parse_record sv i (sv_dump sv r) = Inr r)"

definition record_in :: "'d services \<Rightarrow> uuid \<Rightarrow> 'd node option \<Rightarrow> RunRecord option" where
  "record_in sv i n =
     (case n of
        Some (Directory d) \<Rightarrow>
          (case sv_read_manifest sv d of
             Inr m \<Rightarrow> (case parse_record sv i m of Inr r \<Rightarrow> Some r | Inl _ \<Rightarrow> None)
           | Inl _ \<Rightarrow> None)
      | _ \<Rightarrow> None)"

text \<open>The durable record of an id, as a fault-free reader would see it.\<close>

definition record_at :: "'d services \<Rightarrow> 'd run_root \<Rightarrow> uuid \<Rightarrow> RunRecord option" where
  "record_at sv s i = record_in sv i (rt_entries s i)"

lemma load_error_simps [simp]: "is_load_error (load_error m c)" "\<not> is_directory_error (load_error m c)"
  "\<not> is_os_error (load_error m c)"
  by (simp_all add: is_load_error_def load_error_def is_directory_error_def is_os_error_def)

lemma io_quiet [simp]: "rt_faults s = [] \<Longrightarrow> io s = (Inr (), s)"
  by (simp add: io_def)

lemma io_entries: "io s = (r, t) \<Longrightarrow> rt_entries t = rt_entries s"
  by (auto simp: io_def split: list.splits option.splits)

lemma read_manifest_entries:
  "read_manifest sv i s = (r, t) \<Longrightarrow> rt_entries t = rt_entries s \<and>
    (\<forall>m. r = Inr m \<longrightarrow> (\<exists>d. rt_entries s i = Some (Directory d) \<and> sv_read_manifest sv d = Inr m))"
  by (auto simp: read_manifest_def bind_op_def with_directory_def fun_upd_idem
      split: prod.splits sum.splits option.splits node.splits dest: io_entries)

lemma load_record_reads:
  assumes "load_record sv i s = (r, t)"
  shows "rt_entries t = rt_entries s" and "r = Inr record \<Longrightarrow> record_at sv s i = Some record"
proof -
  obtain q u where m: "read_manifest sv i s = (q, u)" by (cases "read_manifest sv i s")
  note e = read_manifest_entries [OF m]
  show "rt_entries t = rt_entries s"
    using assms m e by (cases q) (auto simp: load_record_def bind_op_def catch_op_def)
  show "record_at sv s i = Some record" if "r = Inr record"
    using assms m e that
    by (cases q) (auto simp: load_record_def bind_op_def catch_op_def record_at_def record_in_def)
qed

lemma load_record_ok:
  "rt_faults s = [] \<Longrightarrow> record_at sv s i = Some r \<Longrightarrow> load_record sv i s = (Inr r, s)"
  by (auto simp: load_record_def read_manifest_def bind_op_def catch_op_def with_directory_def record_at_def record_in_def
      fun_upd_idem split: option.splits node.splits sum.splits)

lemma resolve_reads:
  "resolve sv reference s = (r, t) \<Longrightarrow> rt_entries t = rt_entries s \<and>
    (\<forall>i. r = Inr i \<longrightarrow> i = ref_record_id reference \<and> (\<exists>d. rt_entries s i = Some (Directory d)))"
  by (auto simp: resolve_def bind_op_def catch_op_def Let_def dest: io_entries
      split: if_splits prod.splits sum.splits option.splits node.splits)

lemma resolve_ok:
  "rt_faults s = [] \<Longrightarrow> ref_backend reference = ''directory'' \<Longrightarrow>
    rt_entries s (ref_record_id reference) = Some (Directory d) \<Longrightarrow> resolve sv reference s = (Inr (ref_record_id reference), s)"
  by (simp add: resolve_def bind_op_def catch_op_def Let_def)

lemma with_directory_cases:
  assumes "with_directory i f s = (r, t)"
  obtains (missing) e where "r = Inl e" "t = s" "is_directory_error e"
  | (there) d d' where "rt_entries s i = Some (Directory d)" "f d = (r, d')"
      "rt_entries t = (rt_entries s)(i \<mapsto> Directory d')" "rt_faults t = rt_faults s"
  using assms
  by (auto simp: with_directory_def is_directory_error_def split: option.splits node.splits prod.splits)

lemma record_at_set:
  assumes "rt_entries t = (rt_entries s)(i \<mapsto> Directory d)"
  shows "record_at sv t = (record_at sv s)(i := record_in sv i (Some (Directory d)))"
  using assms by (auto simp: record_at_def fun_eq_iff)

lemma record_at_entries: "rt_entries t = rt_entries s \<Longrightarrow> record_at sv t = record_at sv s"
  by (auto simp: record_at_def fun_eq_iff)

lemma record_in_manifest:
  "sv_read_manifest sv d' = sv_read_manifest sv d \<Longrightarrow> record_in sv i (Some (Directory d')) = record_in sv i (Some (Directory d))"
  by (simp add: record_in_def)

text \<open>Publishing replaces the durable record or leaves it as it was.\<close>

lemma publish_result:
  assumes laws: "directory_laws sv" "record_codec sv" and p: "publish sv i record s = (r, t)"
  shows "r = Inr () \<Longrightarrow> sv_instance sv record \<Longrightarrow> record_at sv t = (record_at sv s)(i \<mapsto> record)"
    and "r = Inl e \<Longrightarrow> record_at sv t = record_at sv s"
proof -
  let ?f = "\<lambda>d. case sv_publish sv (sv_dump sv record) d of (None, d') \<Rightarrow> (Inr (), d') | (Some e, d') \<Rightarrow> (Inl e, d')"
  have "(r = Inr () \<longrightarrow> sv_instance sv record \<longrightarrow> record_at sv t = (record_at sv s)(i \<mapsto> record)) \<and> (\<forall>e. r = Inl e \<longrightarrow> record_at sv t = record_at sv s)"
  proof (cases "io s")
    case (Pair q u)
    note u = record_at_entries [OF io_entries [OF Pair], of sv]
    show ?thesis
    proof (cases q)
      case (Inl e)
      then show ?thesis using p Pair u by (auto simp: publish_def bind_op_def)
    next
      case (Inr x)
      then have "with_directory i ?f u = (r, t)" using p Pair by (simp add: publish_def bind_op_def)
      then show ?thesis
      proof (cases rule: with_directory_cases)
        case missing
        then show ?thesis using u by simp
      next
        case (there d d')
        note at = record_at_set [OF there(3), of sv]
        show ?thesis
        proof (cases r)
          case (Inl e)
          then have "sv_publish sv (sv_dump sv record) d = (Some e, d')"
            using there(2) by (auto split: prod.splits option.splits)
          then have "sv_read_manifest sv d' = sv_read_manifest sv d" using laws(1) unfolding directory_laws_def by blast
          then have "record_in sv i (Some (Directory d')) = record_at sv u i"
            using there(1) record_in_manifest by (metis record_at_def)
          then show ?thesis using at u Inl by simp
        next
          case (Inr y)
          then have "sv_publish sv (sv_dump sv record) d = (None, d')"
            using there(2) by (auto split: prod.splits option.splits)
          then have "sv_read_manifest sv d' = Inr (sv_dump sv record)" using laws(1) unfolding directory_laws_def by blast
          then have "sv_instance sv record \<Longrightarrow> record_in sv i (Some (Directory d')) = Some record"
            using laws(2) by (simp add: record_in_def record_codec_def)
          then show ?thesis using at u Inr by simp
        qed
      qed
    qed
  qed
  then show "r = Inr () \<Longrightarrow> sv_instance sv record \<Longrightarrow> record_at sv t = (record_at sv s)(i \<mapsto> record)"
    and "r = Inl e \<Longrightarrow> record_at sv t = record_at sv s" by blast+
qed

lemma write_sidecar_keeps:
  assumes laws: "directory_laws sv" and p: "write_sidecar sv i n stream s = (r, t)"
  shows "record_at sv t = record_at sv s"
proof (cases "io s")
  case (Pair q u)
  note u = record_at_entries [OF io_entries [OF Pair], of sv]
  show ?thesis
  proof (cases q)
    case (Inl e)
    then show ?thesis using p Pair u by (auto simp: write_sidecar_def bind_op_def)
  next
    case (Inr x)
    then have "with_directory i (sv_write_sidecar sv n (rp_head stream) (rp_tail stream)) u = (r, t)"
      using p Pair by (simp add: write_sidecar_def bind_op_def)
    then show ?thesis
    proof (cases rule: with_directory_cases)
      case missing
      then show ?thesis using u by simp
    next
      case (there d d')
      then have "sv_read_manifest sv d' = sv_read_manifest sv d" using laws unfolding directory_laws_def by blast
      then have "record_in sv i (Some (Directory d')) = record_at sv u i"
        using there(1) record_in_manifest by (metis record_at_def)
      then show ?thesis using record_at_set [OF there(3), of sv] u by simp
    qed
  qed
qed

lemma or_invalid_constructed:
  "or_invalid (constructed sv x) s = (Inr record, t) \<longleftrightarrow> x = Inr record \<and> sv_instance sv record \<and> t = s"
  by (auto simp: or_invalid_def constructed_def result_simps split: sum.splits)

lemma or_invalid_keeps: "or_invalid x s = (r, t) \<Longrightarrow> t = s"
  by (auto simp: or_invalid_def split: sum.splits)

lemma bind_raised_keeps:
  assumes "bind_op m k s = (Inl e, t)" and "\<And>q u. m s = (q, u) \<Longrightarrow> R u = R s"
    and "\<And>x u. k x u = (Inl e, t) \<Longrightarrow> R t = R u"
  shows "R t = R s"
proof (cases "m s")
  case (Pair q u)
  then have "R u = R s" by (rule assms(2))
  then show ?thesis using assms(1,3) Pair by (cases q) (auto simp: bind_op_def)
qed

lemma resolve_record_at: "resolve sv reference s = (r, t) \<Longrightarrow> record_at sv t = record_at sv s"
  and load_record_record_at: "load_record sv i s = (q, t) \<Longrightarrow> record_at sv t = record_at sv s"
  by (auto intro: record_at_entries dest: resolve_reads load_record_reads(1))

text \<open>A finalization that did not return normally has left every durable record as it was.\<close>

lemma publish_finalized_raised:
  assumes laws: "directory_laws sv" "record_codec sv" and p: "publish_finalized sv run res s = (Inl e, t)"
  shows "record_at sv t = record_at sv s"
  using p unfolding publish_finalized_def
proof (rule bind_raised_keeps)
  fix i u
  assume "bind_op (load_record sv i) (\<lambda>record.
       if run_state record = RecordState.FINALIZED
       then raise_op (load_error (''run record '' @ uuid_str i @ '' is already finalized'') None)
       else
         bind_op (write_sidecar sv i STDOUT_SIDECAR_NAME (po_stdout (res_payload_outputs res))) (\<lambda>stdout_summary.
         bind_op (write_sidecar sv i STDERR_SIDECAR_NAME (po_stderr (res_payload_outputs res))) (\<lambda>stderr_summary.
         bind_op (or_invalid (constructed sv (finalized_record record res stdout_summary stderr_summary))) (\<lambda>finalized.
           publish sv i finalized)))) u = (Inl e, t)"
  then show "record_at sv t = record_at sv u"
  proof (rule bind_raised_keeps, goal_cases)
    case (1 q v)
    then show ?case by (rule load_record_record_at)
  next
    case (2 old v)
    show ?case
    proof (cases "run_state old = RecordState.FINALIZED")
      case False
      with 2 have "bind_op (write_sidecar sv i STDOUT_SIDECAR_NAME (po_stdout (res_payload_outputs res))) (\<lambda>stdout_summary.
         bind_op (write_sidecar sv i STDERR_SIDECAR_NAME (po_stderr (res_payload_outputs res))) (\<lambda>stderr_summary.
         bind_op (or_invalid (constructed sv (finalized_record old res stdout_summary stderr_summary))) (\<lambda>finalized.
           publish sv i finalized))) v = (Inl e, t)" by simp
      then show ?thesis
      proof (rule bind_raised_keeps, goal_cases)
        case (2 a w)
        then show ?case
        proof (rule bind_raised_keeps, goal_cases)
          case (2 b x)
          then show ?case
            using publish_result(2) [OF laws] or_invalid_keeps by (fastforce simp: op_simps)
        qed (rule write_sidecar_keeps [OF laws(1)])
      qed (rule write_sidecar_keeps [OF laws(1)])
    qed (use 2 in simp)
  qed
qed (rule resolve_record_at)

lemma publish_finalized_returned:
  assumes laws: "directory_laws sv" "record_codec sv" and p: "publish_finalized sv run res s = (Inr (), t)"
  obtains old stdout_summary stderr_summary finalized where
    "record_at sv s (ref_record_id (fr_reference run)) = Some old" "run_state old \<noteq> RecordState.FINALIZED"
    "finalized_record old res stdout_summary stderr_summary = Inr finalized"
    "record_at sv t = (record_at sv s)(ref_record_id (fr_reference run) \<mapsto> finalized)"
proof -
  from p obtain i u old v stdout_summary w stderr_summary x finalized y where
    steps: "resolve sv (fr_reference run) s = (Inr i, u)" "load_record sv i u = (Inr old, v)"
      "run_state old \<noteq> RecordState.FINALIZED"
      "write_sidecar sv i STDOUT_SIDECAR_NAME (po_stdout (res_payload_outputs res)) v = (Inr stdout_summary, w)"
      "write_sidecar sv i STDERR_SIDECAR_NAME (po_stderr (res_payload_outputs res)) w = (Inr stderr_summary, x)"
      "or_invalid (constructed sv (finalized_record old res stdout_summary stderr_summary)) x = (Inr finalized, y)"
      "publish sv i finalized y = (Inr (), t)"
    unfolding publish_finalized_def by (auto simp: op_simps split: if_splits)
  have "i = ref_record_id (fr_reference run)" using resolve_reads [OF steps(1)] by simp
  moreover have "record_at sv y = record_at sv s"
    using resolve_record_at [OF steps(1)] load_record_record_at [OF steps(2)]
      write_sidecar_keeps [OF laws(1) steps(4)] write_sidecar_keeps [OF laws(1) steps(5)] or_invalid_keeps [OF steps(6)]
    by simp
  moreover have "record_at sv s i = Some old"
    using load_record_reads(2) [OF steps(2)] resolve_record_at [OF steps(1)] by simp
  moreover have "finalized_record old res stdout_summary stderr_summary = Inr finalized" "sv_instance sv finalized"
    using steps(6) by (simp_all add: or_invalid_constructed)
  ultimately show thesis using that steps(3) publish_result(1) [OF laws steps(7)] by metis
qed

section \<open>Allocation\<close>

lemma read_manifest_quiet:
  assumes "rt_faults s = []" and "rt_entries s i = Some (Directory d)"
  shows "read_manifest sv i s = (sv_read_manifest sv d, s)"
proof -
  have "s\<lparr>rt_entries := (rt_entries s)(i \<mapsto> Directory d)\<rparr> = s" using assms(2) by (simp add: fun_upd_idem)
  then show ?thesis using assms by (simp add: read_manifest_def bind_op_def with_directory_def)
qed

lemma record_at_directory:
  "record_at sv s i = Some r \<Longrightarrow>
    \<exists>d m. rt_entries s i = Some (Directory d) \<and> sv_read_manifest sv d = Inr m \<and> parse_record sv i m = Inr r"
  by (auto simp: record_at_def record_in_def split: option.splits node.splits sum.splits)

lemma parsed_version: "parse_record sv i m = Inr r \<Longrightarrow> header_schema_version m \<in> {None, Some CURRENT_RUN_RECORD_SCHEMA_VERSION}"
  by (auto simp: parse_record_def result_simps split: option.splits)

lemma mkdir_exists: "rt_faults s = [] \<Longrightarrow> rt_entries s i = Some n \<Longrightarrow>
    mkdir sv i s = (Inl (StoreExn FileExistsFailure ''FileExistsError'' (Some 17) ''file exists'' None), s)"
  by (simp add: mkdir_def bind_op_def)

lemma mkdir_fresh: "rt_faults s = [] \<Longrightarrow> rt_entries s i = None \<Longrightarrow>
    mkdir sv i s = (Inr (), s\<lparr>rt_entries := (rt_entries s)(i \<mapsto> Directory (sv_empty sv))\<rparr>)"
  by (simp add: mkdir_def bind_op_def)

lemma allocate_fresh: "rt_faults s = [] \<Longrightarrow> rt_entries s i = None \<Longrightarrow>
    allocate sv i s = (Inr (), s\<lparr>rt_entries := (rt_entries s)(i \<mapsto> Directory (sv_empty sv))\<rparr>)"
  by (simp add: allocate_def catch_op_def mkdir_fresh)

lemma allocate_refuses:
  assumes "rt_faults s = []" and "record_at sv s i = Some r"
  shows "\<exists>e. is_directory_error e \<and> allocate sv i s = (Inl e, s)"
proof -
  obtain d where "rt_entries s i = Some (Directory d)" using record_at_directory [OF assms(2)] by blast
  note exists = mkdir_exists [OF assms(1) this]
  have "reclaim_unprepared_allocation sv i s = (Inr (), s)"
    by (simp add: reclaim_unprepared_allocation_def catch_op_def bind_op_def load_record_ok [OF assms])
  then show ?thesis
    by (simp add: allocate_def catch_op_def bind_op_def exists is_os_error_def allocation_error_def is_directory_error_def)
qed

definition reliable :: "'d services \<Rightarrow> bool" where
  "reliable sv = ((\<forall>j d. fst (sv_publish sv j d) = None) \<and> (\<forall>n h t d. \<exists>summary. fst (sv_write_sidecar sv n h t d) = Inr summary))"

lemma publish_quiet:
  assumes "directory_laws sv" "record_codec sv" "reliable sv" "rt_faults s = []" "rt_entries s i = Some (Directory d)"
  shows "\<exists>d'. publish sv i record s = (Inr (), s\<lparr>rt_entries := (rt_entries s)(i \<mapsto> Directory d')\<rparr>) \<and>
    d' = snd (sv_publish sv (sv_dump sv record) d)"
proof -
  obtain d' where "sv_publish sv (sv_dump sv record) d = (None, d')"
    using assms(3) by (metis prod.collapse reliable_def)
  then show ?thesis using assms(4,5) by (simp add: publish_def bind_op_def with_directory_def)
qed

section \<open>Preparing\<close>

definition declared_id :: "(uuid \<Rightarrow> bytes \<Rightarrow> uuid) \<Rightarrow> RunDeclaration \<Rightarrow> uuid" where
  "declared_id uuid5 declaration =
     ref_record_id (record_reference_for_job uuid5 (eid_job_id (dec_execution_id declaration)))"

definition prepared_run :: "(uuid \<Rightarrow> bytes \<Rightarrow> uuid) \<Rightarrow> RunRecordHeader \<Rightarrow> RunDeclaration \<Rightarrow> FinalizableRun" where
  "prepared_run uuid5 header declaration =
     PreparedRun (dec_execution_id declaration)
       (record_reference_for_job uuid5 (eid_job_id (dec_execution_id declaration))) header declaration"

lemma prepare_refuses:
  assumes "rt_faults s = []" and "record_at sv s (declared_id uuid5 declaration) = Some r"
  shows "\<exists>e. prepare uuid5 sv header declaration s =
    (Inl (Classified ''could not prepare the run record'' ExecutorFailureCode.RECORDING_OPERATION_FAILED e), s)"
proof -
  obtain e where "is_directory_error e" "allocate sv (declared_id uuid5 declaration) s = (Inl e, s)"
    using allocate_refuses [OF assms] by blast
  then show ?thesis
    by (simp add: prepare_def executor_failure_def catch_op_def bind_op_def Let_def declared_id_def)
qed

lemma prepare_allocated:
  assumes "allocate sv (declared_id uuid5 declaration) s = (Inr (), t)"
    and "publish sv (declared_id uuid5 declaration) (PreparedRecord header declaration) t = (Inr (), u)"
  shows "prepare uuid5 sv header declaration s = (Inr (prepared_run uuid5 header declaration), u)"
  using assms by (simp add: prepare_def executor_failure_def catch_op_def bind_op_def Let_def declared_id_def prepared_run_def)

lemma prepare_fresh:
  assumes laws: "directory_laws sv" "record_codec sv" "reliable sv"
    and valid: "sv_instance sv (PreparedRecord header declaration)"
    and s: "rt_faults s = []" "rt_entries s (declared_id uuid5 declaration) = None"
  shows "\<exists>t. prepare uuid5 sv header declaration s = (Inr (prepared_run uuid5 header declaration), t) \<and>
    rt_faults t = [] \<and>
    record_at sv t = (record_at sv s)(declared_id uuid5 declaration \<mapsto> PreparedRecord header declaration)"
proof -
  let ?i = "declared_id uuid5 declaration"
  let ?u = "s\<lparr>rt_entries := (rt_entries s)(?i \<mapsto> Directory (sv_empty sv))\<rparr>"
  have u: "rt_faults ?u = []" "rt_entries ?u ?i = Some (Directory (sv_empty sv))" using s by simp_all
  obtain d' where p: "publish sv ?i (PreparedRecord header declaration) ?u =
      (Inr (), ?u\<lparr>rt_entries := (rt_entries ?u)(?i \<mapsto> Directory d')\<rparr>)"
    using publish_quiet [OF laws u] by blast
  have "record_at sv ?u = (record_at sv s)(?i := record_in sv ?i (Some (Directory (sv_empty sv))))"
    by (rule record_at_set) simp
  then have "record_at sv (?u\<lparr>rt_entries := (rt_entries ?u)(?i \<mapsto> Directory d')\<rparr>) =
      (record_at sv s)(?i \<mapsto> PreparedRecord header declaration)"
    using publish_result(1) [OF laws(1,2) p] valid by simp
  then show ?thesis using prepare_allocated [OF allocate_fresh [OF s] p] s(1) by auto
qed

text \<open>
  C38: one failed read destroys a record. Preparing a job whose durable record is there, even
  finalized, deletes it and succeeds when the single read of its manifest meets an error: the
  directory is taken for an allocation that was never prepared, although the next read, of the
  schema version, shows a current record.
\<close>

theorem failed_read_destroys_record:
  assumes laws: "directory_laws sv" "record_codec sv" "reliable sv"
    and valid: "sv_instance sv (PreparedRecord header declaration)"
    and old: "record_at sv s (declared_id uuid5 declaration) = Some r"
    and faults: "rt_faults s = [None, Some e]" and "is_directory_error e"
  shows "\<exists>t. prepare uuid5 sv header declaration s = (Inr (prepared_run uuid5 header declaration), t) \<and>
    record_at sv t (declared_id uuid5 declaration) = Some (PreparedRecord header declaration)"
proof -
  let ?i = "declared_id uuid5 declaration"
  let ?quiet = "s\<lparr>rt_faults := []\<rparr>" and ?gone = "s\<lparr>rt_entries := (rt_entries s)(?i := None), rt_faults := []\<rparr>"
  obtain d m where d: "rt_entries s ?i = Some (Directory d)" "sv_read_manifest sv d = Inr m" "parse_record sv ?i m = Inr r"
    using record_at_directory [OF old] by blast
  have "read_manifest sv ?i (s\<lparr>rt_faults := [Some e]\<rparr>) = (Inl e, ?quiet)"
    by (simp add: read_manifest_def bind_op_def io_def)
  then have "load_record sv ?i (s\<lparr>rt_faults := [Some e]\<rparr>) =
      (Inl (load_error (manifest_read_message e (record_dir ?i)) (Some e)), ?quiet)"
    using assms(7) by (simp add: load_record_def bind_op_def catch_op_def)
  moreover have "read_manifest sv ?i ?quiet = (Inr m, ?quiet)"
    using read_manifest_quiet [of ?quiet ?i d sv] d by simp
  then have "unsupported_lifecycle_schema_version sv ?i ?quiet = (Inr None, ?quiet)"
    using parsed_version [OF d(3)] by (auto simp: unsupported_lifecycle_schema_version_def catch_op_def bind_op_def)
  moreover have "rmtree ?i ?quiet = (Inr (), ?gone)" using d(1) by (simp add: rmtree_def bind_op_def)
  ultimately have "reclaim_unprepared_allocation sv ?i (s\<lparr>rt_faults := [Some e]\<rparr>) = (Inr (), ?gone)"
    by (simp add: reclaim_unprepared_allocation_def catch_op_def bind_op_def)
  moreover have "mkdir sv ?i s = (Inl (StoreExn FileExistsFailure ''FileExistsError'' (Some 17) ''file exists'' None),
      s\<lparr>rt_faults := [Some e]\<rparr>)"
    using faults d(1) by (simp add: mkdir_def bind_op_def io_def)
  ultimately have "allocate sv ?i s = allocate sv ?i ?gone"
    using mkdir_fresh [of ?gone ?i sv] allocate_fresh [of ?gone ?i sv] by (simp add: allocate_def catch_op_def bind_op_def)
  then have "prepare uuid5 sv header declaration s = prepare uuid5 sv header declaration ?gone"
    by (simp add: prepare_def executor_failure_def catch_op_def bind_op_def Let_def declared_id_def)
  then show ?thesis using prepare_fresh [OF laws valid, of ?gone uuid5] by auto
qed

text \<open>
  Two concurrent preparations of one job both succeed. When the second one's allocation runs
  between the first one's allocation and its publication, it takes the directory for an abandoned
  one; both callers get a prepared run and only the later declaration is recorded.
\<close>

theorem concurrent_preparations_both_succeed:
  assumes laws: "directory_laws sv" "record_codec sv" "reliable sv"
    and valid: "sv_instance sv r2"
    and s: "rt_faults s = []" "rt_entries s i = None"
  shows "\<exists>s1 s2 s3 s4. allocate sv i s = (Inr (), s1) \<and> allocate sv i s1 = (Inr (), s2) \<and>
    publish sv i r1 s2 = (Inr (), s3) \<and> publish sv i r2 s3 = (Inr (), s4) \<and> record_at sv s4 i = Some r2"
proof -
  let ?new = "s\<lparr>rt_entries := (rt_entries s)(i \<mapsto> Directory (sv_empty sv))\<rparr>"
  let ?gone = "?new\<lparr>rt_entries := (rt_entries ?new)(i := None)\<rparr>"
  obtain e where e: "sv_read_manifest sv (sv_empty sv) = Inl e" "is_directory_error e"
    using laws(1) by (auto simp: directory_laws_def)
  have one: "allocate sv i s = (Inr (), ?new)" using s by (rule allocate_fresh)
  have new: "rt_faults ?new = []" "rt_entries ?new i = Some (Directory (sv_empty sv))" using s by simp_all
  note read = read_manifest_quiet [OF new, of sv]
  have "load_record sv i ?new = (Inl (load_error (manifest_read_message e (record_dir i)) (Some e)), ?new)"
    using read e by (simp add: load_record_def bind_op_def catch_op_def)
  moreover have "unsupported_lifecycle_schema_version sv i ?new = (Inr None, ?new)"
    using read e by (simp add: unsupported_lifecycle_schema_version_def catch_op_def bind_op_def)
  moreover have "rmtree i ?new = (Inr (), ?gone)" using new by (simp add: rmtree_def bind_op_def)
  ultimately have "reclaim_unprepared_allocation sv i ?new = (Inr (), ?gone)"
    by (simp add: reclaim_unprepared_allocation_def catch_op_def bind_op_def)
  then have two: "allocate sv i ?new = (Inr (), ?gone\<lparr>rt_entries := (rt_entries ?gone)(i \<mapsto> Directory (sv_empty sv))\<rparr>)"
    using mkdir_exists [OF new, of sv] mkdir_fresh [of ?gone i sv] s(1) by (simp add: allocate_def catch_op_def bind_op_def)
  let ?s2 = "?gone\<lparr>rt_entries := (rt_entries ?gone)(i \<mapsto> Directory (sv_empty sv))\<rparr>"
  have s2: "rt_faults ?s2 = []" "rt_entries ?s2 i = Some (Directory (sv_empty sv))" using s(1) by simp_all
  obtain d where three: "publish sv i r1 ?s2 = (Inr (), ?s2\<lparr>rt_entries := (rt_entries ?s2)(i \<mapsto> Directory d)\<rparr>)"
    using publish_quiet [OF laws s2] by blast
  let ?s3 = "?s2\<lparr>rt_entries := (rt_entries ?s2)(i \<mapsto> Directory d)\<rparr>"
  have s3: "rt_faults ?s3 = []" "rt_entries ?s3 i = Some (Directory d)" using s(1) by simp_all
  obtain d' where four: "publish sv i r2 ?s3 = (Inr (), ?s3\<lparr>rt_entries := (rt_entries ?s3)(i \<mapsto> Directory d')\<rparr>)"
    using publish_quiet [OF laws s3] by blast
  have "record_at sv (?s3\<lparr>rt_entries := (rt_entries ?s3)(i \<mapsto> Directory d')\<rparr>) i = Some r2"
    using publish_result(1) [OF laws(1,2) four] valid by simp
  then show ?thesis using one two three four by blast
qed

section \<open>Finalizing\<close>

text \<open>The finalized record repeats what the prepared one declared and what the execution gave.\<close>

lemma finalized_record_reports:
  assumes "finalized_record old r out err = Inr f"
  shows "run_state f = RecordState.FINALIZED" and "run_header f = run_header old"
    and "run_declaration f = run_declaration old"
    and "rec_execution_id (run_result f) = res_execution_id r"
    and "rec_outcome (run_result f) = res_outcome r"
    and "rec_attribution (run_result f) = res_attribution r"
    and "rec_protocol_outputs (run_result f) = res_protocol_outputs r"
    and "rec_measurements (run_result f) = res_measurements r"
    and "por_stdout (rec_payload_outputs (run_result f)) =
      \<lparr>rr_head_bytes = ss_head_length out, rr_tail_bytes = ss_tail_length out,
       rr_produced_bytes = rp_produced_bytes (po_stdout (res_payload_outputs r)),
       rr_dropped_bytes = rp_dropped_bytes (po_stdout (res_payload_outputs r))\<rparr>"
    and "por_stderr (rec_payload_outputs (run_result f)) =
      \<lparr>rr_head_bytes = ss_head_length err, rr_tail_bytes = ss_tail_length err,
       rr_produced_bytes = rp_produced_bytes (po_stderr (res_payload_outputs r)),
       rr_dropped_bytes = rp_dropped_bytes (po_stderr (res_payload_outputs r))\<rparr>"
    and "oas_stdout (run_outputs f) = artifact_record STDOUT_SIDECAR_NAME out"
    and "oas_stderr (run_outputs f) = artifact_record STDERR_SIDECAR_NAME err"
  using assms
  by (auto simp: finalized_record_def execution_result_record_def retained_stream_record_def
      ExecutionResultRecord_new_def RetainedPayloadStreamRecord_new_def result_simps split: if_splits)

definition reports :: "RunRecord \<Rightarrow> RunRecord \<Rightarrow> ExecutionResult \<Rightarrow> bool" where
  "reports f old r =
     (run_state f = RecordState.FINALIZED \<and> run_header f = run_header old \<and> run_declaration f = run_declaration old \<and>
      rec_execution_id (run_result f) = res_execution_id r \<and> rec_outcome (run_result f) = res_outcome r \<and>
      rec_attribution (run_result f) = res_attribution r \<and>
      rec_protocol_outputs (run_result f) = res_protocol_outputs r \<and>
      rec_measurements (run_result f) = res_measurements r)"

lemma durable_state_reads:
  assumes "durable_state sv run s = (r, t)"
  shows "record_at sv t = record_at sv s"
    and "rt_faults s = [] \<Longrightarrow> ref_backend (fr_reference run) = ''directory'' \<Longrightarrow>
      record_at sv s (ref_record_id (fr_reference run)) = Some old \<Longrightarrow> r = Inr (run_state old)"
proof -
  show "record_at sv t = record_at sv s"
  proof (cases "bind_op (resolve sv (fr_reference run)) (\<lambda>i. bind_op (load_record sv i)
      (\<lambda>record. return_op (run_state record))) s")
    case (Pair q u)
    have "record_at sv u = record_at sv s"
      using Pair resolve_record_at load_record_record_at
      by (cases q) (fastforce simp: op_simps)+
    then show ?thesis using assms Pair by (cases q) (auto simp: durable_state_def catch_op_def split: if_splits)
  qed
  assume quiet: "rt_faults s = []" "ref_backend (fr_reference run) = ''directory''"
    and old: "record_at sv s (ref_record_id (fr_reference run)) = Some old"
  obtain d where "rt_entries s (ref_record_id (fr_reference run)) = Some (Directory d)"
    using record_at_directory [OF old] by blast
  then show "r = Inr (run_state old)"
    using assms resolve_ok [OF quiet] load_record_ok [OF quiet(1) old] by (simp add: durable_state_def catch_op_def bind_op_def)
qed

text \<open>An operation that meets no fault leaves none, and only allocation changes which entries exist.\<close>

abbreviation quiet :: "'d run_root \<Rightarrow> bool" where
  "quiet s \<equiv> rt_faults s = []"

abbreviation steady :: "uuid set \<Rightarrow> 'd run_root \<Rightarrow> bool" where
  "steady D s \<equiv> quiet s \<and> dom (rt_entries s) = D"

lemma keeps_io: "keeps (steady D) io"
  by (simp add: keeps_def)

lemma keeps_with_directory: "keeps (steady D) (with_directory i f)"
  by (auto simp: keeps_def with_directory_def split: option.splits node.splits prod.splits)

lemma keeps_if: "keeps P m \<Longrightarrow> keeps P k \<Longrightarrow> keeps P (if b then m else k)"
  by simp

lemma keeps_or_invalid: "keeps P (or_invalid x)"
  by (simp add: or_invalid_def split: sum.splits)

lemma keeps_read_manifest: "keeps (steady D) (read_manifest sv i)"
  unfolding read_manifest_def by (intro keeps_bind keeps_io keeps_with_directory)

lemma keeps_load_record: "keeps (steady D) (load_record sv i)"
  unfolding load_record_def by (intro keeps_bind keeps_catch keeps_read_manifest keeps_raise keeps_lift)

lemma keeps_resolve: "keeps (steady D) (resolve sv reference)"
  by (auto simp: keeps_def resolve_def bind_op_def catch_op_def Let_def split: option.splits node.splits)

lemma keeps_write_sidecar: "keeps (steady D) (write_sidecar sv i n stream)"
  and keeps_publish: "keeps (steady D) (publish sv i record)"
  unfolding write_sidecar_def publish_def by (intro keeps_bind keeps_io keeps_with_directory)+

lemma keeps_publish_finalized: "keeps (steady D) (publish_finalized sv run r)"
  unfolding publish_finalized_def
  by (intro keeps_bind keeps_if keeps_resolve keeps_load_record keeps_raise keeps_write_sidecar keeps_or_invalid keeps_publish)

lemma keeps_durable_state: "keeps (steady D) (durable_state sv run)"
  unfolding durable_state_def
  by (intro keeps_bind keeps_catch keeps_if keeps_resolve keeps_load_record keeps_raise keeps_return)

lemma keeps_finalize: "keeps (steady D) (finalize sv run r)"
  unfolding finalize_def
  by (intro keeps_bind keeps_catch keeps_if keeps_publish_finalized keeps_durable_state keeps_raise keeps_return)

text \<open>What a finalization that returned or raised has done.\<close>

lemma finalize_complete:
  assumes "publish_finalized sv run r s = (Inr (), t)"
  shows "finalize sv run r s = (Inr (CompleteRecordReceipt (fr_execution_id run) (fr_reference run)), t)"
  using assms by (simp add: finalize_def catch_op_def bind_op_def)

lemma finalize_degraded:
  assumes "publish_finalized sv run r s = (Inl e, t)" and "is_directory_error e \<or> is_load_error e"
    and "durable_state sv run t = (Inr latest, u)"
  shows "finalize sv run r s = (Inr (DegradedRecordReceipt (fr_execution_id run) (fr_reference run) latest
    [recording_failure ''finalize'' e]), u)"
  using assms by (simp add: finalize_def catch_op_def bind_op_def)

lemma finalize_cases:
  assumes "finalize sv run r s = (q, u)"
  obtains (complete) "publish_finalized sv run r s = (Inr (), u)"
      "q = Inr (CompleteRecordReceipt (fr_execution_id run) (fr_reference run))"
  | (degraded) e t latest where "publish_finalized sv run r s = (Inl e, t)" "is_directory_error e \<or> is_load_error e"
      "durable_state sv run t = (Inr latest, u)"
      "q = Inr (DegradedRecordReceipt (fr_execution_id run) (fr_reference run) latest [recording_failure ''finalize'' e])"
  | (lost) e t f where "publish_finalized sv run r s = (Inl e, t)" "durable_state sv run t = (Inl f, u)" "q = Inl (Unclassified f)"
  | (raised) e where "publish_finalized sv run r s = (Inl e, u)" "\<not> (is_directory_error e \<or> is_load_error e)"
      "q = Inl (Unclassified e)"
proof (cases "publish_finalized sv run r s")
  case (Pair p t)
  then show thesis
  proof (cases p)
    case (Inr x)
    then show thesis using Pair assms complete by (simp add: finalize_def catch_op_def bind_op_def)
  next
    case (Inl e)
    show thesis
    proof (cases "is_directory_error e \<or> is_load_error e")
      case True
      obtain d v where d: "durable_state sv run t = (d, v)" by (cases "durable_state sv run t")
      show thesis
        using Pair Inl True d assms degraded lost by (cases d) (auto simp: finalize_def catch_op_def bind_op_def)
    qed (use Pair Inl assms raised in \<open>simp add: finalize_def catch_op_def bind_op_def\<close>)
  qed
qed

lemma finalized_reports: "finalized_record old r out err = Inr f \<Longrightarrow> reports f old r"
  using finalized_record_reports(1-8) by (auto simp: reports_def)

text \<open>
  C36: a recording receipt is truthful whatever faults the file system answers with. A complete
  receipt means the durable record was there unfinalized and is now finalized, with the header and
  declaration it had and the result it was given; any other outcome leaves every durable record as
  it was, and the latest state of a degraded receipt is the durable one when the store can read it.
\<close>

theorem finalize_receipt_truthful:
  assumes laws: "directory_laws sv" "record_codec sv"
  shows "case finalize sv run r s of
      (Inr (CompleteRecordReceipt x reference), t) \<Rightarrow>
        x = fr_execution_id run \<and> reference = fr_reference run \<and>
        (\<exists>old f. record_at sv s (ref_record_id reference) = Some old \<and> run_state old \<noteq> RecordState.FINALIZED \<and>
          reports f old r \<and> record_at sv t = (record_at sv s)(ref_record_id reference \<mapsto> f))
    | (Inr (DegradedRecordReceipt x reference latest failures), t) \<Rightarrow>
        x = fr_execution_id run \<and> reference = fr_reference run \<and> record_at sv t = record_at sv s \<and> failures \<noteq> [] \<and>
        (rt_faults s = [] \<longrightarrow> ref_backend reference = ''directory'' \<longrightarrow>
          (\<forall>old. record_at sv s (ref_record_id reference) = Some old \<longrightarrow> latest = run_state old))
    | (_, t) \<Rightarrow> record_at sv t = record_at sv s"
proof (cases "finalize sv run r s")
  case (Pair q u)
  from Pair show ?thesis
  proof (cases rule: finalize_cases)
    case complete
    from publish_finalized_returned [OF laws complete(1)] obtain old a b f where
      "record_at sv s (ref_record_id (fr_reference run)) = Some old" "run_state old \<noteq> RecordState.FINALIZED"
      "finalized_record old r a b = Inr f"
      "record_at sv u = (record_at sv s)(ref_record_id (fr_reference run) \<mapsto> f)" .
    moreover from this(3) have "reports f old r" by (rule finalized_reports)
    ultimately show ?thesis using Pair complete by auto
  next
    case (degraded e t latest)
    note same = publish_finalized_raised [OF laws degraded(1)]
    have "quiet s \<Longrightarrow> quiet t" using keepsD [OF keeps_publish_finalized _ degraded(1)] by blast
    then show ?thesis
      using Pair degraded(4) same durable_state_reads [OF degraded(3)] by auto
  next
    case (lost e t f)
    then show ?thesis
      using Pair publish_finalized_raised [OF laws lost(1)] durable_state_reads(1) [OF lost(2)] by simp
  next
    case (raised e)
    then show ?thesis using Pair publish_finalized_raised [OF laws raised(1)] by simp
  qed
qed

section \<open>Reading back\<close>

lemma io_entry: "io s = (r, t) \<Longrightarrow> rt_entries t i = rt_entries s i"
  by (simp add: io_entries)

lemma write_sidecar_entry:
  assumes "write_sidecar sv i n stream s = (Inr summary, t)"
  obtains d d' where "rt_entries s i = Some (Directory d)" "rt_entries t i = Some (Directory d')"
    "sv_write_sidecar sv n (rp_head stream) (rp_tail stream) d = (Inr summary, d')"
proof -
  from assms obtain u where u: "io s = (Inr (), u)"
    and w: "with_directory i (sv_write_sidecar sv n (rp_head stream) (rp_tail stream)) u = (Inr summary, t)"
    by (auto simp: write_sidecar_def op_simps)
  from w show thesis by (cases rule: with_directory_cases) (auto intro: that simp: io_entry [OF u])
qed

lemma publish_entry:
  assumes "publish sv i record s = (Inr (), t)"
  obtains d d' where "rt_entries s i = Some (Directory d)" "rt_entries t i = Some (Directory d')"
    "d' = snd (sv_publish sv (sv_dump sv record) d)"
proof -
  let ?f = "\<lambda>d. case sv_publish sv (sv_dump sv record) d of (None, d') \<Rightarrow> (Inr (), d') | (Some e, d') \<Rightarrow> (Inl e, d')"
  from assms obtain u where u: "io s = (Inr (), u)" and w: "with_directory i ?f u = (Inr (), t)"
    by (auto simp: publish_def op_simps)
  from w show thesis
    by (cases rule: with_directory_cases) (auto intro: that simp: io_entry [OF u] split: prod.splits option.splits)
qed

abbreviation stream_bytes :: "RetainedPayloadStream \<Rightarrow> bytes" where
  "stream_bytes stream \<equiv> rp_head stream @ rp_tail stream"

text \<open>What a finalization that returned has written, sidecars included.\<close>

lemma publish_finalized_writes:
  assumes laws: "directory_laws sv" "record_codec sv" "sidecar_laws sv"
    and p: "publish_finalized sv run res s = (Inr (), t)"
  obtains old a b f d where
    "finalized_record old res a b = Inr f" "record_at sv t (ref_record_id (fr_reference run)) = Some f"
    "rt_entries t (ref_record_id (fr_reference run)) = Some (Directory d)"
    "ref_backend (fr_reference run) = ''directory''"
    "sidecar_holds sv STDOUT_SIDECAR_NAME a
      (stream_bytes (po_stdout (res_payload_outputs res))) d"
    "sidecar_holds sv STDERR_SIDECAR_NAME b
      (stream_bytes (po_stderr (res_payload_outputs res))) d"
    "ss_head_length a + ss_tail_length a =
      int (length (stream_bytes (po_stdout (res_payload_outputs res))))"
    "ss_head_length b + ss_tail_length b =
      int (length (stream_bytes (po_stderr (res_payload_outputs res))))"
proof -
  let ?out = "po_stdout (res_payload_outputs res)" and ?err = "po_stderr (res_payload_outputs res)"
  let ?i = "ref_record_id (fr_reference run)"
  from p obtain i u old v a w b x f y where
    steps: "resolve sv (fr_reference run) s = (Inr i, u)" "load_record sv i u = (Inr old, v)"
      "write_sidecar sv i STDOUT_SIDECAR_NAME ?out v = (Inr a, w)"
      "write_sidecar sv i STDERR_SIDECAR_NAME ?err w = (Inr b, x)"
      "or_invalid (constructed sv (finalized_record old res a b)) x = (Inr f, y)"
      "publish sv i f y = (Inr (), t)"
    unfolding publish_finalized_def by (auto simp: op_simps split: if_splits)
  have i: "i = ?i" using resolve_reads [OF steps(1)] by simp
  have backend: "ref_backend (fr_reference run) = ''directory''"
    using steps(1) by (auto simp: resolve_def Let_def split: if_splits)
  have f: "finalized_record old res a b = Inr f" "y = x" "sv_instance sv f"
    using steps(5) by (simp_all add: or_invalid_constructed)
  obtain d0 d1 where one: "rt_entries w i = Some (Directory d1)"
    "sv_write_sidecar sv STDOUT_SIDECAR_NAME (rp_head ?out) (rp_tail ?out) d0 = (Inr a, d1)"
    using steps(3) by (rule write_sidecar_entry)
  obtain d1' d2 where two: "rt_entries w i = Some (Directory d1')" "rt_entries x i = Some (Directory d2)"
    "sv_write_sidecar sv STDERR_SIDECAR_NAME (rp_head ?err) (rp_tail ?err) d1' = (Inr b, d2)"
    using steps(4) by (rule write_sidecar_entry)
  obtain d2' d3 where three: "rt_entries y i = Some (Directory d2')" "rt_entries t i = Some (Directory d3)"
    "d3 = snd (sv_publish sv (sv_dump sv f) d2')"
    using steps(6) by (rule publish_entry)
  have same: "d1' = d1" "d2' = d2" using one(1) two(1,2) three(1) f(2) by simp_all
  have names: "STDOUT_SIDECAR_NAME \<noteq> STDERR_SIDECAR_NAME" by (simp add: STDOUT_SIDECAR_NAME_def STDERR_SIDECAR_NAME_def)
  have out: "sidecar_holds sv STDOUT_SIDECAR_NAME a (stream_bytes ?out) d1"
    and out_length: "ss_head_length a + ss_tail_length a = int (length (stream_bytes ?out))"
    using laws(3) one(2) unfolding sidecar_laws_def by fastforce+
  have err: "sidecar_holds sv STDERR_SIDECAR_NAME b (stream_bytes ?err) d2"
    and err_length: "ss_head_length b + ss_tail_length b = int (length (stream_bytes ?err))"
    using laws(3) two(3) unfolding sidecar_laws_def by fastforce+
  have "sidecar_holds sv STDOUT_SIDECAR_NAME a (stream_bytes ?out) d2"
    using laws(3) two(3) names out unfolding sidecar_laws_def same by blast
  then have "sidecar_holds sv STDOUT_SIDECAR_NAME a (stream_bytes ?out) d3"
    using laws(3) three(3) unfolding sidecar_laws_def same by blast
  moreover have "sidecar_holds sv STDERR_SIDECAR_NAME b (stream_bytes ?err) d3"
    using laws(3) three(3) err unfolding sidecar_laws_def same by blast
  moreover have "record_at sv t i = Some f" using publish_result(1) [OF laws(1,2) steps(6)] f(3) by simp
  ultimately show thesis using that f(1) three(2) backend out_length err_length unfolding i by blast
qed

lemma verify_sidecar_ok:
  assumes "quiet s" and "rt_entries s i = Some (Directory d)" and "sidecar_holds sv n summary content d"
    and "rr_head_bytes stream = ss_head_length summary" and "rr_tail_bytes stream = ss_tail_length summary"
  shows "verify_sidecar sv i (n, artifact_record n summary, stream) s = (Inr (), s)"
  using assms by (simp add: verify_sidecar_def artifact_record_def bind_op_def catch_op_def with_directory_def
      sidecar_holds_def fun_upd_idem)

lemma read_artifact_ok:
  assumes "quiet s" and "record_at sv s (ref_record_id reference) = Some f" and "run_state f = RecordState.FINALIZED"
    and "rt_entries s (ref_record_id reference) = Some (Directory d)" and "ref_backend reference = ''directory''"
    and "artifact_record n summary \<in> {oas_stdout (run_outputs f), oas_stderr (run_outputs f)}"
    and "sidecar_holds sv n summary content d" and "ss_head_length summary + ss_tail_length summary = int (length content)"
    and "int (length content) \<le> limit" and "as_posix (PurePosixPath n) = n"
  shows "read_artifact sv reference (artifact_record n summary) limit s = (Inr content, s)"
proof -
  have "0 \<le> limit" using assms(9) by linarith
  then show ?thesis
    using assms by (auto simp: read_artifact_def bind_op_def resolve_ok load_record_ok artifact_record_def with_directory_def
        sidecar_holds_def fun_upd_idem)
qed

text \<open>
  C37: what a complete receipt acknowledges can be read back: loading the reference gives the
  finalized record with the result that was given, its sidecars verified, and reading either
  artifact gives the bytes of the stream that was retained, head then tail, for every limit they fit.
\<close>

theorem complete_receipt_reads_back:
  assumes laws: "directory_laws sv" "record_codec sv" "sidecar_laws sv"
    and s: "rt_faults s = []" and done_: "finalize sv run r s = (Inr (CompleteRecordReceipt x reference), t)"
  shows "\<exists>f old. reports f old r \<and> load sv reference t = (Inr f, t) \<and>
    (\<forall>limit. int (length (stream_bytes (po_stdout (res_payload_outputs r)))) \<le> limit \<longrightarrow>
      read_artifact sv reference (oas_stdout (run_outputs f)) limit t =
        (Inr (stream_bytes (po_stdout (res_payload_outputs r))), t)) \<and>
    (\<forall>limit. int (length (stream_bytes (po_stderr (res_payload_outputs r)))) \<le> limit \<longrightarrow>
      read_artifact sv reference (oas_stderr (run_outputs f)) limit t =
        (Inr (stream_bytes (po_stderr (res_payload_outputs r))), t))"
proof -
  have run: "publish_finalized sv run r s = (Inr (), t)" "reference = fr_reference run"
    using done_ by (cases rule: finalize_cases; simp)+
  have t: "quiet t" using keepsD [OF keeps_finalize _ done_] s by blast
  from publish_finalized_writes [OF laws run(1)] obtain old a b f d where
    w: "finalized_record old r a b = Inr f" "record_at sv t (ref_record_id reference) = Some f"
      "rt_entries t (ref_record_id reference) = Some (Directory d)" "ref_backend reference = ''directory''"
    and held: "sidecar_holds sv STDOUT_SIDECAR_NAME a
        (stream_bytes (po_stdout (res_payload_outputs r))) d"
      "sidecar_holds sv STDERR_SIDECAR_NAME b
        (stream_bytes (po_stderr (res_payload_outputs r))) d"
      "ss_head_length a + ss_tail_length a =
        int (length (stream_bytes (po_stdout (res_payload_outputs r))))"
      "ss_head_length b + ss_tail_length b =
        int (length (stream_bytes (po_stderr (res_payload_outputs r))))"
    unfolding run(2) by blast
  note f = finalized_record_reports [OF w(1)]
  have "verify_sidecars sv (ref_record_id reference) f t = (Inr (), t)"
    unfolding verify_sidecars_def f(11,12)
    by (simp add: bind_op_def verify_sidecar_ok [OF t w(3) held(1)] verify_sidecar_ok [OF t w(3) held(2)] f(9,10))
  then have "load sv reference t = (Inr f, t)"
    by (simp add: load_def bind_op_def resolve_ok [OF t w(4,3)] load_record_ok [OF t w(2)] f(1))
  moreover have "as_posix (PurePosixPath STDOUT_SIDECAR_NAME) = STDOUT_SIDECAR_NAME"
    "as_posix (PurePosixPath STDERR_SIDECAR_NAME) = STDERR_SIDECAR_NAME"
    by (code_simp, code_simp)
  moreover note read_artifact_ok [OF t w(2) f(1) w(3,4) _ held(1,3)] read_artifact_ok [OF t w(2) f(1) w(3,4) _ held(2,4)]
  ultimately show ?thesis using finalized_reports [OF w(1)] f(11,12) by (metis insertCI)
qed

section \<open>The store as a record map\<close>

text \<open>
  The contract the callers of the store rely on: a partial map from record ids to records, the
  calls on it and their answers. \<open>startable\<close> and \<open>storable\<close> say which running and finalized records their
  models' validators accept.
\<close>

datatype store_call =
    Prepare RunRecordHeader RunDeclaration
  | MarkRunning FinalizableRun ProcessRecord
  | Finalize FinalizableRun ExecutionResult

datatype store_answer = Handle FinalizableRun | Receipt RecordReceipt | Refused store_failure

definition answered :: "('a \<Rightarrow> store_answer) \<Rightarrow> (store_failure, 'a) result \<times> 's \<Rightarrow> store_answer \<times> 's" where
  "answered f = (\<lambda>(r, s). ((case r of Inr x \<Rightarrow> f x | Inl e \<Rightarrow> Refused e), s))"

definition perform ::
  "(uuid \<Rightarrow> bytes \<Rightarrow> uuid) \<Rightarrow> 'd services \<Rightarrow> store_call \<Rightarrow> 'd run_root \<Rightarrow> store_answer \<times> 'd run_root" where
  "perform uuid5 sv c s =
     (case c of
        Prepare hdr d \<Rightarrow> answered Handle (prepare uuid5 sv hdr d s)
      | MarkRunning run process \<Rightarrow> answered Handle (mark_running sv run process s)
      | Finalize run r \<Rightarrow> answered Receipt (finalize sv run r s))"

fun perform_all ::
  "(uuid \<Rightarrow> bytes \<Rightarrow> uuid) \<Rightarrow> 'd services \<Rightarrow> store_call list \<Rightarrow> 'd run_root \<Rightarrow> store_answer list \<times> 'd run_root" where
  "perform_all uuid5 sv [] s = ([], s)"
| "perform_all uuid5 sv (c # cs) s =
     (case perform uuid5 sv c s of (a, t) \<Rightarrow> (case perform_all uuid5 sv cs t of (as, u) \<Rightarrow> (a # as, u)))"

definition looked_up :: "(uuid \<Rightarrow> RunRecord option) \<Rightarrow> RunRecordReference \<Rightarrow> RunRecord option" where
  "looked_up m reference = (if ref_backend reference = ''directory'' then m (ref_record_id reference) else None)"

definition running_run :: "FinalizableRun \<Rightarrow> FinalizableRun" where
  "running_run run = RunningRun (fr_execution_id run) (fr_reference run) (fr_header run) (fr_declaration run)"

definition running_record :: "FinalizableRun \<Rightarrow> ProcessRecord \<Rightarrow> RunRecord" where
  "running_record run process = RunningRecord (fr_header run) (fr_declaration run) process"

inductive record_map_step ::
  "(uuid \<Rightarrow> bytes \<Rightarrow> uuid) \<Rightarrow> (RunRecord \<Rightarrow> bool) \<Rightarrow> (RunRecord \<Rightarrow> ExecutionResult \<Rightarrow> bool) \<Rightarrow>
     (uuid \<Rightarrow> RunRecord option) \<Rightarrow> store_call \<Rightarrow> store_answer \<Rightarrow>
     (uuid \<Rightarrow> RunRecord option) \<Rightarrow> bool" for uuid5 startable storable where
  prepared: "m (declared_id uuid5 d) = None \<Longrightarrow>
    record_map_step uuid5 startable storable m (Prepare hdr d) (Handle (prepared_run uuid5 hdr d))
      (m(declared_id uuid5 d \<mapsto> PreparedRecord hdr d))"
| occupied: "m (declared_id uuid5 d) \<noteq> None \<Longrightarrow>
    record_map_step uuid5 startable storable m (Prepare hdr d)
      (Refused (Classified ''could not prepare the run record'' ExecutorFailureCode.RECORDING_OPERATION_FAILED e)) m"
| running: "looked_up m (fr_reference run) \<noteq> None \<Longrightarrow>
    record_map_step uuid5 startable storable m (MarkRunning run process) (Handle (running_run run))
      (m(ref_record_id (fr_reference run) \<mapsto> running_record run process))"
| unstartable: "looked_up m (fr_reference run) \<noteq> None \<Longrightarrow> \<not> startable (running_record run process) \<Longrightarrow>
    record_map_step uuid5 startable storable m (MarkRunning run process) (Refused (Unclassified e)) m"
| unknown: "looked_up m (fr_reference run) = None \<Longrightarrow>
    record_map_step uuid5 startable storable m (MarkRunning run process)
      (Refused (Classified ''could not publish the running run record'' ExecutorFailureCode.RECORDING_OPERATION_FAILED e)) m"
| finalized: "looked_up m (fr_reference run) = Some old \<Longrightarrow> run_state old \<noteq> RecordState.FINALIZED \<Longrightarrow> reports f old r \<Longrightarrow>
    record_map_step uuid5 startable storable m (Finalize run r)
      (Receipt (CompleteRecordReceipt (fr_execution_id run) (fr_reference run)))
      (m(ref_record_id (fr_reference run) \<mapsto> f))"
| unstorable: "looked_up m (fr_reference run) = Some old \<Longrightarrow> run_state old \<noteq> RecordState.FINALIZED \<Longrightarrow> \<not> storable old r \<Longrightarrow>
    record_map_step uuid5 startable storable m (Finalize run r) (Refused (Unclassified e)) m"
| already: "looked_up m (fr_reference run) = Some old \<Longrightarrow> run_state old = RecordState.FINALIZED \<Longrightarrow>
    record_map_step uuid5 startable storable m (Finalize run r)
      (Receipt (DegradedRecordReceipt (fr_execution_id run) (fr_reference run) RecordState.FINALIZED [failure])) m"
| absent: "looked_up m (fr_reference run) = None \<Longrightarrow>
    record_map_step uuid5 startable storable m (Finalize run r)
      (Receipt (DegradedRecordReceipt (fr_execution_id run) (fr_reference run) (handle_durable_state run) [failure])) m"

inductive record_map_trace ::
  "(uuid \<Rightarrow> bytes \<Rightarrow> uuid) \<Rightarrow> (RunRecord \<Rightarrow> bool) \<Rightarrow> (RunRecord \<Rightarrow> ExecutionResult \<Rightarrow> bool) \<Rightarrow>
     (uuid \<Rightarrow> RunRecord option) \<Rightarrow> store_call list \<Rightarrow> store_answer list \<Rightarrow>
     (uuid \<Rightarrow> RunRecord option) \<Rightarrow> bool" for uuid5 startable storable where
  no_call: "record_map_trace uuid5 startable storable m [] [] m"
| next_call: "record_map_step uuid5 startable storable m c a m' \<Longrightarrow> record_map_trace uuid5 startable storable m' cs as m'' \<Longrightarrow>
    record_map_trace uuid5 startable storable m (c # cs) (a # as) m''"

definition startable_in :: "'d services \<Rightarrow> RunRecord \<Rightarrow> bool" where
  "startable_in sv record = (constructed sv (RunRecord_new record) = Inr record)"

definition storable_in :: "'d services \<Rightarrow> RunRecord \<Rightarrow> ExecutionResult \<Rightarrow> bool" where
  "storable_in sv old r = (\<forall>a b.
     ss_head_length a = int (length (rp_head (po_stdout (res_payload_outputs r)))) \<longrightarrow>
     ss_tail_length a = int (length (rp_tail (po_stdout (res_payload_outputs r)))) \<longrightarrow>
     ss_head_length b = int (length (rp_head (po_stderr (res_payload_outputs r)))) \<longrightarrow>
     ss_tail_length b = int (length (rp_tail (po_stderr (res_payload_outputs r)))) \<longrightarrow>
     (\<exists>f. constructed sv (finalized_record old r a b) = Inr f))"

text \<open>A root whose every entry is a prepared record and whose file system works.\<close>

definition settled :: "'d services \<Rightarrow> 'd run_root \<Rightarrow> bool" where
  "settled sv s = (rt_faults s = [] \<and> dom (rt_entries s) = dom (record_at sv s))"

lemma settled_entry: "settled sv s \<Longrightarrow> record_at sv s i = None \<Longrightarrow> rt_entries s i = None"
  unfolding settled_def by blast

lemma settled_updated:
  assumes "settled sv s" and "steady (dom (rt_entries s)) t" and "record_at sv t = (record_at sv s)(i \<mapsto> r)"
    and "record_at sv s i = Some old"
  shows "settled sv t"
  using assms unfolding settled_def by auto

lemma settled_same: "settled sv s \<Longrightarrow> steady (dom (rt_entries s)) t \<Longrightarrow> record_at sv t = record_at sv s \<Longrightarrow> settled sv t"
  unfolding settled_def by simp

lemma prepare_fresh_entries:
  assumes laws: "directory_laws sv" "record_codec sv" "reliable sv"
    and s: "rt_faults s = []" "rt_entries s (declared_id uuid5 declaration) = None"
    and p: "prepare uuid5 sv header declaration s = (q, t)"
  shows "dom (rt_entries t) = insert (declared_id uuid5 declaration) (dom (rt_entries s))"
proof -
  let ?i = "declared_id uuid5 declaration"
  let ?u = "s\<lparr>rt_entries := (rt_entries s)(?i \<mapsto> Directory (sv_empty sv))\<rparr>"
  have u: "rt_faults ?u = []" "rt_entries ?u ?i = Some (Directory (sv_empty sv))" using s by simp_all
  obtain d' where "publish sv ?i (PreparedRecord header declaration) ?u =
      (Inr (), ?u\<lparr>rt_entries := (rt_entries ?u)(?i \<mapsto> Directory d')\<rparr>)"
    using publish_quiet [OF laws u] by blast
  from prepare_allocated [OF allocate_fresh [OF s] this] p show ?thesis by auto
qed

lemma prepare_refines:
  assumes laws: "directory_laws sv" "record_codec sv" "reliable sv" and s: "settled sv s"
    and valid: "sv_instance sv (PreparedRecord hdr d)"
    and p: "perform uuid5 sv (Prepare hdr d) s = (a, t)"
  shows "settled sv t \<and> record_map_step uuid5 P Q (record_at sv s) (Prepare hdr d) a (record_at sv t)"
proof (cases "record_at sv s (declared_id uuid5 d)")
  case None
  note free = settled_entry [OF s None]
  have quiet: "rt_faults s = []" using s by (simp add: settled_def)
  obtain u where u: "prepare uuid5 sv hdr d s = (Inr (prepared_run uuid5 hdr d), u)" "rt_faults u = []"
    "record_at sv u = (record_at sv s)(declared_id uuid5 d \<mapsto> PreparedRecord hdr d)"
    using prepare_fresh [OF laws valid quiet free] by blast
  have "settled sv u"
    using prepare_fresh_entries [OF laws quiet free u(1)] u(2,3) s by (auto simp: settled_def)
  moreover have "a = Handle (prepared_run uuid5 hdr d)" "t = u"
    using p u(1) by (simp_all add: perform_def answered_def)
  ultimately show ?thesis using u(3) record_map_step.prepared [where m = "record_at sv s", OF None] by simp
next
  case (Some old)
  have quiet: "rt_faults s = []" using s by (simp add: settled_def)
  from prepare_refuses [OF quiet Some, of hdr] obtain e where
    "prepare uuid5 sv hdr d s =
      (Inl (Classified ''could not prepare the run record'' ExecutorFailureCode.RECORDING_OPERATION_FAILED e), s)" by blast
  then show ?thesis using p s Some record_map_step.occupied [of "record_at sv s" uuid5 d P Q hdr e]
    by (simp add: perform_def answered_def)
qed

lemma looked_up_at:
  assumes "settled sv s"
  shows "looked_up (record_at sv s) reference = Some old \<Longrightarrow>
      resolve sv reference s = (Inr (ref_record_id reference), s) \<and> record_at sv s (ref_record_id reference) = Some old"
    and "looked_up (record_at sv s) reference = None \<Longrightarrow> \<exists>e. is_load_error e \<and> resolve sv reference s = (Inl e, s)"
proof -
  have quiet: "rt_faults s = []" using assms by (simp add: settled_def)
  show "looked_up (record_at sv s) reference = Some old \<Longrightarrow>
      resolve sv reference s = (Inr (ref_record_id reference), s) \<and> record_at sv s (ref_record_id reference) = Some old"
    using resolve_ok [OF quiet] record_at_directory [of sv s "ref_record_id reference" old]
    by (auto simp: looked_up_def split: if_splits)
  show "looked_up (record_at sv s) reference = None \<Longrightarrow> \<exists>e. is_load_error e \<and> resolve sv reference s = (Inl e, s)"
    using settled_entry [OF assms, of "ref_record_id reference"] quiet
    by (auto simp: looked_up_def resolve_def Let_def bind_op_def catch_op_def split: if_splits)
qed

lemma mark_running_built:
  assumes "startable_in sv (running_record run process)"
  shows "or_invalid (constructed sv (RunRecord_new
    (RunningRecord (fr_header run) (fr_declaration run) process))) s = (Inr (running_record run process), s)"
    and "sv_instance sv (running_record run process)"
  using assms by (auto simp: startable_in_def running_record_def or_invalid_def constructed_def result_simps)

lemma mark_running_refines:
  assumes laws: "directory_laws sv" "record_codec sv" "reliable sv" and s: "settled sv s"
    and p: "perform uuid5 sv (MarkRunning run process) s = (a, t)"
  shows "settled sv t \<and> record_map_step uuid5 (startable_in sv) Q (record_at sv s) (MarkRunning run process) a (record_at sv t)"
proof -
  let ?m = "record_at sv s" and ?i = "ref_record_id (fr_reference run)"
  have quiet: "rt_faults s = []" using s by (simp add: settled_def)
  show ?thesis
  proof (cases "looked_up ?m (fr_reference run)")
    case None
    from looked_up_at(2) [OF s this] obtain e where "is_load_error e" "resolve sv (fr_reference run) s = (Inl e, s)" by blast
    then have "a = Refused (Classified ''could not publish the running run record'' ExecutorFailureCode.RECORDING_OPERATION_FAILED e)"
      "t = s"
      using p by (simp_all add: perform_def answered_def mark_running_def executor_failure_def bind_op_def catch_op_def)
    then show ?thesis using s record_map_step.unknown [OF None] by simp
  next
    case (Some old)
    note found = looked_up_at(1) [OF s Some]
    show ?thesis
    proof (cases "startable_in sv (running_record run process)")
      case True
      note built = mark_running_built [OF True]
      from found obtain d where d: "rt_entries s ?i = Some (Directory d)" using record_at_directory by blast
      from publish_quiet [OF laws quiet d, of "running_record run process"] obtain u where
        u: "publish sv ?i (running_record run process) s = (Inr (), u)" by blast
      have "a = Handle (running_run run)" "t = u"
        using p found u by (simp_all add: built(1) perform_def answered_def mark_running_def executor_failure_def
            bind_op_def catch_op_def running_run_def del: RunRecord_new.simps)
      moreover have at: "record_at sv u = ?m(?i \<mapsto> running_record run process)"
        using publish_result(1) [OF laws(1,2) u _ built(2)] by simp
      moreover have "settled sv u"
        using settled_updated [OF s keepsD [OF keeps_publish _ u] at] quiet found by blast
      ultimately show ?thesis using record_map_step.running [of ?m run] Some by simp
    next
      case False
      then have "constructed sv (RunRecord_new (RunningRecord (fr_header run) (fr_declaration run) process)) \<noteq>
          Inr (running_record run process)"
        by (simp add: startable_in_def running_record_def)
      moreover have "RunRecord_new x = Inr y \<Longrightarrow> y = x" for x y
        by (cases x) (auto simp: result_simps split: if_splits)
      ultimately obtain f where
        "constructed sv (RunRecord_new (RunningRecord (fr_header run) (fr_declaration run) process)) = Inl f"
        by (cases "constructed sv (RunRecord_new (RunningRecord (fr_header run) (fr_declaration run) process))")
          (auto simp: constructed_def running_record_def result_simps)
      then have "\<exists>e. a = Refused (Unclassified e)" "t = s"
        using p found by (auto simp: perform_def answered_def mark_running_def executor_failure_def
            bind_op_def catch_op_def or_invalid_def is_directory_error_def is_load_error_def simp del: RunRecord_new.simps)
      then show ?thesis using s record_map_step.unstartable [of ?m run] Some False by auto
    qed
  qed
qed

lemma finalize_not_found:
  assumes "resolve sv (fr_reference run) s = (Inl e, s)" and "is_load_error e"
  shows "finalize sv run r s = (Inr (DegradedRecordReceipt (fr_execution_id run) (fr_reference run)
    (handle_durable_state run) [recording_failure ''finalize'' e]), s)"
proof (rule finalize_degraded)
  show "publish_finalized sv run r s = (Inl e, s)"
    using assms by (simp add: publish_finalized_def bind_op_def)
  show "durable_state sv run s = (Inr (handle_durable_state run), s)"
    using assms by (simp add: durable_state_def bind_op_def catch_op_def)
qed (use assms in simp)

lemma finalize_already:
  assumes "resolve sv (fr_reference run) s = (Inr i, s)" and "load_record sv i s = (Inr old, s)"
    and "run_state old = RecordState.FINALIZED"
  shows "\<exists>e. finalize sv run r s = (Inr (DegradedRecordReceipt (fr_execution_id run) (fr_reference run)
    RecordState.FINALIZED [recording_failure ''finalize'' e]), s)"
proof -
  let ?e = "load_error (''run record '' @ uuid_str i @ '' is already finalized'') None"
  have "publish_finalized sv run r s = (Inl ?e, s)"
    using assms by (simp add: publish_finalized_def bind_op_def)
  moreover have "durable_state sv run s = (Inr RecordState.FINALIZED, s)"
    using assms by (simp add: durable_state_def bind_op_def catch_op_def)
  ultimately show ?thesis using finalize_degraded [of sv run r s ?e s] by auto
qed

text \<open>With a working file system a finalization of an open record ends by publishing or by the validators' refusal.\<close>

lemma write_sidecar_quiet:
  assumes "reliable sv" and "rt_faults s = []" and "rt_entries s i = Some (Directory d)"
  obtains summary t d' where "write_sidecar sv i n stream s = (Inr summary, t)" "rt_faults t = []"
    "rt_entries t i = Some (Directory d')" "sv_write_sidecar sv n (rp_head stream) (rp_tail stream) d = (Inr summary, d')"
proof -
  from assms(1) obtain summary d' where "sv_write_sidecar sv n (rp_head stream) (rp_tail stream) d = (Inr summary, d')"
    unfolding reliable_def by (metis prod.collapse)
  then show thesis using that assms(2,3) by (auto simp: write_sidecar_def bind_op_def with_directory_def)
qed

lemma publish_finalized_open:
  assumes laws: "directory_laws sv" "record_codec sv" "reliable sv" "sidecar_laws sv"
    and s: "rt_faults s = []" "resolve sv (fr_reference run) s = (Inr i, s)" "load_record sv i s = (Inr old, s)"
    and "run_state old \<noteq> RecordState.FINALIZED" and d: "rt_entries s i = Some (Directory d)"
    and p: "publish_finalized sv run r s = (q, t)"
  shows "q = Inr () \<or> (\<not> storable_in sv old r \<and> (\<exists>e. q = Inl e \<and> sx_kind e = ValueFailure))"
proof -
  let ?out = "po_stdout (res_payload_outputs r)" and ?err = "po_stderr (res_payload_outputs r)"
  obtain a w d1 where one: "write_sidecar sv i STDOUT_SIDECAR_NAME ?out s = (Inr a, w)" "rt_faults w = []"
    "rt_entries w i = Some (Directory d1)" "sv_write_sidecar sv STDOUT_SIDECAR_NAME (rp_head ?out) (rp_tail ?out) d = (Inr a, d1)"
    using write_sidecar_quiet [OF laws(3) s(1) d] by blast
  obtain b x d2 where two: "write_sidecar sv i STDERR_SIDECAR_NAME ?err w = (Inr b, x)" "rt_faults x = []"
    "rt_entries x i = Some (Directory d2)" "sv_write_sidecar sv STDERR_SIDECAR_NAME (rp_head ?err) (rp_tail ?err) d1 = (Inr b, d2)"
    using write_sidecar_quiet [OF laws(3) one(2,3)] by blast
  have lengths: "ss_head_length a = int (length (rp_head ?out))" "ss_tail_length a = int (length (rp_tail ?out))"
    "ss_head_length b = int (length (rp_head ?err))" "ss_tail_length b = int (length (rp_tail ?err))"
    using laws(4) one(4) two(4) unfolding sidecar_laws_def by blast+
  have run: "publish_finalized sv run r s =
      bind_op (or_invalid (constructed sv (finalized_record old r a b))) (\<lambda>f. publish sv i f) x"
    using s assms(8) one(1) two(1) by (simp add: publish_finalized_def bind_op_def)
  show ?thesis
  proof (cases "constructed sv (finalized_record old r a b)")
    case (Inl e)
    then have "\<nexists>f. constructed sv (finalized_record old r a b) = Inr f" by simp
    then have "\<not> storable_in sv old r" using lengths unfolding storable_in_def by blast
    then show ?thesis using p run Inl by (auto simp: or_invalid_def bind_op_def)
  next
    case (Inr f)
    then show ?thesis using p run publish_quiet [OF laws(1-3) two(2,3), of f] by (auto simp: or_invalid_def bind_op_def)
  qed
qed

lemma finalize_refines:
  assumes laws: "directory_laws sv" "record_codec sv" "reliable sv" "sidecar_laws sv" and s: "settled sv s"
    and p: "perform uuid5 sv (Finalize run r) s = (a, t)"
  shows "settled sv t \<and> record_map_step uuid5 P (storable_in sv) (record_at sv s) (Finalize run r) a (record_at sv t)"
proof -
  let ?m = "record_at sv s" and ?i = "ref_record_id (fr_reference run)"
  have quiet: "rt_faults s = []" using s by (simp add: settled_def)
  show ?thesis
  proof (cases "looked_up ?m (fr_reference run)")
    case None
    from looked_up_at(2) [OF s this] obtain e where "is_load_error e" "resolve sv (fr_reference run) s = (Inl e, s)" by blast
    from finalize_not_found [OF this(2,1), of r] p
    have "a = Receipt (DegradedRecordReceipt (fr_execution_id run) (fr_reference run) (handle_durable_state run)
        [recording_failure ''finalize'' e])" "t = s"
      by (simp_all add: perform_def answered_def)
    then show ?thesis using s record_map_step.absent [OF None] by simp
  next
    case (Some old)
    note found = looked_up_at(1) [OF s Some]
    have loaded: "load_record sv ?i s = (Inr old, s)" using load_record_ok [OF quiet] found by blast
    show ?thesis
    proof (cases "run_state old = RecordState.FINALIZED")
      case True
      from finalize_already [OF _ loaded True] found obtain e where
        "finalize sv run r s = (Inr (DegradedRecordReceipt (fr_execution_id run) (fr_reference run)
          RecordState.FINALIZED [recording_failure ''finalize'' e]), s)" by blast
      then have "a = Receipt (DegradedRecordReceipt (fr_execution_id run) (fr_reference run)
          RecordState.FINALIZED [recording_failure ''finalize'' e])" "t = s"
        using p by (simp_all add: perform_def answered_def)
      then show ?thesis using s record_map_step.already [of ?m run old] Some True by simp
    next
      case False
      from found obtain d where d: "rt_entries s ?i = Some (Directory d)" using record_at_directory by blast
      obtain q u where u: "publish_finalized sv run r s = (q, u)" by (cases "publish_finalized sv run r s")
      have steady: "steady (dom (rt_entries s)) u" using keepsD [OF keeps_publish_finalized _ u] quiet by blast
      consider "q = Inr ()" | e where "\<not> storable_in sv old r" "q = Inl e" "sx_kind e = ValueFailure"
        using publish_finalized_open [OF laws quiet _ loaded False d u] found by blast
      then show ?thesis
      proof cases
        case 1
        from publish_finalized_returned [OF laws(1,2) u [unfolded 1]] obtain old' x y f where
          f': "?m ?i = Some old'" "finalized_record old' r x y = Inr f" "record_at sv u = ?m(?i \<mapsto> f)" by metis
        then have f: "finalized_record old r x y = Inr f" "record_at sv u = ?m(?i \<mapsto> f)" using found by simp_all
        have "a = Receipt (CompleteRecordReceipt (fr_execution_id run) (fr_reference run))" "t = u"
          using p finalize_complete [OF u [unfolded 1]] by (simp_all add: perform_def answered_def)
        then show ?thesis
          using record_map_step.finalized [OF Some False finalized_reports [OF f(1)]] f(2)
            settled_updated [OF s steady f(2)] found by simp
      next
        case 2
        then have "finalize sv run r s = (Inl (Unclassified e), u)"
          using u by (simp add: finalize_def bind_op_def catch_op_def is_directory_error_def is_load_error_def)
        then have "a = Refused (Unclassified e)" "t = u" using p by (simp_all add: perform_def answered_def)
        moreover have "record_at sv u = ?m" using publish_finalized_raised [OF laws(1,2) u [unfolded 2(2)]] .
        moreover from settled_same [OF s steady this] have "settled sv u" .
        ultimately show ?thesis using record_map_step.unstorable [where storable = "storable_in sv", OF Some False 2(1)] by simp
      qed
    qed
  qed
qed

text \<open>
  C35: with a working file system the run store is a record map. Over every sequence of calls the
  answers and the durable records are those of a partial map from ids to records: preparing never
  replaces a record, finalizing closes a record once, with the result it was given, and anything
  else that is refused changes nothing. Marking a run as running writes whatever the record's state is.
\<close>

theorem store_refines_record_map:
  assumes laws: "directory_laws sv" "record_codec sv" "reliable sv" "sidecar_laws sv" and "settled sv s"
    and "list_all (\<lambda>c. case c of Prepare hdr d \<Rightarrow> sv_instance sv (PreparedRecord hdr d) | _ \<Rightarrow> True) cs"
    and "perform_all uuid5 sv cs s = (as, t)"
  shows "settled sv t \<and>
    record_map_trace uuid5 (startable_in sv) (storable_in sv) (record_at sv s) cs as (record_at sv t)"
  using assms(5-)
proof (induction cs arbitrary: s as)
  case Nil
  then show ?case by (simp add: record_map_trace.no_call)
next
  case (Cons c cs)
  obtain a u where u: "perform uuid5 sv c s = (a, u)" by (cases "perform uuid5 sv c s")
  obtain bs where bs: "perform_all uuid5 sv cs u = (bs, t)" "as = a # bs"
    using Cons.prems(3) u by (auto split: prod.splits)
  have "settled sv u \<and> record_map_step uuid5 (startable_in sv) (storable_in sv) (record_at sv s) c a (record_at sv u)"
  proof (cases c)
    case (Prepare hdr d)
    then show ?thesis using prepare_refines [OF laws(1-3) Cons.prems(1), of hdr d uuid5 a u] Cons.prems(2) u by simp
  next
    case (MarkRunning run process)
    then show ?thesis using mark_running_refines [OF laws(1-3) Cons.prems(1)] u by blast
  next
    case (Finalize run r)
    then show ?thesis using finalize_refines [OF laws Cons.prems(1)] u by blast
  qed
  then show ?case
    using Cons.IH [OF _ _ bs(1)] Cons.prems(2) record_map_trace.next_call [of uuid5 "startable_in sv" "storable_in sv"]
    unfolding bs(2) by fastforce
qed

section \<open>A directory service\<close>

text \<open>
  Directories as a manifest and a map of sidecars, for two record instances: the properties'
  hypotheses hold of it.
\<close>

type_synonym sample_dir = "json option \<times> (string \<Rightarrow> (bytes \<times> bytes) option)"

definition sample_missing :: store_exn where
  "sample_missing = StoreExn DirectoryError ''DocumentDirectoryError'' (Some 2) ''no manifest'' None"

definition sample_read_child :: "string \<Rightarrow> int \<Rightarrow> int \<Rightarrow> string \<Rightarrow> sample_dir \<Rightarrow> (RegularChildFailureReason \<times> store_exn, bytes) result" where
  "sample_read_child n limit expected digest d =
     (case snd d n of
        None \<Rightarrow> Inl (MISSING, sample_missing)
      | Some (h, t) \<Rightarrow> if int (length (h @ t)) = expected \<and> expected \<le> limit then Inr (h @ t) else Inl (MISMATCH, sample_missing))"

definition sample_verify :: "string \<Rightarrow> string \<Rightarrow> int \<Rightarrow> int \<Rightarrow> sample_dir \<Rightarrow> sidecar_fault option" where
  "sample_verify n digest head_length tail_length d =
     (case snd d n of
        None \<Rightarrow> Some (Unverified MISSING sample_missing)
      | Some (h, t) \<Rightarrow>
          if int (length h) = head_length \<and> int (length t) = tail_length then None else Some (Unverified MISMATCH sample_missing))"

definition sample_store :: "RunRecord \<Rightarrow> RunRecord \<Rightarrow> sample_dir services" where
  "sample_store p f =
     \<lparr>sv_empty = (None, \<lambda>_. None),
      sv_read_manifest = (\<lambda>d. case fst d of None \<Rightarrow> Inl sample_missing | Some j \<Rightarrow> Inr j),
      sv_publish = (\<lambda>j d. (None, (Some j, snd d))),
      sv_write_sidecar = (\<lambda>n h t d.
        (Inr \<lparr>ss_head_length = int (length h), ss_tail_length = int (length t), ss_sidecar_hash = ''''\<rparr>,
         (fst d, (snd d)(n \<mapsto> (h, t))))),
      sv_verify_sidecar = sample_verify,
      sv_read_child = sample_read_child,
      sv_dump = (\<lambda>r. JInt (if r = p then 0 else 1)),
      sv_validate = (\<lambda>j. Some (if j = JInt 0 then p else f)),
      sv_instance = (\<lambda>r. r = p \<or> r = f),
      sv_text_repr = id\<rparr>"

lemma sample_store_laws:
  "directory_laws (sample_store p f)" "record_codec (sample_store p f)" "reliable (sample_store p f)"
  "sidecar_laws (sample_store p f)"
proof -
  show "directory_laws (sample_store p f)"
    by (simp add: directory_laws_def sample_store_def sample_missing_def is_directory_error_def)
  show "record_codec (sample_store p f)"
    by (simp add: record_codec_def sample_store_def parse_record_def header_schema_version_def validated_def)
  show "reliable (sample_store p f)"
    by (simp add: reliable_def sample_store_def)
  show "sidecar_laws (sample_store p f)"
    by (auto simp: sidecar_laws_def sidecar_holds_def sample_store_def sample_verify_def sample_read_child_def
        split: option.splits if_splits)
qed

definition sample_instant :: datetime where
  "sample_instant = \<lparr>year = 2024, month = 1, day = 1, hour = 0, minute = 0, second = 0, microsecond = 0, utcoffset = Some 0\<rparr>"

definition sample_header :: RunRecordHeader where
  "sample_header =
     \<lparr>hd_schema_version = 2, hd_executor_identity = \<lparr>doc_schema = ''e'', doc_schema_version = 1, doc_payload = JObj []\<rparr>,
      hd_executor_config_identity = \<lparr>doc_schema = ''c'', doc_schema_version = 1, doc_payload = JObj []\<rparr>,
      hd_prepared_at = sample_instant\<rparr>"

definition sample_execution_id :: ExecutionId where
  "sample_execution_id = \<lparr>eid_job_id = 1, eid_attempt_id = 2\<rparr>"

definition sample_declaration :: RunDeclaration where
  "sample_declaration =
     \<lparr>dec_execution_id = sample_execution_id, dec_target = TrustedCommandTargetRecord (replicate 64 (CHR ''0'')),
      dec_env = \<lparr>egr_kind = EnvGrantKind.NONE, egr_var_names = [], egr_excluded_var_names = [],
        egr_canonical_values_sha256 = replicate 64 (CHR ''0'')\<rparr>,
      dec_budgets = Budgets_unbudgeted,
      dec_workspace = WorkingDirectoryGrantRecord_scratch\<rparr>"

definition sample_result :: ExecutionResult where
  "sample_result =
     \<lparr>res_execution_id = sample_execution_id, res_outcome = ExitedOutcome 0,
      res_attribution = \<lparr>at_owner = FailureOwner.NONE, at_detail = None\<rparr>, res_protocol_outputs = [],
      res_payload_outputs =
        \<lparr>po_stdout = \<lparr>rp_head = [104, 105], rp_tail = [10], rp_produced_bytes = 5, rp_dropped_bytes = 2\<rparr>,
         po_stderr = \<lparr>rp_head = [], rp_tail = [], rp_produced_bytes = 0, rp_dropped_bytes = 0\<rparr>\<rparr>,
      res_measurements = \<lparr>ms_started_at = sample_instant, ms_finished_at = sample_instant, ms_duration_ns = 1,
        ms_teardown_duration_ns = 1, ms_input_bytes = 0, ms_protocol_bytes_received = 0\<rparr>\<rparr>"

definition sample_prepared :: RunRecord where
  "sample_prepared = PreparedRecord sample_header sample_declaration"

definition sample_summary :: "RetainedPayloadStream \<Rightarrow> SidecarSummary" where
  "sample_summary stream = \<lparr>ss_head_length = int (length (rp_head stream)), ss_tail_length = int (length (rp_tail stream)),
     ss_sidecar_hash = ''''\<rparr>"

definition sample_finalized :: RunRecord where
  "sample_finalized =
     projr (finalized_record sample_prepared sample_result (sample_summary (po_stdout (res_payload_outputs sample_result)))
       (sample_summary (po_stderr (res_payload_outputs sample_result))))"

definition sample_uuid5 :: "uuid \<Rightarrow> bytes \<Rightarrow> uuid" where
  "sample_uuid5 ns name = ns"

abbreviation sample_sv :: "sample_dir services" where
  "sample_sv \<equiv> sample_store sample_prepared sample_finalized"

definition sample_root :: "json option \<Rightarrow> store_exn option list \<Rightarrow> sample_dir run_root" where
  "sample_root m faults =
     \<lparr>rt_entries = (\<lambda>i. case m of None \<Rightarrow> None
        | Some j \<Rightarrow> if i = RECORD_ID_NAMESPACE then Some (Directory (Some j, \<lambda>_. None)) else None),
      rt_faults = faults\<rparr>"

lemma sample_declared [simp]: "declared_id sample_uuid5 sample_declaration = RECORD_ID_NAMESPACE"
  by (simp add: declared_id_def record_reference_for_job_def sample_uuid5_def)

lemma sample_record_at [simp]:
  "record_at sample_sv (sample_root (Some (JInt 1)) faults) RECORD_ID_NAMESPACE = Some sample_finalized"
  by (simp add: record_at_def record_in_def sample_root_def sample_store_def parse_record_def header_schema_version_def
      validated_def)

lemma sample_root_faults [simp]: "rt_faults (sample_root m faults) = faults"
  by (simp add: sample_root_def)

lemma sample_instance [simp]: "sv_instance sample_sv (PreparedRecord sample_header sample_declaration)"
  by (simp add: sample_store_def sample_prepared_def)

theorem failed_read_destroys_record_witness:
  "\<exists>t. prepare sample_uuid5 sample_sv sample_header sample_declaration
        (sample_root (Some (JInt 1)) [None, Some sample_missing]) =
      (Inr (prepared_run sample_uuid5 sample_header sample_declaration), t) \<and>
    record_at sample_sv t (declared_id sample_uuid5 sample_declaration) =
      Some (PreparedRecord sample_header sample_declaration)"
  by (rule failed_read_destroys_record [OF sample_store_laws(1-3), where e = sample_missing and r = sample_finalized])
    (simp_all add: sample_missing_def is_directory_error_def)

theorem concurrent_preparations_both_succeed_witness:
  "\<exists>s1 s2 s3 s4. allocate sample_sv 1 (sample_root None []) = (Inr (), s1) \<and> allocate sample_sv 1 s1 = (Inr (), s2) \<and>
    publish sample_sv 1 sample_finalized s2 = (Inr (), s3) \<and> publish sample_sv 1 sample_prepared s3 = (Inr (), s4) \<and>
    record_at sample_sv s4 1 = Some sample_prepared"
  by (rule concurrent_preparations_both_succeed [OF sample_store_laws(1-3)])
    (simp_all add: sample_root_def sample_store_def)

definition sample_run :: FinalizableRun where
  "sample_run = prepared_run sample_uuid5 sample_header sample_declaration"

lemma sample_final:
  "finalized_record sample_prepared sample_result
     \<lparr>ss_head_length = 2, ss_tail_length = 1, ss_sidecar_hash = ''''\<rparr>
     \<lparr>ss_head_length = 0, ss_tail_length = 0, ss_sidecar_hash = ''''\<rparr> = Inr sample_finalized"
  by (simp add: sample_finalized_def finalized_record_def execution_result_record_def retained_stream_record_def
      RetainedPayloadStreamRecord_new_def ExecutionResultRecord_new_def protocol_output_count_matches_def
      sample_result_def sample_summary_def sample_prepared_def sample_declaration_def result_simps)

lemma sample_open:
  "record_at sample_sv (sample_root (Some (JInt 0)) []) RECORD_ID_NAMESPACE = Some sample_prepared"
  "rt_entries (sample_root (Some (JInt 0)) []) RECORD_ID_NAMESPACE = Some (Directory (Some (JInt 0), \<lambda>_. None))"
  by (simp_all add: record_at_def record_in_def sample_root_def sample_store_def parse_record_def header_schema_version_def
      validated_def)

lemma sample_reference [simp]: "ref_record_id (fr_reference sample_run) = RECORD_ID_NAMESPACE"
  "ref_backend (fr_reference sample_run) = ''directory''"
  by (simp_all add: sample_run_def prepared_run_def record_reference_for_job_def sample_uuid5_def)

lemma sample_finalize:
  "fst (finalize sample_sv sample_run sample_result (sample_root (Some (JInt 0)) [])) =
     Inr (CompleteRecordReceipt sample_execution_id (fr_reference sample_run))"
proof -
  let ?s = "sample_root (Some (JInt 0)) []"
  have steps: "resolve sample_sv (fr_reference sample_run) ?s = (Inr RECORD_ID_NAMESPACE, ?s)"
    "load_record sample_sv RECORD_ID_NAMESPACE ?s = (Inr sample_prepared, ?s)"
    using resolve_ok [of ?s "fr_reference sample_run"] load_record_ok [of ?s] sample_open by simp_all
  have lengths: "length (rp_head (po_stdout (res_payload_outputs sample_result))) = 2"
    "length (rp_tail (po_stdout (res_payload_outputs sample_result))) = 1"
    "rp_head (po_stderr (res_payload_outputs sample_result)) = []"
    "rp_tail (po_stderr (res_payload_outputs sample_result)) = []" by (simp_all add: sample_result_def)
  have "run_state sample_prepared \<noteq> RecordState.FINALIZED" by (simp add: sample_prepared_def)
  then have "fst (publish_finalized sample_sv sample_run sample_result ?s) = Inr ()"
    using steps lengths sample_open(2)
    by (simp add: publish_finalized_def bind_op_def write_sidecar_def publish_def with_directory_def or_invalid_def
        constructed_def result_simps sample_final sample_store_def)
  then show ?thesis
    using finalize_complete [of sample_sv sample_run sample_result ?s]
    by (cases "publish_finalized sample_sv sample_run sample_result ?s")
      (simp add: sample_run_def prepared_run_def sample_declaration_def)
qed

theorem finalize_receipt_truthful_witness:
  "\<exists>t old f. finalize sample_sv sample_run sample_result (sample_root (Some (JInt 0)) []) =
      (Inr (CompleteRecordReceipt sample_execution_id (fr_reference sample_run)), t) \<and>
    run_state old \<noteq> RecordState.FINALIZED \<and> reports f old sample_result \<and>
    record_at sample_sv t (ref_record_id (fr_reference sample_run)) = Some f"
proof (cases "finalize sample_sv sample_run sample_result (sample_root (Some (JInt 0)) [])")
  case (Pair q t)
  with sample_finalize have "q = Inr (CompleteRecordReceipt sample_execution_id (fr_reference sample_run))" by simp
  with Pair finalize_receipt_truthful [OF sample_store_laws(1,2) [of sample_prepared sample_finalized],
      where run = sample_run and r = sample_result and s = "sample_root (Some (JInt 0)) []"]
  show ?thesis by auto
qed

theorem complete_receipt_reads_back_witness:
  "\<exists>t f. fst (finalize sample_sv sample_run sample_result (sample_root (Some (JInt 0)) [])) =
      Inr (CompleteRecordReceipt sample_execution_id (fr_reference sample_run)) \<and>
    load sample_sv (fr_reference sample_run) t = (Inr f, t) \<and>
    read_artifact sample_sv (fr_reference sample_run) (oas_stdout (run_outputs f)) 3 t = (Inr [104, 105, 10], t)"
proof (cases "finalize sample_sv sample_run sample_result (sample_root (Some (JInt 0)) [])")
  case (Pair q t)
  with sample_finalize have q: "q = Inr (CompleteRecordReceipt sample_execution_id (fr_reference sample_run))" by simp
  from complete_receipt_reads_back [OF sample_store_laws(1,2,4) _ Pair [unfolded q]]
  obtain f where "load sample_sv (fr_reference sample_run) t = (Inr f, t)"
    "\<forall>limit. int (length (stream_bytes (po_stdout (res_payload_outputs sample_result)))) \<le> limit \<longrightarrow>
      read_artifact sample_sv (fr_reference sample_run) (oas_stdout (run_outputs f)) limit t =
        (Inr (stream_bytes (po_stdout (res_payload_outputs sample_result))), t)" by auto
  then show ?thesis using sample_finalize by (fastforce simp: sample_result_def)
qed

theorem store_refines_record_map_witness:
  "\<exists>as t. perform_all sample_uuid5 sample_sv
      [Prepare sample_header sample_declaration, Prepare sample_header sample_declaration, Finalize sample_run sample_result]
      (sample_root None []) = (as, t) \<and> settled sample_sv t \<and>
    record_map_trace sample_uuid5 (startable_in sample_sv) (storable_in sample_sv) (record_at sample_sv (sample_root None []))
      [Prepare sample_header sample_declaration, Prepare sample_header sample_declaration, Finalize sample_run sample_result]
      as (record_at sample_sv t)"
proof (cases "perform_all sample_uuid5 sample_sv
      [Prepare sample_header sample_declaration, Prepare sample_header sample_declaration, Finalize sample_run sample_result]
      (sample_root None [])")
  case (Pair as t)
  have "settled sample_sv (sample_root None [])"
    by (simp add: settled_def sample_root_def record_at_def record_in_def dom_def)
  from store_refines_record_map [OF sample_store_laws(1-4) this _ Pair] Pair show ?thesis by simp
qed

end
