(* ===== verification/Engine.thy ===== *)
theory Engine
  imports EngineParts Store
begin

text \<open>
  The process engine of \<^verbatim>\<open>execution/engine.py\<close>: the life of one attempt, from the declaration to the
  receipt. The state is the run store, the transports object and a log of everything done to the
  operating system; \<open>world\<close> is what the operating system answers, \<open>engine_services\<close> the functions of
  other packages. An operation that never returns ends in \<open>Stuck\<close>, which no handler sees.
\<close>

section \<open>The state\<close>

datatype engine_exn = Raised py_exn | StoreRaised store_exn | ThreadNotStarted | OtherRaised | Stuck

datatype pipe_end =
    StdinRead | StdinWrite | StdoutRead | StdoutWrite | StderrRead | StderrWrite | StatusRead | StatusWrite
  | ReleaseRead | ReleaseWrite | ProtocolRead | ProtocolWrite | ForwardRead | ForwardWrite

datatype worker_name = StdinFeeder | OutputDrain | ProtocolReader

fun transport_name :: "worker_name \<Rightarrow> string" where
  "transport_name StdinFeeder = ''stdin''"
| "transport_name OutputDrain = ''output''"
| "transport_name ProtocolReader = ''protocol''"

datatype event =
    Opened pipe_end | Closed pipe_end
  | Launched string "string list" string | Signalled signal_sent | Reaped
  | WorkerStarted worker_name | WorkerJoined worker_name | ReleaseWritten
  | ScratchMade | ScratchRemoved
  | PrepareCalled | MarkRunningCalled | FinalizeCalled

record ProtocolTransport =
  pt_read :: pipe_end
  pt_forward_read :: "pipe_end option"
  pt_forward_write :: "pipe_end option"

record Transports =
  tp_stdin_write :: "pipe_end option"
  tp_stdout_read :: pipe_end
  tp_stderr_read :: pipe_end
  tp_protocol :: "ProtocolTransport option"
  tp_status_read :: pipe_end
  tp_release_read :: pipe_end
  tp_release_write :: pipe_end
  tp_threads :: "worker_name list"

record 's engine =
  en_store :: 's
  en_log :: "event list"
  en_transports :: Transports

text \<open>The methods of the \<^verbatim>\<open>RunStore\<close> protocol the engine calls.\<close>

record 's store_ops =
  op_prepare :: "RunRecordHeader \<Rightarrow> RunDeclaration \<Rightarrow> ('s, store_failure, FinalizableRun) op"
  op_mark_running :: "FinalizableRun \<Rightarrow> ProcessRecord \<Rightarrow> ('s, store_failure, FinalizableRun) op"
  op_finalize :: "FinalizableRun \<Rightarrow> ExecutionResult \<Rightarrow> ('s, store_failure, RecordReceipt) op"

datatype launch_obs = LaunchedAs int | LaunchRaisesOsError "int option" | LaunchRaisesOther

text \<open>
  What the operating system answers: the \<^verbatim>\<open>os.pipe\<close> that fails, the scratch directory, the launch,
  the clocks, the loops' answers, the threads that do not start or whose selector cannot be made or
  set up, and whether the protocol reader ends before its stream does.
\<close>

record world =
  wo_pipe_failure :: "nat option"
  wo_scratch :: "(int, string) result"
  wo_launch :: launch_obs
  wo_prepared_at :: datetime
  wo_moment :: datetime
  wo_started_at :: datetime
  wo_finished_at :: datetime
  wo_started_ns :: int
  wo_finished_ns :: int
  wo_status_ns :: int
  wo_status_selector :: "int option"
  wo_status :: "status_obs list"
  wo_thread_starts :: "worker_name \<Rightarrow> bool"
  wo_selector_fails :: "worker_name \<Rightarrow> bool"
  wo_register_fails :: "worker_name \<Rightarrow> bool"
  wo_feed :: "feed_ready list"
  wo_pump :: "pump_key list list"
  wo_reader_early :: bool
  wo_polls :: "poll_obs list"
  wo_teardown :: teardown_obs
  wo_returncode :: int
  wo_cancelled_before :: bool

record engine_services =
  es_platform :: string
  es_canonical_identity :: "identity_document \<Rightarrow> bytes"
  es_resolve :: "posix_path \<Rightarrow> posix_path"
  es_is_dir :: "posix_path \<Rightarrow> bool"
  es_digest :: "ExecutionTarget \<Rightarrow> string"
  es_prepare :: "ExecutionTarget \<Rightarrow> (py_exn, PreparedPythonProcess) result"
  es_which :: "string \<Rightarrow> string \<Rightarrow> string option"
  es_uuid5 :: "uuid \<Rightarrow> bytes \<Rightarrow> uuid"
  es_snapshot :: ExecutorSourceSnapshot
  es_sorted_values :: "string list \<Rightarrow> string list"
  es_json_hash :: "json \<Rightarrow> string"
  es_loads :: "bytes \<Rightarrow> json option"
  es_codec :: frame_codec

type_synonym ('s, 'a) engine_op = "('s engine, engine_exn, 'a) op"

definition log_event :: "event \<Rightarrow> ('s, unit) engine_op" where
  "log_event e s = (Inr (), s\<lparr>en_log := en_log s @ [e]\<rparr>)"

definition log_all :: "event list \<Rightarrow> ('s, unit) engine_op" where
  "log_all es s = (Inr (), s\<lparr>en_log := en_log s @ es\<rparr>)"

definition transports :: "('s, Transports) engine_op" where
  "transports s = (Inr (en_transports s), s)"

definition set_transports :: "Transports \<Rightarrow> ('s, unit) engine_op" where
  "set_transports t s = (Inr (), s\<lparr>en_transports := t\<rparr>)"

text \<open>A call of the store, its classified failures being \<^verbatim>\<open>ExecutorFailure\<close>.\<close>

fun store_exception :: "store_failure \<Rightarrow> engine_exn" where
  "store_exception (Classified m code e) = Raised (ExecutorFailure m code)"
| "store_exception (Unclassified e) = StoreRaised e"

definition on_store :: "event \<Rightarrow> ('s, store_failure, 'a) op \<Rightarrow> ('s, 'a) engine_op" where
  "on_store e m s =
     (case m (en_store s) of (r, t) \<Rightarrow>
        ((case r of Inl f \<Rightarrow> Inl (store_exception f) | Inr x \<Rightarrow> Inr x), s\<lparr>en_store := t, en_log := en_log s @ [e]\<rparr>))"

text \<open>\<^verbatim>\<open>try: m finally: f\<close>; an \<open>m\<close> that never returns has no \<^verbatim>\<open>finally\<close>.\<close>

definition attempt_op :: "('s, 'a) engine_op \<Rightarrow> ('s, (engine_exn, 'a) result) engine_op" where
  "attempt_op m s = (case m s of (Inl Stuck, t) \<Rightarrow> (Inl Stuck, t) | (r, t) \<Rightarrow> (Inr r, t))"

definition try_finally :: "('s, 'a) engine_op \<Rightarrow> ('s, unit) engine_op \<Rightarrow> ('s, 'a) engine_op" where
  "try_finally m f = bind_op (attempt_op m) (\<lambda>r. bind_op f (\<lambda>_. lift_op r))"

definition lift_py :: "(py_exn, 'a) result \<Rightarrow> ('s, 'a) engine_op" where
  "lift_py r = (case r of Inl e \<Rightarrow> raise_op (Raised e) | Inr x \<Rightarrow> return_op x)"

definition lift_loop :: "'a loop \<Rightarrow> ('s, 'a) engine_op" where
  "lift_loop l = (case l of Waiting \<Rightarrow> raise_op Stuck | Done x \<Rightarrow> return_op x)"

section \<open>Descriptors and transports\<close>

definition os_pipe :: "world \<Rightarrow> nat \<Rightarrow> pipe_end \<Rightarrow> pipe_end \<Rightarrow> ('s, unit) engine_op" where
  "os_pipe w k r wr =
     (if wo_pipe_failure w = Some k then raise_op (Raised (OSError (Some 24)))
      else log_all [Opened r, Opened wr])"

definition close_descriptors :: "pipe_end list \<Rightarrow> ('s, unit) engine_op" where
  "close_descriptors ds = log_all (map Closed ds)"

definition take_stdin :: "('s, pipe_end option) engine_op" where
  "take_stdin =
     bind_op transports (\<lambda>t.
       case tp_stdin_write t of
         None \<Rightarrow> raise_op (Raised (ExecutorFailure ''the stdin transport was already taken''
           ExecutorFailureCode.STDIN_TRANSPORT_TAKEN))
       | Some d \<Rightarrow> bind_op (set_transports (t\<lparr>tp_stdin_write := None\<rparr>)) (\<lambda>_. return_op (Some d)))"

definition take_protocol_reader :: "('s, pipe_end option) engine_op" where
  "take_protocol_reader =
     bind_op transports (\<lambda>t.
       case tp_protocol t of
         Some p \<Rightarrow>
           (case pt_forward_read p of
              Some d \<Rightarrow> bind_op (set_transports (t\<lparr>tp_protocol := Some (p\<lparr>pt_forward_read := None\<rparr>)\<rparr>)) (\<lambda>_. return_op (Some d))
            | None \<Rightarrow> raise_op (Raised (ExecutorFailure ''the protocol transport is absent or was already taken''
                ExecutorFailureCode.PROTOCOL_TRANSPORT_TAKEN)))
       | None \<Rightarrow> raise_op (Raised (ExecutorFailure ''the protocol transport is absent or was already taken''
           ExecutorFailureCode.PROTOCOL_TRANSPORT_TAKEN)))"

definition take_protocol_forward_write :: "('s, pipe_end option) engine_op" where
  "take_protocol_forward_write =
     bind_op transports (\<lambda>t.
       case tp_protocol t of
         None \<Rightarrow> return_op None
       | Some p \<Rightarrow> bind_op (set_transports (t\<lparr>tp_protocol := Some (p\<lparr>pt_forward_write := None\<rparr>)\<rparr>)) (\<lambda>_.
           return_op (pt_forward_write p)))"

definition adopt :: "worker_name \<Rightarrow> ('s, unit) engine_op" where
  "adopt worker = bind_op transports (\<lambda>t. set_transports (t\<lparr>tp_threads := tp_threads t @ [worker]\<rparr>))"

definition started_thread :: "world \<Rightarrow> worker_name \<Rightarrow> ('s, unit) engine_op" where
  "started_thread w worker =
     (if wo_thread_starts w worker then log_event (WorkerStarted worker) else raise_op ThreadNotStarted)"

definition adopt_started :: "world \<Rightarrow> worker_name \<Rightarrow> ('s, pipe_end option) engine_op \<Rightarrow> ('s, unit) engine_op" where
  "adopt_started w worker take_descriptor =
     bind_op take_descriptor (\<lambda>d.
       catch_op (bind_op (started_thread w worker) (\<lambda>_. adopt worker))
         (\<lambda>e. if e = ThreadNotStarted
           then bind_op (close_descriptors (case d of Some x \<Rightarrow> [x] | None \<Rightarrow> [])) (\<lambda>_. raise_op e)
           else raise_op e))"

definition start_transports :: "world \<Rightarrow> ResolvedTarget \<Rightarrow> ('s, unit) engine_op" where
  "start_transports w target =
     bind_op (adopt_started w StdinFeeder take_stdin) (\<lambda>_.
     bind_op (adopt_started w OutputDrain take_protocol_forward_write) (\<lambda>_.
     bind_op transports (\<lambda>t.
       if tp_protocol t \<noteq> None \<and> tg_request_id_sha256 target \<noteq> None
       then adopt_started w ProtocolReader take_protocol_reader
       else return_op ())))"

section \<open>The transport workers\<close>

text \<open>
  The drain's final state, or that it still runs. A selector that cannot be made is an exception
  before the drain's \<^verbatim>\<open>try\<close>, a descriptor that cannot be registered one inside it.
\<close>

definition run_pump :: "world \<Rightarrow> OutputPump \<Rightarrow> (bool \<times> OutputPump) loop" where
  "run_pump w p =
     (if wo_selector_fails w OutputDrain \<or> wo_register_fails w OutputDrain then Done (False, p)
      else case pump (wo_pump w) p of Waiting \<Rightarrow> Waiting | Done p' \<Rightarrow> Done (True, p'))"

text \<open>
  What each worker has come to when it is joined: the feeder swallows every error but that of making
  its selector; the protocol reader ends with its stream, which has no end while nobody has closed
  the forwarding pipe, or earlier when the stream is broken.
\<close>

definition worker_state :: "world \<Rightarrow> ResolvedTarget \<Rightarrow> OutputPump \<Rightarrow> worker_name \<Rightarrow> worker_end" where
  "worker_state w target p worker =
     (case worker of
        StdinFeeder \<Rightarrow>
          (if wo_selector_fails w StdinFeeder then EndedFailed
           else if wo_register_fails w StdinFeeder then EndedWell
           else case feed (tg_stdin_bytes target) 0 (wo_feed w) of Waiting \<Rightarrow> StillAlive | Done _ \<Rightarrow> EndedWell)
      | OutputDrain \<Rightarrow>
          (case run_pump w p of Waiting \<Rightarrow> StillAlive | Done (True, _) \<Rightarrow> EndedWell | Done (False, _) \<Rightarrow> EndedFailed)
      | ProtocolReader \<Rightarrow>
          (if wo_selector_fails w OutputDrain then StillAlive
           else case run_pump w p of
             Waiting \<Rightarrow> if wo_reader_early w then EndedWell else StillAlive
           | Done _ \<Rightarrow> EndedWell))"

definition drained :: "engine_services \<Rightarrow> ExecutorSelfBudgets \<Rightarrow> world \<Rightarrow> ResolvedTarget \<Rightarrow> OutputPump \<Rightarrow> DrainState" where
  "drained sv self_budgets w target p =
     (case run_pump w p of
        Waiting \<Rightarrow> pm_state p
      | Done (_, p') \<Rightarrow>
          (pm_state p')\<lparr>dr_protocol_result :=
             (case tg_request_id_sha256 target of
                Some digest \<Rightarrow>
                  if pm_forwards p then Some (read_protocol_stream (es_codec sv) (pm_forwarded p') digest self_budgets)
                  else None
              | None \<Rightarrow> None)\<rparr>)"

text \<open>The descriptor a worker closes when it ends.\<close>

definition worker_closes :: "world \<Rightarrow> Transports \<Rightarrow> worker_name \<Rightarrow> pipe_end list" where
  "worker_closes w t worker =
     (case worker of
        StdinFeeder \<Rightarrow> if wo_selector_fails w StdinFeeder then [] else [StdinWrite]
      | OutputDrain \<Rightarrow> if wo_selector_fails w OutputDrain \<or> tp_protocol t = None then [] else [ForwardWrite]
      | ProtocolReader \<Rightarrow> [ForwardRead])"

definition join_all :: "world \<Rightarrow> ExecutorSelfBudgets \<Rightarrow> ResolvedTarget \<Rightarrow> OutputPump \<Rightarrow> ('s, unit) engine_op" where
  "join_all w self_budgets target p =
     bind_op transports (\<lambda>t.
     bind_op (lift_loop (join_workers (duration_limit (join_time self_budgets))
       (map (\<lambda>worker. (transport_name worker, worker_state w target p worker)) (tp_threads t)))) lift_py)"

text \<open>
  \<^verbatim>\<open>close\<close>: the release lets the feeder and the drain end; joining the protocol reader never returns
  when the drain could not make its selector, since nobody closes the forwarding pipe.
\<close>

definition joined :: "world \<Rightarrow> worker_name \<Rightarrow> ('s, unit) engine_op" where
  "joined w worker =
     bind_op transports (\<lambda>t.
       if worker = ProtocolReader \<and> wo_selector_fails w OutputDrain then raise_op Stuck
       else log_all (map Closed (worker_closes w t worker) @ [WorkerJoined worker]))"

fun join_each :: "world \<Rightarrow> worker_name list \<Rightarrow> ('s, unit) engine_op" where
  "join_each w [] = return_op ()"
| "join_each w (worker # rest) = bind_op (joined w worker) (\<lambda>_. join_each w rest)"

definition present :: "'a option \<Rightarrow> 'a list" where
  "present x = (case x of None \<Rightarrow> [] | Some y \<Rightarrow> [y])"

definition held_ends :: "Transports \<Rightarrow> pipe_end list" where
  "held_ends t =
     present (tp_stdin_write t) @ [tp_stdout_read t, tp_stderr_read t, tp_status_read t, tp_release_read t, tp_release_write t] @
     (case tp_protocol t of
        None \<Rightarrow> []
      | Some p \<Rightarrow> pt_read p # present (pt_forward_read p) @ present (pt_forward_write p))"

definition close_transports :: "world \<Rightarrow> ('s, unit) engine_op" where
  "close_transports w =
     bind_op (log_event ReleaseWritten) (\<lambda>_.
     bind_op transports (\<lambda>t.
     bind_op (join_each w (tp_threads t)) (\<lambda>_.
       close_descriptors (held_ends t))))"

section \<open>Receipts and completions\<close>

definition degraded_from_failure ::
  "FinalizableRun \<Rightarrow> string \<Rightarrow> RecordingFailure list \<Rightarrow> ExecutorFailureCode \<Rightarrow> RecordReceipt" where
  "degraded_from_failure run operation prior_failures code =
     DegradedRecordReceipt (fr_execution_id run) (fr_reference run) (handle_durable_state run)
       (prior_failures @ [\<lparr>rf_operation = operation, rf_errno = None, rf_detail = None, rf_failure_code = Some code\<rparr>])"

definition merged_receipt :: "RecordingFailure list \<Rightarrow> RecordReceipt \<Rightarrow> RecordReceipt" where
  "merged_receipt prior_failures receipt =
     (if prior_failures = [] then receipt
      else DegradedRecordReceipt (receipt_execution_id receipt) (receipt_reference receipt)
        (the (receipt_latest_state receipt))
        (prior_failures @ (case receipt of DegradedRecordReceipt _ _ _ failures \<Rightarrow> failures | _ \<Rightarrow> [])))"

definition finalized_receipt ::
  "'s store_ops \<Rightarrow> FinalizableRun \<Rightarrow> ExecutionResult \<Rightarrow> RecordingFailure list \<Rightarrow> ('s, RecordReceipt) engine_op" where
  "finalized_receipt ops run r prior_failures =
     catch_op
       (bind_op (on_store FinalizeCalled (op_finalize ops run r)) (\<lambda>receipt.
          return_op (merged_receipt prior_failures receipt)))
       (\<lambda>e. case e of
          Raised (ExecutorFailure m code) \<Rightarrow> return_op (degraded_from_failure run ''finalize'' prior_failures code)
        | _ \<Rightarrow> raise_op e)"

definition execution_result ::
  "FinalizableRun \<Rightarrow> ExecutionOutcome \<Rightarrow> identity_document list \<Rightarrow> PayloadOutputs \<Rightarrow> ExecutionMeasurements \<Rightarrow>
     (py_exn, ExecutionResult) result" where
  "execution_result run outcome protocol_outputs payload_outputs measurements =
     bind_result (ExecutionMeasurements_new measurements) (\<lambda>ms.
       protocol_output_count_must_match_outcome
         \<lparr>res_execution_id = fr_execution_id run, res_outcome = outcome, res_attribution = attribute_outcome outcome,
          res_protocol_outputs = protocol_outputs, res_payload_outputs = payload_outputs, res_measurements = ms\<rparr>)"

definition completed_with ::
  "'s store_ops \<Rightarrow> FinalizableRun \<Rightarrow> RecordingFailure list \<Rightarrow> (py_exn, ExecutionResult) result \<Rightarrow>
     ('s, CompletedExecution) engine_op" where
  "completed_with ops run prior_failures built =
     bind_op (lift_py built) (\<lambda>r.
     bind_op (finalized_receipt ops run r prior_failures) (\<lambda>receipt.
       lift_py (CompletedExecution_new \<lparr>ce_result = r, ce_record_receipt = receipt\<rparr>)))"

definition finalize_pre_spawn :: "'s store_ops \<Rightarrow> world \<Rightarrow> FinalizableRun \<Rightarrow> ExecutionOutcome \<Rightarrow> ('s, CompletedExecution) engine_op" where
  "finalize_pre_spawn ops w prepared outcome =
     completed_with ops prepared []
       (execution_result prepared outcome [] empty_payload_outputs
         \<lparr>ms_started_at = wo_moment w, ms_finished_at = wo_moment w, ms_duration_ns = 0, ms_teardown_duration_ns = 0,
          ms_input_bytes = 0, ms_protocol_bytes_received = 0\<rparr>)"

definition complete ::
  "'s store_ops \<Rightarrow> world \<Rightarrow> FinalizableRun \<Rightarrow> ExecutionOutcome \<Rightarrow> identity_document list \<Rightarrow> PayloadOutputs \<Rightarrow> int \<Rightarrow> int \<Rightarrow> int \<Rightarrow>
     RecordingFailure list \<Rightarrow> ('s, CompletedExecution) engine_op" where
  "complete ops w run outcome protocol_outputs payload_outputs teardown_duration_ns n_input protocol_bytes_received
     recording_failures =
     completed_with ops run recording_failures
       (execution_result run outcome protocol_outputs payload_outputs
         \<lparr>ms_started_at = wo_started_at w, ms_finished_at = wo_finished_at w,
          ms_duration_ns = wo_finished_ns w - wo_started_ns w, ms_teardown_duration_ns = teardown_duration_ns,
          ms_input_bytes = n_input, ms_protocol_bytes_received = protocol_bytes_received\<rparr>)"

section \<open>One attempt\<close>

datatype AttemptResult =
    SetupFailed SetupFailure bool
  | ReachedPayload OutputPump "StopReason option" "FinalizableRun option" "RecordingFailure list"

fun leads_group :: "AttemptResult \<Rightarrow> bool" where
  "leads_group (SetupFailed _ leads) = leads"
| "leads_group (ReachedPayload _ _ _ _) = True"

definition mark_running_op ::
  "'s store_ops \<Rightarrow> world \<Rightarrow> FinalizableRun \<Rightarrow> int \<Rightarrow> ('s, FinalizableRun option \<times> RecordingFailure list) engine_op" where
  "mark_running_op ops w prepared pid =
     catch_op
       (bind_op (on_store MarkRunningCalled (op_mark_running ops prepared \<lparr>proc_pid = pid, proc_started_at = wo_started_at w\<rparr>))
         (\<lambda>running. return_op (Some running, [])))
       (\<lambda>e. case e of
          Raised (ExecutorFailure m code) \<Rightarrow>
            return_op (None, [\<lparr>rf_operation = ''mark_running'', rf_errno = None, rf_detail = None, rf_failure_code = Some code\<rparr>])
        | _ \<Rightarrow> raise_op e)"

definition setup_status :: "world \<Rightarrow> ExecutorSelfBudgets \<Rightarrow> ('s, bytes) engine_op" where
  "setup_status w self_budgets =
     (case wo_status_selector w of
        Some e \<Rightarrow> raise_op (Raised (OSError (Some e)))
      | None \<Rightarrow>
          bind_op (lift_loop (read_setup_status (duration_limit (startup_time self_budgets)) (wo_status_ns w) (wo_status w))) (\<lambda>r.
            case r of
              StatusBytes bs \<Rightarrow> return_op bs
            | BootstrapTimeout \<Rightarrow>
                raise_op (Raised (ExecutorFailure
                  ''the execution bootstrap did not reach the payload within the startup budget''
                  ExecutorFailureCode.BOOTSTRAP_TIMEOUT))))"

definition observe_attempt ::
  "engine_services \<Rightarrow> 's store_ops \<Rightarrow> ExecutorSelfBudgets \<Rightarrow> world \<Rightarrow> ExecutionJob \<Rightarrow> ResolvedTarget \<Rightarrow> FinalizableRun \<Rightarrow>
     int \<Rightarrow> bool \<Rightarrow> ('s, AttemptResult) engine_op" where
  "observe_attempt sv ops self_budgets w job target prepared pid has_token =
     bind_op (setup_status w self_budgets) (\<lambda>line.
       case parse_setup_status (es_loads sv) line of
         Some setup_failure \<Rightarrow> return_op (SetupFailed setup_failure (sf_stage setup_failure \<noteq> SETUP_STAGE_SESSION))
       | None \<Rightarrow>
           bind_op transports (\<lambda>t.
           bind_op (start_transports w target) (\<lambda>_.
           bind_op (mark_running_op ops w prepared pid) (\<lambda>(running, recording_failures).
           bind_op (lift_loop (await_child (deadline_ns job (wo_started_ns w)) (fails_on_overflow job) has_token (wo_polls w))) (\<lambda>stop.
             return_op (ReachedPayload
               (fresh_pump (payload_output (job_budgets job)) (tp_protocol t \<noteq> None)) stop running
               recording_failures))))))"

definition tear_down_op :: "world \<Rightarrow> ExecutorSelfBudgets \<Rightarrow> bool \<Rightarrow> ('s, int) engine_op" where
  "tear_down_op w self_budgets leads =
     bind_op (lift_loop (tear_down (duration_limit (termination_time self_budgets)) leads (wo_teardown w))) (\<lambda>(signals, ns).
     bind_op (log_all (map Signalled signals @ [Reaped])) (\<lambda>_. return_op ns))"

definition conclude ::
  "engine_services \<Rightarrow> 's store_ops \<Rightarrow> ExecutorSelfBudgets \<Rightarrow> world \<Rightarrow> ResolvedTarget \<Rightarrow> FinalizableRun \<Rightarrow> int \<Rightarrow>
     AttemptResult \<Rightarrow> ('s, CompletedExecution) engine_op" where
  "conclude sv ops self_budgets w target prepared teardown_ns observed =
     (case observed of
        SetupFailed setup_failure _ \<Rightarrow>
          complete ops w prepared (spawn_outcome setup_failure (tg_executable target)) [] empty_payload_outputs
            teardown_ns 0 0 []
      | ReachedPayload p stop running recording_failures \<Rightarrow>
          (let state = drained sv self_budgets w target p; protocol = dr_protocol_result state
           in bind_op (lift_py (payload_snapshot (dr_retention state))) (\<lambda>outputs.
                complete ops w (case running of None \<Rightarrow> prepared | Some run \<Rightarrow> run)
                  (outcome_of (wo_returncode w) state stop protocol)
                  (case protocol of None \<Rightarrow> [] | Some r \<Rightarrow> psr_outputs r) outputs teardown_ns
                  (int (length (tg_stdin_bytes target)))
                  (case protocol of None \<Rightarrow> 0 | Some r \<Rightarrow> psr_bytes_received r) recording_failures)))"

definition no_pump :: OutputPump where
  "no_pump = \<lparr>pm_state = \<lparr>dr_retention = PayloadRetention_for_budget UnbudgetedLimit, dr_overflow = False,
       dr_protocol_result = None\<rparr>, pm_streams = [], pm_protocol_live = False, pm_forwards = False, pm_forwarded = []\<rparr>"

fun attempt_pump :: "AttemptResult \<Rightarrow> OutputPump" where
  "attempt_pump (SetupFailed _ _) = no_pump"
| "attempt_pump (ReachedPayload p _ _ _) = p"

definition carry_attempt ::
  "engine_services \<Rightarrow> 's store_ops \<Rightarrow> ExecutorSelfBudgets \<Rightarrow> world \<Rightarrow> ExecutionJob \<Rightarrow> ResolvedTarget \<Rightarrow> FinalizableRun \<Rightarrow>
     int \<Rightarrow> bool \<Rightarrow> ('s, CompletedExecution) engine_op" where
  "carry_attempt sv ops self_budgets w job target prepared pid has_token =
     bind_op (attempt_op (observe_attempt sv ops self_budgets w job target prepared pid has_token)) (\<lambda>r.
     bind_op (tear_down_op w self_budgets (case r of Inl _ \<Rightarrow> True | Inr observed \<Rightarrow> leads_group observed)) (\<lambda>teardown_ns.
     bind_op (lift_op r) (\<lambda>observed.
     bind_op (join_all w self_budgets target (attempt_pump observed)) (\<lambda>_.
       conclude sv ops self_budgets w target prepared teardown_ns observed))))"

fun pipes :: "world \<Rightarrow> nat \<Rightarrow> (pipe_end \<times> pipe_end) list \<Rightarrow> ('s, unit) engine_op" where
  "pipes w k [] = return_op ()"
| "pipes w k ((r, wr) # rest) = bind_op (os_pipe w k r wr) (\<lambda>_. pipes w (Suc k) rest)"

definition attempt_pipes :: "bool \<Rightarrow> (pipe_end \<times> pipe_end) list" where
  "attempt_pipes wants_protocol =
     [(StdinRead, StdinWrite), (StdoutRead, StdoutWrite), (StderrRead, StderrWrite), (StatusRead, StatusWrite),
      (ReleaseRead, ReleaseWrite)] @
     (if wants_protocol then [(ProtocolRead, ProtocolWrite), (ForwardRead, ForwardWrite)] else [])"

definition child_ends :: "bool \<Rightarrow> pipe_end list" where
  "child_ends wants_protocol =
     [StdinRead, StdoutWrite, StderrWrite, StatusWrite] @ (if wants_protocol then [ProtocolWrite] else [])"

definition fresh_transports :: "bool \<Rightarrow> Transports" where
  "fresh_transports wants_protocol =
     \<lparr>tp_stdin_write = Some StdinWrite, tp_stdout_read = StdoutRead, tp_stderr_read = StderrRead,
      tp_protocol = (if wants_protocol
        then Some \<lparr>pt_read = ProtocolRead, pt_forward_read = Some ForwardRead, pt_forward_write = Some ForwardWrite\<rparr>
        else None),
      tp_status_read = StatusRead, tp_release_read = ReleaseRead, tp_release_write = ReleaseWrite, tp_threads = []\<rparr>"

definition run_spawned ::
  "engine_services \<Rightarrow> 's store_ops \<Rightarrow> ExecutorSelfBudgets \<Rightarrow> world \<Rightarrow> ExecutionJob \<Rightarrow> ResolvedTarget \<Rightarrow> FinalizableRun \<Rightarrow>
     string \<Rightarrow> string \<Rightarrow> bool \<Rightarrow> ('s, CompletedExecution) engine_op" where
  "run_spawned sv ops self_budgets w job target prepared program scratch has_token =
     bind_op (pipes w 0 (attempt_pipes (tg_wants_protocol target))) (\<lambda>_.
     bind_op (set_transports (fresh_transports (tg_wants_protocol target))) (\<lambda>_.
       case wo_launch w of
         LaunchRaisesOsError e \<Rightarrow>
           bind_op (close_descriptors (child_ends (tg_wants_protocol target))) (\<lambda>_.
           bind_op (close_transports w) (\<lambda>_.
             raise_op (Raised (ExecutorFailure ''could not start the execution bootstrap''
               ExecutorFailureCode.BOOTSTRAP_START_FAILED))))
       | LaunchRaisesOther \<Rightarrow> raise_op OtherRaised
       | LaunchedAs pid \<Rightarrow>
           bind_op (log_event (Launched program (tg_argv target) scratch)) (\<lambda>_.
           bind_op (close_descriptors (child_ends (tg_wants_protocol target))) (\<lambda>_.
             try_finally (carry_attempt sv ops self_budgets w job target prepared pid has_token) (close_transports w)))))"

definition working_directory ::
  "engine_services \<Rightarrow> world \<Rightarrow> WorkingDirectoryGrant \<Rightarrow> (string \<Rightarrow> ('s, 'a) engine_op) \<Rightarrow> ('s, 'a) engine_op" where
  "working_directory sv w grant body =
     (case wd_kind grant of
        WorkingDirectoryGrantKind.SCRATCH \<Rightarrow>
          (case wo_scratch w of
             Inl e \<Rightarrow> raise_op (Raised (OSError (Some e)))
           | Inr directory \<Rightarrow>
               bind_op (log_event ScratchMade) (\<lambda>_. try_finally (body directory) (log_event ScratchRemoved)))
      | WorkingDirectoryGrantKind.CALLER \<Rightarrow>
          (case wd_path grant of
             None \<Rightarrow> raise_op (Raised (AssertionError ''''))
           | Some path \<Rightarrow> body (as_posix (es_resolve sv path))))"

definition prepared_record ::
  "engine_services \<Rightarrow> ExecutorSelfBudgets \<Rightarrow> world \<Rightarrow> ExecutionJob \<Rightarrow> ResolvedTarget \<Rightarrow> ExecutionId \<Rightarrow>
     WorkingDirectoryGrant \<Rightarrow> (py_exn, RunRecordHeader \<times> RunDeclaration) result" where
  "prepared_record sv self_budgets w job target execution_id workspace =
     bind_result (build_executor_identity (es_snapshot sv)) (\<lambda>identity.
     bind_result (RunRecordHeader_new
       \<lparr>hd_schema_version = 2, hd_executor_identity = identity,
        hd_executor_config_identity = build_executor_config_identity self_budgets,
        hd_prepared_at = wo_prepared_at w\<rparr>) (\<lambda>hdr.
     bind_result (build_env_grant_record (es_sorted_values sv) (es_json_hash sv) (job_env job)) (\<lambda>env.
     bind_result (build_working_directory_grant_record (es_resolve sv) workspace) (\<lambda>ws.
       Inr (hdr, \<lparr>dec_execution_id = execution_id, dec_target = tg_record target, dec_env = env,
         dec_budgets = job_budgets job, dec_workspace = ws\<rparr>)))))"

definition run_execution ::
  "engine_services \<Rightarrow> 's store_ops \<Rightarrow> ExecutorSelfBudgets \<Rightarrow> world \<Rightarrow> ExecutionJob \<Rightarrow> bool \<Rightarrow>
     ('s, CompletedExecution) engine_op" where
  "run_execution sv ops self_budgets w job has_token =
     (case job_target job of
        InProcessImportableJsonTarget _ _ \<Rightarrow>
          raise_op (Raised (ExecutorFailure ''the process executor cannot run in-process importable JSON targets''
            ExecutorFailureCode.TARGET_NOT_SUPPORTED))
      | _ \<Rightarrow>
          bind_op (lift_py (validate_platform (es_platform sv))) (\<lambda>_.
          bind_op (lift_py (validate_declaration (es_canonical_identity sv) job)) (\<lambda>_.
          bind_op (lift_py (resolve_working_directory_grant (es_resolve sv) (es_is_dir sv) (job_workspace job))) (\<lambda>workspace.
          bind_op (lift_py (target_of (es_digest sv) (es_prepare sv) (job_target job))) (\<lambda>target.
          bind_op (lift_py (resolve_executable (es_which sv) (tg_argv target) (granted_environment (job_env job)))) (\<lambda>program.
          bind_op (lift_py (prepared_record sv self_budgets w job target
            \<lparr>eid_job_id = job_id job, eid_attempt_id = attempt_id_for_job (es_uuid5 sv) (job_id job)\<rparr> workspace)) (\<lambda>(hdr, d).
          bind_op (on_store PrepareCalled (op_prepare ops hdr d)) (\<lambda>prepared.
            if has_token \<and> wo_cancelled_before w
            then finalize_pre_spawn ops w prepared (CancelledOutcome False)
            else working_directory sv w workspace (\<lambda>run_directory.
              run_spawned sv ops self_budgets w job target prepared program run_directory has_token)))))))))"

section \<open>Triples\<close>

text \<open>What an operation ensures of its result and state, and of the exception and the state it leaves.\<close>

definition triple ::
  "('s \<Rightarrow> bool) \<Rightarrow> ('s, 'e, 'a) op \<Rightarrow> ('a \<Rightarrow> 's \<Rightarrow> bool) \<Rightarrow> ('e \<Rightarrow> 's \<Rightarrow> bool) \<Rightarrow> bool" where
  "triple P m Q E = (\<forall>s. P s \<longrightarrow> (case m s of (Inl e, t) \<Rightarrow> E e t | (Inr x, t) \<Rightarrow> Q x t))"

lemma tripleD:
  "triple P m Q E \<Longrightarrow> P s \<Longrightarrow> m s = (r, t) \<Longrightarrow> (case r of Inl e \<Rightarrow> E e t | Inr x \<Rightarrow> Q x t)"
  by (fastforce simp: triple_def split: sum.splits)

lemma tripleI: "(\<And>s. P s \<Longrightarrow> case m s of (Inl e, t) \<Rightarrow> E e t | (Inr x, t) \<Rightarrow> Q x t) \<Longrightarrow> triple P m Q E"
  by (simp add: triple_def)

lemma triple_weaken:
  assumes "triple P m Q E" and "\<And>s. P' s \<Longrightarrow> P s" and "\<And>x s. Q x s \<Longrightarrow> Q' x s" and "\<And>e s. E e s \<Longrightarrow> E' e s"
  shows "triple P' m Q' E'"
  using assms unfolding triple_def by (fastforce split: prod.splits sum.splits)

lemma triple_bind:
  "triple P m Q E \<Longrightarrow> (\<And>x. triple (Q x) (k x) R E) \<Longrightarrow> triple P (bind_op m k) R E"
  unfolding triple_def bind_op_def by (fastforce split: prod.splits sum.splits)

lemma triple_catch:
  "triple P m Q F \<Longrightarrow> (\<And>e. triple (F e) (h e) Q E) \<Longrightarrow> triple P (catch_op m h) Q E"
  unfolding triple_def catch_op_def by (fastforce split: prod.splits sum.splits)

lemma triple_return: "triple (Q x) (return_op x) Q E"
  and triple_raise: "triple (E e) (raise_op e) Q E"
  by (simp_all add: triple_def)

lemma triple_lift: "(\<And>e s. r = Inl e \<Longrightarrow> P s \<Longrightarrow> E e s) \<Longrightarrow> (\<And>x s. r = Inr x \<Longrightarrow> P s \<Longrightarrow> Q x s) \<Longrightarrow> triple P (lift_op r) Q E"
  by (cases r) (simp_all add: triple_def)

lemma triple_attempt:
  "triple P m Q E \<Longrightarrow>
     triple P (attempt_op m) (\<lambda>r s. case r of Inl e \<Rightarrow> e \<noteq> Stuck \<and> E e s | Inr x \<Rightarrow> Q x s) (\<lambda>e s. e = Stuck)"
  unfolding triple_def attempt_op_def by (fastforce split: prod.splits sum.splits engine_exn.splits)

text \<open>An operation that keeps a property of the state whatever it does.\<close>

lemma triple_keeps: "keeps P m \<longleftrightarrow> triple P m (\<lambda>_. P) (\<lambda>_. P)"
  unfolding keeps_def triple_def by (fastforce split: prod.splits sum.splits)

lemma keeps_attempt: "keeps P m \<Longrightarrow> keeps P (attempt_op m)"
  unfolding keeps_def attempt_op_def by (fastforce split: prod.splits sum.splits engine_exn.splits)

lemma keeps_try_finally: "keeps P m \<Longrightarrow> keeps P f \<Longrightarrow> keeps P (try_finally m f)"
  unfolding try_finally_def by (intro keeps_bind keeps_attempt keeps_lift)

lemma keeps_lift_py: "keeps P (lift_py r)" and keeps_lift_loop: "keeps P (lift_loop l)"
  by (cases r; simp add: lift_py_def) (cases l; simp add: lift_loop_def)

lemma keeps_transports: "keeps P transports"
  by (simp add: keeps_def transports_def)

lemma triple_transports: "triple P transports (\<lambda>_. P) E"
  by (simp add: triple_def transports_def)

lemma keeps_log_event: "(\<And>s. P s \<Longrightarrow> P (s\<lparr>en_log := en_log s @ [e]\<rparr>)) \<Longrightarrow> keeps P (log_event e)"
  by (simp add: keeps_def log_event_def)

lemma keeps_log_all: "(\<And>s. P s \<Longrightarrow> P (s\<lparr>en_log := en_log s @ es\<rparr>)) \<Longrightarrow> keeps P (log_all es)"
  by (simp add: keeps_def log_all_def)

lemma keeps_on_store:
  "(\<And>s t. P s \<Longrightarrow> P (s\<lparr>en_store := t, en_log := en_log s @ [e]\<rparr>)) \<Longrightarrow> keeps P (on_store e m)"
  by (auto simp: keeps_def on_store_def split: prod.splits)

section \<open>The descriptors\<close>

definition opens :: "event list \<Rightarrow> pipe_end list" where
  "opens log = concat (map (\<lambda>e. case e of Opened p \<Rightarrow> [p] | _ \<Rightarrow> []) log)"

definition closes :: "event list \<Rightarrow> pipe_end list" where
  "closes log = concat (map (\<lambda>e. case e of Closed p \<Rightarrow> [p] | _ \<Rightarrow> []) log)"

lemma ledger_simps [simp]: "opens [] = []" "closes [] = []" "opens (a @ b) = opens a @ opens b" "closes (a @ b) = closes a @ closes b"
  "opens (e # a) = (case e of Opened p \<Rightarrow> [p] | _ \<Rightarrow> []) @ opens a"
  "closes (e # a) = (case e of Closed p \<Rightarrow> [p] | _ \<Rightarrow> []) @ closes a"
  by (simp_all add: opens_def closes_def)

lemma ledger_closed [simp]: "opens (map Closed ds) = []" "closes (map Closed ds) = ds"
  by (induction ds) simp_all

lemma ledger_signalled [simp]: "opens (map Signalled ss) = []" "closes (map Signalled ss) = []"
  by (induction ss) simp_all

text \<open>Every descriptor opened is closed, held by the transports or closed by a running worker when it ends.\<close>

definition worker_ends :: "world \<Rightarrow> Transports \<Rightarrow> pipe_end list" where
  "worker_ends w t = concat (map (worker_closes w t) (tp_threads t))"

definition balanced :: "world \<Rightarrow> 's engine \<Rightarrow> bool" where
  "balanced w s =
     (mset (opens (en_log s)) =
        mset (closes (en_log s)) + mset (held_ends (en_transports s)) + mset (worker_ends w (en_transports s)) \<and>
      distinct (opens (en_log s)))"

definition plain_event :: "event \<Rightarrow> bool" where
  "plain_event e = (opens [e] = [] \<and> closes [e] = [])"

lemma balanced_log: "balanced w s \<Longrightarrow> opens es = [] \<Longrightarrow> closes es = [] \<Longrightarrow> balanced w (s\<lparr>en_log := en_log s @ es\<rparr>)"
  by (simp add: balanced_def)

lemma balanced_store: "balanced w (s\<lparr>en_store := x\<rparr>) = balanced w s"
  by (simp add: balanced_def)

lemmas op_defs = bind_op_def catch_op_def transports_def set_transports_def log_event_def log_all_def close_descriptors_def

lemma start_transports_balanced:
  assumes "balanced w s" and "en_transports s = fresh_transports b" and "\<not> wo_selector_fails w StdinFeeder"
    and "\<not> wo_selector_fails w OutputDrain"
  shows "balanced w (snd (start_transports w target s))"
proof -
  have "wo_thread_starts w StdinFeeder \<or> \<not> wo_thread_starts w StdinFeeder"
    "wo_thread_starts w OutputDrain \<or> \<not> wo_thread_starts w OutputDrain"
    "wo_thread_starts w ProtocolReader \<or> \<not> wo_thread_starts w ProtocolReader" by simp_all
  then show ?thesis
    using assms
    by (cases b; elim disjE; cases "tg_request_id_sha256 target")
      (simp_all add: start_transports_def adopt_started_def take_stdin_def take_protocol_forward_write_def
        take_protocol_reader_def started_thread_def adopt_def op_defs fresh_transports_def balanced_def held_ends_def
        present_def worker_ends_def worker_closes_def)
qed

lemma keeps_setup_status: "keeps P (setup_status w self_budgets)"
  unfolding setup_status_def
  by (auto split: option.split status_end.split intro!: keeps_bind keeps_lift_loop keeps_return keeps_raise)

lemma keeps_mark_running_op:
  assumes "\<And>s t. P s \<Longrightarrow> P (s\<lparr>en_store := t, en_log := en_log s @ [MarkRunningCalled]\<rparr>)"
  shows "keeps P (mark_running_op ops w prepared pid)"
  unfolding mark_running_op_def
  by (auto split: engine_exn.split py_exn.split intro!: keeps_catch keeps_bind keeps_on_store assms keeps_return keeps_raise)

lemma keeps_completed_with:
  assumes "\<And>s t. P s \<Longrightarrow> P (s\<lparr>en_store := t, en_log := en_log s @ [FinalizeCalled]\<rparr>)"
  shows "keeps P (completed_with ops run prior_failures built)"
  unfolding completed_with_def finalized_receipt_def
  by (auto split: engine_exn.split py_exn.split
      intro!: keeps_catch keeps_bind keeps_on_store assms keeps_return keeps_raise keeps_lift_py)

lemma keeps_conclude:
  assumes "\<And>s t. P s \<Longrightarrow> P (s\<lparr>en_store := t, en_log := en_log s @ [FinalizeCalled]\<rparr>)"
  shows "keeps P (conclude sv ops self_budgets w target prepared teardown_ns observed)"
  unfolding conclude_def complete_def Let_def
  by (auto split: AttemptResult.split intro!: keeps_bind keeps_lift_py keeps_completed_with assms)

lemma keeps_join_all: "keeps P (join_all w self_budgets target p)"
  unfolding join_all_def by (intro keeps_bind keeps_transports keeps_lift_loop keeps_lift_py)

lemma balanced_plain: "balanced w s \<Longrightarrow> plain_event e \<Longrightarrow> balanced w (s\<lparr>en_store := t, en_log := en_log s @ [e]\<rparr>)"
  by (simp add: balanced_def plain_event_def)

lemma plain_calls [simp]: "plain_event FinalizeCalled" "plain_event MarkRunningCalled" "plain_event PrepareCalled" "plain_event ScratchMade"
  "plain_event ScratchRemoved" "plain_event ReleaseWritten" "plain_event Reaped" "plain_event (Launched a b c)"
  by (simp_all add: plain_event_def)

abbreviation fresh_state :: "world \<Rightarrow> bool \<Rightarrow> 's engine \<Rightarrow> bool" where
  "fresh_state w b s \<equiv> balanced w s \<and> en_transports s = fresh_transports b"

abbreviation selectors_made :: "world \<Rightarrow> bool" where
  "selectors_made w \<equiv> \<not> wo_selector_fails w StdinFeeder \<and> \<not> wo_selector_fails w OutputDrain"

lemma start_transports_triple:
  assumes "selectors_made w"
  shows "triple (fresh_state w b) (start_transports w target) (\<lambda>_. balanced w) (\<lambda>_. balanced w)"
proof (rule tripleI, goal_cases)
  case (1 s)
  with start_transports_balanced [of w s b target] assms
  show ?case by (cases "start_transports w target s") (simp split: sum.split)
qed

lemma observe_balanced:
  assumes "selectors_made w"
  shows "triple (fresh_state w b) (observe_attempt sv ops self_budgets w job target prepared pid has_token)
    (\<lambda>_. balanced w) (\<lambda>_. balanced w)"
  unfolding observe_attempt_def
proof (rule triple_bind)
  show "triple (fresh_state w b) (setup_status w self_budgets) (\<lambda>_. fresh_state w b) (\<lambda>_. balanced w)"
    by (rule triple_weaken [OF triple_keeps [THEN iffD1, OF keeps_setup_status [where P = "fresh_state w b"]]]) simp_all
next
  fix line
  have start: "triple (fresh_state w b) (start_transports w target) (\<lambda>_. balanced w) (\<lambda>_. balanced w)"
    by (rule start_transports_triple [OF assms])
  have rest: "triple (balanced w) (bind_op (mark_running_op ops w prepared pid) (\<lambda>(running, recording_failures).
      bind_op (lift_loop (await_child (deadline_ns job (wo_started_ns w)) (fails_on_overflow job) has_token (wo_polls w))) (\<lambda>stop.
        return_op (ReachedPayload q stop running recording_failures)))) (\<lambda>_. balanced w) (\<lambda>_. balanced w)" for q
    unfolding triple_keeps [symmetric]
    by (auto intro!: keeps_bind keeps_lift_loop keeps_return keeps_mark_running_op balanced_plain split: prod.split)
  have after: "triple (fresh_state w b) (bind_op transports (\<lambda>t. bind_op (start_transports w target) (\<lambda>_.
      bind_op (mark_running_op ops w prepared pid) (\<lambda>(running, recording_failures).
      bind_op (lift_loop (await_child (deadline_ns job (wo_started_ns w)) (fails_on_overflow job) has_token (wo_polls w))) (\<lambda>stop.
        return_op (ReachedPayload (fresh_pump (payload_output (job_budgets job)) (tp_protocol t \<noteq> None)) stop running
          recording_failures)))))) (\<lambda>_. balanced w) (\<lambda>_. balanced w)"
    by (rule triple_bind [OF triple_transports triple_bind [OF start rest]])
  show "triple (fresh_state w b) (case parse_setup_status (es_loads sv) line of
       Some setup_failure \<Rightarrow> return_op (SetupFailed setup_failure (sf_stage setup_failure \<noteq> SETUP_STAGE_SESSION))
     | None \<Rightarrow> bind_op transports (\<lambda>t. bind_op (start_transports w target) (\<lambda>_.
      bind_op (mark_running_op ops w prepared pid) (\<lambda>(running, recording_failures).
      bind_op (lift_loop (await_child (deadline_ns job (wo_started_ns w)) (fails_on_overflow job) has_token (wo_polls w))) (\<lambda>stop.
        return_op (ReachedPayload (fresh_pump (payload_output (job_budgets job)) (tp_protocol t \<noteq> None)) stop running
          recording_failures)))))) (\<lambda>_. balanced w) (\<lambda>_. balanced w)"
    using after by (cases "parse_setup_status (es_loads sv) line") (simp_all add: triple_def)
qed

definition torn_down :: "world \<Rightarrow> 's engine \<Rightarrow> bool" where
  "torn_down w s = (balanced w s \<and> Reaped \<in> set (en_log s))"

lemma torn_down_finalize: "torn_down w s \<Longrightarrow> torn_down w (s\<lparr>en_store := t, en_log := en_log s @ [FinalizeCalled]\<rparr>)"
  by (simp add: torn_down_def balanced_plain)

lemma tear_down_balanced:
  "triple (balanced w) (tear_down_op w self_budgets leads) (\<lambda>_. torn_down w) (\<lambda>e s. e = Stuck)"
proof -
  have waits: "triple (balanced w) (lift_loop l) (\<lambda>_. balanced w) (\<lambda>e s. e = Stuck)" for l :: "(signal_sent list \<times> int) loop"
    by (cases l) (simp_all add: lift_loop_def triple_def)
  have logs: "triple (balanced w) (bind_op (log_all (map Signalled ss @ [Reaped])) (\<lambda>_. return_op ns)) (\<lambda>_. torn_down w) (\<lambda>e s. e = Stuck)"
    for ss :: "signal_sent list" and ns :: int
    by (simp add: triple_def op_defs torn_down_def balanced_def)
  show ?thesis
    unfolding tear_down_op_def by (rule triple_bind [OF waits]) (simp add: logs split: prod.split)
qed

lemma carry_torn_down:
  assumes "selectors_made w"
  shows "triple (fresh_state w b) (carry_attempt sv ops self_budgets w job target prepared pid has_token)
    (\<lambda>_. torn_down w) (\<lambda>e s. e \<noteq> Stuck \<longrightarrow> torn_down w s)"
  unfolding carry_attempt_def
proof (rule triple_bind)
  show "triple (fresh_state w b) (attempt_op (observe_attempt sv ops self_budgets w job target prepared pid has_token))
      (\<lambda>_. balanced w) (\<lambda>e s. e \<noteq> Stuck \<longrightarrow> torn_down w s)"
    by (rule triple_weaken [OF triple_attempt [OF observe_balanced [OF assms]]]) (auto split: sum.splits)
next
  fix r :: "engine_exn + AttemptResult"
  have kept: "keeps (torn_down w) (bind_op (lift_op r) (\<lambda>observed. bind_op (join_all w self_budgets target (attempt_pump observed)) (\<lambda>_.
       conclude sv ops self_budgets w target prepared ns observed)))" for ns
    by (intro keeps_bind keeps_lift keeps_join_all keeps_conclude torn_down_finalize)
  show "triple (balanced w) (bind_op (tear_down_op w self_budgets (case r of Inl _ \<Rightarrow> True | Inr observed \<Rightarrow> leads_group observed)) (\<lambda>ns.
      bind_op (lift_op r) (\<lambda>observed. bind_op (join_all w self_budgets target (attempt_pump observed)) (\<lambda>_.
       conclude sv ops self_budgets w target prepared ns observed)))) (\<lambda>_. torn_down w) (\<lambda>e s. e \<noteq> Stuck \<longrightarrow> torn_down w s)"
    by (rule triple_bind [OF triple_weaken [OF tear_down_balanced]], assumption, assumption, simp)
      (rule triple_weaken [OF triple_keeps [THEN iffD1, OF kept]], auto)
qed

text \<open>Closing the transports closes everything that is left.\<close>

lemma join_each_log:
  assumes "\<not> wo_selector_fails w OutputDrain"
  shows "join_each w ws s = (Inr (), s\<lparr>en_log := en_log s @
    concat (map (\<lambda>worker. map Closed (worker_closes w (en_transports s) worker) @ [WorkerJoined worker]) ws)\<rparr>)"
  using assms
proof (induction ws arbitrary: s)
  case (Cons worker ws)
  then show ?case by (simp add: joined_def op_defs)
qed simp

lemma closes_joined:
  "closes (concat (map (\<lambda>worker. map Closed (f worker) @ [WorkerJoined worker]) ws)) = concat (map f ws)"
  "opens (concat (map (\<lambda>worker. map Closed (f worker) @ [WorkerJoined worker]) ws)) = []"
  by (induction ws) simp_all

lemma close_transports_closes:
  assumes "\<not> wo_selector_fails w OutputDrain" and "balanced w s"
  obtains es where "close_transports w s = (Inr (), s\<lparr>en_log := en_log s @ es\<rparr>)"
    and "mset (opens (en_log s @ es)) = mset (closes (en_log s @ es))" and "opens es = []"
    and "set es \<subseteq> range Closed \<union> range WorkerJoined \<union> {ReleaseWritten}"
proof
  let ?ws = "concat (map (\<lambda>worker. map Closed (worker_closes w (en_transports s) worker) @ [WorkerJoined worker])
    (tp_threads (en_transports s)))"
  let ?es = "ReleaseWritten # ?ws @ map Closed (held_ends (en_transports s))"
  show "close_transports w s = (Inr (), s\<lparr>en_log := en_log s @ ?es\<rparr>)"
    by (simp add: close_transports_def op_defs join_each_log [OF assms(1)])
  show "mset (opens (en_log s @ ?es)) = mset (closes (en_log s @ ?es))"
    using assms(2) by (simp add: closes_joined balanced_def worker_ends_def)
  show "opens ?es = []" by (simp add: closes_joined)
  show "set ?es \<subseteq> range Closed \<union> range WorkerJoined \<union> {ReleaseWritten}" by auto
qed

section \<open>What an operation logs\<close>

definition logs_only :: "event set \<Rightarrow> ('s, 'a) engine_op \<Rightarrow> bool" where
  "logs_only A m = (\<forall>s. \<exists>es. set es \<subseteq> A \<and> en_log (snd (m s)) = en_log s @ es)"

lemma logs_onlyD: "logs_only A m \<Longrightarrow> m s = (r, t) \<Longrightarrow> \<exists>es. set es \<subseteq> A \<and> en_log t = en_log s @ es"
  by (metis logs_only_def snd_conv)

lemma logs_only_mono: "logs_only A m \<Longrightarrow> A \<subseteq> B \<Longrightarrow> logs_only B m"
  unfolding logs_only_def by (meson subset_trans)

lemma logs_only_simple [simp]: "logs_only A (return_op x)" "logs_only A (raise_op e)" "logs_only A (lift_op r)"
  "logs_only A transports" "logs_only A (set_transports t)" "logs_only A (lift_py p)" "logs_only A (lift_loop l)"
  by (auto simp: logs_only_def transports_def set_transports_def lift_py_def lift_loop_def split: sum.split loop.split)

lemma logs_only_log_all [intro!]: "(\<And>e. e \<in> set es \<Longrightarrow> e \<in> A) \<Longrightarrow> logs_only A (log_all es)"
  by (auto simp: logs_only_def log_all_def)

lemma logs_only_log [simp]: "e \<in> A \<Longrightarrow> logs_only A (log_event e)"
  "e \<in> A \<Longrightarrow> logs_only A (on_store e m)"
  by (auto simp: logs_only_def log_event_def on_store_def split: prod.split)

lemma logs_only_bind [intro]:
  assumes "logs_only A m" and "\<And>x. logs_only A (k x)"
  shows "logs_only A (bind_op m k)"
  unfolding logs_only_def
proof
  fix s
  obtain r t where m: "m s = (r, t)" by (cases "m s")
  from logs_onlyD [OF assms(1) m] obtain es where es: "set es \<subseteq> A" "en_log t = en_log s @ es" by blast
  show "\<exists>es. set es \<subseteq> A \<and> en_log (snd (bind_op m k s)) = en_log s @ es"
  proof (cases r)
    case (Inl e)
    then show ?thesis using m es by (auto simp: bind_op_def)
  next
    case (Inr x)
    obtain es' where "set es' \<subseteq> A" "en_log (snd (k x t)) = en_log t @ es'" using assms(2) unfolding logs_only_def by blast
    then show ?thesis using m es Inr by (intro exI [of _ "es @ es'"]) (simp add: bind_op_def)
  qed
qed

lemma logs_only_catch [intro]:
  assumes "logs_only A m" and "\<And>e. logs_only A (h e)"
  shows "logs_only A (catch_op m h)"
  unfolding logs_only_def
proof
  fix s
  obtain r t where m: "m s = (r, t)" by (cases "m s")
  from logs_onlyD [OF assms(1) m] obtain es where es: "set es \<subseteq> A" "en_log t = en_log s @ es" by blast
  show "\<exists>es. set es \<subseteq> A \<and> en_log (snd (catch_op m h s)) = en_log s @ es"
  proof (cases r)
    case (Inr x)
    then show ?thesis using m es by (auto simp: catch_op_def)
  next
    case (Inl e)
    obtain es' where "set es' \<subseteq> A" "en_log (snd (h e t)) = en_log t @ es'" using assms(2) unfolding logs_only_def by blast
    then show ?thesis using m es Inl by (intro exI [of _ "es @ es'"]) (simp add: catch_op_def)
  qed
qed

lemma logs_only_attempt [intro]: "logs_only A m \<Longrightarrow> logs_only A (attempt_op m)"
proof -
  have "snd (attempt_op m s) = snd (m s)" for s
    by (auto simp: attempt_op_def split: prod.split sum.split engine_exn.split)
  then show "logs_only A m \<Longrightarrow> logs_only A (attempt_op m)" by (simp add: logs_only_def)
qed

lemma logs_only_try_finally [intro]: "logs_only A m \<Longrightarrow> logs_only A f \<Longrightarrow> logs_only A (try_finally m f)"
  unfolding try_finally_def by (intro logs_only_bind logs_only_attempt) simp_all

lemma logs_only_if [intro]: "logs_only A m \<Longrightarrow> logs_only A k \<Longrightarrow> logs_only A (if b then m else k)"
  by simp

definition transport_events :: "event set" where
  "transport_events = range Opened \<union> range Closed \<union> range WorkerStarted \<union> range WorkerJoined \<union> {ReleaseWritten}"

definition observe_events :: "event set" where
  "observe_events = transport_events \<union> {MarkRunningCalled}"

definition attempt_events :: "event set" where
  "attempt_events = observe_events \<union> range Signalled \<union> {Reaped, FinalizeCalled} \<union> {e. \<exists>a b c. e = Launched a b c}"

lemma events_mem [simp]:
  "Opened p \<in> transport_events" "Closed p \<in> transport_events" "WorkerStarted k \<in> transport_events"
  "WorkerJoined k \<in> transport_events" "ReleaseWritten \<in> transport_events" "MarkRunningCalled \<in> observe_events"
  "Closed p \<in> attempt_events" "Launched a b c \<in> attempt_events" "Signalled sg \<in> attempt_events" "Reaped \<in> attempt_events"
  "FinalizeCalled \<in> attempt_events"
  by (auto simp: transport_events_def observe_events_def attempt_events_def)

lemma events_subset: "transport_events \<subseteq> observe_events" "{MarkRunningCalled} \<subseteq> observe_events"
  "observe_events \<subseteq> attempt_events" "transport_events \<subseteq> attempt_events" "{FinalizeCalled} \<subseteq> attempt_events"
  by (auto simp: observe_events_def attempt_events_def)

lemma adopt_started_logs:
  "logs_only transport_events take_descriptor \<Longrightarrow> logs_only transport_events (adopt_started w worker take_descriptor)"
  unfolding adopt_started_def started_thread_def adopt_def close_descriptors_def
  by (intro logs_only_bind logs_only_catch logs_only_if) auto

lemma start_transports_logs: "logs_only transport_events (start_transports w target)"
proof -
  have "logs_only transport_events take_stdin" "logs_only transport_events take_protocol_reader"
    "logs_only transport_events take_protocol_forward_write"
    unfolding take_stdin_def take_protocol_reader_def take_protocol_forward_write_def
    by (intro logs_only_bind; auto split: option.split)+
  then show ?thesis
    unfolding start_transports_def by (intro logs_only_bind logs_only_if adopt_started_logs) auto
qed

lemma join_each_logs: "logs_only transport_events (join_each w ws)"
proof (induction ws)
  case (Cons worker ws)
  have "logs_only transport_events (joined w worker)"
    unfolding joined_def by (intro logs_only_bind logs_only_if) auto
  then show ?case using Cons by (auto intro: logs_only_bind)
qed (simp add: logs_only_def)

lemma close_transports_logs: "logs_only transport_events (close_transports w)"
  unfolding close_transports_def close_descriptors_def by (intro logs_only_bind join_each_logs) auto

lemma pipes_logs: "logs_only transport_events (pipes w k ps)"
proof (induction ps arbitrary: k)
  case (Cons p ps)
  then show ?case by (cases p) (auto simp: os_pipe_def intro!: logs_only_bind)
qed (simp add: logs_only_def)

lemma mark_running_logs: "logs_only {MarkRunningCalled} (mark_running_op ops w prepared pid)"
  unfolding mark_running_op_def
  by (intro logs_only_catch logs_only_bind) (auto split: engine_exn.split py_exn.split)

lemma completed_with_logs: "logs_only {FinalizeCalled} (completed_with ops run prior_failures built)"
  unfolding completed_with_def finalized_receipt_def
  by (intro logs_only_catch logs_only_bind) (auto split: engine_exn.split py_exn.split)

lemma conclude_logs: "logs_only {FinalizeCalled} (conclude sv ops self_budgets w target prepared teardown_ns observed)"
  unfolding conclude_def complete_def Let_def
  by (auto split: AttemptResult.split intro: completed_with_logs)

lemma setup_status_logs: "logs_only A (setup_status w self_budgets)"
  unfolding setup_status_def by (auto split: option.split status_end.split)

lemma observe_logs:
  "logs_only observe_events (observe_attempt sv ops self_budgets w job target prepared pid has_token)"
proof -
  have start: "logs_only observe_events (start_transports w target)"
    by (rule logs_only_mono [OF start_transports_logs events_subset(1)])
  have mark: "logs_only observe_events (mark_running_op ops w prepared pid)"
    by (rule logs_only_mono [OF mark_running_logs events_subset(2)])
  show ?thesis
    unfolding observe_attempt_def
    by (auto split: option.split prod.split intro!: logs_only_bind setup_status_logs start mark)
qed

lemma tear_down_logs: "logs_only attempt_events (tear_down_op w self_budgets leads)"
  unfolding tear_down_op_def by (intro logs_only_bind) (auto split: prod.split intro!: logs_only_bind)

lemma join_all_logs: "logs_only A (join_all w self_budgets target p)"
  unfolding join_all_def by (intro logs_only_bind) auto

lemma carry_logs: "logs_only attempt_events (carry_attempt sv ops self_budgets w job target prepared pid has_token)"
  unfolding carry_attempt_def
  by (intro logs_only_bind logs_only_attempt logs_only_simple join_all_logs tear_down_logs
      logs_only_mono [OF observe_logs events_subset(3)] logs_only_mono [OF conclude_logs events_subset(5)])

lemma run_spawned_logs:
  "logs_only attempt_events (run_spawned sv ops self_budgets w job target prepared program scratch has_token)"
proof -
  have close: "logs_only attempt_events (close_transports w)"
    by (rule logs_only_mono [OF close_transports_logs events_subset(4)])
  have pipes': "logs_only attempt_events (pipes w 0 ps)" for ps
    by (rule logs_only_mono [OF pipes_logs events_subset(4)])
  show ?thesis
    unfolding run_spawned_def close_descriptors_def
    by (auto split: launch_obs.split intro!: logs_only_bind logs_only_try_finally close pipes' carry_logs)
qed

section \<open>Nothing is left open\<close>

definition launched :: "event list \<Rightarrow> bool" where
  "launched log = (\<exists>a b c. Launched a b c \<in> set log)"

definition untouched :: "'s engine \<Rightarrow> bool" where
  "untouched s = (opens (en_log s) = [] \<and> closes (en_log s) = [] \<and> \<not> launched (en_log s))"

definition tidy :: "event list \<Rightarrow> bool" where
  "tidy log = (mset (opens log) = mset (closes log) \<and> distinct (opens log) \<and> (launched log \<longrightarrow> Reaped \<in> set log))"

lemma launched_append [simp]: "launched (a @ b) \<longleftrightarrow> launched a \<or> launched b"
  by (auto simp: launched_def)

lemma not_launched [simp]: "\<not> launched (map Opened ds)" "\<not> launched (map Closed ds)" "\<not> launched []" "\<not> launched [PrepareCalled]"
  "\<not> launched [ScratchMade]" "\<not> launched [ScratchRemoved]" "\<not> launched [FinalizeCalled]" "\<not> launched [Opened p, Opened q]"
  by (auto simp: launched_def)

lemma not_launched_transport: "set es \<subseteq> transport_events \<Longrightarrow> \<not> launched es"
  by (fastforce simp: launched_def transport_events_def)

lemma untouched_plain: "untouched s \<Longrightarrow> plain_event e \<Longrightarrow> \<not> launched [e] \<Longrightarrow> untouched (s\<lparr>en_store := t, en_log := en_log s @ [e]\<rparr>)"
  by (simp add: untouched_def plain_event_def)

lemma untouched_tidy: "untouched s \<Longrightarrow> tidy (en_log s)"
  by (simp add: untouched_def tidy_def)

lemma pipes_made:
  assumes "wo_pipe_failure w = None"
  shows "pipes w k ps s = (Inr (), s\<lparr>en_log := en_log s @ concat (map (\<lambda>(r, wr). [Opened r, Opened wr]) ps)\<rparr>)"
  using assms
proof (induction ps arbitrary: k s)
  case (Cons p ps)
  then show ?case by (cases p) (simp add: os_pipe_def op_defs)
qed simp

lemma close_transports_tidies:
  assumes "\<not> wo_selector_fails w OutputDrain" and "balanced w s" and "launched (en_log s) \<longrightarrow> Reaped \<in> set (en_log s)"
  shows "\<exists>t. close_transports w s = (Inr (), t) \<and> tidy (en_log t)"
proof -
  obtain es where es: "close_transports w s = (Inr (), s\<lparr>en_log := en_log s @ es\<rparr>)"
    "mset (opens (en_log s @ es)) = mset (closes (en_log s @ es))" "opens es = []"
    "set es \<subseteq> range Closed \<union> range WorkerJoined \<union> {ReleaseWritten}"
    by (rule close_transports_closes [OF assms(1,2)])
  have "\<not> launched es" using es(4) by (intro not_launched_transport) (auto simp: transport_events_def)
  then show ?thesis using es assms(2,3) by (auto simp: tidy_def balanced_def)
qed

lemma piped_balanced:
  assumes "untouched s"
  shows "balanced w (s\<lparr>en_transports := fresh_transports b,
      en_log := en_log s @ concat (map (\<lambda>(r, wr). [Opened r, Opened wr]) (attempt_pipes b)) @ map Closed (child_ends b)\<rparr>)"
  using assms
  by (cases b) (simp_all add: untouched_def balanced_def attempt_pipes_def child_ends_def fresh_transports_def held_ends_def
      present_def worker_ends_def add_ac)

lemma run_spawned_tidy:
  assumes w: "selectors_made w" "wo_pipe_failure w = None" "wo_launch w \<noteq> LaunchRaisesOther" and s: "untouched s"
    and run: "run_spawned sv ops self_budgets w job target prepared program scratch has_token s = (r, t)" and "r \<noteq> Inl Stuck"
  shows "tidy (en_log t)"
proof -
  let ?b = "tg_wants_protocol target"
  let ?ps = "concat (map (\<lambda>(r, wr). [Opened r, Opened wr]) (attempt_pipes ?b))"
  let ?piped = "s\<lparr>en_transports := fresh_transports ?b, en_log := en_log s @ ?ps @ map Closed (child_ends ?b)\<rparr>"
  have piped: "balanced w ?piped" by (rule piped_balanced [OF s])
  have ps: "\<not> launched ?ps" by (cases ?b) (auto simp: attempt_pipes_def launched_def)
  show ?thesis
  proof (cases "wo_launch w")
    case (LaunchRaisesOsError e)
    have "launched (en_log ?piped) \<longrightarrow> Reaped \<in> set (en_log ?piped)" using s ps by (simp add: untouched_def)
    from close_transports_tidies [OF conjunct2 [OF w(1)] piped this] obtain u where
      "close_transports w ?piped = (Inr (), u)" "tidy (en_log u)" by blast
    then show ?thesis
      using run LaunchRaisesOsError by (simp add: run_spawned_def op_defs pipes_made [OF w(2)])
  next
    case (LaunchedAs pid)
    let ?l = "?piped\<lparr>en_log := en_log s @ ?ps @ [Launched program (tg_argv target) scratch] @ map Closed (child_ends ?b)\<rparr>"
    have fresh: "fresh_state w ?b ?l" using piped by (simp add: balanced_def)
    obtain q u where carry: "carry_attempt sv ops self_budgets w job target prepared pid has_token ?l = (q, u)"
      by (cases "carry_attempt sv ops self_budgets w job target prepared pid has_token ?l")
    note torn = tripleD [OF carry_torn_down [OF w(1)] fresh carry]
    have "run_spawned sv ops self_budgets w job target prepared program scratch has_token s =
        try_finally (carry_attempt sv ops self_budgets w job target prepared pid has_token) (close_transports w) ?l"
      using LaunchedAs by (simp add: run_spawned_def op_defs pipes_made [OF w(2)])
    then have final: "try_finally (carry_attempt sv ops self_budgets w job target prepared pid has_token) (close_transports w) ?l = (r, t)"
      using run by simp
    have q: "q \<noteq> Inl Stuck" using final carry assms(6) by (auto simp: try_finally_def attempt_op_def op_defs)
    then have "torn_down w u" using torn by (cases q) auto
    then have "balanced w u" "launched (en_log u) \<longrightarrow> Reaped \<in> set (en_log u)" by (simp_all add: torn_down_def)
    from close_transports_tidies [OF conjunct2 [OF w(1)] this] obtain v where
      "close_transports w u = (Inr (), v)" "tidy (en_log v)" by blast
    moreover have "attempt_op (carry_attempt sv ops self_budgets w job target prepared pid has_token) ?l = (Inr q, u)"
      using carry q by (auto simp: attempt_op_def split: sum.split engine_exn.split)
    ultimately show ?thesis using final by (simp add: try_finally_def op_defs)
  qed (use w in simp)
qed

lemma tidy_plain: "tidy log \<Longrightarrow> plain_event e \<Longrightarrow> \<not> launched [e] \<Longrightarrow> tidy (log @ [e])"
  by (simp add: tidy_def plain_event_def)

lemma finalize_pre_spawn_untouched: "keeps untouched (finalize_pre_spawn ops w prepared outcome)"
  unfolding finalize_pre_spawn_def by (rule keeps_completed_with) (rule untouched_plain, simp_all)

lemma working_directory_tidy:
  assumes w: "selectors_made w" "wo_pipe_failure w = None" "wo_launch w \<noteq> LaunchRaisesOther"
  shows "triple untouched (working_directory sv w grant (\<lambda>d. run_spawned sv ops self_budgets w job target prepared program d has_token))
    (\<lambda>_ s. tidy (en_log s)) (\<lambda>e s. e \<noteq> Stuck \<longrightarrow> tidy (en_log s))"
proof -
  have body: "triple untouched (run_spawned sv ops self_budgets w job target prepared program d has_token)
      (\<lambda>_ s. tidy (en_log s)) (\<lambda>e s. e \<noteq> Stuck \<longrightarrow> tidy (en_log s))" for d
  proof (rule tripleI, goal_cases)
    case (1 s)
    then show ?case
      using run_spawned_tidy [OF w 1] by (auto split: prod.split sum.split)
  qed
  have made: "triple untouched (log_event ScratchMade) (\<lambda>_. untouched) (\<lambda>e s. e \<noteq> Stuck \<longrightarrow> tidy (en_log s))"
    by (simp add: triple_def log_event_def untouched_def)
  have removed: "triple (\<lambda>s. tidy (en_log s)) (log_event ScratchRemoved) (\<lambda>_ s. tidy (en_log s)) E" for E
    by (simp add: triple_def log_event_def tidy_plain)
  have "triple untouched (try_finally (run_spawned sv ops self_budgets w job target prepared program d has_token) (log_event ScratchRemoved))
      (\<lambda>_ s. tidy (en_log s)) (\<lambda>e s. e \<noteq> Stuck \<longrightarrow> tidy (en_log s))" for d
    unfolding try_finally_def
  proof (rule triple_bind)
    show "triple untouched (attempt_op (run_spawned sv ops self_budgets w job target prepared program d has_token))
      (\<lambda>_ s. tidy (en_log s)) (\<lambda>e s. e \<noteq> Stuck \<longrightarrow> tidy (en_log s))"
      by (rule triple_weaken [OF triple_attempt [OF body]]) (auto split: sum.splits)
    show "triple (\<lambda>s. tidy (en_log s)) (bind_op (log_event ScratchRemoved) (\<lambda>_. lift_op r))
      (\<lambda>_ s. tidy (en_log s)) (\<lambda>e s. e \<noteq> Stuck \<longrightarrow> tidy (en_log s))" for r :: "engine_exn + CompletedExecution"
      by (rule triple_bind [OF removed triple_lift]) simp_all
  qed
  then have "triple untouched (bind_op (log_event ScratchMade) (\<lambda>_. try_finally
      (run_spawned sv ops self_budgets w job target prepared program d has_token) (log_event ScratchRemoved)))
      (\<lambda>_ s. tidy (en_log s)) (\<lambda>e s. e \<noteq> Stuck \<longrightarrow> tidy (en_log s))" for d
    by (rule triple_bind [OF made])
  moreover have "triple untouched (raise_op x) Q (\<lambda>e s. e \<noteq> Stuck \<longrightarrow> tidy (en_log s))" for x Q
    by (simp add: triple_def untouched_tidy)
  ultimately show ?thesis
    using body by (auto simp: working_directory_def split: WorkingDirectoryGrantKind.split sum.split option.split)
qed

lemma triple_lift_py: "(\<And>e s. P s \<Longrightarrow> E (Raised e) s) \<Longrightarrow> triple P (lift_py r) (\<lambda>_. P) E"
  by (cases r) (simp_all add: triple_def lift_py_def)

text \<open>
  C7: an attempt leaves nothing behind. However a run of the engine ends, by a completion or by an
  exception, when the pipes could be made, the launch raised nothing but an \<^verbatim>\<open>OSError\<close> and the two
  transport selectors could be made, every descriptor it opened has been closed exactly once and a
  child it launched has been reaped.
\<close>

theorem attempt_leaves_nothing_open:
  assumes "selectors_made w" and "wo_pipe_failure w = None" and "wo_launch w \<noteq> LaunchRaisesOther" and "en_log s = []"
    and "run_execution sv ops self_budgets w job has_token s = (r, t)" and "r \<noteq> Inl Stuck"
  shows "mset (opens (en_log t)) = mset (closes (en_log t)) \<and> distinct (opens (en_log t)) \<and>
    (launched (en_log t) \<longrightarrow> Reaped \<in> set (en_log t))"
proof -
  let ?E = "\<lambda>e s. e \<noteq> Stuck \<longrightarrow> tidy (en_log s)"
  have lifts: "triple untouched (lift_py x) (\<lambda>_. untouched) ?E" for x :: "(py_exn, 'z) result"
    by (rule triple_lift_py) (simp add: untouched_tidy)
  have prepares: "triple untouched (on_store PrepareCalled m) (\<lambda>_. untouched) ?E" for m :: "('s, store_failure, FinalizableRun) op"
    unfolding triple_def on_store_def
    by (auto split: prod.split sum.split intro!: untouched_plain tidy_plain untouched_tidy)
  have cancelled: "triple untouched (finalize_pre_spawn ops w prepared outcome) (\<lambda>_ s. tidy (en_log s)) ?E" for ops :: "'s store_ops" and prepared outcome
    by (rule triple_weaken [OF triple_keeps [THEN iffD1, OF finalize_pre_spawn_untouched]]) (auto intro: untouched_tidy)
  note working = working_directory_tidy [OF assms(1-3)]
  have "untouched s" using assms(4) by (simp add: untouched_def)
  have whole: "triple untouched (bind_op (lift_py (validate_platform (es_platform sv))) (\<lambda>_.
          bind_op (lift_py (validate_declaration (es_canonical_identity sv) job)) (\<lambda>_.
          bind_op (lift_py (resolve_working_directory_grant (es_resolve sv) (es_is_dir sv) (job_workspace job))) (\<lambda>workspace.
          bind_op (lift_py (target_of (es_digest sv) (es_prepare sv) (job_target job))) (\<lambda>target.
          bind_op (lift_py (resolve_executable (es_which sv) (tg_argv target) (granted_environment (job_env job)))) (\<lambda>program.
          bind_op (lift_py (prepared_record sv self_budgets w job target
            \<lparr>eid_job_id = job_id job, eid_attempt_id = attempt_id_for_job (es_uuid5 sv) (job_id job)\<rparr> workspace)) (\<lambda>(hdr, d).
          bind_op (on_store PrepareCalled (op_prepare ops hdr d)) (\<lambda>prepared.
            if has_token \<and> wo_cancelled_before w
            then finalize_pre_spawn ops w prepared (CancelledOutcome False)
            else working_directory sv w workspace (\<lambda>run_directory.
              run_spawned sv ops self_budgets w job target prepared program run_directory has_token))))))))) (\<lambda>_ s. tidy (en_log s)) ?E"
    by (intro triple_bind [OF lifts]) (auto intro!: triple_bind [OF prepares] cancelled working split: prod.split)
  have "triple untouched (run_execution sv ops self_budgets w job has_token) (\<lambda>_ s. tidy (en_log s)) ?E"
    unfolding run_execution_def using whole
    by (cases "job_target job") (simp_all add: triple_def untouched_tidy)
  from tripleD [OF this \<open>untouched s\<close> assms(5)] assms(6) show ?thesis
    by (cases r) (auto simp: tidy_def)
qed

section \<open>What goes wrong\<close>

definition reading :: "'s engine \<Rightarrow> bool" where
  "reading s = (ProtocolReader \<in> set (tp_threads (en_transports s)))"

lemma reading_log [simp]: "reading (s\<lparr>en_log := l\<rparr>) = reading s" "reading (s\<lparr>en_store := x\<rparr>) = reading s"
  by (simp_all add: reading_def)

lemma start_transports_reading:
  assumes "wo_thread_starts w StdinFeeder" "wo_thread_starts w OutputDrain" "wo_thread_starts w ProtocolReader"
    and "en_transports s = fresh_transports True" and "tg_request_id_sha256 target = Some digest"
  shows "\<exists>t. start_transports w target s = (Inr (), t) \<and> reading t"
  using assms
  by (simp add: start_transports_def adopt_started_def take_stdin_def take_protocol_forward_write_def
      take_protocol_reader_def started_thread_def adopt_def op_defs fresh_transports_def reading_def)

lemma observe_reading:
  assumes threads: "wo_thread_starts w StdinFeeder" "wo_thread_starts w OutputDrain" "wo_thread_starts w ProtocolReader"
    and digest: "tg_request_id_sha256 target = Some digest"
    and status: "setup_status w self_budgets s = (Inr line, s)" "parse_setup_status (es_loads sv) line = None"
    and fresh: "en_transports s = fresh_transports True"
  shows "reading (snd (observe_attempt sv ops self_budgets w job target prepared pid has_token s))"
proof -
  obtain t where t: "start_transports w target s = (Inr (), t)" "reading t"
    using start_transports_reading [OF threads fresh digest] by blast
  let ?rest = "\<lambda>q. bind_op (mark_running_op ops w prepared pid) (\<lambda>(running, recording_failures).
      bind_op (lift_loop (await_child (deadline_ns job (wo_started_ns w)) (fails_on_overflow job) has_token (wo_polls w))) (\<lambda>stop.
        return_op (ReachedPayload q stop running recording_failures)))"
  have "keeps reading (?rest q)" for q
    by (auto intro!: keeps_bind keeps_lift_loop keeps_return keeps_mark_running_op split: prod.split)
  then have "reading (snd (?rest q t))" for q using t(2) by (simp add: keeps_def)
  then show ?thesis
    using t(1) by (simp add: observe_attempt_def status bind_op_def transports_def)
qed

lemma carry_reading:
  assumes "reading (snd (observe_attempt sv ops self_budgets w job target prepared pid has_token s))"
  shows "reading (snd (carry_attempt sv ops self_budgets w job target prepared pid has_token s))"
proof -
  have rest: "keeps reading (bind_op (tear_down_op w self_budgets leads) (\<lambda>ns. bind_op (lift_op r) (\<lambda>observed.
      bind_op (join_all w self_budgets target (attempt_pump observed)) (\<lambda>_.
        conclude sv ops self_budgets w target prepared ns observed))))" for leads and r :: "engine_exn + AttemptResult"
    unfolding tear_down_op_def
    by (auto intro!: keeps_bind keeps_lift keeps_lift_loop keeps_log_all keeps_return keeps_join_all keeps_conclude split: prod.split)
  obtain q u where o1: "observe_attempt sv ops self_budgets w job target prepared pid has_token s = (q, u)"
    by (cases "observe_attempt sv ops self_budgets w job target prepared pid has_token s")
  then have u: "reading u" using assms by simp
  show ?thesis
  proof (cases "q = Inl Stuck")
    case True
    then show ?thesis using o1 u by (simp add: carry_attempt_def attempt_op_def bind_op_def)
  next
    case False
    then have "attempt_op (observe_attempt sv ops self_budgets w job target prepared pid has_token) s = (Inr q, u)"
      using o1 by (auto simp: attempt_op_def split: sum.split engine_exn.split)
    then show ?thesis using rest u by (simp add: carry_attempt_def bind_op_returned keeps_def)
  qed
qed

lemma join_each_stuck:
  assumes "wo_selector_fails w OutputDrain" and "ProtocolReader \<in> set ws"
  shows "fst (join_each w ws s) = Inl Stuck"
  using assms(2)
proof (induction ws arbitrary: s)
  case (Cons worker ws)
  then show ?case using assms(1) by (cases "worker = ProtocolReader") (simp_all add: joined_def op_defs)
qed simp

lemma close_transports_stuck:
  assumes "wo_selector_fails w OutputDrain" and "reading s"
  shows "fst (close_transports w s) = Inl Stuck"
proof -
  have "fst (join_each w (tp_threads (en_transports s)) (s\<lparr>en_log := en_log s @ [ReleaseWritten]\<rparr>)) = Inl Stuck"
    using join_each_stuck assms by (simp add: reading_def)
  then show ?thesis
    by (cases "join_each w (tp_threads (en_transports s)) (s\<lparr>en_log := en_log s @ [ReleaseWritten]\<rparr>)")
      (simp add: close_transports_def op_defs)
qed

lemma try_finally_stuck:
  assumes "fst (f (snd (m s))) = Inl Stuck"
  shows "fst (try_finally m f s) = Inl Stuck"
  using assms by (cases "m s") (auto simp: try_finally_def attempt_op_def bind_op_def split: sum.splits engine_exn.splits prod.splits)


text \<open>A pipe that cannot be made leaves the earlier ones open: nothing guards their creation.\<close>

lemma failed_pipe_leaks:
  assumes "wo_pipe_failure w = Some 4" and "en_log s = []"
  shows "\<exists>t. run_spawned sv ops self_budgets w job target prepared program scratch has_token s =
      (Inl (Raised (OSError (Some 24))), t) \<and> length (opens (en_log t)) = 8 \<and> closes (en_log t) = []"
  using assms by (simp add: run_spawned_def attempt_pipes_def os_pipe_def op_defs)

end
