(* ===== verification/EngineRuns.thy ===== *)
theory EngineRuns
  imports Engine "HOL-Library.Sublist"
begin

text \<open>
  What a whole run of the engine shows: the order in which it touches the child and the record, and what
  a completion reports of the payload; \<open>EngineStore\<close> shows what is durable when a completion says
  so. The witnesses of the properties of \<open>Engine\<close> are here.
\<close>

lemma run_execution_steps:
  assumes "\<not> (\<exists>entry_point request. job_target job = InProcessImportableJsonTarget entry_point request)"
  shows "run_execution sv ops self_budgets w job has_token =
          bind_op (lift_py (validate_platform (es_platform sv))) (\<lambda>_.
          bind_op (lift_py (validate_declaration (es_canonical_identity sv) job)) (\<lambda>_.
          bind_op (lift_py (resolve_working_directory_grant (es_resolve sv) (es_is_dir sv) (job_workspace job))) (\<lambda>workspace.
          bind_op (lift_py (target_of (es_digest sv) (es_prepare sv) (job_target job))) (\<lambda>target.
          bind_op (lift_py (resolve_executable (es_which sv) (tg_argv target) (granted_environment (job_env job)))) (\<lambda>program.
          bind_op (lift_py (prepared_record sv self_budgets w job target
            \<lparr>eid_job_id = job_id job, eid_attempt_id = attempt_id_for_job (es_uuid5 sv) (job_id job)\<rparr> workspace)) (\<lambda>(hdr, d).
          bind_op (on_store PrepareCalled (op_prepare ops hdr d)) (\<lambda>prepared.
            if has_token \<and> wo_cancelled_before w
            then finalize_pre_spawn ops w prepared (CancelledOutcome False)
            else working_directory sv w workspace (\<lambda>run_directory.
              run_spawned sv ops self_budgets w job target prepared program run_directory has_token))))))))"
  using assms unfolding run_execution_def by (cases "job_target job") simp_all

section \<open>A sample run\<close>

definition sample_target :: ExecutionTarget where
  "sample_target = TrustedCommandTarget [''/bin/echo'', ''hi''] []"

definition sample_command :: ExecutionJob where
  "sample_command = \<lparr>job_id = 1, job_target = sample_target,
     job_env = \<lparr>eg_kind = EnvGrantKind.NONE, eg_variables = [], eg_excluded_var_names = []\<rparr>,
     job_budgets = Budgets_unbudgeted, job_workspace = WorkingDirectoryGrant_scratch\<rparr>"

definition sample_world :: world where
  "sample_world =
     \<lparr>wo_pipe_failure = None, wo_scratch = Inr ''/tmp/dr-exec-run-0'', wo_launch = LaunchedAs 42,
      wo_prepared_at = sample_instant, wo_moment = sample_instant, wo_started_at = sample_instant,
      wo_finished_at = sample_instant, wo_started_ns = 0, wo_finished_ns = 9, wo_status_ns = 1,
      wo_status_selector = None, wo_status = [\<lparr>so_now = 1, so_selected = True, so_read = ReadBytes []\<rparr>],
      wo_thread_starts = (\<lambda>_. True), wo_selector_fails = (\<lambda>_. False), wo_register_fails = (\<lambda>_. False),
      wo_feed = [],
      wo_pump = [[StreamReady Stdout (ReadBytes [104, 105])], [StreamReady Stderr (ReadBytes []), StreamReady Stdout (ReadBytes [])]],
      wo_reader_early = False,
      wo_polls = [\<lparr>pl_exited = True, pl_transport_failed = False, pl_overflow = False, pl_cancelled = False, pl_now = 5\<rparr>],
      wo_teardown = \<lparr>td_started = 5, td_finished = 6, td_ended_in_time = True, td_ends = True, td_group_survives = False\<rparr>,
      wo_returncode = 0, wo_cancelled_before = False\<rparr>"

definition sample_engine_sv :: engine_services where
  "sample_engine_sv =
     \<lparr>es_platform = ''linux'', es_canonical_identity = (\<lambda>_. []), es_resolve = id, es_is_dir = (\<lambda>_. True),
      es_digest = (\<lambda>_. replicate 64 (CHR ''0'')), es_prepare = (\<lambda>_. Inl IndexError), es_which = (\<lambda>_ _. None),
      es_uuid5 = sample_uuid5, es_snapshot = snapshot_source (Some ''1.0'') (Some (Some ''v1'')) 7,
      es_sorted_values = id, es_json_hash = (\<lambda>_. replicate 64 (CHR ''0'')), es_loads = (\<lambda>_. None), es_codec = tag_codec\<rparr>"

text \<open>The directory store as the engine's store.\<close>

definition directory_ops :: "(uuid \<Rightarrow> bytes \<Rightarrow> uuid) \<Rightarrow> 'd services \<Rightarrow> 'd run_root store_ops" where
  "directory_ops uuid5 dsv = \<lparr>op_prepare = prepare uuid5 dsv, op_mark_running = mark_running dsv, op_finalize = finalize dsv\<rparr>"

definition fresh_engine :: "'s \<Rightarrow> 's engine" where
  "fresh_engine store = \<lparr>en_store = store, en_log = [], en_transports = fresh_transports False\<rparr>"

text \<open>Its outcome, computed: prepared, launched, exited with code 0, two bytes kept, finalized.\<close>

definition sample_id :: ExecutionId where
  "sample_id = \<lparr>eid_job_id = 1, eid_attempt_id = attempt_id_for_job sample_uuid5 1\<rparr>"

definition sample_resolved :: ResolvedTarget where
  "sample_resolved =
     \<lparr>tg_executable = ''/bin/echo'', tg_argv = [''/bin/echo'', ''hi''], tg_stdin_bytes = [],
      tg_record = TrustedCommandTargetRecord (replicate 64 (CHR ''0'')), tg_request_id_sha256 = None, tg_wants_protocol = False\<rparr>"

lemma sample_prepared_record:
  assumes "wo_prepared_at w = sample_instant"
  shows "\<exists>hdr d. prepared_record sample_engine_sv ExecutorSelfBudgets_default w sample_command sample_resolved
    sample_id WorkingDirectoryGrant_scratch = Inr (hdr, d)"
proof -
  obtain x where x: "build_executor_identity (snapshot_source (Some ''1.0'') (Some (Some ''v1'')) 7) = Inr x"
    "validate_executor_identity x = Inr x"
    using executor_identity_accepted [of "Some ''1.0''" "Some (Some ''v1'')" 7] by auto
  have budgets: "ExecutorSelfBudgets_ok ExecutorSelfBudgets_default"
    by (simp add: ExecutorSelfBudgets_ok_def ExecutorSelfBudgets_default_def positive_limit_def)
  show ?thesis
    using executor_config_identity_faithful [OF budgets budgets]
    by (simp add: prepared_record_def sample_resolved_def sample_engine_sv_def x RunRecordHeader_new_def assms sample_instant_def
      build_env_grant_record_def names_must_be_canonical_and_disjoint_def sample_command_def
      build_working_directory_grant_record_def path_must_match_kind_def require_utc_def WorkingDirectoryGrant_scratch_def)
qed

definition sample_ops :: "nat store_ops" where
  "sample_ops =
     \<lparr>op_prepare = (\<lambda>hdr d. return_op (prepared_run sample_uuid5 hdr d)),
      op_mark_running = (\<lambda>run p. return_op (running_run run)),
      op_finalize = (\<lambda>run r. return_op (CompleteRecordReceipt (fr_execution_id run) (fr_reference run)))\<rparr>"

definition sample_reported :: ExecutionResult where
  "sample_reported =
     \<lparr>res_execution_id = sample_id, res_outcome = ExitedOutcome 0,
      res_attribution = attribute_outcome (ExitedOutcome 0), res_protocol_outputs = [],
      res_payload_outputs = \<lparr>po_stdout = retained None [104, 105], po_stderr = retained None []\<rparr>,
      res_measurements = \<lparr>ms_started_at = sample_instant, ms_finished_at = sample_instant, ms_duration_ns = 9,
        ms_teardown_duration_ns = 1, ms_input_bytes = 0, ms_protocol_bytes_received = 0\<rparr>\<rparr>"

lemma sample_observed:
  "observe_attempt sample_engine_sv sample_ops ExecutorSelfBudgets_default sample_world sample_command sample_resolved
      (PreparedRun i reference hdr d) 42 False
      \<lparr>en_store = n, en_log = l, en_transports = fresh_transports False\<rparr> =
    (Inr (ReachedPayload (fresh_pump UnbudgetedLimit False) None (Some (RunningRun i reference hdr d)) []),
     \<lparr>en_store = n, en_log = l @ [WorkerStarted StdinFeeder, WorkerStarted OutputDrain, MarkRunningCalled],
      en_transports = (fresh_transports False)\<lparr>tp_stdin_write := None, tp_threads := [StdinFeeder, OutputDrain]\<rparr>\<rparr>)"
  by (simp add: observe_attempt_def setup_status_def sample_world_def ExecutorSelfBudgets_default_def read_setup_status_def
      lift_loop_def parse_setup_status_def op_defs start_transports_def adopt_started_def take_stdin_def
      take_protocol_forward_write_def fresh_transports_def started_thread_def adopt_def mark_running_op_def on_store_def
      sample_ops_def poll_ends_def running_run_def sample_resolved_def sample_command_def Budgets_unbudgeted_def)

lemma sample_pumped:
  "\<exists>p. run_pump sample_world (fresh_pump UnbudgetedLimit False) = Done (True, p) \<and>
     payload_snapshot (dr_retention (pm_state p)) = Inr (res_payload_outputs sample_reported) \<and>
     \<not> overflowed (dr_retention (pm_state p)) \<and> dr_protocol_result (pm_state p) = None"
  by (simp add: run_pump_def sample_world_def pump.simps pump_live_def fresh_pump_def pump_offer_def Let_def overflowed_def
      payload_snapshot_def stream_snapshot_def offer_def stream_retention_def RetainedPayloadStream_new_def
      sample_reported_def result_simps)

lemma sample_carried:
  "\<exists>t. carry_attempt sample_engine_sv sample_ops ExecutorSelfBudgets_default sample_world sample_command sample_resolved
      (PreparedRun sample_id reference hdr d) 42 False
      \<lparr>en_store = n, en_log = l, en_transports = fresh_transports False\<rparr> =
    (Inr \<lparr>ce_result = sample_reported,
      ce_record_receipt = CompleteRecordReceipt sample_id reference\<rparr>, t) \<and>
    en_transports t = (fresh_transports False)\<lparr>tp_stdin_write := None, tp_threads := [StdinFeeder, OutputDrain]\<rparr>"
proof -
  obtain p where p: "run_pump sample_world (fresh_pump UnbudgetedLimit False) = Done (True, p)"
    "payload_snapshot (dr_retention (pm_state p)) = Inr (res_payload_outputs sample_reported)"
    "\<not> overflowed (dr_retention (pm_state p))" "dr_protocol_result (pm_state p) = None" using sample_pumped by blast
  have w: "wo_teardown sample_world = \<lparr>td_started = 5, td_finished = 6, td_ended_in_time = True, td_ends = True, td_group_survives = False\<rparr>"
    "\<not> wo_selector_fails sample_world k" "\<not> wo_register_fails sample_world k" "wo_returncode sample_world = 0"
    "wo_started_at sample_world = sample_instant" "wo_finished_at sample_world = sample_instant"
    "wo_started_ns sample_world = 0" "wo_finished_ns sample_world = 9"
    for k by (simp_all add: sample_world_def)
  have budgets: "termination_time ExecutorSelfBudgets_default = Finite \<lparr>fd_max_ns = 30000000000\<rparr>"
    "join_time ExecutorSelfBudgets_default = UnbudgetedLimit" by (simp_all add: ExecutorSelfBudgets_default_def)
  have built: "execution_result run (ExitedOutcome 0) [] (res_payload_outputs sample_reported)
      \<lparr>ms_started_at = sample_instant, ms_finished_at = sample_instant, ms_duration_ns = 9, ms_teardown_duration_ns = 1,
       ms_input_bytes = 0, ms_protocol_bytes_received = 0\<rparr> = Inr sample_reported"
    if "fr_execution_id run = sample_id" for run
    using that
    by (simp add: execution_result_def ExecutionMeasurements_new_def require_utc_def sample_instant_def result_simps
        protocol_output_count_must_match_outcome_def protocol_output_count_matches_def sample_reported_def)
  have receipt: "finalized_receipt sample_ops run r [] u =
      (Inr (CompleteRecordReceipt (fr_execution_id run) (fr_reference run)), u\<lparr>en_log := en_log u @ [FinalizeCalled]\<rparr>)" for run r u
    by (simp add: finalized_receipt_def on_store_def sample_ops_def op_defs merged_receipt_def)
  have same: "res_execution_id sample_reported = sample_id" by (simp add: sample_reported_def)
  have target: "tg_stdin_bytes sample_resolved = []" "tg_request_id_sha256 sample_resolved = None" by (simp_all add: sample_resolved_def)
  have fed: "feed [] 0 (wo_feed sample_world) = Done (Fed, [])" by (simp add: feed.simps)
  show ?thesis
    by (simp add: carry_attempt_def attempt_op_def bind_op_def sample_observed tear_down_op_def tear_down_def reaped_within_def
      lift_loop_def log_all_def join_all_def transports_def join_workers_def worker_state_def p w budgets fed target
      lift_py_def raise_if_failed_def result_simps conclude_def drained_def Let_def complete_def completed_with_def
      outcome_of_def exit_outcome_def built receipt CompletedExecution_new_def same)
qed

lemma sample_spawned:
  "\<exists>t. run_spawned sample_engine_sv sample_ops ExecutorSelfBudgets_default sample_world sample_command sample_resolved
      (PreparedRun sample_id reference hdr d) program scratch False s =
    (Inr \<lparr>ce_result = sample_reported, ce_record_receipt = CompleteRecordReceipt sample_id reference\<rparr>, t)"
proof -
  have w: "wo_pipe_failure sample_world = None" "wo_launch sample_world = LaunchedAs 42"
    "\<not> wo_selector_fails sample_world OutputDrain" "\<not> tg_wants_protocol sample_resolved"
    by (simp_all add: sample_world_def sample_resolved_def)
  obtain n l where l: "s\<lparr>en_transports := fresh_transports False,
      en_log := en_log s @ concat (map (\<lambda>(r, wr). [Opened r, Opened wr]) (attempt_pipes False)) @
        [Launched program (tg_argv sample_resolved) scratch] @ map Closed (child_ends False)\<rparr> =
      \<lparr>en_store = n, en_log = l, en_transports = fresh_transports False\<rparr>" by (cases s) simp
  obtain t where t: "carry_attempt sample_engine_sv sample_ops ExecutorSelfBudgets_default sample_world sample_command sample_resolved
      (PreparedRun sample_id reference hdr d) 42 False
      \<lparr>en_store = n, en_log = l, en_transports = fresh_transports False\<rparr> =
    (Inr \<lparr>ce_result = sample_reported, ce_record_receipt = CompleteRecordReceipt sample_id reference\<rparr>, t)"
    using sample_carried by blast
  show ?thesis
    using w(4) l t
    by (simp add: run_spawned_def pipes_made [OF w(1)] w(2) try_finally_def attempt_op_def close_transports_def
        join_each_log [OF w(3)] op_defs)
qed

lemma sample_checks:
  "job_target sample_command = sample_target" "job_workspace sample_command = WorkingDirectoryGrant_scratch"
  "job_id sample_command = 1" "es_uuid5 sample_engine_sv = sample_uuid5" "validate_platform (es_platform sample_engine_sv) = Inr ()"
  "validate_declaration (es_canonical_identity sample_engine_sv) sample_command = Inr ()"
  "resolve_working_directory_grant (es_resolve sample_engine_sv) (es_is_dir sample_engine_sv) WorkingDirectoryGrant_scratch =
     Inr WorkingDirectoryGrant_scratch"
  "target_of (es_digest sample_engine_sv) (es_prepare sample_engine_sv) sample_target = Inr sample_resolved"
proof -
  have abs: "is_absolute (PurePosixPath ''/bin/echo'')" by (simp add: is_absolute_def PurePosixPath_def splitroot_def Let_def)
  show "validate_declaration (es_canonical_identity sample_engine_sv) sample_command = Inr ()"
    by (simp add: validate_declaration_def validate_input_budget_def sample_command_def sample_target_def Budgets_unbudgeted_def
        validate_working_directory_grant_def validate_command_resolvability_def WorkingDirectoryGrant_scratch_def result_simps abs)
qed (simp_all add: validate_platform_def SUPPORTED_PLATFORMS_def result_simps sample_command_def sample_target_def sample_engine_sv_def
    validate_working_directory_grant_def WorkingDirectoryGrant_scratch_def resolve_working_directory_grant_def sample_resolved_def
    first_argument_def)

text \<open>The sample job reaches the store whatever the rest of the world does.\<close>

lemma sample_reaches_store:
  assumes "prepared_record sample_engine_sv ExecutorSelfBudgets_default w sample_command sample_resolved sample_id
    WorkingDirectoryGrant_scratch = Inr (hdr, d)"
  shows "\<exists>program. run_execution sample_engine_sv ops ExecutorSelfBudgets_default w sample_command has_token s =
    bind_op (on_store PrepareCalled (op_prepare ops hdr d)) (\<lambda>prepared.
      if has_token \<and> wo_cancelled_before w
      then finalize_pre_spawn ops w prepared (CancelledOutcome False)
      else working_directory sample_engine_sv w WorkingDirectoryGrant_scratch (\<lambda>run_directory.
        run_spawned sample_engine_sv ops ExecutorSelfBudgets_default w sample_command sample_resolved prepared program run_directory
          has_token)) s"
proof -
  have external: "\<not> (\<exists>x y. job_target sample_command = InProcessImportableJsonTarget x y)"
    by (simp add: sample_checks(1) sample_target_def)
  have "\<exists>program. resolve_executable which (tg_argv sample_resolved) env = Inr program" for which env
    by (simp add: resolve_executable_def sample_resolved_def split: option.split)
  then obtain program where "resolve_executable (es_which sample_engine_sv) (tg_argv sample_resolved)
      (granted_environment (job_env sample_command)) = Inr program" by blast
  then show ?thesis
    using assms
    by (intro exI [of _ program])
      (simp add: run_execution_steps [OF external] sample_checks lift_py_def bind_op_def sample_id_def return_op_def)
qed

lemma sample_executed:
  "\<exists>hdr d t. run_execution sample_engine_sv sample_ops ExecutorSelfBudgets_default sample_world sample_command False s =
    (Inr \<lparr>ce_result = sample_reported,
      ce_record_receipt = CompleteRecordReceipt sample_id (fr_reference (prepared_run sample_uuid5 hdr d))\<rparr>, t)"
proof -
  have w: "wo_prepared_at sample_world = sample_instant" "wo_scratch sample_world = Inr ''/tmp/dr-exec-run-0''"
    by (simp_all add: sample_world_def)
  obtain hdr d where rec: "prepared_record sample_engine_sv ExecutorSelfBudgets_default sample_world sample_command sample_resolved
    sample_id WorkingDirectoryGrant_scratch = Inr (hdr, d)" using sample_prepared_record [OF w(1)] by blast
  have d: "dec_execution_id d = sample_id" using rec by (auto simp: prepared_record_def result_simps)
  from sample_reaches_store [OF rec, of sample_ops False s] obtain program where
    reaches: "run_execution sample_engine_sv sample_ops ExecutorSelfBudgets_default sample_world sample_command False s =
    bind_op (on_store PrepareCalled (op_prepare sample_ops hdr d)) (\<lambda>prepared.
      working_directory sample_engine_sv sample_world WorkingDirectoryGrant_scratch (\<lambda>run_directory.
        run_spawned sample_engine_sv sample_ops ExecutorSelfBudgets_default sample_world sample_command sample_resolved prepared program
          run_directory False)) s" by auto
  obtain t where t: "run_spawned sample_engine_sv sample_ops ExecutorSelfBudgets_default sample_world sample_command sample_resolved
      (prepared_run sample_uuid5 hdr d) program ''/tmp/dr-exec-run-0'' False
      (s\<lparr>en_log := en_log s @ [PrepareCalled, ScratchMade]\<rparr>) =
    (Inr \<lparr>ce_result = sample_reported,
      ce_record_receipt = CompleteRecordReceipt sample_id (fr_reference (prepared_run sample_uuid5 hdr d))\<rparr>, t)"
    using sample_spawned unfolding prepared_run_def d by fastforce
  have prepares: "op_prepare sample_ops hdr d = return_op (prepared_run sample_uuid5 hdr d)" by (simp add: sample_ops_def)
  show ?thesis
    unfolding reaches using t w(2)
    by (intro exI [of _ hdr] exI [of _ d])
      (simp add: prepares on_store_def working_directory_def WorkingDirectoryGrant_scratch_def op_defs try_finally_def attempt_op_def)
qed

section \<open>Witnesses of the engine's properties\<close>

theorem attempt_leaves_nothing_open_witness:
  "\<exists>c t. run_execution sample_engine_sv sample_ops ExecutorSelfBudgets_default sample_world sample_command False (fresh_engine 0) =
      (Inr c, t) \<and>
    mset (opens (en_log t)) = mset (closes (en_log t)) \<and> distinct (opens (en_log t))"
proof -
  have w: "selectors_made sample_world" "wo_pipe_failure sample_world = None" "wo_launch sample_world \<noteq> LaunchRaisesOther"
    "en_log (fresh_engine (0 :: nat)) = []" by (simp_all add: sample_world_def fresh_engine_def)
  obtain c t where r: "run_execution sample_engine_sv sample_ops ExecutorSelfBudgets_default sample_world sample_command False
      (fresh_engine 0) = (Inr c, t)" using sample_executed by blast
  from attempt_leaves_nothing_open [OF w r] r show ?thesis by blast
qed


section \<open>The order of a run\<close>

datatype milestone = RecordPrepared | ChildLaunched | RunningRecorded | ChildReaped | ResultRecorded

fun milestone_of :: "event \<Rightarrow> milestone list" where
  "milestone_of PrepareCalled = [RecordPrepared]"
| "milestone_of (Launched _ _ _) = [ChildLaunched]"
| "milestone_of MarkRunningCalled = [RunningRecorded]"
| "milestone_of Reaped = [ChildReaped]"
| "milestone_of FinalizeCalled = [ResultRecorded]"
| "milestone_of _ = []"

definition milestones :: "event list \<Rightarrow> milestone list" where
  "milestones log = concat (map milestone_of log)"

text \<open>The lives of an attempt: cancelled before it started, failed to set up, or run.\<close>

definition lives :: "milestone list list" where
  "lives =
     [[RecordPrepared, ResultRecorded],
      [RecordPrepared, ChildLaunched, ChildReaped, ResultRecorded],
      [RecordPrepared, ChildLaunched, RunningRecorded, ChildReaped, ResultRecorded]]"

definition reached :: "milestone list \<Rightarrow> 's engine \<Rightarrow> bool" where
  "reached ms s = (milestones (en_log s) = ms)"

lemma milestones_simps [simp]: "milestones [] = []" "milestones (a @ b) = milestones a @ milestones b"
  "milestones (e # a) = milestone_of e @ milestones a"
  by (simp_all add: milestones_def)

lemma milestones_none: "(\<And>e. e \<in> set es \<Longrightarrow> milestone_of e = []) \<Longrightarrow> milestones es = []"
  by (induction es) auto

lemma keeps_reached:
  fixes m :: "('s, 'a) engine_op"
  assumes "logs_only A m" and "\<And>e. e \<in> A \<Longrightarrow> milestone_of e = []"
  shows "keeps (\<lambda>s. Q (milestones (en_log s))) m"
  unfolding keeps_def
proof (intro allI impI)
  fix s :: "'s engine"
  assume q: "Q (milestones (en_log s))"
  obtain es where es: "set es \<subseteq> A" "en_log (snd (m s)) = en_log s @ es" using assms(1) unfolding logs_only_def by blast
  from es(1) have "milestones es = []" using assms(2) by (intro milestones_none) blast
  then show "Q (milestones (en_log (snd (m s))))" using q es(2) by simp
qed

lemma transport_milestones: "e \<in> transport_events \<Longrightarrow> milestone_of e = []"
  by (auto simp: transport_events_def)

lemma triple_reached:
  assumes "logs_only transport_events m"
  shows "triple (reached ms) m (\<lambda>_. reached ms) (\<lambda>_. reached ms)"
  using keeps_reached [OF assms transport_milestones, of "\<lambda>l. l = ms"] by (simp add: triple_keeps [symmetric] reached_def [abs_def])

lemma triple_on_store:
  "triple (reached ms) (on_store e m) (\<lambda>_. reached (ms @ milestone_of e)) (\<lambda>_. reached (ms @ milestone_of e))"
  by (auto simp: triple_def on_store_def reached_def split: prod.split sum.split)

lemma triple_log_event: "triple (reached ms) (log_event e) (\<lambda>_. reached (ms @ milestone_of e)) E"
  by (simp add: triple_def log_event_def reached_def)

text \<open>A \<^verbatim>\<open>finally\<close> block that changes nothing the postconditions speak of.\<close>

lemma triple_try_finally:
  assumes m: "triple P m Q E" and f: "\<And>x. keeps (Q x) f" "\<And>e. e \<noteq> Stuck \<Longrightarrow> keeps (E e) f"
    and weaker: "\<And>x e s. Q x s \<Longrightarrow> E e s" "\<And>e e' s. e \<noteq> Stuck \<Longrightarrow> E e s \<Longrightarrow> E e' s"
  shows "triple P (try_finally m f) Q E"
  unfolding try_finally_def
proof (rule triple_bind)
  show "triple P (attempt_op m) (\<lambda>r s. case r of Inl e \<Rightarrow> e \<noteq> Stuck \<and> E e s | Inr x \<Rightarrow> Q x s) E"
    using m unfolding triple_def attempt_op_def by (fastforce split: prod.splits sum.splits engine_exn.splits)
next
  fix r :: "engine_exn + 'b"
  show "triple (\<lambda>s. case r of Inl e \<Rightarrow> e \<noteq> Stuck \<and> E e s | Inr x \<Rightarrow> Q x s) (bind_op f (\<lambda>_. lift_op r)) Q E"
  proof (cases r)
    case (Inl e)
    show ?thesis
    proof (cases "e = Stuck")
      case False
      then have "keeps (E e) f" by (rule f(2))
      then show ?thesis
        using weaker(2) [OF False] Inl unfolding keeps_def triple_def bind_op_def by (fastforce split: prod.splits sum.splits)
    qed (simp add: Inl triple_def)
  next
    case (Inr x)
    then show ?thesis
      using f(1) [of x] weaker(1) [of x] unfolding keeps_def triple_def bind_op_def by (fastforce split: prod.splits sum.splits)
  qed
qed


text \<open>A life up to the launched child, with or without its running record.\<close>

definition alive :: "'s engine \<Rightarrow> bool" where
  "alive s = (reached [RecordPrepared, ChildLaunched] s \<or> reached [RecordPrepared, ChildLaunched, RunningRecorded] s)"

definition reaped :: "'s engine \<Rightarrow> bool" where
  "reaped s = (\<exists>ms. (ms = [RecordPrepared, ChildLaunched] \<or> ms = [RecordPrepared, ChildLaunched, RunningRecorded]) \<and>
     reached (ms @ [ChildReaped]) s)"

definition recorded :: "'s engine \<Rightarrow> bool" where
  "recorded s = (\<exists>ms. (ms = [RecordPrepared, ChildLaunched] \<or> ms = [RecordPrepared, ChildLaunched, RunningRecorded]) \<and>
     reached (ms @ [ChildReaped, ResultRecorded]) s)"

definition broken :: "engine_exn \<Rightarrow> 's engine \<Rightarrow> bool" where
  "broken e s = (reaped s \<or> recorded s \<or> e = Stuck \<and> alive s)"

lemmas life_defs = alive_def reaped_def recorded_def broken_def

lemma observe_alive:
  "triple (reached [RecordPrepared, ChildLaunched]) (observe_attempt sv ops self_budgets w job target prepared pid has_token)
     (\<lambda>_. alive) (\<lambda>_. alive)"
proof -
  have mark: "triple (reached [RecordPrepared, ChildLaunched]) (mark_running_op ops w prepared pid) (\<lambda>_. alive) (\<lambda>_. alive)"
    by (auto simp: triple_def mark_running_op_def on_store_def op_defs reached_def alive_def
        split: prod.split sum.split engine_exn.split py_exn.split)
  have kept: "keeps alive (lift_loop l)" for l :: "StopReason option loop" by (rule keeps_lift_loop)
  have rest: "triple (reached [RecordPrepared, ChildLaunched]) (bind_op (mark_running_op ops w prepared pid) (\<lambda>(running, recording_failures).
      bind_op (lift_loop (await_child (deadline_ns job (wo_started_ns w)) (fails_on_overflow job) has_token (wo_polls w))) (\<lambda>stop.
        return_op (ReachedPayload q stop running recording_failures)))) (\<lambda>_. alive) (\<lambda>_. alive)" for q
    by (rule triple_bind [OF mark])
      (auto intro!: triple_keeps [THEN iffD1] keeps_bind kept keeps_return split: prod.split)
  have start: "triple (reached [RecordPrepared, ChildLaunched]) (start_transports w target)
      (\<lambda>_. reached [RecordPrepared, ChildLaunched]) (\<lambda>_. alive)"
    by (rule triple_weaken [OF triple_reached [OF start_transports_logs, where ms = "[RecordPrepared, ChildLaunched]"]]) (simp_all add: alive_def)
  have status: "triple (reached [RecordPrepared, ChildLaunched]) (setup_status w self_budgets)
      (\<lambda>_. reached [RecordPrepared, ChildLaunched]) (\<lambda>_. alive)"
    by (rule triple_weaken [OF triple_reached [OF setup_status_logs, where ms = "[RecordPrepared, ChildLaunched]"]]) (simp_all add: alive_def)
  have failed: "triple (reached [RecordPrepared, ChildLaunched]) (return_op x) (\<lambda>_. alive) (\<lambda>_. alive)" for x :: AttemptResult
    by (simp add: triple_def alive_def)
  show ?thesis
    unfolding observe_attempt_def
    by (rule triple_bind [OF status])
      (auto split: option.split intro!: failed triple_bind [OF triple_transports] triple_bind [OF start] rest)
qed

lemma tear_down_reaps:
  "triple alive (tear_down_op w self_budgets leads) (\<lambda>_. reaped) (\<lambda>e s. e = Stuck \<and> alive s)"
proof -
  have none: "milestones (map Signalled ss) = []" for ss by (rule milestones_none) auto
  show ?thesis
    unfolding triple_def tear_down_op_def
    by (auto simp: op_defs lift_loop_def life_defs reached_def none split: loop.split)
qed

lemma conclude_records:
  "triple reaped (conclude sv ops self_budgets w target prepared ns observed) (\<lambda>_. recorded) (\<lambda>_ s. reaped s \<or> recorded s)"
proof -
  have receipt: "triple reaped (finalized_receipt ops run r prior) (\<lambda>_. recorded) (\<lambda>_. recorded)" for run r prior
    by (auto simp: triple_def finalized_receipt_def on_store_def op_defs reached_def reaped_def recorded_def
        split: prod.split sum.split engine_exn.split py_exn.split)
  have completed: "triple reaped (completed_with ops run prior built) (\<lambda>_. recorded) (\<lambda>_ s. reaped s \<or> recorded s)" for run prior built
    unfolding completed_with_def
  proof (rule triple_bind)
    show "triple reaped (lift_py built) (\<lambda>_. reaped) (\<lambda>_ s. reaped s \<or> recorded s)" by (rule triple_lift_py) simp
    show "triple reaped (bind_op (finalized_receipt ops run r prior) (\<lambda>receipt. lift_py (CompletedExecution_new
        \<lparr>ce_result = r, ce_record_receipt = receipt\<rparr>))) (\<lambda>_. recorded) (\<lambda>_ s. reaped s \<or> recorded s)" for r
      by (rule triple_bind [OF triple_weaken [OF receipt]], assumption, assumption, simp) (rule triple_lift_py, simp)
  qed
  have snapshot: "triple reaped (lift_py x) (\<lambda>_. reaped) (\<lambda>_ s. reaped s \<or> recorded s)" for x :: "(py_exn, PayloadOutputs) result"
    by (rule triple_lift_py) simp
  show ?thesis
    unfolding conclude_def complete_def Let_def
    by (auto split: AttemptResult.split intro!: completed triple_bind [OF snapshot])
qed


lemma keeps_life:
  assumes "logs_only A m" and "\<And>e. e \<in> A \<Longrightarrow> milestone_of e = []"
  shows "keeps alive m" "keeps reaped m" "keeps recorded m" "keeps (broken e) m"
  using keeps_reached [OF assms, of "\<lambda>l. l = [RecordPrepared, ChildLaunched] \<or> l = [RecordPrepared, ChildLaunched, RunningRecorded]"]
    keeps_reached [OF assms, of "\<lambda>l. \<exists>ms. (ms = [RecordPrepared, ChildLaunched] \<or> ms = [RecordPrepared, ChildLaunched, RunningRecorded]) \<and>
      l = ms @ [ChildReaped]"]
    keeps_reached [OF assms, of "\<lambda>l. \<exists>ms. (ms = [RecordPrepared, ChildLaunched] \<or> ms = [RecordPrepared, ChildLaunched, RunningRecorded]) \<and>
      l = ms @ [ChildReaped, ResultRecorded]"]
  unfolding keeps_def life_defs reached_def by blast+

lemma carry_records:
  "triple (reached [RecordPrepared, ChildLaunched]) (carry_attempt sv ops self_budgets w job target prepared pid has_token)
     (\<lambda>_. recorded) broken"
  unfolding carry_attempt_def
proof (rule triple_bind)
  show "triple (reached [RecordPrepared, ChildLaunched]) (attempt_op (observe_attempt sv ops self_budgets w job target prepared pid has_token))
      (\<lambda>_. alive) broken"
    using observe_alive [of sv ops self_budgets w job target prepared pid has_token]
    unfolding triple_def attempt_op_def broken_def by (fastforce split: prod.splits sum.splits engine_exn.splits)
next
  fix r :: "engine_exn + AttemptResult"
  have lifted: "triple reaped (lift_op r) (\<lambda>_. reaped) broken"
    by (rule triple_lift) (simp_all add: broken_def)
  have joins: "triple reaped (join_all w self_budgets target p) (\<lambda>_. reaped) broken" for p
    by (rule triple_weaken [OF triple_keeps [THEN iffD1, OF keeps_join_all [where P = reaped]]]) (simp_all add: broken_def)
  have ends: "triple reaped (conclude sv ops self_budgets w target prepared ns observed) (\<lambda>_. recorded) broken" for ns observed
    by (rule triple_weaken [OF conclude_records]) (auto simp: broken_def)
  have tears: "triple alive (tear_down_op w self_budgets leads) (\<lambda>_. reaped) broken" for leads
    by (rule triple_weaken [OF tear_down_reaps]) (auto simp: broken_def)
  show "triple alive (bind_op (tear_down_op w self_budgets (case r of Inl _ \<Rightarrow> True | Inr observed \<Rightarrow> leads_group observed)) (\<lambda>ns.
      bind_op (lift_op r) (\<lambda>observed. bind_op (join_all w self_budgets target (attempt_pump observed)) (\<lambda>_.
       conclude sv ops self_budgets w target prepared ns observed)))) (\<lambda>_. recorded) broken"
    by (intro triple_bind [OF tears] triple_bind [OF lifted] triple_bind [OF joins] ends)
qed

definition prepared_only :: "'s engine \<Rightarrow> bool" where
  "prepared_only s = reached [RecordPrepared] s"

lemma run_spawned_records:
  "triple prepared_only (run_spawned sv ops self_budgets w job target prepared program scratch has_token)
     (\<lambda>_. recorded) (\<lambda>e s. prepared_only s \<or> broken e s)"
proof -
  let ?E = "\<lambda>e s. prepared_only s \<or> broken e s"
  have quiet: "triple prepared_only m (\<lambda>_. prepared_only) ?E" if "logs_only transport_events m" for m :: "('s, 'z) engine_op"
    using triple_weaken [OF triple_reached [OF that, of "[RecordPrepared]"]] by (simp add: prepared_only_def [abs_def])
  have close: "logs_only transport_events (close_descriptors ds)" for ds by (auto simp: close_descriptors_def)
  have launched: "triple prepared_only (log_event (Launched program (tg_argv target) scratch))
      (\<lambda>_. reached [RecordPrepared, ChildLaunched]) ?E"
    by (simp add: triple_def log_event_def reached_def prepared_only_def)
  have no_milestone: "milestones (map Closed ds) = []" for ds by (rule milestones_none) auto
  have closed: "triple (reached [RecordPrepared, ChildLaunched]) (close_descriptors ds) (\<lambda>_. reached [RecordPrepared, ChildLaunched]) ?E"
    for ds by (simp add: close_descriptors_def triple_def log_all_def reached_def no_milestone)
  have carried: "triple (reached [RecordPrepared, ChildLaunched])
      (try_finally (carry_attempt sv ops self_budgets w job target prepared pid has_token) (close_transports w)) (\<lambda>_. recorded) ?E" for pid
  proof (rule triple_weaken [OF triple_try_finally [OF carry_records]])
    show "keeps recorded (close_transports w)" "keeps (broken e) (close_transports w)" for e
      by (rule keeps_life [OF close_transports_logs transport_milestones], assumption)+
  qed (auto simp: broken_def)
  have raised: "triple prepared_only (raise_op e) (\<lambda>_. recorded) ?E" for e :: engine_exn by (simp add: triple_def)
  have started: "triple prepared_only (case wo_launch w of
         LaunchRaisesOsError e \<Rightarrow>
           bind_op (close_descriptors (child_ends (tg_wants_protocol target))) (\<lambda>_.
           bind_op (close_transports w) (\<lambda>_.
             raise_op (Raised (ExecutorFailure ''could not start the execution bootstrap''
               ExecutorFailureCode.BOOTSTRAP_START_FAILED))))
       | LaunchRaisesOther \<Rightarrow> raise_op OtherRaised
       | LaunchedAs pid \<Rightarrow>
           bind_op (log_event (Launched program (tg_argv target) scratch)) (\<lambda>_.
           bind_op (close_descriptors (child_ends (tg_wants_protocol target))) (\<lambda>_.
             try_finally (carry_attempt sv ops self_budgets w job target prepared pid has_token) (close_transports w)))) (\<lambda>_. recorded) ?E"
    by (auto split: launch_obs.split intro!: triple_bind [OF quiet [OF close]] triple_bind [OF quiet [OF close_transports_logs]] raised
        triple_bind [OF launched] triple_bind [OF closed] carried)
  show ?thesis
    unfolding run_spawned_def by (intro triple_bind [OF quiet] started pipes_logs logs_only_simple)
qed

lemma working_directory_records:
  fixes ops :: "'s store_ops"
  shows "triple prepared_only (working_directory sv w grant (\<lambda>d. run_spawned sv ops self_budgets w job target prepared program d has_token))
     (\<lambda>_. recorded) (\<lambda>e s. prepared_only s \<or> broken e s)"
proof -
  let ?E = "\<lambda>e s. prepared_only s \<or> broken e s"
  let ?body = "\<lambda>d. run_spawned sv ops self_budgets w job target prepared program d has_token"
  have none: "logs_only {ScratchRemoved} (log_event ScratchRemoved :: ('s, unit) engine_op)" by simp
  have made: "triple prepared_only (log_event ScratchMade) (\<lambda>_. prepared_only) ?E"
    by (simp add: triple_def log_event_def reached_def prepared_only_def)
  have kept: "keeps recorded (log_event ScratchRemoved :: ('s, unit) engine_op)"
    "keeps (\<lambda>s. prepared_only s \<or> broken e s) (log_event ScratchRemoved :: ('s, unit) engine_op)" for e
    using keeps_life [OF none] keeps_reached [OF none, of "\<lambda>l. l = [RecordPrepared]"]
    by (auto simp: keeps_def prepared_only_def reached_def)
  have removed: "triple prepared_only (try_finally (?body d) (log_event ScratchRemoved)) (\<lambda>_. recorded) ?E" for d
    by (rule triple_try_finally [OF run_spawned_records kept]) (auto simp: broken_def)
  have raised: "triple prepared_only (raise_op e) (\<lambda>_. recorded) ?E" for e :: engine_exn by (simp add: triple_def)
  show ?thesis
    using run_spawned_records
    by (auto simp: working_directory_def split: WorkingDirectoryGrantKind.split sum.split option.split
        intro!: triple_bind [OF made] removed raised)
qed


definition lived :: "engine_exn option \<Rightarrow> 's engine \<Rightarrow> bool" where
  "lived e s =
     (\<exists>life\<in>set lives. prefix (milestones (en_log s)) life \<and> (e = None \<longrightarrow> milestones (en_log s) = life) \<and>
        (e \<noteq> Some Stuck \<longrightarrow> ChildLaunched \<in> set (milestones (en_log s)) \<longrightarrow> ChildReaped \<in> set (milestones (en_log s))))"

lemma livedI:
  "reached [] s \<Longrightarrow> e \<noteq> None \<Longrightarrow> lived e s" "prepared_only s \<Longrightarrow> e \<noteq> None \<Longrightarrow> lived e s"
  "reached [RecordPrepared, ResultRecorded] s \<Longrightarrow> lived e s" "recorded s \<Longrightarrow> lived e s" "broken x s \<Longrightarrow> lived (Some x) s"
  by (auto simp: lived_def lives_def reached_def prepared_only_def life_defs)

text \<open>
  C5: the engine touches the child and the record in one order only. Whatever the operating system
  and the store do, a run goes through a prefix of one of three lives: prepare and finalize when it
  was cancelled first, or prepare, launch, mark as running unless the set-up failed, reap and
  finalize. A run that returns a completion has gone through the whole of it, and one that raises
  has reaped the child it launched.
\<close>

theorem run_follows_one_life:
  assumes "en_log s = []" and "run_execution sv ops self_budgets w job has_token s = (r, t)"
  shows "\<exists>life\<in>set lives. prefix (milestones (en_log t)) life \<and> (isl r \<or> milestones (en_log t) = life) \<and>
    (r = Inl Stuck \<or> ChildLaunched \<notin> set (milestones (en_log t)) \<or> ChildReaped \<in> set (milestones (en_log t)))"
proof -
  let ?Q = "\<lambda>_. lived None" and ?E = "\<lambda>e. lived (Some e)"
  have lifts: "triple (reached []) (lift_py x) (\<lambda>_. reached []) ?E" for x :: "(py_exn, 'z) result"
    by (rule triple_lift_py) (simp add: livedI)
  have prepares: "triple (reached []) (on_store PrepareCalled m) (\<lambda>_. prepared_only) ?E" for m :: "('s, store_failure, FinalizableRun) op"
    by (rule triple_weaken [OF triple_on_store [where ms = "[]"]]) (auto simp: prepared_only_def intro: livedI)
  have spawns: "triple prepared_only (working_directory sv w grant
      (\<lambda>d. run_spawned sv ops self_budgets w job target prepared program d has_token)) ?Q ?E" for grant target prepared program
    by (rule triple_weaken [OF working_directory_records]) (auto intro: livedI)
  have receipts: "triple prepared_only (finalized_receipt ops run x prior) (\<lambda>_. reached [RecordPrepared, ResultRecorded])
      (\<lambda>_. reached [RecordPrepared, ResultRecorded])" for run x prior
    by (auto simp: triple_def finalized_receipt_def on_store_def op_defs reached_def prepared_only_def
        split: prod.split sum.split engine_exn.split py_exn.split)
  have built: "triple prepared_only (lift_py x) (\<lambda>_. prepared_only) ?E" for x :: "(py_exn, ExecutionResult) result"
    by (rule triple_lift_py) (simp add: livedI)
  have complete: "triple (reached [RecordPrepared, ResultRecorded]) (lift_py x) ?Q ?E" for x :: "(py_exn, CompletedExecution) result"
    by (rule triple_weaken [OF triple_lift_py [where P = "reached [RecordPrepared, ResultRecorded]" and E = "\<lambda>_. reached [RecordPrepared, ResultRecorded]"]])
      (auto intro: livedI)
  have cancelled: "triple prepared_only (finalize_pre_spawn ops w prepared outcome) ?Q ?E" for prepared outcome
    unfolding finalize_pre_spawn_def completed_with_def
    by (rule triple_bind [OF built], rule triple_bind [OF triple_weaken [OF receipts]], assumption, assumption)
      (auto intro: livedI complete)
  have "triple (reached []) (run_execution sv ops self_budgets w job has_token) ?Q ?E"
  proof (cases "\<exists>entry_point request. job_target job = InProcessImportableJsonTarget entry_point request")
    case True
    then show ?thesis by (auto simp: run_execution_def triple_def livedI(1))
  next
    case False
    show ?thesis
      unfolding run_execution_steps [OF False]
      by (intro triple_bind [OF lifts]) (auto intro!: triple_bind [OF prepares] cancelled spawns split: prod.split)
  qed
  from tripleD [OF this _ assms(2)] assms(1) show ?thesis
    by (cases r) (auto simp: lived_def reached_def)
qed

theorem run_follows_one_life_witness:
  "\<exists>c t. run_execution sample_engine_sv sample_ops ExecutorSelfBudgets_default sample_world sample_command False (fresh_engine 0) =
      (Inr c, t) \<and> milestones (en_log t) \<in> set lives"
proof -
  obtain c t where r: "run_execution sample_engine_sv sample_ops ExecutorSelfBudgets_default sample_world sample_command False
      (fresh_engine 0) = (Inr c, t)" using sample_executed by blast
  have "en_log (fresh_engine (0 :: nat)) = []" by (simp add: fresh_engine_def)
  from run_follows_one_life [OF this r] r show ?thesis by auto
qed


section \<open>What a completion reports\<close>

lemma try_finally_Inr:
  assumes "try_finally m f s = (Inr x, t)"
  obtains u where "m s = (Inr x, u)" "f u = (Inr (), t)"
  using assms by (auto simp: try_finally_def attempt_op_def op_simps split: prod.splits sum.splits engine_exn.splits)

lemma attempt_op_Inr: "attempt_op m s = (Inr r, t) \<longleftrightarrow> m s = (r, t) \<and> r \<noteq> Inl Stuck"
  by (auto simp: attempt_op_def split: prod.splits sum.splits engine_exn.splits)

lemma lift_simps:
  "lift_py r s = (Inr x, t) \<longleftrightarrow> r = Inr x \<and> t = s" "lift_loop l s = (Inr y, t) \<longleftrightarrow> l = Done y \<and> t = s"
  by (auto simp: lift_py_def lift_loop_def split: sum.splits loop.splits)

lemma start_transports_drains:
  assumes "start_transports w target s = (Inr (), t)" and "en_transports s = fresh_transports b"
  shows "OutputDrain \<in> set (tp_threads (en_transports t))"
proof -
  have "wo_thread_starts w StdinFeeder \<and> wo_thread_starts w OutputDrain"
    using assms
    by (cases b; cases "wo_thread_starts w StdinFeeder"; cases "wo_thread_starts w OutputDrain")
      (simp_all add: start_transports_def adopt_started_def take_stdin_def take_protocol_forward_write_def
        started_thread_def adopt_def op_defs fresh_transports_def split: if_splits)
  then show ?thesis
    using assms
    by (cases "wo_thread_starts w ProtocolReader"; cases b; cases "tg_request_id_sha256 target")
      (auto simp: start_transports_def adopt_started_def take_stdin_def take_protocol_forward_write_def
        take_protocol_reader_def started_thread_def adopt_def op_defs fresh_transports_def)
qed

definition draining :: "'s engine \<Rightarrow> bool" where
  "draining s = (OutputDrain \<in> set (tp_threads (en_transports s)))"

lemma draining_log [simp]: "draining (s\<lparr>en_log := l\<rparr>) = draining s" "draining (s\<lparr>en_store := x\<rparr>) = draining s"
  by (simp_all add: draining_def)

lemma observe_reaches_payload:
  assumes "observe_attempt sv ops self_budgets w job target prepared pid has_token s = (Inr observed, t)"
    and "en_transports s = fresh_transports b"
    and "read_setup_status (duration_limit (startup_time self_budgets)) (wo_status_ns w) (wo_status w) = Done (StatusBytes line)"
    and "parse_setup_status (es_loads sv) line = None"
  obtains stop running failures where
    "observed = ReachedPayload (fresh_pump (payload_output (job_budgets job)) b) stop running failures"
    "await_child (deadline_ns job (wo_started_ns w)) (fails_on_overflow job) has_token (wo_polls w) = Done stop"
    "draining t"
proof -
  have status: "setup_status w self_budgets s = (Inr l, u) \<Longrightarrow> l = line \<and> u = s" for l u
    using assms(3) by (auto simp: setup_status_def op_simps lift_simps raise_op_def return_op_def split: option.splits status_end.splits)
  have protocol: "(\<exists>y. tp_protocol (en_transports s) = Some y) \<longleftrightarrow> b" using assms(2) by (simp add: fresh_transports_def)
  have marked: "keeps draining (mark_running_op ops w prepared pid)" by (rule keeps_mark_running_op) simp
  from assms(1) obtain u running failures v stop where steps:
    "start_transports w target s = (Inr (), u)" "mark_running_op ops w prepared pid u = (Inr (running, failures), v)"
    "await_child (deadline_ns job (wo_started_ns w)) (fails_on_overflow job) has_token (wo_polls w) = Done stop"
    "observed = ReachedPayload (fresh_pump (payload_output (job_budgets job)) b) stop running failures" "t = v"
    unfolding observe_attempt_def
    by (auto simp: op_simps lift_simps transports_def return_op_def protocol assms(4) dest!: status split: prod.splits)
  have "draining u" using start_transports_drains [OF steps(1) assms(2)] by (simp add: draining_def)
  then have "draining t" using keepsD [OF marked _ steps(2)] steps(5) by simp
  then show thesis using that steps by blast
qed

lemma join_all_pumped:
  assumes "join_all w self_budgets target p s = (Inr (), t)" and "draining s"
  obtains p' where "run_pump w p = Done (True, p')"
proof -
  from assms(1) obtain r where j: "join_workers (duration_limit (join_time self_budgets))
      (map (\<lambda>worker. (transport_name worker, worker_state w target p worker)) (tp_threads (en_transports s))) = Done (Inr r)"
    by (auto simp: join_all_def transports_def op_simps lift_simps)
  have "worker_state w target p OutputDrain = EndedWell"
  proof -
    let ?ends = "map (\<lambda>worker. (transport_name worker, worker_state w target p worker)) (tp_threads (en_transports s))"
    have m: "(transport_name OutputDrain, worker_state w target p OutputDrain) \<in> set ?ends"
      using assms(2) unfolding draining_def set_map by (intro image_eqI [where x = OutputDrain]) simp_all
    have ended: "StillAlive \<notin> snd ` set ends \<and> for_each raise_if_failed ends = Inr r"
      if "join_workers limit ends = Done (Inr r)" for limit and ends :: "(string \<times> worker_end) list"
      using that by (cases "StillAlive \<in> snd ` set ends") (simp_all add: join_workers_def split: if_splits)
    have alive: "StillAlive \<notin> snd ` set ?ends" using ended [OF j] ..
    have "\<forall>x\<in>set ?ends. raise_if_failed x = Inr ()" by (rule for_each_eq_Inr [THEN iffD1, OF conjunct2 [OF ended [OF j]]])
    then have "raise_if_failed (transport_name OutputDrain, worker_state w target p OutputDrain) = Inr ()"
      using m by (rule bspec)
    moreover have "worker_state w target p OutputDrain \<noteq> StillAlive" using m alive by force
    ultimately show ?thesis
      by (cases "worker_state w target p OutputDrain") (simp_all add: raise_if_failed_def result_simps)
  qed
  then show thesis
    using that by (auto simp: worker_state_def split: loop.splits prod.splits bool.splits)
qed


lemma pump_fixed:
  assumes "pump selects p = Done p'"
  shows "pm_forwards p' = pm_forwards p" and "dr_protocol_result (pm_state p') = dr_protocol_result (pm_state p)"
proof -
  have step: "pm_forwards (pump_key_step k p) = pm_forwards p \<and>
      dr_protocol_result (pm_state (pump_key_step k p)) = dr_protocol_result (pm_state p)" for k p
    by (cases k) (auto simp: pump_offer_def Let_def split: option.split)
  have keys: "pump_keys ks p = (q, p') \<Longrightarrow> pm_forwards p' = pm_forwards p \<and>
      dr_protocol_result (pm_state p') = dr_protocol_result (pm_state p)" for ks p q p'
    by (induction ks arbitrary: p) (auto simp: step split: if_splits)
  have "pm_forwards p' = pm_forwards p \<and> dr_protocol_result (pm_state p') = dr_protocol_result (pm_state p)"
    using assms
  proof (induction selects arbitrary: p)
    case Nil
    then show ?case by (simp add: pump.simps [of "[]"] split: if_splits)
  next
    case (Cons ks selects)
    obtain q p1 where "pump_keys ks p = (q, p1)" by (cases "pump_keys ks p")
    then show ?case using Cons keys [of ks p q p1] by (auto simp: pump.simps [of "ks # selects"] split: if_splits)
  qed
  then show "pm_forwards p' = pm_forwards p" "dr_protocol_result (pm_state p') = dr_protocol_result (pm_state p)" by simp_all
qed

lemma completed_with_result: "completed_with ops run prior built s = (Inr c, t) \<Longrightarrow> built = Inr (ce_result c)"
  by (auto simp: completed_with_def op_simps lift_simps CompletedExecution_new_def split: if_splits)

lemma execution_result_fields:
  "execution_result run outcome outputs payload ms = Inr r \<Longrightarrow>
     res_execution_id r = fr_execution_id run \<and> res_outcome r = outcome \<and> res_protocol_outputs r = outputs \<and> res_payload_outputs r = payload"
  by (auto simp: execution_result_def protocol_output_count_must_match_outcome_def result_simps split: if_splits)

definition over_budget :: "OutputBudget \<Rightarrow> bytes \<Rightarrow> bytes \<Rightarrow> bool" where
  "over_budget budget out err =
     (case budget of Finite b \<Rightarrow> int (length out) + int (length err) > fo_max_bytes b | UnbudgetedLimit \<Rightarrow> False)"

text \<open>
  C6: a completion reports what the child did. When the set-up reached the payload and the engine
  returns a completion, its payload outputs are what the child wrote to the two streams up to their
  ends, retained under the budget; its protocol outputs are what the protocol reader accepts of the
  bytes the child wrote to the protocol pipe; and its outcome is the first that applies of the
  exceeded output budget, the reason the wait stopped, the failure of the protocol and the exit.
\<close>

theorem completion_reports_payload:
  assumes returned: "run_spawned sv ops self_budgets w job target prepared program scratch has_token s = (Inr c, t)"
    and status: "read_setup_status (duration_limit (startup_time self_budgets)) (wo_status_ns w) (wo_status w) = Done (StatusBytes line)"
      "parse_setup_status (es_loads sv) line = None"
    and whole: "ReleaseReady \<notin> \<Union> (set ` set (wo_pump w))" "\<forall>k\<in>\<Union> (set ` set (wo_pump w)). forwards_whole k"
    and budget: "case payload_output (job_budgets job) of Finite b \<Rightarrow> FiniteOutput_ok b | UnbudgetedLimit \<Rightarrow> True"
    and target: "tg_wants_protocol target \<longleftrightarrow> tg_request_id_sha256 target \<noteq> None"
    and written: "out = bytes_until_end (reads_of Stdout (concat (wo_pump w)))" "err = bytes_until_end (reads_of Stderr (concat (wo_pump w)))"
      "frames = bytes_until_end (protocol_reads (concat (wo_pump w)))"
  shows "\<exists>stop protocol.
    await_child (deadline_ns job (wo_started_ns w)) (fails_on_overflow job) has_token (wo_polls w) = Done stop \<and>
    protocol = map_option (\<lambda>digest. read_protocol_stream (es_codec sv) frames digest self_budgets) (tg_request_id_sha256 target) \<and>
    res_payload_outputs (ce_result c) =
      \<lparr>po_stdout = retained (stream_budget Stdout (payload_output (job_budgets job))) out,
       po_stderr = retained (stream_budget Stderr (payload_output (job_budgets job))) err\<rparr> \<and>
    res_protocol_outputs (ce_result c) = (case protocol of None \<Rightarrow> [] | Some p \<Rightarrow> psr_outputs p) \<and>
    res_outcome (ce_result c) =
      (if over_budget (payload_output (job_budgets job)) out err then BudgetExceededOutcome BudgetAxis.PAYLOAD_OUTPUT
       else if map_option sp_axis stop = Some (Some BudgetAxis.WALL_TIME) then BudgetExceededOutcome BudgetAxis.WALL_TIME
       else if map_option sp_cancelled stop = Some True then CancelledOutcome True
       else case protocol of
         None \<Rightarrow> exit_outcome (wo_returncode w)
       | Some p \<Rightarrow>
           (case psr_failure p of
              None \<Rightarrow> exit_outcome (wo_returncode w)
            | Some f \<Rightarrow> ProtocolFailedOutcome (pf_code f) (pf_detail f) (int (length (psr_outputs p)))))"
proof -
  let ?b = "tg_wants_protocol target"
  from returned obtain pid u v where carried: "carry_attempt sv ops self_budgets w job target prepared pid has_token u = (Inr c, v)"
    and u: "en_transports u = fresh_transports ?b"
    unfolding run_spawned_def
    by (auto simp: op_simps set_transports_def log_event_def close_descriptors_def log_all_def raise_op_def
        split: launch_obs.splits elim!: try_finally_Inr)
  from carried obtain observed x y ns z where steps:
    "observe_attempt sv ops self_budgets w job target prepared pid has_token u = (Inr observed, x)"
    "tear_down_op w self_budgets (leads_group observed) x = (Inr ns, y)"
    "join_all w self_budgets target (attempt_pump observed) y = (Inr (), z)"
    "conclude sv ops self_budgets w target prepared ns observed z = (Inr c, v)"
    unfolding carry_attempt_def by (auto simp: op_simps attempt_op_Inr)
  from observe_reaches_payload [OF steps(1) u status] obtain stop running failures where
    observed: "observed = ReachedPayload (fresh_pump (payload_output (job_budgets job)) ?b) stop running failures"
    and waited: "await_child (deadline_ns job (wo_started_ns w)) (fails_on_overflow job) has_token (wo_polls w) = Done stop"
    and x: "draining x" .
  have "draining y"
    using steps(2) x by (auto simp: tear_down_op_def op_simps lift_simps log_all_def split: prod.splits)
  from join_all_pumped [OF steps(3) this] observed obtain p where
    p: "run_pump w (fresh_pump (payload_output (job_budgets job)) ?b) = Done (True, p)" by auto
  then have pumped: "pump (wo_pump w) (fresh_pump (payload_output (job_budgets job)) ?b) = Done p"
    by (auto simp: run_pump_def split: if_splits loop.splits)
  note kept = drain_keeps_what_was_written [OF pumped whole budget written(1,2)]
  have fresh: "dr_protocol_result (pm_state p) = None" "pm_forwards p \<longleftrightarrow> ?b"
    using pump_fixed [OF pumped] by (simp_all add: fresh_pump_def)
  define protocol where "protocol = map_option (\<lambda>digest. read_protocol_stream (es_codec sv) frames digest self_budgets) (tg_request_id_sha256 target)"
  have unset: "q\<lparr>dr_protocol_result := None\<rparr> = q" if "dr_protocol_result q = None" for q :: DrainState using that by (cases q) simp
  have drained: "drained sv self_budgets w target (fresh_pump (payload_output (job_budgets job)) ?b) = (pm_state p)\<lparr>dr_protocol_result := protocol\<rparr>"
    using kept fresh p target written(3) unset by (cases "tg_request_id_sha256 target") (simp_all add: drained_def protocol_def fresh_pump_def)
  define outcome where "outcome = outcome_of (wo_returncode w) ((pm_state p)\<lparr>dr_protocol_result := protocol\<rparr>) stop protocol"
  have "res_payload_outputs (ce_result c) =
      \<lparr>po_stdout = retained (stream_budget Stdout (payload_output (job_budgets job))) out,
       po_stderr = retained (stream_budget Stderr (payload_output (job_budgets job))) err\<rparr> \<and>
    res_protocol_outputs (ce_result c) = (case protocol of None \<Rightarrow> [] | Some p \<Rightarrow> psr_outputs p) \<and>
    res_outcome (ce_result c) = outcome"
    using steps(4) kept
    by (auto simp: observed conclude_def drained Let_def op_simps lift_simps complete_def outcome_def
        dest!: completed_with_result execution_result_fields)
  moreover have "outcome = (if over_budget (payload_output (job_budgets job)) out err then BudgetExceededOutcome BudgetAxis.PAYLOAD_OUTPUT
       else if map_option sp_axis stop = Some (Some BudgetAxis.WALL_TIME) then BudgetExceededOutcome BudgetAxis.WALL_TIME
       else if map_option sp_cancelled stop = Some True then CancelledOutcome True
       else case protocol of
         None \<Rightarrow> exit_outcome (wo_returncode w)
       | Some p \<Rightarrow>
           (case psr_failure p of
              None \<Rightarrow> exit_outcome (wo_returncode w)
            | Some f \<Rightarrow> ProtocolFailedOutcome (pf_code f) (pf_detail f) (int (length (psr_outputs p)))))"
    using kept by (simp add: outcome_def outcome_of_def over_budget_def split: option.split)
  ultimately show ?thesis using waited protocol_def by blast
qed


theorem completion_reports_payload_witness:
  "\<exists>c t. run_spawned sample_engine_sv sample_ops ExecutorSelfBudgets_default sample_world sample_command sample_resolved
      (PreparedRun sample_id (record_reference_for_job sample_uuid5 1) sample_header sample_declaration) ''/bin/echo'' ''/tmp'' False
      (fresh_engine 0) = (Inr c, t) \<and>
    res_payload_outputs (ce_result c) = \<lparr>po_stdout = retained None [104, 105], po_stderr = retained None []\<rparr> \<and>
    res_outcome (ce_result c) = ExitedOutcome 0"
proof -
  obtain c t where r: "run_spawned sample_engine_sv sample_ops ExecutorSelfBudgets_default sample_world sample_command sample_resolved
      (PreparedRun sample_id (record_reference_for_job sample_uuid5 1) sample_header sample_declaration) ''/bin/echo'' ''/tmp'' False
      (fresh_engine 0) = (Inr c, t)" using sample_spawned by blast
  have status: "read_setup_status (duration_limit (startup_time ExecutorSelfBudgets_default)) (wo_status_ns sample_world) (wo_status sample_world) =
      Done (StatusBytes [])" "parse_setup_status (es_loads sample_engine_sv) [] = None"
    by (simp_all add: ExecutorSelfBudgets_default_def read_setup_status_def sample_world_def parse_setup_status_def)
  have pumps: "ReleaseReady \<notin> \<Union> (set ` set (wo_pump sample_world))" "\<forall>k\<in>\<Union> (set ` set (wo_pump sample_world)). forwards_whole k"
    by (simp_all add: sample_world_def)
  have budget: "payload_output (job_budgets sample_command) = UnbudgetedLimit" by (simp add: sample_command_def Budgets_unbudgeted_def)
  have target: "tg_wants_protocol sample_resolved \<longleftrightarrow> tg_request_id_sha256 sample_resolved \<noteq> None" "tg_request_id_sha256 sample_resolved = None"
    by (simp_all add: sample_resolved_def)
  have written: "[104, 105] = bytes_until_end (reads_of Stdout (concat (wo_pump sample_world)))"
    "[] = bytes_until_end (reads_of Stderr (concat (wo_pump sample_world)))" by (simp_all add: sample_world_def)
  have wait: "await_child deadline fail has_token (wo_polls sample_world) = Done None" "wo_returncode sample_world = 0" for deadline fail has_token
    by (simp_all add: sample_world_def poll_ends_def)
  from completion_reports_payload [OF r status pumps _ target(1) written refl] show ?thesis
    using r wait target(2) by (auto simp: budget over_budget_def exit_outcome_def)
qed


end
