(* ===== verification/EngineStore.thy ===== *)
theory EngineStore
  imports EngineRuns
begin

text \<open>
  The engine over its run store, as the two meet in \<^verbatim>\<open>capabilities/protocols.py\<close>: the laws the engine
  needs of a store, what a completion with a complete receipt then means, and the directory store as
  a model of the laws, whatever faults the file system answers it with.
\<close>

section \<open>What keeps the store\<close>

definition store_kept :: "('s, 'a) engine_op \<Rightarrow> bool" where
  "store_kept m = (\<forall>s. en_store (snd (m s)) = en_store s)"

lemma store_kept_simps [simp]: "store_kept (return_op x)" "store_kept (raise_op e)" "store_kept (lift_op r)" "store_kept transports"
  "store_kept (set_transports t)" "store_kept (lift_py p)" "store_kept (lift_loop l)" "store_kept (log_event ev)" "store_kept (log_all es)"
  by (simp_all add: store_kept_def transports_def set_transports_def lift_py_def lift_loop_def log_event_def log_all_def
      split: sum.split loop.split)

lemma store_kept_bind [intro]: "store_kept m \<Longrightarrow> (\<And>x. store_kept (k x)) \<Longrightarrow> store_kept (bind_op m k)"
  and store_kept_catch [intro]: "store_kept m \<Longrightarrow> (\<And>e. store_kept (h e)) \<Longrightarrow> store_kept (catch_op m h)"
  unfolding store_kept_def bind_op_def catch_op_def by (auto split: prod.split sum.split) (metis snd_conv)+

lemma store_kept_if [intro]: "store_kept m \<Longrightarrow> store_kept k \<Longrightarrow> store_kept (if b then m else k)"
  by simp

lemma keeps_store: "store_kept m \<Longrightarrow> keeps (\<lambda>s. P (en_store s)) m"
  by (simp add: store_kept_def keeps_def)

lemma keeps_True [simp]: "keeps (\<lambda>s. True) m"
  by (simp add: keeps_def)

lemma start_transports_store: "store_kept (start_transports w target)"
proof -
  have takes: "store_kept take_stdin" "store_kept take_protocol_reader" "store_kept take_protocol_forward_write"
    unfolding take_stdin_def take_protocol_reader_def take_protocol_forward_write_def
    by (intro store_kept_bind; auto split: option.split)+
  have "store_kept (adopt_started w worker take)" if "store_kept take" for worker take
    unfolding adopt_started_def started_thread_def adopt_def close_descriptors_def
    using that by (intro store_kept_bind store_kept_catch store_kept_if) auto
  then show ?thesis unfolding start_transports_def using takes by (intro store_kept_bind store_kept_if) auto
qed

lemma close_transports_store: "store_kept (close_transports w)"
proof -
  have "store_kept (join_each w ws)" for ws
  proof (induction ws)
    case (Cons worker ws)
    have "store_kept (joined w worker)" unfolding joined_def by (intro store_kept_bind store_kept_if) auto
    then show ?case using Cons by auto
  qed (simp add: store_kept_def)
  then show ?thesis unfolding close_transports_def close_descriptors_def by (intro store_kept_bind) auto
qed

lemma pipes_store: "store_kept (pipes w k ps)"
proof (induction ps arbitrary: k)
  case (Cons p ps)
  then show ?case by (cases p) (auto simp: os_pipe_def)
qed (simp add: store_kept_def)

lemma tear_down_store: "store_kept (tear_down_op w self_budgets leads)"
  and join_all_store: "store_kept (join_all w self_budgets target p)"
  and setup_status_store: "store_kept (setup_status w self_budgets)"
  unfolding tear_down_op_def join_all_def setup_status_def
  by (auto split: prod.split option.split status_end.split intro!: store_kept_bind)

text \<open>The running handle an attempt kept is that of its prepared run.\<close>

definition names_run :: "FinalizableRun \<Rightarrow> AttemptResult \<Rightarrow> bool" where
  "names_run run observed = (case observed of ReachedPayload _ _ (Some x) _ \<Rightarrow> x = running_run run | _ \<Rightarrow> True)"

lemma names_run_simps [simp]: "names_run run (SetupFailed f leads)" "names_run run (ReachedPayload p stop None failures)"
  "names_run run (ReachedPayload p stop (Some x) failures) \<longleftrightarrow> x = running_run run"
  by (simp_all add: names_run_def)

section \<open>What an attempt keeps and returns\<close>

text \<open>
  An assertion on the store that the calls of an attempt keep until it records the result, and what a
  completion then satisfies. The rest of an attempt leaves the store alone.
\<close>

abbreviation (input) anyway :: "engine_exn \<Rightarrow> 's engine \<Rightarrow> bool" where
  "anyway e s \<equiv> True"

definition contract ::
  "'s store_ops \<Rightarrow> FinalizableRun \<Rightarrow> ('s \<Rightarrow> bool) \<Rightarrow> (CompletedExecution \<Rightarrow> 's \<Rightarrow> bool) \<Rightarrow> bool" where
  "contract ops run p Q =
     ((\<forall>w pid. triple (\<lambda>s. p (en_store s)) (mark_running_op ops w run pid)
        (\<lambda>(running, failures) s. p (en_store s) \<and> (\<forall>run'. running = Some run' \<longrightarrow> run' = running_run run)) anyway) \<and>
      (\<forall>run' prior built. (run' = run \<or> run' = running_run run) \<longrightarrow>
        (\<forall>r. built = Inr r \<longrightarrow> res_execution_id r = fr_execution_id run) \<longrightarrow>
        triple (\<lambda>s. p (en_store s)) (completed_with ops run' prior built) (\<lambda>c s. Q c (en_store s)) anyway))"

lemma contract_completes:
  "contract ops run p Q \<Longrightarrow> run' = run \<or> run' = running_run run \<Longrightarrow>
     (\<And>r. built = Inr r \<Longrightarrow> res_execution_id r = fr_execution_id run) \<Longrightarrow>
     triple (\<lambda>s. p (en_store s)) (completed_with ops run' prior built) (\<lambda>c s. Q c (en_store s)) anyway"
  unfolding contract_def by blast

lemma execution_result_id:
  "run' = run \<or> run' = running_run run \<Longrightarrow> execution_result run' outcome outputs payload ms = Inr r \<Longrightarrow>
     res_execution_id r = fr_execution_id run"
  using execution_result_fields by (fastforce simp: running_run_def)

lemma kept_step: "store_kept m \<Longrightarrow> triple (\<lambda>s. p (en_store s)) m (\<lambda>_ s. p (en_store s)) anyway"
  by (rule triple_weaken [OF triple_keeps [THEN iffD1, OF keeps_store]]) simp_all

lemma observe_contract:
  assumes "contract ops run p Q"
  shows "triple (\<lambda>s. p (en_store s))
    (observe_attempt sv ops self_budgets w job target run pid has_token)
    (\<lambda>observed s. p (en_store s) \<and> names_run run observed)
    anyway"
proof -
  let ?run = "run"
  have waits: "triple (\<lambda>s. p (en_store s) \<and> (\<forall>run. running = Some run \<longrightarrow> run = running_run ?run))
      (bind_op (lift_loop l) (\<lambda>stop. return_op (ReachedPayload q stop running failures)))
      (\<lambda>observed s. p (en_store s) \<and> names_run ?run observed) anyway"
    for l q running failures
    by (cases l; cases running) (auto simp: triple_def bind_op_def lift_loop_def)
  have marks: "triple (\<lambda>s. p (en_store s)) (mark_running_op ops w ?run pid)
      (\<lambda>(running, failures) s. p (en_store s) \<and> (\<forall>run. running = Some run \<longrightarrow> run = running_run ?run)) anyway"
    using assms by (simp add: contract_def)
  have reached: "triple (\<lambda>s. p (en_store s)) (bind_op (mark_running_op ops w ?run pid) (\<lambda>(running, recording_failures).
      bind_op (lift_loop l) (\<lambda>stop. return_op (ReachedPayload q stop running recording_failures))))
      (\<lambda>observed s. p (en_store s) \<and> names_run ?run observed) anyway" for l q
    by (rule triple_bind [OF marks], split prod.split, intro allI impI, simp only: prod.case) (rule waits)
  have failed: "triple (\<lambda>s. p (en_store s)) (return_op (SetupFailed f leads))
      (\<lambda>observed s. p (en_store s) \<and> names_run ?run observed) anyway" for f leads
    by (simp add: triple_def)
  show ?thesis
    unfolding observe_attempt_def
  proof (rule triple_bind [OF kept_step [OF setup_status_store]], goal_cases)
    case (1 line)
    show ?case
      by (cases "parse_setup_status (es_loads sv) line"; simp only: option.case)
        (intro failed reached triple_bind [OF triple_transports] triple_bind [OF kept_step [OF start_transports_store]])+
  qed
qed

lemma carry_contract:
  assumes "contract ops run p Q"
  shows "triple (\<lambda>s. p (en_store s))
    (carry_attempt sv ops self_budgets w job target run pid has_token)
    (\<lambda>c s. Q c (en_store s)) anyway"
proof -
  let ?run = "run"
  let ?known = "names_run ?run"
  have concludes: "triple (\<lambda>s. p (en_store s)) (conclude sv ops self_budgets w target ?run ns observed)
      (\<lambda>c s. Q c (en_store s)) anyway" if "?known observed" for ns observed
  proof (cases observed)
    case (SetupFailed f leads)
    then show ?thesis
      unfolding conclude_def complete_def by (auto intro!: contract_completes [OF assms] execution_result_id)
  next
    case (ReachedPayload pump stop running failures)
    then have "(case running of None \<Rightarrow> ?run | Some run \<Rightarrow> run) = ?run \<or>
        (case running of None \<Rightarrow> ?run | Some run \<Rightarrow> run) = running_run ?run" using that by (cases running) auto
    then show ?thesis
      unfolding conclude_def complete_def Let_def ReachedPayload AttemptResult.case
      by (intro triple_bind [OF kept_step] contract_completes [OF assms] execution_result_id) simp_all
  qed
  have rest: "triple (\<lambda>s. p (en_store s)) (bind_op (lift_op r) (\<lambda>observed.
      bind_op (join_all w self_budgets target (attempt_pump observed)) (\<lambda>_.
        conclude sv ops self_budgets w target ?run ns observed))) (\<lambda>c s. Q c (en_store s)) anyway"
    if "\<And>observed. r = Inr observed \<Longrightarrow> ?known observed" for r :: "engine_exn + AttemptResult" and ns
  proof (cases r)
    case (Inl e)
    then show ?thesis by (simp add: triple_def bind_op_def)
  next
    case (Inr observed)
    have "triple (\<lambda>s. p (en_store s)) (bind_op (join_all w self_budgets target (attempt_pump observed)) (\<lambda>_.
        conclude sv ops self_budgets w target ?run ns observed)) (\<lambda>c s. Q c (en_store s)) anyway"
      by (rule triple_bind [OF kept_step [OF join_all_store]]) (rule concludes [OF that [OF Inr]])
    then show ?thesis using Inr by (simp add: triple_def bind_op_def)
  qed
  show ?thesis
    unfolding carry_attempt_def
  proof (rule triple_bind)
    show "triple (\<lambda>s. p (en_store s)) (attempt_op (observe_attempt sv ops self_budgets w job target ?run pid has_token))
        (\<lambda>r s. (\<forall>observed. r = Inr observed \<longrightarrow> p (en_store s) \<and> ?known observed) \<and>
          (\<forall>e. r = Inl e \<longrightarrow> True)) anyway"
      by (rule triple_weaken [OF triple_attempt [OF observe_contract [OF assms]]]) (auto split: sum.splits)
  next
    fix r :: "engine_exn + AttemptResult"
    show "triple (\<lambda>s. (\<forall>observed. r = Inr observed \<longrightarrow> p (en_store s) \<and> ?known observed) \<and> (\<forall>e. r = Inl e \<longrightarrow> True))
        (bind_op (tear_down_op w self_budgets (case r of Inl _ \<Rightarrow> True | Inr observed \<Rightarrow> leads_group observed)) (\<lambda>ns.
         bind_op (lift_op r) (\<lambda>observed. bind_op (join_all w self_budgets target (attempt_pump observed)) (\<lambda>_.
           conclude sv ops self_budgets w target ?run ns observed)))) (\<lambda>c s. Q c (en_store s)) anyway"
    proof (cases r)
      case (Inl e)
      then show ?thesis by (auto simp: triple_def bind_op_def split: prod.split sum.split)
    next
      case (Inr observed)
      have "triple (\<lambda>s. p (en_store s)) (bind_op (tear_down_op w self_budgets leads) (\<lambda>ns.
         bind_op (lift_op r) (\<lambda>observed. bind_op (join_all w self_budgets target (attempt_pump observed)) (\<lambda>_.
           conclude sv ops self_budgets w target ?run ns observed)))) (\<lambda>c s. Q c (en_store s)) anyway"
        if "?known observed" for leads
        by (rule triple_bind [OF kept_step [OF tear_down_store]]) (rule rest, use Inr that in auto)
      then show ?thesis using Inr by (auto simp: triple_def)
    qed
  qed
qed

lemma run_spawned_contract:
  assumes "contract ops run p Q"
  shows "triple (\<lambda>s. p (en_store s))
    (run_spawned sv ops self_budgets w job target run program scratch has_token)
    (\<lambda>c s. Q c (en_store s)) anyway"
proof -
  let ?Q = "\<lambda>c s. Q c (en_store s)"
  have closes: "store_kept (close_descriptors ds)" for ds by (simp add: close_descriptors_def)
  have carried: "triple (\<lambda>s. p (en_store s)) (try_finally
      (carry_attempt sv ops self_budgets w job target run pid has_token) (close_transports w)) ?Q anyway" for pid
    by (rule triple_try_finally [OF carry_contract [OF assms]]) (simp_all add: keeps_store close_transports_store)
  have raised: "triple (\<lambda>s. p (en_store s)) (raise_op e) ?Q anyway" for e :: engine_exn by (simp add: triple_def)
  have started: "triple (\<lambda>s. p (en_store s)) (case wo_launch w of
         LaunchRaisesOsError e \<Rightarrow>
           bind_op (close_descriptors (child_ends (tg_wants_protocol target))) (\<lambda>_.
           bind_op (close_transports w) (\<lambda>_.
             raise_op (Raised (ExecutorFailure ''could not start the execution bootstrap''
               ExecutorFailureCode.BOOTSTRAP_START_FAILED))))
       | LaunchRaisesOther \<Rightarrow> raise_op OtherRaised
       | LaunchedAs pid \<Rightarrow>
           bind_op (log_event (Launched program (tg_argv target) scratch)) (\<lambda>_.
           bind_op (close_descriptors (child_ends (tg_wants_protocol target))) (\<lambda>_.
             try_finally (carry_attempt sv ops self_budgets w job target run pid has_token)
               (close_transports w)))) ?Q anyway"
  proof (cases "wo_launch w")
    case (LaunchedAs pid)
    then show ?thesis
      by (simp only: launch_obs.case) (intro triple_bind [OF kept_step] carried closes store_kept_simps)
  next
    case (LaunchRaisesOsError e)
    then show ?thesis
      by (simp only: launch_obs.case) (intro triple_bind [OF kept_step] raised closes close_transports_store)
  qed (simp add: triple_def)
  show ?thesis
    unfolding run_spawned_def by (intro triple_bind [OF kept_step] started pipes_store store_kept_simps)
qed

lemma working_directory_contract:
  assumes "contract ops run p Q"
  shows "triple (\<lambda>s. p (en_store s)) (working_directory sv w grant (\<lambda>directory.
      run_spawned sv ops self_budgets w job target run program directory has_token))
    (\<lambda>c s. Q c (en_store s)) anyway"
proof -
  let ?Q = "\<lambda>c s. Q c (en_store s)"
  let ?body = "\<lambda>directory. run_spawned sv ops self_budgets w job target run program directory has_token"
  have scratch: "triple (\<lambda>s. p (en_store s)) (bind_op (log_event ScratchMade)
      (\<lambda>_. try_finally (?body directory) (log_event ScratchRemoved))) ?Q anyway" for directory
    by (rule triple_bind [OF kept_step], simp)
      (rule triple_try_finally [OF run_spawned_contract [OF assms]], simp_all add: keeps_store)
  have raised: "triple (\<lambda>s. p (en_store s)) (raise_op e) ?Q anyway" for e :: engine_exn by (simp add: triple_def)
  show ?thesis
    unfolding working_directory_def
    by (cases "wd_kind grant"; cases "wo_scratch w"; cases "wd_path grant")
      (simp_all only: WorkingDirectoryGrantKind.case sum.case option.case scratch raised run_spawned_contract [OF assms])
qed

lemma cancelled_contract:
  "contract ops run p Q \<Longrightarrow> triple (\<lambda>s. p (en_store s)) (finalize_pre_spawn ops w run outcome)
    (\<lambda>c s. Q c (en_store s)) anyway"
  unfolding finalize_pre_spawn_def by (rule contract_completes) (auto intro: execution_result_id)

text \<open>A run that returns chose its target and directory, prepared its record and carried one attempt out.\<close>

abbreviation attempted ::
  "engine_services \<Rightarrow> 's store_ops \<Rightarrow> ExecutorSelfBudgets \<Rightarrow> world \<Rightarrow> ExecutionJob \<Rightarrow> ResolvedTarget \<Rightarrow> FinalizableRun \<Rightarrow>
     WorkingDirectoryGrant \<Rightarrow> string \<Rightarrow> bool \<Rightarrow> ('s, CompletedExecution) engine_op" where
  "attempted sv ops self_budgets w job target prepared workspace program has_token \<equiv>
     (if has_token \<and> wo_cancelled_before w then finalize_pre_spawn ops w prepared (CancelledOutcome False)
      else working_directory sv w workspace (\<lambda>run_directory.
        run_spawned sv ops self_budgets w job target prepared program run_directory has_token))"

lemma run_execution_attempt:
  assumes "run_execution sv ops self_budgets w job has_token s = (Inr c, t)"
  shows "\<exists>workspace target program hdr d prepared u.
    target_of (es_digest sv) (es_prepare sv) (job_target job) = Inr target \<and>
    resolve_working_directory_grant (es_resolve sv) (es_is_dir sv) (job_workspace job) = Inr workspace \<and>
    prepared_record sv self_budgets w job target
      \<lparr>eid_job_id = job_id job, eid_attempt_id = attempt_id_for_job (es_uuid5 sv) (job_id job)\<rparr> workspace = Inr (hdr, d) \<and>
    op_prepare ops hdr d (en_store s) = (Inr prepared, en_store u) \<and>
    attempted sv ops self_budgets w job target prepared workspace program has_token u = (Inr c, t)"
proof -
  have external: "\<not> (\<exists>entry_point request. job_target job = InProcessImportableJsonTarget entry_point request)"
    using assms by (auto simp: run_execution_def)
  from assms obtain workspace target program hdr d prepared u where
    "target_of (es_digest sv) (es_prepare sv) (job_target job) = Inr target"
    "resolve_working_directory_grant (es_resolve sv) (es_is_dir sv) (job_workspace job) = Inr workspace"
    "prepared_record sv self_budgets w job target
      \<lparr>eid_job_id = job_id job, eid_attempt_id = attempt_id_for_job (es_uuid5 sv) (job_id job)\<rparr> workspace = Inr (hdr, d)"
    "on_store PrepareCalled (op_prepare ops hdr d) s = (Inr prepared, u)"
    "attempted sv ops self_budgets w job target prepared workspace program has_token u = (Inr c, t)"
    unfolding run_execution_steps [OF external] by (auto simp: op_simps lift_simps split: prod.splits)
  moreover from this have "op_prepare ops hdr d (en_store s) = (Inr prepared, en_store u)"
    by (auto simp: on_store_def split: prod.splits sum.splits)
  ultimately show ?thesis by blast
qed

lemma attempted_contract:
  assumes "contract ops run p Q"
  shows "triple (\<lambda>s. p (en_store s)) (attempted sv ops self_budgets w job target run workspace program has_token) (\<lambda>c s. Q c (en_store s)) anyway"
  using cancelled_contract [OF assms] working_directory_contract [OF assms] by simp

section \<open>The interface\<close>

text \<open>A receipt of a durable record, complete or degraded.\<close>

definition real_receipt :: "ExecutionId \<Rightarrow> RunRecordReference \<Rightarrow> RecordReceipt \<Rightarrow> bool" where
  "real_receipt x reference receipt \<longleftrightarrow>
     receipt = CompleteRecordReceipt x reference \<or> (\<exists>latest failures. receipt = DegradedRecordReceipt x reference latest failures)"

text \<open>A completion of a run: under its execution id, with a receipt of its record.\<close>

definition names :: "FinalizableRun \<Rightarrow> CompletedExecution \<Rightarrow> bool" where
  "names run c \<longleftrightarrow> res_execution_id (ce_result c) = fr_execution_id run \<and>
     real_receipt (fr_execution_id run) (fr_reference run) (ce_record_receipt c)"

lemma running_run_names: "fr_execution_id (running_run run) = fr_execution_id run" "fr_reference (running_run run) = fr_reference run"
  by (simp_all add: running_run_def)

text \<open>The handles and receipts a store gives back name the run they were asked for.\<close>

locale run_handles =
  fixes ops :: "'s store_ops" and uuid5 :: "uuid \<Rightarrow> bytes \<Rightarrow> uuid"
  assumes prepared: "op_prepare ops hdr d s = (Inr run, t) \<Longrightarrow> run = prepared_run uuid5 hdr d"
    and marked: "op_mark_running ops run process s = (Inr run', t) \<Longrightarrow> run' = running_run run"
    and receipts: "op_finalize ops run r s = (Inr receipt, t) \<Longrightarrow>
      real_receipt (fr_execution_id run) (fr_reference run) receipt"
begin

text \<open>
  Every completion carries the execution id of its run, and its receipt is one of the run's record,
  whatever became of the record.
\<close>

lemma finalized_receipt_real:
  "finalized_receipt ops run r prior s = (Inr receipt, t) \<Longrightarrow> real_receipt (fr_execution_id run) (fr_reference run) receipt"
  by (auto simp: finalized_receipt_def on_store_def merged_receipt_def degraded_from_failure_def op_simps return_op_def raise_op_def
      real_receipt_def dest!: receipts
      split: prod.splits sum.splits engine_exn.splits py_exn.splits if_splits RecordReceipt.splits)

lemma names_contract: "contract ops run (\<lambda>_. True) (\<lambda>c _. names run c)"
  unfolding contract_def
proof (intro conjI allI impI)
  fix w pid
  show "triple (\<lambda>s. True) (mark_running_op ops w run pid)
      (\<lambda>(running, failures) s. True \<and> (\<forall>run'. running = Some run' \<longrightarrow> run' = running_run run)) anyway"
    using marked
    by (fastforce simp: triple_def mark_running_op_def catch_op_def bind_op_def on_store_def
        split: prod.split sum.split engine_exn.split py_exn.split)
next
  fix run' prior and built :: "(py_exn, ExecutionResult) result"
  assume "run' = run \<or> run' = running_run run" and "\<forall>r. built = Inr r \<longrightarrow> res_execution_id r = fr_execution_id run"
  then show "triple (\<lambda>s. True) (completed_with ops run' prior built) (\<lambda>c s. names run c) anyway"
    using finalized_receipt_real [of run'] running_run_names [of run]
    by (fastforce simp: triple_def completed_with_def op_simps lift_simps CompletedExecution_new_def names_def
        split: prod.split sum.split if_splits)
qed

lemma run_execution_names_job:
  assumes "run_execution sv ops self_budgets w job has_token s = (Inr c, t)"
    and x: "x = \<lparr>eid_job_id = job_id job, eid_attempt_id = attempt_id_for_job (es_uuid5 sv) (job_id job)\<rparr>"
  shows "res_execution_id (ce_result c) = x \<and> real_receipt x (record_reference_for_job uuid5 (job_id job)) (ce_record_receipt c)"
proof -
  from run_execution_attempt [OF assms(1)] obtain workspace target program hdr d prepared u where steps:
    "prepared_record sv self_budgets w job target x workspace = Inr (hdr, d)"
    "op_prepare ops hdr d (en_store s) = (Inr prepared, en_store u)"
    "attempted sv ops self_budgets w job target prepared workspace program has_token u = (Inr c, t)" unfolding x by blast
  have "names prepared c"
    using tripleD [OF attempted_contract [OF names_contract] _ steps(3)] by simp
  moreover have "fr_execution_id prepared = x" "fr_reference prepared = record_reference_for_job uuid5 (job_id job)"
    using prepared [OF steps(2)] steps(1) x by (auto simp: prepared_run_def prepared_record_def result_simps)
  ultimately show ?thesis by (simp add: names_def)
qed

end

text \<open>
  And the store that is lawful holds, under the id of the job, what it accepted and promised:
  \<open>lookup\<close> is the durable record of an id and \<open>accepts\<close> the prepared records it can dump.
\<close>

locale run_store = run_handles +
  fixes lookup :: "'a \<Rightarrow> uuid \<Rightarrow> RunRecord option" and lawful :: bool and accepts :: "RunRecord \<Rightarrow> bool"
  assumes prepare_stores: "lawful \<Longrightarrow> accepts (PreparedRecord hdr d) \<Longrightarrow> op_prepare ops hdr d s = (Inr run, t) \<Longrightarrow>
      lookup t (ref_record_id (fr_reference run)) = Some (PreparedRecord hdr d)"
    and mark_running_stores: "lawful \<Longrightarrow> op_mark_running ops run process s = (q, t) \<Longrightarrow>
      lookup t = lookup s \<or> lookup t = (lookup s)(ref_record_id (fr_reference run) \<mapsto> running_record run process)"
    and complete_stores: "lawful \<Longrightarrow> op_finalize ops run r s = (Inr (CompleteRecordReceipt x reference), t) \<Longrightarrow>
      \<exists>old f. lookup s (ref_record_id reference) = Some old \<and> reports f old r \<and> lookup t (ref_record_id reference) = Some f"
begin

definition stored :: "RunRecordHeader \<Rightarrow> RunDeclaration \<Rightarrow> 'a \<Rightarrow> bool" where
  "stored hdr d s = (\<exists>record. lookup s (ref_record_id (fr_reference (prepared_run uuid5 hdr d))) = Some record \<and>
     run_header record = hdr \<and> run_declaration record = d)"

text \<open>A completion that claims its record is complete, and the store that has it.\<close>

definition recorded_as :: "RunRecordHeader \<Rightarrow> RunDeclaration \<Rightarrow> CompletedExecution \<Rightarrow> 'a \<Rightarrow> bool" where
  "recorded_as hdr d c s =
     (\<forall>x reference. ce_record_receipt c = CompleteRecordReceipt x reference \<longrightarrow>
        x = dec_execution_id d \<and> reference = fr_reference (prepared_run uuid5 hdr d) \<and>
        res_execution_id (ce_result c) = dec_execution_id d \<and>
        (\<exists>f. lookup s (ref_record_id reference) = Some f \<and> reports f (PreparedRecord hdr d) (ce_result c)))"

lemma run_fields:
  "run = prepared_run uuid5 hdr d \<or> run = running_run (prepared_run uuid5 hdr d) \<Longrightarrow>
     fr_execution_id run = dec_execution_id d \<and> fr_reference run = fr_reference (prepared_run uuid5 hdr d) \<and>
     fr_header run = hdr \<and> fr_declaration run = d"
  by (auto simp: prepared_run_def running_run_def)

lemma completed_with_recorded:
  assumes "lawful" and run: "run = prepared_run uuid5 hdr d \<or> run = running_run (prepared_run uuid5 hdr d)"
    and built: "\<And>r. built = Inr r \<Longrightarrow> res_execution_id r = dec_execution_id d"
    and returned: "completed_with ops run prior built s = (Inr c, t)" and "stored hdr d (en_store s)"
  shows "recorded_as hdr d c (en_store t)"
  unfolding recorded_as_def
proof (intro allI impI)
  fix x reference
  assume complete: "ce_record_receipt c = CompleteRecordReceipt x reference"
  from returned have b: "built = Inr (ce_result c)"
    and f: "finalized_receipt ops run (ce_result c) prior s = (Inr (CompleteRecordReceipt x reference), t)"
    using complete by (auto simp: completed_with_def op_simps lift_simps CompletedExecution_new_def split: if_splits)
  from f obtain u where fin: "op_finalize ops run (ce_result c) (en_store s) = (Inr (CompleteRecordReceipt x reference), u)" "en_store t = u"
    by (auto simp: finalized_receipt_def op_simps on_store_def merged_receipt_def degraded_from_failure_def return_op_def raise_op_def
        split: prod.splits sum.splits engine_exn.splits py_exn.splits if_splits)
  have ids: "x = fr_execution_id run" "reference = fr_reference run" using receipts [OF fin(1)] by (auto simp: real_receipt_def)
  obtain old g where g: "lookup (en_store s) (ref_record_id reference) = Some old" "reports g old (ce_result c)"
    "lookup u (ref_record_id reference) = Some g" using complete_stores [OF assms(1) fin(1)] by blast
  have "run_header old = hdr" "run_declaration old = d"
    using assms(5) g(1) ids(2) run_fields [OF run] by (auto simp: stored_def)
  then have "reports g (PreparedRecord hdr d) (ce_result c)" using g(2) by (simp add: reports_def)
  then show "x = dec_execution_id d \<and> reference = fr_reference (prepared_run uuid5 hdr d) \<and>
        res_execution_id (ce_result c) = dec_execution_id d \<and>
        (\<exists>f. lookup (en_store t) (ref_record_id reference) = Some f \<and> reports f (PreparedRecord hdr d) (ce_result c))"
    using ids run_fields [OF run] built [OF b] g(3) fin(2) by auto
qed

text \<open>An attempt keeps the prepared record and returns what it recorded.\<close>

lemma lawful_contract:
  assumes "lawful"
  shows "contract ops (prepared_run uuid5 hdr d) (stored hdr d) (recorded_as hdr d)"
  unfolding contract_def
proof (intro conjI allI impI)
  let ?run = "prepared_run uuid5 hdr d"
  fix w pid
  show "triple (\<lambda>s. stored hdr d (en_store s)) (mark_running_op ops w ?run pid)
      (\<lambda>(running, failures) s. stored hdr d (en_store s) \<and> (\<forall>run. running = Some run \<longrightarrow> run = running_run ?run)) anyway"
  proof (rule tripleI, goal_cases)
    case (1 s)
    let ?p = "\<lparr>proc_pid = pid, proc_started_at = wo_started_at w\<rparr>"
    obtain q t where m: "op_mark_running ops ?run ?p (en_store s) = (q, t)" by fastforce
    have "fr_header ?run = hdr" "fr_declaration ?run = d" by (simp_all add: prepared_run_def)
    then have "stored hdr d t"
      using mark_running_stores [OF assms m] 1 unfolding stored_def running_record_def by (auto simp: fun_upd_def)
    then show ?case
      using m marked [of ?run ?p "en_store s"]
      by (auto simp: mark_running_op_def catch_op_def bind_op_def on_store_def split: sum.split engine_exn.split py_exn.split)
  qed
next
  fix run' prior and built :: "(py_exn, ExecutionResult) result"
  assume run': "run' = prepared_run uuid5 hdr d \<or> run' = running_run (prepared_run uuid5 hdr d)"
    and "\<forall>r. built = Inr r \<longrightarrow> res_execution_id r = fr_execution_id (prepared_run uuid5 hdr d)"
  then have built: "built = Inr r \<Longrightarrow> res_execution_id r = dec_execution_id d" for r by (simp add: prepared_run_def)
  show "triple (\<lambda>s. stored hdr d (en_store s)) (completed_with ops run' prior built) (\<lambda>c s. recorded_as hdr d c (en_store s)) anyway"
  proof (rule tripleI, goal_cases)
    case (1 s)
    then show ?case
      using completed_with_recorded [OF assms run' built, where prior = prior and s = s] by (auto split: prod.split sum.split)
  qed
qed

lemma run_execution_recorded:
  assumes "lawful" and returned: "run_execution sv ops self_budgets w job has_token s = (Inr c, t)"
    and accepted: "\<And>target workspace hdr d. target_of (es_digest sv) (es_prepare sv) (job_target job) = Inr target \<Longrightarrow>
      resolve_working_directory_grant (es_resolve sv) (es_is_dir sv) (job_workspace job) = Inr workspace \<Longrightarrow>
      prepared_record sv self_budgets w job target
        \<lparr>eid_job_id = job_id job, eid_attempt_id = attempt_id_for_job (es_uuid5 sv) (job_id job)\<rparr> workspace = Inr (hdr, d) \<Longrightarrow>
      accepts (PreparedRecord hdr d)"
  shows "\<exists>hdr d. dec_execution_id d = \<lparr>eid_job_id = job_id job, eid_attempt_id = attempt_id_for_job (es_uuid5 sv) (job_id job)\<rparr> \<and>
    recorded_as hdr d c (en_store t)"
proof -
  from run_execution_attempt [OF returned] obtain workspace target program hdr d prepared u where chosen:
    "target_of (es_digest sv) (es_prepare sv) (job_target job) = Inr target"
    "resolve_working_directory_grant (es_resolve sv) (es_is_dir sv) (job_workspace job) = Inr workspace" and steps:
    "prepared_record sv self_budgets w job target
      \<lparr>eid_job_id = job_id job, eid_attempt_id = attempt_id_for_job (es_uuid5 sv) (job_id job)\<rparr> workspace = Inr (hdr, d)"
    "op_prepare ops hdr d (en_store s) = (Inr prepared, en_store u)"
    "attempted sv ops self_budgets w job target prepared workspace program has_token u = (Inr c, t)" by blast
  have run: "prepared = prepared_run uuid5 hdr d" by (rule prepared [OF steps(2)])
  have "stored hdr d (en_store u)"
    using prepare_stores [OF assms(1) accepted [OF chosen steps(1)] steps(2)] run by (simp add: stored_def)
  then have "recorded_as hdr d c (en_store t)"
    using tripleD [OF attempted_contract [OF lawful_contract [OF assms(1)]] _ steps(3) [unfolded run]] by simp
  moreover have "dec_execution_id d = \<lparr>eid_job_id = job_id job, eid_attempt_id = attempt_id_for_job (es_uuid5 sv) (job_id job)\<rparr>"
    using steps(1) by (auto simp: prepared_record_def result_simps)
  ultimately show ?thesis by blast
qed

end

section \<open>The directory store\<close>

lemma directory_ops_simps [simp]: "op_prepare (directory_ops uuid5 dsv) = prepare uuid5 dsv"
  "op_mark_running (directory_ops uuid5 dsv) = mark_running dsv" "op_finalize (directory_ops uuid5 dsv) = finalize dsv"
  by (simp_all add: directory_ops_def)

lemma executor_failure_Inr: "executor_failure operation m s = (Inr x, t) \<longleftrightarrow> m s = (Inr x, t)"
  by (auto simp: executor_failure_def op_simps raise_op_def)

lemma executor_failure_state: "executor_failure operation m s = (q, t) \<Longrightarrow> \<exists>q'. m s = (q', t)"
  by (cases "m s") (auto simp: executor_failure_def catch_op_def raise_op_def split: sum.splits)

lemma bind_return_state: "bind_op m (\<lambda>_. return_op x) s = (q, t) \<Longrightarrow> \<exists>q'. m s = (q', t)"
  by (cases "m s") (auto simp: bind_op_def split: sum.splits)

lemma prepare_returned:
  assumes "prepare uuid5 dsv hdr d s = (Inr run, t)"
  shows "run = prepared_run uuid5 hdr d"
    and "\<exists>u. publish dsv (ref_record_id (fr_reference run)) (PreparedRecord hdr d) u = (Inr (), t)"
  using assms
  by (auto simp: prepare_def Let_def prepared_run_def op_simps executor_failure_Inr return_op_def raise_op_def split: if_splits)

lemma mark_running_effect:
  assumes laws: "directory_laws dsv" "record_codec dsv" and "mark_running dsv run process s = (q, t)"
  shows "record_at dsv t = record_at dsv s \<or>
    record_at dsv t = (record_at dsv s)(ref_record_id (fr_reference run) \<mapsto> running_record run process)"
proof -
  let ?i = "ref_record_id (fr_reference run)"
  from bind_return_state [OF assms(3) [unfolded mark_running_def]] obtain q2 where
    "executor_failure ''publish the running run record'' (bind_op (resolve dsv (fr_reference run)) (\<lambda>i.
          bind_op (or_invalid (constructed dsv (RunRecord_new
            (RunningRecord (fr_header run) (fr_declaration run) process)))) (\<lambda>running.
            publish dsv i running))) s = (q2, t)" by blast
  from executor_failure_state [OF this] obtain q1 where bound: "bind_op (resolve dsv (fr_reference run)) (\<lambda>i.
          bind_op (or_invalid (constructed dsv (RunRecord_new
            (RunningRecord (fr_header run) (fr_declaration run) process)))) (\<lambda>running.
            publish dsv i running)) s = (q1, t)" by blast
  have same: "RunRecord_new x = Inr y \<Longrightarrow> y = x" for x y
    by (cases x) (auto simp: result_simps split: if_splits)
  show ?thesis
  proof (cases q1)
    case (Inl e)
    have "record_at dsv t = record_at dsv s"
    proof (rule bind_raised_keeps [where R = "record_at dsv", OF bound [unfolded Inl]], goal_cases)
      case (1 q u)
      then show ?case by (rule resolve_record_at)
    next
      case (2 i u)
      from 2 show ?case
      proof (rule bind_raised_keeps [where R = "record_at dsv"], goal_cases)
        case (1 q v)
        show ?case using or_invalid_keeps [OF 1] by simp
      next
        case (2 running v)
        show ?case by (rule publish_result(2) [OF laws 2 refl])
      qed
    qed
    then show ?thesis ..
  next
    case (Inr x)
    with bound obtain i u running v where steps: "resolve dsv (fr_reference run) s = (Inr i, u)"
      "or_invalid (constructed dsv (RunRecord_new (RunningRecord (fr_header run) (fr_declaration run) process))) u = (Inr running, v)"
      "publish dsv i running v = (Inr (), t)"
      by (auto simp: bind_op_Inr)
    have "i = ?i" "running = running_record run process" "sv_instance dsv running" "v = u"
      using resolve_reads [OF steps(1)] steps(2) same unfolding or_invalid_constructed by (auto simp: running_record_def)
    then show ?thesis
      using publish_result(1) [OF laws steps(3)] resolve_record_at [OF steps(1)] by simp
  qed
qed

interpretation directory_handles: run_handles "directory_ops uuid5 dsv" uuid5
  for uuid5 :: "uuid \<Rightarrow> bytes \<Rightarrow> uuid" and dsv :: "'d services"
proof unfold_locales
  fix hdr d s run t
  show "op_prepare (directory_ops uuid5 dsv) hdr d s = (Inr run, t) \<Longrightarrow> run = prepared_run uuid5 hdr d"
    using prepare_returned(1) by simp
next
  fix run process s run' t
  show "op_mark_running (directory_ops uuid5 dsv) run process s = (Inr run', t) \<Longrightarrow> run' = running_run run"
    by (auto simp: mark_running_def op_simps return_op_def running_run_def)
next
  fix run r s receipt t
  show "op_finalize (directory_ops uuid5 dsv) run r s = (Inr receipt, t) \<Longrightarrow>
      real_receipt (fr_execution_id run) (fr_reference run) receipt"
    by (auto elim: finalize_cases simp: real_receipt_def)
qed

interpretation directory: run_store "directory_ops uuid5 dsv" uuid5 "record_at dsv" "directory_laws dsv \<and> record_codec dsv" "sv_instance dsv"
  for uuid5 :: "uuid \<Rightarrow> bytes \<Rightarrow> uuid" and dsv :: "'d services"
proof unfold_locales
  fix hdr d s run t
  assume laws: "directory_laws dsv \<and> record_codec dsv" and "sv_instance dsv (PreparedRecord hdr d)"
    and "op_prepare (directory_ops uuid5 dsv) hdr d s = (Inr run, t)"
  then show "record_at dsv t (ref_record_id (fr_reference run)) = Some (PreparedRecord hdr d)"
    using prepare_returned(2) publish_result(1) by fastforce
next
  fix run process s q t
  assume "directory_laws dsv \<and> record_codec dsv" and "op_mark_running (directory_ops uuid5 dsv) run process s = (q, t)"
  then show "record_at dsv t = record_at dsv s \<or>
      record_at dsv t = (record_at dsv s)(ref_record_id (fr_reference run) \<mapsto> running_record run process)"
    by (intro mark_running_effect) simp_all
next
  fix run r s x reference t
  assume laws: "directory_laws dsv \<and> record_codec dsv"
    and f: "op_finalize (directory_ops uuid5 dsv) run r s = (Inr (CompleteRecordReceipt x reference), t)"
  then have "publish_finalized dsv run r s = (Inr (), t)" "reference = fr_reference run"
    by (auto elim: finalize_cases)
  from publish_finalized_returned [OF conjunct1 [OF laws] conjunct2 [OF laws] this(1)] this(2)
  show "\<exists>old f. record_at dsv s (ref_record_id reference) = Some old \<and> reports f old r \<and>
      record_at dsv t (ref_record_id reference) = Some f"
    using finalized_reports by (metis fun_upd_same)
qed

text \<open>
  C4: a complete receipt is kept. When the engine over the directory store returns a completion whose
  receipt says that its record is complete, then, whatever faults the file system answered with on
  the way, the durable record of the job's own id is finalized and reports this very completion: its
  execution id, outcome, attribution, protocol outputs and measurements.
\<close>

theorem completed_run_is_recorded:
  assumes laws: "directory_laws dsv" "record_codec dsv"
    and returned: "run_execution sv (directory_ops (es_uuid5 sv) dsv) self_budgets w job has_token s = (Inr c, t)"
    and accepted: "\<forall>target workspace hdr d. target_of (es_digest sv) (es_prepare sv) (job_target job) = Inr target \<longrightarrow>
      resolve_working_directory_grant (es_resolve sv) (es_is_dir sv) (job_workspace job) = Inr workspace \<longrightarrow>
      prepared_record sv self_budgets w job target
        \<lparr>eid_job_id = job_id job, eid_attempt_id = attempt_id_for_job (es_uuid5 sv) (job_id job)\<rparr> workspace = Inr (hdr, d) \<longrightarrow>
      sv_instance dsv (PreparedRecord hdr d)"
    and complete: "ce_record_receipt c = CompleteRecordReceipt x reference"
  shows "x = \<lparr>eid_job_id = job_id job, eid_attempt_id = attempt_id_for_job (es_uuid5 sv) (job_id job)\<rparr> \<and>
    reference = record_reference_for_job (es_uuid5 sv) (job_id job) \<and> res_execution_id (ce_result c) = x \<and>
    (\<exists>f. record_at dsv (en_store t) (ref_record_id reference) = Some f \<and> run_state f = RecordState.FINALIZED \<and>
       dec_execution_id (run_declaration f) = x \<and> rec_execution_id (run_result f) = x \<and>
       rec_outcome (run_result f) = res_outcome (ce_result c) \<and> rec_attribution (run_result f) = res_attribution (ce_result c) \<and>
       rec_protocol_outputs (run_result f) = res_protocol_outputs (ce_result c) \<and>
       rec_measurements (run_result f) = res_measurements (ce_result c))"
proof -
  from directory.run_execution_recorded [OF conjI [OF laws] returned] accepted obtain hdr d where
    d: "dec_execution_id d = \<lparr>eid_job_id = job_id job, eid_attempt_id = attempt_id_for_job (es_uuid5 sv) (job_id job)\<rparr>"
    and recorded: "directory.recorded_as (es_uuid5 sv) dsv hdr d c (en_store t)" by blast
  have "fr_reference (prepared_run (es_uuid5 sv) hdr d) = record_reference_for_job (es_uuid5 sv) (job_id job)"
    by (simp add: prepared_run_def d)
  then show ?thesis
    using recorded complete d unfolding directory.recorded_as_def by (auto simp: reports_def)
qed

section \<open>A cancelled run over a store in memory\<close>

lemma sample_declared_any [simp]: "declared_id sample_uuid5 d = RECORD_ID_NAMESPACE"
  by (simp add: declared_id_def record_reference_for_job_def sample_uuid5_def)

lemma sample_prepare:
  "prepare sample_uuid5 (sample_store (PreparedRecord hdr d) f) hdr d (sample_root None []) =
     (Inr (prepared_run sample_uuid5 hdr d), sample_root (Some (JInt 0)) [])"
proof (rule prepare_allocated)
  let ?sv = "sample_store (PreparedRecord hdr d) f"
  let ?u = "(sample_root None [])\<lparr>rt_entries := (rt_entries (sample_root None []))(RECORD_ID_NAMESPACE \<mapsto> Directory (sv_empty ?sv))\<rparr>"
  show "allocate ?sv (declared_id sample_uuid5 d) (sample_root None []) = (Inr (), ?u)"
    by (simp only: sample_declared_any) (rule allocate_fresh, simp_all add: sample_root_def)
  show "publish ?sv (declared_id sample_uuid5 d) (PreparedRecord hdr d) ?u = (Inr (), sample_root (Some (JInt 0)) [])"
    by (auto simp: publish_def with_directory_def bind_op_def sample_store_def sample_root_def fun_eq_iff)
qed

lemma sample_cancelled_finalize:
  assumes final: "finalized_record (PreparedRecord hdr d) r (sample_summary (po_stdout empty_payload_outputs))
      (sample_summary (po_stderr empty_payload_outputs)) = Inr f"
    and r: "res_payload_outputs r = empty_payload_outputs"
  shows "\<exists>t. finalize (sample_store (PreparedRecord hdr d) f) (prepared_run sample_uuid5 hdr d) r (sample_root (Some (JInt 0)) []) =
    (Inr (CompleteRecordReceipt (dec_execution_id d) (fr_reference (prepared_run sample_uuid5 hdr d))), t)"
proof -
  let ?sv = "sample_store (PreparedRecord hdr d) f" and ?s = "sample_root (Some (JInt 0)) []"
    and ?run = "prepared_run sample_uuid5 hdr d"
  have reference: "ref_record_id (fr_reference ?run) = RECORD_ID_NAMESPACE" "ref_backend (fr_reference ?run) = ''directory''"
    "fr_execution_id ?run = dec_execution_id d"
    by (simp_all add: prepared_run_def record_reference_for_job_def sample_uuid5_def)
  have opened: "record_at ?sv ?s RECORD_ID_NAMESPACE = Some (PreparedRecord hdr d)"
    "rt_entries ?s RECORD_ID_NAMESPACE = Some (Directory (Some (JInt 0), \<lambda>_. None))"
    by (simp_all add: record_at_def record_in_def sample_root_def sample_store_def parse_record_def header_schema_version_def
        validated_def)
  have steps: "resolve ?sv (fr_reference ?run) ?s = (Inr RECORD_ID_NAMESPACE, ?s)"
    "load_record ?sv RECORD_ID_NAMESPACE ?s = (Inr (PreparedRecord hdr d), ?s)"
    using resolve_ok [of ?s "fr_reference ?run"] load_record_ok [of ?s] opened reference by simp_all
  have streams: "rp_head (po_stdout empty_payload_outputs) = []" "rp_tail (po_stdout empty_payload_outputs) = []"
    "rp_head (po_stderr empty_payload_outputs) = []" "rp_tail (po_stderr empty_payload_outputs) = []"
    by (simp_all add: empty_payload_outputs_def Let_def)
  have "fst (publish_finalized ?sv ?run r ?s) = Inr ()"
    using steps streams opened(2) final r
    by (simp add: publish_finalized_def bind_op_def write_sidecar_def publish_def with_directory_def or_invalid_def
        constructed_def result_simps sample_store_def sample_summary_def)
  then show ?thesis
    using finalize_complete [of ?sv ?run r ?s] reference by (cases "publish_finalized ?sv ?run r ?s") simp
qed

text \<open>The run with its cancel token set: prepared, never launched, finalized.\<close>

definition cancelled_result :: ExecutionResult where
  "cancelled_result =
     \<lparr>res_execution_id = sample_id, res_outcome = CancelledOutcome False, res_attribution = attribute_outcome (CancelledOutcome False),
      res_protocol_outputs = [], res_payload_outputs = empty_payload_outputs,
      res_measurements = \<lparr>ms_started_at = sample_instant, ms_finished_at = sample_instant, ms_duration_ns = 0,
        ms_teardown_duration_ns = 0, ms_input_bytes = 0, ms_protocol_bytes_received = 0\<rparr>\<rparr>"

abbreviation cancelled_world :: world where
  "cancelled_world \<equiv> sample_world\<lparr>wo_cancelled_before := True\<rparr>"

lemma cancelled_built:
  "fr_execution_id run = sample_id \<Longrightarrow>
   execution_result run (CancelledOutcome False) [] empty_payload_outputs
      \<lparr>ms_started_at = sample_instant, ms_finished_at = sample_instant, ms_duration_ns = 0, ms_teardown_duration_ns = 0,
       ms_input_bytes = 0, ms_protocol_bytes_received = 0\<rparr> = Inr cancelled_result"
  by (simp add: execution_result_def ExecutionMeasurements_new_def require_utc_def sample_instant_def result_simps
      protocol_output_count_must_match_outcome_def protocol_output_count_matches_def cancelled_result_def)

lemma sample_cancelled:
  assumes rec: "prepared_record sample_engine_sv ExecutorSelfBudgets_default cancelled_world sample_command sample_resolved
      sample_id WorkingDirectoryGrant_scratch = Inr (hdr, d)"
    and calls: "op_prepare ops hdr d (en_store s) = (Inr (prepared_run sample_uuid5 hdr d), u)"
      "op_finalize ops (prepared_run sample_uuid5 hdr d) cancelled_result u =
        (Inr (CompleteRecordReceipt sample_id (fr_reference (prepared_run sample_uuid5 hdr d))), v)"
  shows "\<exists>t. run_execution sample_engine_sv ops ExecutorSelfBudgets_default cancelled_world sample_command True s =
    (Inr \<lparr>ce_result = cancelled_result, ce_record_receipt = CompleteRecordReceipt sample_id (fr_reference (prepared_run sample_uuid5 hdr d))\<rparr>, t)"
proof -
  have d: "dec_execution_id d = sample_id" using rec by (auto simp: prepared_record_def result_simps)
  have run: "fr_execution_id (prepared_run sample_uuid5 hdr d) = sample_id" by (simp add: prepared_run_def d)
  have ids: "res_execution_id cancelled_result = sample_id" by (simp add: cancelled_result_def)
  have w: "wo_cancelled_before cancelled_world" "wo_moment cancelled_world = sample_instant" by (simp_all add: sample_world_def)
  from sample_reaches_store [OF rec, of ops True s] show ?thesis
    using w(1)
    by (auto simp: bind_op_def on_store_def calls(1) finalize_pre_spawn_def completed_with_def w(2)
        cancelled_built [OF run] lift_py_def finalized_receipt_def catch_op_def calls(2) merged_receipt_def CompletedExecution_new_def ids)
qed

text \<open>The directory store that knows the two records of this run, and its answers.\<close>

lemma cancelled_store:
  obtains hdr d f v where "prepared_record sample_engine_sv ExecutorSelfBudgets_default cancelled_world sample_command sample_resolved
      sample_id WorkingDirectoryGrant_scratch = Inr (hdr, d)" and "dec_execution_id d = sample_id"
    and "finalize (sample_store (PreparedRecord hdr d) f) (prepared_run sample_uuid5 hdr d) cancelled_result (sample_root (Some (JInt 0)) []) =
      (Inr (CompleteRecordReceipt sample_id (fr_reference (prepared_run sample_uuid5 hdr d))), v)"
proof -
  obtain hdr d where rec: "prepared_record sample_engine_sv ExecutorSelfBudgets_default cancelled_world sample_command sample_resolved
      sample_id WorkingDirectoryGrant_scratch = Inr (hdr, d)"
    using sample_prepared_record [of cancelled_world] by (auto simp: sample_world_def)
  have d: "dec_execution_id d = sample_id" "dec_execution_id d = res_execution_id cancelled_result"
    using rec by (auto simp: prepared_record_def result_simps cancelled_result_def)
  obtain f where final: "finalized_record (PreparedRecord hdr d) cancelled_result (sample_summary (po_stdout empty_payload_outputs))
      (sample_summary (po_stderr empty_payload_outputs)) = Inr f"
    by (simp add: finalized_record_def execution_result_record_def retained_stream_record_def
      RetainedPayloadStreamRecord_new_def ExecutionResultRecord_new_def protocol_output_count_matches_def
      cancelled_result_def sample_summary_def result_simps empty_payload_outputs_def Let_def d)
  have "res_payload_outputs cancelled_result = empty_payload_outputs" by (simp add: cancelled_result_def)
  from sample_cancelled_finalize [OF final this] show ?thesis using that [OF rec d(1)] d(1) by metis
qed

theorem completed_run_is_recorded_witness:
  "\<exists>dsv t f. run_execution sample_engine_sv (directory_ops sample_uuid5 dsv) ExecutorSelfBudgets_default cancelled_world
      sample_command True (fresh_engine (sample_root None [])) =
      (Inr \<lparr>ce_result = cancelled_result, ce_record_receipt = CompleteRecordReceipt sample_id (record_reference_for_job sample_uuid5 1)\<rparr>, t) \<and>
    record_at dsv (en_store t) RECORD_ID_NAMESPACE = Some f \<and> rec_outcome (run_result f) = CancelledOutcome False"
proof -
  obtain hdr d f v where rec: "prepared_record sample_engine_sv ExecutorSelfBudgets_default cancelled_world sample_command sample_resolved
      sample_id WorkingDirectoryGrant_scratch = Inr (hdr, d)" and d: "dec_execution_id d = sample_id"
    and fin: "finalize (sample_store (PreparedRecord hdr d) f) (prepared_run sample_uuid5 hdr d) cancelled_result (sample_root (Some (JInt 0)) []) =
      (Inr (CompleteRecordReceipt sample_id (fr_reference (prepared_run sample_uuid5 hdr d))), v)" by (rule cancelled_store)
  let ?dsv = "sample_store (PreparedRecord hdr d) f"
  obtain t where returned: "run_execution sample_engine_sv (directory_ops (es_uuid5 sample_engine_sv) ?dsv) ExecutorSelfBudgets_default
      cancelled_world sample_command True (fresh_engine (sample_root None [])) =
    (Inr \<lparr>ce_result = cancelled_result, ce_record_receipt = CompleteRecordReceipt sample_id (fr_reference (prepared_run sample_uuid5 hdr d))\<rparr>, t)"
    using sample_cancelled [OF rec, of "directory_ops sample_uuid5 ?dsv" "fresh_engine (sample_root None [])"] fin sample_checks(4)
    by (auto simp: fresh_engine_def sample_prepare)
  have accepted: "\<forall>target workspace hdr' d'. target_of (es_digest sample_engine_sv) (es_prepare sample_engine_sv) (job_target sample_command) = Inr target \<longrightarrow>
      resolve_working_directory_grant (es_resolve sample_engine_sv) (es_is_dir sample_engine_sv) (job_workspace sample_command) = Inr workspace \<longrightarrow>
      prepared_record sample_engine_sv ExecutorSelfBudgets_default cancelled_world sample_command target
        \<lparr>eid_job_id = job_id sample_command, eid_attempt_id = attempt_id_for_job (es_uuid5 sample_engine_sv) (job_id sample_command)\<rparr> workspace =
        Inr (hdr', d') \<longrightarrow> sv_instance ?dsv (PreparedRecord hdr' d')"
    using rec by (auto simp: sample_checks sample_id_def sample_store_def)
  have reference: "fr_reference (prepared_run sample_uuid5 hdr d) = record_reference_for_job sample_uuid5 1"
    "ref_record_id (record_reference_for_job sample_uuid5 1) = RECORD_ID_NAMESPACE"
    by (simp_all add: prepared_run_def d sample_id_def record_reference_for_job_def sample_uuid5_def)
  from completed_run_is_recorded [OF sample_store_laws(1,2) returned accepted] reference obtain g where
    "record_at ?dsv (en_store t) RECORD_ID_NAMESPACE = Some g" "rec_outcome (run_result g) = CancelledOutcome False"
    by (auto simp: cancelled_result_def)
  then show ?thesis using returned reference(1) sample_checks(4) by (intro exI [of _ ?dsv] exI [of _ t] exI [of _ g]) simp
qed

end
