(* ===== verification/Executors.thy ===== *)
theory Executors
  imports EngineStore ImportableJson
begin

text \<open>
  The process executor of \<^verbatim>\<open>execution/executor.py\<close>: the engine behind the interface the scheduler,
  the batches and the pools call. Runs of one executor share its store, so between two calls of a run
  other runs, and other processes, may have changed it.
\<close>

section \<open>A store that others use\<close>

text \<open>
  The changes the others make are a list, one for each call of the run: the call meets the store
  after the change.
\<close>

type_synonym 's shared = "'s \<times> ('s \<Rightarrow> 's) list"

definition interfered :: "('s, 'e, 'a) op \<Rightarrow> ('s shared, 'e, 'a) op" where
  "interfered m = (\<lambda>(s, changes).
     (case changes of
        [] \<Rightarrow> (case m s of (r, t) \<Rightarrow> (r, (t, [])))
      | change # rest \<Rightarrow> (case m (change s) of (r, t) \<Rightarrow> (r, (t, rest)))))"

definition shared_ops :: "'s store_ops \<Rightarrow> 's shared store_ops" where
  "shared_ops ops =
     \<lparr>op_prepare = (\<lambda>hdr d. interfered (op_prepare ops hdr d)),
      op_mark_running = (\<lambda>run process. interfered (op_mark_running ops run process)),
      op_finalize = (\<lambda>run r. interfered (op_finalize ops run r))\<rparr>"

lemma interfered_result: "interfered m s = (r, t) \<Longrightarrow> \<exists>u v. m u = (r, v)"
  by (auto simp: interfered_def split: prod.splits list.splits)

context run_handles
begin

lemma shared_handles: "run_handles (shared_ops ops) uuid5"
proof
  fix hdr d s run t
  assume "op_prepare (shared_ops ops) hdr d s = (Inr run, t)"
  then obtain u v where "op_prepare ops hdr d u = (Inr run, v)"
    by (simp add: shared_ops_def) (blast dest: interfered_result)
  then show "run = prepared_run uuid5 hdr d" by (rule prepared)
next
  fix run process s run' t
  assume "op_mark_running (shared_ops ops) run process s = (Inr run', t)"
  then obtain u v where "op_mark_running ops run process u = (Inr run', v)"
    by (simp add: shared_ops_def) (blast dest: interfered_result)
  then show "run' = running_run run" by (rule marked)
next
  fix run r s receipt t
  assume "op_finalize (shared_ops ops) run r s = (Inr receipt, t)"
  then obtain u v where "op_finalize ops run r u = (Inr receipt, v)"
    by (simp add: shared_ops_def) (blast dest: interfered_result)
  then show "real_receipt (fr_execution_id run) (fr_reference run) receipt" by (rule receipts)
qed

end

interpretation shared_directory: run_handles "shared_ops (directory_ops uuid5 dsv)" uuid5
  for uuid5 :: "uuid \<Rightarrow> bytes \<Rightarrow> uuid" and dsv :: "'d Store.services"
  by (rule directory_handles.shared_handles)

section \<open>The executor\<close>

text \<open>The runtime and the process services, the run store and the budgets of the executor itself.\<close>

record 's ProcessExecutor =
  pe_services :: engine_services
  pe_run_store :: "'s store_ops"
  pe_self_budgets :: ExecutorSelfBudgets

definition ProcessExecutor_new :: "engine_services \<Rightarrow> 's store_ops \<Rightarrow> ExecutorSelfBudgets option \<Rightarrow> 's ProcessExecutor" where
  "ProcessExecutor_new sv ops self_budgets =
     \<lparr>pe_services = sv, pe_run_store = ops,
      pe_self_budgets = (case self_budgets of Some b \<Rightarrow> b | None \<Rightarrow> ExecutorSelfBudgets_default)\<rparr>"

definition process_run_blocking ::
  "'s ProcessExecutor \<Rightarrow> world \<Rightarrow> ExecutionJob \<Rightarrow> bool \<Rightarrow> ('s, CompletedExecution) engine_op" where
  "process_run_blocking x w job has_token =
     run_execution (pe_services x) (pe_run_store x) (pe_self_budgets x) w job has_token"

definition process_run_many :: "int option \<Rightarrow> PoolCapacity option \<Rightarrow> ExecutionJob list \<Rightarrow> (py_exn, batch) result" where
  "process_run_many reported config jobs =
     bind_result (batch_capacity reported config AutoPoolCapacity) (\<lambda>n. run_batch_start n jobs)"

definition process_open_pool :: "PoolCapacity option \<Rightarrow> 'c ExecutionPool" where
  "process_open_pool config = ExecutionPool_new (case config of Some c \<Rightarrow> c | None \<Rightarrow> AutoPoolCapacity)"

text \<open>The executor over a directory store that others use, and what it may return for a job.\<close>

definition directory_executor ::
  "engine_services \<Rightarrow> 'd Store.services \<Rightarrow> ExecutorSelfBudgets option \<Rightarrow> 'd run_root shared ProcessExecutor" where
  "directory_executor sv dsv = ProcessExecutor_new sv (shared_ops (directory_ops (es_uuid5 sv) dsv))"

definition process_returns ::
  "engine_services \<Rightarrow> 'd Store.services \<Rightarrow> ExecutorSelfBudgets option \<Rightarrow> ExecutionJob \<Rightarrow> CompletedExecution \<Rightarrow> bool" where
  "process_returns sv dsv self_budgets job c =
     (\<exists>w has_token s t. process_run_blocking (directory_executor sv dsv self_budgets) w job has_token s = (Inr c, t))"

lemma process_returns_fields:
  assumes "process_returns sv dsv self_budgets job c"
  shows "res_execution_id (ce_result c) = job_execution_id (es_uuid5 sv) job \<and>
    real_receipt (job_execution_id (es_uuid5 sv) job) (record_reference_for_job (es_uuid5 sv) (job_id job)) (ce_record_receipt c)"
proof -
  obtain w has_token s t where "run_execution sv (shared_ops (directory_ops (es_uuid5 sv) dsv))
      (pe_self_budgets (directory_executor sv dsv self_budgets)) w job has_token s = (Inr c, t)"
    using assms by (auto simp: process_returns_def process_run_blocking_def directory_executor_def ProcessExecutor_new_def)
  from shared_directory.run_execution_names_job [OF this refl] show ?thesis by (simp add: job_execution_id_def)
qed

interpretation process: executor "process_returns sv dsv self_budgets" "job_execution_id (es_uuid5 sv)"
  for sv :: engine_services and dsv :: "'d Store.services" and self_budgets :: "ExecutorSelfBudgets option"
proof unfold_locales
  fix job c
  assume "process_returns sv dsv self_budgets job c"
  from process_returns_fields [OF this] show "res_execution_id (ce_result c) = job_execution_id (es_uuid5 sv) job"
    and "receipt_execution_id (ce_record_receipt c) = res_execution_id (ce_result c)"
    by (auto simp: real_receipt_def)
qed (simp add: job_execution_id_def)

section \<open>Properties\<close>

text \<open>
  C8: a batch of process jobs loses none and mixes none up. When \<^verbatim>\<open>run_many\<close> of the process executor
  over the directory store ends normally, it has yielded exactly one completion per job, under the
  execution id of the job, with a receipt of the record that is derived from the job's own id,
  whatever the operating system answered, whatever the capacity and the interleaving, and whatever
  the concurrent runs did to the store between two calls.
\<close>

theorem process_run_many_complete:
  assumes "process_run_many reported config jobs = Inr b0"
    and "trace (batch_step (process_returns sv dsv self_budgets)) b0 es b"
    and "b_phase b = Done None" and "\<not> b_closed b"
  shows "mset (map (\<lambda>c. res_execution_id (ce_result c)) (b_yielded b)) = mset (map (job_execution_id (es_uuid5 sv)) jobs) \<and>
    (\<forall>c\<in>set (b_yielded b). \<exists>job\<in>set jobs. res_execution_id (ce_result c) = job_execution_id (es_uuid5 sv) job \<and>
      real_receipt (job_execution_id (es_uuid5 sv) job) (record_reference_for_job (es_uuid5 sv) (job_id job)) (ce_record_receipt c))"
proof -
  obtain n where run: "batch_run (process_returns sv dsv self_budgets) n jobs es b"
    using assms(1,2) by (auto simp: process_run_many_def batch_run_def result_simps)
  have "matches (process_returns sv dsv self_budgets) jobs (b_yielded b)"
    using batch_run_inv [OF run] assms(3,4) by (auto simp: batch_inv_def batch_inv_at_def)
  from process.matched_receipts [OF this] show ?thesis
    using process.batch_returns_ids [OF run assms(3,4)] process_returns_fields by blast
qed
text \<open>The cancelled run of the sample, over a store nobody else changes, in a batch of one job.\<close>

lemma sample_process_returns:
  "\<exists>p f c. process_returns sample_engine_sv (sample_store p f) None sample_command c"
proof -
  obtain hdr d f v where rec: "prepared_record sample_engine_sv ExecutorSelfBudgets_default cancelled_world sample_command sample_resolved
      sample_id WorkingDirectoryGrant_scratch = Inr (hdr, d)"
    and fin: "finalize (sample_store (PreparedRecord hdr d) f) (prepared_run sample_uuid5 hdr d) cancelled_result (sample_root (Some (JInt 0)) []) =
      (Inr (CompleteRecordReceipt sample_id (fr_reference (prepared_run sample_uuid5 hdr d))), v)" by (rule cancelled_store)
  let ?dsv = "sample_store (PreparedRecord hdr d) f" and ?s = "fresh_engine (sample_root None [], [])"
  let ?ops = "shared_ops (directory_ops sample_uuid5 ?dsv)"
  have calls: "op_prepare ?ops hdr d (en_store ?s) = (Inr (prepared_run sample_uuid5 hdr d), (sample_root (Some (JInt 0)) [], []))"
    "op_finalize ?ops (prepared_run sample_uuid5 hdr d) cancelled_result (sample_root (Some (JInt 0)) [], []) =
      (Inr (CompleteRecordReceipt sample_id (fr_reference (prepared_run sample_uuid5 hdr d))), (v, []))"
    by (simp_all add: fresh_engine_def shared_ops_def interfered_def sample_prepare fin)
  obtain c t where "run_execution sample_engine_sv ?ops ExecutorSelfBudgets_default cancelled_world sample_command True ?s = (Inr c, t)"
    using sample_cancelled [OF rec calls] by blast
  then have "process_returns sample_engine_sv ?dsv None sample_command c"
    unfolding process_returns_def process_run_blocking_def directory_executor_def ProcessExecutor_new_def
    by (auto simp: sample_checks(4))
  then show ?thesis by blast
qed

theorem process_run_many_complete_witness:
  "\<exists>p f c. process_returns sample_engine_sv (sample_store p f) None sample_command c \<and>
    res_execution_id (ce_result c) = job_execution_id sample_uuid5 sample_command"
proof -
  obtain p f c where c: "process_returns sample_engine_sv (sample_store p f) None sample_command c"
    using sample_process_returns by blast
  from sample_batch_run [of "process_returns sample_engine_sv (sample_store p f) None", OF this] obtain es where
    "batch_run (process_returns sample_engine_sv (sample_store p f) None) 1 [sample_command] es
      (sample_batch sample_command ((sample_drained True worker.Exited)\<lparr>workers := []\<rparr>) True [c] (Done None))"
    by blast
  then obtain b0 where b0: "run_batch_start 1 [sample_command] = Inr b0"
    "trace (batch_step (process_returns sample_engine_sv (sample_store p f) None)) b0 es
      (sample_batch sample_command ((sample_drained True worker.Exited)\<lparr>workers := []\<rparr>) True [c] (Done None))"
    by (auto simp: batch_run_def)
  have "process_run_many None (Some (FixedPoolCapacity 1)) [sample_command] = Inr b0"
    using b0(1) by (simp add: process_run_many_def batch_capacity_def resolve_pool_capacity_def
        EffectivePoolCapacity_new_def usable_cpu_count_def Let_def)
  from process_run_many_complete [OF this b0(2)] c show ?thesis
    by (auto simp: sample_batch_def sample_checks(4))
qed

end
