(* ===== verification/Fake.thy ===== *)
theory Fake
  imports Validation Records Effects
begin

text \<open>
  The scripted executor of \<^verbatim>\<open>capabilities/fake.py\<close>, called from any number of threads: a call is checked
  like a real one, recorded, and answered by the next scripted response or by the consumer's
  responder. A response must carry the receipt of a fake.
\<close>

section \<open>The executor\<close>

record fake_executor =
  fk_responses :: "CompletedExecution list"
  fk_responder :: bool
  fk_calls :: "ExecutionJob list"

definition FakeExecutor_new :: "CompletedExecution list \<Rightarrow> bool \<Rightarrow> (py_exn, fake_executor) result" where
  "FakeExecutor_new responses responder =
     (if responses \<noteq> [] \<and> responder then Inl (ValueError ''responses and responder are mutually exclusive'')
      else Inr \<lparr>fk_responses = responses, fk_responder = responder, fk_calls = []\<rparr>)"

definition record_call :: "ExecutionJob \<Rightarrow> (fake_executor, py_exn, unit) op" where
  "record_call job s = (Inr (), s\<lparr>fk_calls := fk_calls s @ [job]\<rparr>)"

definition next_response :: "(fake_executor, py_exn, CompletedExecution) op" where
  "next_response s =
     (case fk_responses s of
        [] \<Rightarrow> (Inl (ExecutorFailure ''the fake executor has no scripted response left''
                 ExecutorFailureCode.FAKE_NO_RESPONSE), s)
      | c # rest \<Rightarrow> (Inr c, s\<lparr>fk_responses := rest\<rparr>))"

definition record_call_taking_response :: "ExecutionJob \<Rightarrow> (fake_executor, py_exn, CompletedExecution) op" where
  "record_call_taking_response job = bind_op (record_call job) (\<lambda>_. next_response)"

definition fake_receipted :: "CompletedExecution \<Rightarrow> (py_exn, CompletedExecution) result" where
  "fake_receipted completed =
     (case ce_record_receipt completed of
        FakeRecordReceipt _ \<Rightarrow> Inr completed
      | receipt \<Rightarrow> Inl (ExecutorFailure (''fake completions must carry a fake record receipt, not '' @
          RecordReceiptKind_value (receipt_kind receipt)) ExecutorFailureCode.FAKE_RECEIPT_MISMATCH))"

section \<open>Concurrent calls\<close>

text \<open>
  A thread in \<^verbatim>\<open>run_blocking\<close>: about to be checked, waiting for the responder, or answered. The number
  is the position of the recorded call. What holds the lock is one step; the responder runs outside.
\<close>

datatype fake_thread =
    Called ExecutionJob
  | Responding ExecutionJob nat
  | Answered ExecutionJob "nat option" "(py_exn, CompletedExecution) result"

record fake_calls =
  fc_executor :: fake_executor
  fc_threads :: "fake_thread list"

inductive fake_step ::
  "(identity_document \<Rightarrow> bytes) \<Rightarrow> (ExecutionJob \<Rightarrow> (py_exn, CompletedExecution) result \<Rightarrow> bool) \<Rightarrow>
     fake_calls \<Rightarrow> nat \<Rightarrow> fake_calls \<Rightarrow> bool"
  for canonical :: "identity_document \<Rightarrow> bytes" and responds :: "ExecutionJob \<Rightarrow> (py_exn, CompletedExecution) result \<Rightarrow> bool"
where
  refused [step_intros]:
    "i < length (fc_threads s) \<Longrightarrow> fc_threads s ! i = Called job \<Longrightarrow> validate_declaration canonical job = Inl e \<Longrightarrow>
       fake_step canonical responds s i (s\<lparr>fc_threads := (fc_threads s)[i := Answered job None (Inl e)]\<rparr>)"
| scripted [step_intros]:
    "i < length (fc_threads s) \<Longrightarrow> fc_threads s ! i = Called job \<Longrightarrow> validate_declaration canonical job = Inr () \<Longrightarrow>
       \<not> fk_responder (fc_executor s) \<Longrightarrow> record_call_taking_response job (fc_executor s) = (r, x) \<Longrightarrow>
       fake_step canonical responds s i (s\<lparr>fc_executor := x,
         fc_threads := (fc_threads s)[i := Answered job (Some (length (fk_calls (fc_executor s)))) (bind_result r fake_receipted)]\<rparr>)"
| recorded [step_intros]:
    "i < length (fc_threads s) \<Longrightarrow> fc_threads s ! i = Called job \<Longrightarrow> validate_declaration canonical job = Inr () \<Longrightarrow>
       fk_responder (fc_executor s) \<Longrightarrow> record_call job (fc_executor s) = (Inr (), x) \<Longrightarrow>
       fake_step canonical responds s i (s\<lparr>fc_executor := x,
         fc_threads := (fc_threads s)[i := Responding job (length (fk_calls (fc_executor s)))]\<rparr>)"
| responded [step_intros]:
    "i < length (fc_threads s) \<Longrightarrow> fc_threads s ! i = Responding job k \<Longrightarrow> responds job r \<Longrightarrow>
       fake_step canonical responds s i (s\<lparr>fc_threads := (fc_threads s)[i := Answered job (Some k) (bind_result r fake_receipted)]\<rparr>)"

definition fake_start :: "fake_executor \<Rightarrow> ExecutionJob list \<Rightarrow> fake_calls" where
  "fake_start x jobs = \<lparr>fc_executor = x, fc_threads = map Called jobs\<rparr>"

section \<open>The invariant\<close>

fun position :: "fake_thread \<Rightarrow> nat list" where
  "position (Called job) = []"
| "position (Responding job k) = [k]"
| "position (Answered job k r) = (case k of None \<Rightarrow> [] | Some k \<Rightarrow> [k])"

fun thread_job :: "fake_thread \<Rightarrow> ExecutionJob" where
  "thread_job (Called job) = job"
| "thread_job (Responding job k) = job"
| "thread_job (Answered job k r) = job"

definition script_answer :: "CompletedExecution list \<Rightarrow> nat \<Rightarrow> (py_exn, CompletedExecution) result" where
  "script_answer responses k =
     (if k < length responses then fake_receipted (responses ! k)
      else Inl (ExecutorFailure ''the fake executor has no scripted response left'' ExecutorFailureCode.FAKE_NO_RESPONSE))"

text \<open>What a thread's state says of the script and the calls recorded so far.\<close>

definition thread_ok ::
  "(identity_document \<Rightarrow> bytes) \<Rightarrow> (ExecutionJob \<Rightarrow> (py_exn, CompletedExecution) result \<Rightarrow> bool) \<Rightarrow> CompletedExecution list \<Rightarrow> bool \<Rightarrow>
     ExecutionJob list \<Rightarrow> fake_thread \<Rightarrow> bool" where
  "thread_ok canonical responds responses responder calls th =
     (case th of
        Called job \<Rightarrow> True
      | Responding job k \<Rightarrow> responder \<and> k < length calls \<and> calls ! k = job
      | Answered job None r \<Rightarrow> \<exists>e. validate_declaration canonical job = Inl e \<and> r = Inl e
      | Answered job (Some k) r \<Rightarrow> k < length calls \<and> calls ! k = job \<and>
          (if responder then \<exists>answer. responds job answer \<and> r = bind_result answer fake_receipted
           else r = script_answer responses k))"

definition fake_inv ::
  "(identity_document \<Rightarrow> bytes) \<Rightarrow> (ExecutionJob \<Rightarrow> (py_exn, CompletedExecution) result \<Rightarrow> bool) \<Rightarrow> CompletedExecution list \<Rightarrow> bool \<Rightarrow>
     ExecutionJob list \<Rightarrow> fake_calls \<Rightarrow> bool" where
  "fake_inv canonical responds responses responder jobs s =
     (let x = fc_executor s; calls = fk_calls x in
        fk_responder x = responder \<and> (\<not> responder \<longrightarrow> fk_responses x = drop (length calls) responses) \<and>
        map thread_job (fc_threads s) = jobs \<and>
        mset (concat (map position (fc_threads s))) = mset [0..<length calls] \<and>
        (\<forall>th\<in>set (fc_threads s). thread_ok canonical responds responses responder calls th))"

lemma concat_update:
  assumes "i < length xs"
  shows "mset (concat (map f (xs[i := y]))) + mset (f (xs ! i)) = mset (concat (map f xs)) + mset (f y)"
proof -
  have "xs = take i xs @ xs ! i # drop (Suc i) xs" using assms by (rule id_take_nth_drop)
  then have "concat (map f xs) = concat (map f (take i xs)) @ f (xs ! i) @ concat (map f (drop (Suc i) xs))"
    by (metis concat.simps(2) concat_append list.map(2) map_append)
  then show ?thesis using assms by (simp add: upd_conv_take_nth_drop)
qed

lemma scripted_effect:
  "record_call_taking_response job x = (r, y) \<Longrightarrow> fk_responses x = drop (length (fk_calls x)) responses \<Longrightarrow>
     fk_calls y = fk_calls x @ [job] \<and> fk_responder y = fk_responder x \<and>
     fk_responses y = drop (length (fk_calls y)) responses \<and>
     bind_result r fake_receipted = script_answer responses (length (fk_calls x))"
proof -
  assume call: "record_call_taking_response job x = (r, y)" and left: "fk_responses x = drop (length (fk_calls x)) responses"
  show ?thesis
  proof (cases "length (fk_calls x) < length responses")
    case True
    from Cons_nth_drop_Suc [OF True] left have "fk_responses x = responses ! length (fk_calls x) # drop (Suc (length (fk_calls x))) responses"
      by simp
    then show ?thesis
      using call True
      by (auto simp: record_call_taking_response_def record_call_def next_response_def bind_op_def script_answer_def)
  next
    case False
    then show ?thesis
      using call left
      by (auto simp: record_call_taking_response_def record_call_def next_response_def bind_op_def script_answer_def)
  qed
qed

text \<open>One thread moves: its job stays, the calls may grow by the one it records, and the others are as before.\<close>

lemma fake_inv_move:
  assumes inv: "fake_inv canonical responds responses responder jobs s" and i: "i < length (fc_threads s)"
    and same: "thread_job th = thread_job (fc_threads s ! i)" "fk_responder y = fk_responder (fc_executor s)"
    and script: "\<not> responder \<Longrightarrow> fk_responses y = drop (length (fk_calls y)) responses"
    and calls: "fk_calls y = fk_calls (fc_executor s) @ new"
      "mset (position th) = mset (position (fc_threads s ! i)) + mset [length (fk_calls (fc_executor s))..<length (fk_calls y)]"
    and ok: "thread_ok canonical responds responses responder (fk_calls y) th"
  shows "fake_inv canonical responds responses responder jobs (s\<lparr>fc_executor := y, fc_threads := (fc_threads s)[i := th]\<rparr>)"
proof -
  have "mset (concat (map position ((fc_threads s)[i := th]))) = mset [0..<length (fk_calls y)]"
  proof -
    have "mset (concat (map position (fc_threads s))) = mset [0..<length (fk_calls (fc_executor s))]"
      using inv by (simp add: fake_inv_def Let_def)
    moreover have "mset [0..<length (fk_calls y)] =
        mset [0..<length (fk_calls (fc_executor s))] + mset [length (fk_calls (fc_executor s))..<length (fk_calls y)]"
      by (simp add: calls(1) upt_add_eq_append [of 0, simplified])
    ultimately show ?thesis using concat_update [OF i, of position th] calls(2) by (simp add: ac_simps)
  qed
  moreover have "map thread_job ((fc_threads s)[i := th]) = map thread_job (fc_threads s)"
    using same(1) i by (simp add: map_update list_update_same_conv)
  moreover have "thread_ok canonical responds responses responder (fk_calls y) u" if "u \<in> set ((fc_threads s)[i := th])" for u
  proof -
    have "thread_ok canonical responds responses responder (fk_calls (fc_executor s)) u \<Longrightarrow>
        thread_ok canonical responds responses responder (fk_calls y) u"
      unfolding calls(1) by (auto simp: thread_ok_def nth_append split: fake_thread.splits option.splits if_splits)
    moreover have "u = th \<or> u \<in> set (fc_threads s)" using that set_update_subset_insert [of "fc_threads s" i th] by blast
    ultimately show ?thesis using inv ok by (auto simp: fake_inv_def Let_def)
  qed
  ultimately show ?thesis using inv same(2) script by (simp add: fake_inv_def Let_def)
qed

interpretation fake: invariant_system "fake_step canonical responds" "fake_inv canonical responds responses responder jobs"
  for canonical responds responses responder jobs
proof
  fix s i t
  assume inv: "fake_inv canonical responds responses responder jobs s" and "fake_step canonical responds s i t"
  then have facts: "fk_responder (fc_executor s) = responder"
    "\<not> responder \<Longrightarrow> fk_responses (fc_executor s) = drop (length (fk_calls (fc_executor s))) responses"
    "j < length (fc_threads s) \<Longrightarrow> thread_ok canonical responds responses responder (fk_calls (fc_executor s)) (fc_threads s ! j)" for j
    by (simp_all add: fake_inv_def Let_def)
  from \<open>fake_step canonical responds s i t\<close> show "fake_inv canonical responds responses responder jobs t"
  proof cases
    case (refused job e)
    then show ?thesis
      using fake_inv_move [OF inv refused(2), of "Answered job None (Inl e)" "fc_executor s" "[]"] facts(2)
      by (simp add: facts(1) thread_ok_def)
  next
    case (scripted job r x)
    then have "fk_responses (fc_executor s) = drop (length (fk_calls (fc_executor s))) responses" using facts by simp
    from scripted_effect [OF scripted(6) this] show ?thesis
      unfolding scripted(1)
      by (intro fake_inv_move [OF inv scripted(2), where new = "[job]"]) (use scripted facts(1) in \<open>auto simp: thread_ok_def\<close>)
  next
    case (recorded job x)
    then show ?thesis
      unfolding recorded(1)
      by (intro fake_inv_move [OF inv recorded(2), where new = "[job]"]) (use facts(1) in \<open>auto simp: thread_ok_def record_call_def\<close>)
  next
    case (responded job k r)
    then show ?thesis
      using fake_inv_move [OF inv responded(2), of "Answered job (Some k) (bind_result r fake_receipted)" "fc_executor s" "[]"]
        facts(2) facts(3) [OF responded(2)]
      by (auto simp: facts(1) thread_ok_def)
  qed
qed

section \<open>Properties\<close>

text \<open>
  The scripted executor is a queue of answers. For any number of threads and every interleaving of
  their calls, each thread keeps its job; a call the declaration gate refuses is not recorded; every
  recorded call belongs to exactly one thread; and the k-th recorded call is answered by the k-th
  scripted response, or refused when that carries no fake receipt or the script is exhausted.
\<close>

theorem fake_serves_script:
  assumes "FakeExecutor_new responses False = Inr x" and "trace (fake_step canonical responds) (fake_start x jobs) is s"
  shows "map thread_job (fc_threads s) = jobs \<and>
    fk_responses (fc_executor s) = drop (length (fk_calls (fc_executor s))) responses \<and>
    mset (concat (map position (fc_threads s))) = mset [0..<length (fk_calls (fc_executor s))] \<and>
    (\<forall>job k r. Answered job k r \<in> set (fc_threads s) \<longrightarrow>
      (case k of
         None \<Rightarrow> \<exists>e. validate_declaration canonical job = Inl e \<and> r = Inl e
       | Some k \<Rightarrow> k < length (fk_calls (fc_executor s)) \<and> fk_calls (fc_executor s) ! k = job \<and> r = script_answer responses k))"
proof -
  have "map thread_job (map Called jobs) = jobs" "concat (map position (map Called jobs)) = []" by (induction jobs) simp_all
  then have "fake_inv canonical responds responses False jobs (fake_start x jobs)"
    using assms(1) by (auto simp: fake_inv_def Let_def fake_start_def FakeExecutor_new_def thread_ok_def split: if_splits)
  from fake.trace_inv [OF assms(2) this] show ?thesis
    by (fastforce simp: fake_inv_def Let_def thread_ok_def split: option.split fake_thread.splits)
qed

text \<open>Two threads, one scripted response: the second call finds the script exhausted.\<close>

definition fake_job :: ExecutionJob where
  "fake_job = \<lparr>job_id = 1, job_target = InProcessImportableJsonTarget \<lparr>ep_module_name = ''m'', ep_attribute_name = ''f''\<rparr>
       \<lparr>doc_schema = ''s'', doc_schema_version = 1, doc_payload = JNull\<rparr>,
     job_env = \<lparr>eg_kind = EnvGrantKind.NONE, eg_variables = [], eg_excluded_var_names = []\<rparr>,
     job_budgets = Budgets_unbudgeted, job_workspace = WorkingDirectoryGrant_scratch\<rparr>"

lemma fake_job_admitted: "validate_declaration (\<lambda>_. []) fake_job = Inr ()"
  by (simp add: validate_declaration_def fake_job_def validate_input_budget_def validate_working_directory_grant_def
      WorkingDirectoryGrant_scratch_def Budgets_unbudgeted_def)

theorem fake_serves_script_witness:
  "\<exists>x s. FakeExecutor_new [c] False = Inr x \<and> trace (fake_step (\<lambda>_. []) (\<lambda>_ _. False)) (fake_start x [fake_job, fake_job]) [1, 0] s \<and>
    fk_calls (fc_executor s) = [fake_job, fake_job] \<and> fk_responses (fc_executor s) = []"
proof -
  let ?x = "\<lparr>fk_responses = [c], fk_responder = False, fk_calls = []\<rparr>"
  let ?y = "\<lparr>fk_responses = [], fk_responder = False, fk_calls = [fake_job]\<rparr>"
  let ?step = "fake_step (\<lambda>_. []) (\<lambda>_ _. False)" and ?start = "fake_start ?x [fake_job, fake_job]"
  define t where "t = ?start\<lparr>fc_executor := ?y, fc_threads := (fc_threads ?start)[1 := Answered fake_job (Some (length (fk_calls (fc_executor ?start))))
    (bind_result (Inr c) fake_receipted)]\<rparr>"
  obtain r z where second: "record_call_taking_response fake_job ?y = (r, z)" by fastforce
  have x: "FakeExecutor_new [c] False = Inr ?x" by (simp add: FakeExecutor_new_def)
  have "?step ?start 1 t"
    unfolding t_def
    by (rule scripted [OF _ _ fake_job_admitted])
      (simp_all add: fake_start_def record_call_taking_response_def record_call_def next_response_def bind_op_def)
  moreover have "?step t 0 (t\<lparr>fc_executor := z, fc_threads := (fc_threads t)[0 := Answered fake_job (Some (length (fk_calls (fc_executor t))))
      (bind_result r fake_receipted)]\<rparr>)"
    by (rule scripted [OF _ _ fake_job_admitted]) (use second in \<open>simp_all add: t_def fake_start_def\<close>)
  ultimately obtain u where run: "trace ?step ?start [1, 0] u" "fc_executor u = z"
    using trace_Cons [of ?step ?start 1 t] trace_single [of ?step t 0] by fastforce
  have "fk_calls z = [fake_job, fake_job]"
    using second by (auto simp: record_call_taking_response_def record_call_def next_response_def bind_op_def)
  with fake_serves_script [OF x run(1)] run x show ?thesis by (intro exI [of _ ?x] exI [of _ u]) simp
qed

end
