(* ===== verification/Cancel.thy ===== *)
theory Cancel
  imports Kinds Effects
begin

text \<open>
  Cancellation, \<^verbatim>\<open>core/cancel.py\<close>: the one-shot token, and the context manager that turns the signals
  of the parent into its cancellation. Signals are delivered between any two steps of the main thread.
\<close>

section \<open>Tokens, handlers and signals\<close>

text \<open>
  What Python knows of a signal: the two default dispositions, its own handler for SIGINT, a callable
  (of the consumer, by number, or the \<^verbatim>\<open>forward\<close> of a token), or \<open>ForeignHandler\<close>: a handler that
  was not installed from Python, for which \<^verbatim>\<open>signal.signal\<close> answers \<^verbatim>\<open>None\<close>.
\<close>

datatype handler = SigDfl | SigIgn | DefaultIntHandler | Callable nat | Forward nat | ForeignHandler

text \<open>Exceptions of the main thread; \<open>Killed\<close> is the end of the process by a default disposition.\<close>

datatype interruption = KeyboardInterrupt | Killed int | CallableRaised nat | Refused py_exn | BodyRaised nat

definition SIGINT :: int where
  "SIGINT = 2"

definition SIGTERM :: int where
  "SIGTERM = 15"

record process =
  pr_handlers :: "int \<Rightarrow> handler"
  pr_cancelled :: "nat \<Rightarrow> bool"
  pr_called :: "nat list"

definition cancel :: "nat \<Rightarrow> (process, interruption, unit) op" where
  "cancel token s = (Inr (), s\<lparr>pr_cancelled := (pr_cancelled s)(token := True)\<rparr>)"

definition cancelled :: "nat \<Rightarrow> process \<Rightarrow> bool" where
  "cancelled token s = pr_cancelled s token"

text \<open>\<^verbatim>\<open>signal.signal\<close>: the previous handler, or the refusal of \<^verbatim>\<open>None\<close>.\<close>

definition install :: "int \<Rightarrow> handler \<Rightarrow> (process, interruption, handler) op" where
  "install signum h s =
     (if h = ForeignHandler then (Inl (Refused (TypeError ''signal handler must be callable'')), s)
      else (Inr (pr_handlers s signum), s\<lparr>pr_handlers := (pr_handlers s)(signum := h)\<rparr>))"

text \<open>A signal that arrives runs its handler; \<open>raising\<close> are the callables of the consumer that raise.\<close>

definition deliver :: "nat set \<Rightarrow> int \<Rightarrow> (process, interruption, unit) op" where
  "deliver raising signum s =
     (case pr_handlers s signum of
        SigDfl \<Rightarrow> (Inl (Killed signum), s)
      | SigIgn \<Rightarrow> (Inr (), s)
      | DefaultIntHandler \<Rightarrow> (Inl KeyboardInterrupt, s)
      | Callable n \<Rightarrow>
          ((if n \<in> raising then Inl (CallableRaised n) else Inr ()), s\<lparr>pr_called := pr_called s @ [n]\<rparr>)
      | Forward token \<Rightarrow> cancel token s
      | ForeignHandler \<Rightarrow> (Inr (), s))"

fun arrive :: "nat set \<Rightarrow> int list \<Rightarrow> (process, interruption, unit) op" where
  "arrive raising [] = return_op ()"
| "arrive raising (signum # signals) = bind_op (deliver raising signum) (\<lambda>_. arrive raising signals)"

section \<open>Forwarding\<close>

text \<open>
  \<^verbatim>\<open>with forward_parent_signals(token): body\<close>: both handlers are replaced before the \<^verbatim>\<open>try\<close>, and the
  \<^verbatim>\<open>finally\<close> restores them in the same order. The four lists are the signals that arrive before,
  between and after the installations and between the two restorations.
\<close>

record arrivals =
  ar_before :: "int list"
  ar_between :: "int list"
  ar_installed :: "int list"
  ar_restoring :: "int list"

definition restore :: "nat set \<Rightarrow> arrivals \<Rightarrow> handler \<Rightarrow> handler \<Rightarrow> (process, interruption, unit) op" where
  "restore raising ar old_term old_int =
     bind_op (install SIGTERM old_term) (\<lambda>_.
     bind_op (arrive raising (ar_restoring ar)) (\<lambda>_.
     bind_op (install SIGINT old_int) (\<lambda>_. return_op ())))"

definition forward_parent_signals ::
  "nat set \<Rightarrow> arrivals \<Rightarrow> bool \<Rightarrow> nat \<Rightarrow> (process, interruption, 'a) op \<Rightarrow> (process, interruption, 'a) op" where
  "forward_parent_signals raising ar on_main_thread token body =
     (if \<not> on_main_thread
      then raise_op (Refused (ValueError ''forward_parent_signals must be installed on the main thread''))
      else
        bind_op (arrive raising (ar_before ar)) (\<lambda>_.
        bind_op (install SIGTERM (Forward token)) (\<lambda>old_term.
        bind_op (arrive raising (ar_between ar)) (\<lambda>_.
        bind_op (install SIGINT (Forward token)) (\<lambda>old_int.
          finally_op (bind_op (arrive raising (ar_installed ar)) (\<lambda>_. body)) (restore raising ar old_term old_int))))))"

section \<open>What arrives\<close>

lemma deliver_handlers: "deliver raising signum s = (r, t) \<Longrightarrow> pr_handlers t = pr_handlers s"
  by (auto simp: deliver_def cancel_def split: handler.splits)

lemma arrive_handlers: "arrive raising signals s = (r, t) \<Longrightarrow> pr_handlers t = pr_handlers s"
proof (induction signals arbitrary: s)
  case (Cons signum signals)
  then show ?case
    using deliver_handlers by (fastforce simp: bind_op_def split: prod.splits sum.splits)
qed simp

lemma cancel_monotone:
  "arrive raising signals s = (r, t) \<Longrightarrow> cancelled token s \<Longrightarrow> cancelled token t"
proof (induction signals arbitrary: s)
  case (Cons signum signals)
  have "deliver raising signum s = (q, u) \<Longrightarrow> cancelled token u" for q u
    using Cons.prems(2) by (auto simp: deliver_def cancel_def cancelled_def split: handler.splits)
  then show ?case
    using Cons by (fastforce simp: bind_op_def split: prod.splits sum.splits)
qed simp

text \<open>While both signals are forwarded they only cancel the token.\<close>

lemma arrive_forwarded:
  assumes "\<forall>signum\<in>set signals. pr_handlers s signum = Forward token"
  shows "arrive raising signals s = (Inr (), s\<lparr>pr_cancelled := (pr_cancelled s)(token := cancelled token s \<or> signals \<noteq> [])\<rparr>)"
  using assms
proof (induction signals arbitrary: s)
  case Nil
  then show ?case by (simp add: cancelled_def fun_upd_idem)
next
  case (Cons signum signals)
  let ?u = "s\<lparr>pr_cancelled := (pr_cancelled s)(token := True)\<rparr>"
  have "deliver raising signum s = (Inr (), ?u)" using Cons.prems by (simp add: deliver_def cancel_def)
  moreover have "arrive raising signals ?u = (Inr (), ?u\<lparr>pr_cancelled := (pr_cancelled ?u)(token := cancelled token ?u \<or> signals \<noteq> [])\<rparr>)"
    using Cons.prems by (intro Cons.IH) simp
  ultimately show ?case by (simp add: bind_op_def cancelled_def fun_upd_def)
qed

lemma signals_differ [simp]: "SIGINT \<noteq> SIGTERM" "SIGTERM \<noteq> SIGINT"
  by (simp_all add: SIGINT_def SIGTERM_def)

definition raises :: "nat set \<Rightarrow> handler \<Rightarrow> bool" where
  "raises raising h \<longleftrightarrow> h = SigDfl \<or> h = DefaultIntHandler \<or> (\<exists>n\<in>raising. h = Callable n)"

lemma raises_Forward [simp]: "\<not> raises raising (Forward token)"
  by (simp add: raises_def)

text \<open>Signals whose handlers do not raise let the thread go on, and cancel what they are forwarded to.\<close>

lemma arrive_quiet:
  assumes "\<forall>signum\<in>set signals. \<not> raises raising (pr_handlers s signum)"
  obtains t where "arrive raising signals s = (Inr (), t)" and "pr_handlers t = pr_handlers s"
    and "\<And>signum token. signum \<in> set signals \<Longrightarrow> pr_handlers s signum = Forward token \<Longrightarrow> cancelled token t"
    and "\<And>token. cancelled token s \<Longrightarrow> cancelled token t"
proof -
  have "\<exists>t. arrive raising signals s = (Inr (), t) \<and>
      (\<forall>signum\<in>set signals. \<forall>token. pr_handlers s signum = Forward token \<longrightarrow> cancelled token t)"
    using assms
  proof (induction signals arbitrary: s)
    case (Cons signum signals)
    obtain u where u: "deliver raising signum s = (Inr (), u)" "\<forall>token. pr_handlers s signum = Forward token \<longrightarrow> cancelled token u"
      using Cons.prems
      by (cases "pr_handlers s signum") (force simp: deliver_def cancel_def cancelled_def raises_def)+
    have same: "pr_handlers u = pr_handlers s" by (rule deliver_handlers [OF u(1)])
    obtain t where t: "arrive raising signals u = (Inr (), t)"
      "\<forall>signum\<in>set signals. \<forall>token. pr_handlers u signum = Forward token \<longrightarrow> cancelled token t"
      using Cons.IH [of u] Cons.prems by (auto simp: same)
    then show ?case using u cancel_monotone [OF t(1)] same by (auto simp: bind_op_def)
  qed simp
  then show ?thesis using that arrive_handlers cancel_monotone by metis
qed

section \<open>Properties\<close>


text \<open>A body that runs on while a SIGTERM and a SIGINT arrive, over Python's initial handlers.\<close>

definition sample_process :: process where
  "sample_process =
     \<lparr>pr_handlers = (\<lambda>signum. if signum = SIGINT then DefaultIntHandler else SigDfl), pr_cancelled = (\<lambda>_. False), pr_called = []\<rparr>"


text \<open>
  The installations are outside the \<^verbatim>\<open>try\<close>: a SIGINT that arrives between them raises
  \<^verbatim>\<open>KeyboardInterrupt\<close>, and the process goes on with SIGTERM forwarded to a token nobody watches.
\<close>

lemma interrupted_installation_keeps_forwarding:
  assumes "pr_handlers s SIGINT = DefaultIntHandler" and "ar_before ar = []" and "ar_between ar = SIGINT # signals"
  shows "forward_parent_signals raising ar True token body s =
    (Inl KeyboardInterrupt, s\<lparr>pr_handlers := (pr_handlers s)(SIGTERM := Forward token)\<rparr>)"
  using assms by (simp add: forward_parent_signals_def bind_op_def install_def deliver_def)

text \<open>
  A previous handler that was not installed from Python cannot be restored: \<^verbatim>\<open>signal.signal\<close> refuses
  \<^verbatim>\<open>None\<close>, the body's outcome is lost and SIGINT stays forwarded.
\<close>

lemma foreign_handler_not_restored:
  assumes "pr_handlers s SIGTERM = ForeignHandler" and "ar_before ar = []" "ar_between ar = []" "ar_installed ar = []"
    and "body (s\<lparr>pr_handlers := (pr_handlers s)(SIGTERM := Forward token, SIGINT := Forward token)\<rparr>) = (r, v)"
  shows "forward_parent_signals raising ar True token body s =
    (Inl (Refused (TypeError ''signal handler must be callable'')), v)"
  using assms by (simp add: forward_parent_signals_def bind_op_def install_def finally_op_def restore_def fun_upd_twist)

end
