(* ===== verification/Offload.thy ===== *)
theory Offload
  imports Kinds
begin

text \<open>
  Blocking calls off the event loop, \<^verbatim>\<open>scheduling/offload.py\<close>: the daemon thread of
  \<^verbatim>\<open>offload_blocking_daemon\<close>, the callback it puts on the loop, the future and the coroutine that
  awaits it, as one step relation over every interleaving of the three and of cancellation.
\<close>

section \<open>States and steps\<close>

text \<open>
  The thread, before and during the call, with the outcome it is about to hand over, and ended; the
  future; and the coroutine. \<open>'a\<close> are the call's results; an exception is an outcome as well.
\<close>

datatype 'a daemon = Unstarted | Calling | Delivering "(py_exn, 'a) result" | Over

datatype 'a future = FuturePending | FutureCancelled | FutureDone "(py_exn, 'a) result"

datatype 'a coroutine = Suspended | CoroutineRaised py_exn | CoroutineGot "(py_exn, 'a) result" | CoroutineCancelled

record 'a offload =
  of_daemon :: "'a daemon"
  of_callbacks :: "(py_exn, 'a) result list"
  of_future :: "'a future"
  of_coroutine :: "'a coroutine"
  of_loop_closed :: bool

definition offload_start :: "'a offload" where
  "offload_start =
     \<lparr>of_daemon = Unstarted, of_callbacks = [], of_future = FuturePending, of_coroutine = Suspended, of_loop_closed = False\<rparr>"

text \<open>\<^verbatim>\<open>_deliver_result\<close> and \<^verbatim>\<open>_deliver_exception\<close>: a future that is done is left alone.\<close>

definition deliver_outcome :: "(py_exn, 'a) result \<Rightarrow> 'a future \<Rightarrow> 'a future" where
  "deliver_outcome outcome f = (case f of FuturePending \<Rightarrow> FutureDone outcome | _ \<Rightarrow> f)"

datatype 'a offload_event =
    StartDaemon | StartFails py_exn | CallEnds "(py_exn, 'a) result" | Schedule | ScheduleRefused | RunCallback | CancelCoroutine | Resume | CloseLoop

inductive offload_step :: "'a offload \<Rightarrow> 'a offload_event \<Rightarrow> 'a offload \<Rightarrow> bool" where
  start_daemon [step_intros]:
    "of_daemon s = Unstarted \<Longrightarrow> of_coroutine s = Suspended \<Longrightarrow> of_future s = FuturePending \<Longrightarrow>
       offload_step s StartDaemon (s\<lparr>of_daemon := Calling\<rparr>)"
| start_fails [step_intros]:
    "of_daemon s = Unstarted \<Longrightarrow> of_coroutine s = Suspended \<Longrightarrow> of_future s = FuturePending \<Longrightarrow>
       offload_step s (StartFails e) (s\<lparr>of_daemon := Over, of_coroutine := CoroutineRaised e\<rparr>)"
| call_ends [step_intros]:
    "of_daemon s = Calling \<Longrightarrow> offload_step s (CallEnds outcome) (s\<lparr>of_daemon := Delivering outcome\<rparr>)"
| schedule [step_intros]:
    "of_daemon s = Delivering outcome \<Longrightarrow> \<not> of_loop_closed s \<Longrightarrow>
       offload_step s Schedule (s\<lparr>of_daemon := Over, of_callbacks := of_callbacks s @ [outcome]\<rparr>)"
| schedule_refused [step_intros]:
    "of_daemon s = Delivering outcome \<Longrightarrow> of_loop_closed s \<Longrightarrow> offload_step s ScheduleRefused (s\<lparr>of_daemon := Over\<rparr>)"
| run_callback [step_intros]:
    "of_callbacks s = outcome # rest \<Longrightarrow> \<not> of_loop_closed s \<Longrightarrow>
       offload_step s RunCallback (s\<lparr>of_callbacks := rest, of_future := deliver_outcome outcome (of_future s)\<rparr>)"
| cancel_waiting [step_intros]:
    "of_coroutine s = Suspended \<Longrightarrow> of_daemon s \<noteq> Unstarted \<Longrightarrow> of_future s = FuturePending \<Longrightarrow> \<not> of_loop_closed s \<Longrightarrow>
       offload_step s CancelCoroutine (s\<lparr>of_future := FutureCancelled\<rparr>)"
| cancel_answered [step_intros]:
    "of_coroutine s = Suspended \<Longrightarrow> of_future s = FutureDone outcome \<Longrightarrow> \<not> of_loop_closed s \<Longrightarrow>
       offload_step s CancelCoroutine (s\<lparr>of_coroutine := CoroutineCancelled\<rparr>)"
| resume_cancelled [step_intros]:
    "of_coroutine s = Suspended \<Longrightarrow> of_future s = FutureCancelled \<Longrightarrow> \<not> of_loop_closed s \<Longrightarrow>
       offload_step s Resume (s\<lparr>of_coroutine := CoroutineCancelled\<rparr>)"
| resume_answered [step_intros]:
    "of_coroutine s = Suspended \<Longrightarrow> of_future s = FutureDone outcome \<Longrightarrow> \<not> of_loop_closed s \<Longrightarrow>
       offload_step s Resume (s\<lparr>of_coroutine := CoroutineGot outcome\<rparr>)"
| close_loop [step_intros]:
    "\<not> of_loop_closed s \<Longrightarrow> offload_step s CloseLoop (s\<lparr>of_loop_closed := True\<rparr>)"

inductive_cases offload_stepE: "offload_step s e t"

section \<open>The invariant\<close>

text \<open>The outcomes the call has had, of which there is at most one.\<close>

fun ended :: "'a offload_event list \<Rightarrow> (py_exn, 'a) result list" where
  "ended [] = []"
| "ended (CallEnds outcome # es) = outcome # ended es"
| "ended (_ # es) = ended es"

lemma ended_append [simp]: "ended (es @ fs) = ended es @ ended fs"
  by (induction es rule: ended.induct) simp_all

text \<open>Where the one outcome is: with the thread, on the loop, in the future, or dropped.\<close>

definition offload_inv :: "'a offload_event list \<Rightarrow> 'a offload \<Rightarrow> bool" where
  "offload_inv es s =
     ((case of_daemon s of
         Unstarted \<Rightarrow> ended es = [] \<and> of_callbacks s = [] \<and> of_future s = FuturePending \<and> of_coroutine s = Suspended
       | Calling \<Rightarrow> ended es = [] \<and> of_callbacks s = [] \<and> (\<forall>x. of_future s \<noteq> FutureDone x)
       | Delivering outcome \<Rightarrow> ended es = [outcome] \<and> of_callbacks s = [] \<and> (\<forall>x. of_future s \<noteq> FutureDone x)
       | Over \<Rightarrow>
           (\<exists>e. of_coroutine s = CoroutineRaised e \<and> ended es = [] \<and> of_callbacks s = [] \<and> of_future s = FuturePending) \<or>
           (\<exists>outcome. ended es = [outcome] \<and> (\<forall>x. of_future s = FutureDone x \<longrightarrow> x = outcome) \<and>
             (of_callbacks s = [outcome] \<and> (\<forall>x. of_future s \<noteq> FutureDone x) \<or>
              of_callbacks s = [] \<and> (of_future s = FuturePending \<longrightarrow> of_loop_closed s)))) \<and>
      (\<forall>x. of_coroutine s = CoroutineGot x \<longrightarrow> of_future s = FutureDone x) \<and>
      (of_coroutine s = CoroutineCancelled \<longrightarrow> CancelCoroutine \<in> set es) \<and>
      (of_future s = FutureCancelled \<longrightarrow> CancelCoroutine \<in> set es) \<and>
      (of_coroutine s = CoroutineCancelled \<longrightarrow> of_future s \<noteq> FuturePending) \<and>
      (\<forall>e. of_coroutine s = CoroutineRaised e \<longrightarrow> of_daemon s = Over \<and> ended es = []))"

lemma offload_inv_start: "offload_inv [] offload_start"
  by (simp add: offload_inv_def offload_start_def)

lemma offload_inv_step:
  assumes "offload_inv es s" and "offload_step s e t"
  shows "offload_inv (es @ [e]) t"
  using assms(2,1)
  by (cases rule: offload_step.cases) (auto simp: offload_inv_def deliver_outcome_def split: daemon.splits future.splits)

lemma offload_reaches: "trace offload_step s es t \<Longrightarrow> s = offload_start \<Longrightarrow> offload_inv es t"
  by (induction rule: trace.induct) (auto intro: offload_inv_start offload_inv_step)

section \<open>Properties\<close>

text \<open>The steps of the thread and the loop, without the consumer's.\<close>

fun own_step :: "'a offload_event \<Rightarrow> bool" where
  "own_step Schedule = True"
| "own_step RunCallback = True"
| "own_step Resume = True"
| "own_step _ = False"

text \<open>
  C40: an offloaded call is answered once, with its own outcome. In every interleaving a coroutine
  that has got an outcome got the one the call ended with, and one that is cancelled was cancelled by
  its consumer. When the call has ended, the loop is open and the coroutine still waits, at most
  three further steps of the thread and the loop end it, with the outcome of the call unless the
  consumer cancelled it.
\<close>

theorem offload_answers_once:
  assumes "trace offload_step offload_start es s"
  shows "(\<forall>x. of_coroutine s = CoroutineGot x \<longrightarrow> ended es = [x]) \<and>
    (of_coroutine s = CoroutineCancelled \<longrightarrow> CancelCoroutine \<in> set es) \<and>
    (ended es \<noteq> [] \<and> of_coroutine s = Suspended \<and> \<not> of_loop_closed s \<longrightarrow>
      (\<exists>fs t. length fs \<le> 3 \<and> list_all own_step fs \<and> trace offload_step s fs t \<and>
        of_coroutine t = (if of_future s = FutureCancelled then CoroutineCancelled else CoroutineGot (hd (ended es)))))"
proof -
  have inv: "offload_inv es s" by (rule offload_reaches [OF assms refl])
  have got: "\<forall>x. of_coroutine s = CoroutineGot x \<longrightarrow> ended es = [x]" "of_coroutine s = CoroutineCancelled \<longrightarrow> CancelCoroutine \<in> set es"
    using inv by (auto simp: offload_inv_def split: daemon.splits)
  have resumed: "\<exists>t. trace offload_step u [Resume] t \<and>
      of_coroutine t = (if of_future u = FutureCancelled then CoroutineCancelled else CoroutineGot x)"
    if "of_coroutine u = Suspended" "\<not> of_loop_closed u" "of_future u = FutureCancelled \<or> of_future u = FutureDone x" for u x
    using that(3)
  proof
    assume f: "of_future u = FutureCancelled"
    show ?thesis using trace_single [of offload_step, OF resume_cancelled [OF that(1) f that(2)]] f by fastforce
  next
    assume f: "of_future u = FutureDone x"
    show ?thesis using trace_single [of offload_step, OF resume_answered [OF that(1) f that(2)]] f by fastforce
  qed
  have called: "\<exists>fs t. length fs \<le> 2 \<and> list_all own_step fs \<and> trace offload_step u fs t \<and>
      of_coroutine t = (if of_future u = FutureCancelled then CoroutineCancelled else CoroutineGot x)"
    if u: "of_coroutine u = Suspended" "\<not> of_loop_closed u" "of_callbacks u = [x]" "\<forall>y. of_future u \<noteq> FutureDone y" for u x
  proof -
    let ?v = "u\<lparr>of_callbacks := [], of_future := deliver_outcome x (of_future u)\<rparr>"
    have "of_future ?v = (if of_future u = FutureCancelled then FutureCancelled else FutureDone x)"
      using u(4) by (cases "of_future u") (auto simp: deliver_outcome_def)
    moreover from this obtain t where "trace offload_step ?v [Resume] t"
      "of_coroutine t = (if of_future ?v = FutureCancelled then CoroutineCancelled else CoroutineGot x)"
      using resumed [of ?v x] u by (auto split: if_splits)
    ultimately show ?thesis
      using trace_Cons [of offload_step, OF run_callback [OF u(3,2)]] by (intro exI [of _ "[RunCallback, Resume]"] exI [of _ t]) (auto split: if_splits)
  qed
  have "\<exists>fs t. length fs \<le> 3 \<and> list_all own_step fs \<and> trace offload_step s fs t \<and>
      of_coroutine t = (if of_future s = FutureCancelled then CoroutineCancelled else CoroutineGot (hd (ended es)))"
    if open_: "ended es \<noteq> []" "of_coroutine s = Suspended" "\<not> of_loop_closed s"
  proof (cases "of_daemon s")
    case (Delivering x)
    let ?u = "s\<lparr>of_daemon := Over, of_callbacks := [x]\<rparr>"
    have facts: "ended es = [x]" "of_callbacks s = []" "\<forall>y. of_future s \<noteq> FutureDone y"
      using inv Delivering by (simp_all add: offload_inv_def)
    obtain fs t where "length fs \<le> 2" "list_all own_step fs" "trace offload_step ?u fs t"
      "of_coroutine t = (if of_future s = FutureCancelled then CoroutineCancelled else CoroutineGot x)"
      using called [of ?u x] open_ facts by auto
    then show ?thesis
      using trace_Cons [of offload_step s Schedule ?u fs t] schedule [OF Delivering open_(3)] facts
      by (intro exI [of _ "Schedule # fs"] exI [of _ t]) auto
  next
    case Over
    then obtain x where x: "ended es = [x]" "\<forall>y. of_future s = FutureDone y \<longrightarrow> y = x"
      "of_callbacks s = [x] \<and> (\<forall>y. of_future s \<noteq> FutureDone y) \<or> of_callbacks s = [] \<and> of_future s \<noteq> FuturePending"
      using inv open_ by (auto simp: offload_inv_def)
    show ?thesis
    proof (cases "of_callbacks s = [x]")
      case True
      then obtain fs t where "length fs \<le> 2" "list_all own_step fs" "trace offload_step s fs t"
        "of_coroutine t = (if of_future s = FutureCancelled then CoroutineCancelled else CoroutineGot x)"
        using called [OF open_(2,3) True] x(3) by auto
      then show ?thesis using x(1) by (intro exI [of _ fs] exI [of _ t]) simp
    next
      case False
      then have "of_future s = FutureCancelled \<or> of_future s = FutureDone x" using x by (cases "of_future s") auto
      then obtain t where "trace offload_step s [Resume] t"
        "of_coroutine t = (if of_future s = FutureCancelled then CoroutineCancelled else CoroutineGot x)"
        using resumed [OF open_(2,3)] by blast
      then show ?thesis using x(1) by (intro exI [of _ "[Resume]"] exI [of _ t]) simp
    qed
  qed (use inv open_ in \<open>simp_all add: offload_inv_def\<close>)
  with got show ?thesis by blast
qed

theorem offload_answers_once_witness:
  "\<exists>s fs t. trace offload_step offload_start [StartDaemon, CallEnds (Inr (5 :: nat))] s \<and> trace offload_step s fs t \<and>
    length fs \<le> 3 \<and> of_coroutine t = CoroutineGot (Inr 5)"
proof -
  let ?s = "(offload_start :: nat offload)\<lparr>of_daemon := Calling\<rparr>"
  have "trace offload_step offload_start ([] @ [StartDaemon]) ?s"
    by (rule trace_snoc [of offload_step, OF trace_nil start_daemon]) (simp_all add: offload_start_def)
  then have run: "trace offload_step offload_start [StartDaemon, CallEnds (Inr 5)] (?s\<lparr>of_daemon := Delivering (Inr 5)\<rparr>)"
    using trace_snoc [of offload_step, OF _ call_ends, of offload_start "[StartDaemon]" ?s "Inr 5"] by simp
  from offload_answers_once [OF run] run show ?thesis by (fastforce simp: offload_start_def)
qed

end
