(* ===== verification/Spec2Isabelle.thy ===== *)
theory Spec2Isabelle
  imports Protocol WorkerPool Spawn Driver Durations Executors Fake Cancel Offload
begin

text \<open>
  A verification development for \<^verbatim>\<open>dr-exec\<close>, the execution library under \<^verbatim>\<open>src/src/dr_exec\<close>. The library
  runs declared jobs (a command, a Python driver, or an importable JSON entry point) and returns one
  completion per job: an outcome with the party it is attributed to, the protocol outputs, the
  retained payload output, measurements, and a receipt that says what became of the durable record.

  \<^bold>\<open>How the parts interact.\<close> A caller declares a job; every executor runs the declaration gate first.
  The process executor hands the job to the engine, which resolves the target (through the runtime
  for Python targets), prepares the record in the run store, launches the spawn helper, reads its
  status line, marks the record as running, drains the streams and the protected protocol that the
  child-side wrapper writes, waits, tears the process group down, and finalizes the record. The
  in-process and the worker-pool executors run importable JSON entry points without a record. Batches
  and pools drive any executor through one scheduler of worker threads; what they need of an
  executor is the locale \<open>executor\<close>, interpreted for the three of them. What the engine needs of a
  store are the locales \<open>run_handles\<close> and \<open>run_store\<close>, interpreted for the directory store, alone and
  shared with concurrent runs.

  \<^bold>\<open>Conventions.\<close> A Python call is a value of \<open>py_exn + 'a\<close>; a statement sequence that changes a state is
  an \<open>op\<close> (\<open>Effects\<close>), a function from the state to a result and the state it leaves, also when it
  raises. Pydantic models are records and datatypes, and their validators are boolean functions
  (\<open>..._ok\<close>) or fallible constructors (\<open>..._new\<close>). Threads, processes, the event loop and signals are
  steps: \<open>trace step s es t\<close> is a run with the events \<open>es\<close>, and a property of every trace is a property
  of every interleaving. What the operating system, the clocks, a payload and other packages answer
  are arguments.

  \<^bold>\<open>Vocabulary and declarations.\<close>
  \<^item> \<open>Prelude\<close>, \<open>Effects\<close>: results, operations, traces, the locales \<open>str_enum\<close> and \<open>invariant_system\<close>.
  \<^item> \<open>Kinds\<close>: \<^verbatim>\<open>core/kinds.py\<close>, \<^verbatim>\<open>core/errors.py\<close>; each enum is an interpretation of \<open>str_enum\<close>.
  \<^item> \<open>Scalars\<close>, \<open>Json\<close>: the pinned spellings of \<^verbatim>\<open>core/model.py\<close>, JSON values and identity documents
    (\<^verbatim>\<open>core/identity.py\<close>); every spelling is shown to be a bijection.
  \<^item> \<open>Declarations\<close>, \<open>Durations\<close>: \<^verbatim>\<open>declarations/models.py\<close>; \<open>Durations\<close> does the conversion of seconds on
    the bits of a double, with its error bound.
  \<^item> \<open>Validation\<close>: the declaration gate of \<^verbatim>\<open>declarations/validation.py\<close>, exactly what it admits.
  \<^item> \<open>Runtime\<close>, \<open>Identity\<close>, \<open>Records\<close>: \<^verbatim>\<open>runtime/identity.py\<close>, \<^verbatim>\<open>probe.py\<close>, \<^verbatim>\<open>host.py\<close>; provenance and identities
    of \<^verbatim>\<open>recording/\<close>; the boundary models of \<^verbatim>\<open>recording/models.py\<close>, with the identities the engine builds
    accepted by their own validators.

  \<^bold>\<open>Output and protocol.\<close>
  \<^item> \<open>Retention\<close>: \<^verbatim>\<open>execution/outcomes.py\<close> and \<^verbatim>\<open>retention.py\<close>; the chunked buffers keep what a function of
    the whole stream says, within the budget.
  \<^item> \<open>Protocol\<close>: \<^verbatim>\<open>runtime/wire.py\<close>, \<^verbatim>\<open>runtime/protocol.py\<close>; the reader accepts exactly the framed
    conversations, agrees with a reader that cuts the whole stream, and respects its budgets.
  \<^item> \<open>Driver\<close>: the wrapper body of \<^verbatim>\<open>runtime/bootstrap.py\<close> that runs in the child; what a driver emits
    is what the reader of \<open>Protocol\<close> accepts.

  \<^bold>\<open>Scheduling.\<close>
  \<^item> \<open>Scheduler\<close>, \<open>Batch\<close>: \<^verbatim>\<open>scheduling/scheduler.py\<close>; bounds, exactly-once delivery, no stranded driver, and
    a batch that yields every job and ends within a number of steps linear in its jobs.
  \<^item> \<open>Pool\<close>, \<open>Streams\<close>: \<^verbatim>\<open>scheduling/pool.py\<close>; each stream gets its own completions once, no wake-up is lost,
    and what each state of the pool's life cycle implies.
  \<^item> \<open>Offload\<close>: \<^verbatim>\<open>scheduling/offload.py\<close>; an awaited call is answered once, with its own outcome.
  \<^item> \<open>Cancel\<close>: \<^verbatim>\<open>core/cancel.py\<close>; signals of the parent become cancellation, and handlers are restored.

  \<^bold>\<open>Importable JSON.\<close>
  \<^item> \<open>ErrorDetail\<close>, \<open>ImportableJson\<close>: \<^verbatim>\<open>importable_json.py\<close> and \<^verbatim>\<open>execution/importable_json_executor.py\<close>; the bound
    of the rendered detail, the end-to-end meaning of a result, and a wall clock that steps back.
  \<^item> \<open>Worker\<close>, \<open>WorkerPool\<close>: \<^verbatim>\<open>execution/worker_pool_worker.py\<close> and \<^verbatim>\<open>worker_pool.py\<close>; the frame exchange agrees
    with the in-process executor, a job gets the answer to its own request, and a closed pool leaves
    no process.

  \<^bold>\<open>Processes and records.\<close>
  \<^item> \<open>Spawn\<close>: the helper of \<^verbatim>\<open>execution/spawn.py\<close> on a table of open descriptors, and its status line.
  \<^item> \<open>Store\<close>: \<^verbatim>\<open>recording/store.py\<close> over record directories and a list of faults; it refines a partial
    map of records, and its receipts are truthful under any faults.
  \<^item> \<open>EngineParts\<close>, \<open>Engine\<close>: \<^verbatim>\<open>execution/engine.py\<close>, first the loops and decisions, then the attempt itself as
    an \<open>op\<close> on the store, the transports and a log of every effect (\<open>run_execution\<close> is \<^verbatim>\<open>_EngineCall.run\<close>).
    The proofs are triples over \<open>op\<close>: every descriptor is closed once and the child is reaped.
  \<^item> \<open>EngineRuns\<close>, \<open>EngineStore\<close>: the order of the effects on child and record, what a completion reports
    of the payload, and that a complete receipt means a finalized record with this result.
  \<^item> \<open>Executors\<close>, \<open>Fake\<close>: \<^verbatim>\<open>execution/executor.py\<close> over a store that concurrent runs change between two
    calls, and the scripted executor of \<^verbatim>\<open>capabilities/fake.py\<close>.

  \<^bold>\<open>Bounds and fuel.\<close> No model has fuel. Loops over what the operating system answers are functions of
  the list of answers: a list that ends before the loop does means that it waits, and an engine
  operation that waits for good ends in \<open>Stuck\<close>, which no handler sees; the property of the failed
  selector shows such a run. Termination of the concurrent parts is a bound on the number of steps
  (\<open>batch_terminates\<close>, \<open>scheduler_never_strands_a_driver\<close>, \<open>offload_answers_once\<close>), and everything else is a
  total function. Floats are 64-bit words; integers of Python are \<open>int\<close>; a descriptor table has a limit.

  \<^bold>\<open>Not modelled.\<close> Pydantic, \<^verbatim>\<open>dr_serialize\<close>, \<^verbatim>\<open>dr_store\<close>, \<^verbatim>\<open>json\<close> and \<^verbatim>\<open>hashlib\<close> are parameters with named laws: their
  code is not in the repository. The three transport threads of an attempt are run to their end at
  the joins: they share with the parent only what the joins order, except the overflow flag, which
  the answers of the polls contain. A run keeps one view of the clocks. \<^verbatim>\<open>asyncio.to_thread\<close>, the context managers
  of the worker pool that only call \<^verbatim>\<open>close\<close>, and the text of its \<^verbatim>\<open>-c\<close> bootstrap are library calls or
  fixed text. \<^verbatim>\<open>__init__.py\<close> re-exports names. The scripts under \<^verbatim>\<open>src/scripts\<close> check the repository and its
  built distribution and are not part of the library.
\<close>

end
